(* ===== verification/Rub_Prelude.thy ===== *)
theory Rub_Prelude
  imports Main "HOL-Library.Word" "HOL-Library.AList_Mapping"
begin

text \<open>
  Shared ground of the development: the machine integers of the daemon, the Rust
  container idioms every runtime registry uses (a \<^verbatim>\<open>VecDeque\<close> trimmed from the front,
  \<^verbatim>\<open>iter().rev().take(n)\<close>, \<^verbatim>\<open>iter_mut().find(..)\<close>) and the generic lemmas about them.
  \<^item> \<^verbatim>\<open>u32\<close> and \<^verbatim>\<open>u64\<close> values are words: \<open>+\<close> wraps, as \<^verbatim>\<open>fetch_add\<close> and the release
    profile's \<open>+\<close> do; \<^verbatim>\<open>saturating_add\<close>/\<^verbatim>\<open>saturating_sub\<close> are written out.
  \<^item> \<^verbatim>\<open>usize\<close> values are lengths or byte totals: natural numbers, with the saturation at
    \<open>usize_max\<close> written out where the code saturates.
  \<^item> a \<^verbatim>\<open>HashMap\<close> is a \<open>mapping\<close>, a \<^verbatim>\<open>VecDeque\<close> or \<^verbatim>\<open>Vec\<close> is a list with the front first.
\<close>

section \<open>Machine integers\<close>

type_synonym u16 = "16 word"
type_synonym u32 = "32 word"
type_synonym u64 = "64 word"

named_theorems rub_word_simps \<open>facts that move word arithmetic of the model to \<open>nat\<close>\<close>
named_theorems rub_list_simps \<open>closed forms of the deque idioms\<close>

definition saturating_add :: "'a::len word \<Rightarrow> 'a word \<Rightarrow> 'a word" where
  "saturating_add a b = (if unat a + unat b < 2 ^ LENGTH('a) then a + b else - 1)"

definition saturating_sub :: "'a::len word \<Rightarrow> 'a word \<Rightarrow> 'a word" where
  "saturating_sub a b = (if b \<le> a then a - b else 0)"

definition usize_max :: nat where
  "usize_max = 2 ^ 64 - 1"

definition usize_saturating_add :: "nat \<Rightarrow> nat \<Rightarrow> nat" where
  "usize_saturating_add a b = min (a + b) usize_max"

lemma unat_saturating_add [rub_word_simps]:
  "unat (saturating_add a b) = min (unat a + unat b) (2 ^ LENGTH('a) - 1)"
  for a b :: "'a::len word"
proof (cases "unat a + unat b < 2 ^ LENGTH('a)")
  case True
  then have "unat (a + b) = unat a + unat b"
    by (simp add: unat_word_ariths)
  with True show ?thesis by (simp add: saturating_add_def)
next
  case False
  then show ?thesis by (simp add: saturating_add_def unsigned_minus_1_eq_mask mask_eq_exp_minus_1)
qed

lemma unat_saturating_sub [rub_word_simps]:
  "unat (saturating_sub a b) = unat a - unat b"
  by (auto simp: saturating_sub_def unat_sub_if_size unat_sub word_le_nat_alt)

lemma saturating_add_mono: "a \<le> saturating_add a b"
  by (simp add: word_le_nat_alt unat_saturating_add)
    (metis One_nat_def Suc_pred nat_zero_less_power_iff less_Suc_eq_le unsigned_less zero_less_numeral)

lemma unat_max [rub_word_simps]: "unat (max a b) = max (unat a) (unat b)"
  by (simp add: max_def word_le_nat_alt)

lemma unat_u64_bound: "unat a < 2 ^ 64" for a :: u64
  using unsigned_less [where 'b = 64 and 'a = nat] by simp

lemma unat_inc_u64 [rub_word_simps]:
  "unat a < 2 ^ 64 - 1 \<Longrightarrow> unat (a + 1) = Suc (unat a)" for a :: u64
  by (simp add: unat_word_ariths)

section \<open>Deque and vector idioms\<close>

text \<open>\<^verbatim>\<open>while q.len() > limit { q.pop_front(); }\<close>\<close>

fun pop_front_to :: "nat \<Rightarrow> 'a list \<Rightarrow> 'a list" where
  "pop_front_to limit [] = []"
| "pop_front_to limit (x # xs) =
     (if length (x # xs) > limit then pop_front_to limit xs else x # xs)"

lemma pop_front_to_drop [rub_list_simps]:
  "pop_front_to limit xs = drop (length xs - limit) xs"
  by (induction xs) (auto simp: Suc_diff_le)

text \<open>\<^verbatim>\<open>VecDeque::front\<close> and \<^verbatim>\<open>VecDeque::back\<close>.\<close>

definition deque_front :: "'a list \<Rightarrow> 'a option" where
  "deque_front xs = (case xs of [] \<Rightarrow> None | x # _ \<Rightarrow> Some x)"

definition deque_back :: "'a list \<Rightarrow> 'a option" where
  "deque_back xs = (if xs = [] then None else Some (last xs))"

text \<open>\<^verbatim>\<open>iter().rev().take(last.min(len))\<close>, collected and reversed back.\<close>

definition take_last :: "nat \<Rightarrow> 'a list \<Rightarrow> 'a list" where
  "take_last n xs = rev (take (min n (length xs)) (rev xs))"

lemma take_last_drop [rub_list_simps]: "take_last n xs = drop (length xs - n) xs"
  by (simp add: take_last_def take_rev min_def)

text \<open>\<^verbatim>\<open>iter_mut().find(p)\<close> followed by writes through the found reference.\<close>

fun update_first :: "('a \<Rightarrow> bool) \<Rightarrow> ('a \<Rightarrow> 'a) \<Rightarrow> 'a list \<Rightarrow> 'a list" where
  "update_first p f [] = []"
| "update_first p f (x # xs) = (if p x then f x # xs else x # update_first p f xs)"

text \<open>\<^verbatim>\<open>iter().position(p)\<close> followed by \<^verbatim>\<open>Vec::remove\<close>.\<close>

fun remove_first :: "('a \<Rightarrow> bool) \<Rightarrow> 'a list \<Rightarrow> 'a list" where
  "remove_first p [] = []"
| "remove_first p (x # xs) = (if p x then xs else x # remove_first p xs)"

lemma length_update_first [simp]: "length (update_first p f xs) = length xs"
  by (induction xs) auto

lemma update_first_id [simp]: "\<forall>x \<in> set xs. \<not> p x \<Longrightarrow> update_first p f xs = xs"
  by (induction xs) auto

lemma map_update_first [simp]:
  "(\<And>x. g (f x) = g x) \<Longrightarrow> map g (update_first p f xs) = map g xs"
  by (induction xs) auto

lemma find_update_first:
  "(\<And>x. p x \<Longrightarrow> p (f x)) \<Longrightarrow> List.find p (update_first p f xs) = map_option f (List.find p xs)"
  by (induction xs) auto

lemma find_update_first_other:
  "(\<And>x. p x \<Longrightarrow> \<not> q x) \<Longrightarrow> (\<And>x. p x \<Longrightarrow> \<not> q (f x)) \<Longrightarrow>
     List.find q (update_first p f xs) = List.find q xs"
  by (induction xs) auto

lemma set_update_first_subset:
  "set (update_first p f xs) \<subseteq> set xs \<union> f ` {x \<in> set xs. p x}"
  by (induction xs) auto

lemma set_remove_first_subset: "set (remove_first p xs) \<subseteq> set xs"
  by (induction xs) auto

lemma find_Some_set: "List.find p xs = Some x \<Longrightarrow> x \<in> set xs \<and> p x"
  by (auto simp: find_Some_iff)

lemma distinct_map_find:
  "distinct (map key xs) \<Longrightarrow> x \<in> set xs \<Longrightarrow> List.find (\<lambda>y. key y = key x) xs = Some x"
  by (induction xs) (auto simp: image_iff)

section \<open>Hash maps\<close>

lemma keys_lookup: "k \<in> Mapping.keys m \<longleftrightarrow> Mapping.lookup m k \<noteq> None"
  by (simp add: keys_dom_lookup dom_def)

lemma lookup_delete_if:
  "Mapping.lookup (Mapping.delete k m) k' = (if k' = k then None else Mapping.lookup m k')"
  by (simp add: lookup_delete lookup_delete_neq)

section \<open>Registries\<close>

text \<open>Entries in a vector, found by key: what a write to the first match, a removal, a push at the
  end or a pass over all entries does to a later search.\<close>

lemma update_first_find_None: "List.find p xs = None \<Longrightarrow> update_first p f xs = xs"
  by (simp add: find_None_iff)

lemma remove_first_find_None: "List.find p xs = None \<Longrightarrow> remove_first p xs = xs"
  by (induction xs) (auto split: if_splits)

lemma update_first_mem: "List.find p xs = Some x \<Longrightarrow> f x \<in> set (update_first p f xs)"
  by (induction xs) (auto split: if_splits)

lemma update_first_keep: "y \<in> set xs \<Longrightarrow> \<not> p y \<Longrightarrow> y \<in> set (update_first p f xs)"
  by (induction xs) auto

lemma remove_first_keep: "y \<in> set xs \<Longrightarrow> \<not> p y \<Longrightarrow> y \<in> set (remove_first p xs)"
  by (induction xs) auto

lemma find_write:
  assumes "\<And>x. key (f x) = key x"
  shows "List.find (\<lambda>x. key x = j) (update_first (\<lambda>x. key x = i) f xs) =
     (if j = i then map_option f (List.find (\<lambda>x. key x = j) xs)
      else List.find (\<lambda>x. key x = j) xs)"
  using assms by (auto intro: find_update_first find_update_first_other)

lemma find_map_key:
  "(\<And>x. key (f x) = key x) \<Longrightarrow>
   List.find (\<lambda>x. key x = j) (map f xs) = map_option f (List.find (\<lambda>x. key x = j) xs)"
  by (induction xs) auto

lemma find_append_first: "List.find p xs = Some x \<Longrightarrow> List.find p (xs @ ys) = Some x"
  by (induction xs) (auto split: if_splits)

lemma find_remove_first_other:
  "i \<noteq> j \<Longrightarrow> List.find (\<lambda>x. key x = j) (remove_first (\<lambda>x. key x = i) xs) =
     List.find (\<lambda>x. key x = j) xs"
  by (induction xs) auto

lemma list_all_update_first:
  "list_all P xs \<Longrightarrow> (\<And>x. P x \<Longrightarrow> P (f x)) \<Longrightarrow> list_all P (update_first p f xs)"
  by (induction xs) auto

lemma list_all_remove_first: "list_all P xs \<Longrightarrow> list_all P (remove_first p xs)"
  by (induction xs) auto

text \<open>A side table of a registry: every key it holds is the key of an entry that may own one.\<close>

definition side_table_ok :: "('e \<Rightarrow> 'k) \<Rightarrow> ('e \<Rightarrow> bool) \<Rightarrow> ('k, 'v) mapping \<Rightarrow> 'e list \<Rightarrow> bool" where
  "side_table_ok key owns m es \<longleftrightarrow>
     (\<forall>k. Mapping.lookup m k \<noteq> None \<longrightarrow> (\<exists>e\<in>set es. key e = k \<and> owns e))"

lemma side_table_update:
  assumes "side_table_ok key owns m es" and "List.find (\<lambda>e. key e = i) es = Some e"
    and "\<And>e. key (f e) = key e"
    and "\<And>k. Mapping.lookup m' k \<noteq> None \<Longrightarrow>
      k = i \<and> owns (f e) \<or> k \<noteq> i \<and> Mapping.lookup m k \<noteq> None"
  shows "side_table_ok key owns m' (update_first (\<lambda>e. key e = i) f es)"
  unfolding side_table_ok_def
proof (intro allI impI)
  fix k assume "Mapping.lookup m' k \<noteq> None"
  from assms(4) [OF this] show "\<exists>e\<in>set (update_first (\<lambda>e. key e = i) f es). key e = k \<and> owns e"
  proof
    assume "k = i \<and> owns (f e)"
    then show ?thesis
      using update_first_mem [OF assms(2), of f] assms(2,3) find_Some_set by fastforce
  next
    assume "k \<noteq> i \<and> Mapping.lookup m k \<noteq> None"
    then obtain u where "u \<in> set es" "key u = k" "owns u" "k \<noteq> i"
      using assms(1) unfolding side_table_ok_def by blast
    then show ?thesis using update_first_keep [of u es "\<lambda>e. key e = i" f] by blast
  qed
qed

lemma side_table_same:
  assumes "side_table_ok key owns m es"
    and "\<And>e. key (f e) = key e" and "\<And>e. owns (f e) = owns e"
  shows "side_table_ok key owns m (update_first p f es)"
    and "side_table_ok key owns m (map f es)"
proof -
  have "(\<exists>e\<in>set (update_first p f xs). key e = k \<and> owns e) \<longleftrightarrow>
      (\<exists>e\<in>set xs. key e = k \<and> owns e)" for k xs
    by (induction xs) (auto simp: assms(2,3))
  then show "side_table_ok key owns m (update_first p f es)"
    using assms by (simp add: side_table_ok_def)
  show "side_table_ok key owns m (map f es)"
    using assms by (simp add: side_table_ok_def)
qed

lemma side_table_append:
  assumes "side_table_ok key owns m es"
    and "\<And>k. Mapping.lookup m' k \<noteq> None \<Longrightarrow>
      k = key e \<and> owns e \<or> k \<noteq> key e \<and> Mapping.lookup m k \<noteq> None"
  shows "side_table_ok key owns m' (es @ [e])"
  unfolding side_table_ok_def
proof (intro allI impI)
  fix k assume "Mapping.lookup m' k \<noteq> None"
  from assms(2) [OF this] show "\<exists>e\<in>set (es @ [e]). key e = k \<and> owns e"
    using assms(1) unfolding side_table_ok_def by auto
qed

lemma side_table_remove:
  assumes "side_table_ok key owns m es"
  shows "side_table_ok key owns (Mapping.delete i m) (remove_first (\<lambda>e. key e = i) es)"
  unfolding side_table_ok_def
proof (intro allI impI)
  fix k assume "Mapping.lookup (Mapping.delete i m) k \<noteq> None"
  then have "k \<noteq> i" "Mapping.lookup m k \<noteq> None" by (auto simp: lookup_delete_if split: if_splits)
  then obtain u where "u \<in> set es" "key u = k" "owns u" "k \<noteq> i"
    using assms unfolding side_table_ok_def by blast
  then show "\<exists>e\<in>set (remove_first (\<lambda>e. key e = i) es). key e = k \<and> owns e"
    using remove_first_keep [of u es "\<lambda>e. key e = i"] by blast
qed

lemma side_table_filter:
  "side_table_ok key owns (Mapping.filter (\<lambda>k _. list_ex (\<lambda>e. key e = k \<and> owns e) es) m) es"
  by (auto simp: side_table_ok_def lookup_filter list_ex_iff split: option.splits if_splits)

lemma side_table_insert:
  "side_table_ok key owns m es \<Longrightarrow> e \<in> set es \<Longrightarrow> owns e \<Longrightarrow>
   side_table_ok key owns (Mapping.update (key e) v m) es"
  by (auto simp: side_table_ok_def lookup_update')

section \<open>Options and last occurrences\<close>

text \<open>The entries of a registry in the order of a key list that it covers.\<close>

lemma map_filter_lookup:
  "\<forall>k\<in>set ks. \<exists>e. Mapping.lookup m k = Some e \<and> key e = k \<and> P e \<Longrightarrow>
   map key (List.map_filter (Mapping.lookup m) ks) = ks \<and>
   list_all P (List.map_filter (Mapping.lookup m) ks)"
  by (induction ks) (auto simp: List.map_filter_simps)

definition or_else :: "'a option \<Rightarrow> 'a option \<Rightarrow> 'a option" where
  "or_else x y = (case x of None \<Rightarrow> y | Some _ \<Rightarrow> x)"

lemma find_append: "List.find P (xs @ ys) = or_else (List.find P xs) (List.find P ys)"
  by (induction xs) (auto simp: or_else_def)

text \<open>The position, from 1, of the last occurrence of an element; 0 if there is none.\<close>

definition last_pos :: "'a \<Rightarrow> 'a list \<Rightarrow> nat" where
  "last_pos x xs = length (dropWhile (\<lambda>y. y \<noteq> x) (rev xs))"

lemma last_pos_Nil [simp]: "last_pos x [] = 0"
  by (simp add: last_pos_def)

lemma last_pos_snoc [simp]:
  "last_pos x (xs @ [y]) = (if x = y then Suc (length xs) else last_pos x xs)"
  by (auto simp: last_pos_def)

lemma last_pos_Cons:
  "last_pos x (a # xs) = (if x \<in> set xs then Suc (last_pos x xs) else if x = a then 1 else 0)"
  by (induction xs rule: rev_induct) (auto simp: last_pos_def)

lemma last_pos_pos: "0 < last_pos x xs \<longleftrightarrow> x \<in> set xs"
  by (induction xs rule: rev_induct) auto

lemma last_pos_le: "last_pos x xs \<le> length xs"
  by (induction xs rule: rev_induct) auto

lemma last_pos_drop: "x \<in> set (drop n xs) \<Longrightarrow> last_pos x xs = min n (length xs) + last_pos x (drop n xs)"
proof (induction xs arbitrary: n)
  case (Cons a xs)
  then show ?case
  proof (cases n)
    case (Suc m)
    then have x: "x \<in> set (drop m xs)" using Cons.prems by simp
    then have "x \<in> set xs" by (rule in_set_dropD)
    then show ?thesis using Suc Cons.IH [OF x] by (simp add: last_pos_Cons)
  qed simp
qed simp

lemma last_pos_last: "xs \<noteq> [] \<Longrightarrow> last_pos (last xs) xs = length xs"
  by (cases xs rule: rev_cases) auto

lemma remdups_snoc: "remdups (xs @ [x]) = filter (\<lambda>y. y \<noteq> x) (remdups xs) @ [x]"
  by (induction xs) auto

text \<open>The elements whose last occurrence lies after a position, in order of that occurrence.\<close>

lemma filter_last_pos: "filter (\<lambda>x. c < last_pos x xs) (remdups xs) = remdups (drop c xs)"
proof (induction xs arbitrary: c)
  case (Cons a xs)
  show ?case
  proof (cases c)
    case 0
    then show ?thesis by (simp add: last_pos_pos filter_id_conv)
  next
    case (Suc d)
    have "filter (\<lambda>x. c < last_pos x (a # xs)) (remdups xs) =
        filter (\<lambda>x. d < last_pos x xs) (remdups xs)"
      using Suc by (intro filter_cong) (auto simp: last_pos_Cons)
    then show ?thesis using Suc Cons.IH [of d] by (auto simp: last_pos_Cons)
  qed
qed simp

lemma filter_last_pos_from:
  assumes "e \<le> c" and "e \<le> length xs"
  shows "filter (\<lambda>x. c < last_pos x xs) (remdups (drop e xs)) = remdups (drop c xs)"
proof -
  have "filter (\<lambda>x. c < last_pos x xs) (remdups (drop e xs)) =
      filter (\<lambda>x. c - e < last_pos x (drop e xs)) (remdups (drop e xs))"
    using assms by (intro filter_cong) (auto simp: last_pos_drop)
  also have "\<dots> = remdups (drop c xs)"
    using assms by (simp add: filter_last_pos)
  finally show ?thesis .
qed

lemma remdups_head:
  "remdups xs = y # ys \<Longrightarrow> remdups (drop (last_pos y xs) xs) = ys"
proof (induction xs)
  case (Cons a xs)
  show ?case
  proof (cases "a \<in> set xs")
    case True
    then have r: "remdups xs = y # ys" using Cons.prems by simp
    then have "y \<in> set xs" by (metis list.set_intros(1) set_remdups)
    then show ?thesis using Cons.IH [OF r] by (simp add: last_pos_Cons)
  next
    case False
    then show ?thesis using Cons.prems by (auto simp: last_pos_Cons)
  qed
qed simp

section \<open>Ordered maps\<close>

text \<open>A \<^verbatim>\<open>BTreeMap\<close> is the list of its entries in the order of the keys.\<close>

text \<open>\<^verbatim>\<open>BTreeMap::entry(key).or_insert(d)\<close> followed by writes through the entry.\<close>

fun btree_update :: "'k::linorder \<Rightarrow> ('v \<Rightarrow> 'v) \<Rightarrow> 'v \<Rightarrow> ('k \<times> 'v) list \<Rightarrow> ('k \<times> 'v) list" where
  "btree_update k f d [] = [(k, f d)]"
| "btree_update k f d ((k', v) # m) =
     (if k < k' then (k, f d) # (k', v) # m
      else if k = k' then (k', f v) # m
      else (k', v) # btree_update k f d m)"

definition btree_insert :: "'k::linorder \<Rightarrow> 'v \<Rightarrow> ('k \<times> 'v) list \<Rightarrow> ('k \<times> 'v) list" where
  "btree_insert k v m = btree_update k (\<lambda>_. v) v m"

lemma btree_update_keys: "fst ` set (btree_update k f d m) = insert k (fst ` set m)"
  by (induction k f d m rule: btree_update.induct) auto

lemma btree_update_sorted:
  "sorted_wrt (<) (map fst m) \<Longrightarrow> sorted_wrt (<) (map fst (btree_update k f d m))"
proof (induction k f d m rule: btree_update.induct)
  case (2 k f d k' v m)
  have "\<forall>x\<in>fst ` set (btree_update k f d m). k' < x" if "\<not> k < k'" "k \<noteq> k'"
    using that 2(2) unfolding btree_update_keys by auto
  then show ?case using 2 by (auto simp: image_iff)
qed simp

lemma btree_update_lookup:
  "sorted_wrt (<) (map fst m) \<Longrightarrow> map_of (btree_update k f d m) =
     (map_of m)(k \<mapsto> f (case map_of m k of None \<Rightarrow> d | Some v \<Rightarrow> v))"
proof (induction k f d m rule: btree_update.induct)
  case (2 k f d k' v m)
  have "map_of m k = None" if "k < k'"
    using 2(2) that by (auto simp: map_of_eq_None_iff)
  then show ?case using 2 by (auto simp: fun_eq_iff)
qed simp

lemma btree_insert_sorted:
  "sorted_wrt (<) (map fst m) \<Longrightarrow> sorted_wrt (<) (map fst (btree_insert k v m))"
  by (simp add: btree_insert_def btree_update_sorted)

lemma btree_insert_lookup:
  "sorted_wrt (<) (map fst m) \<Longrightarrow> map_of (btree_insert k v m) = (map_of m)(k \<mapsto> v)"
  by (simp add: btree_insert_def btree_update_lookup)

end
