(* ===== verification/Rub_Codec.thy ===== *)
theory Rub_Codec
  imports Rub_Prelude
begin

text \<open>
  The NDJSON framing of \<^verbatim>\<open>rub-ipc/src/codec.rs\<close>. A message is the JSON text followed by a
  newline, which is the commit fence of the transport; a frame is at most \<open>MAX_FRAME_BYTES\<close> long,
  fence included. A buffered reader is the list of the chunks it will deliver (\<open>fill_buf\<close> shows
  the current one, \<open>consume\<close> drops a prefix of it, an empty chunk is the end of the stream), or an
  I/O error in place of a chunk. \<^verbatim>\<open>serde_json::to_vec\<close> is a parameter of \<open>encode\<close>.

  The main results: reading a frame depends on the bytes of the stream only and not on how they
  are cut into chunks, and every message that \<open>encode\<close> accepts is read back, whatever follows it.
\<close>

section \<open>Frames\<close>

definition MAX_FRAME_BYTES :: nat where
  "MAX_FRAME_BYTES = 8 * 1024 * 1024"

datatype codec_error =
    SerializeError string
  | FrameTooLarge nat
  | UnexpectedEof
  | StreamError string

abbreviation newline :: char where
  "newline \<equiv> CHR 0x0A"

definition encoded_frame_len_from_payload_len :: "nat \<Rightarrow> nat" where
  "encoded_frame_len_from_payload_len n = usize_saturating_add n 1"

definition encoded_frame_len :: "('a \<Rightarrow> string + string) \<Rightarrow> 'a \<Rightarrow> codec_error + nat" where
  "encoded_frame_len to_vec v =
     (case to_vec v of
        Inl e \<Rightarrow> Inl (SerializeError e)
      | Inr bytes \<Rightarrow> Inr (encoded_frame_len_from_payload_len (length bytes)))"

definition oversized_frame_io_error :: "nat \<Rightarrow> codec_error" where
  "oversized_frame_io_error max_frame_bytes = FrameTooLarge max_frame_bytes"

fun is_oversized_frame_io_error :: "codec_error \<Rightarrow> bool" where
  "is_oversized_frame_io_error (FrameTooLarge n) = True"
| "is_oversized_frame_io_error _ = False"

definition ensure_payload_within_limit :: "nat \<Rightarrow> codec_error + unit" where
  "ensure_payload_within_limit n =
     (if encoded_frame_len_from_payload_len n > MAX_FRAME_BYTES
      then Inl (oversized_frame_io_error MAX_FRAME_BYTES) else Inr ())"

definition encode :: "('a \<Rightarrow> string + string) \<Rightarrow> 'a \<Rightarrow> codec_error + string" where
  "encode to_vec v =
     (case to_vec v of
        Inl e \<Rightarrow> Inl (SerializeError e)
      | Inr bytes \<Rightarrow>
          (case ensure_payload_within_limit (length bytes) of
             Inl e \<Rightarrow> Inl e
           | Inr _ \<Rightarrow> Inr (bytes @ [newline])))"

text \<open>\<^verbatim>\<open>chunk.iter().position(|byte| *byte == b'\n')\<close>\<close>

fun newline_position :: "string \<Rightarrow> nat option" where
  "newline_position [] = None"
| "newline_position (c # cs) =
     (if c = newline then Some 0 else map_option Suc (newline_position cs))"

text \<open>The frame after the append, the number of bytes consumed, and whether the fence was seen.\<close>

definition append_chunk_to_frame :: "string \<Rightarrow> string \<Rightarrow> codec_error + (string \<times> nat \<times> bool)" where
  "append_chunk_to_frame frame chunk =
     (if chunk = [] then Inl UnexpectedEof
      else case newline_position chunk of
        Some newline_pos \<Rightarrow>
          (let slice = take newline_pos chunk in
           case ensure_payload_within_limit (length frame + length slice) of
             Inl e \<Rightarrow> Inl e
           | Inr _ \<Rightarrow> Inr (frame @ slice, newline_pos + 1, True))
      | None \<Rightarrow>
          (case ensure_payload_within_limit (length frame + length chunk) of
             Inl e \<Rightarrow> Inl e
           | Inr _ \<Rightarrow> Inr (frame @ chunk, length chunk, False)))"

section \<open>Buffered readers\<close>

type_synonym reader = "(string + string) list"

fun consume :: "nat \<Rightarrow> reader \<Rightarrow> reader" where
  "consume n (Inr chunk # rs) = (if n < length chunk then Inr (drop n chunk) # rs else rs)"
| "consume n rs = rs"

text \<open>
  The read loop: \<open>fill_buf\<close>, the end-of-stream test, the append, \<open>consume\<close>. Each round either ends
  or uses up a chunk, so the recursion is on the chunks that are left.
\<close>

fun read_frame_loop :: "string \<Rightarrow> reader \<Rightarrow> (codec_error + string option) \<times> reader" where
  "read_frame_loop frame [] =
     (if frame = [] then (Inr None, []) else (Inl UnexpectedEof, []))"
| "read_frame_loop frame (Inl e # rs) = (Inl (StreamError e), rs)"
| "read_frame_loop frame (Inr chunk # rs) =
     (if chunk = [] \<and> frame = [] then (Inr None, Inr chunk # rs)
      else case append_chunk_to_frame frame chunk of
        Inl e \<Rightarrow> (Inl e, Inr chunk # rs)
      | Inr (frame', consume_len, done) \<Rightarrow>
          (if done then (Inr (Some frame'), consume consume_len (Inr chunk # rs))
           else read_frame_loop frame' rs))"

definition read_committed_frame :: "reader \<Rightarrow> (codec_error + string option) \<times> reader" where
  "read_committed_frame r = read_frame_loop [] r"

definition read_frame_blocking :: "reader \<Rightarrow> (codec_error + string option) \<times> reader" where
  "read_frame_blocking r = read_frame_loop [] r"

text \<open>\<^verbatim>\<open>NdJsonCodec::read\<close>, with \<^verbatim>\<open>serde_json::from_slice\<close> as a parameter.\<close>

definition read_message ::
  "(string \<Rightarrow> string + 'a) \<Rightarrow> reader \<Rightarrow> (codec_error + 'a option) \<times> reader" where
  "read_message from_slice r =
     (case read_committed_frame r of
        (Inl e, r') \<Rightarrow> (Inl e, r')
      | (Inr None, r') \<Rightarrow> (Inr None, r')
      | (Inr (Some frame), r') \<Rightarrow>
          (case from_slice frame of
             Inl e \<Rightarrow> (Inl (SerializeError e), r')
           | Inr v \<Rightarrow> (Inr (Some v), r')))"

section \<open>Reading depends on the bytes only\<close>

text \<open>A reader that delivers bytes: no I/O error, and no empty chunk before the end.\<close>

definition delivers :: "reader \<Rightarrow> string \<Rightarrow> bool" where
  "delivers r bytes \<longleftrightarrow>
     list_all (\<lambda>x. case x of Inl _ \<Rightarrow> False | Inr c \<Rightarrow> c \<noteq> []) r \<and> concat (map projr r) = bytes"

text \<open>The contract: what reading a frame off a byte stream means.\<close>

definition read_frame_spec :: "string \<Rightarrow> codec_error + string option" where
  "read_frame_spec bytes =
     (if bytes = [] then Inr None
      else if length (takeWhile (\<lambda>c. c \<noteq> newline) bytes) + 1 > MAX_FRAME_BYTES
      then Inl (FrameTooLarge MAX_FRAME_BYTES)
      else if newline \<in> set bytes then Inr (Some (takeWhile (\<lambda>c. c \<noteq> newline) bytes))
      else Inl UnexpectedEof)"

lemma newline_position_None: "newline_position cs = None \<longleftrightarrow> newline \<notin> set cs"
  by (induction cs) auto

lemma newline_position_Some:
  "newline_position cs = Some n \<Longrightarrow>
     take n cs = takeWhile (\<lambda>c. c \<noteq> newline) cs \<and> n < length cs \<and> newline \<in> set cs
     \<and> drop (n + 1) cs = tl (dropWhile (\<lambda>c. c \<noteq> newline) cs)"
  by (induction cs arbitrary: n) (auto split: if_splits)

lemma ensure_payload_within_limit_iff:
  "ensure_payload_within_limit n =
     (if n + 1 > MAX_FRAME_BYTES then Inl (FrameTooLarge MAX_FRAME_BYTES) else Inr ())"
  by (auto simp: ensure_payload_within_limit_def encoded_frame_len_from_payload_len_def
      oversized_frame_io_error_def usize_saturating_add_def usize_max_def MAX_FRAME_BYTES_def)

lemma read_frame_loop_delivers:
  assumes "delivers r bytes" and "newline \<notin> set frame" and "length frame + 1 \<le> MAX_FRAME_BYTES"
  shows "fst (read_frame_loop frame r) = read_frame_spec (frame @ bytes)
    \<and> (\<forall>p. fst (read_frame_loop frame r) = Inr (Some p) \<longrightarrow>
        delivers (snd (read_frame_loop frame r)) (tl (dropWhile (\<lambda>c. c \<noteq> newline) bytes)))"
  using assms
proof (induction frame r arbitrary: bytes rule: read_frame_loop.induct)
  case (1 frame)
  then have "takeWhile (\<lambda>c. c \<noteq> newline) frame = frame" by (auto simp: takeWhile_eq_all_conv)
  then have "length (takeWhile (\<lambda>c. c \<noteq> newline) frame) = length frame" by (rule arg_cong)
  with 1 show ?case by (simp add: delivers_def read_frame_spec_def)
next
  case (2 frame e rs)
  then show ?case by (simp add: delivers_def)
next
  case (3 frame chunk rs)
  from "3.prems"(1) obtain more where bytes: "bytes = chunk @ more" and more: "delivers rs more"
    and ne: "chunk \<noteq> []"
    by (auto simp: delivers_def)
  have tw: "takeWhile (\<lambda>c. c \<noteq> newline) (frame @ xs) = frame @ takeWhile (\<lambda>c. c \<noteq> newline) xs"
    for xs using "3.prems"(2) by (intro takeWhile_append2) auto
  show ?case
  proof (cases "newline_position chunk")
    case None
    then have no: "newline \<notin> set chunk" by (simp add: newline_position_None)
    show ?thesis
    proof (cases "length frame + length chunk + 1 > MAX_FRAME_BYTES")
      case True
      have "length (takeWhile (\<lambda>c. c \<noteq> newline) (frame @ bytes)) \<ge> length frame + length chunk"
        using no takeWhile_append2 [of chunk "\<lambda>c. c \<noteq> newline" more] unfolding tw bytes by fastforce
      with True None ne show ?thesis
        by (simp add: append_chunk_to_frame_def ensure_payload_within_limit_iff read_frame_spec_def
            bytes)
    next
      case False
      have "append_chunk_to_frame frame chunk = Inr (frame @ chunk, length chunk, False)"
        using False None ne by (simp add: append_chunk_to_frame_def ensure_payload_within_limit_iff)
      moreover have "dropWhile (\<lambda>c. c \<noteq> newline) (chunk @ more) = dropWhile (\<lambda>c. c \<noteq> newline) more"
        using no by (intro dropWhile_append2) auto
      ultimately show ?thesis
        using "3.IH" [OF _ _ refl _ _ more] False ne no "3.prems"(2)
        by (simp add: bytes)
    qed
  next
    case (Some n)
    note n = newline_position_Some [OF Some]
    have tw': "takeWhile (\<lambda>c. c \<noteq> newline) (frame @ bytes) = frame @ take n chunk"
      unfolding tw bytes using n takeWhile_append1 [of newline chunk "\<lambda>c. c \<noteq> newline" more]
      by metis
    have dw: "tl (dropWhile (\<lambda>c. c \<noteq> newline) bytes) = drop (n + 1) chunk @ more"
    proof -
      have "dropWhile (\<lambda>c. c \<noteq> newline) bytes = dropWhile (\<lambda>c. c \<noteq> newline) chunk @ more"
        unfolding bytes using n by (intro dropWhile_append1 [of newline]) auto
      moreover have "dropWhile (\<lambda>c. c \<noteq> newline) chunk \<noteq> []" using n by auto
      ultimately show ?thesis using n by simp
    qed
    have "delivers (consume (n + 1) (Inr chunk # rs)) (drop (n + 1) chunk @ more)"
      using more ne by (auto simp: delivers_def)
    moreover have "bytes \<noteq> []" "newline \<in> set bytes" using n ne by (auto simp: bytes)
    ultimately show ?thesis
      using Some n ne
      by (auto simp: append_chunk_to_frame_def ensure_payload_within_limit_iff read_frame_spec_def
          tw' dw Let_def)
  qed
qed

lemma read_committed_frame_delivers:
  assumes "delivers r bytes"
  shows "fst (read_committed_frame r) = read_frame_spec bytes"
    and "fst (read_committed_frame r) = Inr (Some p) \<Longrightarrow>
      delivers (snd (read_committed_frame r)) (tl (dropWhile (\<lambda>c. c \<noteq> newline) bytes))"
  using read_frame_loop_delivers [OF assms, of "[]"]
  by (auto simp: read_committed_frame_def MAX_FRAME_BYTES_def)

text \<open>
  C17. What the reader returns is a function of the bytes of the stream: however the transport cuts
  them into chunks, the frame is the text before the first newline, a stream that ends inside a
  frame is an error and not a message, a frame over the limit is refused, an empty stream is a
  clean end; after a frame the rest of the stream is still there. The blocking reader agrees.
\<close>

theorem read_frame_chunk_independent:
  assumes "delivers r bytes"
  shows "fst (read_committed_frame r) =
      (if bytes = [] then Inr None
       else if length (takeWhile (\<lambda>c. c \<noteq> newline) bytes) + 1 > MAX_FRAME_BYTES
       then Inl (FrameTooLarge MAX_FRAME_BYTES)
       else if newline \<in> set bytes then Inr (Some (takeWhile (\<lambda>c. c \<noteq> newline) bytes))
       else Inl UnexpectedEof) \<and>
    (\<forall>p. fst (read_committed_frame r) = Inr (Some p) \<longrightarrow>
       delivers (snd (read_committed_frame r)) (tl (dropWhile (\<lambda>c. c \<noteq> newline) bytes))) \<and>
    read_frame_blocking r = read_committed_frame r"
  using read_committed_frame_delivers [OF assms]
  by (simp add: read_frame_spec_def read_frame_blocking_def read_committed_frame_def)

theorem read_frame_chunk_independent_witness:
  "fst (read_committed_frame [Inr ''ab'', Inr (''c'' @ [newline] @ ''d'')]) = Inr (Some ''abc'')"
proof -
  have "delivers [Inr ''ab'', Inr (''c'' @ [newline] @ ''d'')] (''abc'' @ [newline] @ ''d'')"
    by (simp add: delivers_def)
  from read_frame_chunk_independent [OF this] show ?thesis
    by (simp add: MAX_FRAME_BYTES_def)
qed

section \<open>Round trip\<close>

lemma encode_Inr:
  assumes "encode to_vec v = Inr bytes"
  obtains payload where "to_vec v = Inr payload" "bytes = payload @ [newline]"
    "length payload + 1 \<le> MAX_FRAME_BYTES"
  using assms
  by (auto simp: encode_def ensure_payload_within_limit_iff split: sum.splits if_splits)

text \<open>The receiving side of a connection: read a number of messages, stop at the first failure.\<close>

fun read_messages ::
  "(string \<Rightarrow> string + 'a) \<Rightarrow> nat \<Rightarrow> reader \<Rightarrow> (codec_error + 'a list) \<times> reader" where
  "read_messages from_slice 0 r = (Inr [], r)"
| "read_messages from_slice (Suc n) r =
     (case read_message from_slice r of
        (Inl e, r') \<Rightarrow> (Inl e, r')
      | (Inr None, r') \<Rightarrow> (Inr [], r')
      | (Inr (Some v), r') \<Rightarrow>
          (case read_messages from_slice n r' of
             (Inl e, r'') \<Rightarrow> (Inl e, r'')
           | (Inr vs, r'') \<Rightarrow> (Inr (v # vs), r'')))"

lemma span_newline:
  "newline \<notin> set payload \<Longrightarrow>
     takeWhile (\<lambda>c. c \<noteq> newline) (payload @ newline # rest) = payload \<and>
     dropWhile (\<lambda>c. c \<noteq> newline) (payload @ newline # rest) = newline # rest"
  by (induction payload) auto

lemma read_message_encoded:
  assumes "encode to_vec v = Inr frame" and "delivers r (frame @ rest)"
    and "\<And>b. to_vec v = Inr b \<Longrightarrow> newline \<notin> set b \<and> from_slice b = Inr v"
  obtains r' where "read_message from_slice r = (Inr (Some v), r')" "delivers r' rest"
proof -
  obtain payload where p: "to_vec v = Inr payload" "frame = payload @ [newline]"
    "length payload + 1 \<le> MAX_FRAME_BYTES"
    using encode_Inr [OF assms(1)] .
  have nl: "newline \<notin> set payload" and v: "from_slice payload = Inr v" using assms(3) p(1) by auto
  have "takeWhile (\<lambda>c. c \<noteq> newline) (frame @ rest) = payload"
    "tl (dropWhile (\<lambda>c. c \<noteq> newline) (frame @ rest)) = rest"
    using nl by (simp_all add: p(2) span_newline)
  with p read_committed_frame_delivers [OF assms(2)]
  have "fst (read_committed_frame r) = Inr (Some payload)"
    "delivers (snd (read_committed_frame r)) rest"
    by (auto simp: read_frame_spec_def)
  with v that show thesis
    by (cases "read_committed_frame r") (simp add: read_message_def)
qed

text \<open>
  C16. Round trip: a sequence of messages that \<open>encode\<close> accepted, delivered in any chunks and
  followed by anything, is read back message for message, and the reader stands at what follows.
  The two facts used of \<^verbatim>\<open>serde_json\<close> are that compact JSON text holds no raw newline and that
  parsing it gives the value back.
\<close>

theorem encode_read_roundtrip:
  assumes serde: "\<And>v b. to_vec v = Inr b \<Longrightarrow> newline \<notin> set b \<and> from_slice b = Inr v"
    and "list_all2 (\<lambda>v frame. encode to_vec v = Inr frame) vs frames"
    and "delivers r (concat frames @ rest)"
  shows "\<exists>r'. read_messages from_slice (length vs) r = (Inr vs, r') \<and> delivers r' rest"
  using assms(2,3)
proof (induction vs frames arbitrary: r rule: list_all2_induct)
  case Nil
  then show ?case by simp
next
  case (Cons v vs frame frames)
  then have "delivers r (frame @ (concat frames @ rest))" by simp
  with Cons.hyps(1) obtain r1 where "read_message from_slice r = (Inr (Some v), r1)"
    and "delivers r1 (concat frames @ rest)"
    using read_message_encoded serde by metis
  with Cons.IH [OF this(2)] show ?case by auto
qed

theorem encode_read_roundtrip_witness:
  "let to_vec = (\<lambda>b. Inr (if b then ''true'' else ''false''));
       from_slice = (\<lambda>s. if s = ''true'' then Inr True else Inr False);
       r = [Inr ''tr'', Inr (''ue'' @ [newline] @ ''fal''), Inr (''se'' @ [newline] @ ''x'')]
   in encode to_vec True = Inr (''true'' @ [newline]) \<and>
      (\<exists>r'. read_messages from_slice 2 r = (Inr [True, False], r') \<and> delivers r' ''x'')"
proof -
  let ?to_vec = "\<lambda>b. Inr (if b then ''true'' else ''false'') :: string + string"
  let ?from_slice = "\<lambda>s. if s = ''true'' then Inr True else Inr False :: string + bool"
  have enc: "encode ?to_vec True = Inr (''true'' @ [newline])"
    "encode ?to_vec False = Inr (''false'' @ [newline])"
    by (simp_all add: encode_def ensure_payload_within_limit_iff MAX_FRAME_BYTES_def)
  have "list_all2 (\<lambda>v frame. encode ?to_vec v = Inr frame) [True, False]
      [''true'' @ [newline], ''false'' @ [newline]]"
    using enc by simp
  note list = this
  have chunks: "delivers [Inr ''tr'', Inr (''ue'' @ [newline] @ ''fal''),
      Inr (''se'' @ [newline] @ ''x'')]
      (concat [''true'' @ [newline], ''false'' @ [newline]] @ ''x'')"
    by (simp add: delivers_def)
  have serde: "?to_vec v = Inr b \<Longrightarrow> newline \<notin> set b \<and> ?from_slice b = Inr v" for v b
    by (auto split: if_splits)
  show ?thesis
    using encode_read_roundtrip [where to_vec = ?to_vec and from_slice = ?from_slice,
        OF serde list chunks] enc(1)
    unfolding Let_def by (simp add: numeral_2_eq_2)
qed

end
