(* ===== verification/Rub_Interfaces.thy ===== *)
theory Rub_Interfaces
  imports Rub_Prelude
begin

text \<open>
  The contracts that several runtime registries of the daemon share, stated once as locales
  with their clients' lemmas, and interpreted on the model's own definitions in the theory
  of each provider.
  \<^item> \<open>event_log\<close>: a log that stamps each record with the next sequence number and forgets
    from the front only (command history, workflow capture, trigger trace, orchestration trace).
    \<open>exact_event_log\<close> extends it for logs whose only eviction rule is the entry limit (storage
    ledger), \<open>accounted_log\<close> for logs that also count what they evict (downloads, observatory).
  \<^item> \<open>generation_fence\<close>: entries whose generation every lifecycle change raises, against which a
    worker's earlier reading is checked (triggers, orchestration rules).
  \<^item> \<open>browser_surface\<close>: state fed by browser events of increasing generations (dialogs, downloads).
  \<^item> \<open>bounded_cache\<close>: a map with an insertion-order deque beside it, re-insertion moving a key
    to the back and eviction taking the front (locator memo, snapshot cache).
  \<^item> \<open>replay_authority\<close>: exclusive and at-most-once ownership of command ids (replay state).
\<close>

section \<open>Sequence windows\<close>

text \<open>The retained sequence numbers are the last ones issued, without gaps. The next number to
  issue is \<^verbatim>\<open>next_sequence.max(1)\<close>, so a log that has issued nothing starts at 1.\<close>

definition seq_window :: "u64 \<Rightarrow> u64 list \<Rightarrow> bool" where
  "seq_window nxt seqs \<longleftrightarrow>
     length seqs < max 1 (unat nxt) \<and>
     map unat seqs = [max 1 (unat nxt) - length seqs ..< max 1 (unat nxt)]"

lemma seq_window_Nil [simp]: "seq_window nxt []"
  by (simp add: seq_window_def)

lemma seq_window_snoc:
  assumes "seq_window nxt seqs" and "unat nxt < 2 ^ 64 - 1"
  shows "seq_window (max nxt 1 + 1) (seqs @ [max nxt 1])"
proof -
  let ?m = "max 1 (unat nxt)"
  have m: "unat (max nxt 1) = ?m"
    by (simp add: unat_max max.commute)
  with assms(2) have n: "unat (max nxt 1 + 1) = Suc ?m"
    by (subst unat_inc_u64) auto
  have "map unat (seqs @ [max nxt 1]) = [?m - length seqs ..< ?m] @ [?m]"
    using assms(1) m by (simp add: seq_window_def)
  also have "\<dots> = [?m - length seqs ..< Suc ?m]"
    by simp
  finally show ?thesis
    using assms(1) n by (simp add: seq_window_def)
qed

lemma seq_window_drop: "seq_window nxt seqs \<Longrightarrow> seq_window nxt (drop d seqs)"
proof -
  assume w: "seq_window nxt seqs"
  let ?m = "max 1 (unat nxt)"
  have "map unat (drop d seqs) = drop d [?m - length seqs ..< ?m]"
    using w by (simp add: seq_window_def drop_map [symmetric])
  also have "\<dots> = [?m - length (drop d seqs) ..< ?m]"
    using w by (cases "d \<le> length seqs") (auto simp: seq_window_def)
  finally show ?thesis
    using w by (auto simp: seq_window_def)
qed

lemma seq_window_distinct: "seq_window nxt seqs \<Longrightarrow> distinct seqs"
  unfolding seq_window_def by (metis distinct_map distinct_upt)

lemma seq_window_pos: "seq_window nxt seqs \<Longrightarrow> seqs \<noteq> [] \<Longrightarrow> max 1 (unat nxt) = unat nxt"
  by (cases seqs) (auto simp: seq_window_def)

lemma seq_window_last:
  assumes w: "seq_window nxt seqs" and ne: "seqs \<noteq> []"
  shows "Suc (unat (last seqs)) = unat nxt"
proof -
  note nx = seq_window_pos [OF w ne]
  from ne have "0 < length seqs" by simp
  have "unat (last seqs) = last (map unat seqs)"
    using ne by (simp add: last_map)
  also have "\<dots> = unat nxt - 1"
    using w \<open>0 < length seqs\<close> unfolding seq_window_def nx by (auto simp: last_upt)
  finally show ?thesis
    using w unfolding seq_window_def nx by simp
qed

lemma seq_window_hd:
  assumes w: "seq_window nxt seqs" and ne: "seqs \<noteq> []"
  shows "unat (hd seqs) + length seqs = unat nxt"
proof -
  note nx = seq_window_pos [OF w ne]
  have "unat (hd seqs) = hd (map unat seqs)"
    using ne by (simp add: hd_map)
  also have "\<dots> = unat nxt - length seqs"
    using w ne unfolding seq_window_def nx by (auto simp: hd_upt)
  finally show ?thesis
    using w unfolding seq_window_def nx by simp
qed

text \<open>A window query \<^verbatim>\<open>(cursor, end]\<close> over a gap-free log misses nothing, provided the cursor is not
  older than what has been evicted.\<close>

lemma filter_upt_window:
  "filter (\<lambda>n. c < n \<and> n \<le> d) [a..<b] = [max a (Suc c) ..< min b (Suc d)]"
proof (induction b)
  case (Suc b)
  show ?case
  proof (cases "b \<le> d")
    case True
    with Suc show ?thesis by (auto simp: max_def min_absorb1 not_less)
  next
    case False
    with Suc show ?thesis by (auto simp: min_absorb2 not_le)
  qed
qed simp

lemma filter_upt_positions:
  "filter (\<lambda>j. c < Suc j \<and> Suc j \<le> d) [a..<b] = [max a c ..< min b d]"
proof (induction b)
  case (Suc b)
  show ?case
  proof (cases "Suc b \<le> d")
    case True
    with Suc show ?thesis by (auto simp: max_def min_absorb1 not_less)
  next
    case False
    with Suc show ?thesis by (auto simp: min_absorb2 not_le)
  qed
qed simp

lemma seq_window_between:
  assumes "seq_window nxt (map seq_of es)" and "max 1 (unat nxt) - length es \<le> Suc (unat c)"
  shows "map (unat \<circ> seq_of) (filter (\<lambda>e. seq_of e > c \<and> seq_of e \<le> d) es) =
    [Suc (unat c) ..< min (max 1 (unat nxt)) (Suc (unat d))]"
proof -
  have "map (unat \<circ> seq_of) (filter (\<lambda>e. seq_of e > c \<and> seq_of e \<le> d) es) =
      filter (\<lambda>n. unat c < n \<and> n \<le> unat d) (map unat (map seq_of es))"
    by (simp add: filter_map comp_def word_less_nat_alt word_le_nat_alt)
  also have "\<dots> = [Suc (unat c) ..< min (max 1 (unat nxt)) (Suc (unat d))]"
    using assms by (simp add: seq_window_def filter_upt_window max_def)
  finally show ?thesis .
qed

lemma seq_window_after:
  assumes "seq_window nxt (map seq_of es)" and "max 1 (unat nxt) - length es \<le> Suc (unat c)"
  shows "map (unat \<circ> seq_of) (filter (\<lambda>e. seq_of e > c) es) =
    [Suc (unat c) ..< max 1 (unat nxt)]"
proof -
  have "(\<lambda>e. seq_of e > c) = (\<lambda>e. seq_of e > c \<and> seq_of e \<le> - 1)" by simp
  moreover have "unat (- 1 :: u64) = 2 ^ 64 - 1" by (simp add: unsigned_minus_1_eq_mask mask_eq_exp_minus_1)
  ultimately show ?thesis
    using seq_window_between [OF assms, of "- 1"] unat_u64_bound [of nxt] by simp
qed

section \<open>Event logs\<close>

text \<open>The log that \<open>is\<close> leave behind: the last \<open>limit\<close> records, each under its position from 1.\<close>

definition log_of :: "('i \<Rightarrow> u64 \<Rightarrow> 'e) \<Rightarrow> nat \<Rightarrow> 'i list \<Rightarrow> 'e list" where
  "log_of mk limit is =
     map (\<lambda>j. mk (is ! j) (of_nat (Suc j))) [length is - limit ..< length is]"

lemma log_of_snoc:
  "log_of mk limit (is @ [i]) =
     map (\<lambda>j. mk (is ! j) (of_nat (Suc j))) [Suc (length is) - limit ..< length is] @
     (if limit = 0 then [] else [mk i (of_nat (Suc (length is)))])"
  by (auto simp: log_of_def nth_append Suc_diff_le)

lemma log_of_between:
  assumes "\<And>i n. seq_of (mk i n) = n" and "length is < 2 ^ 64 - 1"
    and "length is - limit \<le> unat c"
  shows "filter (\<lambda>e. seq_of e > c \<and> seq_of e \<le> d) (log_of mk limit is) =
    map (\<lambda>j. mk (is ! j) (of_nat (Suc j))) [unat c ..< min (length is) (unat d)]"
proof -
  have num: "unat (of_nat (Suc j) :: u64) = Suc j" if "j < length is" for j
    using that assms(2) by (simp only: unat_of_nat) simp
  have "filter (\<lambda>e. seq_of e > c \<and> seq_of e \<le> d) (log_of mk limit is) =
      map (\<lambda>j. mk (is ! j) (of_nat (Suc j)))
        (filter (\<lambda>j. unat c < Suc j \<and> Suc j \<le> unat d) [length is - limit ..< length is])"
    unfolding log_of_def filter_map comp_def assms(1) word_less_nat_alt word_le_nat_alt
    by (intro arg_cong [where f = "map _"] filter_cong) (simp_all add: num del: of_nat_Suc)
  also have "filter (\<lambda>j. unat c < Suc j \<and> Suc j \<le> unat d) [length is - limit ..< length is] =
      [unat c ..< min (length is) (unat d)]"
    using assms(3) by (simp add: filter_upt_positions max_def)
  finally show ?thesis .
qed

locale event_log =
  fixes seq_of :: "'e \<Rightarrow> u64"
    and nxt :: "'s \<Rightarrow> u64"
    and entries :: "'s \<Rightarrow> 'e list"
    and push :: "'i \<Rightarrow> 's \<Rightarrow> 's"
    and mk :: "'i \<Rightarrow> u64 \<Rightarrow> 'e"
    and limit :: nat
  assumes seq_mk: "seq_of (mk i n) = n"
    and nxt_push: "nxt (push i s) = max (nxt s) 1 + 1"
    and entries_push: "\<exists>d. entries (push i s) = drop d (entries s @ [mk i (max (nxt s) 1)])"
    and entries_bound: "length (entries s) \<le> limit \<Longrightarrow> length (entries (push i s)) \<le> limit"
begin

lemma window_push:
  assumes "seq_window (nxt s) (map seq_of (entries s))" and "unat (nxt s) < 2 ^ 64 - 1"
  shows "seq_window (nxt (push i s)) (map seq_of (entries (push i s)))"
proof -
  obtain d where "entries (push i s) = drop d (entries s @ [mk i (max (nxt s) 1)])"
    using entries_push by blast
  then have "map seq_of (entries (push i s))
      = drop d (map seq_of (entries s) @ [max (nxt s) 1])"
    by (simp add: drop_map [symmetric] seq_mk)
  then show ?thesis
    using seq_window_drop [OF seq_window_snoc [OF assms]] by (simp add: nxt_push)
qed

lemma nxt_run:
  "max 1 (unat (nxt s)) + length is < 2 ^ 64 \<Longrightarrow>
     max 1 (unat (nxt (fold push is s))) = max 1 (unat (nxt s)) + length is"
proof (induction "is" arbitrary: s)
  case Nil
  then show ?case by simp
next
  case (Cons i "is")
  have "unat (max (nxt s) 1) = max 1 (unat (nxt s))"
    by (simp add: unat_max max.commute)
  then have "unat (nxt (push i s)) = Suc (max 1 (unat (nxt s)))"
    using Cons.prems by (simp add: nxt_push unat_inc_u64)
  then show ?case
    using Cons.IH [of "push i s"] Cons.prems by simp
qed

lemma window_run:
  "seq_window (nxt s) (map seq_of (entries s)) \<Longrightarrow> max 1 (unat (nxt s)) + length is < 2 ^ 64 \<Longrightarrow>
     seq_window (nxt (fold push is s)) (map seq_of (entries (fold push is s)))"
proof (induction "is" arbitrary: s)
  case Nil
  then show ?case by simp
next
  case (Cons i "is")
  have "max 1 (unat (nxt (push i s))) = Suc (max 1 (unat (nxt s)))"
    using nxt_run [of s "[i]"] Cons.prems(2) by simp
  then show ?case
    using Cons.IH [of "push i s"] window_push [OF Cons.prems(1)] Cons.prems(2) by simp
qed

lemma bound_run: "length (entries s) \<le> limit \<Longrightarrow> length (entries (fold push is s)) \<le> limit"
  by (induction "is" arbitrary: s) (auto simp: entries_bound)

text \<open>From an empty log: the newest retained number is the number of records made, and the
  number of forgotten records is \<^verbatim>\<open>oldest - 1\<close>, which is what the projections report.\<close>

lemma newest_run:
  assumes "entries s = []" and "unat (nxt s) \<le> 1" and "length is < 2 ^ 64 - 1"
    and "entries (fold push is s) \<noteq> []"
  shows "unat (seq_of (last (entries (fold push is s)))) = length is"
    and "unat (seq_of (hd (entries (fold push is s)))) + length (entries (fold push is s))
       = Suc (length is)"
proof -
  let ?t = "fold push is s"
  have b: "max 1 (unat (nxt s)) + length is < 2 ^ 64" and one: "max 1 (unat (nxt s)) = 1"
    using assms by auto
  have w: "seq_window (nxt ?t) (map seq_of (entries ?t))"
    by (rule window_run) (use assms b in auto)
  have n: "max 1 (unat (nxt ?t)) = Suc (length is)"
    using nxt_run [OF b] one by simp
  have l: "Suc (unat (seq_of (last (entries ?t)))) = unat (nxt ?t)"
    using seq_window_last [OF w] assms(4) by (simp add: last_map)
  have h: "unat (seq_of (hd (entries ?t))) + length (entries ?t) = unat (nxt ?t)"
    using seq_window_hd [OF w] assms(4) by (simp add: hd_map)
  have "unat (nxt ?t) = Suc (length is)"
    using n l h assms(4) by (cases "unat (nxt ?t)") auto
  with l h show "unat (seq_of (last (entries ?t))) = length is"
    and "unat (seq_of (hd (entries ?t))) + length (entries ?t) = Suc (length is)"
    by simp_all
qed

end

text \<open>A log that evicts by entry count only keeps exactly the last \<open>limit\<close> records.\<close>

locale exact_event_log = event_log +
  assumes limit_pos: "0 < limit"
    and entries_push_exact:
      "length (entries s) \<le> limit \<Longrightarrow> entries (push i s) =
         drop (Suc (length (entries s)) - limit) (entries s @ [mk i (max (nxt s) 1)])"
begin

lemma length_run:
  "length (entries s) \<le> limit \<Longrightarrow>
     length (entries (fold push is s)) = min limit (length (entries s) + length is)"
  by (induction "is" arbitrary: s) (auto simp: entries_push_exact)

lemma nxt_fresh_run:
  assumes "unat (nxt s) \<le> 1" and "length is < 2 ^ 64 - 1"
  shows "max (nxt (fold push is s)) 1 = of_nat (Suc (length is))"
proof -
  have b: "max 1 (unat (nxt s)) + length is < 2 ^ 64" and one: "max 1 (unat (nxt s)) = 1"
    using assms by auto
  have "unat (max (nxt (fold push is s)) 1) = Suc (length is)"
    using nxt_run [OF b] one by (simp add: unat_max max.commute)
  moreover have "unat (of_nat (Suc (length is)) :: u64) = Suc (length is)"
    using assms(2) by (simp only: unat_of_nat) simp
  ultimately show ?thesis by (metis word_unat_eq_iff)
qed

text \<open>From an empty log: exactly the last \<open>limit\<close> records, each under its position, from 1.\<close>

lemma entries_run:
  assumes "entries s = []" and "unat (nxt s) \<le> 1" and "length is < 2 ^ 64 - 1"
  shows "entries (fold push is s) =
    drop (length is - limit) (map (\<lambda>j. mk (is ! j) (of_nat (Suc j))) [0..<length is])"
  using assms(3)
proof (induction "is" rule: rev_induct)
  case Nil
  then show ?case using assms(1) by simp
next
  case (snoc i "is")
  let ?M = "map (\<lambda>j. mk (is ! j) (of_nat (Suc j))) [0..<length is]"
  have IH: "entries (fold push is s) = drop (length is - limit) ?M" using snoc by simp
  have x: "max (nxt (fold push is s)) 1 = of_nat (Suc (length is))"
    using snoc.prems by (intro nxt_fresh_run assms(2)) simp
  have M: "map (\<lambda>j. mk ((is @ [i]) ! j) (of_nat (Suc j))) [0..<length (is @ [i])]
      = ?M @ [mk i (of_nat (Suc (length is)))]"
    by (simp add: nth_append)
  have "entries (fold push (is @ [i]) s) =
      drop (Suc (length is - (length is - limit)) - limit)
        (drop (length is - limit) ?M @ [mk i (of_nat (Suc (length is)))])"
    by (simp add: entries_push_exact IH x)
  also have "\<dots> = drop (Suc (length is) - limit) (?M @ [mk i (of_nat (Suc (length is)))])"
    using limit_pos by (cases "length is < limit") (auto simp: Suc_diff_le)
  finally show ?case unfolding M by simp
qed

text \<open>The log and its counter agree: the numbers are the last ones issued, and a log that is not
  full holds every record made.\<close>

lemma exact_push:
  assumes "seq_window (nxt s) (map seq_of (entries s))" and "unat (nxt s) < 2 ^ 64 - 1"
    and "length (entries s) = min limit (max 1 (unat (nxt s)) - 1)"
  shows "seq_window (nxt (push i s)) (map seq_of (entries (push i s))) \<and>
    length (entries (push i s)) = min limit (max 1 (unat (nxt (push i s))) - 1)"
proof -
  have "max 1 (unat (nxt (push i s))) = Suc (max 1 (unat (nxt s)))"
    using nxt_run [of s "[i]"] assms(2) by simp
  moreover have "length (entries (push i s)) = min limit (Suc (length (entries s)))"
    using assms(3) length_run [of s "[i]"] by simp
  moreover have "min limit (Suc (min limit (m - 1))) = min limit m" if "1 \<le> m" for m :: nat
    using that by (auto simp: min_def)
  ultimately show ?thesis
    using window_push [OF assms(1,2)] assms(3) by (auto simp del: max_Suc_Suc)
qed

lemma exact_pushes:
  "seq_window (nxt s) (map seq_of (entries s)) \<Longrightarrow>
   max 1 (unat (nxt s)) + length is < 2 ^ 64 \<Longrightarrow>
   length (entries s) = min limit (max 1 (unat (nxt s)) - 1) \<Longrightarrow>
   seq_window (nxt (fold push is s)) (map seq_of (entries (fold push is s))) \<and>
   length (entries (fold push is s)) = min limit (max 1 (unat (nxt (fold push is s))) - 1)"
proof (induction "is" arbitrary: s)
  case Nil
  then show ?case by simp
next
  case (Cons i "is")
  have "max 1 (unat (nxt (push i s))) = Suc (max 1 (unat (nxt s)))"
    using nxt_run [of s "[i]"] Cons.prems(2) by simp
  then show ?case
    using Cons.IH [of "push i s"] exact_push [of s i] Cons.prems by simp
qed

text \<open>The contents of the log, given the list of all records made.\<close>

lemma log_of_push:
  assumes "entries s = log_of mk limit is" and "max (nxt s) 1 = of_nat (Suc (length is))"
  shows "entries (push i s) = log_of mk limit (is @ [i])"
proof -
  have "length (entries s) \<le> limit" by (simp add: assms(1) log_of_def)
  note e = entries_push_exact [OF this, of i]
  have "length is - (length is - limit) = min limit (length is)" by simp
  then have "entries (push i s) = drop (Suc (min limit (length is)) - limit)
      (log_of mk limit is @ [mk i (of_nat (Suc (length is)))])"
    unfolding e assms by (simp add: log_of_def)
  also have "\<dots> = log_of mk limit (is @ [i])"
    using limit_pos unfolding log_of_snoc
    by (cases "length is < limit") (auto simp: min_absorb1 min_absorb2 log_of_def drop_map Suc_diff_le)
  finally show ?thesis .
qed

lemma numbers_of_last:
  assumes "seq_window (nxt s) (map seq_of (entries s))"
    and "length (entries s) = min limit (max 1 (unat (nxt s)) - 1)"
  shows "map (unat \<circ> seq_of) (take_last n (entries s)) =
    [max 1 (unat (nxt s)) - min n (min limit (max 1 (unat (nxt s)) - 1)) ..< max 1 (unat (nxt s))]"
proof -
  define m where "m = max 1 (unat (nxt s))"
  define k where "k = length (entries s)"
  have k: "k = min limit (m - 1)" and w: "map (unat \<circ> seq_of) (entries s) = [m - k ..< m]"
    using assms unfolding seq_window_def m_def k_def by simp_all
  have "map (unat \<circ> seq_of) (take_last n (entries s)) = drop (k - n) [m - k ..< m]"
    unfolding take_last_drop by (simp add: drop_map [symmetric] w k_def)
  also have "\<dots> = [m - min n (min limit (m - 1)) ..< m]"
    using k by (simp add: min_def)
  finally show ?thesis unfolding m_def .
qed

end

text \<open>
  A log that also accounts for its evictions: the last sequence number evicted and the number of
  records evicted. Both stay equal to the number of records issued and no longer held, so a reader
  can tell from them alone whether its cursor still covers everything.
\<close>

definition accounted :: "nat \<Rightarrow> u64 \<Rightarrow> u64 list \<Rightarrow> u64 \<Rightarrow> u64 \<Rightarrow> bool" where
  "accounted limit nxt seqs evicted dropped \<longleftrightarrow>
     seq_window nxt seqs \<and> length seqs = min limit (max 1 (unat nxt) - 1) \<and>
     unat evicted + length seqs = max 1 (unat nxt) - 1 \<and> dropped = evicted"

lemma accounted_fresh: "accounted limit 0 [] 0 0"
  by (simp add: accounted_def)

text \<open>What a reader gets for a window \<^verbatim>\<open>(cursor, end]\<close> whose cursor is not lost to eviction.\<close>

lemma accounted_between:
  assumes "accounted limit nxt (map seq_of es) evicted dropped" and "evicted \<le> cursor"
  shows "map (unat \<circ> seq_of) (filter (\<lambda>e. seq_of e > cursor \<and> seq_of e \<le> end_cursor) es) =
    [Suc (unat cursor) ..< min (max 1 (unat nxt)) (Suc (unat end_cursor))]"
proof (rule seq_window_between)
  show "seq_window nxt (map seq_of es)" using assms(1) by (simp add: accounted_def)
  have "unat evicted + length es = max 1 (unat nxt) - 1"
    using assms(1) unfolding accounted_def by simp
  then show "max 1 (unat nxt) - length es \<le> Suc (unat cursor)"
    using assms(2) unfolding word_le_nat_alt by linarith
qed

lemma accounted_after:
  assumes "accounted limit nxt (map seq_of es) evicted dropped" and "evicted \<le> cursor"
  shows "map (unat \<circ> seq_of) (filter (\<lambda>e. seq_of e > cursor) es) =
    [Suc (unat cursor) ..< max 1 (unat nxt)]"
proof (rule seq_window_after)
  show "seq_window nxt (map seq_of es)" using assms(1) by (simp add: accounted_def)
  have "unat evicted + length es = max 1 (unat nxt) - 1"
    using assms(1) unfolding accounted_def by simp
  then show "max 1 (unat nxt) - length es \<le> Suc (unat cursor)"
    using assms(2) unfolding word_le_nat_alt by linarith
qed

locale accounted_log = exact_event_log +
  fixes evicted dropped :: "'b \<Rightarrow> u64"
  assumes evicted_push: "length (entries s) \<le> limit \<Longrightarrow> evicted (push i s) =
      (if length (entries s) = limit then max (evicted s) (seq_of (hd (entries s))) else evicted s)"
    and dropped_push: "length (entries s) \<le> limit \<Longrightarrow> dropped (push i s) =
      (if length (entries s) = limit then saturating_add (dropped s) 1 else dropped s)"
begin

lemma accounted_push:
  assumes "accounted limit (nxt s) (map seq_of (entries s)) (evicted s) (dropped s)"
    and room: "unat (nxt s) < 2 ^ 64 - 1"
  shows "accounted limit (nxt (push i s)) (map seq_of (entries (push i s)))
    (evicted (push i s)) (dropped (push i s))"
proof -
  let ?n = "max 1 (unat (nxt s))" and ?l = "length (entries s)"
  have win: "seq_window (nxt s) (map seq_of (entries s))" and len: "?l = min limit (?n - 1)"
    and acc: "unat (evicted s) + ?l = ?n - 1" and same: "dropped s = evicted s"
    using assms(1) unfolding accounted_def by simp_all
  note step = exact_push [OF win room len, of i]
  have nxt_after: "max 1 (unat (nxt (push i s))) = Suc ?n"
    using nxt_run [of s "[i]"] room by simp
  have "unat (evicted (push i s)) + length (entries (push i s)) = ?n \<and>
      dropped (push i s) = evicted (push i s)"
  proof (cases "?l = limit")
    case True
    then have ne: "entries s \<noteq> []" using limit_pos by auto
    have n: "?n = unat (nxt s)" using seq_window_pos [OF win] ne by simp
    have hd: "unat (seq_of (hd (entries s))) + ?l = unat (nxt s)"
      using seq_window_hd [OF win] ne by (simp add: hd_map)
    have before: "Suc (unat (evicted s)) = unat (seq_of (hd (entries s)))"
      using hd acc n True limit_pos by linarith
    have "saturating_add (dropped s) 1 = seq_of (hd (entries s))"
      using before same hd room by (simp add: word_unat_eq_iff unat_saturating_add)
    moreover have "max (evicted s) (seq_of (hd (entries s))) = seq_of (hd (entries s))"
      using before by (simp add: max_def word_le_nat_alt)
    moreover have "length (entries (push i s)) = limit"
      using True limit_pos by (simp add: entries_push_exact)
    ultimately show ?thesis
      using True hd n by (simp add: evicted_push dropped_push)
  next
    case False
    then have lt: "?l < limit" using len by simp
    then have "length (entries (push i s)) = Suc ?l" by (simp add: entries_push_exact)
    then show ?thesis
      using False lt acc same by (simp add: evicted_push dropped_push)
  qed
  then show ?thesis
    using step nxt_after unfolding accounted_def by simp
qed

lemma accounted_pushes:
  "accounted limit (nxt s) (map seq_of (entries s)) (evicted s) (dropped s) \<Longrightarrow>
   max 1 (unat (nxt s)) + length is < 2 ^ 64 \<Longrightarrow>
   accounted limit (nxt (fold push is s)) (map seq_of (entries (fold push is s)))
     (evicted (fold push is s)) (dropped (fold push is s))"
proof (induction "is" arbitrary: s)
  case (Cons i "is")
  have "max 1 (unat (nxt (push i s))) = Suc (max 1 (unat (nxt s)))"
    using nxt_run [of s "[i]"] Cons.prems(2) by simp
  then show ?case
    using Cons.IH [of "push i s"] accounted_push [OF Cons.prems(1)] Cons.prems(2) by simp
qed simp

end

section \<open>Generation fences\<close>

text \<open>
  A registry entry carries a generation that every lifecycle change of the entry raises; a worker
  that read the entry earlier presents the generation it saw. \<open>bump_count\<close> counts the lifecycle
  changes of an entry along a run.
\<close>

fun bump_count :: "('op \<Rightarrow> 's \<Rightarrow> 'i \<Rightarrow> bool) \<Rightarrow> ('op \<Rightarrow> 's \<Rightarrow> 's) \<Rightarrow> 'i \<Rightarrow> 'op list \<Rightarrow> 's \<Rightarrow> nat" where
  "bump_count bumps step i [] s = 0"
| "bump_count bumps step i (op # ops) s =
     (if bumps op s i then 1 else 0) + bump_count bumps step i ops (step op s)"

locale generation_fence =
  fixes gen_of :: "'s \<Rightarrow> 'i \<Rightarrow> u64 option"
    and step :: "'op \<Rightarrow> 's \<Rightarrow> 's"
    and bumps :: "'op \<Rightarrow> 's \<Rightarrow> 'i \<Rightarrow> bool"
    and drops :: "'op \<Rightarrow> 'i \<Rightarrow> bool"
  assumes gen_step: "gen_of s i = Some g \<Longrightarrow> \<not> drops op i \<Longrightarrow>
    gen_of (step op s) i = Some (if bumps op s i then saturating_add g 1 else g)"
begin

lemma gen_run:
  "gen_of s i = Some g \<Longrightarrow> \<forall>op\<in>set ops. \<not> drops op i \<Longrightarrow>
   \<exists>h. gen_of (fold step ops s) i = Some h \<and>
     unat h = min (unat g + bump_count bumps step i ops s) (2 ^ 64 - 1)"
proof (induction ops arbitrary: s g)
  case Nil
  then show ?case using unat_u64_bound [of g] by auto
next
  case (Cons op ops)
  let ?g = "if bumps op s i then saturating_add g 1 else g"
  have "gen_of (step op s) i = Some ?g"
    using Cons.prems by (simp add: gen_step)
  from Cons.IH [OF this] Cons.prems obtain h where
    "gen_of (fold step (op # ops) s) i = Some h"
    and "unat h = min (unat ?g + bump_count bumps step i ops (step op s)) (2 ^ 64 - 1)"
    by auto
  moreover have "unat ?g = min (unat g + (if bumps op s i then 1 else 0)) (2 ^ 64 - 1)"
    using unat_u64_bound [of g] by (auto simp: unat_saturating_add)
  ultimately show ?case by (auto simp: min_def)
qed

text \<open>The generation is the one seen earlier exactly when no lifecycle change came between.\<close>

lemma unchanged_iff:
  assumes "gen_of s i = Some g" and "\<forall>op\<in>set ops. \<not> drops op i" and "unat g < 2 ^ 64 - 1"
  shows "gen_of (fold step ops s) i = Some g \<longleftrightarrow> bump_count bumps step i ops s = 0"
proof -
  obtain h where h: "gen_of (fold step ops s) i = Some h"
    and u: "unat h = min (unat g + bump_count bumps step i ops s) (2 ^ 64 - 1)"
    using gen_run [OF assms(1,2)] by blast
  have "h = g \<longleftrightarrow> unat h = unat g" by (simp add: word_unat_eq_iff)
  with h u assms(3) show ?thesis by (auto simp: min_def)
qed

end

section \<open>Browser generations\<close>

text \<open>
  A surface fed by browser events belongs to one browser generation. An event of an older
  generation is refused, an event of a newer one takes the surface over; generation 0 stands for the
  current one.
\<close>

locale browser_surface =
  fixes gen :: "'s \<Rightarrow> u64"
    and step :: "'ev \<Rightarrow> 's \<Rightarrow> 's"
    and ev_gen :: "'ev \<Rightarrow> u64"
  assumes stale_step: "ev_gen e \<noteq> 0 \<Longrightarrow> ev_gen e < gen s \<Longrightarrow> step e s = s"
    and gen_step: "gen (step e s) = max (gen s) (ev_gen e)"
begin

lemma gen_mono_run: "gen s \<le> gen (fold step es s)"
proof (induction es arbitrary: s)
  case (Cons e es)
  have "gen s \<le> gen (step e s)" by (simp add: gen_step)
  also have "\<dots> \<le> gen (fold step es (step e s))" by (rule Cons)
  finally show ?case by simp
qed simp

lemma gen_seen_run: "e \<in> set es \<Longrightarrow> ev_gen e \<le> gen (fold step es s)"
proof (induction es arbitrary: s)
  case (Cons e' es)
  show ?case
  proof (cases "e = e'")
    case True
    have "ev_gen e \<le> gen (step e' s)" using True by (simp add: gen_step)
    also have "\<dots> \<le> gen (fold step es (step e' s))" by (rule gen_mono_run)
    finally show ?thesis by simp
  next
    case False
    with Cons show ?thesis by simp
  qed
qed simp

text \<open>Once an event of a newer generation was seen, older ones have no effect, at any later time.\<close>

lemma stale_run:
  assumes "newer \<in> set es" and "ev_gen e \<noteq> 0" and "ev_gen e < ev_gen newer"
  shows "step e (fold step es s) = fold step es s"
  using assms gen_seen_run [OF assms(1), of s] by (intro stale_step) auto

end

section \<open>Bounded caches\<close>

locale bounded_cache =
  fixes lookup :: "'s \<Rightarrow> 'k \<Rightarrow> 'v option"
    and order :: "'s \<Rightarrow> 'k list"
    and insert :: "'k \<Rightarrow> 'v \<Rightarrow> 's \<Rightarrow> 's"
    and accepts :: "'v \<Rightarrow> bool"
    and limit :: nat
    and invar :: "'s \<Rightarrow> bool"
  assumes limit_pos: "0 < limit"
    and invar_insert: "invar s \<Longrightarrow> invar (insert k v s)"
    and invar_distinct: "invar s \<Longrightarrow> distinct (order s)"
    and invar_bound: "invar s \<Longrightarrow> length (order s) \<le> limit"
    and invar_keys: "invar s \<Longrightarrow> lookup s k \<noteq> None \<longleftrightarrow> k \<in> set (order s)"
    and insert_rejected: "\<not> accepts v \<Longrightarrow> insert k v s = s"
    and order_insert: "accepts v \<Longrightarrow> order (insert k v s) =
          pop_front_to limit (filter (\<lambda>x. x \<noteq> k) (order s) @ [k])"
    and lookup_insert: "invar s \<Longrightarrow> accepts v \<Longrightarrow> lookup (insert k v s) k' =
          (if k' \<in> set (order (insert k v s)) then (if k' = k then Some v else lookup s k')
           else None)"
begin

lemma invar_run: "invar s \<Longrightarrow> invar (fold (\<lambda>(k, v). insert k v) kvs s)"
  by (induction kvs arbitrary: s) (auto simp: invar_insert)

lemma lookup_insert_same: "invar s \<Longrightarrow> accepts v \<Longrightarrow> lookup (insert k v s) k = Some v"
proof -
  assume "invar s" and acc: "accepts v"
  have "k \<in> set (order (insert k v s))"
    using limit_pos acc by (simp add: order_insert pop_front_to_drop)
  then show ?thesis using \<open>invar s\<close> acc by (simp add: lookup_insert)
qed

text \<open>Distance from the back: how many keys were inserted or refreshed since \<open>k\<close> was.\<close>

lemma insert_keeps_recent:
  assumes "invar s" and "order s = xs @ k # ys" and "k' \<noteq> k" and "Suc (length ys) < limit"
  obtains xs' ys' where "order (insert k' v s) = xs' @ k # ys'" and "length ys' \<le> Suc (length ys)"
    and "lookup (insert k' v s) k = lookup s k"
proof (cases "accepts v")
  case False
  then have "insert k' v s = s" by (rule insert_rejected)
  with assms(2) that show ?thesis by auto
next
  case True
  let ?xs = "filter (\<lambda>x. x \<noteq> k') xs" and ?ys = "filter (\<lambda>x. x \<noteq> k') ys @ [k']"
  let ?q = "?xs @ k # ?ys"
  have len: "length ?ys \<le> Suc (length ys)" by simp
  have "order (insert k' v s) = drop (length ?q - limit) ?q"
    using assms(2,3) True by (simp add: order_insert pop_front_to_drop)
  moreover have "length ?q - limit \<le> length ?xs"
    using len assms(4) by (simp del: length_filter_le)
  ultimately have ord: "order (insert k' v s) = drop (length ?q - limit) ?xs @ k # ?ys"
    by simp
  then have "lookup (insert k' v s) k = lookup s k"
    using assms(1,3) True by (simp add: lookup_insert)
  with ord len that show ?thesis by blast
qed

lemma recent_run:
  assumes "invar s" and "order s = xs @ k # ys" and "k \<notin> fst ` set kvs"
    and "length ys + length kvs < limit"
  shows "lookup (fold (\<lambda>(k, v). insert k v) kvs s) k = lookup s k"
  using assms
proof (induction kvs arbitrary: s xs ys)
  case Nil
  then show ?case by simp
next
  case (Cons kv kvs)
  obtain k' v where kv: "kv = (k', v)" by (cases kv)
  have "k' \<noteq> k" and "Suc (length ys) < limit \<or> kvs = []"
    using Cons.prems kv by auto
  show ?case
  proof (cases "Suc (length ys) < limit")
    case True
    obtain xs' ys' where "order (insert k' v s) = xs' @ k # ys'" "length ys' \<le> Suc (length ys)"
      "lookup (insert k' v s) k = lookup s k"
      using insert_keeps_recent [OF Cons.prems(1,2) \<open>k' \<noteq> k\<close> True] by blast
    then show ?thesis
      using Cons.IH [OF invar_insert [OF Cons.prems(1)]] Cons.prems kv by fastforce
  next
    case False
    with Cons.prems(4) show ?thesis by simp
  qed
qed

text \<open>A key survives the next \<open>limit - 1\<close> insertions of other keys.\<close>

lemma retained_after_inserts:
  assumes "invar s" and "accepts v" and "k \<notin> fst ` set kvs" and "length kvs < limit"
  shows "lookup (fold (\<lambda>(k, v). insert k v) kvs (insert k v s)) k = Some v"
proof -
  let ?q = "filter (\<lambda>x. x \<noteq> k) (order s) @ [k]"
  have "order (insert k v s) = drop (length ?q - limit) (filter (\<lambda>x. x \<noteq> k) (order s)) @ k # []"
    using assms(2) limit_pos by (simp add: order_insert pop_front_to_drop)
  then show ?thesis
    using recent_run [OF invar_insert [OF assms(1)]] assms(3,4) lookup_insert_same [OF assms(1,2)]
    by fastforce
qed

end

section \<open>Exclusive, at-most-once authority over command ids\<close>

text \<open>
  What the router relies on of the replay state: an id is owned from a winning claim until its
  release, settled once spent, and only an id that is neither can be won. The client lemmas: no
  sequence of operations lets a settled id be won again, nor an owned one before its release.
\<close>

locale replay_authority =
  fixes owns :: "'s \<Rightarrow> 'i \<Rightarrow> 'f option"
    and settled :: "'s \<Rightarrow> 'i \<Rightarrow> 'f option"
    and wins :: "'i \<Rightarrow> 'f \<Rightarrow> 's \<Rightarrow> bool"
    and step :: "'op \<Rightarrow> 's \<Rightarrow> 's"
    and releases :: "'op \<Rightarrow> 'i \<Rightarrow> bool"
  assumes wins_free: "wins i f s \<Longrightarrow> owns s i = None \<and> settled s i = None"
    and settled_step: "settled s i = Some f \<Longrightarrow> settled (step op s) i = Some f"
    and owns_step: "owns s i = Some f \<Longrightarrow> \<not> releases op i \<Longrightarrow> owns (step op s) i = Some f"
begin

lemma settled_run: "settled s i = Some f \<Longrightarrow> settled (fold step ops s) i = Some f"
  by (induction ops arbitrary: s) (simp_all add: settled_step)

lemma owns_run:
  "owns s i = Some f \<Longrightarrow> \<forall>op\<in>set ops. \<not> releases op i \<Longrightarrow> owns (fold step ops s) i = Some f"
  by (induction ops arbitrary: s) (simp_all add: owns_step)

lemma settled_final: "settled s i = Some f \<Longrightarrow> \<not> wins i f' (fold step ops s)"
  using settled_run wins_free by (metis option.distinct(1))

lemma owned_exclusive:
  "owns s i = Some f \<Longrightarrow> \<forall>op\<in>set ops. \<not> releases op i \<Longrightarrow> \<not> wins i f' (fold step ops s)"
  using owns_run wins_free by (metis option.distinct(1))

end

end
