(* ===== verification/Rub_Replay.thy ===== *)
theory Rub_Replay
  imports Rub_Codec Rub_Interfaces
begin

text \<open>
  The replay state of a session (\<^verbatim>\<open>rub-daemon/src/session/protocol.rs\<close> and \<^verbatim>\<open>session/cache.rs\<close>): the
  cache of committed responses, the commands in flight and the tombstones of the command ids that were
  spent. (The queue of post-commit projections in the same files is in \<open>Rub_Post_Commit\<close>; its limits
  are here with the others.) The type of responses is a parameter \<open>'r\<close>, with the length of its JSON text as the argument \<open>len\<close> of the operations that measure it
  (\<open>serialized_json_len\<close> over \<^verbatim>\<open>serde_json\<close>).

  A \<^verbatim>\<open>tokio::sync::watch\<close> channel is an index into \<open>rp_channels\<close>, which holds its current value: a
  claim that finds the command in flight subscribes to the index, a release writes \<open>Released\<close>.
\<close>

section \<open>State\<close>

definition REPLAY_CACHE_LIMIT :: nat where
  "REPLAY_CACHE_LIMIT = 1000"

definition REPLAY_CACHE_LIMIT_BYTES :: nat where
  "REPLAY_CACHE_LIMIT_BYTES = MAX_FRAME_BYTES * 8"

definition POST_COMMIT_PROJECTION_LIMIT :: nat where
  "POST_COMMIT_PROJECTION_LIMIT = 256"

definition POST_COMMIT_PROJECTION_LIMIT_BYTES :: nat where
  "POST_COMMIT_PROJECTION_LIMIT_BYTES = MAX_FRAME_BYTES * 4"

datatype replay_fence_state = InFlight | Released

record 'r replay_cache_entry =
  rce_fingerprint :: string
  rce_response :: 'r
  rce_approx_bytes :: nat

record replay_in_flight_entry =
  rif_fingerprint :: string
  rif_sender :: nat

record replay_spent_entry =
  rse_fingerprint :: string

record 'r replay_protocol_state =
  rp_cache :: "(string, 'r replay_cache_entry) mapping"
  rp_order :: "string list"
  rp_in_flight :: "(string, replay_in_flight_entry) mapping"
  rp_spent :: "(string, replay_spent_entry) mapping"
  rp_spent_order :: "string list"
  rp_total_bytes :: nat
  rp_channels :: "replay_fence_state list"

definition replay_default :: "'r replay_protocol_state" where
  "replay_default =
     \<lparr>rp_cache = Mapping.empty, rp_order = [], rp_in_flight = Mapping.empty,
      rp_spent = Mapping.empty, rp_spent_order = [], rp_total_bytes = 0, rp_channels = []\<rparr>"

datatype 'r replay_command_claim =
    Owner
  | Cached 'r
  | Wait nat
  | SpentWithoutCachedResponse
  | Conflict

section \<open>Operations\<close>

definition serialized_json_len :: "('a \<Rightarrow> string + string) \<Rightarrow> 'a \<Rightarrow> nat" where
  "serialized_json_len to_vec v =
     (case to_vec v of Inl _ \<Rightarrow> MAX_FRAME_BYTES | Inr bytes \<Rightarrow> length bytes)"

text \<open>One round of the eviction loop: drop the oldest id, and its entry if it has one.\<close>

definition evict_oldest :: "string \<Rightarrow> string list \<Rightarrow> 'r replay_protocol_state \<Rightarrow> 'r replay_protocol_state" where
  "evict_oldest oldest rest s =
     (case Mapping.lookup (rp_cache s) oldest of
        Some evicted \<Rightarrow> s\<lparr>rp_order := rest, rp_cache := Mapping.delete oldest (rp_cache s),
          rp_total_bytes := rp_total_bytes s - rce_approx_bytes evicted\<rparr>
      | None \<Rightarrow> s\<lparr>rp_order := rest\<rparr>)"

function trim_replay_cache_with_limits ::
  "nat \<Rightarrow> nat \<Rightarrow> 'r replay_protocol_state \<Rightarrow> 'r replay_protocol_state" where
  "trim_replay_cache_with_limits max_entries max_bytes s =
     (if Mapping.size (rp_cache s) > max_entries
         \<or> (rp_total_bytes s > max_bytes \<and> length (rp_order s) > 1)
      then (case rp_order s of
              [] \<Rightarrow> s
            | oldest # rest \<Rightarrow>
                trim_replay_cache_with_limits max_entries max_bytes (evict_oldest oldest rest s))
      else s)"
  by pat_completeness auto
termination
  by (relation "measure (\<lambda>(_, _, s). length (rp_order s))")
    (auto simp: evict_oldest_def split: option.split)

declare trim_replay_cache_with_limits.simps [simp del]

definition trim_replay_cache :: "'r replay_protocol_state \<Rightarrow> 'r replay_protocol_state" where
  "trim_replay_cache s =
     trim_replay_cache_with_limits REPLAY_CACHE_LIMIT REPLAY_CACHE_LIMIT_BYTES s"

function trim_spent_loop :: "nat \<Rightarrow> 'r replay_protocol_state \<Rightarrow> 'r replay_protocol_state" where
  "trim_spent_loop max_entries s =
     (if Mapping.size (rp_spent s) > max_entries
      then (case rp_spent_order s of
              [] \<Rightarrow> s
            | oldest # rest \<Rightarrow> trim_spent_loop max_entries
                (s\<lparr>rp_spent_order := rest, rp_spent := Mapping.delete oldest (rp_spent s)\<rparr>))
      else s)"
  by pat_completeness auto
termination
  by (relation "measure (\<lambda>(_, s). length (rp_spent_order s))") auto

declare trim_spent_loop.simps [simp del]

definition trim_replay_spent_with_limit ::
  "'r replay_protocol_state \<Rightarrow> nat \<Rightarrow> 'r replay_protocol_state" where
  "trim_replay_spent_with_limit s max_entries =
     (if max_entries = usize_max then s else trim_spent_loop max_entries s)"

definition trim_replay_spent :: "'r replay_protocol_state \<Rightarrow> 'r replay_protocol_state" where
  "trim_replay_spent s = trim_replay_spent_with_limit s usize_max"

definition claim_replay_command ::
  "string \<Rightarrow> string \<Rightarrow> 'r replay_protocol_state
     \<Rightarrow> 'r replay_command_claim \<times> 'r replay_protocol_state" where
  "claim_replay_command command_id fingerprint s =
     (case Mapping.lookup (rp_cache s) command_id of
        Some entry \<Rightarrow>
          (if rce_fingerprint entry = fingerprint then (Cached (rce_response entry), s)
           else (Conflict, s))
      | None \<Rightarrow>
          (case Mapping.lookup (rp_in_flight s) command_id of
             Some existing \<Rightarrow>
               (if rif_fingerprint existing \<noteq> fingerprint then (Conflict, s)
                else (Wait (rif_sender existing), s))
           | None \<Rightarrow>
               (case Mapping.lookup (rp_spent s) command_id of
                  Some existing \<Rightarrow>
                    (if rse_fingerprint existing \<noteq> fingerprint then (Conflict, s)
                     else (SpentWithoutCachedResponse, s))
                | None \<Rightarrow>
                    (Owner, s\<lparr>rp_in_flight := Mapping.update command_id
                        \<lparr>rif_fingerprint = fingerprint, rif_sender = length (rp_channels s)\<rparr>
                        (rp_in_flight s),
                      rp_channels := rp_channels s @ [InFlight]\<rparr>))))"

definition release_replay_command ::
  "string \<Rightarrow> 'r replay_protocol_state \<Rightarrow> 'r replay_protocol_state" where
  "release_replay_command command_id s =
     (case Mapping.lookup (rp_in_flight s) command_id of
        Some entry \<Rightarrow> s\<lparr>rp_in_flight := Mapping.delete command_id (rp_in_flight s),
          rp_channels := (rp_channels s)[rif_sender entry := Released]\<rparr>
      | None \<Rightarrow> s)"

definition mark_replay_command_spent ::
  "string \<Rightarrow> string \<Rightarrow> 'r replay_protocol_state \<Rightarrow> 'r replay_protocol_state" where
  "mark_replay_command_spent command_id fingerprint s =
     (case Mapping.lookup (rp_spent s) command_id of
        Some existing \<Rightarrow> s
      | None \<Rightarrow> trim_replay_spent
          (s\<lparr>rp_spent := Mapping.update command_id \<lparr>rse_fingerprint = fingerprint\<rparr> (rp_spent s),
             rp_spent_order := rp_spent_order s @ [command_id]\<rparr>))"

definition cache_response ::
  "('r \<Rightarrow> nat) \<Rightarrow> string \<Rightarrow> string \<Rightarrow> 'r \<Rightarrow> 'r replay_protocol_state \<Rightarrow> 'r replay_protocol_state" where
  "cache_response len command_id fingerprint response s =
     (let approx_bytes = len response;
          s1 = (case Mapping.lookup (rp_cache s) command_id of
                  Some previous \<Rightarrow> s\<lparr>rp_cache := Mapping.delete command_id (rp_cache s),
                    rp_total_bytes := rp_total_bytes s - rce_approx_bytes previous\<rparr>
                | None \<Rightarrow> s);
          s2 = s1\<lparr>rp_cache := Mapping.update command_id
                   \<lparr>rce_fingerprint = fingerprint, rce_response = response,
                    rce_approx_bytes = approx_bytes\<rparr> (rp_cache s1),
                 rp_total_bytes := usize_saturating_add (rp_total_bytes s1) approx_bytes,
                 rp_order := filter (\<lambda>existing. existing \<noteq> command_id) (rp_order s1) @ [command_id]\<rparr>
      in trim_replay_cache s2)"

section \<open>The cache stays consistent and bounded\<close>

definition cached_bytes :: "'r replay_protocol_state \<Rightarrow> string \<Rightarrow> nat" where
  "cached_bytes s k =
     (case Mapping.lookup (rp_cache s) k of None \<Rightarrow> 0 | Some e \<Rightarrow> rce_approx_bytes e)"

text \<open>
  The order lists every cached id once, and the byte total is the sum over them; a \<^verbatim>\<open>Vec\<close> holds at
  most \<^verbatim>\<open>isize::MAX\<close> bytes.
\<close>

definition isize_max :: nat where
  "isize_max = 2 ^ 63 - 1"

definition cache_ok :: "'r replay_protocol_state \<Rightarrow> bool" where
  "cache_ok s \<longleftrightarrow> distinct (rp_order s) \<and> set (rp_order s) = Mapping.keys (rp_cache s)
     \<and> rp_total_bytes s = (\<Sum>k\<leftarrow>rp_order s. cached_bytes s k)
     \<and> (\<forall>k. cached_bytes s k \<le> isize_max)"

definition cache_bounded :: "nat \<Rightarrow> nat \<Rightarrow> 'r replay_protocol_state \<Rightarrow> bool" where
  "cache_bounded max_entries max_bytes s \<longleftrightarrow>
     length (rp_order s) \<le> max_entries
     \<and> (rp_total_bytes s \<le> max_bytes \<or> length (rp_order s) \<le> 1)"

lemma cache_ok_size: "cache_ok s \<Longrightarrow> Mapping.size (rp_cache s) = length (rp_order s)"
  unfolding cache_ok_def Mapping.size_def
  by (metis List.finite_set distinct_card)

lemma evict_oldest_frame:
  "rp_in_flight (evict_oldest k rest s) = rp_in_flight s"
  "rp_spent (evict_oldest k rest s) = rp_spent s"
  "rp_spent_order (evict_oldest k rest s) = rp_spent_order s"
  "rp_channels (evict_oldest k rest s) = rp_channels s"
  "rp_order (evict_oldest k rest s) = rest"
  "Mapping.lookup (rp_cache (evict_oldest k rest s)) k' =
     (if k' = k then None else Mapping.lookup (rp_cache s) k')"
  by (auto simp: evict_oldest_def lookup_delete_if split: option.split)

lemma evict_oldest_ok:
  assumes "cache_ok s" and "rp_order s = k # rest"
  shows "cache_ok (evict_oldest k rest s)"
proof -
  have k: "k \<notin> set rest" "distinct rest" using assms by (auto simp: cache_ok_def)
  have bytes: "cached_bytes (evict_oldest k rest s) k' = (if k' = k then 0 else cached_bytes s k')" for k'
    by (simp add: cached_bytes_def evict_oldest_frame)
  have "Mapping.keys (rp_cache (evict_oldest k rest s)) = set rest"
  proof -
    have "k' \<in> Mapping.keys (rp_cache (evict_oldest k rest s)) \<longleftrightarrow>
        k' \<noteq> k \<and> k' \<in> Mapping.keys (rp_cache s)" for k'
      unfolding keys_lookup evict_oldest_frame(6) by simp
    moreover have "Mapping.keys (rp_cache s) = insert k (set rest)"
      using assms by (auto simp: cache_ok_def)
    ultimately show ?thesis using k(1) by auto
  qed
  moreover have "(\<Sum>k'\<leftarrow>rest. cached_bytes (evict_oldest k rest s) k') = (\<Sum>k'\<leftarrow>rest. cached_bytes s k')"
    using k(1) by (intro arg_cong [where f = sum_list] map_cong) (auto simp: bytes)
  moreover have "rp_total_bytes (evict_oldest k rest s) = rp_total_bytes s - cached_bytes s k"
    by (auto simp: evict_oldest_def cached_bytes_def split: option.split)
  ultimately show ?thesis
    using assms k bytes by (auto simp: cache_ok_def evict_oldest_frame(5))
qed

text \<open>
  The eviction loop removes a prefix of the order and nothing else, ends within both limits, and
  never touches the fences.
\<close>

definition trimmed :: "'r replay_protocol_state \<Rightarrow> 'r replay_protocol_state \<Rightarrow> bool" where
  "trimmed s t \<longleftrightarrow>
     (\<exists>evicted. rp_order s = evicted @ rp_order t
        \<and> (\<forall>k. Mapping.lookup (rp_cache t) k =
              (if k \<in> set evicted then None else Mapping.lookup (rp_cache s) k))
        \<and> (evicted \<noteq> [] \<longrightarrow> rp_order t \<noteq> []))
     \<and> rp_in_flight t = rp_in_flight s \<and> rp_spent t = rp_spent s
     \<and> rp_spent_order t = rp_spent_order s \<and> rp_channels t = rp_channels s"

lemma trimmed_refl: "trimmed s s"
  unfolding trimmed_def by (intro conjI exI [of _ "[]"]) auto

lemma trimmed_evict:
  assumes "trimmed (evict_oldest k rest s) t" and "rp_order s = k # rest" and "rest \<noteq> []"
  shows "trimmed s t"
proof -
  from assms(1) obtain evicted where "rest = evicted @ rp_order t"
    "\<forall>k'. Mapping.lookup (rp_cache t) k' =
       (if k' \<in> set evicted \<or> k' = k then None else Mapping.lookup (rp_cache s) k')"
    "evicted \<noteq> [] \<longrightarrow> rp_order t \<noteq> []"
    by (auto simp: trimmed_def evict_oldest_frame)
  with assms(1) show ?thesis
    unfolding trimmed_def evict_oldest_frame using assms(2,3)
    by (intro conjI exI [of _ "k # evicted"]) auto
qed

lemma trim_replay_cache_with_limits_correct:
  "cache_ok s \<Longrightarrow> 0 < max_entries \<Longrightarrow>
     cache_ok (trim_replay_cache_with_limits max_entries max_bytes s)
     \<and> cache_bounded max_entries max_bytes (trim_replay_cache_with_limits max_entries max_bytes s)
     \<and> trimmed s (trim_replay_cache_with_limits max_entries max_bytes s)"
proof (induction max_entries max_bytes s rule: trim_replay_cache_with_limits.induct)
  case (1 max_entries max_bytes s)
  let ?over = "Mapping.size (rp_cache s) > max_entries
      \<or> (rp_total_bytes s > max_bytes \<and> length (rp_order s) > 1)"
  note size = cache_ok_size [OF "1.prems"(1)]
  show ?case
  proof (cases ?over)
    case False
    then have "trim_replay_cache_with_limits max_entries max_bytes s = s"
      by (subst trim_replay_cache_with_limits.simps) (simp only: False if_False)
    with False "1.prems" show ?thesis by (auto simp: cache_bounded_def trimmed_refl size)
  next
    case True
    then have "length (rp_order s) > 1" using "1.prems"(2) by (auto simp: size)
    then obtain k rest where order: "rp_order s = k # rest" and rest: "rest \<noteq> []"
      by (cases "rp_order s") auto
    have "trim_replay_cache_with_limits max_entries max_bytes s
        = trim_replay_cache_with_limits max_entries max_bytes (evict_oldest k rest s)"
      using True by (subst trim_replay_cache_with_limits.simps) (simp add: order)
    with "1.IH" [OF True order evict_oldest_ok [OF "1.prems"(1) order] "1.prems"(2)]
    show ?thesis using trimmed_evict [OF _ order rest] by simp
  qed
qed

lemma trim_replay_spent_id [simp]: "trim_replay_spent s = s"
  by (simp add: trim_replay_spent_def trim_replay_spent_with_limit_def)

lemma sum_list_filter_neq:
  fixes f :: "'a \<Rightarrow> nat"
  assumes "distinct xs"
  shows "(\<Sum>x\<leftarrow>filter (\<lambda>y. y \<noteq> k) xs. f x) = (\<Sum>x\<leftarrow>xs. f x) - (if k \<in> set xs then f k else 0)"
  using assms
proof (induction xs)
  case (Cons x xs)
  have "k \<in> set xs \<Longrightarrow> f k \<le> (\<Sum>y\<leftarrow>xs. f y)"
    by (simp add: member_le_sum_list)
  with Cons show ?case by auto
qed simp

lemma cache_total_le_isize_max:
  assumes "cache_ok s" and "cache_bounded max_entries REPLAY_CACHE_LIMIT_BYTES s"
  shows "rp_total_bytes s \<le> isize_max"
proof (cases "length (rp_order s) \<le> 1")
  case True
  then consider "rp_order s = []" | k where "rp_order s = [k]"
    by (cases "rp_order s") auto
  then show ?thesis using assms(1) by cases (auto simp: cache_ok_def)
next
  case False
  with assms(2) have "rp_total_bytes s \<le> REPLAY_CACHE_LIMIT_BYTES" by (simp add: cache_bounded_def)
  then show ?thesis
    by (simp add: REPLAY_CACHE_LIMIT_BYTES_def MAX_FRAME_BYTES_def isize_max_def)
qed

text \<open>The state \<open>cache_response\<close> hands to the eviction loop.\<close>

definition cache_inserted ::
  "('r \<Rightarrow> nat) \<Rightarrow> string \<Rightarrow> string \<Rightarrow> 'r \<Rightarrow> 'r replay_protocol_state \<Rightarrow> 'r replay_protocol_state" where
  "cache_inserted len command_id fingerprint response s =
     s\<lparr>rp_cache := Mapping.update command_id
         \<lparr>rce_fingerprint = fingerprint, rce_response = response, rce_approx_bytes = len response\<rparr>
         (rp_cache s),
       rp_total_bytes := usize_saturating_add
         (rp_total_bytes s - cached_bytes s command_id) (len response),
       rp_order := filter (\<lambda>existing. existing \<noteq> command_id) (rp_order s) @ [command_id]\<rparr>"

lemma update_delete_same: "Mapping.update k v (Mapping.delete k m) = Mapping.update k v m"
  by (rule mapping_eqI) (simp add: lookup_update')

lemma cache_response_trim:
  "cache_response len command_id fingerprint response s =
     trim_replay_cache (cache_inserted len command_id fingerprint response s)"
  by (cases "Mapping.lookup (rp_cache s) command_id")
    (simp_all add: cache_response_def cache_inserted_def cached_bytes_def Let_def
      update_delete_same)

lemma cache_inserted_frame:
  "rp_in_flight (cache_inserted len c f r s) = rp_in_flight s"
  "rp_spent (cache_inserted len c f r s) = rp_spent s"
  "rp_spent_order (cache_inserted len c f r s) = rp_spent_order s"
  "rp_channels (cache_inserted len c f r s) = rp_channels s"
  "rp_order (cache_inserted len c f r s) = filter (\<lambda>existing. existing \<noteq> c) (rp_order s) @ [c]"
  "Mapping.lookup (rp_cache (cache_inserted len c f r s)) k =
     (if k = c then Some \<lparr>rce_fingerprint = f, rce_response = r, rce_approx_bytes = len r\<rparr>
      else Mapping.lookup (rp_cache s) k)"
  by (auto simp: cache_inserted_def lookup_update')

lemma cache_inserted_ok:
  assumes "cache_ok s" and "cache_bounded max_entries REPLAY_CACHE_LIMIT_BYTES s"
    and "len r \<le> isize_max"
  shows "cache_ok (cache_inserted len c f r s)"
proof -
  let ?t = "cache_inserted len c f r s"
  let ?keep = "filter (\<lambda>existing. existing \<noteq> c) (rp_order s)"
  have bytes: "cached_bytes ?t k = (if k = c then len r else cached_bytes s k)" for k
    by (simp add: cached_bytes_def cache_inserted_frame)
  have d: "distinct (rp_order s)" and keys: "set (rp_order s) = Mapping.keys (rp_cache s)"
    and total: "rp_total_bytes s = (\<Sum>k\<leftarrow>rp_order s. cached_bytes s k)"
    using assms(1) by (auto simp: cache_ok_def)
  have absent: "c \<notin> set (rp_order s) \<Longrightarrow> cached_bytes s c = 0"
    by (auto simp: keys keys_lookup cached_bytes_def)
  have "(\<Sum>k\<leftarrow>?keep. cached_bytes ?t k) = (\<Sum>k\<leftarrow>?keep. cached_bytes s k)"
    by (intro arg_cong [where f = sum_list] map_cong) (auto simp: bytes)
  also have "\<dots> = rp_total_bytes s - cached_bytes s c"
    using absent by (simp add: sum_list_filter_neq [OF d] total)
  finally have "(\<Sum>k\<leftarrow>?keep @ [c]. cached_bytes ?t k)
      = rp_total_bytes s - cached_bytes s c + len r"
    by (simp add: bytes)
  moreover have "rp_total_bytes ?t = rp_total_bytes s - cached_bytes s c + len r"
    using cache_total_le_isize_max [OF assms(1,2)] assms(3)
    by (simp add: cache_inserted_def usize_saturating_add_def isize_max_def usize_max_def)
  moreover have "Mapping.keys (rp_cache ?t) = insert c (Mapping.keys (rp_cache s))"
    by (auto simp: keys_lookup cache_inserted_frame split: if_splits)
  moreover have "set (?keep @ [c]) = insert c (Mapping.keys (rp_cache s))"
    unfolding keys [symmetric] by auto
  moreover have "distinct (?keep @ [c])" using d by simp
  moreover have "\<forall>k. cached_bytes ?t k \<le> isize_max"
    using assms(1,3) by (simp add: bytes cache_ok_def)
  ultimately show ?thesis
    unfolding cache_ok_def cache_inserted_frame(5) by simp
qed

lemma cache_response_correct:
  assumes "cache_ok s" and "cache_bounded REPLAY_CACHE_LIMIT REPLAY_CACHE_LIMIT_BYTES s"
    and "len r \<le> isize_max"
  shows "cache_ok (cache_response len c f r s)"
    and "cache_bounded REPLAY_CACHE_LIMIT REPLAY_CACHE_LIMIT_BYTES (cache_response len c f r s)"
    and "trimmed (cache_inserted len c f r s) (cache_response len c f r s)"
  using trim_replay_cache_with_limits_correct
    [OF cache_inserted_ok [where len = len and r = r and c = c and f = f, OF assms],
      of REPLAY_CACHE_LIMIT REPLAY_CACHE_LIMIT_BYTES]
  by (simp_all add: cache_response_trim trim_replay_cache_def REPLAY_CACHE_LIMIT_def)

lemma trimmed_last:
  assumes "trimmed s t" and "rp_order s = xs @ [k]" and "k \<notin> set xs"
  shows "Mapping.lookup (rp_cache t) k = Mapping.lookup (rp_cache s) k"
proof -
  from assms(1) obtain evicted where ev: "xs @ [k] = evicted @ rp_order t"
    "\<forall>k. Mapping.lookup (rp_cache t) k =
       (if k \<in> set evicted then None else Mapping.lookup (rp_cache s) k)"
    "evicted \<noteq> [] \<longrightarrow> rp_order t \<noteq> []"
    using assms(2) by (auto simp: trimmed_def)
  have "k \<notin> set evicted"
  proof (cases "evicted = []")
    case False
    with ev obtain ys where "rp_order t = ys @ [k]" by (metis last_appendR last_snoc append_butlast_last_id)
    with ev(1) have "xs = evicted @ ys" by simp
    with assms(3) show ?thesis by auto
  qed simp
  with ev(2) show ?thesis by simp
qed

section \<open>Fences\<close>

definition replay_owned :: "'r replay_protocol_state \<Rightarrow> string \<Rightarrow> string option" where
  "replay_owned s i = map_option rif_fingerprint (Mapping.lookup (rp_in_flight s) i)"

definition replay_settled :: "'r replay_protocol_state \<Rightarrow> string \<Rightarrow> string option" where
  "replay_settled s i = map_option rse_fingerprint (Mapping.lookup (rp_spent s) i)"

definition replay_cached :: "'r replay_protocol_state \<Rightarrow> string \<Rightarrow> (string \<times> 'r) option" where
  "replay_cached s i =
     map_option (\<lambda>e. (rce_fingerprint e, rce_response e)) (Mapping.lookup (rp_cache s) i)"

text \<open>The five verdicts of a claim, and what it changes.\<close>

lemma claim_verdict:
  "fst (claim_replay_command i f s) =
     (case replay_cached s i of
        Some (g, r) \<Rightarrow> if g = f then Cached r else Conflict
      | None \<Rightarrow>
          (case Mapping.lookup (rp_in_flight s) i of
             Some e \<Rightarrow> if rif_fingerprint e = f then Wait (rif_sender e) else Conflict
           | None \<Rightarrow>
               (case replay_settled s i of
                  Some g \<Rightarrow> if g = f then SpentWithoutCachedResponse else Conflict
                | None \<Rightarrow> Owner)))"
  by (auto simp: claim_replay_command_def replay_cached_def replay_settled_def split: option.split)

lemma claim_not_owner: "fst (claim_replay_command i f s) \<noteq> Owner \<Longrightarrow> snd (claim_replay_command i f s) = s"
  by (auto simp: claim_replay_command_def split: option.splits if_splits)

lemma claim_owner_iff:
  "fst (claim_replay_command i f s) = Owner \<longleftrightarrow>
     replay_cached s i = None \<and> replay_owned s i = None \<and> replay_settled s i = None"
  by (auto simp: claim_replay_command_def replay_cached_def replay_owned_def replay_settled_def
      split: option.splits if_splits)

lemma claim_owned:
  "replay_owned (snd (claim_replay_command i f s)) j =
     (if j = i \<and> fst (claim_replay_command i f s) = Owner then Some f else replay_owned s j)"
  by (auto simp: claim_replay_command_def replay_owned_def lookup_update'
      split: option.splits if_splits)

lemma claim_frame:
  "rp_cache (snd (claim_replay_command i f s)) = rp_cache s"
  "rp_order (snd (claim_replay_command i f s)) = rp_order s"
  "rp_spent (snd (claim_replay_command i f s)) = rp_spent s"
  "rp_spent_order (snd (claim_replay_command i f s)) = rp_spent_order s"
  "rp_total_bytes (snd (claim_replay_command i f s)) = rp_total_bytes s"
  by (auto simp: claim_replay_command_def split: option.splits if_splits)

lemma release_frame:
  "rp_cache (release_replay_command i s) = rp_cache s"
  "rp_order (release_replay_command i s) = rp_order s"
  "rp_spent (release_replay_command i s) = rp_spent s"
  "rp_spent_order (release_replay_command i s) = rp_spent_order s"
  "rp_total_bytes (release_replay_command i s) = rp_total_bytes s"
  by (auto simp: release_replay_command_def split: option.splits)

lemma release_owned: "replay_owned (release_replay_command i s) j = (if j = i then None else replay_owned s j)"
  by (auto simp: release_replay_command_def replay_owned_def lookup_delete_if split: option.splits)

lemma mark_spent_frame:
  "rp_cache (mark_replay_command_spent i f s) = rp_cache s"
  "rp_order (mark_replay_command_spent i f s) = rp_order s"
  "rp_in_flight (mark_replay_command_spent i f s) = rp_in_flight s"
  "rp_total_bytes (mark_replay_command_spent i f s) = rp_total_bytes s"
  "rp_channels (mark_replay_command_spent i f s) = rp_channels s"
  by (auto simp: mark_replay_command_spent_def split: option.splits)

lemma mark_spent_settled:
  "replay_settled (mark_replay_command_spent i f s) j =
     (if j = i \<and> replay_settled s i = None then Some f else replay_settled s j)"
  by (auto simp: mark_replay_command_spent_def replay_settled_def lookup_update' split: option.splits)

lemma cache_response_frame:
  "rp_in_flight (cache_response len c f r s) = rp_in_flight s"
  "rp_spent (cache_response len c f r s) = rp_spent s"
  "rp_spent_order (cache_response len c f r s) = rp_spent_order s"
  "rp_channels (cache_response len c f r s) = rp_channels s"
proof -
  have "rp_in_flight (trim_replay_cache_with_limits n b t) = rp_in_flight t
      \<and> rp_spent (trim_replay_cache_with_limits n b t) = rp_spent t
      \<and> rp_spent_order (trim_replay_cache_with_limits n b t) = rp_spent_order t
      \<and> rp_channels (trim_replay_cache_with_limits n b t) = rp_channels t" for n b
    and t :: "'a replay_protocol_state"
    by (induction n b t rule: trim_replay_cache_with_limits.induct)
      (subst (1 2 3 4) trim_replay_cache_with_limits.simps,
        auto simp: evict_oldest_frame split: list.split)
  then show "rp_in_flight (cache_response len c f r s) = rp_in_flight s"
    "rp_spent (cache_response len c f r s) = rp_spent s"
    "rp_spent_order (cache_response len c f r s) = rp_spent_order s"
    "rp_channels (cache_response len c f r s) = rp_channels s"
    by (simp_all add: cache_response_trim trim_replay_cache_def cache_inserted_frame)
qed

lemmas replay_frame = claim_frame release_frame mark_spent_frame cache_response_frame

text \<open>The operations the router performs on the replay state, as data.\<close>

datatype 'r replay_op =
    ClaimOp string string
  | ReleaseOp string
  | SpendOp string string
  | CacheOp string string 'r

fun run_replay_op :: "('r \<Rightarrow> nat) \<Rightarrow> 'r replay_op \<Rightarrow> 'r replay_protocol_state \<Rightarrow> 'r replay_protocol_state" where
  "run_replay_op len (ClaimOp i f) s = snd (claim_replay_command i f s)"
| "run_replay_op len (ReleaseOp i) s = release_replay_command i s"
| "run_replay_op len (SpendOp i f) s = mark_replay_command_spent i f s"
| "run_replay_op len (CacheOp i f r) s = cache_response len i f r s"

fun op_releases :: "'r replay_op \<Rightarrow> string \<Rightarrow> bool" where
  "op_releases (ReleaseOp i) j = (i = j)"
| "op_releases _ j = False"

lemma owned_frame: "rp_in_flight t = rp_in_flight s \<Longrightarrow> replay_owned t i = replay_owned s i"
  by (simp add: replay_owned_def)

lemma settled_frame: "rp_spent t = rp_spent s \<Longrightarrow> replay_settled t i = replay_settled s i"
  by (simp add: replay_settled_def)

interpretation ra: replay_authority replay_owned replay_settled
  "\<lambda>i f s. fst (claim_replay_command i f s) = Owner" "run_replay_op len" op_releases
  for len :: "'r \<Rightarrow> nat"
proof unfold_locales
  fix i f and s :: "'r replay_protocol_state" and op :: "'r replay_op"
  show "fst (claim_replay_command i f s) = Owner \<Longrightarrow> replay_owned s i = None \<and> replay_settled s i = None"
    by (simp add: claim_owner_iff)
  show "replay_settled s i = Some f \<Longrightarrow> replay_settled (run_replay_op len op s) i = Some f"
    by (cases op) (auto simp: mark_spent_settled settled_frame [OF claim_frame(3)]
        settled_frame [OF release_frame(3)] settled_frame [OF cache_response_frame(2)])
  show "replay_owned s i = Some f \<Longrightarrow> \<not> op_releases op i \<Longrightarrow>
      replay_owned (run_replay_op len op s) i = Some f"
    by (cases op) (auto simp: claim_owned claim_owner_iff release_owned
        owned_frame [OF mark_spent_frame(3)] owned_frame [OF cache_response_frame(1)])
qed

section \<open>The invariant of the replay state\<close>

text \<open>A channel shows \<open>InFlight\<close> exactly as long as it belongs to a command in flight.\<close>

definition channels_ok :: "'r replay_protocol_state \<Rightarrow> bool" where
  "channels_ok s \<longleftrightarrow>
     (\<forall>i e. Mapping.lookup (rp_in_flight s) i = Some e \<longrightarrow>
        rif_sender e < length (rp_channels s) \<and> rp_channels s ! rif_sender e = InFlight)
     \<and> (\<forall>i j e e'. Mapping.lookup (rp_in_flight s) i = Some e \<longrightarrow>
          Mapping.lookup (rp_in_flight s) j = Some e' \<longrightarrow> rif_sender e = rif_sender e' \<longrightarrow> i = j)
     \<and> (\<forall>c < length (rp_channels s). rp_channels s ! c = InFlight \<longrightarrow>
          (\<exists>i e. Mapping.lookup (rp_in_flight s) i = Some e \<and> rif_sender e = c))"

definition spent_ok :: "'r replay_protocol_state \<Rightarrow> bool" where
  "spent_ok s \<longleftrightarrow> distinct (rp_spent_order s) \<and> set (rp_spent_order s) = Mapping.keys (rp_spent s)"

definition replay_invar :: "'r replay_protocol_state \<Rightarrow> bool" where
  "replay_invar s \<longleftrightarrow> cache_ok s \<and> cache_bounded REPLAY_CACHE_LIMIT REPLAY_CACHE_LIMIT_BYTES s
     \<and> spent_ok s \<and> channels_ok s"

lemma replay_invar_default: "replay_invar replay_default"
  by (simp add: replay_invar_def replay_default_def cache_ok_def cache_bounded_def spent_ok_def
      channels_ok_def cached_bytes_def)

lemma cache_ok_frame:
  "rp_cache t = rp_cache s \<Longrightarrow> rp_order t = rp_order s \<Longrightarrow> rp_total_bytes t = rp_total_bytes s \<Longrightarrow>
     cache_ok t = cache_ok s \<and> cache_bounded n b t = cache_bounded n b s"
  by (simp add: cache_ok_def cache_bounded_def cached_bytes_def)

lemma spent_ok_frame:
  "rp_spent t = rp_spent s \<Longrightarrow> rp_spent_order t = rp_spent_order s \<Longrightarrow> spent_ok t = spent_ok s"
  by (simp add: spent_ok_def)

lemma channels_ok_frame:
  "rp_in_flight t = rp_in_flight s \<Longrightarrow> rp_channels t = rp_channels s \<Longrightarrow> channels_ok t = channels_ok s"
  by (simp add: channels_ok_def)

lemma channels_ok_claim:
  assumes "channels_ok s"
  shows "channels_ok (snd (claim_replay_command i f s))"
proof (cases "fst (claim_replay_command i f s) = Owner")
  case False
  then show ?thesis using assms claim_not_owner by metis
next
  case True
  let ?e = "\<lparr>rif_fingerprint = f, rif_sender = length (rp_channels s)\<rparr>"
  have s: "rp_in_flight (snd (claim_replay_command i f s)) = Mapping.update i ?e (rp_in_flight s)"
    "rp_channels (snd (claim_replay_command i f s)) = rp_channels s @ [InFlight]"
    using True by (auto simp: claim_replay_command_def split: option.splits if_splits)
  have free: "Mapping.lookup (rp_in_flight s) i = None"
    using True by (simp add: claim_owner_iff replay_owned_def)
  have old: "Mapping.lookup (rp_in_flight s) j = Some e \<Longrightarrow> rif_sender e < length (rp_channels s)" for j e
    using assms by (simp add: channels_ok_def)
  show ?thesis
    unfolding channels_ok_def s
  proof (intro conjI allI impI)
    fix j e assume "Mapping.lookup (Mapping.update i ?e (rp_in_flight s)) j = Some e"
    then show "rif_sender e < length (rp_channels s @ [InFlight])"
      "(rp_channels s @ [InFlight]) ! rif_sender e = InFlight"
      using assms by (auto simp: lookup_update' channels_ok_def nth_append less_SucI split: if_splits)
  next
    fix j k e e'
    assume "Mapping.lookup (Mapping.update i ?e (rp_in_flight s)) j = Some e"
      "Mapping.lookup (Mapping.update i ?e (rp_in_flight s)) k = Some e'" "rif_sender e = rif_sender e'"
    then show "j = k"
      using assms old by (fastforce simp: lookup_update' channels_ok_def split: if_splits)
  next
    fix c assume c: "c < length (rp_channels s @ [InFlight])" "(rp_channels s @ [InFlight]) ! c = InFlight"
    show "\<exists>j e. Mapping.lookup (Mapping.update i ?e (rp_in_flight s)) j = Some e \<and> rif_sender e = c"
    proof (cases "c = length (rp_channels s)")
      case True
      then show ?thesis by (intro exI [of _ i] exI [of _ ?e]) (simp add: lookup_update')
    next
      case False
      with c have "c < length (rp_channels s)" "rp_channels s ! c = InFlight"
        by (auto simp: nth_append)
      with assms obtain j e where je: "Mapping.lookup (rp_in_flight s) j = Some e" "rif_sender e = c"
        by (auto simp: channels_ok_def)
      then have "j \<noteq> i" using free by auto
      with je show ?thesis by (intro exI [of _ j] exI [of _ e]) (simp add: lookup_update')
    qed
  qed
qed

lemma channels_ok_release:
  assumes "channels_ok s"
  shows "channels_ok (release_replay_command i s)"
proof (cases "Mapping.lookup (rp_in_flight s) i")
  case None
  with assms show ?thesis by (simp add: release_replay_command_def)
next
  case (Some e)
  have s: "rp_in_flight (release_replay_command i s) = Mapping.delete i (rp_in_flight s)"
    "rp_channels (release_replay_command i s) = (rp_channels s)[rif_sender e := Released]"
    using Some by (auto simp: release_replay_command_def)
  show ?thesis
    unfolding channels_ok_def s
  proof (intro conjI allI impI)
    fix j e' assume j: "Mapping.lookup (Mapping.delete i (rp_in_flight s)) j = Some e'"
    then have j': "Mapping.lookup (rp_in_flight s) j = Some e'" "j \<noteq> i"
      by (auto simp: lookup_delete_if split: if_splits)
    then have "rif_sender e' \<noteq> rif_sender e" using assms Some by (auto simp: channels_ok_def)
    with j' show "rif_sender e' < length ((rp_channels s)[rif_sender e := Released])"
      "(rp_channels s)[rif_sender e := Released] ! rif_sender e' = InFlight"
      using assms by (auto simp: channels_ok_def)
  next
    fix j k e1 e2
    assume "Mapping.lookup (Mapping.delete i (rp_in_flight s)) j = Some e1"
      "Mapping.lookup (Mapping.delete i (rp_in_flight s)) k = Some e2" "rif_sender e1 = rif_sender e2"
    then show "j = k" using assms by (auto simp: lookup_delete_if channels_ok_def split: if_splits)
  next
    fix c assume c: "c < length ((rp_channels s)[rif_sender e := Released])"
      "(rp_channels s)[rif_sender e := Released] ! c = InFlight"
    then have "c \<noteq> rif_sender e" by auto
    with c obtain j e' where "Mapping.lookup (rp_in_flight s) j = Some e'" "rif_sender e' = c"
      using assms by (auto simp: channels_ok_def)
    with \<open>c \<noteq> rif_sender e\<close> Some show
      "\<exists>j e'. Mapping.lookup (Mapping.delete i (rp_in_flight s)) j = Some e' \<and> rif_sender e' = c"
      by (intro exI [of _ j] exI [of _ e']) (auto simp: lookup_delete_if)
  qed
qed

lemma spent_ok_mark:
  assumes "spent_ok s"
  shows "spent_ok (mark_replay_command_spent i f s)"
proof (cases "Mapping.lookup (rp_spent s) i")
  case None
  then have "i \<notin> set (rp_spent_order s)" using assms by (simp add: spent_ok_def keys_lookup)
  moreover have "Mapping.keys (Mapping.update i \<lparr>rse_fingerprint = f\<rparr> (rp_spent s))
      = insert i (Mapping.keys (rp_spent s))" by simp
  ultimately show ?thesis
    using assms None by (simp add: mark_replay_command_spent_def spent_ok_def)
next
  case (Some e)
  with assms show ?thesis by (simp add: mark_replay_command_spent_def)
qed

lemma replay_invar_step:
  assumes "replay_invar s" and "\<And>r. len r \<le> isize_max"
  shows "replay_invar (run_replay_op len op s)"
proof (cases op)
  case (ClaimOp i f)
  with assms(1) show ?thesis
    using cache_ok_frame [of "snd (claim_replay_command i f s)" s, OF claim_frame(1,2,5)]
      spent_ok_frame [of "snd (claim_replay_command i f s)" s, OF claim_frame(3,4)] channels_ok_claim [of s i f]
    by (simp add: replay_invar_def)
next
  case (ReleaseOp i)
  with assms(1) show ?thesis
    using cache_ok_frame [of "release_replay_command i s" s, OF release_frame(1,2,5)]
      spent_ok_frame [of "release_replay_command i s" s, OF release_frame(3,4)] channels_ok_release [of s i]
    by (simp add: replay_invar_def)
next
  case (SpendOp i f)
  with assms(1) show ?thesis
    using cache_ok_frame [of "mark_replay_command_spent i f s" s, OF mark_spent_frame(1,2,4)]
      channels_ok_frame [of "mark_replay_command_spent i f s" s, OF mark_spent_frame(3,5)] spent_ok_mark [of s i f]
    by (simp add: replay_invar_def)
next
  case (CacheOp i f r)
  with assms show ?thesis
    using cache_response_correct [of s len r i f]
      spent_ok_frame [of "cache_response len i f r s" s, OF cache_response_frame(2,3)]
      channels_ok_frame [of "cache_response len i f r s" s, OF cache_response_frame(1,4)]
    by (simp add: replay_invar_def)
qed

lemma replay_invar_run:
  assumes "\<And>r. len r \<le> isize_max"
  shows "replay_invar s \<Longrightarrow> replay_invar (fold (run_replay_op len) ops s)"
  by (induction ops arbitrary: s) (simp_all add: replay_invar_step assms)

section \<open>Properties\<close>

text \<open>
  C7. Whatever the router does, the replay cache keeps its books: it holds at most 1000 responses,
  its byte total is the exact sum of the entries and stays within eight frames unless a single
  response is larger, the order lists every cached id once, and the tombstones list every spent id
  once. A response is at most \<^verbatim>\<open>isize::MAX\<close> bytes long, as every \<^verbatim>\<open>Vec\<close>.
\<close>

theorem replay_state_invariant:
  assumes "\<And>r. len r \<le> isize_max"
    and "s = fold (run_replay_op len) ops replay_default"
  shows "Mapping.size (rp_cache s) = length (rp_order s) \<and> length (rp_order s) \<le> 1000 \<and>
    distinct (rp_order s) \<and> set (rp_order s) = Mapping.keys (rp_cache s) \<and>
    rp_total_bytes s = (\<Sum>k\<leftarrow>rp_order s. cached_bytes s k) \<and>
    (rp_total_bytes s \<le> 8 * MAX_FRAME_BYTES \<or> length (rp_order s) = 1) \<and>
    distinct (rp_spent_order s) \<and> set (rp_spent_order s) = Mapping.keys (rp_spent s)"
proof -
  have inv: "replay_invar s"
    using replay_invar_run [of len, OF assms(1) replay_invar_default] assms(2) by simp
  then have ok: "cache_ok s" and b: "cache_bounded REPLAY_CACHE_LIMIT REPLAY_CACHE_LIMIT_BYTES s"
    by (simp_all add: replay_invar_def)
  have "rp_total_bytes s = 0" if "rp_order s = []"
    using ok that by (simp add: cache_ok_def)
  then have "rp_total_bytes s \<le> 8 * MAX_FRAME_BYTES \<or> length (rp_order s) = 1"
    using b by (cases "rp_order s") (auto simp: cache_bounded_def REPLAY_CACHE_LIMIT_BYTES_def)
  with inv cache_ok_size [OF ok] show ?thesis
    by (auto simp: replay_invar_def cache_ok_def cache_bounded_def spent_ok_def
        REPLAY_CACHE_LIMIT_def)
qed

theorem replay_state_invariant_witness:
  "rp_order (fold (run_replay_op (\<lambda>r :: nat. 6)) [CacheOp ''a'' ''f'' 1, CacheOp ''b'' ''g'' 2]
     replay_default) \<noteq> [] \<and>
   length (rp_order (fold (run_replay_op (\<lambda>r :: nat. 6))
     [CacheOp ''a'' ''f'' 1, CacheOp ''b'' ''g'' 2] replay_default)) \<le> 1000"
proof -
  have "\<And>r :: nat. (\<lambda>_. 6) r \<le> isize_max" by (simp add: isize_max_def)
  from replay_state_invariant [where len = "\<lambda>r :: nat. 6", OF this refl,
      of "[CacheOp ''a'' ''f'' 1, CacheOp ''b'' ''g'' 2]"]
  show ?thesis
    by (simp add: cache_response_def trim_replay_cache_def trim_replay_cache_with_limits.simps
        replay_default_def REPLAY_CACHE_LIMIT_def REPLAY_CACHE_LIMIT_BYTES_def MAX_FRAME_BYTES_def
        usize_saturating_add_def usize_max_def Mapping.size_def)
qed

text \<open>
  C6. A response is replayed to the request it belongs to: right after it is stored, a claim with
  the same command id and the same fingerprint gets exactly this response, and a claim that reuses
  the id for a different request is a conflict. Neither changes the state.
\<close>

theorem cached_response_replayed:
  assumes "replay_invar s" and "len r \<le> isize_max"
  shows "claim_replay_command i f (cache_response len i f r s) = (Cached r, cache_response len i f r s) \<and>
    (g \<noteq> f \<longrightarrow>
       claim_replay_command i g (cache_response len i f r s) = (Conflict, cache_response len i f r s))"
proof -
  let ?t = "cache_response len i f r s"
  have "trimmed (cache_inserted len i f r s) ?t"
    using assms by (intro cache_response_correct(3)) (auto simp: replay_invar_def)
  then have "Mapping.lookup (rp_cache ?t) i = Mapping.lookup (rp_cache (cache_inserted len i f r s)) i"
    by (rule trimmed_last [OF _ cache_inserted_frame(5)]) simp
  then show ?thesis by (simp add: claim_replay_command_def cache_inserted_frame(6))
qed

theorem cached_response_replayed_witness:
  "fst (claim_replay_command ''a'' ''f'' (cache_response (\<lambda>_. 6) ''a'' ''f'' (7 :: nat) replay_default))
     = Cached 7"
  using cached_response_replayed [OF replay_invar_default, of "\<lambda>_. 6" "7 :: nat" "''a''" "''f''"]
  by (simp add: isize_max_def)

text \<open>
  C5. At most one owner: once a claim has won a command id, no later claim of the id wins before
  the id is released, whatever else happens in between; and once the id is marked spent no later
  claim wins at all, even after the cached response is evicted.
\<close>

theorem replay_owner_exclusive:
  "(fst (claim_replay_command i f s) = Owner \<longrightarrow> (\<forall>op\<in>set ops. \<not> op_releases op i) \<longrightarrow>
      fst (claim_replay_command i g
        (fold (run_replay_op len) ops (snd (claim_replay_command i f s)))) \<noteq> Owner) \<and>
   fst (claim_replay_command i g
     (fold (run_replay_op len) ops (mark_replay_command_spent i f s))) \<noteq> Owner"
proof (intro conjI impI)
  assume won: "fst (claim_replay_command i f s) = Owner" and ops: "\<forall>op\<in>set ops. \<not> op_releases op i"
  have "replay_owned (snd (claim_replay_command i f s)) i = Some f"
    using won by (simp add: claim_owned)
  from ra.owned_exclusive [OF this ops]
  show "fst (claim_replay_command i g
      (fold (run_replay_op len) ops (snd (claim_replay_command i f s)))) \<noteq> Owner" .
next
  obtain h where "replay_settled (mark_replay_command_spent i f s) i = Some h"
    by (cases "replay_settled s i") (auto simp: mark_spent_settled)
  from ra.settled_final [OF this]
  show "fst (claim_replay_command i g
      (fold (run_replay_op len) ops (mark_replay_command_spent i f s))) \<noteq> Owner" .
qed

theorem replay_owner_exclusive_witness:
  "fst (claim_replay_command ''a'' ''f'' (replay_default :: nat replay_protocol_state)) = Owner \<and>
   fst (claim_replay_command ''a'' ''f'' (fold (run_replay_op (\<lambda>_. 0)) [ClaimOp ''b'' ''g'', ReleaseOp ''b'']
     (snd (claim_replay_command ''a'' ''f'' (replay_default :: nat replay_protocol_state))))) \<noteq> Owner"
proof -
  have "fst (claim_replay_command ''a'' ''f'' (replay_default :: nat replay_protocol_state)) = Owner"
    by (simp add: claim_replay_command_def replay_default_def)
  then show ?thesis
    using replay_owner_exclusive [of "''a''" "''f''" "replay_default :: nat replay_protocol_state"
        "[ClaimOp ''b'' ''g'', ReleaseOp ''b'']" "''f''" "\<lambda>_. 0"] by simp
qed

text \<open>
  C8. No waiter is stranded: in every state the router can reach, the channel a waiting claim is
  given shows \<open>InFlight\<close>, it belongs to the command in flight under that id with that fingerprint,
  and releasing the id turns it to \<open>Released\<close> and removes the entry, so that the waiter's next claim
  of an id that was not spent or cached wins.
\<close>

theorem waiting_claim_released:
  assumes "\<And>r. len r \<le> isize_max"
    and "s = fold (run_replay_op len) ops replay_default"
    and "fst (claim_replay_command i f s) = Wait c"
  shows "c < length (rp_channels s) \<and> rp_channels s ! c = InFlight \<and> replay_owned s i = Some f \<and>
    rp_channels (release_replay_command i s) ! c = Released \<and>
    (fst (claim_replay_command i f (release_replay_command i s)) = Owner \<longleftrightarrow> replay_settled s i = None)"
proof -
  have inv: "channels_ok s"
    using replay_invar_run [of len, OF assms(1) replay_invar_default] assms(2) by (simp add: replay_invar_def)
  from assms(3) obtain e where e: "Mapping.lookup (rp_in_flight s) i = Some e"
    "rif_fingerprint e = f" "rif_sender e = c" and nc: "replay_cached s i = None"
    by (auto simp: claim_verdict split: option.splits if_splits prod.splits)
  from inv e have c: "c < length (rp_channels s)" "rp_channels s ! c = InFlight"
    by (auto simp: channels_ok_def)
  have "replay_cached (release_replay_command i s) i = None"
    "replay_settled (release_replay_command i s) i = replay_settled s i"
    using nc by (simp_all add: replay_cached_def replay_settled_def release_frame)
  with e c show ?thesis
    by (auto simp: replay_owned_def release_replay_command_def claim_owner_iff release_owned
        lookup_delete_if)
qed

theorem waiting_claim_released_witness:
  "let s = fold (run_replay_op (\<lambda>r :: nat. 6)) [ClaimOp ''a'' ''f''] replay_default in
   fst (claim_replay_command ''a'' ''f'' s) = Wait 0 \<and>
   rp_channels (release_replay_command ''a'' s) ! 0 = Released"
proof -
  let ?s = "fold (run_replay_op (\<lambda>r :: nat. 6)) [ClaimOp ''a'' ''f''] replay_default"
  have w: "fst (claim_replay_command ''a'' ''f'' ?s) = Wait 0"
    by (simp add: claim_replay_command_def replay_default_def lookup_update')
  have "\<And>r :: nat. (\<lambda>_. 6) r \<le> isize_max" by (simp add: isize_max_def)
  from waiting_claim_released [where len = "\<lambda>r :: nat. 6", OF this refl w] w
  show ?thesis by (simp only: Let_def)
qed

end
