(* ===== verification/Rub_Fence.thy ===== *)
theory Rub_Fence
  imports Rub_Replay
begin

text \<open>
  The replay fence of the router (\<^verbatim>\<open>rub-daemon/src/router/transaction.rs\<close>, \<^verbatim>\<open>transaction/response.rs\<close>
  and \<^verbatim>\<open>router/queue.rs\<close>): the guard object that owns a command id from a winning claim to its
  release, and the requests that run concurrently over the replay state. Every lock section of the
  code is one step of \<open>tx_step\<close>, so that steps of different requests interleave everywhere the code
  lets them; a request may also be dropped wherever it awaits (\<open>Drop for ReplayFenceOwner\<close>). The
  execution gate is the \<^verbatim>\<open>tokio\<close> read-write lock: a request executes while it holds the gate, shared
  for the read-only commands that allow it, exclusive otherwise, except a request dispatched inside
  an active transaction, which runs under its parent's permit.

  The result is the at-most-once guarantee: whatever the interleaving, a command id enters
  execution at most once in the lifetime of a session, and every replayed response is the one its
  single execution produced.
\<close>

section \<open>The fence owner\<close>

datatype replay_finalize_mode = ReleaseOnly | CacheCommittedResponse

record replay_fence_owner =
  rfo_command_id :: string
  rfo_fingerprint :: string
  rfo_finalize :: replay_finalize_mode
  rfo_finalized :: bool

definition replay_fence_owner_new :: "string \<Rightarrow> string \<Rightarrow> replay_fence_owner" where
  "replay_fence_owner_new command_id fingerprint =
     \<lparr>rfo_command_id = command_id, rfo_fingerprint = fingerprint, rfo_finalize = ReleaseOnly,
      rfo_finalized = False\<rparr>"

definition mark_execution_started :: "replay_fence_owner \<Rightarrow> replay_fence_owner" where
  "mark_execution_started owner = owner\<lparr>rfo_finalize := CacheCommittedResponse\<rparr>"

definition mark_finalized :: "replay_fence_owner \<Rightarrow> replay_fence_owner" where
  "mark_finalized owner = owner\<lparr>rfo_finalized := True\<rparr>"

definition drop_replay_fence_owner ::
  "replay_fence_owner \<Rightarrow> 'r replay_protocol_state \<Rightarrow> 'r replay_protocol_state" where
  "drop_replay_fence_owner owner s =
     (if rfo_finalized owner then s
      else release_replay_command (rfo_command_id owner)
        (if rfo_finalize owner = CacheCommittedResponse
         then mark_replay_command_spent (rfo_command_id owner) (rfo_fingerprint owner) s else s))"

definition finalize_replay_fence ::
  "('r \<Rightarrow> nat) \<Rightarrow> replay_fence_owner option \<Rightarrow> 'r \<Rightarrow> 'r replay_protocol_state
     \<Rightarrow> replay_fence_owner option \<times> 'r replay_protocol_state" where
  "finalize_replay_fence len replay_owner response s =
     (case replay_owner of
        None \<Rightarrow> (None, s)
      | Some owner \<Rightarrow>
          (let command_id = rfo_command_id owner; fingerprint = rfo_fingerprint owner;
               s1 = (if rfo_finalize owner = CacheCommittedResponse
                     then cache_response len command_id fingerprint response
                       (mark_replay_command_spent command_id fingerprint s)
                     else s)
           in (Some (mark_finalized owner), release_replay_command command_id s1)))"

section \<open>Concurrent requests\<close>

text \<open>
  Where a request with a command id stands:
  \<^item> \<open>Begin\<close>: at the top of the claim loop of \<open>prepare_replay_fence\<close>;
  \<^item> \<open>Waiting c\<close>: awaiting channel \<open>c\<close> of an earlier request with the same id;
  \<^item> \<open>Answered v\<close>: the claim decided the request, which never executes; \<open>WaitTimedOut\<close>: the deadline did;
  \<^item> \<open>Prepared\<close>: it owns the fence and has not started (\<open>ReleaseOnly\<close>);
  \<^item> \<open>Executing\<close>: past \<open>mark_execution_started\<close>; \<open>Responded r\<close>: the handler ended with response \<open>r\<close>;
  \<^item> \<open>SpentMarked r\<close>, \<open>ResponseCached r\<close>: inside \<open>finalize_replay_fence\<close>, between its lock sections;
  \<^item> \<open>Aborting\<close>: inside \<open>drop\<close>, after its first lock section;
  \<^item> \<open>Finished\<close>: the fence is released.
\<close>

datatype 'r tx_phase =
    Begin
  | Waiting nat
  | Answered "'r replay_command_claim"
  | WaitTimedOut
  | Prepared
  | Executing
  | Responded 'r
  | SpentMarked 'r
  | ResponseCached 'r
  | Aborting
  | Finished

record 'r tx_request =
  tx_command_id :: string
  tx_fingerprint :: string
  tx_shared_read :: bool
  tx_nested :: bool
  tx_phase :: "'r tx_phase"
  tx_owner :: "replay_fence_owner option"
  tx_permit :: bool

record 'r tx_world =
  tw_replay :: "'r replay_protocol_state"
  tw_requests :: "nat \<Rightarrow> 'r tx_request option"
  tw_executions :: "(string \<times> string \<times> nat) list"
  tw_responses :: "(string \<times> string \<times> 'r) list"

definition tx_world_init :: "'r tx_world" where
  "tx_world_init =
     \<lparr>tw_replay = replay_default, tw_requests = (\<lambda>_. None), tw_executions = [], tw_responses = []\<rparr>"

definition arrive :: "string \<Rightarrow> string \<Rightarrow> bool \<Rightarrow> bool \<Rightarrow> 'r tx_request" where
  "arrive command_id fingerprint shared_read nested =
     \<lparr>tx_command_id = command_id, tx_fingerprint = fingerprint, tx_shared_read = shared_read,
      tx_nested = nested, tx_phase = Begin, tx_owner = None, tx_permit = False\<rparr>"

text \<open>One round of the claim loop.\<close>

definition claim_round :: "'r tx_request \<Rightarrow> 'r replay_protocol_state \<Rightarrow> 'r tx_request \<times> 'r replay_protocol_state" where
  "claim_round q s =
     (case claim_replay_command (tx_command_id q) (tx_fingerprint q) s of
        (Owner, s') \<Rightarrow>
          (q\<lparr>tx_phase := Prepared,
             tx_owner := Some (replay_fence_owner_new (tx_command_id q) (tx_fingerprint q))\<rparr>, s')
      | (Wait c, s') \<Rightarrow> (q\<lparr>tx_phase := Waiting c\<rparr>, s')
      | (verdict, s') \<Rightarrow> (q\<lparr>tx_phase := Answered verdict\<rparr>, s'))"

text \<open>The gate admits an exclusive request alone, and a shared one beside other shared ones.\<close>

definition gate_admits :: "'r tx_world \<Rightarrow> 'r tx_request \<Rightarrow> bool" where
  "gate_admits w q \<longleftrightarrow>
     (\<forall>t q'. tw_requests w t = Some q' \<longrightarrow> tx_permit q' \<longrightarrow> tx_shared_read q \<and> tx_shared_read q')"

definition put_request :: "nat \<Rightarrow> 'r tx_request \<Rightarrow> 'r tx_world \<Rightarrow> 'r tx_world" where
  "put_request t q w = w\<lparr>tw_requests := (tw_requests w)(t := Some q)\<rparr>"

inductive tx_step :: "('r \<Rightarrow> nat) \<Rightarrow> 'r tx_world \<Rightarrow> 'r tx_world \<Rightarrow> bool" for len :: "'r \<Rightarrow> nat" where
  step_arrive: "tw_requests w t = None \<Longrightarrow>
     tx_step len w (put_request t (arrive i f shared nested) w)"
| step_claim: "tw_requests w t = Some q \<Longrightarrow> tx_phase q = Begin \<Longrightarrow>
     claim_round q (tw_replay w) = (q', s') \<Longrightarrow>
     tx_step len w (put_request t q' (w\<lparr>tw_replay := s'\<rparr>))"
| step_wake: "tw_requests w t = Some q \<Longrightarrow> tx_phase q = Waiting c \<Longrightarrow>
     rp_channels (tw_replay w) ! c = Released \<Longrightarrow>
     tx_step len w (put_request t (q\<lparr>tx_phase := Begin\<rparr>) w)"
| step_wait_timeout: "tw_requests w t = Some q \<Longrightarrow> tx_phase q = Waiting c \<Longrightarrow>
     tx_step len w (put_request t (q\<lparr>tx_phase := WaitTimedOut\<rparr>) w)"
| step_permit: "tw_requests w t = Some q \<Longrightarrow> tx_phase q = Prepared \<Longrightarrow> \<not> tx_nested q \<Longrightarrow>
     \<not> tx_permit q \<Longrightarrow> gate_admits w q \<Longrightarrow>
     tx_step len w (put_request t (q\<lparr>tx_permit := True\<rparr>) w)"
| step_reject: "tw_requests w t = Some q \<Longrightarrow> tx_phase q = Prepared \<Longrightarrow> tx_owner q = Some owner \<Longrightarrow>
     tx_step len w (put_request t
       (q\<lparr>tx_phase := Finished, tx_owner := Some (mark_finalized owner), tx_permit := False\<rparr>)
       (w\<lparr>tw_replay := release_replay_command (rfo_command_id owner) (tw_replay w)\<rparr>))"
| step_start: "tw_requests w t = Some q \<Longrightarrow> tx_phase q = Prepared \<Longrightarrow> tx_owner q = Some owner \<Longrightarrow>
     tx_permit q \<or> tx_nested q \<Longrightarrow>
     tx_step len w (put_request t
       (q\<lparr>tx_phase := Executing, tx_owner := Some (mark_execution_started owner)\<rparr>)
       (w\<lparr>tw_executions := tw_executions w @ [(tx_command_id q, tx_fingerprint q, t)]\<rparr>))"
| step_respond: "tw_requests w t = Some q \<Longrightarrow> tx_phase q = Executing \<Longrightarrow>
     tx_step len w (put_request t (q\<lparr>tx_phase := Responded r\<rparr>)
       (w\<lparr>tw_responses := tw_responses w @ [(tx_command_id q, tx_fingerprint q, r)]\<rparr>))"
| step_drop_permit: "tw_requests w t = Some q \<Longrightarrow> tx_phase q = Responded r \<Longrightarrow>
     tx_step len w (put_request t (q\<lparr>tx_permit := False\<rparr>) w)"
| step_mark_spent: "tw_requests w t = Some q \<Longrightarrow> tx_phase q = Responded r \<Longrightarrow> tx_owner q = Some owner \<Longrightarrow>
     tx_step len w (put_request t (q\<lparr>tx_phase := SpentMarked r\<rparr>)
       (w\<lparr>tw_replay := mark_replay_command_spent (rfo_command_id owner) (rfo_fingerprint owner)
          (tw_replay w)\<rparr>))"
| step_cache: "tw_requests w t = Some q \<Longrightarrow> tx_phase q = SpentMarked r \<Longrightarrow> tx_owner q = Some owner \<Longrightarrow>
     tx_step len w (put_request t (q\<lparr>tx_phase := ResponseCached r\<rparr>)
       (w\<lparr>tw_replay := cache_response len (rfo_command_id owner) (rfo_fingerprint owner) r
          (tw_replay w)\<rparr>))"
| step_release: "tw_requests w t = Some q \<Longrightarrow> tx_phase q = ResponseCached r \<Longrightarrow> tx_owner q = Some owner \<Longrightarrow>
     tx_step len w (put_request t
       (q\<lparr>tx_phase := Finished, tx_owner := Some (mark_finalized owner), tx_permit := False\<rparr>)
       (w\<lparr>tw_replay := release_replay_command (rfo_command_id owner) (tw_replay w)\<rparr>))"
| step_drop_prepared: "tw_requests w t = Some q \<Longrightarrow> tx_phase q = Prepared \<Longrightarrow> tx_owner q = Some owner \<Longrightarrow>
     rfo_finalize owner = ReleaseOnly \<Longrightarrow>
     tx_step len w (put_request t (q\<lparr>tx_phase := Finished, tx_permit := False\<rparr>)
       (w\<lparr>tw_replay := release_replay_command (rfo_command_id owner) (tw_replay w)\<rparr>))"
| step_drop_started: "tw_requests w t = Some q \<Longrightarrow> tx_owner q = Some owner \<Longrightarrow>
     tx_phase q = Executing \<or> (\<exists>r. tx_phase q \<in> {Responded r, SpentMarked r, ResponseCached r}) \<Longrightarrow>
     rfo_finalize owner = CacheCommittedResponse \<Longrightarrow>
     tx_step len w (put_request t (q\<lparr>tx_phase := Aborting\<rparr>)
       (w\<lparr>tw_replay := mark_replay_command_spent (rfo_command_id owner) (rfo_fingerprint owner)
          (tw_replay w)\<rparr>))"
| step_drop_release: "tw_requests w t = Some q \<Longrightarrow> tx_phase q = Aborting \<Longrightarrow> tx_owner q = Some owner \<Longrightarrow>
     tx_step len w (put_request t (q\<lparr>tx_phase := Finished, tx_permit := False\<rparr>)
       (w\<lparr>tw_replay := release_replay_command (rfo_command_id owner) (tw_replay w)\<rparr>))"

inductive tx_reachable :: "('r \<Rightarrow> nat) \<Rightarrow> 'r tx_world \<Rightarrow> bool" for len :: "'r \<Rightarrow> nat" where
  tx_init: "tx_reachable len tx_world_init"
| tx_next: "tx_reachable len w \<Longrightarrow> tx_step len w w' \<Longrightarrow> tx_reachable len w'"

section \<open>The lock sections compose to the code\<close>

text \<open>Finalizing an owner that started is marking, caching and releasing, in this order.\<close>

lemma finalize_replay_fence_started:
  assumes "rfo_finalize owner = CacheCommittedResponse"
  shows "finalize_replay_fence len (Some owner) r s =
    (Some (mark_finalized owner),
     release_replay_command (rfo_command_id owner)
       (cache_response len (rfo_command_id owner) (rfo_fingerprint owner) r
         (mark_replay_command_spent (rfo_command_id owner) (rfo_fingerprint owner) s)))"
  using assms by (simp add: finalize_replay_fence_def Let_def)

lemma finalize_replay_fence_not_started:
  assumes "rfo_finalize owner = ReleaseOnly"
  shows "finalize_replay_fence len (Some owner) r s =
    (Some (mark_finalized owner), release_replay_command (rfo_command_id owner) s)"
  using assms by (simp add: finalize_replay_fence_def)

section \<open>What a request holds in each phase\<close>

fun phase_holds :: "'r tx_phase \<Rightarrow> bool" where
  "phase_holds Begin = False"
| "phase_holds (Waiting c) = False"
| "phase_holds (Answered v) = False"
| "phase_holds WaitTimedOut = False"
| "phase_holds Finished = False"
| "phase_holds _ = True"

fun phase_started :: "'r tx_phase \<Rightarrow> bool" where
  "phase_started Prepared = False"
| "phase_started p = phase_holds p"

fun phase_marked :: "'r tx_phase \<Rightarrow> bool" where
  "phase_marked (SpentMarked r) = True"
| "phase_marked (ResponseCached r) = True"
| "phase_marked Aborting = True"
| "phase_marked _ = False"

fun phase_response :: "'r tx_phase \<Rightarrow> 'r option" where
  "phase_response (Responded r) = Some r"
| "phase_response (SpentMarked r) = Some r"
| "phase_response (ResponseCached r) = Some r"
| "phase_response _ = None"

lemma phase_started_holds: "phase_started p \<Longrightarrow> phase_holds p"
  by (cases p) auto

lemma phase_marked_started: "phase_marked p \<Longrightarrow> phase_started p"
  by (cases p) auto

definition owner_matches :: "'r tx_request \<Rightarrow> replay_fence_owner \<Rightarrow> bool" where
  "owner_matches q owner \<longleftrightarrow>
     rfo_command_id owner = tx_command_id q \<and> rfo_fingerprint owner = tx_fingerprint q
     \<and> rfo_finalized owner = False
     \<and> rfo_finalize owner = (if phase_started (tx_phase q) then CacheCommittedResponse else ReleaseOnly)"

text \<open>The guard object of a request that holds the fence is the one of its phase.\<close>

definition inv_owner :: "'r tx_world \<Rightarrow> bool" where
  "inv_owner w \<longleftrightarrow>
     (\<forall>t q. tw_requests w t = Some q \<longrightarrow> phase_holds (tx_phase q) \<longrightarrow>
        (\<exists>owner. tx_owner q = Some owner \<and> owner_matches q owner))"

text \<open>A request that holds the fence owns the id, alone, and has settled it iff it is past the mark.\<close>

definition inv_fence :: "'r tx_world \<Rightarrow> bool" where
  "inv_fence w \<longleftrightarrow>
     (\<forall>t q. tw_requests w t = Some q \<longrightarrow> phase_holds (tx_phase q) \<longrightarrow>
        replay_owned (tw_replay w) (tx_command_id q) = Some (tx_fingerprint q)
        \<and> replay_settled (tw_replay w) (tx_command_id q) =
            (if phase_marked (tx_phase q) then Some (tx_fingerprint q) else None))
     \<and> (\<forall>t t' q q'. tw_requests w t = Some q \<longrightarrow> tw_requests w t' = Some q' \<longrightarrow>
          phase_holds (tx_phase q) \<longrightarrow> phase_holds (tx_phase q') \<longrightarrow>
          tx_command_id q = tx_command_id q' \<longrightarrow> t = t')"

text \<open>An owned id has a live holder.\<close>

definition inv_live :: "'r tx_world \<Rightarrow> bool" where
  "inv_live w \<longleftrightarrow>
     (\<forall>i f. replay_owned (tw_replay w) i = Some f \<longrightarrow>
        (\<exists>t q. tw_requests w t = Some q \<and> phase_holds (tx_phase q) \<and> tx_command_id q = i))"

text \<open>An executed id is settled, or its execution is still under way.\<close>

definition inv_exec :: "'r tx_world \<Rightarrow> bool" where
  "inv_exec w \<longleftrightarrow> distinct (map fst (tw_executions w))
     \<and> (\<forall>i f t. (i, f, t) \<in> set (tw_executions w) \<longrightarrow>
          replay_settled (tw_replay w) i = Some f
          \<or> (\<exists>q. tw_requests w t = Some q \<and> phase_started (tx_phase q)
               \<and> tx_command_id q = i \<and> tx_fingerprint q = f))
     \<and> (\<forall>t q. tw_requests w t = Some q \<longrightarrow> tx_phase q = Prepared \<longrightarrow>
          tx_command_id q \<notin> fst ` set (tw_executions w))
     \<and> (\<forall>t q. tw_requests w t = Some q \<longrightarrow> phase_started (tx_phase q) \<longrightarrow>
          (tx_command_id q, tx_fingerprint q, t) \<in> set (tw_executions w))"

text \<open>A cached response is the response of the execution of its id, under its fingerprint.\<close>

definition inv_response :: "'r tx_world \<Rightarrow> bool" where
  "inv_response w \<longleftrightarrow> distinct (map fst (tw_responses w))
     \<and> (\<forall>i f r. replay_cached (tw_replay w) i = Some (f, r) \<longrightarrow> (i, f, r) \<in> set (tw_responses w))
     \<and> (\<forall>i f r. (i, f, r) \<in> set (tw_responses w) \<longrightarrow> (\<exists>t. (i, f, t) \<in> set (tw_executions w)))
     \<and> (\<forall>t q. tw_requests w t = Some q \<longrightarrow> tx_phase q = Executing \<longrightarrow>
          tx_command_id q \<notin> fst ` set (tw_responses w))
     \<and> (\<forall>t q r. tw_requests w t = Some q \<longrightarrow> phase_response (tx_phase q) = Some r \<longrightarrow>
          (tx_command_id q, tx_fingerprint q, r) \<in> set (tw_responses w))
     \<and> (\<forall>t q r. tw_requests w t = Some q \<longrightarrow> tx_phase q = Answered (Cached r) \<longrightarrow>
          (tx_command_id q, tx_fingerprint q, r) \<in> set (tw_responses w))"

text \<open>The gate: a non-nested request runs with a permit, and permits are exclusive or all shared.\<close>

definition inv_gate :: "'r tx_world \<Rightarrow> bool" where
  "inv_gate w \<longleftrightarrow>
     (\<forall>t t' q q'. tw_requests w t = Some q \<longrightarrow> tw_requests w t' = Some q' \<longrightarrow> t \<noteq> t' \<longrightarrow>
        tx_permit q \<longrightarrow> tx_permit q' \<longrightarrow> tx_shared_read q \<and> tx_shared_read q')
     \<and> (\<forall>t q. tw_requests w t = Some q \<longrightarrow> tx_phase q = Executing \<longrightarrow> tx_permit q \<or> tx_nested q)"

lemma put_request_simps [simp]:
  "tw_requests (put_request t q w) t' = (if t' = t then Some q else tw_requests w t')"
  "tw_replay (put_request t q w) = tw_replay w"
  "tw_executions (put_request t q w) = tw_executions w"
  "tw_responses (put_request t q w) = tw_responses w"
  by (simp_all add: put_request_def)

lemma replay_view_simps [simp]:
  "replay_settled (snd (claim_replay_command i f s)) j = replay_settled s j"
  "replay_settled (release_replay_command i s) j = replay_settled s j"
  "replay_settled (cache_response len i f r s) j = replay_settled s j"
  "replay_owned (mark_replay_command_spent i f s) j = replay_owned s j"
  "replay_owned (cache_response len i f r s) j = replay_owned s j"
  "replay_cached (snd (claim_replay_command i f s)) j = replay_cached s j"
  "replay_cached (release_replay_command i s) j = replay_cached s j"
  "replay_cached (mark_replay_command_spent i f s) j = replay_cached s j"
  by (simp_all add: replay_settled_def replay_owned_def replay_cached_def replay_frame)

lemma trim_only_removes:
  "Mapping.lookup (rp_cache (trim_replay_cache_with_limits n b s)) k = Some e \<Longrightarrow>
     Mapping.lookup (rp_cache s) k = Some e"
proof (induction n b s rule: trim_replay_cache_with_limits.induct)
  case (1 n b s)
  from "1.prems" show ?case
    by (subst (asm) trim_replay_cache_with_limits.simps)
      (auto dest: "1.IH" [rotated 2] simp: evict_oldest_frame split: if_splits list.splits)
qed

lemma cached_cache_response:
  "replay_cached (cache_response len i f r s) j = Some v \<Longrightarrow>
     replay_cached s j = Some v \<or> j = i \<and> v = (f, r)"
  by (auto simp: replay_cached_def cache_response_trim trim_replay_cache_def cache_inserted_frame
      dest!: trim_only_removes split: if_splits)

lemma claim_round_cases:
  assumes "claim_round q s = (q', s')"
  obtains (owner) "q' = q\<lparr>tx_phase := Prepared,
        tx_owner := Some (replay_fence_owner_new (tx_command_id q) (tx_fingerprint q))\<rparr>"
      "s' = snd (claim_replay_command (tx_command_id q) (tx_fingerprint q) s)"
      "replay_cached s (tx_command_id q) = None" "replay_owned s (tx_command_id q) = None"
      "replay_settled s (tx_command_id q) = None"
      "\<And>j. replay_owned s' j = (if j = tx_command_id q then Some (tx_fingerprint q) else replay_owned s j)"
  | (other) p where "q' = q\<lparr>tx_phase := p\<rparr>" "s' = s" "\<not> phase_holds p" "phase_response p = None"
      "\<And>r. p = Answered (Cached r) \<Longrightarrow> replay_cached s (tx_command_id q) = Some (tx_fingerprint q, r)"
proof (cases "fst (claim_replay_command (tx_command_id q) (tx_fingerprint q) s) = Owner")
  case True
  then have "replay_cached s (tx_command_id q) = None" "replay_owned s (tx_command_id q) = None"
    "replay_settled s (tx_command_id q) = None"
    by (simp_all add: claim_owner_iff)
  with True assms claim_owned [of "tx_command_id q" "tx_fingerprint q" s] show thesis
    by (intro owner) (auto simp: claim_round_def split: prod.splits replay_command_claim.splits)
next
  case False
  note same = claim_not_owner [OF this]
  have v: "fst (claim_replay_command (tx_command_id q) (tx_fingerprint q) s) = Cached r \<Longrightarrow>
      replay_cached s (tx_command_id q) = Some (tx_fingerprint q, r)" for r
    by (auto simp: claim_verdict split: option.splits if_splits prod.splits)
  show thesis
  proof (rule other)
    let ?p = "tx_phase q'"
    show "q' = q\<lparr>tx_phase := ?p\<rparr>" "s' = s" "\<not> phase_holds ?p" "phase_response ?p = None"
      using assms False same
      by (auto simp: claim_round_def split: prod.splits replay_command_claim.splits)
    show "?p = Answered (Cached r) \<Longrightarrow> replay_cached s (tx_command_id q) = Some (tx_fingerprint q, r)" for r
      using assms False v
      by (auto simp: claim_round_def split: prod.splits replay_command_claim.splits)
  qed
qed

section \<open>Every step keeps the invariants\<close>

lemma inv_ownerD:
  assumes "inv_owner w" and "tw_requests w t = Some q" and "phase_holds (tx_phase q)"
    and "tx_owner q = Some owner"
  shows "rfo_command_id owner = tx_command_id q" "rfo_fingerprint owner = tx_fingerprint q"
    "rfo_finalize owner = (if phase_started (tx_phase q) then CacheCommittedResponse else ReleaseOnly)"
proof -
  obtain owner' where "tx_owner q = Some owner'" "owner_matches q owner'"
    using assms(1-3) unfolding inv_owner_def by blast
  with assms(4) show "rfo_command_id owner = tx_command_id q"
    "rfo_fingerprint owner = tx_fingerprint q"
    "rfo_finalize owner = (if phase_started (tx_phase q) then CacheCommittedResponse else ReleaseOnly)"
    by (auto simp: owner_matches_def)
qed

text \<open>
  The steps by their effect on the shared state: none (a request that holds no fence moves on, or
  a permit changes hands), a winning claim, the start and the end of an execution, and the three
  lock sections that settle, cache and release.
\<close>

lemma tx_owner_same:
  "tx_owner q = Some owner \<Longrightarrow>
     q\<lparr>tx_phase := p, tx_owner := Some owner, tx_permit := b\<rparr> = q\<lparr>tx_phase := p, tx_permit := b\<rparr>"
  by (cases q) simp

lemma tx_step_effect:
  assumes "tx_step len w w'" and "inv_owner w"
  obtains (idle) t q' where "w' = put_request t q' w"
      "\<forall>q. tw_requests w t = Some q \<longrightarrow> \<not> phase_holds (tx_phase q) \<and> tx_permit q' = tx_permit q
         \<and> tx_shared_read q' = tx_shared_read q"
      "tw_requests w t = None \<longrightarrow> \<not> tx_permit q'"
      "\<not> phase_holds (tx_phase q')" "phase_response (tx_phase q') = None"
      "\<forall>r. tx_phase q' = Answered (Cached r) \<longrightarrow>
         replay_cached (tw_replay w) (tx_command_id q') = Some (tx_fingerprint q', r)"
  | (permit) t q b where "tw_requests w t = Some q" "w' = put_request t (q\<lparr>tx_permit := b\<rparr>) w"
      "b \<longrightarrow> gate_admits w q" "b \<or> tx_phase q \<noteq> Executing"
  | (win) t q where "tw_requests w t = Some q" "\<not> phase_holds (tx_phase q)"
      "w' = put_request t (q\<lparr>tx_phase := Prepared,
         tx_owner := Some (replay_fence_owner_new (tx_command_id q) (tx_fingerprint q))\<rparr>)
         (w\<lparr>tw_replay := snd (claim_replay_command (tx_command_id q) (tx_fingerprint q) (tw_replay w))\<rparr>)"
      "fst (claim_replay_command (tx_command_id q) (tx_fingerprint q) (tw_replay w)) = Owner"
  | (start) t q owner where "tw_requests w t = Some q" "tx_phase q = Prepared" "tx_permit q \<or> tx_nested q"
      "tx_owner q = Some owner"
      "w' = put_request t (q\<lparr>tx_phase := Executing, tx_owner := Some (mark_execution_started owner)\<rparr>)
         (w\<lparr>tw_executions := tw_executions w @ [(tx_command_id q, tx_fingerprint q, t)]\<rparr>)"
  | (respond) t q r where "tw_requests w t = Some q" "tx_phase q = Executing"
      "w' = put_request t (q\<lparr>tx_phase := Responded r\<rparr>)
         (w\<lparr>tw_responses := tw_responses w @ [(tx_command_id q, tx_fingerprint q, r)]\<rparr>)"
  | (settle) t q p where "tw_requests w t = Some q" "phase_started (tx_phase q)" "phase_marked p"
      "\<forall>r. phase_response p = Some r \<longrightarrow> phase_response (tx_phase q) = Some r"
      "w' = put_request t (q\<lparr>tx_phase := p\<rparr>)
         (w\<lparr>tw_replay := mark_replay_command_spent (tx_command_id q) (tx_fingerprint q) (tw_replay w)\<rparr>)"
  | (cache) t q r where "tw_requests w t = Some q" "tx_phase q = SpentMarked r"
      "w' = put_request t (q\<lparr>tx_phase := ResponseCached r\<rparr>)
         (w\<lparr>tw_replay := cache_response len (tx_command_id q) (tx_fingerprint q) r (tw_replay w)\<rparr>)"
  | (release) t q owner where "tw_requests w t = Some q" "tx_phase q = Prepared \<or> phase_marked (tx_phase q)"
      "w' = put_request t (q\<lparr>tx_phase := Finished, tx_owner := owner, tx_permit := False\<rparr>)
         (w\<lparr>tw_replay := release_replay_command (tx_command_id q) (tw_replay w)\<rparr>)"
  using assms(1)
proof (cases rule: tx_step.cases)
  case (step_arrive t i f shared nested)
  then show thesis by (intro idle [of t "arrive i f shared nested"]) (auto simp: arrive_def)
next
  case (step_claim t q q' s')
  from step_claim(4) show thesis
  proof (cases rule: claim_round_cases)
    case owner
    with step_claim show thesis by (intro win [of t q]) (auto simp: claim_owner_iff)
  next
    case (other p)
    with step_claim show thesis by (intro idle [of t q']) auto
  qed
next
  case (step_wake t q c)
  then show thesis by (intro idle [of t "q\<lparr>tx_phase := Begin\<rparr>"]) auto
next
  case (step_wait_timeout t q c)
  then show thesis by (intro idle [of t "q\<lparr>tx_phase := WaitTimedOut\<rparr>"]) auto
next
  case (step_permit t q)
  then show thesis by (intro permit [of t q True]) auto
next
  case (step_drop_permit t q r)
  then show thesis by (intro permit [of t q False]) auto
next
  case (step_reject t q owner)
  then show thesis
    by (intro release [of t q "Some (mark_finalized owner)"])
      (simp_all add: inv_ownerD [OF assms(2) step_reject(2) _ step_reject(4)])
next
  case (step_start t q owner)
  then show thesis by (intro start [of t q owner]) auto
next
  case (step_respond t q r)
  then show thesis by (intro respond [of t q r]) auto
next
  case (step_mark_spent t q r owner)
  then show thesis
    by (intro settle [of t q "SpentMarked r"])
      (simp_all add: inv_ownerD [OF assms(2) step_mark_spent(2) _ step_mark_spent(4)])
next
  case (step_cache t q r owner)
  then show thesis
    by (intro cache [of t q r])
      (simp_all add: inv_ownerD [OF assms(2) step_cache(2) _ step_cache(4)])
next
  case (step_release t q r owner)
  then show thesis
    by (intro release [of t q "Some (mark_finalized owner)"])
      (simp_all add: inv_ownerD [OF assms(2) step_release(2) _ step_release(4)])
next
  case (step_drop_prepared t q owner)
  then show thesis
    by (intro release [of t q "Some owner"])
      (simp_all add: tx_owner_same inv_ownerD [OF assms(2) step_drop_prepared(2) _ step_drop_prepared(4)])
next
  case (step_drop_started t q owner)
  then have "phase_started (tx_phase q)" by auto
  with step_drop_started show thesis
    by (intro settle [of t q Aborting])
      (simp_all add: inv_ownerD [OF assms(2) step_drop_started(2) _ step_drop_started(3)]
        phase_started_holds)
next
  case (step_drop_release t q owner)
  then show thesis
    by (intro release [of t q "Some owner"])
      (simp_all add: tx_owner_same inv_ownerD [OF assms(2) step_drop_release(2) _ step_drop_release(4)])
qed

lemma inv_owner_put:
  assumes "inv_owner w" and "tw_requests w' = (tw_requests w)(t \<mapsto> q')"
    and "phase_holds (tx_phase q') \<Longrightarrow> \<exists>owner. tx_owner q' = Some owner \<and> owner_matches q' owner"
  shows "inv_owner w'"
  using assms unfolding inv_owner_def by auto

lemma tw_requests_put:
  "tw_requests (put_request t q w) = (tw_requests w)(t \<mapsto> q)"
  "tw_requests (put_request t q (w\<lparr>tw_replay := s\<rparr>)) = (tw_requests w)(t \<mapsto> q)"
  "tw_requests (put_request t q (w\<lparr>tw_executions := es\<rparr>)) = (tw_requests w)(t \<mapsto> q)"
  "tw_requests (put_request t q (w\<lparr>tw_responses := rs\<rparr>)) = (tw_requests w)(t \<mapsto> q)"
  by (simp_all add: put_request_def)

lemma inv_owner_step:
  assumes "tx_step len w w'" and "inv_owner w"
  shows "inv_owner w'"
proof -
  have keep: "\<exists>owner. tx_owner q = Some owner \<and> owner_matches q owner"
    if "tw_requests w t = Some q" "phase_holds (tx_phase q)" for t q
    using assms(2) that unfolding inv_owner_def by blast
  show ?thesis
    using assms
  proof (cases rule: tx_step_effect)
    case (idle t q')
    then show ?thesis by (intro inv_owner_put [OF assms(2)]) (auto simp: tw_requests_put)
  next
    case (permit t q b)
    with keep [of t q] show ?thesis
      by (intro inv_owner_put [OF assms(2), of w' t "q\<lparr>tx_permit := b\<rparr>"])
        (auto simp: tw_requests_put owner_matches_def)
  next
    case (win t q)
    then show ?thesis
      by (intro inv_owner_put [OF assms(2)])
        (auto simp: tw_requests_put owner_matches_def replay_fence_owner_new_def)
  next
    case (start t q owner)
    with keep [of t q] show ?thesis
      by (intro inv_owner_put [OF assms(2)])
        (auto simp: tw_requests_put owner_matches_def mark_execution_started_def)
  next
    case (respond t q r)
    with keep [of t q] show ?thesis
      by (intro inv_owner_put [OF assms(2)]) (auto simp: tw_requests_put owner_matches_def)
  next
    case (settle t q p)
    with keep [of t q] show ?thesis
      by (intro inv_owner_put [OF assms(2), of w' t "q\<lparr>tx_phase := p\<rparr>"])
        (auto simp: tw_requests_put owner_matches_def phase_started_holds phase_marked_started)
  next
    case (cache t q r)
    with keep [of t q] show ?thesis
      by (intro inv_owner_put [OF assms(2)]) (auto simp: tw_requests_put owner_matches_def)
  next
    case (release t q owner)
    then show ?thesis by (intro inv_owner_put [OF assms(2)]) (auto simp: tw_requests_put)
  qed
qed

lemma inv_fenceD:
  assumes "inv_fence w" and "tw_requests w t = Some q" and "phase_holds (tx_phase q)"
  shows "replay_owned (tw_replay w) (tx_command_id q) = Some (tx_fingerprint q)"
    and "replay_settled (tw_replay w) (tx_command_id q) =
      (if phase_marked (tx_phase q) then Some (tx_fingerprint q) else None)"
    and "tw_requests w t' = Some q' \<Longrightarrow> phase_holds (tx_phase q') \<Longrightarrow>
      tx_command_id q' = tx_command_id q \<Longrightarrow> t' = t"
  using assms unfolding inv_fence_def by blast+

text \<open>
  The fence invariant after an update of one request: it holds for the request itself, the other
  holders keep their ids and are other ids.
\<close>

lemma inv_fence_put:
  assumes "inv_fence w" and "tw_requests w' = (tw_requests w)(t \<mapsto> q')"
    and "phase_holds (tx_phase q') \<Longrightarrow>
      replay_owned (tw_replay w') (tx_command_id q') = Some (tx_fingerprint q')
      \<and> replay_settled (tw_replay w') (tx_command_id q') =
          (if phase_marked (tx_phase q') then Some (tx_fingerprint q') else None)"
    and "\<And>u q. u \<noteq> t \<Longrightarrow> tw_requests w u = Some q \<Longrightarrow> phase_holds (tx_phase q) \<Longrightarrow>
      replay_owned (tw_replay w') (tx_command_id q) = replay_owned (tw_replay w) (tx_command_id q)
      \<and> replay_settled (tw_replay w') (tx_command_id q) = replay_settled (tw_replay w) (tx_command_id q)
      \<and> (phase_holds (tx_phase q') \<longrightarrow> tx_command_id q' \<noteq> tx_command_id q)"
  shows "inv_fence w'"
  unfolding inv_fence_def
proof (intro conjI allI impI)
  fix u q assume q: "tw_requests w' u = Some q" "phase_holds (tx_phase q)"
  show "replay_owned (tw_replay w') (tx_command_id q) = Some (tx_fingerprint q)"
    "replay_settled (tw_replay w') (tx_command_id q) =
      (if phase_marked (tx_phase q) then Some (tx_fingerprint q) else None)"
    using q assms(2,3) assms(4) [of u q] inv_fenceD(1,2) [OF assms(1), of u q]
    by (cases "u = t"; simp)+
next
  fix u v q r
  assume "tw_requests w' u = Some q" "tw_requests w' v = Some r" "phase_holds (tx_phase q)"
    "phase_holds (tx_phase r)" "tx_command_id q = tx_command_id r"
  then show "u = v"
    using assms(2) assms(4) [of u q] assms(4) [of v r] inv_fenceD(3) [OF assms(1), of v r u q]
    by (cases "u = t"; cases "v = t"; simp)
qed

lemma inv_fence_step:
  assumes "tx_step len w w'" and "inv_owner w" and "inv_fence w"
  shows "inv_fence w'"
  using assms(1,2)
proof (cases rule: tx_step_effect)
  case (idle t q')
  then show ?thesis by (intro inv_fence_put [OF assms(3)]) (auto simp: tw_requests_put)
next
  case (permit t q b)
  note f = inv_fenceD [OF assms(3) permit(1)]
  show ?thesis
    unfolding permit(2)
    by (rule inv_fence_put [OF assms(3) tw_requests_put(1)]) (use f in \<open>simp; metis\<close>)+
next
  case (win t q)
  have free: "u \<noteq> t \<Longrightarrow> tw_requests w u = Some r \<Longrightarrow> phase_holds (tx_phase r) \<Longrightarrow>
      tx_command_id r \<noteq> tx_command_id q" for u r
    using win(4) inv_fenceD(1) [OF assms(3)] by (fastforce simp: claim_owner_iff)
  show ?thesis
    unfolding win(3)
    by (rule inv_fence_put [OF assms(3) tw_requests_put(2)])
      (use win(4) in \<open>auto simp: claim_owned claim_owner_iff dest: free\<close>)
next
  case (start t q owner)
  then have holds: "phase_holds (tx_phase q)" by simp
  note f = inv_fenceD [OF assms(3) start(1) holds]
  show ?thesis
    unfolding start(5)
    by (rule inv_fence_put [OF assms(3) tw_requests_put(3)]) (use f start(2) in auto)
next
  case (respond t q r)
  then have holds: "phase_holds (tx_phase q)" by simp
  note f = inv_fenceD [OF assms(3) respond(1) holds]
  show ?thesis
    unfolding respond(3)
    by (rule inv_fence_put [OF assms(3) tw_requests_put(4)]) (use f respond(2) in auto)
next
  case (settle t q p)
  have holds: "phase_holds (tx_phase q)" using settle(2) by (rule phase_started_holds)
  note f = inv_fenceD [OF assms(3) settle(1) holds]
  show ?thesis
    unfolding settle(5)
    by (rule inv_fence_put [OF assms(3) tw_requests_put(2)])
      (use f settle(3) in \<open>auto simp: mark_spent_settled\<close>)
next
  case (cache t q r)
  then have holds: "phase_holds (tx_phase q)" by simp
  note f = inv_fenceD [OF assms(3) cache(1) holds]
  show ?thesis
    unfolding cache(3)
    by (rule inv_fence_put [OF assms(3) tw_requests_put(2)]) (use f cache(2) in auto)
next
  case (release t q owner)
  have holds: "phase_holds (tx_phase q)"
    using release(2) phase_marked_started phase_started_holds by auto
  show ?thesis
    unfolding release(3)
    by (rule inv_fence_put [OF assms(3) tw_requests_put(2)])
      (use inv_fenceD(3) [OF assms(3) release(1) holds] in \<open>auto simp: release_owned\<close>)
qed

lemma inv_live_step:
  assumes "tx_step len w w'" and "inv_owner w" and "inv_fence w" and "inv_live w"
  shows "inv_live w'"
proof -
  text \<open>A holder stays a holder, or its id is released.\<close>
  have liveI: "inv_live w'"
    if "tw_requests w' = (tw_requests w)(t \<mapsto> q')"
      and "\<And>i f. replay_owned (tw_replay w') i = Some f \<Longrightarrow>
        phase_holds (tx_phase q') \<and> tx_command_id q' = i
        \<or> (\<exists>f. replay_owned (tw_replay w) i = Some f)
          \<and> (\<forall>q. tw_requests w t = Some q \<longrightarrow> phase_holds (tx_phase q) \<longrightarrow> tx_command_id q \<noteq> i)" for t q'
    unfolding inv_live_def
  proof (intro allI impI)
    fix i f assume "replay_owned (tw_replay w') i = Some f"
    from that(2) [OF this] show "\<exists>u q. tw_requests w' u = Some q \<and> phase_holds (tx_phase q) \<and> tx_command_id q = i"
    proof (elim disjE conjE exE)
      fix f' assume "replay_owned (tw_replay w) i = Some f'"
        and no: "\<forall>q. tw_requests w t = Some q \<longrightarrow> phase_holds (tx_phase q) \<longrightarrow> tx_command_id q \<noteq> i"
      then obtain u q where "tw_requests w u = Some q" "phase_holds (tx_phase q)" "tx_command_id q = i"
        using assms(4) unfolding inv_live_def by blast
      with no show ?thesis using that(1) by (intro exI [of _ u] exI [of _ q]) auto
    qed (use that(1) in auto)
  qed
  show ?thesis
    using assms(1,2)
  proof (cases rule: tx_step_effect)
    case (idle t q')
    show ?thesis unfolding idle(1)
      by (rule liveI [unfolded idle(1), OF tw_requests_put(1)]) (use idle in auto)
  next
    case (permit t q b)
    show ?thesis unfolding permit(2)
      by (rule liveI [unfolded permit(2), OF tw_requests_put(1)]) (use permit in auto)
  next
    case (win t q)
    show ?thesis unfolding win(3)
      by (rule liveI [unfolded win(3), OF tw_requests_put(2)])
        (use win in \<open>auto simp: claim_owned split: if_splits\<close>)
  next
    case (start t q owner)
    show ?thesis unfolding start(5)
      by (rule liveI [unfolded start(5), OF tw_requests_put(3)]) (use start in auto)
  next
    case (respond t q r)
    show ?thesis unfolding respond(3)
      by (rule liveI [unfolded respond(3), OF tw_requests_put(4)]) (use respond in auto)
  next
    case (settle t q p)
    have "phase_holds p" using settle(3) phase_marked_started phase_started_holds by blast
    then show ?thesis unfolding settle(5)
      by (intro liveI [unfolded settle(5), OF tw_requests_put(2)]) (use settle in auto)
  next
    case (cache t q r)
    show ?thesis unfolding cache(3)
      by (rule liveI [unfolded cache(3), OF tw_requests_put(2)]) (use cache in auto)
  next
    case (release t q owner)
    show ?thesis unfolding release(3)
      by (rule liveI [unfolded release(3), OF tw_requests_put(2)])
        (use release in \<open>auto simp: release_owned split: if_splits\<close>)
  qed
qed

lemma inv_execD:
  assumes "inv_exec w"
  shows "distinct (map fst (tw_executions w))"
    and "(i, f, t) \<in> set (tw_executions w) \<Longrightarrow> replay_settled (tw_replay w) i = Some f
      \<or> (\<exists>q. tw_requests w t = Some q \<and> phase_started (tx_phase q)
          \<and> tx_command_id q = i \<and> tx_fingerprint q = f)"
    and "tw_requests w t = Some q \<Longrightarrow> tx_phase q = Prepared \<Longrightarrow>
      tx_command_id q \<notin> fst ` set (tw_executions w)"
    and "tw_requests w t = Some q \<Longrightarrow> phase_started (tx_phase q) \<Longrightarrow>
      (tx_command_id q, tx_fingerprint q, t) \<in> set (tw_executions w)"
  using assms unfolding inv_exec_def by blast+

lemma inv_exec_put:
  assumes "inv_exec w" and "tw_requests w' = (tw_requests w)(t \<mapsto> q')"
    and "tw_executions w' = tw_executions w"
    and "\<And>i f. replay_settled (tw_replay w) i = Some f \<Longrightarrow> replay_settled (tw_replay w') i = Some f"
    and "\<And>q. tw_requests w t = Some q \<Longrightarrow> phase_started (tx_phase q) \<Longrightarrow>
      phase_started (tx_phase q') \<and> tx_command_id q' = tx_command_id q \<and> tx_fingerprint q' = tx_fingerprint q
      \<or> replay_settled (tw_replay w') (tx_command_id q) = Some (tx_fingerprint q)"
    and "tx_phase q' = Prepared \<Longrightarrow> tx_command_id q' \<notin> fst ` set (tw_executions w)"
    and "phase_started (tx_phase q') \<Longrightarrow>
      (tx_command_id q', tx_fingerprint q', t) \<in> set (tw_executions w)"
  shows "inv_exec w'"
  unfolding inv_exec_def assms(3)
proof (intro conjI allI impI)
  show "distinct (map fst (tw_executions w))" using assms(1) by (rule inv_execD)
next
  fix i f u assume "(i, f, u) \<in> set (tw_executions w)"
  from inv_execD(2) [OF assms(1) this]
  show "replay_settled (tw_replay w') i = Some f
      \<or> (\<exists>q. tw_requests w' u = Some q \<and> phase_started (tx_phase q) \<and> tx_command_id q = i
          \<and> tx_fingerprint q = f)"
    using assms(2) assms(4) [of i f] assms(5) by (cases "u = t") auto
next
  fix u q assume "tw_requests w' u = Some q" "tx_phase q = Prepared"
  then show "tx_command_id q \<notin> fst ` set (tw_executions w)"
    using assms(2,6) inv_execD(3) [OF assms(1), of u q] by (cases "u = t") auto
next
  fix u q assume "tw_requests w' u = Some q" "phase_started (tx_phase q)"
  then show "(tx_command_id q, tx_fingerprint q, u) \<in> set (tw_executions w)"
    using assms(2,7) inv_execD(4) [OF assms(1), of u q] by (cases "u = t") auto
qed

lemma inv_exec_start:
  assumes "inv_exec w" and "inv_fence w" and "tw_requests w t = Some q" and "tx_phase q = Prepared"
    and "tw_requests w' = (tw_requests w)(t \<mapsto> q')" and "tx_phase q' = Executing"
    and "tx_command_id q' = tx_command_id q" and "tx_fingerprint q' = tx_fingerprint q"
    and "tw_executions w' = tw_executions w @ [(tx_command_id q, tx_fingerprint q, t)]"
    and "tw_replay w' = tw_replay w"
  shows "inv_exec w'"
  unfolding inv_exec_def assms(9,10)
proof (intro conjI allI impI)
  show "distinct (map fst (tw_executions w @ [(tx_command_id q, tx_fingerprint q, t)]))"
    using inv_execD(1) [OF assms(1)] inv_execD(3) [OF assms(1,3,4)] by simp
next
  fix i f u assume "(i, f, u) \<in> set (tw_executions w @ [(tx_command_id q, tx_fingerprint q, t)])"
  then consider "(i, f, u) \<in> set (tw_executions w)" | "i = tx_command_id q" "f = tx_fingerprint q" "u = t"
    by auto
  then show "replay_settled (tw_replay w) i = Some f
      \<or> (\<exists>q. tw_requests w' u = Some q \<and> phase_started (tx_phase q) \<and> tx_command_id q = i
          \<and> tx_fingerprint q = f)"
  proof cases
    case 1
    from inv_execD(2) [OF assms(1) this] show ?thesis using assms(3-5) by (cases "u = t") auto
  qed (use assms(5-8) in auto)
next
  fix u r assume r: "tw_requests w' u = Some r" "tx_phase r = Prepared"
  then have "u \<noteq> t" "tw_requests w u = Some r" using assms(5,6) by (auto split: if_splits)
  with r(2) show "tx_command_id r \<notin> fst ` set (tw_executions w @ [(tx_command_id q, tx_fingerprint q, t)])"
    using inv_execD(3) [OF assms(1), of u r] inv_fenceD(3) [OF assms(2,3), of u r] assms(4) by auto
next
  fix u r assume "tw_requests w' u = Some r" "phase_started (tx_phase r)"
  then show "(tx_command_id r, tx_fingerprint r, u)
      \<in> set (tw_executions w @ [(tx_command_id q, tx_fingerprint q, t)])"
    using assms(5,7,8) inv_execD(4) [OF assms(1), of u r] by (cases "u = t") auto
qed

lemma inv_exec_step:
  assumes "tx_step len w w'" and "inv_owner w" and "inv_fence w" and "inv_exec w"
  shows "inv_exec w'"
  using assms(1,2)
proof (cases rule: tx_step_effect)
  case (idle t q')
  then show ?thesis unfolding idle(1)
    by (intro inv_exec_put [OF assms(4) tw_requests_put(1)]) (auto dest: phase_started_holds)
next
  case (permit t q b)
  show ?thesis unfolding permit(2)
    by (rule inv_exec_put [OF assms(4) tw_requests_put(1)])
      (use permit inv_execD(3,4) [OF assms(4) permit(1)] in auto)
next
  case (win t q)
  have "tx_command_id q \<notin> fst ` set (tw_executions w)"
  proof
    assume "tx_command_id q \<in> fst ` set (tw_executions w)"
    then obtain f u where "(tx_command_id q, f, u) \<in> set (tw_executions w)" by auto
    from inv_execD(2) [OF assms(4) this] win(4) show False
      using inv_fenceD(1) [OF assms(3), of u] by (auto simp: claim_owner_iff dest: phase_started_holds)
  qed
  then show ?thesis unfolding win(3)
    by (intro inv_exec_put [OF assms(4) tw_requests_put(2)])
      (use win phase_started_holds in auto)
next
  case (start t q owner)
  show ?thesis unfolding start(5)
    by (rule inv_exec_start [OF assms(4,3) start(1,2) tw_requests_put(3)]) simp_all
next
  case (respond t q r)
  show ?thesis unfolding respond(3)
    by (rule inv_exec_put [OF assms(4) tw_requests_put(4)])
      (use respond inv_execD(4) [OF assms(4) respond(1)] in auto)
next
  case (settle t q p)
  show ?thesis unfolding settle(5)
    by (rule inv_exec_put [OF assms(4) tw_requests_put(2)])
      (use settle inv_execD(4) [OF assms(4) settle(1)] phase_marked_started [OF settle(3)] in
        \<open>auto simp: mark_spent_settled\<close>)
next
  case (cache t q r)
  show ?thesis unfolding cache(3)
    by (rule inv_exec_put [OF assms(4) tw_requests_put(2)])
      (use cache inv_execD(4) [OF assms(4) cache(1)] in auto)
next
  case (release t q owner)
  then have "phase_started (tx_phase q) \<Longrightarrow>
      replay_settled (tw_replay w) (tx_command_id q) = Some (tx_fingerprint q)"
    using inv_fenceD(2) [OF assms(3) release(1)] phase_started_holds by fastforce
  then show ?thesis unfolding release(3)
    by (intro inv_exec_put [OF assms(4) tw_requests_put(2)]) (use release(1) in auto)
qed

lemma inv_responseD:
  assumes "inv_response w"
  shows "distinct (map fst (tw_responses w))"
    and "replay_cached (tw_replay w) i = Some (f, r) \<Longrightarrow> (i, f, r) \<in> set (tw_responses w)"
    and "(i, f, r) \<in> set (tw_responses w) \<Longrightarrow> \<exists>t. (i, f, t) \<in> set (tw_executions w)"
    and "tw_requests w t = Some q \<Longrightarrow> tx_phase q = Executing \<Longrightarrow>
      tx_command_id q \<notin> fst ` set (tw_responses w)"
    and "tw_requests w t = Some q \<Longrightarrow> phase_response (tx_phase q) = Some r \<Longrightarrow>
      (tx_command_id q, tx_fingerprint q, r) \<in> set (tw_responses w)"
    and "tw_requests w t = Some q \<Longrightarrow> tx_phase q = Answered (Cached r) \<Longrightarrow>
      (tx_command_id q, tx_fingerprint q, r) \<in> set (tw_responses w)"
  using assms unfolding inv_response_def by blast+

lemma inv_response_put:
  assumes "inv_response w" and "tw_requests w' = (tw_requests w)(t \<mapsto> q')"
    and "tw_responses w' = tw_responses w" and "set (tw_executions w) \<subseteq> set (tw_executions w')"
    and "\<And>i f r. replay_cached (tw_replay w') i = Some (f, r) \<Longrightarrow>
      replay_cached (tw_replay w) i = Some (f, r) \<or> (i, f, r) \<in> set (tw_responses w)"
    and "tx_phase q' = Executing \<Longrightarrow> tx_command_id q' \<notin> fst ` set (tw_responses w)"
    and "\<And>r. phase_response (tx_phase q') = Some r \<Longrightarrow>
      (tx_command_id q', tx_fingerprint q', r) \<in> set (tw_responses w)"
    and "\<And>r. tx_phase q' = Answered (Cached r) \<Longrightarrow>
      (tx_command_id q', tx_fingerprint q', r) \<in> set (tw_responses w)"
  shows "inv_response w'"
  unfolding inv_response_def assms(3)
proof (intro conjI allI impI)
  show "distinct (map fst (tw_responses w))" using assms(1) by (rule inv_responseD)
next
  fix i f r assume "replay_cached (tw_replay w') i = Some (f, r)"
  from assms(5) [OF this] show "(i, f, r) \<in> set (tw_responses w)"
    using inv_responseD(2) [OF assms(1)] by blast
next
  fix i f r assume "(i, f, r) \<in> set (tw_responses w)"
  from inv_responseD(3) [OF assms(1) this] show "\<exists>t. (i, f, t) \<in> set (tw_executions w')"
    using assms(4) by blast
next
  fix u q assume "tw_requests w' u = Some q" "tx_phase q = Executing"
  then show "tx_command_id q \<notin> fst ` set (tw_responses w)"
    using assms(2,6) inv_responseD(4) [OF assms(1), of u q] by (cases "u = t") auto
next
  fix u q r assume "tw_requests w' u = Some q" "phase_response (tx_phase q) = Some r"
  then show "(tx_command_id q, tx_fingerprint q, r) \<in> set (tw_responses w)"
    using assms(2,7) inv_responseD(5) [OF assms(1), of u q r] by (cases "u = t") auto
next
  fix u q r assume "tw_requests w' u = Some q" "tx_phase q = Answered (Cached r)"
  then show "(tx_command_id q, tx_fingerprint q, r) \<in> set (tw_responses w)"
    using assms(2,8) inv_responseD(6) [OF assms(1), of u q r] by (cases "u = t") auto
qed

lemma inv_response_respond:
  assumes "inv_response w" and "inv_fence w" and "inv_exec w"
    and "tw_requests w t = Some q" and "tx_phase q = Executing"
    and w': "w' = put_request t (q\<lparr>tx_phase := Responded r\<rparr>)
      (w\<lparr>tw_responses := tw_responses w @ [(tx_command_id q, tx_fingerprint q, r)]\<rparr>)"
  shows "inv_response w'"
proof -
  have exec: "(tx_command_id q, tx_fingerprint q, t) \<in> set (tw_executions w)"
    using inv_execD(4) [OF assms(3,4)] assms(5) by simp
  have other: "tx_command_id q' \<noteq> tx_command_id q"
    if "tw_requests w u = Some q'" "tx_phase q' = Executing" "u \<noteq> t" for u q'
    using inv_fenceD(3) [OF assms(2,4), of u q'] that assms(5) by auto
  show ?thesis
    unfolding inv_response_def w'
  proof (intro conjI allI impI, goal_cases)
    case 1
    then show ?case
      using inv_responseD(1) [OF assms(1)] inv_responseD(4) [OF assms(1,4,5)] by simp
  next
    case (2 i f r')
    then show ?case using inv_responseD(2) [OF assms(1)] by simp
  next
    case (3 i f r')
    then show ?case using inv_responseD(3) [OF assms(1), of i f r'] exec by auto
  next
    case (4 u q')
    then have "tw_requests w u = Some q'" "u \<noteq> t" by (auto split: if_splits)
    with 4 other [of u q'] inv_responseD(4) [OF assms(1), of u q'] show ?case by auto
  next
    case (5 u q' r')
    then show ?case using inv_responseD(5) [OF assms(1), of u q' r'] by (cases "u = t") auto
  next
    case (6 u q' r')
    then show ?case using inv_responseD(6) [OF assms(1), of u q' r'] by (cases "u = t") auto
  qed
qed

lemma inv_response_step:
  assumes "tx_step len w w'" and "inv_owner w" and "inv_fence w" and "inv_exec w" and "inv_response w"
  shows "inv_response w'"
  using assms(1,2)
proof (cases rule: tx_step_effect)
  case (idle t q')
  show ?thesis unfolding idle(1)
    by (rule inv_response_put [OF assms(5) tw_requests_put(1)])
      (use idle inv_responseD(2) [OF assms(5)] in auto)
next
  case (permit t q b)
  show ?thesis unfolding permit(2)
    by (rule inv_response_put [OF assms(5) tw_requests_put(1)])
      (use inv_responseD(4-6) [OF assms(5) permit(1)] in auto)
next
  case (win t q)
  show ?thesis unfolding win(3)
    by (rule inv_response_put [OF assms(5) tw_requests_put(2)]) auto
next
  case (start t q owner)
  have "tx_command_id q \<notin> fst ` set (tw_responses w)"
    using inv_execD(3) [OF assms(4) start(1,2)] inv_responseD(3) [OF assms(5)] by force
  then show ?thesis unfolding start(5)
    by (intro inv_response_put [OF assms(5) tw_requests_put(3)]) auto
next
  case (respond t q r)
  show ?thesis by (rule inv_response_respond [OF assms(5,3,4) respond])
next
  case (settle t q p)
  show ?thesis unfolding settle(5)
    by (rule inv_response_put [OF assms(5) tw_requests_put(2)])
      (use settle(3,4) inv_responseD(5) [OF assms(5) settle(1)] in auto)
next
  case (cache t q r)
  show ?thesis unfolding cache(3)
    by (rule inv_response_put [OF assms(5) tw_requests_put(2)])
      (use cache(2) inv_responseD(5) [OF assms(5) cache(1)] in \<open>auto dest: cached_cache_response\<close>)
next
  case (release t q owner)
  show ?thesis unfolding release(3)
    by (rule inv_response_put [OF assms(5) tw_requests_put(2)]) auto
qed

lemma inv_gate_put:
  assumes "inv_gate w" and "tw_requests w' = (tw_requests w)(t \<mapsto> q')"
    and "\<And>u q. u \<noteq> t \<Longrightarrow> tw_requests w u = Some q \<Longrightarrow> tx_permit q' \<Longrightarrow> tx_permit q \<Longrightarrow>
      tx_shared_read q' \<and> tx_shared_read q"
    and "tx_phase q' = Executing \<Longrightarrow> tx_permit q' \<or> tx_nested q'"
  shows "inv_gate w'"
  unfolding inv_gate_def
proof (intro conjI allI impI)
  fix u v q r assume "tw_requests w' u = Some q" "tw_requests w' v = Some r" "u \<noteq> v"
    "tx_permit q" "tx_permit r"
  then show "tx_shared_read q" "tx_shared_read r"
    using assms(1,2) assms(3) [of u q] assms(3) [of v r] unfolding inv_gate_def
    by (auto split: if_splits)
next
  fix u q assume "tw_requests w' u = Some q" "tx_phase q = Executing"
  then show "tx_permit q \<or> tx_nested q"
    using assms(1,2,4) unfolding inv_gate_def by (auto split: if_splits)
qed

lemma inv_gateD:
  assumes "inv_gate w" and "tw_requests w t = Some q"
  shows "tw_requests w u = Some q' \<Longrightarrow> u \<noteq> t \<Longrightarrow> tx_permit q \<Longrightarrow> tx_permit q' \<Longrightarrow>
      tx_shared_read q \<and> tx_shared_read q'"
    and "tx_phase q = Executing \<Longrightarrow> tx_permit q \<or> tx_nested q"
  using assms unfolding inv_gate_def by blast+

lemma inv_gate_step:
  assumes "tx_step len w w'" and "inv_owner w" and "inv_gate w"
  shows "inv_gate w'"
  using assms(1,2)
proof (cases rule: tx_step_effect)
  case (idle t q')
  have "tx_shared_read q' \<and> tx_shared_read r"
    if "u \<noteq> t" "tw_requests w u = Some r" "tx_permit q'" "tx_permit r" for u r
    using idle(2,3) that inv_gateD(1) [OF assms(3)] by (cases "tw_requests w t") auto
  then show ?thesis unfolding idle(1)
    by (intro inv_gate_put [OF assms(3) tw_requests_put(1)]) (use idle(4) in auto)
next
  case (permit t q b)
  show ?thesis unfolding permit(2)
    by (rule inv_gate_put [OF assms(3) tw_requests_put(1)])
      (use permit(3,4) in \<open>auto simp: gate_admits_def\<close>)
next
  case (win t q)
  show ?thesis unfolding win(3)
    by (rule inv_gate_put [OF assms(3) tw_requests_put(2)])
      (use inv_gateD(1) [OF assms(3) win(1)] in auto)
next
  case (start t q owner)
  show ?thesis unfolding start(5)
    by (rule inv_gate_put [OF assms(3) tw_requests_put(3)])
      (use start(3) inv_gateD(1) [OF assms(3) start(1)] in auto)
next
  case (respond t q r)
  show ?thesis unfolding respond(3)
    by (rule inv_gate_put [OF assms(3) tw_requests_put(4)])
      (use inv_gateD(1) [OF assms(3) respond(1)] in auto)
next
  case (settle t q p)
  show ?thesis unfolding settle(5)
    by (rule inv_gate_put [OF assms(3) tw_requests_put(2)])
      (use settle(3) inv_gateD(1) [OF assms(3) settle(1)] in auto)
next
  case (cache t q r)
  show ?thesis unfolding cache(3)
    by (rule inv_gate_put [OF assms(3) tw_requests_put(2)])
      (use inv_gateD(1) [OF assms(3) cache(1)] in auto)
next
  case (release t q owner)
  show ?thesis unfolding release(3)
    by (rule inv_gate_put [OF assms(3) tw_requests_put(2)]) auto
qed

definition tx_inv :: "'r tx_world \<Rightarrow> bool" where
  "tx_inv w \<longleftrightarrow> inv_owner w \<and> inv_fence w \<and> inv_live w \<and> inv_exec w \<and> inv_response w \<and> inv_gate w"

lemma tx_reachable_inv: "tx_reachable len w \<Longrightarrow> tx_inv w"
proof (induction rule: tx_reachable.induct)
  case tx_init
  show ?case
    by (simp add: tx_inv_def inv_owner_def inv_fence_def inv_live_def inv_exec_def inv_response_def
        inv_gate_def tx_world_init_def replay_default_def replay_owned_def replay_cached_def)
next
  case (tx_next w w')
  then show ?case
    using inv_owner_step inv_fence_step inv_live_step inv_exec_step inv_response_step inv_gate_step
    unfolding tx_inv_def by metis
qed

text \<open>
  A run for the witnesses: request 0 claims, executes and commits the response 7, then request 1
  arrives with the same id and fingerprint and is answered from the cache.
\<close>

lemma example_run:
  defines "len \<equiv> (\<lambda>_ :: nat. 6)"
  obtains w q where "tx_reachable len w" "tw_executions w = [(''a'', ''f'', 0)]"
    "tw_requests w 1 = Some q" "tx_phase q = Answered (Cached 7)" "tx_command_id q = ''a''"
    "tx_fingerprint q = ''f''" "\<And>t q. tw_requests w t = Some q \<Longrightarrow> \<not> phase_holds (tx_phase q)"
proof -
  let ?s0 = "replay_default :: nat replay_protocol_state"
  define s1 where "s1 = snd (claim_replay_command ''a'' ''f'' ?s0)"
  define s2 where "s2 = mark_replay_command_spent ''a'' ''f'' s1"
  define s3 where "s3 = cache_response len ''a'' ''f'' 7 s2"
  define s4 where "s4 = release_replay_command ''a'' s3"
  let ?o = "replay_fence_owner_new ''a'' ''f''"
  let ?q0 = "arrive ''a'' ''f'' False False :: nat tx_request"
  let ?q1 = "?q0\<lparr>tx_phase := Prepared, tx_owner := Some ?o\<rparr>"
  let ?q2 = "?q1\<lparr>tx_permit := True\<rparr>"
  let ?q3 = "?q2\<lparr>tx_phase := Executing, tx_owner := Some (mark_execution_started ?o)\<rparr>"
  let ?q4 = "?q3\<lparr>tx_phase := Responded 7\<rparr>"
  let ?q7 = "?q4\<lparr>tx_phase := Finished, tx_owner := Some (mark_finalized (mark_execution_started ?o)),
    tx_permit := False\<rparr>"
  let ?w0 = "tx_world_init :: nat tx_world"
  let ?w1 = "put_request 0 ?q0 ?w0"
  let ?w2 = "put_request 0 ?q1 (?w1\<lparr>tw_replay := s1\<rparr>)"
  let ?w3 = "put_request 0 ?q2 ?w2"
  let ?w4 = "put_request 0 ?q3 (?w3\<lparr>tw_executions := tw_executions ?w3 @ [(''a'', ''f'', 0)]\<rparr>)"
  let ?w5 = "put_request 0 ?q4 (?w4\<lparr>tw_responses := tw_responses ?w4 @ [(''a'', ''f'', 7)]\<rparr>)"
  let ?w6 = "put_request 0 (?q4\<lparr>tx_phase := SpentMarked 7\<rparr>) (?w5\<lparr>tw_replay := s2\<rparr>)"
  let ?w7 = "put_request 0 (?q4\<lparr>tx_phase := ResponseCached 7\<rparr>) (?w6\<lparr>tw_replay := s3\<rparr>)"
  let ?w8 = "put_request 0 ?q7 (?w7\<lparr>tw_replay := s4\<rparr>)"
  let ?w9 = "put_request 1 ?q0 ?w8"
  let ?w10 = "put_request 1 (?q0\<lparr>tx_phase := Answered (Cached 7)\<rparr>) (?w9\<lparr>tw_replay := s4\<rparr>)"
  have own: "claim_replay_command ''a'' ''f'' ?s0 = (Owner, s1)"
    by (simp add: s1_def claim_replay_command_def replay_default_def)
  have "\<And>r. len r \<le> isize_max" by (simp add: len_def isize_max_def)
  then have "replay_invar s2"
    using replay_invar_run [of len ?s0 "[ClaimOp ''a'' ''f'', SpendOp ''a'' ''f'']"]
    by (simp add: replay_invar_default s2_def s1_def)
  then have "fst (claim_replay_command ''a'' ''f'' s3) = Cached 7"
    using trimmed_last [OF cache_response_correct(3) cache_inserted_frame(5), of s2 len 7 "''a''" "''f''"]
    by (simp add: replay_invar_def claim_replay_command_def cache_inserted_frame(6) len_def
        isize_max_def s3_def)
  then have "replay_cached s3 ''a'' = Some (''f'', 7)"
    by (auto simp: claim_verdict split: option.splits if_splits prod.splits)
  then have "fst (claim_replay_command ''a'' ''f'' s4) = Cached 7"
    by (simp add: claim_verdict s4_def)
  then have hit: "claim_replay_command ''a'' ''f'' s4 = (Cached 7, s4)"
    using claim_not_owner [of "''a''" "''f''" s4] by (metis prod.collapse replay_command_claim.distinct(1))
  note fields = arrive_def replay_fence_owner_new_def mark_execution_started_def tx_world_init_def
  have "tx_step len ?w0 ?w1" by (rule step_arrive) (simp add: fields)
  moreover have "tx_step len ?w1 ?w2"
    by (rule step_claim [where t = 0 and q = ?q0]) (simp_all add: fields own claim_round_def)
  moreover have "tx_step len ?w2 ?w3"
    by (rule step_permit [where t = 0 and q = ?q1]) (simp_all add: fields gate_admits_def)
  moreover have "tx_step len ?w3 ?w4"
    using step_start [where len = len and w = ?w3 and t = 0 and q = ?q2 and owner = ?o]
    by (simp add: arrive_def)
  moreover have "tx_step len ?w4 ?w5"
    using step_respond [where len = len and w = ?w4 and t = 0 and q = ?q3 and r = 7]
    by (simp add: arrive_def)
  moreover have "tx_step len ?w5 ?w6"
    using step_mark_spent [where len = len and w = ?w5 and t = 0 and q = ?q4 and r = 7]
    by (simp add: fields s2_def)
  moreover have "tx_step len ?w6 ?w7"
    using step_cache [where len = len and w = ?w6 and t = 0 and r = 7
        and q = "?q4\<lparr>tx_phase := SpentMarked 7\<rparr>" and owner = "mark_execution_started ?o"]
    by (simp add: fields s3_def)
  moreover have "tx_step len ?w7 ?w8"
    using step_release [where len = len and w = ?w7 and t = 0 and r = 7
        and q = "?q4\<lparr>tx_phase := ResponseCached 7\<rparr>" and owner = "mark_execution_started ?o"]
    by (simp add: fields s4_def)
  moreover have "tx_step len ?w8 ?w9"
    by (rule step_arrive) (simp add: fields)
  moreover have "tx_step len ?w9 ?w10"
    by (rule step_claim [where t = 1 and q = ?q0]) (simp_all add: arrive_def hit claim_round_def)
  ultimately have "tx_reachable len ?w10"
    using tx_init tx_next by metis
  then show thesis
    by (rule that) (auto simp: fields split: if_splits)
qed

section \<open>Properties\<close>

text \<open>
  C1. At-most-once execution: in every state that any interleaving of requests, timeouts, drops
  and cache evictions can reach, a command id has entered execution at most once, whatever the
  fingerprints of the requests that carried it.
\<close>

theorem at_most_once_execution:
  assumes "tx_reachable len w"
  shows "length (filter (\<lambda>(command_id, fingerprint, t). command_id = i) (tw_executions w)) \<le> 1"
proof -
  have "distinct (map fst (tw_executions w))"
    using tx_reachable_inv [OF assms] by (auto simp: tx_inv_def dest: inv_execD)
  then have "distinct (map fst (filter (\<lambda>(command_id, fingerprint, t). command_id = i) (tw_executions w)))"
    by (rule distinct_map_filter)
  moreover have "set (map fst (filter (\<lambda>(command_id, fingerprint, t). command_id = i) (tw_executions w))) \<subseteq> {i}"
    by auto
  ultimately show ?thesis
    by (cases "filter (\<lambda>(command_id, fingerprint, t). command_id = i) (tw_executions w)";
        cases "tl (filter (\<lambda>(command_id, fingerprint, t). command_id = i) (tw_executions w))") auto
qed

theorem at_most_once_execution_witness:
  "\<exists>w :: nat tx_world. tx_reachable (\<lambda>_. 6) w \<and> tw_executions w \<noteq> [] \<and>
     length (filter (\<lambda>(command_id, fingerprint, t). command_id = ''a'') (tw_executions w)) \<le> 1"
proof -
  obtain w :: "nat tx_world" where "tx_reachable (\<lambda>_. 6) w" "tw_executions w = [(''a'', ''f'', 0)]"
    using example_run by blast
  with at_most_once_execution [OF this(1)] show ?thesis by auto
qed

text \<open>
  C2. Replay is faithful: a request that is answered from the cache gets the response that the
  one execution of its command id produced, that execution ran under the request's own fingerprint,
  and no other response was ever produced for the id.
\<close>

theorem replayed_response_is_the_executed_one:
  assumes "tx_reachable len w" and "tw_requests w t = Some q" and "tx_phase q = Answered (Cached r)"
  shows "(\<exists>u. (tx_command_id q, tx_fingerprint q, u) \<in> set (tw_executions w)) \<and>
    (tx_command_id q, tx_fingerprint q, r) \<in> set (tw_responses w) \<and>
    (\<forall>f r'. (tx_command_id q, f, r') \<in> set (tw_responses w) \<longrightarrow> f = tx_fingerprint q \<and> r' = r)"
proof -
  have inv: "inv_response w" using tx_reachable_inv [OF assms(1)] by (simp add: tx_inv_def)
  have mem: "(tx_command_id q, tx_fingerprint q, r) \<in> set (tw_responses w)"
    using inv_responseD(6) [OF inv assms(2,3)] .
  have "f = tx_fingerprint q \<and> r' = r" if "(tx_command_id q, f, r') \<in> set (tw_responses w)" for f r'
    using inv_responseD(1) [OF inv] mem that
    by (metis Pair_inject eq_key_imp_eq_value)
  with mem inv_responseD(3) [OF inv mem] show ?thesis by blast
qed

theorem replayed_response_is_the_executed_one_witness:
  "\<exists>(w :: nat tx_world) q. tx_reachable (\<lambda>_. 6) w \<and> tw_requests w 1 = Some q \<and>
     tx_phase q = Answered (Cached 7) \<and> (''a'', ''f'', 7) \<in> set (tw_responses w)"
proof -
  obtain w :: "nat tx_world" and q where "tx_reachable (\<lambda>_. 6) w" "tw_requests w 1 = Some q"
    "tx_phase q = Answered (Cached 7)" "tx_command_id q = ''a''" "tx_fingerprint q = ''f''"
    using example_run by metis
  with replayed_response_is_the_executed_one [OF this(1-3)] show ?thesis by auto
qed

text \<open>
  C3. No fence leaks and no execution is forgotten: a command id that is in flight is held by a
  live request, and once no request holds a fence, nothing is in flight and every command id that
  ever entered execution is spent under the fingerprint it executed with, also when its request was
  dropped half-way.
\<close>

theorem quiescent_session_settled:
  assumes "tx_reachable len w"
  shows "(\<forall>i f. replay_owned (tw_replay w) i = Some f \<longrightarrow>
      (\<exists>t q. tw_requests w t = Some q \<and> phase_holds (tx_phase q) \<and> tx_command_id q = i
         \<and> tx_fingerprint q = f)) \<and>
    ((\<forall>t q. tw_requests w t = Some q \<longrightarrow> \<not> phase_holds (tx_phase q)) \<longrightarrow>
      (\<forall>i. replay_owned (tw_replay w) i = None) \<and>
      (\<forall>i f t. (i, f, t) \<in> set (tw_executions w) \<longrightarrow> replay_settled (tw_replay w) i = Some f))"
proof -
  have inv: "inv_live w" "inv_exec w" "inv_fence w"
    using tx_reachable_inv [OF assms] by (simp_all add: tx_inv_def)
  have live: "\<exists>t q. tw_requests w t = Some q \<and> phase_holds (tx_phase q) \<and> tx_command_id q = i
      \<and> tx_fingerprint q = f" if owned: "replay_owned (tw_replay w) i = Some f" for i f
  proof -
    obtain t q where q: "tw_requests w t = Some q" "phase_holds (tx_phase q)" "tx_command_id q = i"
      using inv(1) owned unfolding inv_live_def by blast
    from inv_fenceD(1) [OF inv(3) q(1,2)] owned q show ?thesis by auto
  qed
  moreover have "replay_owned (tw_replay w) i = None"
    if "\<forall>t q. tw_requests w t = Some q \<longrightarrow> \<not> phase_holds (tx_phase q)" for i
    using live [of i] that by (cases "replay_owned (tw_replay w) i") auto
  moreover have "replay_settled (tw_replay w) i = Some f"
    if "\<forall>t q. tw_requests w t = Some q \<longrightarrow> \<not> phase_holds (tx_phase q)"
      "(i, f, t) \<in> set (tw_executions w)" for i f t
    using inv_execD(2) [OF inv(2) that(2)] that(1) phase_started_holds by blast
  ultimately show ?thesis by blast
qed

theorem quiescent_session_settled_witness:
  "\<exists>w :: nat tx_world. tx_reachable (\<lambda>_. 6) w \<and> replay_settled (tw_replay w) ''a'' = Some ''f''"
proof -
  obtain w :: "nat tx_world" where w: "tx_reachable (\<lambda>_. 6) w" "tw_executions w = [(''a'', ''f'', 0)]"
    "\<And>t q. tw_requests w t = Some q \<Longrightarrow> \<not> phase_holds (tx_phase q)"
    using example_run by metis
  with quiescent_session_settled [OF w(1)] show ?thesis by auto
qed

text \<open>
  C4. One command at a time: two requests that came over the transport never execute together
  unless both are read-only commands that the gate admits as shared.
\<close>

theorem executions_exclusive:
  assumes "tx_reachable len w" and "tw_requests w t = Some q" and "tw_requests w u = Some q'"
    and "t \<noteq> u" and "tx_phase q = Executing" and "tx_phase q' = Executing"
    and "\<not> tx_nested q" and "\<not> tx_nested q'"
  shows "tx_shared_read q \<and> tx_shared_read q'"
proof -
  have inv: "inv_gate w" using tx_reachable_inv [OF assms(1)] by (simp add: tx_inv_def)
  have "tx_permit q" "tx_permit q'"
    using inv_gateD(2) [OF inv assms(2)] inv_gateD(2) [OF inv assms(3)] assms by auto
  with inv_gateD(1) [OF inv assms(2,3)] assms(4) show ?thesis by blast
qed

text \<open>Two shared readers that do execute together.\<close>

lemma example_shared:
  defines "len \<equiv> (\<lambda>_ :: nat. 6)"
  obtains w q q' where "tx_reachable len w" "tw_requests w 0 = Some q" "tw_requests w 1 = Some q'"
    "tx_phase q = Executing" "tx_phase q' = Executing" "\<not> tx_nested q" "\<not> tx_nested q'"
proof -
  define s1 where "s1 = snd (claim_replay_command ''a'' ''f'' (replay_default :: nat replay_protocol_state))"
  define s2 where "s2 = snd (claim_replay_command ''b'' ''g'' s1)"
  let ?q = "\<lambda>i f. arrive i f True False :: nat tx_request"
  let ?o = "\<lambda>i f. replay_fence_owner_new i f"
  let ?p = "\<lambda>i f. (?q i f)\<lparr>tx_phase := Prepared, tx_owner := Some (?o i f)\<rparr>"
  let ?e = "\<lambda>i f. (?p i f)\<lparr>tx_permit := True, tx_phase := Executing,
    tx_owner := Some (mark_execution_started (?o i f))\<rparr>"
  let ?w0 = "tx_world_init :: nat tx_world"
  let ?w1 = "put_request 0 (?q ''a'' ''f'') ?w0"
  let ?w2 = "put_request 0 (?p ''a'' ''f'') (?w1\<lparr>tw_replay := s1\<rparr>)"
  let ?w3 = "put_request 0 ((?p ''a'' ''f'')\<lparr>tx_permit := True\<rparr>) ?w2"
  let ?w4 = "put_request 0 (?e ''a'' ''f'') (?w3\<lparr>tw_executions := tw_executions ?w3 @ [(''a'', ''f'', 0)]\<rparr>)"
  let ?w5 = "put_request 1 (?q ''b'' ''g'') ?w4"
  let ?w6 = "put_request 1 (?p ''b'' ''g'') (?w5\<lparr>tw_replay := s2\<rparr>)"
  let ?w7 = "put_request 1 ((?p ''b'' ''g'')\<lparr>tx_permit := True\<rparr>) ?w6"
  let ?w8 = "put_request 1 (?e ''b'' ''g'') (?w7\<lparr>tw_executions := tw_executions ?w7 @ [(''b'', ''g'', 1)]\<rparr>)"
  have c1: "claim_replay_command ''a'' ''f'' (replay_default :: nat replay_protocol_state) = (Owner, s1)"
    by (simp add: s1_def claim_replay_command_def replay_default_def)
  have "fst (claim_replay_command ''b'' ''g'' s1) = Owner"
    by (simp add: s1_def claim_replay_command_def replay_default_def lookup_update')
  then have c2: "claim_replay_command ''b'' ''g'' s1 = (Owner, s2)"
    by (metis prod.collapse s2_def)
  note fields = arrive_def replay_fence_owner_new_def mark_execution_started_def tx_world_init_def
  have "tx_step len ?w0 ?w1" by (rule step_arrive) (simp add: fields)
  moreover have "tx_step len ?w1 ?w2"
    by (rule step_claim [where t = 0 and q = "?q ''a'' ''f''"]) (simp_all add: fields c1 claim_round_def)
  moreover have "tx_step len ?w2 ?w3"
    by (rule step_permit [where t = 0 and q = "?p ''a'' ''f''"]) (simp_all add: fields gate_admits_def)
  moreover have "tx_step len ?w3 ?w4"
    using step_start [where len = len and w = ?w3 and t = 0 and q = "(?p ''a'' ''f'')\<lparr>tx_permit := True\<rparr>"
        and owner = "?o ''a'' ''f''"] by (simp add: arrive_def)
  moreover have "tx_step len ?w4 ?w5" by (rule step_arrive) (simp add: fields)
  moreover have "tx_step len ?w5 ?w6"
    by (rule step_claim [where t = 1 and q = "?q ''b'' ''g''"]) (simp_all add: fields c2 claim_round_def)
  moreover have "tx_step len ?w6 ?w7"
    by (rule step_permit [where t = 1 and q = "?p ''b'' ''g''"])
      (auto simp: fields gate_admits_def split: if_splits)
  moreover have "tx_step len ?w7 ?w8"
    using step_start [where len = len and w = ?w7 and t = 1 and q = "(?p ''b'' ''g'')\<lparr>tx_permit := True\<rparr>"
        and owner = "?o ''b'' ''g''"] by (simp add: arrive_def)
  ultimately have "tx_reachable len ?w8" using tx_init tx_next by metis
  then show thesis
    by (rule that [where q = "?e ''a'' ''f''" and q' = "?e ''b'' ''g''"]) (simp_all add: arrive_def)
qed

theorem executions_exclusive_witness:
  "\<exists>(w :: nat tx_world) q q'. tx_reachable (\<lambda>_. 6) w \<and> tw_requests w 0 = Some q \<and>
     tw_requests w 1 = Some q' \<and> tx_phase q = Executing \<and> tx_phase q' = Executing \<and>
     tx_shared_read q \<and> tx_shared_read q'"
proof -
  obtain w :: "nat tx_world" and q q' where w: "tx_reachable (\<lambda>_. 6) w" "tw_requests w 0 = Some q"
    "tw_requests w 1 = Some q'" "tx_phase q = Executing" "tx_phase q' = Executing"
    "\<not> tx_nested q" "\<not> tx_nested q'"
    using example_shared by metis
  with executions_exclusive [OF w(1-3) _ w(4-7)] show ?thesis by auto
qed

end
