(* ===== verification/Rub_Cache.thy ===== *)
theory Rub_Cache
  imports Rub_Interfaces
begin

text \<open>
  The two insertion-ordered caches of a session: the locator memo (\<^verbatim>\<open>rub-daemon/src/locator_memo.rs\<close>)
  and the snapshot cache (\<^verbatim>\<open>rub-daemon/src/session.rs\<close>, \<^verbatim>\<open>session/cache.rs\<close>). Both keep a map and the
  order of insertion in one lock and evict from the front; both interpret the bounded-cache
  interface, from which the retention theorems follow. A snapshot is its id, the tab target of its
  frame context, and the rest of its payload.
\<close>

section \<open>Eviction\<close>

text \<open>\<^verbatim>\<open>while order.len() > limit { pop_front, map.remove }\<close>\<close>

fun evict_to :: "nat \<Rightarrow> ('k, 'v) mapping \<Rightarrow> 'k list \<Rightarrow> ('k, 'v) mapping \<times> 'k list" where
  "evict_to limit m [] = (m, [])"
| "evict_to limit m (oldest # rest) =
     (if length (oldest # rest) > limit then evict_to limit (Mapping.delete oldest m) rest
      else (m, oldest # rest))"

lemma evict_to_order: "snd (evict_to limit m ks) = pop_front_to limit ks"
  by (induction limit m ks rule: evict_to.induct) auto

lemma evict_to_lookup:
  assumes "distinct ks"
  shows "Mapping.lookup (fst (evict_to limit m ks)) k =
    (if k \<in> set ks \<and> k \<notin> set (pop_front_to limit ks) then None else Mapping.lookup m k)"
  using assms
proof (induction limit m ks rule: evict_to.induct)
  case (2 limit m x xs)
  have sub: "set (pop_front_to limit xs) \<subseteq> set xs"
    by (simp add: pop_front_to_drop set_drop_subset)
  with 2 show ?case by (auto simp: lookup_delete_if)
qed simp

text \<open>Insertion at the back, with the key moved there if it was present.\<close>

definition keyed_ok :: "nat \<Rightarrow> ('k, 'v) mapping \<Rightarrow> 'k list \<Rightarrow> bool" where
  "keyed_ok limit m ks \<longleftrightarrow> distinct ks \<and> length ks \<le> limit \<and> (\<forall>k. Mapping.lookup m k \<noteq> None \<longleftrightarrow> k \<in> set ks)"

lemma evict_insert:
  assumes "keyed_ok limit m ks" and "0 < limit"
    and "(m', ks') = evict_to limit (Mapping.update k v m) (filter (\<lambda>x. x \<noteq> k) ks @ [k])"
  shows "keyed_ok limit m' ks'"
    and "ks' = pop_front_to limit (filter (\<lambda>x. x \<noteq> k) ks @ [k])"
    and "Mapping.lookup m' j = (if j \<in> set ks' then (if j = k then Some v else Mapping.lookup m j) else None)"
proof -
  let ?ks = "filter (\<lambda>x. x \<noteq> k) ks @ [k]"
  have d: "distinct ?ks" using assms(1) by (simp add: keyed_ok_def)
  have m': "m' = fst (evict_to limit (Mapping.update k v m) ?ks)"
    and ks': "ks' = snd (evict_to limit (Mapping.update k v m) ?ks)"
    using assms(3) by (metis fst_conv, metis snd_conv)
  show order: "ks' = pop_front_to limit ?ks" by (simp add: ks' evict_to_order)
  have keys: "j \<in> set ?ks \<longleftrightarrow> Mapping.lookup (Mapping.update k v m) j \<noteq> None" for j
    using assms(1) by (auto simp: keyed_ok_def lookup_update')
  have sub: "set ks' \<subseteq> set ?ks" unfolding order pop_front_to_drop by (rule set_drop_subset)
  show look: "Mapping.lookup m' j = (if j \<in> set ks' then (if j = k then Some v else Mapping.lookup m j) else None)" for j
    using keys [of j] sub unfolding m' evict_to_lookup [OF d] order [symmetric]
    by (auto simp: lookup_update')
  have "Mapping.lookup m' j \<noteq> None \<longleftrightarrow> j \<in> set ks'" for j
    using keys [of j] sub look [of j] by (auto simp: lookup_update' split: if_splits)
  moreover have "distinct ks'" unfolding order pop_front_to_drop using d by (rule distinct_drop)
  moreover have "length ks' \<le> limit" unfolding order pop_front_to_drop by simp
  ultimately show "keyed_ok limit m' ks'" by (simp add: keyed_ok_def)
qed

section \<open>Locator memo\<close>

definition LOCATOR_MEMO_LIMIT :: nat where
  "LOCATOR_MEMO_LIMIT = 128"

datatype locator_memo_target = ElementRef string | Index u32

record locator_memo_registry =
  lm_entries :: "(string, locator_memo_target list) mapping"
  lm_order :: "string list"

definition locator_memo_default :: locator_memo_registry where
  "locator_memo_default = \<lparr>lm_entries = Mapping.empty, lm_order = []\<rparr>"

definition locator_memo_get :: "locator_memo_registry \<Rightarrow> string \<Rightarrow> locator_memo_target list option" where
  "locator_memo_get r key = Mapping.lookup (lm_entries r) key"

definition locator_memo_insert ::
  "string \<Rightarrow> locator_memo_target list \<Rightarrow> locator_memo_registry \<Rightarrow> locator_memo_registry" where
  "locator_memo_insert key targets r =
     (if targets = [] then r
      else case evict_to LOCATOR_MEMO_LIMIT (Mapping.update key targets (lm_entries r))
             (filter (\<lambda>existing. existing \<noteq> key) (lm_order r) @ [key]) of
        (entries, order) \<Rightarrow> \<lparr>lm_entries = entries, lm_order = order\<rparr>)"

definition locator_memo_ok :: "locator_memo_registry \<Rightarrow> bool" where
  "locator_memo_ok r \<longleftrightarrow> keyed_ok LOCATOR_MEMO_LIMIT (lm_entries r) (lm_order r)"

interpretation memo: bounded_cache locator_memo_get lm_order locator_memo_insert
  "\<lambda>targets. targets \<noteq> []" LOCATOR_MEMO_LIMIT locator_memo_ok
proof unfold_locales
  fix r :: locator_memo_registry and k j and v :: "locator_memo_target list"
  show "0 < LOCATOR_MEMO_LIMIT" by (simp add: LOCATOR_MEMO_LIMIT_def)
  show "\<not> v \<noteq> [] \<Longrightarrow> locator_memo_insert k v r = r" by (simp add: locator_memo_insert_def)
  show "locator_memo_ok r \<Longrightarrow> distinct (lm_order r)"
    "locator_memo_ok r \<Longrightarrow> length (lm_order r) \<le> LOCATOR_MEMO_LIMIT"
    "locator_memo_ok r \<Longrightarrow> (locator_memo_get r k \<noteq> None) = (k \<in> set (lm_order r))"
    by (simp_all add: locator_memo_ok_def keyed_ok_def locator_memo_get_def)
  show "v \<noteq> [] \<Longrightarrow> lm_order (locator_memo_insert k v r) =
      pop_front_to LOCATOR_MEMO_LIMIT (filter (\<lambda>x. x \<noteq> k) (lm_order r) @ [k])"
    by (simp add: locator_memo_insert_def case_prod_beta evict_to_order)
  have ins: "evict_to LOCATOR_MEMO_LIMIT (Mapping.update k v (lm_entries r))
        (filter (\<lambda>existing. existing \<noteq> k) (lm_order r) @ [k])
      = (lm_entries (locator_memo_insert k v r), lm_order (locator_memo_insert k v r))" if "v \<noteq> []"
    using that by (simp add: locator_memo_insert_def case_prod_beta)
  show "locator_memo_ok (locator_memo_insert k v r)" if "locator_memo_ok r"
  proof (cases "v = []")
    case False
    with that show ?thesis
      using evict_insert(1) [OF _ _ ins [OF False, symmetric]]
      by (simp add: locator_memo_ok_def LOCATOR_MEMO_LIMIT_def)
  qed (use that in \<open>simp add: locator_memo_insert_def\<close>)
  show "locator_memo_get (locator_memo_insert k v r) j =
      (if j \<in> set (lm_order (locator_memo_insert k v r))
       then if j = k then Some v else locator_memo_get r j else None)" if "locator_memo_ok r" "v \<noteq> []"
    using evict_insert(3) [OF _ _ ins [OF that(2), symmetric]] that
    by (simp add: locator_memo_ok_def locator_memo_get_def LOCATOR_MEMO_LIMIT_def)
qed

section \<open>Snapshot cache\<close>

definition SNAPSHOT_CACHE_LIMIT :: nat where
  "SNAPSHOT_CACHE_LIMIT = 128"

record 'p snapshot =
  sn_snapshot_id :: string
  sn_target_id :: "string option"
  sn_payload :: 'p

record 'p snapshot_cache =
  sc_map :: "(string, 'p snapshot) mapping"
  sc_order :: "string list"

definition snapshot_cache_default :: "'p snapshot_cache" where
  "snapshot_cache_default = \<lparr>sc_map = Mapping.empty, sc_order = []\<rparr>"

definition insert_snapshot :: "string \<Rightarrow> 'p snapshot \<Rightarrow> 'p snapshot_cache \<Rightarrow> 'p snapshot_cache" where
  "insert_snapshot snapshot_id snapshot sc =
     (case evict_to SNAPSHOT_CACHE_LIMIT (Mapping.update snapshot_id snapshot (sc_map sc))
             (filter (\<lambda>existing. existing \<noteq> snapshot_id) (sc_order sc) @ [snapshot_id]) of
        (m, order) \<Rightarrow> \<lparr>sc_map = m, sc_order = order\<rparr>)"

definition cache_snapshot :: "'p snapshot \<Rightarrow> 'p snapshot_cache \<Rightarrow> 'p snapshot_cache" where
  "cache_snapshot snapshot sc = insert_snapshot (sn_snapshot_id snapshot) snapshot sc"

definition get_snapshot :: "'p snapshot_cache \<Rightarrow> string \<Rightarrow> 'p snapshot option" where
  "get_snapshot sc snapshot_id = Mapping.lookup (sc_map sc) snapshot_id"

definition clear_all_snapshots :: "'p snapshot_cache \<Rightarrow> 'p snapshot_cache" where
  "clear_all_snapshots sc = \<lparr>sc_map = Mapping.empty, sc_order = []\<rparr>"

definition stale_for_target :: "string \<Rightarrow> 'p snapshot_cache \<Rightarrow> string \<Rightarrow> bool" where
  "stale_for_target target_id sc snapshot_id =
     (case Mapping.lookup (sc_map sc) snapshot_id of
        None \<Rightarrow> False | Some snapshot \<Rightarrow> sn_target_id snapshot = Some target_id)"

definition clear_snapshots_for_target :: "string \<Rightarrow> 'p snapshot_cache \<Rightarrow> 'p snapshot_cache" where
  "clear_snapshots_for_target target_id sc =
     (if \<not> (\<exists>snapshot_id\<in>Mapping.keys (sc_map sc). stale_for_target target_id sc snapshot_id) then sc
      else \<lparr>sc_map = Mapping.filter (\<lambda>snapshot_id _. \<not> stale_for_target target_id sc snapshot_id) (sc_map sc),
      sc_order = filter (\<lambda>snapshot_id. \<not> stale_for_target target_id sc snapshot_id) (sc_order sc)\<rparr>)"

definition snapshot_cache_ok :: "'p snapshot_cache \<Rightarrow> bool" where
  "snapshot_cache_ok sc \<longleftrightarrow> keyed_ok SNAPSHOT_CACHE_LIMIT (sc_map sc) (sc_order sc)"

interpretation snapshots: bounded_cache get_snapshot sc_order insert_snapshot
  "\<lambda>snapshot. True" SNAPSHOT_CACHE_LIMIT snapshot_cache_ok
proof unfold_locales
  fix sc :: "'p snapshot_cache" and k j and v :: "'p snapshot"
  show "0 < SNAPSHOT_CACHE_LIMIT" by (simp add: SNAPSHOT_CACHE_LIMIT_def)
  show "\<not> True \<Longrightarrow> insert_snapshot k v sc = sc" by simp
  show "snapshot_cache_ok sc \<Longrightarrow> distinct (sc_order sc)"
    "snapshot_cache_ok sc \<Longrightarrow> length (sc_order sc) \<le> SNAPSHOT_CACHE_LIMIT"
    "snapshot_cache_ok sc \<Longrightarrow> (get_snapshot sc k \<noteq> None) = (k \<in> set (sc_order sc))"
    by (simp_all add: snapshot_cache_ok_def keyed_ok_def get_snapshot_def)
  show "sc_order (insert_snapshot k v sc) =
      pop_front_to SNAPSHOT_CACHE_LIMIT (filter (\<lambda>x. x \<noteq> k) (sc_order sc) @ [k])"
    by (simp add: insert_snapshot_def case_prod_beta evict_to_order)
  have ins: "evict_to SNAPSHOT_CACHE_LIMIT (Mapping.update k v (sc_map sc))
        (filter (\<lambda>existing. existing \<noteq> k) (sc_order sc) @ [k])
      = (sc_map (insert_snapshot k v sc), sc_order (insert_snapshot k v sc))"
    by (simp add: insert_snapshot_def case_prod_beta)
  show "snapshot_cache_ok (insert_snapshot k v sc)" if "snapshot_cache_ok sc"
    using evict_insert(1) [OF _ _ ins [symmetric]] that
    by (simp add: snapshot_cache_ok_def SNAPSHOT_CACHE_LIMIT_def)
  show "get_snapshot (insert_snapshot k v sc) j =
      (if j \<in> set (sc_order (insert_snapshot k v sc))
       then if j = k then Some v else get_snapshot sc j else None)" if "snapshot_cache_ok sc"
    using evict_insert(3) [OF _ _ ins [symmetric]] that
    by (simp add: snapshot_cache_ok_def get_snapshot_def SNAPSHOT_CACHE_LIMIT_def)
qed

section \<open>Properties\<close>

lemma snapshot_cache_ok_default: "snapshot_cache_ok snapshot_cache_default"
  by (simp add: snapshot_cache_ok_def keyed_ok_def snapshot_cache_default_def)

lemma locator_memo_ok_default: "locator_memo_ok locator_memo_default"
  by (simp add: locator_memo_ok_def keyed_ok_def locator_memo_default_def)

lemma lookup_filter_mapping:
  "Mapping.lookup (Mapping.filter P m) k =
     (case Mapping.lookup m k of None \<Rightarrow> None | Some v \<Rightarrow> if P k v then Some v else None)"
  by (rule lookup_filter)

lemma clear_for_target_lookup:
  "get_snapshot (clear_snapshots_for_target target_id sc) i =
     (case get_snapshot sc i of
        None \<Rightarrow> None | Some v \<Rightarrow> if sn_target_id v = Some target_id then None else Some v)"
proof (cases "\<exists>i\<in>Mapping.keys (sc_map sc). stale_for_target target_id sc i")
  case True
  then show ?thesis
    by (auto simp: clear_snapshots_for_target_def get_snapshot_def lookup_filter_mapping
        stale_for_target_def split: option.split)
next
  case False
  then show ?thesis
    by (auto simp: clear_snapshots_for_target_def get_snapshot_def keys_lookup stale_for_target_def
        split: option.splits)
qed

lemma clear_for_target_ok:
  assumes "snapshot_cache_ok sc"
  shows "snapshot_cache_ok (clear_snapshots_for_target target_id sc)"
proof -
  have len: "length (filter P (sc_order sc)) \<le> SNAPSHOT_CACHE_LIMIT" for P
    using assms le_trans [OF length_filter_le] by (auto simp: snapshot_cache_ok_def keyed_ok_def)
  have keys: "Mapping.lookup (sc_map sc) i \<noteq> None \<longleftrightarrow> i \<in> set (sc_order sc)" for i
    using assms by (simp add: snapshot_cache_ok_def keyed_ok_def)
  have "Mapping.keys (sc_map sc) = set (sc_order sc)" by (auto simp: keys_lookup keys [simplified])
  then have order: "i \<in> set (sc_order (clear_snapshots_for_target target_id sc)) \<longleftrightarrow>
      i \<in> set (sc_order sc) \<and> \<not> stale_for_target target_id sc i" for i
    by (auto simp: clear_snapshots_for_target_def)
  have "(get_snapshot (clear_snapshots_for_target target_id sc) i \<noteq> None) =
      (i \<in> set (sc_order (clear_snapshots_for_target target_id sc)))" for i
    using keys [of i] unfolding clear_for_target_lookup order
    by (auto simp: get_snapshot_def stale_for_target_def split: option.splits)
  moreover have "distinct (sc_order (clear_snapshots_for_target target_id sc))"
    "length (sc_order (clear_snapshots_for_target target_id sc)) \<le> SNAPSHOT_CACHE_LIMIT"
    using assms len by (simp_all add: clear_snapshots_for_target_def snapshot_cache_ok_def keyed_ok_def)
  ultimately show ?thesis by (simp add: snapshot_cache_ok_def keyed_ok_def get_snapshot_def)
qed

text \<open>
  Snapshots are found again: a snapshot that was published stays available, unchanged, while
  fewer than 128 others with different ids are published after it; the cache never holds more than
  128, and its order and its map always agree.
\<close>

theorem snapshot_retained:
  assumes "snapshot_cache_ok sc" and "length others < 128"
    and "sn_snapshot_id snapshot \<notin> sn_snapshot_id ` set others"
    and "t = fold cache_snapshot others (cache_snapshot snapshot sc)"
  shows "get_snapshot t (sn_snapshot_id snapshot) = Some snapshot \<and> snapshot_cache_ok t \<and>
    length (sc_order t) \<le> 128 \<and> (\<forall>i. get_snapshot t i \<noteq> None \<longleftrightarrow> i \<in> set (sc_order t))"
proof -
  let ?kvs = "map (\<lambda>v. (sn_snapshot_id v, v)) others"
  have run: "fold cache_snapshot others s = fold (\<lambda>(k, v). insert_snapshot k v) ?kvs s" for s
    by (induction others arbitrary: s) (auto simp: cache_snapshot_def)
  have "fst ` set ?kvs = sn_snapshot_id ` set others" by force
  then have "get_snapshot t (sn_snapshot_id snapshot) = Some snapshot"
    unfolding assms(4) run cache_snapshot_def
    by (intro snapshots.retained_after_inserts) (use assms in \<open>auto simp: SNAPSHOT_CACHE_LIMIT_def\<close>)
  moreover have "snapshot_cache_ok t"
    unfolding assms(4) run cache_snapshot_def
    by (intro snapshots.invar_run snapshots.invar_insert assms(1))
  ultimately show ?thesis
    using snapshots.invar_bound snapshots.invar_keys by (auto simp: SNAPSHOT_CACHE_LIMIT_def)
qed

theorem snapshot_retained_witness:
  "let a = \<lparr>sn_snapshot_id = ''a'', sn_target_id = None, sn_payload = (1 :: nat)\<rparr>;
       b = \<lparr>sn_snapshot_id = ''b'', sn_target_id = Some ''t'', sn_payload = 2\<rparr>
   in get_snapshot (fold cache_snapshot [b, b] (cache_snapshot a snapshot_cache_default)) ''a'' = Some a"
  using snapshot_retained [OF snapshot_cache_ok_default _ _ refl,
      of "[\<lparr>sn_snapshot_id = ''b'', sn_target_id = Some ''t'', sn_payload = 2\<rparr>,
           \<lparr>sn_snapshot_id = ''b'', sn_target_id = Some ''t'', sn_payload = 2\<rparr>]"
        "\<lparr>sn_snapshot_id = ''a'', sn_target_id = None, sn_payload = (1 :: nat)\<rparr>"]
  by (simp add: Let_def)

text \<open>
  Clearing the snapshots of a tab removes exactly the snapshots taken in it: none of them is
  found afterwards, every other one still is, and the cache stays consistent.
\<close>

theorem clear_snapshots_for_target_exact:
  "(get_snapshot (clear_snapshots_for_target target_id sc) i = Some v \<longleftrightarrow>
      get_snapshot sc i = Some v \<and> sn_target_id v \<noteq> Some target_id) \<and>
   (snapshot_cache_ok sc \<longrightarrow> snapshot_cache_ok (clear_snapshots_for_target target_id sc))"
  using clear_for_target_ok unfolding clear_for_target_lookup by (auto split: option.splits)

theorem clear_snapshots_for_target_exact_witness:
  "let a = \<lparr>sn_snapshot_id = ''a'', sn_target_id = Some ''t'', sn_payload = (1 :: nat)\<rparr>
   in snapshot_cache_ok (clear_snapshots_for_target ''t'' (cache_snapshot a snapshot_cache_default))"
proof -
  let ?a = "\<lparr>sn_snapshot_id = ''a'', sn_target_id = Some ''t'', sn_payload = (1 :: nat)\<rparr>"
  have "snapshot_cache_ok (cache_snapshot ?a snapshot_cache_default)"
    unfolding cache_snapshot_def by (rule snapshots.invar_insert [OF snapshot_cache_ok_default])
  then show ?thesis
    using clear_snapshots_for_target_exact [of "''t''" "cache_snapshot ?a snapshot_cache_default" "''a''" ?a]
    by (simp add: Let_def)
qed

text \<open>
  The locator memo keeps what was memoised last: a non-empty memo stays, unchanged, while
  fewer than 128 other keys are memoised after it, and an empty one is ignored.
\<close>

theorem locator_memo_retained:
  assumes "locator_memo_ok r" and "targets \<noteq> []" and "length others < 128"
    and "key \<notin> fst ` set others"
  shows "locator_memo_get (fold (\<lambda>(k, ts). locator_memo_insert k ts) others
      (locator_memo_insert key targets r)) key = Some targets \<and>
    locator_memo_insert key [] r = r"
proof
  show "locator_memo_get (fold (\<lambda>(k, ts). locator_memo_insert k ts) others
      (locator_memo_insert key targets r)) key = Some targets"
    by (rule memo.retained_after_inserts) (use assms in \<open>auto simp: LOCATOR_MEMO_LIMIT_def\<close>)
qed (simp add: locator_memo_insert_def)

theorem locator_memo_retained_witness:
  "locator_memo_get (locator_memo_insert ''k'' [Index 3] (locator_memo_insert ''j'' [ElementRef ''e'']
     locator_memo_default)) ''j'' = Some [ElementRef ''e'']"
  using locator_memo_retained [OF locator_memo_ok_default, of "[ElementRef ''e'']" "[(''k'', [Index 3])]" "''j''"]
  by simp

end
