(* ===== verification/Rub_Json.thy ===== *)
theory Rub_Json
  imports Rub_Prelude
begin

text \<open>
  JSON values as the daemon sees them through \<^verbatim>\<open>serde_json::Value\<close>, and the accessors its
  policies and projections use. Strings are byte strings (UTF-8): every test the code makes on a
  character is on an ASCII code, and Rust compares strings bytewise. The number type of
  \<^verbatim>\<open>serde_json\<close> is third-party and stays a type parameter \<open>'n\<close>; an object is an association
  list, with distinct keys where that matters (\<open>json_ok\<close>).
\<close>

datatype 'n json =
    JNull
  | JBool bool
  | JNumber 'n
  | JString string
  | JArray "'n json list"
  | JObject "(string \<times> 'n json) list"

fun json_get :: "'n json \<Rightarrow> string \<Rightarrow> 'n json option" where
  "json_get (JObject kvs) key = map_of kvs key"
| "json_get _ key = None"

fun json_as_object :: "'n json \<Rightarrow> (string \<times> 'n json) list option" where
  "json_as_object (JObject kvs) = Some kvs"
| "json_as_object _ = None"

fun json_as_str :: "'n json \<Rightarrow> string option" where
  "json_as_str (JString s) = Some s"
| "json_as_str _ = None"

fun json_as_bool :: "'n json \<Rightarrow> bool option" where
  "json_as_bool (JBool b) = Some b"
| "json_as_bool _ = None"

fun json_is_null :: "'n json \<Rightarrow> bool" where
  "json_is_null JNull = True"
| "json_is_null _ = False"

text \<open>\<^verbatim>\<open>serde_json::Map\<close> holds each key once, at every level.\<close>

fun json_ok :: "'n json \<Rightarrow> bool" where
  "json_ok (JArray vs) = list_all json_ok vs"
| "json_ok (JObject kvs) = (distinct (map fst kvs) \<and> list_all (\<lambda>(k, v). json_ok v) kvs)"
| "json_ok _ = True"

text \<open>\<^verbatim>\<open>args.get("sub").and_then(Value::as_str)\<close>, the subcommand idiom of every handler.\<close>

definition json_get_str :: "'n json \<Rightarrow> string \<Rightarrow> string option" where
  "json_get_str v key = Option.bind (json_get v key) json_as_str"

text \<open>The JSON of an \<^verbatim>\<open>Option<String>\<close> in \<^verbatim>\<open>serde_json::json!\<close>.\<close>

definition json_opt_str :: "string option \<Rightarrow> 'n json" where
  "json_opt_str s = (case s of None \<Rightarrow> JNull | Some t \<Rightarrow> JString t)"

section \<open>Rust string functions\<close>

text \<open>
  \<open>str::trim().is_empty()\<close>: every character has the Unicode property \<open>White_Space\<close>. On UTF-8 these
  are the ASCII spaces, and the two- and three-byte sequences below.
\<close>

definition ascii_whitespace :: "char \<Rightarrow> bool" where
  "ascii_whitespace c = (let b = of_char c :: nat in b = 32 \<or> (9 \<le> b \<and> b \<le> 13))"

definition two_byte_whitespace :: "char \<Rightarrow> char \<Rightarrow> bool" where
  "two_byte_whitespace c d =
     (let b = of_char c :: nat; b' = of_char d :: nat in b = 0xC2 \<and> (b' = 0x85 \<or> b' = 0xA0))"

definition three_byte_whitespace :: "char \<Rightarrow> char \<Rightarrow> char \<Rightarrow> bool" where
  "three_byte_whitespace c d e =
     (let b = of_char c :: nat; b' = of_char d :: nat; b'' = of_char e :: nat in
      (b = 0xE1 \<and> b' = 0x9A \<and> b'' = 0x80)
      \<or> (b = 0xE2 \<and> b' = 0x80 \<and> ((0x80 \<le> b'' \<and> b'' \<le> 0x8A) \<or> b'' \<in> {0xA8, 0xA9, 0xAF}))
      \<or> (b = 0xE2 \<and> b' = 0x81 \<and> b'' = 0x9F)
      \<or> (b = 0xE3 \<and> b' = 0x80 \<and> b'' = 0x80))"

fun trim_is_empty :: "string \<Rightarrow> bool" where
  "trim_is_empty [] = True"
| "trim_is_empty [c] = ascii_whitespace c"
| "trim_is_empty [c, d] =
     ((ascii_whitespace c \<and> ascii_whitespace d) \<or> two_byte_whitespace c d)"
| "trim_is_empty (c # d # e # cs) =
     (if ascii_whitespace c then trim_is_empty (d # e # cs)
      else if two_byte_whitespace c d then trim_is_empty (e # cs)
      else three_byte_whitespace c d e \<and> trim_is_empty cs)"

text \<open>\<^verbatim>\<open>str::contains\<close>, \<^verbatim>\<open>starts_with\<close>, \<^verbatim>\<open>split_once\<close>, the first and the last piece of \<^verbatim>\<open>split\<close>, and the ASCII
  cases.\<close>

fun contains_str :: "string \<Rightarrow> string \<Rightarrow> bool" where
  "contains_str [] needle = (needle = [])"
| "contains_str (c # cs) needle = (take (length needle) (c # cs) = needle \<or> contains_str cs needle)"

definition ascii_uppercase :: "char \<Rightarrow> char" where
  "ascii_uppercase c = (if 97 \<le> (of_char c :: nat) \<and> (of_char c :: nat) \<le> 122
     then char_of ((of_char c :: nat) - 32) else c)"

definition to_ascii_uppercase :: "string \<Rightarrow> string" where
  "to_ascii_uppercase = map ascii_uppercase"

definition eq_ignore_ascii_case :: "string \<Rightarrow> string \<Rightarrow> bool" where
  "eq_ignore_ascii_case a b \<longleftrightarrow> to_ascii_uppercase a = to_ascii_uppercase b"

definition to_ascii_lowercase :: "string \<Rightarrow> string" where
  "to_ascii_lowercase =
     map (\<lambda>c. let n = of_char c :: nat in if 65 \<le> n \<and> n \<le> 90 then char_of (n + 32) else c)"

definition starts_with :: "string \<Rightarrow> string \<Rightarrow> bool" where
  "starts_with text pattern \<longleftrightarrow> take (length pattern) text = pattern"

fun split_once :: "string \<Rightarrow> string \<Rightarrow> (string \<times> string) option" where
  "split_once [] pattern = (if pattern = [] then Some ([], []) else None)"
| "split_once (c # cs) pattern =
     (if starts_with (c # cs) pattern then Some ([], drop (length pattern) (c # cs))
      else map_option (\<lambda>(before, after). (c # before, after)) (split_once cs pattern))"

definition split_first :: "char \<Rightarrow> string \<Rightarrow> string" where
  "split_first separator text = takeWhile (\<lambda>c. c \<noteq> separator) text"

definition split_last :: "char \<Rightarrow> string \<Rightarrow> string" where
  "split_last separator text = rev (takeWhile (\<lambda>c. c \<noteq> separator) (rev text))"

text \<open>The decimal rendering of an unsigned integer, as \<^verbatim>\<open>format!\<close> prints it.\<close>

fun show_nat :: "nat \<Rightarrow> string" where
  "show_nat n = (if n < 10 then [char_of (48 + n)] else show_nat (n div 10) @ [char_of (48 + n mod 10)])"

declare show_nat.simps [simp del]

text \<open>
  The \<open>Debug\<close> rendering of an \<^verbatim>\<open>Option<String>\<close> in error messages; quotes, backslashes and the
  ASCII control characters are escaped, other bytes are printed as they are.
\<close>

definition hex_digit :: "nat \<Rightarrow> char" where
  "hex_digit n = (if n < 10 then char_of (48 + n) else char_of (87 + n))"

definition escape_debug :: "char \<Rightarrow> string" where
  "escape_debug c =
     (let b = of_char c :: nat in
      if b = 0 then [CHR 0x5C, CHR 0x30]
      else if b = 9 then [CHR 0x5C, CHR 0x74]
      else if b = 10 then [CHR 0x5C, CHR 0x6E]
      else if b = 13 then [CHR 0x5C, CHR 0x72]
      else if b = 34 \<or> b = 92 then [CHR 0x5C, c]
      else if b < 16 then [CHR 0x5C] @ ''u{'' @ [hex_digit b] @ ''}''
      else if b < 32 \<or> b = 127 then [CHR 0x5C] @ ''u{'' @ [hex_digit (b div 16), hex_digit (b mod 16)] @ ''}''
      else [c])"

definition debug_opt_str :: "string option \<Rightarrow> string" where
  "debug_opt_str s =
     (case s of
        None \<Rightarrow> ''None''
      | Some t \<Rightarrow> ''Some('' @ [CHR 0x22] @ concat (map escape_debug t) @ [CHR 0x22] @ '')'')"

lemma trim_is_empty_Nil_eq: "\<not> trim_is_empty s \<Longrightarrow> s \<noteq> []"
  by auto

end
