(* ===== verification/Rub_Error.thy ===== *)
theory Rub_Error
  imports Rub_Json
begin

text \<open>
  The error vocabulary of \<^verbatim>\<open>rub-core/src/error.rs\<close>: the codes, their recovery suggestions, the
  envelope that reaches the wire, and the collapse of every internal error into an envelope.
  The text of an I/O or JSON error comes from the libraries that raise it, so those two
  constructors carry the displayed text.
\<close>

datatype error_code =
    NavigationFailed | PageLoadTimeout | CertError | ElementNotFound | ElementNotInteractable |
    InteractionNotConfirmed | StaleSnapshot | StaleIndex | WaitTimeout | TabNotFound |
    InvalidKeyName | InvalidInput | NoMatchingOption | FileNotFound | JsEvalError | JsTimeout |
    DaemonStartFailed | DaemonNotRunning | SessionBusy | IpcTimeout | IpcProtocolError |
    IpcVersionMismatch | IoError | JsonError | InternalError | BrowserNotFound |
    BrowserCrashed | BrowserLaunchFailed | ProfileInUse | CdpConnectionFailed |
    CdpConnectionAmbiguous | CdpConnectionLost | ProfileNotFound | ConflictingConnectOptions |
    StealthPatchFailed | HumanizeTargetNotFound | AutomationPaused

definition all_error_codes :: "error_code list" where
  "all_error_codes = [
     NavigationFailed, PageLoadTimeout, CertError, ElementNotFound, ElementNotInteractable,
     InteractionNotConfirmed, StaleSnapshot, StaleIndex, WaitTimeout, TabNotFound,
     InvalidKeyName, InvalidInput, NoMatchingOption, FileNotFound, JsEvalError, JsTimeout,
     DaemonStartFailed, DaemonNotRunning, SessionBusy, IpcTimeout, IpcProtocolError,
     IpcVersionMismatch, IoError, JsonError, InternalError, BrowserNotFound, BrowserCrashed,
     BrowserLaunchFailed, ProfileInUse, CdpConnectionFailed, CdpConnectionAmbiguous,
     CdpConnectionLost, ProfileNotFound, ConflictingConnectOptions, StealthPatchFailed,
     HumanizeTargetNotFound, AutomationPaused]"

primrec suggestion :: "error_code \<Rightarrow> string" where
  "suggestion NavigationFailed =
     ''Check URL spelling and network connectivity''"
| "suggestion PageLoadTimeout =
     ''Increase timeout with --timeout or use --load-strategy domcontentloaded''"
| "suggestion CertError =
     ''Use --ignore-cert-errors for self-signed certificates''"
| "suggestion ElementNotFound =
     ''Run 'rub state' to refresh element indices (range: 0-N)''"
| "suggestion ElementNotInteractable =
     ''Element may be behind a modal or not visible. Try scrolling or closing overlays''"
| "suggestion InteractionNotConfirmed =
     ''The browser-side effect was not confirmed. Inspect confirmation details before retrying, and add an explicit wait if the effect is expected to land asynchronously''"
| "suggestion StaleSnapshot =
     ''Run 'rub state' to get a fresh snapshot''"
| "suggestion StaleIndex =
     ''Run 'rub state' to get fresh element indices''"
| "suggestion WaitTimeout =
     ''Increase timeout or verify the wait condition exists on the page''"
| "suggestion TabNotFound =
     ''Run 'rub tabs' to list available tab indices''"
| "suggestion InvalidKeyName =
     ''Check key name spelling. For plain text, use 'rub type' instead''"
| "suggestion InvalidInput =
     ''Check the command arguments and locator shape''"
| "suggestion NoMatchingOption =
     ''Check the option text or value. Run 'rub get html --selector select' to see available options''"
| "suggestion FileNotFound =
     ''Check the file path and ensure it exists''"
| "suggestion JsEvalError =
     ''Check your JavaScript syntax''"
| "suggestion JsTimeout =
     ''Script took too long. Simplify or increase timeout''"
| "suggestion DaemonStartFailed =
     ''Check permissions on ~/.rub/ and available ports''"
| "suggestion DaemonNotRunning =
     ''Try 'rub close' then retry, or check 'rub doctor'' @ [CHR 0x27]"
| "suggestion SessionBusy =
     ''Session is restarting. Wait a moment and retry.''"
| "suggestion IpcTimeout =
     ''This session runs one command at a time. Wait for the earlier command to finish, use a separate RUB_HOME for parallel work, or increase --timeout''"
| "suggestion IpcProtocolError =
     ''Internal error. Please report with 'rub doctor' output''"
| "suggestion IpcVersionMismatch =
     ''CLI will auto-upgrade daemon. If this persists, reinstall rub.''"
| "suggestion IoError =
     ''Check filesystem paths, permissions, and local socket availability''"
| "suggestion JsonError =
     ''Check JSON structure and field types''"
| "suggestion InternalError =
     ''Internal error. Please report with 'rub doctor' output''"
| "suggestion BrowserNotFound =
     ''Install Chrome, Chromium, or Edge. Run 'rub doctor' to verify''"
| "suggestion BrowserCrashed =
     ''Browser crashed. Next command will auto-restart it''"
| "suggestion BrowserLaunchFailed =
     ''Check 'rub doctor'. May need --no-sandbox on Linux, or check GPU drivers''"
| "suggestion ProfileInUse =
     ''Another session is using this profile. Use '--session <name>' to target it, or choose a different '--user-data-dir'' @ [CHR 0x27]"
| "suggestion CdpConnectionFailed =
     ''Check the URL and ensure Chrome is running with --remote-debugging-port''"
| "suggestion CdpConnectionAmbiguous =
     ''Multiple CDP endpoints found. Use --cdp-url with a specific URL instead of --connect''"
| "suggestion CdpConnectionLost =
     ''External browser disconnected. Reconnect with --cdp-url or --connect''"
| "suggestion ProfileNotFound =
     ''Profile not found. Run 'rub doctor' to see available profiles, or use --user-data-dir''"
| "suggestion ConflictingConnectOptions =
     ''Use only one of --cdp-url, --connect, or --profile per command''"
| "suggestion StealthPatchFailed =
     ''Stealth patch injection failed. Try --no-stealth to diagnose''"
| "suggestion HumanizeTargetNotFound =
     ''Target element not found for humanized interaction. Falling back to direct action''"
| "suggestion AutomationPaused =
     ''Automation is paused for human verification. Complete the handoff or resume the session first''"

record 'n error_envelope =
  ee_code :: error_code
  ee_message :: string
  ee_suggestion :: string
  ee_context :: "'n json option"

definition error_envelope_new :: "error_code \<Rightarrow> string \<Rightarrow> 'n error_envelope" where
  "error_envelope_new code message =
     \<lparr>ee_code = code, ee_message = message, ee_suggestion = suggestion code, ee_context = None\<rparr>"

definition with_context :: "'n error_envelope \<Rightarrow> 'n json \<Rightarrow> 'n error_envelope" where
  "with_context e ctx = e\<lparr>ee_context := Some ctx\<rparr>"

definition with_suggestion :: "'n error_envelope \<Rightarrow> string \<Rightarrow> 'n error_envelope" where
  "with_suggestion e s = e\<lparr>ee_suggestion := s\<rparr>"

datatype 'n rub_error =
    RubDomain "'n error_envelope"
  | RubIo string
  | RubJson string
  | RubInternal string

definition rub_domain :: "error_code \<Rightarrow> string \<Rightarrow> 'n rub_error" where
  "rub_domain code message = RubDomain (error_envelope_new code message)"

definition rub_domain_with_context :: "error_code \<Rightarrow> string \<Rightarrow> 'n json \<Rightarrow> 'n rub_error" where
  "rub_domain_with_context code message ctx =
     RubDomain (with_context (error_envelope_new code message) ctx)"

definition rub_domain_with_context_and_suggestion ::
  "error_code \<Rightarrow> string \<Rightarrow> 'n json \<Rightarrow> string \<Rightarrow> 'n rub_error" where
  "rub_domain_with_context_and_suggestion code message ctx s =
     RubDomain (with_suggestion (with_context (error_envelope_new code message) ctx) s)"

primrec into_envelope :: "'n rub_error \<Rightarrow> 'n error_envelope" where
  "into_envelope (RubDomain e) = e"
| "into_envelope (RubIo text) = error_envelope_new IoError text"
| "into_envelope (RubJson text) = error_envelope_new JsonError text"
| "into_envelope (RubInternal msg) = error_envelope_new InternalError msg"

lemma error_envelope_new_simps [simp]:
  "ee_code (error_envelope_new code message) = code"
  "ee_message (error_envelope_new code message) = message"
  "ee_suggestion (error_envelope_new code message) = suggestion code"
  "ee_context (error_envelope_new code message) = None"
  by (simp_all add: error_envelope_new_def)

lemma with_context_simps [simp]:
  "ee_code (with_context e ctx) = ee_code e"
  "ee_message (with_context e ctx) = ee_message e"
  "ee_suggestion (with_context e ctx) = ee_suggestion e"
  "ee_context (with_context e ctx) = Some ctx"
  "ee_code (with_suggestion e s) = ee_code e"
  "ee_message (with_suggestion e s) = ee_message e"
  "ee_suggestion (with_suggestion e s) = s"
  "ee_context (with_suggestion e s) = ee_context e"
  by (simp_all add: with_context_def with_suggestion_def)

lemma suggestion_nonempty: "suggestion code \<noteq> []"
  by (cases code) simp_all

lemma set_all_error_codes: "set all_error_codes = UNIV"
proof -
  have "code \<in> set all_error_codes" for code
    by (cases code) (simp_all add: all_error_codes_def)
  then show ?thesis by auto
qed

end
