(* ===== verification/Rub_Automation.thy ===== *)
theory Rub_Automation
  imports Rub_Error Rub_Interfaces
begin

text \<open>
  The data of the automation surfaces (\<^verbatim>\<open>rub-core/src/model/automation.rs\<close>,
  \<^verbatim>\<open>rub-core/src/locator.rs\<close>, the tab record of \<^verbatim>\<open>model/interaction.rs\<close> and the network baseline
  of \<^verbatim>\<open>session.rs\<close>): the vocabulary the trigger registry and the orchestration registry share,
  then the records of each. Field prefixes keep the source's field names apart.
\<close>

section \<open>Shared vocabulary\<close>

datatype locator_selection = First | Last | Nth u32

datatype canonical_locator =
    IndexLocator u32
  | RefLocator string
  | SelectorLocator string "locator_selection option"
  | TargetTextLocator string "locator_selection option"
  | RoleLocator string "locator_selection option"
  | LabelLocator string "locator_selection option"
  | TestIdLocator string "locator_selection option"

datatype storage_area = LocalStorage | SessionStorage

datatype trigger_condition_kind =
    TextPresent | LocatorPresent | UrlMatch | Readiness | NetworkRequest | StorageValue

datatype trigger_action_kind = BrowserCommand | WorkflowAction | Provider | Script | Webhook

record trigger_condition_spec =
  tcs_kind :: trigger_condition_kind
  tcs_locator :: "canonical_locator option"
  tcs_text :: "string option"
  tcs_url_pattern :: "string option"
  tcs_readiness_state :: "string option"
  tcs_method :: "string option"
  tcs_status_code :: "u16 option"
  tcs_storage_area :: "storage_area option"
  tcs_key :: "string option"
  tcs_value :: "string option"

record 'n trigger_action_spec =
  tas_kind :: trigger_action_kind
  tas_command :: "string option"
  tas_payload :: "'n json option"

record trigger_evidence_info =
  tev_summary :: string
  tev_fingerprint :: "string option"

record path_reference_state =
  prs_truth_level :: string
  prs_path_authority :: string
  prs_upstream_truth :: string
  prs_path_kind :: string
  prs_control_role :: string

record automation_action_info =
  aai_kind :: trigger_action_kind
  aai_command :: "string option"
  aai_workflow_name :: "string option"
  aai_workflow_path :: "string option"
  aai_workflow_path_state :: "path_reference_state option"
  aai_inline_step_count :: "u32 option"
  aai_vars :: "string list"
  aai_source_vars :: "string list"

record network_request_baseline =
  nrb_cursor :: u64
  nrb_observed_ingress_drop_count :: u64
  nrb_primed :: bool

section \<open>Triggers\<close>

datatype trigger_runtime_status =
  TriggerRuntimeInactive | TriggerRuntimeActive | TriggerRuntimeDegraded

datatype trigger_status =
    TriggerArmed | TriggerPaused | TriggerFired | TriggerBlocked | TriggerDegraded | TriggerExpired

datatype trigger_mode = TriggerOnce

datatype trigger_event_kind =
    TriggerEventRegistered | TriggerEventPaused | TriggerEventResumed | TriggerEventRemoved
  | TriggerEventFired | TriggerEventBlocked | TriggerEventDegraded | TriggerEventUnavailable
  | TriggerEventRecovered

record trigger_tab_binding_info =
  ttb_index :: u32
  ttb_target_id :: string
  ttb_frame_id :: "string option"
  ttb_url :: string
  ttb_title :: string

record 'n trigger_result_info =
  tri_trigger_id :: u32
  tri_status :: trigger_status
  tri_next_status :: trigger_status
  tri_summary :: string
  tri_command_id :: "string option"
  tri_action :: "automation_action_info option"
  tri_result :: "'n json option"
  tri_error_code :: "error_code option"
  tri_reason :: "string option"
  tri_error_context :: "'n json option"
  tri_consumed_evidence_fingerprint :: "string option"

record 'n trigger_event_info =
  te_sequence :: u64
  te_kind :: trigger_event_kind
  te_trigger_id :: "u32 option"
  te_summary :: string
  te_unavailable_reason :: "string option"
  te_evidence :: "trigger_evidence_info option"
  te_result :: "'n trigger_result_info option"

record 'n trigger_info =
  tg_id :: u32
  tg_status :: trigger_status
  tg_lifecycle_generation :: u64
  tg_mode :: trigger_mode
  tg_source_tab :: trigger_tab_binding_info
  tg_target_tab :: trigger_tab_binding_info
  tg_condition :: trigger_condition_spec
  tg_action :: "'n trigger_action_spec"
  tg_last_condition_evidence :: "trigger_evidence_info option"
  tg_consumed_evidence_fingerprint :: "string option"
  tg_last_action_result :: "'n trigger_result_info option"
  tg_unavailable_reason :: "string option"

record 'n trigger_runtime_info =
  tr_status :: trigger_runtime_status
  tr_triggers :: "'n trigger_info list"
  tr_active_count :: nat
  tr_degraded_count :: nat
  tr_last_trigger_id :: "u32 option"
  tr_last_trigger_result :: "'n trigger_result_info option"
  tr_degraded_reason :: "string option"

datatype tab_active_authority = BrowserTruth | LocalFallback

record tab_info =
  tab_index :: u32
  tab_target_id :: string
  tab_url :: string
  tab_title :: string
  tab_active :: bool
  tab_active_authority :: "tab_active_authority option"
  tab_degraded_reason :: "string option"

definition page_identity_authoritative :: "tab_info \<Rightarrow> bool" where
  "page_identity_authoritative tab \<longleftrightarrow> tab_degraded_reason tab = None"

section \<open>Orchestration rules\<close>

datatype orchestration_runtime_status =
  OrchestrationInactive | OrchestrationActive | OrchestrationDegraded

datatype orchestration_rule_status =
    RuleArmed | RulePaused | RuleFired | RuleBlocked | RuleDegraded | RuleExpired

datatype orchestration_mode = OrchestrationOnce | OrchestrationRepeat

record orchestration_execution_policy_info =
  oep_cooldown_ms :: u64
  oep_max_retries :: u32
  oep_cooldown_until_ms :: "u64 option"

record orchestration_address_info =
  oad_session_id :: string
  oad_session_name :: string
  oad_tab_index :: "u32 option"
  oad_tab_target_id :: "string option"
  oad_frame_id :: "string option"

datatype orchestration_step_status = StepCommitted | StepBlocked | StepDegraded | StepSkipped

record 'n orchestration_step_result_info =
  osr_step_index :: u32
  osr_status :: orchestration_step_status
  osr_summary :: string
  osr_attempts :: u32
  osr_action :: "automation_action_info option"
  osr_result :: "'n json option"
  osr_error_code :: "error_code option"
  osr_reason :: "string option"
  osr_error_context :: "'n json option"

record 'n orchestration_result_info =
  ore_rule_id :: u32
  ore_status :: orchestration_rule_status
  ore_next_status :: orchestration_rule_status
  ore_summary :: string
  ore_committed_steps :: u32
  ore_total_steps :: u32
  ore_steps :: "'n orchestration_step_result_info list"
  ore_cooldown_until_ms :: "u64 option"
  ore_error_code :: "error_code option"
  ore_reason :: "string option"
  ore_error_context :: "'n json option"

record 'n orchestration_rule_info =
  oru_id :: u32
  oru_status :: orchestration_rule_status
  oru_lifecycle_generation :: u64
  oru_source :: orchestration_address_info
  oru_target :: orchestration_address_info
  oru_mode :: orchestration_mode
  oru_execution_policy :: orchestration_execution_policy_info
  oru_condition :: trigger_condition_spec
  oru_actions :: "'n trigger_action_spec list"
  oru_correlation_key :: string
  oru_idempotency_key :: string
  oru_unavailable_reason :: "string option"
  oru_last_condition_evidence :: "trigger_evidence_info option"
  oru_last_result :: "'n orchestration_result_info option"

record orchestration_group_info =
  ogr_correlation_key :: string
  ogr_rule_ids :: "u32 list"
  ogr_active_rule_count :: nat
  ogr_cooldown_rule_count :: nat
  ogr_paused_rule_count :: nat
  ogr_unavailable_rule_count :: nat

datatype orchestration_event_kind =
    RuleEventRegistered | RuleEventPaused | RuleEventResumed | RuleEventRemoved | RuleEventFired
  | RuleEventBlocked | RuleEventDegraded | RuleEventUnavailable | RuleEventRecovered

record 'n orchestration_event_info =
  oe_sequence :: u64
  oe_kind :: orchestration_event_kind
  oe_rule_id :: "u32 option"
  oe_summary :: string
  oe_unavailable_reason :: "string option"
  oe_evidence :: "trigger_evidence_info option"
  oe_correlation_key :: "string option"
  oe_idempotency_key :: "string option"
  oe_error_code :: "error_code option"
  oe_reason :: "string option"
  oe_error_context :: "'n json option"
  oe_committed_steps :: "u32 option"
  oe_total_steps :: "u32 option"

datatype orchestration_session_availability =
    Addressable | BusyOrUnknown | ProtocolIncompatible | HardCutReleasePending | PendingStartup
  | CurrentFallback

record orchestration_session_info =
  ose_session_id :: string
  ose_session_name :: string
  ose_pid :: u32
  ose_socket_path :: string
  ose_socket_path_state :: "path_reference_state option"
  ose_current :: bool
  ose_ipc_protocol_version :: string
  ose_availability :: orchestration_session_availability
  ose_addressing_supported :: bool
  ose_user_data_dir :: "string option"
  ose_user_data_dir_state :: "path_reference_state option"

record 'n orchestration_runtime_info =
  or_status :: orchestration_runtime_status
  or_known_sessions :: "orchestration_session_info list"
  or_rules :: "'n orchestration_rule_info list"
  or_groups :: "orchestration_group_info list"
  or_session_count :: nat
  or_group_count :: nat
  or_active_rule_count :: nat
  or_cooldown_rule_count :: nat
  or_paused_rule_count :: nat
  or_unavailable_rule_count :: nat
  or_addressing_supported :: bool
  or_execution_supported :: bool
  or_current_session_id :: "string option"
  or_current_session_name :: "string option"
  or_last_rule_id :: "u32 option"
  or_last_rule_result :: "'n orchestration_result_info option"
  or_degraded_reason :: "string option"

definition orchestration_runtime_info_default :: "'n orchestration_runtime_info" where
  "orchestration_runtime_info_default =
     \<lparr>or_status = OrchestrationInactive, or_known_sessions = [], or_rules = [], or_groups = [],
      or_session_count = 0, or_group_count = 0, or_active_rule_count = 0,
      or_cooldown_rule_count = 0, or_paused_rule_count = 0, or_unavailable_rule_count = 0,
      or_addressing_supported = False, or_execution_supported = False,
      or_current_session_id = None, or_current_session_name = None, or_last_rule_id = None,
      or_last_rule_result = None, or_degraded_reason = None\<rparr>"

end
