(* ===== verification/Rub_Trigger.thy ===== *)
theory Rub_Trigger
  imports Rub_Automation
begin

text \<open>
  The session's trigger registry (\<^verbatim>\<open>rub-daemon/src/trigger.rs\<close> and \<^verbatim>\<open>trigger/{mutation,events,
  projection}.rs\<close>). Every operation of \<^verbatim>\<open>TriggerRuntimeState\<close> is a function of the state that
  returns the code's result and the next state; operations that only change the state return the
  state. An \<^verbatim>\<open>iter_mut().find\<close> with writes through the reference is \<open>update_first\<close>, the
  \<^verbatim>\<open>clone\<close> handed on is the entry found after the writes.
\<close>

section \<open>State\<close>

definition TRIGGER_EVENT_LIMIT :: nat where
  "TRIGGER_EVENT_LIMIT = 64"

datatype 'n trigger_outcome_commit =
    TriggerApplied "'n trigger_info option"
  | TriggerStale "'n trigger_info option"

record 'n trigger_runtime_state =
  trs_projection :: "'n trigger_runtime_info"
  trs_network_request_baselines :: "(u32, network_request_baseline) mapping"
  trs_next_event_sequence :: u64
  trs_recent_events :: "'n trigger_event_info list"

definition trigger_runtime_default :: "'n trigger_runtime_state" where
  "trigger_runtime_default =
     \<lparr>trs_projection =
        \<lparr>tr_status = TriggerRuntimeInactive, tr_triggers = [], tr_active_count = 0,
         tr_degraded_count = 0, tr_last_trigger_id = None, tr_last_trigger_result = None,
         tr_degraded_reason = None\<rparr>,
      trs_network_request_baselines = Mapping.empty, trs_next_event_sequence = 0,
      trs_recent_events = []\<rparr>"

abbreviation triggers_of :: "'n trigger_runtime_state \<Rightarrow> 'n trigger_info list" where
  "triggers_of s \<equiv> tr_triggers (trs_projection s)"

definition set_triggers :: "'n trigger_info list \<Rightarrow> 'n trigger_runtime_state \<Rightarrow> 'n trigger_runtime_state" where
  "set_triggers ts s = s\<lparr>trs_projection := (trs_projection s)\<lparr>tr_triggers := ts\<rparr>\<rparr>"

definition find_trigger :: "u32 \<Rightarrow> 'n trigger_runtime_state \<Rightarrow> 'n trigger_info option" where
  "find_trigger tid s = List.find (\<lambda>t. tg_id t = tid) (triggers_of s)"

text \<open>\<^verbatim>\<open>trace\<close>: the last events, oldest first.\<close>

definition trigger_trace :: "nat \<Rightarrow> 'n trigger_runtime_state \<Rightarrow> 'n trigger_event_info list" where
  "trigger_trace last_n s = take_last last_n (trs_recent_events s)"

section \<open>Events\<close>

fun event_kind_for_result_status :: "trigger_status \<Rightarrow> trigger_event_kind" where
  "event_kind_for_result_status TriggerFired = TriggerEventFired"
| "event_kind_for_result_status TriggerBlocked = TriggerEventBlocked"
| "event_kind_for_result_status TriggerDegraded = TriggerEventDegraded"
| "event_kind_for_result_status TriggerArmed = TriggerEventResumed"
| "event_kind_for_result_status TriggerPaused = TriggerEventPaused"
| "event_kind_for_result_status TriggerExpired = TriggerEventDegraded"

definition trigger_push_event ::
  "'n trigger_event_info \<Rightarrow> 'n trigger_runtime_state \<Rightarrow> 'n trigger_runtime_state" where
  "trigger_push_event event s =
     (let sequence = max (trs_next_event_sequence s) 1 in
      s\<lparr>trs_next_event_sequence := sequence + 1,
        trs_recent_events := pop_front_to TRIGGER_EVENT_LIMIT
          (trs_recent_events s @ [event\<lparr>te_sequence := sequence\<rparr>])\<rparr>)"

definition trigger_event ::
  "trigger_event_kind \<Rightarrow> u32 \<Rightarrow> string \<Rightarrow> string option \<Rightarrow> trigger_evidence_info option
   \<Rightarrow> 'n trigger_result_info option \<Rightarrow> 'n trigger_event_info" where
  "trigger_event kind tid summary unavailable evidence result =
     \<lparr>te_sequence = 0, te_kind = kind, te_trigger_id = Some tid, te_summary = summary,
      te_unavailable_reason = unavailable, te_evidence = evidence, te_result = result\<rparr>"

section \<open>Projection\<close>

definition trigger_is_active :: "'n trigger_info \<Rightarrow> bool" where
  "trigger_is_active t \<longleftrightarrow> tg_status t = TriggerArmed \<and> tg_unavailable_reason t = None"

definition trigger_is_degraded :: "'n trigger_info \<Rightarrow> bool" where
  "trigger_is_degraded t \<longleftrightarrow>
     tg_status t = TriggerDegraded
     \<or> (case tg_last_action_result t of
          None \<Rightarrow> False
        | Some r \<Rightarrow> tri_status r = TriggerBlocked \<or> tri_status r = TriggerDegraded)
     \<or> tg_unavailable_reason t \<noteq> None"

definition trigger_refresh_status :: "'n trigger_runtime_state \<Rightarrow> 'n trigger_runtime_state" where
  "trigger_refresh_status s =
     (let p = trs_projection s;
          active = length (filter trigger_is_active (tr_triggers p));
          degraded = length (filter trigger_is_degraded (tr_triggers p))
      in s\<lparr>trs_projection := p\<lparr>
            tr_active_count := active,
            tr_degraded_count := degraded,
            tr_status :=
              (if tr_degraded_reason p \<noteq> None \<or> degraded > 0 then TriggerRuntimeDegraded
               else if tr_triggers p = [] then TriggerRuntimeInactive
               else TriggerRuntimeActive)\<rparr>\<rparr>)"

definition sync_binding :: "tab_info \<Rightarrow> trigger_tab_binding_info \<Rightarrow> trigger_tab_binding_info" where
  "sync_binding tab binding =
     (let binding = binding\<lparr>ttb_index := tab_index tab\<rparr> in
      if page_identity_authoritative tab
      then binding\<lparr>ttb_url := tab_url tab, ttb_title := tab_title tab\<rparr>
      else binding)"

datatype trigger_tab_authority = TabAvailable | TabMissing | PageIdentityDegraded string

definition trigger_tab_authority_of :: "tab_info option \<Rightarrow> trigger_tab_authority" where
  "trigger_tab_authority_of tab =
     (case tab of
        None \<Rightarrow> TabMissing
      | Some t \<Rightarrow> (case tab_degraded_reason t of
                    Some reason \<Rightarrow> PageIdentityDegraded reason
                  | None \<Rightarrow> TabAvailable))"

fun trigger_unavailable_reason ::
  "trigger_tab_authority \<Rightarrow> trigger_tab_authority \<Rightarrow> string option" where
  "trigger_unavailable_reason TabAvailable TabAvailable = None"
| "trigger_unavailable_reason TabMissing TabMissing = Some ''source_and_target_tabs_missing''"
| "trigger_unavailable_reason TabMissing TabAvailable = Some ''source_tab_missing''"
| "trigger_unavailable_reason TabAvailable TabMissing = Some ''target_tab_missing''"
| "trigger_unavailable_reason (PageIdentityDegraded _) TabAvailable =
     Some ''source_tab_projection_degraded''"
| "trigger_unavailable_reason TabAvailable (PageIdentityDegraded _) =
     Some ''target_tab_projection_degraded''"
| "trigger_unavailable_reason (PageIdentityDegraded _) (PageIdentityDegraded _) =
     Some ''source_and_target_tabs_projection_degraded''"
| "trigger_unavailable_reason TabMissing (PageIdentityDegraded _) =
     Some ''source_tab_missing_and_target_projection_degraded''"
| "trigger_unavailable_reason (PageIdentityDegraded _) TabMissing =
     Some ''source_tab_projection_degraded_and_target_missing''"

definition find_tab :: "string \<Rightarrow> tab_info list \<Rightarrow> tab_info option" where
  "find_tab target tabs = List.find (\<lambda>tab. tab_target_id tab = target) tabs"

text \<open>One turn of the loop of \<^verbatim>\<open>reconcile_tabs_projection\<close>: the trigger written back, and the
  event it makes pending.\<close>

definition reconcile_trigger :: "tab_info list \<Rightarrow> 'n trigger_info \<Rightarrow> 'n trigger_info" where
  "reconcile_trigger tabs t =
     (let source = find_tab (ttb_target_id (tg_source_tab t)) tabs;
          target = find_tab (ttb_target_id (tg_target_tab t)) tabs
      in t\<lparr>tg_source_tab := (case source of None \<Rightarrow> tg_source_tab t
                                         | Some tab \<Rightarrow> sync_binding tab (tg_source_tab t)),
           tg_target_tab := (case target of None \<Rightarrow> tg_target_tab t
                                         | Some tab \<Rightarrow> sync_binding tab (tg_target_tab t)),
           tg_unavailable_reason := trigger_unavailable_reason
             (trigger_tab_authority_of source) (trigger_tab_authority_of target)\<rparr>)"

definition reconcile_event ::
  "'n trigger_info \<Rightarrow> 'n trigger_info \<Rightarrow> 'n trigger_event_info list" where
  "reconcile_event previous t =
     (if tg_unavailable_reason previous \<noteq> tg_unavailable_reason t then
        (case (tg_unavailable_reason previous, tg_unavailable_reason t) of
           (_, Some reason) \<Rightarrow>
             [trigger_event TriggerEventUnavailable (tg_id t)
                (''trigger '' @ show_nat (unat (tg_id t)) @ '' became unavailable: '' @ reason)
                (Some reason) (tg_last_condition_evidence t) (tg_last_action_result t)]
         | (Some _, None) \<Rightarrow>
             [trigger_event TriggerEventRecovered (tg_id t)
                (''trigger '' @ show_nat (unat (tg_id t)) @ '' recovered target/source availability'')
                None (tg_last_condition_evidence t) (tg_last_action_result t)]
         | (None, None) \<Rightarrow> [])
      else [])"

definition reconcile_tabs_projection ::
  "tab_info list \<Rightarrow> 'n trigger_runtime_state \<Rightarrow> 'n trigger_runtime_state" where
  "reconcile_tabs_projection tabs s =
     (let pending_events =
            concat (map (\<lambda>t. reconcile_event t (reconcile_trigger tabs t)) (triggers_of s));
          s = set_triggers (map (reconcile_trigger tabs) (triggers_of s)) s;
          s = fold trigger_push_event pending_events s
      in trigger_refresh_status s)"

section \<open>Mutation\<close>

definition network_armed :: "'n trigger_info \<Rightarrow> bool" where
  "network_armed t \<longleftrightarrow> tg_status t = TriggerArmed \<and> tcs_kind (tg_condition t) = NetworkRequest"

definition trigger_commit_network_request_baseline ::
  "'n trigger_info \<Rightarrow> network_request_baseline option \<Rightarrow> 'n trigger_runtime_state
   \<Rightarrow> 'n trigger_runtime_state" where
  "trigger_commit_network_request_baseline trigger network_baseline s =
     (if network_armed trigger then
        (case network_baseline of
           Some b \<Rightarrow> s\<lparr>trs_network_request_baselines :=
                       Mapping.update (tg_id trigger) b (trs_network_request_baselines s)\<rparr>
         | None \<Rightarrow> s)
      else s\<lparr>trs_network_request_baselines :=
               Mapping.delete (tg_id trigger) (trs_network_request_baselines s)\<rparr>)"

definition trigger_retain_network_request_baselines ::
  "'n trigger_runtime_state \<Rightarrow> 'n trigger_runtime_state" where
  "trigger_retain_network_request_baselines s =
     s\<lparr>trs_network_request_baselines :=
        Mapping.filter (\<lambda>tid _. list_ex (\<lambda>t. tg_id t = tid \<and> network_armed t) (triggers_of s))
          (trs_network_request_baselines s)\<rparr>"

definition trigger_replace ::
  "'n trigger_info list \<Rightarrow> 'n trigger_runtime_state \<Rightarrow> 'n trigger_runtime_state" where
  "trigger_replace ts s =
     (let s = set_triggers
            (map (\<lambda>t. t\<lparr>tg_lifecycle_generation := max (tg_lifecycle_generation t) 1\<rparr>) ts) s;
          s = trigger_retain_network_request_baselines s
      in trigger_refresh_status s)"

definition trigger_register_with_network_baseline ::
  "'n trigger_info \<Rightarrow> network_request_baseline option \<Rightarrow> 'n trigger_runtime_state
   \<Rightarrow> 'n trigger_info \<times> 'n trigger_runtime_state" where
  "trigger_register_with_network_baseline trigger network_baseline s =
     (let trigger = trigger\<lparr>tg_lifecycle_generation := max (tg_lifecycle_generation trigger) 1\<rparr>;
          s = set_triggers (triggers_of s @ [trigger]) s;
          s = trigger_commit_network_request_baseline trigger network_baseline s;
          s = trigger_push_event
                (trigger_event TriggerEventRegistered (tg_id trigger)
                   (''trigger '' @ show_nat (unat (tg_id trigger)) @ '' registered'')
                   None None None) s
      in (trigger, trigger_refresh_status s))"

definition trigger_register ::
  "'n trigger_info \<Rightarrow> 'n trigger_runtime_state \<Rightarrow> 'n trigger_info \<times> 'n trigger_runtime_state" where
  "trigger_register trigger s = trigger_register_with_network_baseline trigger None s"

definition trigger_status_event_kind :: "trigger_status \<Rightarrow> trigger_event_kind option" where
  "trigger_status_event_kind status =
     (case status of
        TriggerPaused \<Rightarrow> Some TriggerEventPaused
      | TriggerArmed \<Rightarrow> Some TriggerEventResumed
      | _ \<Rightarrow> None)"

definition trigger_event_verb :: "trigger_event_kind \<Rightarrow> string" where
  "trigger_event_verb kind =
     (case kind of
        TriggerEventPaused \<Rightarrow> ''paused''
      | TriggerEventResumed \<Rightarrow> ''resumed''
      | _ \<Rightarrow> ''updated'')"

text \<open>The writes of \<^verbatim>\<open>update_status\<close>, \<^verbatim>\<open>set_condition_evidence\<close>, \<^verbatim>\<open>record_outcome\<close> and of the
  stale branch of \<^verbatim>\<open>record_outcome_with_fallback\<close> to the entry they found.\<close>

definition write_status :: "trigger_status \<Rightarrow> 'n trigger_info \<Rightarrow> 'n trigger_info" where
  "write_status status t = t\<lparr>tg_status := status,
     tg_lifecycle_generation := saturating_add (tg_lifecycle_generation t) 1\<rparr>"

definition write_evidence :: "trigger_evidence_info option \<Rightarrow> 'n trigger_info \<Rightarrow> 'n trigger_info" where
  "write_evidence evidence t =
     (let t = t\<lparr>tg_last_condition_evidence := evidence\<rparr> in
      if tg_last_condition_evidence t = None
      then t\<lparr>tg_consumed_evidence_fingerprint := None\<rparr> else t)"

definition write_outcome ::
  "trigger_evidence_info option \<Rightarrow> 'n trigger_result_info \<Rightarrow> 'n trigger_info \<Rightarrow> 'n trigger_info" where
  "write_outcome evidence result t = t\<lparr>tg_status := tri_next_status result,
     tg_lifecycle_generation := saturating_add (tg_lifecycle_generation t) 1,
     tg_last_condition_evidence := evidence,
     tg_consumed_evidence_fingerprint := tri_consumed_evidence_fingerprint result,
     tg_last_action_result := Some result\<rparr>"

definition write_stale_outcome ::
  "trigger_evidence_info option \<Rightarrow> 'n trigger_result_info \<Rightarrow> 'n trigger_info \<Rightarrow> 'n trigger_info" where
  "write_stale_outcome evidence result t = t\<lparr>tg_last_condition_evidence := evidence,
     tg_last_action_result := Some result\<rparr>"

definition trigger_update_status_with_baseline ::
  "u32 \<Rightarrow> trigger_status \<Rightarrow> network_request_baseline option \<Rightarrow> 'n trigger_runtime_state
   \<Rightarrow> 'n trigger_info option \<times> 'n trigger_runtime_state" where
  "trigger_update_status_with_baseline tid status network_baseline s =
     (case find_trigger tid s of
        None \<Rightarrow> (None, s)
      | Some found \<Rightarrow>
          let trigger = write_status status found;
              s = set_triggers
                    (update_first (\<lambda>t. tg_id t = tid) (write_status status) (triggers_of s)) s;
              s = trigger_commit_network_request_baseline trigger network_baseline s;
              s = (case trigger_status_event_kind status of
                     None \<Rightarrow> s
                   | Some kind \<Rightarrow>
                       trigger_push_event
                         (trigger_event kind (tg_id trigger)
                            (''trigger '' @ show_nat (unat (tg_id trigger)) @ '' ''
                              @ trigger_event_verb kind)
                            (tg_unavailable_reason trigger) (tg_last_condition_evidence trigger)
                            (tg_last_action_result trigger)) s)
          in (Some trigger, trigger_refresh_status s))"

definition trigger_update_status ::
  "u32 \<Rightarrow> trigger_status \<Rightarrow> 'n trigger_runtime_state
   \<Rightarrow> 'n trigger_info option \<times> 'n trigger_runtime_state" where
  "trigger_update_status tid status s =
     trigger_update_status_with_baseline tid status
       (Mapping.lookup (trs_network_request_baselines s) tid) s"

definition trigger_update_status_with_network_baseline ::
  "u32 \<Rightarrow> trigger_status \<Rightarrow> network_request_baseline option \<Rightarrow> 'n trigger_runtime_state
   \<Rightarrow> 'n trigger_info option \<times> 'n trigger_runtime_state" where
  "trigger_update_status_with_network_baseline tid status network_baseline s =
     trigger_update_status_with_baseline tid status network_baseline s"

definition trigger_ensure_network_request_baseline ::
  "u32 \<Rightarrow> network_request_baseline \<Rightarrow> 'n trigger_runtime_state
   \<Rightarrow> 'n trigger_info option \<times> 'n trigger_runtime_state" where
  "trigger_ensure_network_request_baseline tid network_baseline s =
     (case find_trigger tid s of
        None \<Rightarrow> (None, s)
      | Some trigger \<Rightarrow>
          (Some trigger,
           if network_armed trigger then
             s\<lparr>trs_network_request_baselines :=
                 (case Mapping.lookup (trs_network_request_baselines s) (tg_id trigger) of
                    Some _ \<Rightarrow> trs_network_request_baselines s
                  | None \<Rightarrow> Mapping.update (tg_id trigger) network_baseline
                              (trs_network_request_baselines s))\<rparr>
           else s))"

definition trigger_set_condition_evidence ::
  "u32 \<Rightarrow> u64 \<Rightarrow> trigger_evidence_info option \<Rightarrow> 'n trigger_runtime_state
   \<Rightarrow> 'n trigger_info option \<times> 'n trigger_runtime_state" where
  "trigger_set_condition_evidence tid expected_generation evidence s =
     (case find_trigger tid s of
        None \<Rightarrow> (None, s)
      | Some found \<Rightarrow>
          if tg_lifecycle_generation found \<noteq> expected_generation then (None, s)
          else
            let s = set_triggers
                      (update_first (\<lambda>t. tg_id t = tid) (write_evidence evidence)
                        (triggers_of s)) s
            in (Some (write_evidence evidence found), trigger_refresh_status s))"

definition trigger_set_last_result ::
  "'n trigger_result_info \<Rightarrow> 'n trigger_runtime_state \<Rightarrow> 'n trigger_runtime_state" where
  "trigger_set_last_result result s =
     s\<lparr>trs_projection := (trs_projection s)\<lparr>tr_last_trigger_id := Some (tri_trigger_id result),
        tr_last_trigger_result := Some result\<rparr>\<rparr>"

definition trigger_status_lower :: "trigger_status \<Rightarrow> string" where
  "trigger_status_lower status =
     (case status of
        TriggerArmed \<Rightarrow> ''armed'' | TriggerPaused \<Rightarrow> ''paused'' | TriggerFired \<Rightarrow> ''fired''
      | TriggerBlocked \<Rightarrow> ''blocked'' | TriggerDegraded \<Rightarrow> ''degraded''
      | TriggerExpired \<Rightarrow> ''expired'')"

definition trigger_record_outcome ::
  "u32 \<Rightarrow> u64 \<Rightarrow> trigger_evidence_info option \<Rightarrow> 'n trigger_result_info
   \<Rightarrow> 'n trigger_runtime_state \<Rightarrow> 'n trigger_info option \<times> 'n trigger_runtime_state" where
  "trigger_record_outcome tid expected_generation evidence result s =
     (case find_trigger tid s of
        None \<Rightarrow> (None, s)
      | Some found \<Rightarrow>
          if tg_lifecycle_generation found \<noteq> expected_generation then (None, s)
          else
            let trigger = write_outcome evidence result found;
                s = set_triggers
                      (update_first (\<lambda>t. tg_id t = tid) (write_outcome evidence result)
                        (triggers_of s)) s;
                s = (if tg_status trigger \<noteq> TriggerArmed
                        \<or> tcs_kind (tg_condition trigger) \<noteq> NetworkRequest
                     then s\<lparr>trs_network_request_baselines :=
                            Mapping.delete (tg_id trigger) (trs_network_request_baselines s)\<rparr>
                     else s);
                s = trigger_set_last_result result s;
                event_kind = event_kind_for_result_status
                  (case tg_last_action_result trigger of
                     Some r \<Rightarrow> tri_status r | None \<Rightarrow> tg_status trigger);
                summary = (case tg_last_action_result trigger of
                     Some r \<Rightarrow> tri_summary r
                   | None \<Rightarrow> ''trigger '' @ show_nat (unat (tg_id trigger)) @ '' ''
                              @ trigger_status_lower (tg_status trigger));
                s = trigger_push_event
                      (trigger_event event_kind (tg_id trigger) summary
                         (tg_unavailable_reason trigger) (tg_last_condition_evidence trigger)
                         (tg_last_action_result trigger)) s
            in (Some trigger, trigger_refresh_status s))"

definition trigger_push_outcome_event ::
  "'n trigger_info \<Rightarrow> trigger_evidence_info option \<Rightarrow> 'n trigger_result_info
   \<Rightarrow> 'n trigger_runtime_state \<Rightarrow> 'n trigger_runtime_state" where
  "trigger_push_outcome_event trigger evidence result s =
     trigger_push_event
       (trigger_event (event_kind_for_result_status (tri_status result)) (tg_id trigger)
          (tri_summary result) (tg_unavailable_reason trigger) evidence (Some result)) s"

definition trigger_push_stale_outcome_event ::
  "'n trigger_info \<Rightarrow> trigger_evidence_info option \<Rightarrow> 'n trigger_result_info
   \<Rightarrow> 'n trigger_runtime_state \<Rightarrow> 'n trigger_runtime_state" where
  "trigger_push_stale_outcome_event trigger evidence result s =
     (let stale_result = result\<lparr>tri_reason := Some ''trigger_lifecycle_generation_stale''\<rparr> in
      trigger_push_event
        (trigger_event TriggerEventDegraded (tg_id trigger)
           (''trigger '' @ show_nat (unat (tg_id trigger)) @ '' preserved committed outcome ''
             @ [CHR 0x27] @ tri_summary result @ [CHR 0x27]
             @ '' after newer trigger authority won'')
           (tg_unavailable_reason trigger) evidence (Some stale_result)) s)"

definition trigger_record_outcome_with_fallback ::
  "'n trigger_info \<Rightarrow> u64 \<Rightarrow> trigger_evidence_info option \<Rightarrow> 'n trigger_result_info
   \<Rightarrow> 'n trigger_runtime_state \<Rightarrow> 'n trigger_outcome_commit \<times> 'n trigger_runtime_state" where
  "trigger_record_outcome_with_fallback snapshot expected_generation evidence result s =
     (case find_trigger (tg_id snapshot) s of
        None \<Rightarrow>
          let s = trigger_set_last_result result s;
              s = trigger_push_outcome_event snapshot evidence result s
          in (TriggerApplied None, trigger_refresh_status s)
      | Some current \<Rightarrow>
          if tg_lifecycle_generation current \<noteq> expected_generation then
            let trigger = write_stale_outcome evidence result current;
                s = set_triggers
                      (update_first (\<lambda>t. tg_id t = tg_id snapshot)
                        (write_stale_outcome evidence result) (triggers_of s)) s;
                s = trigger_set_last_result result s;
                s = trigger_push_stale_outcome_event trigger evidence result s
            in (TriggerStale (Some trigger), trigger_refresh_status s)
          else
            let (t, s) = trigger_record_outcome (tg_id snapshot) expected_generation evidence
                           result s
            in (TriggerApplied t, s))"

definition trigger_remove ::
  "u32 \<Rightarrow> 'n trigger_runtime_state \<Rightarrow> 'n trigger_info option \<times> 'n trigger_runtime_state" where
  "trigger_remove tid s =
     (case find_trigger tid s of
        None \<Rightarrow> (None, s)
      | Some removed \<Rightarrow>
          let s = set_triggers (remove_first (\<lambda>t. tg_id t = tid) (triggers_of s)) s;
              s = s\<lparr>trs_network_request_baselines :=
                     Mapping.delete (tg_id removed) (trs_network_request_baselines s)\<rparr>;
              s = trigger_push_event
                    (trigger_event TriggerEventRemoved (tg_id removed)
                       (''trigger '' @ show_nat (unat (tg_id removed)) @ '' removed'')
                       (tg_unavailable_reason removed) (tg_last_condition_evidence removed)
                       (tg_last_action_result removed)) s
          in (Some removed, trigger_refresh_status s))"

definition trigger_mark_degraded ::
  "string \<Rightarrow> 'n trigger_runtime_state \<Rightarrow> 'n trigger_runtime_state" where
  "trigger_mark_degraded reason s =
     s\<lparr>trs_projection := (trs_projection s)\<lparr>tr_status := TriggerRuntimeDegraded,
        tr_degraded_reason := Some reason\<rparr>\<rparr>"

definition trigger_clear_degraded :: "'n trigger_runtime_state \<Rightarrow> 'n trigger_runtime_state" where
  "trigger_clear_degraded s =
     trigger_refresh_status
       (s\<lparr>trs_projection := (trs_projection s)\<lparr>tr_degraded_reason := None\<rparr>\<rparr>)"

section \<open>Sequences of operations\<close>

datatype 'n trigger_op =
    TriggerReplace "'n trigger_info list"
  | TriggerRegister "'n trigger_info" "network_request_baseline option"
  | TriggerUpdateStatus u32 trigger_status
  | TriggerUpdateStatusBaseline u32 trigger_status "network_request_baseline option"
  | TriggerEnsureBaseline u32 network_request_baseline
  | TriggerSetEvidence u32 u64 "trigger_evidence_info option"
  | TriggerRecordOutcome u32 u64 "trigger_evidence_info option" "'n trigger_result_info"
  | TriggerRecordFallback "'n trigger_info" u64 "trigger_evidence_info option" "'n trigger_result_info"
  | TriggerRemove u32
  | TriggerReconcile "tab_info list"
  | TriggerMarkDegraded string
  | TriggerClearDegraded
  | TriggerSetLastResult "'n trigger_result_info"

fun run_trigger_op :: "'n trigger_op \<Rightarrow> 'n trigger_runtime_state \<Rightarrow> 'n trigger_runtime_state" where
  "run_trigger_op (TriggerReplace ts) s = trigger_replace ts s"
| "run_trigger_op (TriggerRegister t b) s = snd (trigger_register_with_network_baseline t b s)"
| "run_trigger_op (TriggerUpdateStatus i st) s = snd (trigger_update_status i st s)"
| "run_trigger_op (TriggerUpdateStatusBaseline i st b) s =
     snd (trigger_update_status_with_network_baseline i st b s)"
| "run_trigger_op (TriggerEnsureBaseline i b) s = snd (trigger_ensure_network_request_baseline i b s)"
| "run_trigger_op (TriggerSetEvidence i g e) s = snd (trigger_set_condition_evidence i g e s)"
| "run_trigger_op (TriggerRecordOutcome i g e r) s = snd (trigger_record_outcome i g e r s)"
| "run_trigger_op (TriggerRecordFallback t g e r) s =
     snd (trigger_record_outcome_with_fallback t g e r s)"
| "run_trigger_op (TriggerRemove i) s = snd (trigger_remove i s)"
| "run_trigger_op (TriggerReconcile tabs) s = reconcile_tabs_projection tabs s"
| "run_trigger_op (TriggerMarkDegraded reason) s = trigger_mark_degraded reason s"
| "run_trigger_op TriggerClearDegraded s = trigger_clear_degraded s"
| "run_trigger_op (TriggerSetLastResult r) s = trigger_set_last_result r s"

text \<open>Reachable registries: any operations in any order, while the 64-bit event counter has room
  for the events one operation can push.\<close>

inductive trigger_reachable :: "'n trigger_runtime_state \<Rightarrow> bool" where
  trigger_init: "trigger_reachable trigger_runtime_default"
| trigger_step: "trigger_reachable s \<Longrightarrow>
    unat (trs_next_event_sequence s) + length (triggers_of s) < 2 ^ 64 - 1 \<Longrightarrow>
    trigger_reachable (run_trigger_op op s)"

text \<open>Which operations change the lifecycle of a trigger, and which may take its entry away.\<close>

fun trigger_op_bumps :: "'n trigger_op \<Rightarrow> 'n trigger_runtime_state \<Rightarrow> u32 \<Rightarrow> bool" where
  "trigger_op_bumps (TriggerUpdateStatus i _) s j \<longleftrightarrow> i = j"
| "trigger_op_bumps (TriggerUpdateStatusBaseline i _ _) s j \<longleftrightarrow> i = j"
| "trigger_op_bumps (TriggerRecordOutcome i g _ _) s j \<longleftrightarrow>
     i = j \<and> map_option tg_lifecycle_generation (find_trigger j s) = Some g"
| "trigger_op_bumps (TriggerRecordFallback t g _ _) s j \<longleftrightarrow>
     tg_id t = j \<and> map_option tg_lifecycle_generation (find_trigger j s) = Some g"
| "trigger_op_bumps _ s j \<longleftrightarrow> False"

fun trigger_op_drops :: "'n trigger_op \<Rightarrow> u32 \<Rightarrow> bool" where
  "trigger_op_drops (TriggerReplace _) j \<longleftrightarrow> True"
| "trigger_op_drops (TriggerRemove i) j \<longleftrightarrow> i = j"
| "trigger_op_drops _ j \<longleftrightarrow> False"

section \<open>What each step touches\<close>

lemmas trigger_op_defs =
  trigger_replace_def trigger_register_with_network_baseline_def trigger_update_status_def
  trigger_update_status_with_network_baseline_def trigger_update_status_with_baseline_def
  trigger_ensure_network_request_baseline_def trigger_set_condition_evidence_def
  trigger_record_outcome_def trigger_record_outcome_with_fallback_def trigger_remove_def
  reconcile_tabs_projection_def trigger_mark_degraded_def trigger_clear_degraded_def

lemma triggers_of_steps [simp]:
  "triggers_of (set_triggers ts s) = ts"
  "triggers_of (trigger_push_event e s) = triggers_of s"
  "triggers_of (trigger_refresh_status s) = triggers_of s"
  "triggers_of (trigger_set_last_result r s) = triggers_of s"
  "triggers_of (trigger_commit_network_request_baseline t b s) = triggers_of s"
  "triggers_of (trigger_retain_network_request_baselines s) = triggers_of s"
  "triggers_of (trigger_push_outcome_event t ev r s) = triggers_of s"
  "triggers_of (trigger_push_stale_outcome_event t ev r s) = triggers_of s"
  by (simp_all add: set_triggers_def trigger_push_event_def trigger_refresh_status_def Let_def
      trigger_set_last_result_def trigger_commit_network_request_baseline_def
      trigger_retain_network_request_baselines_def trigger_push_outcome_event_def
      trigger_push_stale_outcome_event_def split: option.splits)

lemma triggers_of_pushes [simp]: "triggers_of (fold trigger_push_event es s) = triggers_of s"
  by (induction es arbitrary: s) simp_all

lemma baselines_of_steps [simp]:
  "trs_network_request_baselines (set_triggers ts s) = trs_network_request_baselines s"
  "trs_network_request_baselines (trigger_push_event e s) = trs_network_request_baselines s"
  "trs_network_request_baselines (trigger_refresh_status s) = trs_network_request_baselines s"
  "trs_network_request_baselines (trigger_set_last_result r s) = trs_network_request_baselines s"
  "trs_network_request_baselines (trigger_push_outcome_event t ev r s) =
     trs_network_request_baselines s"
  "trs_network_request_baselines (trigger_push_stale_outcome_event t ev r s) =
     trs_network_request_baselines s"
  by (simp_all add: set_triggers_def trigger_push_event_def trigger_refresh_status_def Let_def
      trigger_set_last_result_def trigger_push_outcome_event_def
      trigger_push_stale_outcome_event_def)

lemma baselines_of_pushes [simp]:
  "trs_network_request_baselines (fold trigger_push_event es s) = trs_network_request_baselines s"
  by (induction es arbitrary: s) simp_all

lemma log_of_steps [simp]:
  "trs_next_event_sequence (set_triggers ts s) = trs_next_event_sequence s"
  "trs_recent_events (set_triggers ts s) = trs_recent_events s"
  "trs_next_event_sequence (trigger_refresh_status s) = trs_next_event_sequence s"
  "trs_recent_events (trigger_refresh_status s) = trs_recent_events s"
  "trs_next_event_sequence (trigger_set_last_result r s) = trs_next_event_sequence s"
  "trs_recent_events (trigger_set_last_result r s) = trs_recent_events s"
  "trs_next_event_sequence (trigger_commit_network_request_baseline t b s) =
     trs_next_event_sequence s"
  "trs_recent_events (trigger_commit_network_request_baseline t b s) = trs_recent_events s"
  "trs_next_event_sequence (trigger_retain_network_request_baselines s) = trs_next_event_sequence s"
  "trs_recent_events (trigger_retain_network_request_baselines s) = trs_recent_events s"
  by (simp_all add: set_triggers_def trigger_refresh_status_def Let_def
      trigger_set_last_result_def trigger_commit_network_request_baseline_def
      trigger_retain_network_request_baselines_def split: option.splits)

lemma refresh_idem [simp]:
  "trigger_refresh_status (trigger_refresh_status s) = trigger_refresh_status s"
  by (simp add: trigger_refresh_status_def Let_def)

interpretation trigger_log: exact_event_log te_sequence trs_next_event_sequence trs_recent_events
    trigger_push_event "\<lambda>e n. e\<lparr>te_sequence := n\<rparr>" TRIGGER_EVENT_LIMIT
proof unfold_locales
  fix e :: "'a trigger_event_info" and s
  show "\<exists>d. trs_recent_events (trigger_push_event e s) =
      drop d (trs_recent_events s @ [e\<lparr>te_sequence := max (trs_next_event_sequence s) 1\<rparr>])"
    by (rule exI [of _ "Suc (length (trs_recent_events s)) - TRIGGER_EVENT_LIMIT"])
      (simp add: trigger_push_event_def Let_def pop_front_to_drop)
qed (auto simp: trigger_push_event_def Let_def TRIGGER_EVENT_LIMIT_def pop_front_to_drop)

section \<open>Invariant\<close>

definition trigger_log_ok :: "'n trigger_runtime_state \<Rightarrow> bool" where
  "trigger_log_ok s \<longleftrightarrow>
     seq_window (trs_next_event_sequence s) (map te_sequence (trs_recent_events s)) \<and>
     length (trs_recent_events s) = min 64 (max 1 (unat (trs_next_event_sequence s)) - 1)"

definition trigger_baselines_ok :: "'n trigger_runtime_state \<Rightarrow> bool" where
  "trigger_baselines_ok s \<longleftrightarrow>
     side_table_ok tg_id network_armed (trs_network_request_baselines s) (triggers_of s)"

definition trigger_generations_ok :: "'n trigger_runtime_state \<Rightarrow> bool" where
  "trigger_generations_ok s \<longleftrightarrow> list_all (\<lambda>t. 1 \<le> tg_lifecycle_generation t) (triggers_of s)"

definition trigger_counts_ok :: "'n trigger_runtime_state \<Rightarrow> bool" where
  "trigger_counts_ok s \<longleftrightarrow>
     tr_active_count (trs_projection s) = length (filter trigger_is_active (triggers_of s)) \<and>
     tr_degraded_count (trs_projection s) = length (filter trigger_is_degraded (triggers_of s)) \<and>
     tr_status (trs_projection s) =
       (if tr_degraded_reason (trs_projection s) \<noteq> None
           \<or> (\<exists>t\<in>set (triggers_of s). trigger_is_degraded t) then TriggerRuntimeDegraded
        else if triggers_of s = [] then TriggerRuntimeInactive else TriggerRuntimeActive)"

subsection \<open>The log\<close>

lemma trigger_log_ok_steps [simp]:
  "trigger_log_ok (set_triggers ts s) = trigger_log_ok s"
  "trigger_log_ok (trigger_refresh_status s) = trigger_log_ok s"
  "trigger_log_ok (trigger_set_last_result r s) = trigger_log_ok s"
  "trigger_log_ok (trigger_commit_network_request_baseline t b s) = trigger_log_ok s"
  "trigger_log_ok (trigger_retain_network_request_baselines s) = trigger_log_ok s"
  "trigger_log_ok (s\<lparr>trs_network_request_baselines := b'\<rparr>) = trigger_log_ok s"
  "trigger_log_ok (s\<lparr>trs_projection := p\<rparr>) = trigger_log_ok s"
  by (simp_all add: trigger_log_ok_def)

lemma trigger_log_pushes:
  assumes "trigger_log_ok s" and "max 1 (unat (trs_next_event_sequence s)) + length es < 2 ^ 64"
  shows "trigger_log_ok (fold trigger_push_event es s)"
  using trigger_log.exact_pushes [of s es] assms
  by (simp add: trigger_log_ok_def TRIGGER_EVENT_LIMIT_def)

lemma trigger_log_push:
  assumes "trigger_log_ok s" and "unat (trs_next_event_sequence s) < 2 ^ 64 - 1"
  shows "trigger_log_ok (trigger_push_event e s)"
  using trigger_log_pushes [of s "[e]"] assms by simp

lemma length_reconcile_event: "length (reconcile_event p t) \<le> 1"
  by (auto simp: reconcile_event_def split: option.splits)

lemma length_reconcile_events:
  "length (concat (map (\<lambda>t. reconcile_event t (f t)) ts)) \<le> length ts"
proof (induction ts)
  case (Cons t ts)
  then show ?case using length_reconcile_event [of t "f t"] by simp
qed simp

lemma trigger_log_step:
  assumes "trigger_log_ok s" and "unat (trs_next_event_sequence s) + length (triggers_of s) < 2 ^ 64 - 1"
  shows "trigger_log_ok (run_trigger_op op s)"
proof (cases op)
  case (TriggerReconcile tabs)
  let ?s = "set_triggers (map (reconcile_trigger tabs) (triggers_of s)) s"
  show ?thesis
    using TriggerReconcile trigger_log_pushes [of ?s] assms
      length_reconcile_events [of "reconcile_trigger tabs" "triggers_of s"]
    by (simp add: reconcile_tabs_projection_def Let_def)
qed (use assms in \<open>simp_all add: trigger_op_defs trigger_push_outcome_event_def
    trigger_push_stale_outcome_event_def trigger_log_push Let_def split: option.split prod.split\<close>)

subsection \<open>Counts, generations, baselines\<close>

lemma trigger_counts_refresh [simp]: "trigger_counts_ok (trigger_refresh_status s)"
  by (auto simp: trigger_counts_ok_def trigger_refresh_status_def Let_def filter_empty_conv)

lemma trigger_counts_cong [simp]:
  "trigger_counts_ok (s\<lparr>trs_network_request_baselines := b\<rparr>) = trigger_counts_ok s"
  "trigger_counts_ok (trigger_set_last_result r s) = trigger_counts_ok s"
  by (simp_all add: trigger_counts_ok_def trigger_set_last_result_def)

lemma trigger_counts_step:
  assumes "trigger_counts_ok s" shows "trigger_counts_ok (run_trigger_op op s)"
proof (cases op)
  case (TriggerMarkDegraded reason)
  then show ?thesis using assms by (simp add: trigger_counts_ok_def trigger_mark_degraded_def)
qed (use assms in \<open>simp_all add: trigger_op_defs Let_def split: option.split prod.split\<close>)

lemma saturating_pos: "1 \<le> a \<Longrightarrow> 1 \<le> saturating_add a b"
  using saturating_add_mono order.trans by blast

lemma reconcile_trigger_simps [simp]:
  "tg_id (reconcile_trigger tabs t) = tg_id t"
  "tg_status (reconcile_trigger tabs t) = tg_status t"
  "tg_lifecycle_generation (reconcile_trigger tabs t) = tg_lifecycle_generation t"
  "tg_condition (reconcile_trigger tabs t) = tg_condition t"
  "network_armed (reconcile_trigger tabs t) = network_armed t"
  by (simp_all add: reconcile_trigger_def Let_def network_armed_def)

lemma writes_simps [simp]:
  "tg_id (write_status st t) = tg_id t" "tg_id (write_evidence ev t) = tg_id t"
  "tg_id (write_outcome ev r t) = tg_id t" "tg_id (write_stale_outcome ev r t) = tg_id t"
  "tg_lifecycle_generation (write_status st t) = saturating_add (tg_lifecycle_generation t) 1"
  "tg_lifecycle_generation (write_evidence ev t) = tg_lifecycle_generation t"
  "tg_lifecycle_generation (write_outcome ev r t) = saturating_add (tg_lifecycle_generation t) 1"
  "tg_lifecycle_generation (write_stale_outcome ev r t) = tg_lifecycle_generation t"
  "tg_status (write_outcome ev r t) = tri_next_status r"
  "tg_condition (write_outcome ev r t) = tg_condition t"
  "tg_status (write_stale_outcome ev r t) = tg_status t"
  "tg_consumed_evidence_fingerprint (write_stale_outcome ev r t) =
     tg_consumed_evidence_fingerprint t"
  "network_armed (write_evidence ev t) = network_armed t"
  "network_armed (write_stale_outcome ev r t) = network_armed t"
  by (simp_all add: write_status_def write_evidence_def write_outcome_def write_stale_outcome_def
      network_armed_def Let_def)

text \<open>The registry after each operation, as one write.\<close>

lemma triggers_of_ops:
  "triggers_of (snd (trigger_register_with_network_baseline t b s)) =
     triggers_of s @ [t\<lparr>tg_lifecycle_generation := max (tg_lifecycle_generation t) 1\<rparr>]"
  "triggers_of (snd (trigger_update_status_with_baseline i st b s)) =
     update_first (\<lambda>t. tg_id t = i) (write_status st) (triggers_of s)"
  "triggers_of (snd (trigger_ensure_network_request_baseline i nb s)) = triggers_of s"
  "triggers_of (snd (trigger_set_condition_evidence i g ev s)) =
     (if map_option tg_lifecycle_generation (find_trigger i s) = Some g
      then update_first (\<lambda>t. tg_id t = i) (write_evidence ev) (triggers_of s) else triggers_of s)"
  "triggers_of (snd (trigger_record_outcome i g ev r s)) =
     (if map_option tg_lifecycle_generation (find_trigger i s) = Some g
      then update_first (\<lambda>t. tg_id t = i) (write_outcome ev r) (triggers_of s) else triggers_of s)"
  "triggers_of (snd (trigger_record_outcome_with_fallback snap g ev r s)) =
     update_first (\<lambda>t. tg_id t = tg_id snap)
       (if map_option tg_lifecycle_generation (find_trigger (tg_id snap) s) = Some g
        then write_outcome ev r else write_stale_outcome ev r) (triggers_of s)"
  "triggers_of (snd (trigger_remove i s)) = remove_first (\<lambda>t. tg_id t = i) (triggers_of s)"
proof -
  show "triggers_of (snd (trigger_register_with_network_baseline t b s)) =
     triggers_of s @ [t\<lparr>tg_lifecycle_generation := max (tg_lifecycle_generation t) 1\<rparr>]"
    by (simp add: trigger_register_with_network_baseline_def Let_def)
  show "triggers_of (snd (trigger_update_status_with_baseline i st b s)) =
     update_first (\<lambda>t. tg_id t = i) (write_status st) (triggers_of s)"
    by (simp add: trigger_update_status_with_baseline_def find_trigger_def update_first_find_None
        Let_def split: option.split)
  show "triggers_of (snd (trigger_ensure_network_request_baseline i nb s)) = triggers_of s"
    by (simp add: trigger_ensure_network_request_baseline_def split: option.split)
  show "triggers_of (snd (trigger_set_condition_evidence i g ev s)) =
     (if map_option tg_lifecycle_generation (find_trigger i s) = Some g
      then update_first (\<lambda>t. tg_id t = i) (write_evidence ev) (triggers_of s) else triggers_of s)"
    by (simp add: trigger_set_condition_evidence_def Let_def split: option.split)
  have outcome: "triggers_of (snd (trigger_record_outcome i g ev r s)) =
     (if map_option tg_lifecycle_generation (find_trigger i s) = Some g
      then update_first (\<lambda>t. tg_id t = i) (write_outcome ev r) (triggers_of s) else triggers_of s)" for i
    by (simp add: trigger_record_outcome_def Let_def split: option.split)
  show "triggers_of (snd (trigger_record_outcome i g ev r s)) =
     (if map_option tg_lifecycle_generation (find_trigger i s) = Some g
      then update_first (\<lambda>t. tg_id t = i) (write_outcome ev r) (triggers_of s) else triggers_of s)"
    by (rule outcome)
  show "triggers_of (snd (trigger_record_outcome_with_fallback snap g ev r s)) =
     update_first (\<lambda>t. tg_id t = tg_id snap)
       (if map_option tg_lifecycle_generation (find_trigger (tg_id snap) s) = Some g
        then write_outcome ev r else write_stale_outcome ev r) (triggers_of s)"
    using outcome [of "tg_id snap"]
    by (cases "find_trigger (tg_id snap) s")
      (simp_all add: trigger_record_outcome_with_fallback_def find_trigger_def
        update_first_find_None Let_def split_def)
  show "triggers_of (snd (trigger_remove i s)) =
      remove_first (\<lambda>t. tg_id t = i) (triggers_of s)"
    by (simp add: trigger_remove_def find_trigger_def remove_first_find_None Let_def
        split: option.split)
qed

lemma triggers_of_ops':
  "triggers_of (trigger_replace ts s) =
     map (\<lambda>t. t\<lparr>tg_lifecycle_generation := max (tg_lifecycle_generation t) 1\<rparr>) ts"
  "triggers_of (snd (trigger_update_status i st s)) =
     update_first (\<lambda>t. tg_id t = i) (write_status st) (triggers_of s)"
  "triggers_of (snd (trigger_update_status_with_network_baseline i st b s)) =
     update_first (\<lambda>t. tg_id t = i) (write_status st) (triggers_of s)"
  "triggers_of (reconcile_tabs_projection tabs s) = map (reconcile_trigger tabs) (triggers_of s)"
  "triggers_of (trigger_mark_degraded reason s) = triggers_of s"
  "triggers_of (trigger_clear_degraded s) = triggers_of s"
  by (simp_all add: trigger_replace_def trigger_update_status_def
      trigger_update_status_with_network_baseline_def triggers_of_ops reconcile_tabs_projection_def
      trigger_mark_degraded_def trigger_clear_degraded_def Let_def)

lemmas triggers_of_run = triggers_of_ops triggers_of_ops'

lemma trigger_generations_step:
  assumes "trigger_generations_ok s" shows "trigger_generations_ok (run_trigger_op op s)"
  using assms unfolding trigger_generations_ok_def
  by (cases op) (auto simp: triggers_of_run list.pred_map comp_def list.pred_True
      intro!: list_all_update_first list_all_remove_first saturating_pos)

lemma lookup_commit_baseline:
  "Mapping.lookup (trs_network_request_baselines
     (trigger_commit_network_request_baseline t b s)) k \<noteq> None \<Longrightarrow>
   k = tg_id t \<and> network_armed t \<or>
   k \<noteq> tg_id t \<and> Mapping.lookup (trs_network_request_baselines s) k \<noteq> None"
  by (auto simp: trigger_commit_network_request_baseline_def lookup_update' lookup_delete_if
      split: option.splits if_splits)

lemma find_trigger_id: "find_trigger i s = Some t \<Longrightarrow> tg_id t = i \<and> t \<in> set (triggers_of s)"
  using find_Some_set by (fastforce simp: find_trigger_def)

lemma trigger_baselines_ops:
  assumes "trigger_baselines_ok s"
  shows "trigger_baselines_ok (trigger_replace ts s)"
    and "trigger_baselines_ok (snd (trigger_register_with_network_baseline t b s))"
    and "trigger_baselines_ok (snd (trigger_update_status_with_baseline i st b s))"
    and "trigger_baselines_ok (snd (trigger_ensure_network_request_baseline i nb s))"
    and "trigger_baselines_ok (snd (trigger_set_condition_evidence i g ev s))"
    and "trigger_baselines_ok (snd (trigger_record_outcome i g ev r s))"
    and "trigger_baselines_ok (snd (trigger_remove i s))"
proof -
  note ok = assms [unfolded trigger_baselines_ok_def]
  show "trigger_baselines_ok (trigger_replace ts s)"
    by (simp add: trigger_baselines_ok_def trigger_replace_def Let_def
        trigger_retain_network_request_baselines_def side_table_filter)
  show "trigger_baselines_ok (snd (trigger_register_with_network_baseline t b s))"
    unfolding trigger_baselines_ok_def triggers_of_ops
  proof (rule side_table_append [OF ok])
    let ?t = "t\<lparr>tg_lifecycle_generation := max (tg_lifecycle_generation t) 1\<rparr>"
    show "k = tg_id ?t \<and> network_armed ?t \<or>
        k \<noteq> tg_id ?t \<and> Mapping.lookup (trs_network_request_baselines s) k \<noteq> None"
      if "Mapping.lookup (trs_network_request_baselines
        (snd (trigger_register_with_network_baseline t b s))) k \<noteq> None" for k
      using that lookup_commit_baseline [of ?t b "set_triggers (triggers_of s @ [?t]) s" k]
      by (simp add: trigger_register_with_network_baseline_def Let_def)
  qed
  show "trigger_baselines_ok (snd (trigger_update_status_with_baseline i st b s))"
  proof (cases "find_trigger i s")
    case None
    then show ?thesis using assms by (simp add: trigger_update_status_with_baseline_def)
  next
    case (Some t)
    let ?s = "snd (trigger_update_status_with_baseline i st b s)"
    have m: "trs_network_request_baselines ?s =
        trs_network_request_baselines
          (trigger_commit_network_request_baseline (write_status st t) b
            (set_triggers (update_first (\<lambda>t. tg_id t = i) (write_status st) (triggers_of s)) s))"
      using Some by (simp add: trigger_update_status_with_baseline_def Let_def split: option.split)
    show ?thesis
      unfolding trigger_baselines_ok_def triggers_of_ops m
      by (rule side_table_update [OF ok Some [unfolded find_trigger_def]])
        (use find_trigger_id [OF Some] in \<open>auto dest!: lookup_commit_baseline [of "write_status st t" b,
          OF option.discI]\<close>)
  qed
  show "trigger_baselines_ok (snd (trigger_ensure_network_request_baseline i nb s))"
    using ok by (auto simp: trigger_baselines_ok_def trigger_ensure_network_request_baseline_def
        split: option.split dest: find_trigger_id intro!: side_table_insert)
  show "trigger_baselines_ok (snd (trigger_set_condition_evidence i g ev s))"
    using side_table_same(1) [OF ok, of "write_evidence ev" "\<lambda>t. tg_id t = i"] ok
    by (auto simp: trigger_baselines_ok_def trigger_set_condition_evidence_def Let_def
        split: option.split)
  show "trigger_baselines_ok (snd (trigger_record_outcome i g ev r s))"
  proof (cases "map_option tg_lifecycle_generation (find_trigger i s) = Some g")
    case False
    then have "snd (trigger_record_outcome i g ev r s) = s"
      by (auto simp: trigger_record_outcome_def split: option.splits)
    with assms show ?thesis by simp
  next
    case True
    then obtain t where t: "find_trigger i s = Some t" "tg_lifecycle_generation t = g" by auto
    have m: "trs_network_request_baselines (snd (trigger_record_outcome i g ev r s)) =
        (if network_armed (write_outcome ev r t) then trs_network_request_baselines s
         else Mapping.delete i (trs_network_request_baselines s))"
      using t find_trigger_id [OF t(1)]
      by (simp add: trigger_record_outcome_def network_armed_def Let_def)
    have ts: "triggers_of (snd (trigger_record_outcome i g ev r s)) =
        update_first (\<lambda>t. tg_id t = i) (write_outcome ev r) (triggers_of s)"
      using True by (simp add: triggers_of_ops)
    show ?thesis
      unfolding trigger_baselines_ok_def ts m
      by (rule side_table_update [OF ok t(1) [unfolded find_trigger_def]])
        (auto simp: lookup_delete_if split: if_splits)
  qed
  show "trigger_baselines_ok (snd (trigger_remove i s))"
    using side_table_remove [OF ok, of i] ok find_trigger_id [of i s]
    by (auto simp: trigger_baselines_ok_def trigger_remove_def Let_def split: option.split)
qed

lemma trigger_baselines_fallback:
  assumes "trigger_baselines_ok s"
  shows "trigger_baselines_ok (snd (trigger_record_outcome_with_fallback snap g ev r s))"
proof (cases "map_option tg_lifecycle_generation (find_trigger (tg_id snap) s) = Some g")
  case True
  then have "snd (trigger_record_outcome_with_fallback snap g ev r s) =
      snd (trigger_record_outcome (tg_id snap) g ev r s)"
    by (auto simp: trigger_record_outcome_with_fallback_def split_def Let_def)
  then show ?thesis using trigger_baselines_ops(6) [OF assms] by simp
next
  case False
  then have m: "trs_network_request_baselines
      (snd (trigger_record_outcome_with_fallback snap g ev r s)) = trs_network_request_baselines s"
    by (auto simp: trigger_record_outcome_with_fallback_def Let_def split: option.splits)
  have ts: "triggers_of (snd (trigger_record_outcome_with_fallback snap g ev r s)) =
      update_first (\<lambda>t. tg_id t = tg_id snap) (write_stale_outcome ev r) (triggers_of s)"
    using False by (simp only: triggers_of_ops if_False)
  show ?thesis
    unfolding trigger_baselines_ok_def ts m
    by (rule side_table_same(1) [OF assms [unfolded trigger_baselines_ok_def]]) simp_all
qed

lemma trigger_baselines_step:
  assumes "trigger_baselines_ok s" shows "trigger_baselines_ok (run_trigger_op op s)"
proof (cases op)
  case (TriggerReconcile tabs)
  then show ?thesis
    using side_table_same(2) [OF assms [unfolded trigger_baselines_ok_def],
        of "reconcile_trigger tabs"]
    by (simp add: trigger_baselines_ok_def reconcile_tabs_projection_def Let_def)
next
  case (TriggerMarkDegraded reason)
  then show ?thesis using assms by (simp add: trigger_baselines_ok_def trigger_mark_degraded_def)
next
  case TriggerClearDegraded
  then show ?thesis using assms by (simp add: trigger_baselines_ok_def trigger_clear_degraded_def)
next
  case (TriggerSetLastResult r)
  then show ?thesis using assms by (simp add: trigger_baselines_ok_def)
qed (simp_all add: trigger_baselines_ops trigger_baselines_fallback assms
    trigger_update_status_def trigger_update_status_with_network_baseline_def)

lemma trigger_reachable_inv:
  "trigger_reachable s \<Longrightarrow>
     trigger_log_ok s \<and> trigger_counts_ok s \<and> trigger_generations_ok s \<and> trigger_baselines_ok s"
proof (induction rule: trigger_reachable.induct)
  case trigger_init
  show ?case
    by (simp add: trigger_runtime_default_def trigger_log_ok_def trigger_counts_ok_def
        trigger_generations_ok_def trigger_baselines_ok_def side_table_ok_def)
next
  case (trigger_step s op)
  then show ?case
    using trigger_log_step trigger_counts_step trigger_generations_step trigger_baselines_step
    by blast
qed

section \<open>The generation fence\<close>

lemma trigger_gen_step:
  assumes "map_option tg_lifecycle_generation (find_trigger j s) = Some g"
    and "\<not> trigger_op_drops op j"
  shows "map_option tg_lifecycle_generation (find_trigger j (run_trigger_op op s)) =
    Some (if trigger_op_bumps op s j then saturating_add g 1 else g)"
proof -
  obtain t where t: "List.find (\<lambda>t. tg_id t = j) (triggers_of s) = Some t"
    "tg_lifecycle_generation t = g"
    using assms(1) by (auto simp: find_trigger_def)
  show ?thesis
    by (cases op) (use assms(2) t in \<open>auto simp: find_trigger_def triggers_of_run find_write
        find_map_key find_append_first find_remove_first_other\<close>)
qed

interpretation trigger_fence: generation_fence
    "\<lambda>s i. map_option tg_lifecycle_generation (find_trigger i s)" run_trigger_op
    trigger_op_bumps trigger_op_drops
  by unfold_locales (rule trigger_gen_step)

section \<open>Reconciliation\<close>

lemma sync_binding_idem [simp]:
  "sync_binding tab (sync_binding tab b) = sync_binding tab b"
  "ttb_target_id (sync_binding tab b) = ttb_target_id b"
  by (simp_all add: sync_binding_def Let_def)

lemma reconcile_trigger_targets [simp]:
  "ttb_target_id (tg_source_tab (reconcile_trigger tabs t)) = ttb_target_id (tg_source_tab t)"
  "ttb_target_id (tg_target_tab (reconcile_trigger tabs t)) = ttb_target_id (tg_target_tab t)"
  by (simp_all add: reconcile_trigger_def Let_def split: option.split)

lemma reconcile_trigger_idem [simp]:
  "reconcile_trigger tabs (reconcile_trigger tabs t) = reconcile_trigger tabs t"
  unfolding reconcile_trigger_def [of tabs "reconcile_trigger tabs t"]
  by (simp add: reconcile_trigger_def Let_def split: option.split)

lemma unavailable_reason_None:
  "trigger_unavailable_reason a b = None \<longleftrightarrow> a = TabAvailable \<and> b = TabAvailable"
  by (cases a; cases b) simp_all

lemma tab_available:
  "trigger_tab_authority_of tab = TabAvailable \<longleftrightarrow>
     (\<exists>t. tab = Some t \<and> page_identity_authoritative t)"
  by (auto simp: trigger_tab_authority_of_def page_identity_authoritative_def split: option.split)

lemma set_triggers_same: "set_triggers (triggers_of s) s = s"
  by (simp add: set_triggers_def)

lemma reconcile_idem:
  "reconcile_tabs_projection tabs (reconcile_tabs_projection tabs s) = reconcile_tabs_projection tabs s"
proof -
  let ?s = "reconcile_tabs_projection tabs s"
  have ts: "triggers_of ?s = map (reconcile_trigger tabs) (triggers_of s)"
    by (rule triggers_of_run)
  have "map (reconcile_trigger tabs) (triggers_of ?s) = triggers_of ?s"
    by (simp add: ts)
  moreover have "concat (map (\<lambda>t. reconcile_event t (reconcile_trigger tabs t)) (triggers_of ?s)) = []"
    by (simp add: ts reconcile_event_def)
  ultimately have "reconcile_tabs_projection tabs ?s = trigger_refresh_status ?s"
    unfolding reconcile_tabs_projection_def [of tabs ?s] Let_def
    by (simp only: set_triggers_same fold_Nil id_apply)
  then show ?thesis by (simp add: reconcile_tabs_projection_def [of tabs s] Let_def)
qed

section \<open>Properties\<close>

text \<open>
  C33. In every reachable trigger registry the projection tells the truth: the active count is the
  number of armed triggers whose tabs are available, the degraded count and the runtime status
  follow from the entries, every network baseline belongs to an armed network trigger, every
  generation is at least 1, and \<^verbatim>\<open>trace(n)\<close> returns the last \<open>n\<close> events (at most 64), numbered
  consecutively up to the last number issued.
\<close>

theorem trigger_runtime_consistent:
  assumes "trigger_reachable s"
  shows "tr_active_count (trs_projection s) =
      length (filter (\<lambda>t. tg_status t = TriggerArmed \<and> tg_unavailable_reason t = None) (triggers_of s)) \<and>
    tr_degraded_count (trs_projection s) = length (filter trigger_is_degraded (triggers_of s)) \<and>
    (tr_status (trs_projection s) = TriggerRuntimeDegraded \<longleftrightarrow>
       tr_degraded_reason (trs_projection s) \<noteq> None \<or> tr_degraded_count (trs_projection s) > 0) \<and>
    (\<forall>i b. Mapping.lookup (trs_network_request_baselines s) i = Some b \<longrightarrow>
       (\<exists>t\<in>set (triggers_of s). tg_id t = i \<and> tg_status t = TriggerArmed \<and>
          tcs_kind (tg_condition t) = NetworkRequest)) \<and>
    (\<forall>t\<in>set (triggers_of s). 1 \<le> tg_lifecycle_generation t) \<and>
    (let issued = max 1 (unat (trs_next_event_sequence s)) in
     map (unat \<circ> te_sequence) (trigger_trace n s) = [issued - min n (min 64 (issued - 1)) ..< issued])"
proof -
  note inv = trigger_reachable_inv [OF assms]
  have "map (unat \<circ> te_sequence) (trigger_trace n s) =
      (let issued = max 1 (unat (trs_next_event_sequence s)) in
       [issued - min n (min 64 (issued - 1)) ..< issued])"
    using inv trigger_log.numbers_of_last [of s n]
    unfolding trigger_trace_def TRIGGER_EVENT_LIMIT_def trigger_log_ok_def Let_def by blast
  then show ?thesis
    using inv unfolding Let_def
    by (auto simp: trigger_counts_ok_def trigger_baselines_ok_def trigger_generations_ok_def
        side_table_ok_def list_all_iff network_armed_def trigger_is_active_def [abs_def]
        filter_empty_conv)
qed

text \<open>
  C32. The lifecycle generation fences late outcomes. A worker that read trigger \<open>t\<close> and commits the
  outcome of its action after any operations \<open>ops\<close> (none of which removed the entry) is applied
  exactly when no lifecycle change of the trigger happened in between; then the trigger takes the
  outcome's next status and a new generation. Otherwise the commit is reported stale and leaves
  status, generation and consumed evidence as the newer authority set them. Other triggers are
  never touched.
\<close>

theorem trigger_outcome_fenced:
  assumes "find_trigger i s = Some t" and "unat (tg_lifecycle_generation t) < 2 ^ 64 - 1"
    and "\<forall>op\<in>set ops. \<not> trigger_op_drops op i"
    and "now = fold run_trigger_op ops s"
    and "(commit, after) =
      trigger_record_outcome_with_fallback t (tg_lifecycle_generation t) evidence result now"
  shows "(if bump_count trigger_op_bumps run_trigger_op i ops s = 0
     then \<exists>u. commit = TriggerApplied (Some u) \<and> find_trigger i after = Some u \<and>
       tg_status u = tri_next_status result \<and>
       tg_lifecycle_generation u = tg_lifecycle_generation t + 1
     else \<exists>c u. find_trigger i now = Some c \<and> commit = TriggerStale (Some u) \<and>
       find_trigger i after = Some u \<and> tg_status u = tg_status c \<and>
       tg_lifecycle_generation u = tg_lifecycle_generation c \<and>
       tg_consumed_evidence_fingerprint u = tg_consumed_evidence_fingerprint c) \<and>
    (\<forall>j. j \<noteq> i \<longrightarrow> find_trigger j after = find_trigger j now)"
proof -
  let ?g = "tg_lifecycle_generation t"
  have i: "tg_id t = i" using find_trigger_id [OF assms(1)] by simp
  have gen: "map_option tg_lifecycle_generation (find_trigger i s) = Some ?g"
    using assms(1) by simp
  obtain c where c: "find_trigger i now = Some c"
    using trigger_fence.gen_run [OF gen assms(3)] assms(4) by auto
  have fence: "tg_lifecycle_generation c = ?g \<longleftrightarrow>
      bump_count trigger_op_bumps run_trigger_op i ops s = 0"
    using trigger_fence.unchanged_iff [OF gen assms(3,2)] assms(4) c by simp
  have inc: "saturating_add ?g 1 = ?g + 1"
    using assms(2) by (simp add: saturating_add_def)
  have aft: "after = snd (trigger_record_outcome_with_fallback t ?g evidence result now)"
    and com: "commit = fst (trigger_record_outcome_with_fallback t ?g evidence result now)"
    by (simp_all flip: assms(5))
  have found: "find_trigger j after = (if j = i then Some
      (if tg_lifecycle_generation c = ?g then write_outcome evidence result c
       else write_stale_outcome evidence result c) else find_trigger j now)" for j
    using c unfolding aft by (auto simp: find_trigger_def triggers_of_ops find_write i)
  have "commit = (if tg_lifecycle_generation c = ?g
      then TriggerApplied (Some (write_outcome evidence result c))
      else TriggerStale (Some (write_stale_outcome evidence result c)))"
    using c unfolding com
    by (simp add: trigger_record_outcome_with_fallback_def trigger_record_outcome_def i Let_def)
  then show ?thesis
    using c found fence inc by (auto simp: writes_simps)
qed

text \<open>
  Reconciling the trigger bindings with the live tab list changes only bindings and
  availability. A trigger is available afterwards exactly when both of its tabs are listed with an
  authoritative page identity; the active count is the number of armed available triggers; and
  reconciling again with the same tabs changes nothing and publishes no event.
\<close>

theorem trigger_reconcile_exact:
  fixes s :: "'n trigger_runtime_state"
  shows "let after = reconcile_tabs_projection tabs s in
    map (\<lambda>t. (tg_id t, tg_status t, tg_lifecycle_generation t, tg_condition t)) (triggers_of after) =
      map (\<lambda>t. (tg_id t, tg_status t, tg_lifecycle_generation t, tg_condition t)) (triggers_of s) \<and>
    (\<forall>t\<in>set (triggers_of after). tg_unavailable_reason t = None \<longleftrightarrow>
       (\<exists>source target. find_tab (ttb_target_id (tg_source_tab t)) tabs = Some source \<and>
          find_tab (ttb_target_id (tg_target_tab t)) tabs = Some target \<and>
          tab_degraded_reason source = None \<and> tab_degraded_reason target = None)) \<and>
    tr_active_count (trs_projection after) =
      length (filter (\<lambda>t. tg_status t = TriggerArmed \<and> tg_unavailable_reason t = None) (triggers_of after)) \<and>
    reconcile_tabs_projection tabs after = after"
proof -
  define after where "after = reconcile_tabs_projection tabs s"
  have ts: "triggers_of after = map (reconcile_trigger tabs) (triggers_of s)"
    unfolding after_def by (rule triggers_of_run)
  have avail: "tg_unavailable_reason (reconcile_trigger tabs t) = None \<longleftrightarrow>
       (\<exists>source target. find_tab (ttb_target_id (tg_source_tab t)) tabs = Some source \<and>
          find_tab (ttb_target_id (tg_target_tab t)) tabs = Some target \<and>
          tab_degraded_reason source = None \<and> tab_degraded_reason target = None)"
    for t :: "'n trigger_info"
    by (auto simp: reconcile_trigger_def Let_def unavailable_reason_None tab_available
        page_identity_authoritative_def)
  have counts: "trigger_counts_ok after"
    by (simp add: after_def reconcile_tabs_projection_def Let_def)
  show ?thesis
    unfolding after_def [symmetric] Let_def
    using reconcile_idem [of tabs s] counts
    by (simp add: ts avail after_def [symmetric] trigger_counts_ok_def trigger_is_active_def [abs_def])
qed

section \<open>Concrete runs\<close>

definition example_condition :: trigger_condition_spec where
  "example_condition = \<lparr>tcs_kind = NetworkRequest, tcs_locator = None, tcs_text = None,
     tcs_url_pattern = Some ''/api'', tcs_readiness_state = None, tcs_method = None,
     tcs_status_code = None, tcs_storage_area = None, tcs_key = None, tcs_value = None\<rparr>"

definition example_binding :: "string \<Rightarrow> trigger_tab_binding_info" where
  "example_binding target = \<lparr>ttb_index = 0, ttb_target_id = target, ttb_frame_id = None,
     ttb_url = ''https://a'', ttb_title = ''a''\<rparr>"

definition example_trigger :: "unit trigger_info" where
  "example_trigger = \<lparr>tg_id = 7, tg_status = TriggerArmed, tg_lifecycle_generation = 1,
     tg_mode = TriggerOnce, tg_source_tab = example_binding ''s'', tg_target_tab = example_binding ''t'',
     tg_condition = example_condition,
     tg_action = \<lparr>tas_kind = BrowserCommand, tas_command = Some ''click'', tas_payload = None\<rparr>,
     tg_last_condition_evidence = None, tg_consumed_evidence_fingerprint = None,
     tg_last_action_result = None, tg_unavailable_reason = None\<rparr>"

definition example_baseline :: network_request_baseline where
  "example_baseline = \<lparr>nrb_cursor = 3, nrb_observed_ingress_drop_count = 0, nrb_primed = True\<rparr>"

definition example_result :: "unit trigger_result_info" where
  "example_result = \<lparr>tri_trigger_id = 7, tri_status = TriggerFired, tri_next_status = TriggerFired,
     tri_summary = ''fired'', tri_command_id = None, tri_action = None, tri_result = None,
     tri_error_code = None, tri_reason = None, tri_error_context = None,
     tri_consumed_evidence_fingerprint = Some ''f''\<rparr>"

definition example_registry :: "unit trigger_runtime_state" where
  "example_registry =
     run_trigger_op (TriggerRegister example_trigger (Some example_baseline)) trigger_runtime_default"

lemmas example_trigger_defs = example_registry_def example_trigger_def example_condition_def
  example_baseline_def example_result_def example_binding_def

lemma example_registry_triggers: "triggers_of example_registry = [example_trigger]"
  by (simp add: example_registry_def triggers_of_run)
    (simp add: trigger_runtime_default_def example_trigger_def)

theorem trigger_runtime_consistent_witness:
  "trigger_reachable example_registry \<and> tr_active_count (trs_projection example_registry) = 1 \<and>
   length (trigger_trace 5 example_registry) = 1"
proof -
  have r: "trigger_reachable example_registry"
    unfolding example_registry_def
    by (rule trigger_step [OF trigger_init]) (simp add: trigger_runtime_default_def)
  have n: "trs_next_event_sequence example_registry = 2"
    by (simp add: example_registry_def trigger_register_with_network_baseline_def Let_def
        trigger_push_event_def) (simp add: trigger_runtime_default_def)
  have "length (map (unat \<circ> te_sequence) (trigger_trace 5 example_registry)) = 1"
    using trigger_runtime_consistent [OF r, of 5] n by (simp add: Let_def)
  then show ?thesis
    using r trigger_runtime_consistent [OF r, of 5] example_registry_triggers
    by (simp add: example_trigger_def)
qed

theorem trigger_outcome_fenced_witness:
  "(\<exists>u. fst (trigger_record_outcome_with_fallback example_trigger 1 None example_result
        (run_trigger_op (TriggerUpdateStatus 7 TriggerPaused) example_registry)) = TriggerStale (Some u) \<and>
      tg_status u = TriggerPaused)"
proof -
  let ?ops = "[TriggerUpdateStatus 7 TriggerPaused] :: unit trigger_op list"
  let ?now = "fold run_trigger_op ?ops example_registry"
  let ?c = "trigger_record_outcome_with_fallback example_trigger 1 None example_result ?now"
  have f: "find_trigger 7 example_registry = Some example_trigger"
    by (simp add: find_trigger_def example_registry_triggers example_trigger_def)
  have g: "tg_lifecycle_generation example_trigger = 1" by (simp add: example_trigger_def)
  have st: "map_option tg_status (find_trigger 7 ?now) = Some TriggerPaused"
    using f by (simp add: find_trigger_def triggers_of_run find_write write_status_def)
  have "(if bump_count trigger_op_bumps run_trigger_op 7 ?ops example_registry = 0
     then \<exists>u. fst ?c = TriggerApplied (Some u) \<and> find_trigger 7 (snd ?c) = Some u \<and>
       tg_status u = tri_next_status example_result \<and>
       tg_lifecycle_generation u = tg_lifecycle_generation example_trigger + 1
     else \<exists>c u. find_trigger 7 ?now = Some c \<and> fst ?c = TriggerStale (Some u) \<and>
       find_trigger 7 (snd ?c) = Some u \<and> tg_status u = tg_status c \<and>
       tg_lifecycle_generation u = tg_lifecycle_generation c \<and>
       tg_consumed_evidence_fingerprint u = tg_consumed_evidence_fingerprint c) \<and>
    (\<forall>j. j \<noteq> 7 \<longrightarrow> find_trigger j (snd ?c) = find_trigger j ?now)"
    by (rule trigger_outcome_fenced [OF f _ _ refl]) (simp_all add: g)
  then show ?thesis using st by auto
qed

theorem trigger_reconcile_exact_witness:
  "tr_active_count (trs_projection (reconcile_tabs_projection [] example_registry)) = 0"
  using trigger_reconcile_exact [of "[]" example_registry]
  by (auto simp: Let_def find_tab_def filter_empty_conv)

end
