(* ===== verification/Rub_Orchestration.thy ===== *)
theory Rub_Orchestration
  imports Rub_Automation "HOL-Library.List_Lexorder" "HOL-Library.Char_ord"
begin

text \<open>
  The session's orchestration registry (\<^verbatim>\<open>rub-daemon/src/orchestration_runtime.rs\<close> and its
  \<^verbatim>\<open>mutation\<close>, \<^verbatim>\<open>events\<close>, \<^verbatim>\<open>projection\<close> and \<^verbatim>\<open>sessions\<close> modules): rules that react to one session
  and act on another, their group projection by correlation key, the refresh fence against older
  readings of the session registry, and the lifecycle generation fence.
  The wall clock is an argument: \<^verbatim>\<open>refresh_counts\<close> reads it twice, once for the rule counts and once
  inside \<^verbatim>\<open>build_groups\<close>, so a refresh takes a pair of readings.
  A \<^verbatim>\<open>BTreeMap\<close> is an association list kept in key order.
\<close>

section \<open>State\<close>

definition ORCHESTRATION_EVENT_LIMIT :: nat where
  "ORCHESTRATION_EVENT_LIMIT = 64"

datatype 'n orchestration_outcome_commit =
    OrchestrationApplied "'n orchestration_rule_info option"
  | OrchestrationStale "'n orchestration_rule_info option"

record 'n orchestration_runtime_state =
  ors_projection :: "'n orchestration_runtime_info"
  ors_network_request_baselines :: "(u32, network_request_baseline) mapping"
  ors_last_refresh_sequence :: u64
  ors_next_event_sequence :: u64
  ors_recent_events :: "'n orchestration_event_info list"

definition orchestration_runtime_default :: "'n orchestration_runtime_state" where
  "orchestration_runtime_default =
     \<lparr>ors_projection = orchestration_runtime_info_default,
      ors_network_request_baselines = Mapping.empty, ors_last_refresh_sequence = 0,
      ors_next_event_sequence = 0, ors_recent_events = []\<rparr>"

type_synonym clock = "u64 \<times> u64"

abbreviation rules_of :: "'n orchestration_runtime_state \<Rightarrow> 'n orchestration_rule_info list" where
  "rules_of s \<equiv> or_rules (ors_projection s)"

definition set_rules ::
  "'n orchestration_rule_info list \<Rightarrow> 'n orchestration_runtime_state
   \<Rightarrow> 'n orchestration_runtime_state" where
  "set_rules rs s = s\<lparr>ors_projection := (ors_projection s)\<lparr>or_rules := rs\<rparr>\<rparr>"

definition find_rule :: "u32 \<Rightarrow> 'n orchestration_runtime_state \<Rightarrow> 'n orchestration_rule_info option" where
  "find_rule rid s = List.find (\<lambda>r. oru_id r = rid) (rules_of s)"

definition orchestration_trace ::
  "nat \<Rightarrow> 'n orchestration_runtime_state \<Rightarrow> 'n orchestration_event_info list" where
  "orchestration_trace last_n s = take_last last_n (ors_recent_events s)"

section \<open>Sessions\<close>

definition orchestration_session_path_state ::
  "string \<Rightarrow> string \<Rightarrow> string \<Rightarrow> path_reference_state" where
  "orchestration_session_path_state path_authority upstream_truth path_kind =
     \<lparr>prs_truth_level = ''operator_path_reference'', prs_path_authority = path_authority,
      prs_upstream_truth = upstream_truth, prs_path_kind = path_kind,
      prs_control_role = ''display_only''\<rparr>"

definition orchestration_session_projection_upstream_truth ::
  "orchestration_session_availability \<Rightarrow> string" where
  "orchestration_session_projection_upstream_truth availability =
     (case availability of
        CurrentFallback \<Rightarrow> ''current_session_runtime_authority''
      | _ \<Rightarrow> ''registry_authority_snapshot'')"

definition projected_orchestration_session ::
  "string \<Rightarrow> string \<Rightarrow> u32 \<Rightarrow> string \<Rightarrow> bool \<Rightarrow> string \<Rightarrow> orchestration_session_availability
   \<Rightarrow> string option \<Rightarrow> orchestration_session_info" where
  "projected_orchestration_session session_id session_name pid socket_path current
       ipc_protocol_version availability user_data_dir =
     (let upstream_truth = orchestration_session_projection_upstream_truth availability in
      \<lparr>ose_session_id = session_id, ose_session_name = session_name, ose_pid = pid,
       ose_socket_path = socket_path,
       ose_socket_path_state = Some (orchestration_session_path_state
         ''session.orchestration_runtime.known_sessions.socket_path'' upstream_truth
         ''session_socket_reference''),
       ose_current = current, ose_ipc_protocol_version = ipc_protocol_version,
       ose_availability = availability,
       ose_addressing_supported = (availability = Addressable \<or> availability = CurrentFallback),
       ose_user_data_dir = user_data_dir,
       ose_user_data_dir_state = map_option (\<lambda>_. orchestration_session_path_state
         ''session.orchestration_runtime.known_sessions.user_data_dir'' upstream_truth
         ''managed_user_data_directory'') user_data_dir\<rparr>)"

definition orchestration_session_addressability_reason ::
  "orchestration_session_info \<Rightarrow> string option" where
  "orchestration_session_addressability_reason session =
     (case ose_availability session of
        Addressable \<Rightarrow> None
      | CurrentFallback \<Rightarrow> None
      | BusyOrUnknown \<Rightarrow> Some ''busy_or_unknown''
      | ProtocolIncompatible \<Rightarrow> Some ''protocol_incompatible''
      | HardCutReleasePending \<Rightarrow> Some ''hard_cut_release_pending''
      | PendingStartup \<Rightarrow> Some ''pending_startup'')"

datatype rule_session_state = SessionAddressable | SessionMissing | SessionNotAddressable

definition rule_session_state_of :: "orchestration_session_info option \<Rightarrow> rule_session_state" where
  "rule_session_state_of session =
     (case session of
        None \<Rightarrow> SessionMissing
      | Some ses \<Rightarrow> if orchestration_session_addressability_reason ses \<noteq> None
                   then SessionNotAddressable else SessionAddressable)"

fun unavailable_reason_for_rule_sessions ::
  "rule_session_state \<Rightarrow> rule_session_state \<Rightarrow> string option" where
  "unavailable_reason_for_rule_sessions SessionAddressable SessionAddressable = None"
| "unavailable_reason_for_rule_sessions SessionMissing SessionMissing =
     Some ''source_and_target_sessions_missing''"
| "unavailable_reason_for_rule_sessions SessionMissing SessionAddressable =
     Some ''source_session_missing''"
| "unavailable_reason_for_rule_sessions SessionAddressable SessionMissing =
     Some ''target_session_missing''"
| "unavailable_reason_for_rule_sessions SessionNotAddressable SessionAddressable =
     Some ''source_session_not_addressable''"
| "unavailable_reason_for_rule_sessions SessionAddressable SessionNotAddressable =
     Some ''target_session_not_addressable''"
| "unavailable_reason_for_rule_sessions SessionNotAddressable SessionNotAddressable =
     Some ''source_and_target_sessions_not_addressable''"
| "unavailable_reason_for_rule_sessions SessionMissing SessionNotAddressable =
     Some ''source_session_missing_target_not_addressable''"
| "unavailable_reason_for_rule_sessions SessionNotAddressable SessionMissing =
     Some ''source_session_not_addressable_target_missing''"

section \<open>Events\<close>

fun orchestration_outcome_event_kind ::
  "orchestration_rule_status \<Rightarrow> orchestration_event_kind option" where
  "orchestration_outcome_event_kind RuleFired = Some RuleEventFired"
| "orchestration_outcome_event_kind RuleBlocked = Some RuleEventBlocked"
| "orchestration_outcome_event_kind RuleDegraded = Some RuleEventDegraded"
| "orchestration_outcome_event_kind RuleArmed = None"
| "orchestration_outcome_event_kind RulePaused = None"
| "orchestration_outcome_event_kind RuleExpired = None"

definition orchestration_push_event ::
  "'n orchestration_event_info \<Rightarrow> 'n orchestration_runtime_state
   \<Rightarrow> 'n orchestration_runtime_state" where
  "orchestration_push_event event s =
     (let sequence = max (ors_next_event_sequence s) 1 in
      s\<lparr>ors_next_event_sequence := sequence + 1,
        ors_recent_events := pop_front_to ORCHESTRATION_EVENT_LIMIT
          (ors_recent_events s @ [event\<lparr>oe_sequence := sequence\<rparr>])\<rparr>)"

text \<open>The event literal the lifecycle operations share: the rule's identity, and no outcome.\<close>

definition rule_event ::
  "orchestration_event_kind \<Rightarrow> 'n orchestration_rule_info \<Rightarrow> string \<Rightarrow> string option
   \<Rightarrow> 'n orchestration_event_info" where
  "rule_event kind rule summary unavailable =
     \<lparr>oe_sequence = 0, oe_kind = kind, oe_rule_id = Some (oru_id rule), oe_summary = summary,
      oe_unavailable_reason = unavailable, oe_evidence = oru_last_condition_evidence rule,
      oe_correlation_key = Some (oru_correlation_key rule),
      oe_idempotency_key = Some (oru_idempotency_key rule), oe_error_code = None,
      oe_reason = None, oe_error_context = None, oe_committed_steps = None,
      oe_total_steps = None\<rparr>"

definition rule_label :: "'n orchestration_rule_info \<Rightarrow> string" where
  "rule_label rule = ''orchestration rule '' @ show_nat (unat (oru_id rule))"

definition reconcile_rule ::
  "orchestration_session_info list \<Rightarrow> 'n orchestration_rule_info \<Rightarrow> 'n orchestration_rule_info" where
  "reconcile_rule known rule =
     (let source = List.find (\<lambda>ses. ose_session_id ses = oad_session_id (oru_source rule)) known;
          target = List.find (\<lambda>ses. ose_session_id ses = oad_session_id (oru_target rule)) known
      in rule\<lparr>oru_source := (case source of None \<Rightarrow> oru_source rule
                | Some ses \<Rightarrow> (oru_source rule)\<lparr>oad_session_name := ose_session_name ses\<rparr>),
              oru_target := (case target of None \<Rightarrow> oru_target rule
                | Some ses \<Rightarrow> (oru_target rule)\<lparr>oad_session_name := ose_session_name ses\<rparr>),
              oru_unavailable_reason := unavailable_reason_for_rule_sessions
                (rule_session_state_of source) (rule_session_state_of target)\<rparr>)"

definition reconcile_rule_event ::
  "'n orchestration_rule_info \<Rightarrow> 'n orchestration_rule_info \<Rightarrow> 'n orchestration_event_info list" where
  "reconcile_rule_event previous rule =
     (if oru_unavailable_reason previous \<noteq> oru_unavailable_reason rule then
        (case (oru_unavailable_reason previous, oru_unavailable_reason rule) of
           (_, Some reason) \<Rightarrow>
             [rule_event RuleEventUnavailable rule
                (rule_label rule @ '' became unavailable: '' @ reason) (Some reason)]
         | (Some _, None) \<Rightarrow>
             [rule_event RuleEventRecovered rule
                (rule_label rule @ '' recovered source/target session availability'') None]
         | (None, None) \<Rightarrow> [])
      else [])"

definition reconcile_sessions ::
  "'n orchestration_runtime_state \<Rightarrow> 'n orchestration_runtime_state" where
  "reconcile_sessions s =
     (let known = or_known_sessions (ors_projection s);
          pending_events =
            concat (map (\<lambda>r. reconcile_rule_event r (reconcile_rule known r)) (rules_of s));
          s = set_rules (map (reconcile_rule known) (rules_of s)) s
      in fold orchestration_push_event pending_events s)"

section \<open>Projection\<close>

definition rule_in_cooldown :: "'n orchestration_rule_info \<Rightarrow> u64 \<Rightarrow> bool" where
  "rule_in_cooldown rule now_ms =
     (case oep_cooldown_until_ms (oru_execution_policy rule) of
        Some until \<Rightarrow> until > now_ms
      | None \<Rightarrow> False)"

definition rule_resident :: "'n orchestration_rule_info \<Rightarrow> bool" where
  "rule_resident rule \<longleftrightarrow> oru_status rule = RuleArmed \<and> oru_unavailable_reason rule = None"

definition empty_group :: "string \<Rightarrow> orchestration_group_info" where
  "empty_group key = \<lparr>ogr_correlation_key = key, ogr_rule_ids = [], ogr_active_rule_count = 0,
     ogr_cooldown_rule_count = 0, ogr_paused_rule_count = 0, ogr_unavailable_rule_count = 0\<rparr>"

definition group_add ::
  "u64 \<Rightarrow> 'n orchestration_rule_info \<Rightarrow> orchestration_group_info \<Rightarrow> orchestration_group_info" where
  "group_add now_ms rule entry =
     (let entry = entry\<lparr>ogr_rule_ids := ogr_rule_ids entry @ [oru_id rule]\<rparr>;
          entry = (if oru_status rule = RuleArmed \<and> oru_unavailable_reason rule = None then
                     (if rule_in_cooldown rule now_ms
                      then entry\<lparr>ogr_cooldown_rule_count := ogr_cooldown_rule_count entry + 1\<rparr>
                      else entry\<lparr>ogr_active_rule_count := ogr_active_rule_count entry + 1\<rparr>)
                   else entry);
          entry = (if oru_status rule = RulePaused
                   then entry\<lparr>ogr_paused_rule_count := ogr_paused_rule_count entry + 1\<rparr>
                   else entry);
          entry = (if oru_unavailable_reason rule \<noteq> None
                   then entry\<lparr>ogr_unavailable_rule_count := ogr_unavailable_rule_count entry + 1\<rparr>
                   else entry)
      in entry)"

definition build_groups ::
  "'n orchestration_rule_info list \<Rightarrow> u64 \<Rightarrow> orchestration_group_info list" where
  "build_groups rules now_ms =
     (let grouped = fold (\<lambda>rule m. btree_update (oru_correlation_key rule) (group_add now_ms rule)
                        (empty_group (oru_correlation_key rule)) m) rules []
      in map (\<lambda>g. g\<lparr>ogr_rule_ids := sort (ogr_rule_ids g)\<rparr>) (map snd grouped))"

definition refresh_counts ::
  "clock \<Rightarrow> 'n orchestration_runtime_state \<Rightarrow> 'n orchestration_runtime_state" where
  "refresh_counts clk s =
     (let now_ms = fst clk; p = ors_projection s; rules = or_rules p;
          groups = build_groups rules (snd clk)
      in s\<lparr>ors_projection := p\<lparr>
            or_groups := groups,
            or_group_count := length groups,
            or_active_rule_count :=
              length (filter (\<lambda>r. rule_resident r \<and> \<not> rule_in_cooldown r now_ms) rules),
            or_cooldown_rule_count :=
              length (filter (\<lambda>r. rule_resident r \<and> rule_in_cooldown r now_ms) rules),
            or_paused_rule_count := length (filter (\<lambda>r. oru_status r = RulePaused) rules),
            or_unavailable_rule_count :=
              length (filter (\<lambda>r. oru_unavailable_reason r \<noteq> None) rules)\<rparr>\<rparr>)"

definition all_rules_unavailable :: "'n orchestration_runtime_info \<Rightarrow> bool" where
  "all_rules_unavailable p \<longleftrightarrow>
     or_rules p \<noteq> [] \<and> or_unavailable_rule_count p = length (or_rules p)"

definition rule_result_degraded :: "'n orchestration_rule_info \<Rightarrow> bool" where
  "rule_result_degraded rule \<longleftrightarrow>
     (case oru_last_result rule of
        None \<Rightarrow> False
      | Some r \<Rightarrow> ore_status r = RuleBlocked \<or> ore_status r = RuleDegraded)"

definition orchestration_refresh_status ::
  "'n orchestration_runtime_state \<Rightarrow> 'n orchestration_runtime_state" where
  "orchestration_refresh_status s =
     (let p = ors_projection s in
      s\<lparr>ors_projection := p\<lparr>or_status :=
        (if or_degraded_reason p \<noteq> None \<or> all_rules_unavailable p
            \<or> list_ex rule_result_degraded (or_rules p) then OrchestrationDegraded
         else if or_session_count p > 0 \<or> or_rules p \<noteq> [] then OrchestrationActive
         else OrchestrationInactive)\<rparr>\<rparr>)"

text \<open>The two calls every operation ends with.\<close>

definition refresh ::
  "clock \<Rightarrow> 'n orchestration_runtime_state \<Rightarrow> 'n orchestration_runtime_state" where
  "refresh clk s = orchestration_refresh_status (refresh_counts clk s)"

section \<open>Mutation\<close>

definition rule_network_armed :: "'n orchestration_rule_info \<Rightarrow> bool" where
  "rule_network_armed r \<longleftrightarrow>
     oru_status r = RuleArmed \<and> tcs_kind (oru_condition r) = NetworkRequest"

definition rule_commit_network_request_baseline ::
  "'n orchestration_rule_info \<Rightarrow> network_request_baseline option
   \<Rightarrow> 'n orchestration_runtime_state \<Rightarrow> 'n orchestration_runtime_state" where
  "rule_commit_network_request_baseline rule network_baseline s =
     (if rule_network_armed rule then
        (case network_baseline of
           Some b \<Rightarrow> s\<lparr>ors_network_request_baselines :=
                       Mapping.update (oru_id rule) b (ors_network_request_baselines s)\<rparr>
         | None \<Rightarrow> s)
      else s\<lparr>ors_network_request_baselines :=
               Mapping.delete (oru_id rule) (ors_network_request_baselines s)\<rparr>)"

definition rule_retain_network_request_baselines ::
  "'n orchestration_runtime_state \<Rightarrow> 'n orchestration_runtime_state" where
  "rule_retain_network_request_baselines s =
     s\<lparr>ors_network_request_baselines :=
        Mapping.filter (\<lambda>rid _. list_ex (\<lambda>r. oru_id r = rid \<and> rule_network_armed r) (rules_of s))
          (ors_network_request_baselines s)\<rparr>"

definition set_last_rule ::
  "u32 \<Rightarrow> 'n orchestration_result_info \<Rightarrow> 'n orchestration_runtime_state
   \<Rightarrow> 'n orchestration_runtime_state" where
  "set_last_rule rid result s =
     s\<lparr>ors_projection := (ors_projection s)\<lparr>or_last_rule_id := Some rid,
        or_last_rule_result := Some result\<rparr>\<rparr>"

definition rule_register_with_network_baseline ::
  "clock \<Rightarrow> 'n orchestration_rule_info \<Rightarrow> network_request_baseline option
   \<Rightarrow> 'n orchestration_runtime_state
   \<Rightarrow> (u32 + 'n orchestration_rule_info) \<times> 'n orchestration_runtime_state" where
  "rule_register_with_network_baseline clk rule network_baseline s =
     (case List.find (\<lambda>existing. oru_idempotency_key existing = oru_idempotency_key rule)
             (rules_of s) of
        Some existing \<Rightarrow> (Inl (oru_id existing), s)
      | None \<Rightarrow>
          let rule = rule\<lparr>oru_lifecycle_generation := max (oru_lifecycle_generation rule) 1\<rparr>;
              s = s\<lparr>ors_projection := (ors_projection s)\<lparr>or_last_rule_id := Some (oru_id rule)\<rparr>\<rparr>;
              s = set_rules (rules_of s @ [rule]) s;
              s = rule_commit_network_request_baseline rule network_baseline s;
              s = orchestration_push_event
                    (rule_event RuleEventRegistered rule (rule_label rule @ '' registered'')
                       (oru_unavailable_reason rule)) s
          in (Inr rule, refresh clk s))"

definition rule_register ::
  "clock \<Rightarrow> 'n orchestration_rule_info \<Rightarrow> 'n orchestration_runtime_state
   \<Rightarrow> (u32 + 'n orchestration_rule_info) \<times> 'n orchestration_runtime_state" where
  "rule_register clk rule s = rule_register_with_network_baseline clk rule None s"

definition rule_status_event :: "orchestration_rule_status \<Rightarrow> (orchestration_event_kind \<times> string) option" where
  "rule_status_event status =
     (case status of
        RulePaused \<Rightarrow> Some (RuleEventPaused, ''paused'')
      | RuleArmed \<Rightarrow> Some (RuleEventResumed, ''resumed'')
      | _ \<Rightarrow> None)"

definition write_rule_status ::
  "orchestration_rule_status \<Rightarrow> 'n orchestration_rule_info \<Rightarrow> 'n orchestration_rule_info" where
  "write_rule_status status r = r\<lparr>oru_status := status,
     oru_lifecycle_generation := saturating_add (oru_lifecycle_generation r) 1\<rparr>"

definition write_rule_evidence ::
  "trigger_evidence_info option \<Rightarrow> 'n orchestration_rule_info \<Rightarrow> 'n orchestration_rule_info" where
  "write_rule_evidence evidence r = r\<lparr>oru_last_condition_evidence := evidence\<rparr>"

definition write_rule_outcome ::
  "trigger_evidence_info option \<Rightarrow> 'n orchestration_result_info \<Rightarrow> 'n orchestration_rule_info
   \<Rightarrow> 'n orchestration_rule_info" where
  "write_rule_outcome evidence result r = r\<lparr>oru_status := ore_next_status result,
     oru_lifecycle_generation := saturating_add (oru_lifecycle_generation r) 1,
     oru_execution_policy :=
       (oru_execution_policy r)\<lparr>oep_cooldown_until_ms := ore_cooldown_until_ms result\<rparr>,
     oru_last_condition_evidence := evidence,
     oru_last_result := Some result\<rparr>"

definition write_rule_stale_outcome ::
  "trigger_evidence_info option \<Rightarrow> 'n orchestration_result_info \<Rightarrow> 'n orchestration_rule_info
   \<Rightarrow> 'n orchestration_rule_info" where
  "write_rule_stale_outcome evidence result r =
     r\<lparr>oru_last_condition_evidence := evidence, oru_last_result := Some result\<rparr>"

definition rule_update_status_with_baseline ::
  "clock \<Rightarrow> u32 \<Rightarrow> orchestration_rule_status \<Rightarrow> network_request_baseline option
   \<Rightarrow> 'n orchestration_runtime_state
   \<Rightarrow> 'n orchestration_rule_info option \<times> 'n orchestration_runtime_state" where
  "rule_update_status_with_baseline clk rid status network_baseline s =
     (case find_rule rid s of
        None \<Rightarrow> (None, s)
      | Some found \<Rightarrow>
          let rule = write_rule_status status found;
              s = set_rules
                    (update_first (\<lambda>r. oru_id r = rid) (write_rule_status status) (rules_of s)) s;
              s = rule_commit_network_request_baseline rule network_baseline s;
              s = (case rule_status_event status of
                     None \<Rightarrow> s
                   | Some (kind, verb) \<Rightarrow>
                       orchestration_push_event
                         (rule_event kind rule (rule_label rule @ '' '' @ verb)
                            (oru_unavailable_reason rule)) s)
          in (Some rule, refresh clk s))"

definition rule_update_status ::
  "clock \<Rightarrow> u32 \<Rightarrow> orchestration_rule_status \<Rightarrow> 'n orchestration_runtime_state
   \<Rightarrow> 'n orchestration_rule_info option \<times> 'n orchestration_runtime_state" where
  "rule_update_status clk rid status s =
     rule_update_status_with_baseline clk rid status
       (Mapping.lookup (ors_network_request_baselines s) rid) s"

definition rule_update_status_with_network_baseline ::
  "clock \<Rightarrow> u32 \<Rightarrow> orchestration_rule_status \<Rightarrow> network_request_baseline option
   \<Rightarrow> 'n orchestration_runtime_state
   \<Rightarrow> 'n orchestration_rule_info option \<times> 'n orchestration_runtime_state" where
  "rule_update_status_with_network_baseline clk rid status network_baseline s =
     rule_update_status_with_baseline clk rid status network_baseline s"

definition rule_remove ::
  "clock \<Rightarrow> u32 \<Rightarrow> 'n orchestration_runtime_state
   \<Rightarrow> 'n orchestration_rule_info option \<times> 'n orchestration_runtime_state" where
  "rule_remove clk rid s =
     (case find_rule rid s of
        None \<Rightarrow> (None, s)
      | Some removed \<Rightarrow>
          let s = set_rules (remove_first (\<lambda>r. oru_id r = rid) (rules_of s)) s;
              s = s\<lparr>ors_network_request_baselines :=
                     Mapping.delete (oru_id removed) (ors_network_request_baselines s)\<rparr>;
              s = orchestration_push_event
                    (rule_event RuleEventRemoved removed (rule_label removed @ '' removed'')
                       (oru_unavailable_reason removed)) s
          in (Some removed, refresh clk s))"

definition rule_push_outcome_event ::
  "'n orchestration_rule_info \<Rightarrow> trigger_evidence_info option \<Rightarrow> 'n orchestration_result_info
   \<Rightarrow> 'n orchestration_runtime_state \<Rightarrow> 'n orchestration_runtime_state" where
  "rule_push_outcome_event rule evidence result s =
     (case orchestration_outcome_event_kind (ore_status result) of
        None \<Rightarrow> s
      | Some kind \<Rightarrow> orchestration_push_event
          \<lparr>oe_sequence = 0, oe_kind = kind, oe_rule_id = Some (oru_id rule),
           oe_summary = ore_summary result, oe_unavailable_reason = oru_unavailable_reason rule,
           oe_evidence = evidence, oe_correlation_key = Some (oru_correlation_key rule),
           oe_idempotency_key = Some (oru_idempotency_key rule),
           oe_error_code = ore_error_code result, oe_reason = ore_reason result,
           oe_error_context = ore_error_context result,
           oe_committed_steps = Some (ore_committed_steps result),
           oe_total_steps = Some (ore_total_steps result)\<rparr> s)"

definition rule_push_stale_outcome_event ::
  "'n orchestration_rule_info \<Rightarrow> trigger_evidence_info option \<Rightarrow> 'n orchestration_result_info
   \<Rightarrow> 'n orchestration_runtime_state \<Rightarrow> 'n orchestration_runtime_state" where
  "rule_push_stale_outcome_event rule evidence result s =
     orchestration_push_event
       \<lparr>oe_sequence = 0, oe_kind = RuleEventDegraded, oe_rule_id = Some (oru_id rule),
        oe_summary = rule_label rule @ '' skipped stale lifecycle outcome '' @ [CHR 0x27]
          @ ore_summary result @ [CHR 0x27] @ '' because newer rule authority won'',
        oe_unavailable_reason = oru_unavailable_reason rule,
        oe_evidence = evidence, oe_correlation_key = Some (oru_correlation_key rule),
        oe_idempotency_key = Some (oru_idempotency_key rule),
        oe_error_code = ore_error_code result,
        oe_reason = Some ''orchestration_lifecycle_generation_stale'', oe_error_context = None,
        oe_committed_steps = Some (ore_committed_steps result),
        oe_total_steps = Some (ore_total_steps result)\<rparr> s"

definition generation_mismatch :: "u64 option \<Rightarrow> 'n orchestration_rule_info \<Rightarrow> bool" where
  "generation_mismatch expected rule =
     (case expected of None \<Rightarrow> False | Some g \<Rightarrow> oru_lifecycle_generation rule \<noteq> g)"

definition rule_record_outcome ::
  "clock \<Rightarrow> u32 \<Rightarrow> u64 option \<Rightarrow> trigger_evidence_info option \<Rightarrow> 'n orchestration_result_info
   \<Rightarrow> 'n orchestration_runtime_state
   \<Rightarrow> 'n orchestration_outcome_commit \<times> 'n orchestration_runtime_state" where
  "rule_record_outcome clk rid expected_generation evidence result s =
     (case find_rule rid s of
        None \<Rightarrow> (OrchestrationStale None, s)
      | Some current \<Rightarrow>
          if generation_mismatch expected_generation current then
            let rule = write_rule_stale_outcome evidence result current;
                s = set_rules (update_first (\<lambda>r. oru_id r = rid)
                      (write_rule_stale_outcome evidence result) (rules_of s)) s;
                s = set_last_rule rid result s;
                s = rule_push_stale_outcome_event rule evidence result s
            in (OrchestrationStale (Some rule), refresh clk s)
          else
            let rule = write_rule_outcome evidence result current;
                s = set_rules (update_first (\<lambda>r. oru_id r = rid)
                      (write_rule_outcome evidence result) (rules_of s)) s;
                s = (if oru_status rule \<noteq> RuleArmed
                        \<or> tcs_kind (oru_condition rule) \<noteq> NetworkRequest
                     then s\<lparr>ors_network_request_baselines :=
                            Mapping.delete (oru_id rule) (ors_network_request_baselines s)\<rparr>
                     else s);
                s = set_last_rule rid result s;
                s = rule_push_outcome_event rule evidence result s
            in (OrchestrationApplied (Some rule), refresh clk s))"

definition rule_set_condition_evidence ::
  "clock \<Rightarrow> u32 \<Rightarrow> u64 option \<Rightarrow> trigger_evidence_info option \<Rightarrow> 'n orchestration_runtime_state
   \<Rightarrow> 'n orchestration_rule_info option \<times> 'n orchestration_runtime_state" where
  "rule_set_condition_evidence clk rid expected_generation evidence s =
     (case find_rule rid s of
        None \<Rightarrow> (None, s)
      | Some found \<Rightarrow>
          if generation_mismatch expected_generation found then (None, s)
          else
            let s = set_rules (update_first (\<lambda>r. oru_id r = rid) (write_rule_evidence evidence)
                      (rules_of s)) s
            in (Some (write_rule_evidence evidence found), refresh clk s))"

definition rule_record_outcome_with_fallback ::
  "clock \<Rightarrow> 'n orchestration_rule_info \<Rightarrow> u64 option \<Rightarrow> trigger_evidence_info option
   \<Rightarrow> 'n orchestration_result_info \<Rightarrow> 'n orchestration_runtime_state
   \<Rightarrow> 'n orchestration_outcome_commit \<times> 'n orchestration_runtime_state" where
  "rule_record_outcome_with_fallback clk snapshot expected_generation evidence result s =
     (if list_ex (\<lambda>r. oru_id r = oru_id snapshot) (rules_of s) then
        rule_record_outcome clk (oru_id snapshot) expected_generation evidence result s
      else if expected_generation \<noteq> None then
        let s = set_last_rule (oru_id snapshot) result s;
            s = rule_push_stale_outcome_event snapshot evidence result s
        in (OrchestrationStale None, refresh clk s)
      else
        let s = set_last_rule (oru_id snapshot) result s;
            s = rule_push_outcome_event snapshot evidence result s
        in (OrchestrationApplied None, refresh clk s))"

definition orchestration_replace ::
  "clock \<Rightarrow> u64 \<Rightarrow> string \<Rightarrow> string \<Rightarrow> orchestration_session_info list \<Rightarrow> bool \<Rightarrow> bool
   \<Rightarrow> string option \<Rightarrow> 'n orchestration_runtime_state \<Rightarrow> 'n orchestration_runtime_state" where
  "orchestration_replace clk sequence current_session_id current_session_name known_sessions
       addressing_supported execution_supported degraded_reason s =
     (if sequence < ors_last_refresh_sequence s then s
      else
        let s = s\<lparr>ors_last_refresh_sequence := sequence,
               ors_projection := (ors_projection s)\<lparr>
                 or_current_session_id := Some current_session_id,
                 or_current_session_name := Some current_session_name,
                 or_known_sessions := known_sessions,
                 or_session_count := length known_sessions,
                 or_addressing_supported := addressing_supported,
                 or_execution_supported := execution_supported,
                 or_degraded_reason := degraded_reason\<rparr>\<rparr>;
            s = rule_retain_network_request_baselines s;
            s = reconcile_sessions s
        in refresh clk s)"

definition orchestration_mark_degraded ::
  "clock \<Rightarrow> u64 \<Rightarrow> orchestration_session_info \<Rightarrow> string \<Rightarrow> 'n orchestration_runtime_state
   \<Rightarrow> 'n orchestration_runtime_state" where
  "orchestration_mark_degraded clk sequence current_session reason s =
     (if sequence < ors_last_refresh_sequence s then s
      else
        let s = s\<lparr>ors_last_refresh_sequence := sequence,
               ors_projection := (ors_projection s)\<lparr>
                 or_current_session_id := Some (ose_session_id current_session),
                 or_current_session_name := Some (ose_session_name current_session),
                 or_known_sessions := [current_session],
                 or_session_count := 1,
                 or_addressing_supported := False,
                 or_execution_supported := True,
                 or_degraded_reason := Some reason\<rparr>\<rparr>;
            s = rule_retain_network_request_baselines s;
            s = reconcile_sessions s
        in refresh clk s)"

section \<open>Sequences of operations\<close>

datatype 'n rule_op =
    RuleRegister "'n orchestration_rule_info" "network_request_baseline option"
  | RuleUpdateStatus u32 orchestration_rule_status
  | RuleUpdateStatusBaseline u32 orchestration_rule_status "network_request_baseline option"
  | RuleRemove u32
  | RuleRecordOutcome u32 "u64 option" "trigger_evidence_info option" "'n orchestration_result_info"
  | RuleSetEvidence u32 "u64 option" "trigger_evidence_info option"
  | RuleRecordFallback "'n orchestration_rule_info" "u64 option" "trigger_evidence_info option"
      "'n orchestration_result_info"
  | SessionsReplace u64 string string "orchestration_session_info list" bool bool "string option"
  | SessionsDegraded u64 orchestration_session_info string

fun run_rule_op ::
  "clock \<times> 'n rule_op \<Rightarrow> 'n orchestration_runtime_state \<Rightarrow> 'n orchestration_runtime_state" where
  "run_rule_op (clk, RuleRegister r b) s = snd (rule_register_with_network_baseline clk r b s)"
| "run_rule_op (clk, RuleUpdateStatus i st) s = snd (rule_update_status clk i st s)"
| "run_rule_op (clk, RuleUpdateStatusBaseline i st b) s =
     snd (rule_update_status_with_network_baseline clk i st b s)"
| "run_rule_op (clk, RuleRemove i) s = snd (rule_remove clk i s)"
| "run_rule_op (clk, RuleRecordOutcome i g e r) s = snd (rule_record_outcome clk i g e r s)"
| "run_rule_op (clk, RuleSetEvidence i g e) s = snd (rule_set_condition_evidence clk i g e s)"
| "run_rule_op (clk, RuleRecordFallback snap g e r) s =
     snd (rule_record_outcome_with_fallback clk snap g e r s)"
| "run_rule_op (clk, SessionsReplace n i nm known a x d) s =
     orchestration_replace clk n i nm known a x d s"
| "run_rule_op (clk, SessionsDegraded n ses reason) s = orchestration_mark_degraded clk n ses reason s"

inductive orchestration_reachable :: "'n orchestration_runtime_state \<Rightarrow> bool" where
  orchestration_init: "orchestration_reachable orchestration_runtime_default"
| orchestration_step: "orchestration_reachable s \<Longrightarrow>
    unat (ors_next_event_sequence s) + length (rules_of s) < 2 ^ 64 - 1 \<Longrightarrow>
    orchestration_reachable (run_rule_op op s)"

fun rule_op_bumps :: "clock \<times> 'n rule_op \<Rightarrow> 'n orchestration_runtime_state \<Rightarrow> u32 \<Rightarrow> bool" where
  "rule_op_bumps (_, RuleUpdateStatus i _) s j \<longleftrightarrow> i = j"
| "rule_op_bumps (_, RuleUpdateStatusBaseline i _ _) s j \<longleftrightarrow> i = j"
| "rule_op_bumps (_, RuleRecordOutcome i g _ _) s j \<longleftrightarrow>
     i = j \<and> (g = None \<or> map_option oru_lifecycle_generation (find_rule j s) = g)"
| "rule_op_bumps (_, RuleRecordFallback r g _ _) s j \<longleftrightarrow>
     oru_id r = j \<and> (g = None \<or> map_option oru_lifecycle_generation (find_rule j s) = g)"
| "rule_op_bumps _ s j \<longleftrightarrow> False"

fun rule_op_drops :: "clock \<times> 'n rule_op \<Rightarrow> u32 \<Rightarrow> bool" where
  "rule_op_drops (_, RuleRemove i) j \<longleftrightarrow> i = j"
| "rule_op_drops _ j \<longleftrightarrow> False"

section \<open>Groups\<close>

abbreviation grouped ::
  "u64 \<Rightarrow> 'n orchestration_rule_info list \<Rightarrow> (string \<times> orchestration_group_info) list" where
  "grouped now rules \<equiv> fold (\<lambda>rule m. btree_update (oru_correlation_key rule) (group_add now rule)
     (empty_group (oru_correlation_key rule)) m) rules []"

lemma grouped_sorted: "sorted_wrt (<) (map fst (grouped now rules))"
  by (induction rules rule: rev_induct) (simp_all add: btree_update_sorted)

lemma grouped_keys: "fst ` set (grouped now rules) = oru_correlation_key ` set rules"
  by (induction rules rule: rev_induct) (simp_all add: btree_update_keys)

lemma grouped_lookup:
  "map_of (grouped now rules) k =
     (if k \<in> oru_correlation_key ` set rules
      then Some (fold (group_add now) (filter (\<lambda>r. oru_correlation_key r = k) rules) (empty_group k))
      else None)"
proof (induction rules rule: rev_induct)
  case (snoc r rules)
  have "filter (\<lambda>r. oru_correlation_key r = k) rules = []" if "k \<notin> oru_correlation_key ` set rules"
    using that by (auto simp: filter_empty_conv)
  with snoc show ?case by (auto simp: btree_update_lookup grouped_sorted)
qed simp

lemma group_fold:
  "fold (group_add now) rs (empty_group k) =
     \<lparr>ogr_correlation_key = k, ogr_rule_ids = map oru_id rs,
      ogr_active_rule_count = length (filter (\<lambda>r. rule_resident r \<and> \<not> rule_in_cooldown r now) rs),
      ogr_cooldown_rule_count = length (filter (\<lambda>r. rule_resident r \<and> rule_in_cooldown r now) rs),
      ogr_paused_rule_count = length (filter (\<lambda>r. oru_status r = RulePaused) rs),
      ogr_unavailable_rule_count = length (filter (\<lambda>r. oru_unavailable_reason r \<noteq> None) rs)\<rparr>"
proof (induction rs rule: rev_induct)
  case Nil
  show ?case by (simp add: empty_group_def)
next
  case (snoc r rs)
  then show ?case by (simp add: group_add_def rule_resident_def Let_def)
qed

definition group_of ::
  "u64 \<Rightarrow> 'n orchestration_rule_info list \<Rightarrow> string \<Rightarrow> orchestration_group_info" where
  "group_of now rules k =
     (let members = filter (\<lambda>r. oru_correlation_key r = k) rules in
      \<lparr>ogr_correlation_key = k, ogr_rule_ids = sort (map oru_id members),
       ogr_active_rule_count =
         length (filter (\<lambda>r. rule_resident r \<and> \<not> rule_in_cooldown r now) members),
       ogr_cooldown_rule_count =
         length (filter (\<lambda>r. rule_resident r \<and> rule_in_cooldown r now) members),
       ogr_paused_rule_count = length (filter (\<lambda>r. oru_status r = RulePaused) members),
       ogr_unavailable_rule_count =
         length (filter (\<lambda>r. oru_unavailable_reason r \<noteq> None) members)\<rparr>)"

lemma build_groups_map:
  "build_groups rules now =
     map (group_of now rules) (sorted_list_of_set (oru_correlation_key ` set rules))"
proof -
  let ?m = "grouped now rules"
  let ?sorted = "\<lambda>g. g\<lparr>ogr_rule_ids := sort (ogr_rule_ids g)\<rparr>"
  have s: "sorted_wrt (<) (map fst ?m)" by (rule grouped_sorted)
  then have keys: "map fst ?m = sorted_list_of_set (oru_correlation_key ` set rules)"
    using sorted_list_of_set.idem_if_sorted_distinct [of "map fst ?m"]
    by (simp add: strict_sorted_iff grouped_keys)
  have "?sorted (snd p) = group_of now rules (fst p)" if "p \<in> set ?m" for p
  proof -
    have "map_of ?m (fst p) = Some (snd p)"
      using that s by (auto simp: strict_sorted_iff intro: map_of_is_SomeI)
    then have "snd p = fold (group_add now)
        (filter (\<lambda>r. oru_correlation_key r = fst p) rules) (empty_group (fst p))"
      by (simp add: grouped_lookup split: if_splits)
    then show ?thesis by (simp add: group_fold group_of_def Let_def)
  qed
  then have "build_groups rules now = map (group_of now rules) (map fst ?m)"
    by (simp add: build_groups_def Let_def)
  then show ?thesis by (simp add: keys)
qed

lemma sum_partition:
  "finite K \<Longrightarrow> key ` set xs \<subseteq> K \<Longrightarrow>
   (\<Sum>k\<in>K. length (filter P (filter (\<lambda>x. key x = k) xs))) = length (filter P xs)"
proof (induction xs)
  case (Cons x xs)
  have "length (filter P (filter (\<lambda>x. key x = k) (x # xs))) =
      (if key x = k then if P x then 1 else 0 else 0) + length (filter P (filter (\<lambda>x. key x = k) xs))"
    for k by simp
  then show ?case using Cons by (simp add: sum.distrib)
qed simp

lemma sum_list_groups:
  "(\<And>k. size_of (group_of now rules k) =
      length (filter P (filter (\<lambda>r. oru_correlation_key r = k) rules))) \<Longrightarrow>
   sum_list (map size_of (build_groups rules now)) = length (filter P rules)"
  using sum_partition [of "oru_correlation_key ` set rules" oru_correlation_key rules P]
  by (simp add: build_groups_map comp_def sum_list_distinct_conv_sum_set)

section \<open>What each step touches\<close>

lemmas rule_op_defs =
  rule_register_with_network_baseline_def rule_update_status_def
  rule_update_status_with_network_baseline_def rule_update_status_with_baseline_def
  rule_remove_def rule_record_outcome_def rule_set_condition_evidence_def
  rule_record_outcome_with_fallback_def orchestration_replace_def orchestration_mark_degraded_def
  reconcile_sessions_def

lemmas rule_push_defs = rule_push_outcome_event_def rule_push_stale_outcome_event_def

lemma rules_of_steps [simp]:
  "rules_of (set_rules rs s) = rs"
  "rules_of (orchestration_push_event e s) = rules_of s"
  "rules_of (refresh clk s) = rules_of s"
  "rules_of (set_last_rule i r s) = rules_of s"
  "rules_of (rule_commit_network_request_baseline ru b s) = rules_of s"
  "rules_of (rule_retain_network_request_baselines s) = rules_of s"
  "rules_of (rule_push_outcome_event ru ev r s) = rules_of s"
  "rules_of (rule_push_stale_outcome_event ru ev r s) = rules_of s"
  by (simp_all add: set_rules_def orchestration_push_event_def refresh_def refresh_counts_def
      orchestration_refresh_status_def set_last_rule_def rule_commit_network_request_baseline_def
      rule_retain_network_request_baselines_def rule_push_defs Let_def split: option.splits)

lemma rules_of_pushes [simp]: "rules_of (fold orchestration_push_event es s) = rules_of s"
  by (induction es arbitrary: s) simp_all

lemma rule_baselines_of_steps [simp]:
  "ors_network_request_baselines (set_rules rs s) = ors_network_request_baselines s"
  "ors_network_request_baselines (orchestration_push_event e s) = ors_network_request_baselines s"
  "ors_network_request_baselines (refresh clk s) = ors_network_request_baselines s"
  "ors_network_request_baselines (set_last_rule i r s) = ors_network_request_baselines s"
  "ors_network_request_baselines (rule_push_outcome_event ru ev r s) =
     ors_network_request_baselines s"
  "ors_network_request_baselines (rule_push_stale_outcome_event ru ev r s) =
     ors_network_request_baselines s"
  by (simp_all add: set_rules_def orchestration_push_event_def refresh_def refresh_counts_def
      orchestration_refresh_status_def set_last_rule_def rule_push_defs Let_def split: option.splits)

lemma rule_baselines_of_pushes [simp]:
  "ors_network_request_baselines (fold orchestration_push_event es s) =
     ors_network_request_baselines s"
  by (induction es arbitrary: s) simp_all

lemma rule_log_of_steps [simp]:
  "ors_next_event_sequence (set_rules rs s) = ors_next_event_sequence s"
  "ors_recent_events (set_rules rs s) = ors_recent_events s"
  "ors_next_event_sequence (refresh clk s) = ors_next_event_sequence s"
  "ors_recent_events (refresh clk s) = ors_recent_events s"
  "ors_next_event_sequence (set_last_rule i r s) = ors_next_event_sequence s"
  "ors_recent_events (set_last_rule i r s) = ors_recent_events s"
  "ors_next_event_sequence (rule_commit_network_request_baseline ru b s) =
     ors_next_event_sequence s"
  "ors_recent_events (rule_commit_network_request_baseline ru b s) = ors_recent_events s"
  "ors_next_event_sequence (rule_retain_network_request_baselines s) = ors_next_event_sequence s"
  "ors_recent_events (rule_retain_network_request_baselines s) = ors_recent_events s"
  by (simp_all add: set_rules_def refresh_def refresh_counts_def orchestration_refresh_status_def
      set_last_rule_def rule_commit_network_request_baseline_def
      rule_retain_network_request_baselines_def Let_def split: option.splits)

interpretation rule_log: exact_event_log oe_sequence ors_next_event_sequence ors_recent_events
    orchestration_push_event "\<lambda>e n. e\<lparr>oe_sequence := n\<rparr>" ORCHESTRATION_EVENT_LIMIT
proof unfold_locales
  fix e :: "'a orchestration_event_info" and s
  show "\<exists>d. ors_recent_events (orchestration_push_event e s) =
      drop d (ors_recent_events s @ [e\<lparr>oe_sequence := max (ors_next_event_sequence s) 1\<rparr>])"
    by (rule exI [of _ "Suc (length (ors_recent_events s)) - ORCHESTRATION_EVENT_LIMIT"])
      (simp add: orchestration_push_event_def Let_def pop_front_to_drop)
qed (auto simp: orchestration_push_event_def Let_def ORCHESTRATION_EVENT_LIMIT_def
    pop_front_to_drop)

lemma rule_writes_simps [simp]:
  "oru_id (write_rule_status st r) = oru_id r" "oru_id (write_rule_evidence ev r) = oru_id r"
  "oru_id (write_rule_outcome ev res r) = oru_id r"
  "oru_id (write_rule_stale_outcome ev res r) = oru_id r"
  "oru_idempotency_key (write_rule_status st r) = oru_idempotency_key r"
  "oru_idempotency_key (write_rule_evidence ev r) = oru_idempotency_key r"
  "oru_idempotency_key (write_rule_outcome ev res r) = oru_idempotency_key r"
  "oru_idempotency_key (write_rule_stale_outcome ev res r) = oru_idempotency_key r"
  "oru_lifecycle_generation (write_rule_status st r) = saturating_add (oru_lifecycle_generation r) 1"
  "oru_lifecycle_generation (write_rule_evidence ev r) = oru_lifecycle_generation r"
  "oru_lifecycle_generation (write_rule_outcome ev res r) =
     saturating_add (oru_lifecycle_generation r) 1"
  "oru_lifecycle_generation (write_rule_stale_outcome ev res r) = oru_lifecycle_generation r"
  "oru_status (write_rule_outcome ev res r) = ore_next_status res"
  "oru_condition (write_rule_outcome ev res r) = oru_condition r"
  "oru_status (write_rule_stale_outcome ev res r) = oru_status r"
  "oru_execution_policy (write_rule_stale_outcome ev res r) = oru_execution_policy r"
  "rule_network_armed (write_rule_evidence ev r) = rule_network_armed r"
  "rule_network_armed (write_rule_stale_outcome ev res r) = rule_network_armed r"
  by (simp_all add: write_rule_status_def write_rule_evidence_def write_rule_outcome_def
      write_rule_stale_outcome_def rule_network_armed_def)

lemma reconcile_rule_simps [simp]:
  "oru_id (reconcile_rule known r) = oru_id r"
  "oru_idempotency_key (reconcile_rule known r) = oru_idempotency_key r"
  "oru_lifecycle_generation (reconcile_rule known r) = oru_lifecycle_generation r"
  "rule_network_armed (reconcile_rule known r) = rule_network_armed r"
  by (simp_all add: reconcile_rule_def Let_def rule_network_armed_def)

text \<open>The registry after each operation, as one write.\<close>

definition rule_committed :: "u64 option \<Rightarrow> u32 \<Rightarrow> 'n orchestration_runtime_state \<Rightarrow> bool" where
  "rule_committed g i s \<longleftrightarrow> g = None \<or> map_option oru_lifecycle_generation (find_rule i s) = g"

lemma generation_mismatch_iff:
  "find_rule i s = Some r \<Longrightarrow> generation_mismatch g r \<longleftrightarrow> \<not> rule_committed g i s"
  by (auto simp: generation_mismatch_def rule_committed_def split: option.splits)

lemma find_rule_None: "find_rule i s = None \<Longrightarrow> update_first (\<lambda>r. oru_id r = i) f (rules_of s) = rules_of s"
  by (simp add: find_rule_def update_first_find_None)

lemma rules_of_ops:
  "rules_of (snd (rule_register_with_network_baseline clk r b s)) =
     (if oru_idempotency_key r \<in> oru_idempotency_key ` set (rules_of s) then rules_of s
      else rules_of s @ [r\<lparr>oru_lifecycle_generation := max (oru_lifecycle_generation r) 1\<rparr>])"
  "rules_of (snd (rule_update_status_with_baseline clk i st b s)) =
     update_first (\<lambda>r. oru_id r = i) (write_rule_status st) (rules_of s)"
  "rules_of (snd (rule_remove clk i s)) = remove_first (\<lambda>r. oru_id r = i) (rules_of s)"
  "rules_of (snd (rule_record_outcome clk i g ev res s)) =
     update_first (\<lambda>r. oru_id r = i)
       (if rule_committed g i s then write_rule_outcome ev res else write_rule_stale_outcome ev res)
       (rules_of s)"
  "rules_of (snd (rule_set_condition_evidence clk i g ev s)) =
     (if rule_committed g i s
      then update_first (\<lambda>r. oru_id r = i) (write_rule_evidence ev) (rules_of s) else rules_of s)"
proof -
  show "rules_of (snd (rule_register_with_network_baseline clk r b s)) =
     (if oru_idempotency_key r \<in> oru_idempotency_key ` set (rules_of s) then rules_of s
      else rules_of s @ [r\<lparr>oru_lifecycle_generation := max (oru_lifecycle_generation r) 1\<rparr>])"
  proof (cases "List.find (\<lambda>e. oru_idempotency_key e = oru_idempotency_key r) (rules_of s)")
    case None
    then have "oru_idempotency_key r \<notin> oru_idempotency_key ` set (rules_of s)"
      by (auto simp: find_None_iff)
    with None show ?thesis by (simp add: rule_register_with_network_baseline_def Let_def)
  next
    case (Some e)
    then have "oru_idempotency_key r \<in> oru_idempotency_key ` set (rules_of s)"
      using find_Some_set [OF Some] by (metis imageI)
    with Some show ?thesis by (simp add: rule_register_with_network_baseline_def)
  qed
  show "rules_of (snd (rule_update_status_with_baseline clk i st b s)) =
     update_first (\<lambda>r. oru_id r = i) (write_rule_status st) (rules_of s)"
    by (simp add: rule_update_status_with_baseline_def Let_def find_rule_None
        split: option.split prod.split)
  show "rules_of (snd (rule_remove clk i s)) = remove_first (\<lambda>r. oru_id r = i) (rules_of s)"
    by (simp add: rule_remove_def find_rule_def remove_first_find_None Let_def split: option.split)
  show "rules_of (snd (rule_record_outcome clk i g ev res s)) =
     update_first (\<lambda>r. oru_id r = i)
       (if rule_committed g i s then write_rule_outcome ev res else write_rule_stale_outcome ev res)
       (rules_of s)"
    by (cases "find_rule i s")
      (simp_all add: rule_record_outcome_def Let_def find_rule_None generation_mismatch_iff)
  show "rules_of (snd (rule_set_condition_evidence clk i g ev s)) =
     (if rule_committed g i s
      then update_first (\<lambda>r. oru_id r = i) (write_rule_evidence ev) (rules_of s) else rules_of s)"
    by (cases "find_rule i s")
      (simp_all add: rule_set_condition_evidence_def Let_def find_rule_None generation_mismatch_iff)
qed

lemma rules_of_reconcile:
  "rules_of (reconcile_sessions s) =
     map (reconcile_rule (or_known_sessions (ors_projection s))) (rules_of s)"
  by (simp add: reconcile_sessions_def Let_def)

lemma rules_of_ops':
  "rules_of (snd (rule_update_status clk i st s)) =
     update_first (\<lambda>r. oru_id r = i) (write_rule_status st) (rules_of s)"
  "rules_of (snd (rule_update_status_with_network_baseline clk i st b s)) =
     update_first (\<lambda>r. oru_id r = i) (write_rule_status st) (rules_of s)"
  "rules_of (snd (rule_record_outcome_with_fallback clk snap g ev res s)) =
     update_first (\<lambda>r. oru_id r = oru_id snap)
       (if rule_committed g (oru_id snap) s then write_rule_outcome ev res
        else write_rule_stale_outcome ev res) (rules_of s)"
  "rules_of (orchestration_replace clk n i' nm known a x d s) =
     (if n < ors_last_refresh_sequence s then rules_of s
      else map (reconcile_rule known) (rules_of s))"
  "rules_of (orchestration_mark_degraded clk n ses reason s) =
     (if n < ors_last_refresh_sequence s then rules_of s
      else map (reconcile_rule [ses]) (rules_of s))"
  by (simp_all add: rule_update_status_def rule_update_status_with_network_baseline_def rules_of_ops
      rule_record_outcome_with_fallback_def orchestration_replace_def
      orchestration_mark_degraded_def rules_of_reconcile rule_retain_network_request_baselines_def
      list_ex_iff Let_def)

lemmas rules_of_run = rules_of_ops rules_of_ops'

section \<open>Invariant\<close>

definition rule_log_ok :: "'n orchestration_runtime_state \<Rightarrow> bool" where
  "rule_log_ok s \<longleftrightarrow>
     seq_window (ors_next_event_sequence s) (map oe_sequence (ors_recent_events s)) \<and>
     length (ors_recent_events s) = min 64 (max 1 (unat (ors_next_event_sequence s)) - 1)"

definition rule_baselines_ok :: "'n orchestration_runtime_state \<Rightarrow> bool" where
  "rule_baselines_ok s \<longleftrightarrow>
     side_table_ok oru_id rule_network_armed (ors_network_request_baselines s) (rules_of s)"

definition rule_entries_ok :: "'n orchestration_runtime_state \<Rightarrow> bool" where
  "rule_entries_ok s \<longleftrightarrow> distinct (map oru_idempotency_key (rules_of s)) \<and>
     list_all (\<lambda>r. 1 \<le> oru_lifecycle_generation r) (rules_of s)"

text \<open>The counts are those of one pair of clock readings, the status that of the entries.\<close>

definition rule_counts_ok :: "'n orchestration_runtime_state \<Rightarrow> bool" where
  "rule_counts_ok s \<longleftrightarrow>
     (\<exists>now group_now. let p = ors_projection s; rules = or_rules p in
        or_groups p = build_groups rules group_now \<and>
        or_group_count p = length (or_groups p) \<and>
        or_active_rule_count p =
          length (filter (\<lambda>r. rule_resident r \<and> \<not> rule_in_cooldown r now) rules) \<and>
        or_cooldown_rule_count p =
          length (filter (\<lambda>r. rule_resident r \<and> rule_in_cooldown r now) rules) \<and>
        or_paused_rule_count p = length (filter (\<lambda>r. oru_status r = RulePaused) rules) \<and>
        or_unavailable_rule_count p =
          length (filter (\<lambda>r. oru_unavailable_reason r \<noteq> None) rules)) \<and>
     or_session_count (ors_projection s) = length (or_known_sessions (ors_projection s)) \<and>
     (or_status (ors_projection s) = OrchestrationDegraded \<longleftrightarrow>
        or_degraded_reason (ors_projection s) \<noteq> None \<or>
        (rules_of s \<noteq> [] \<and> list_all (\<lambda>r. oru_unavailable_reason r \<noteq> None) (rules_of s)) \<or>
        list_ex rule_result_degraded (rules_of s))"

subsection \<open>The log\<close>

lemma rule_log_ok_steps [simp]:
  "rule_log_ok (set_rules ts s) = rule_log_ok s"
  "rule_log_ok (refresh clk s) = rule_log_ok s"
  "rule_log_ok (set_last_rule i r s) = rule_log_ok s"
  "rule_log_ok (rule_commit_network_request_baseline t b s) = rule_log_ok s"
  "rule_log_ok (rule_retain_network_request_baselines s) = rule_log_ok s"
  "rule_log_ok (s\<lparr>ors_network_request_baselines := b'\<rparr>) = rule_log_ok s"
  "rule_log_ok (s\<lparr>ors_projection := p\<rparr>) = rule_log_ok s"
  "rule_log_ok (s\<lparr>ors_last_refresh_sequence := n\<rparr>) = rule_log_ok s"
  by (simp_all add: rule_log_ok_def)

lemma rule_log_pushes:
  assumes "rule_log_ok s" and "max 1 (unat (ors_next_event_sequence s)) + length es < 2 ^ 64"
  shows "rule_log_ok (fold orchestration_push_event es s)"
  using rule_log.exact_pushes [of s es] assms
  by (simp add: rule_log_ok_def ORCHESTRATION_EVENT_LIMIT_def)

lemma rule_log_push:
  assumes "rule_log_ok s" and "unat (ors_next_event_sequence s) < 2 ^ 64 - 1"
  shows "rule_log_ok (orchestration_push_event e s)"
  using rule_log_pushes [of s "[e]"] assms by simp

lemma length_reconcile_rule_events:
  "length (concat (map (\<lambda>r. reconcile_rule_event r (f r)) rs)) \<le> length rs"
proof (induction rs)
  case (Cons r rs)
  have "length (reconcile_rule_event r (f r)) \<le> 1"
    by (auto simp: reconcile_rule_event_def split: option.splits)
  with Cons show ?case by simp
qed simp

lemma rule_log_reconcile:
  assumes "rule_log_ok s" and "unat (ors_next_event_sequence s) + length (rules_of s) < 2 ^ 64 - 1"
  shows "rule_log_ok (reconcile_sessions s)"
proof -
  let ?f = "reconcile_rule (or_known_sessions (ors_projection s))"
  show ?thesis
    using rule_log_pushes [of "set_rules (map ?f (rules_of s)) s"] assms
      length_reconcile_rule_events [of ?f "rules_of s"]
    by (simp add: reconcile_sessions_def Let_def)
qed

lemma rule_log_step:
  assumes "rule_log_ok s" and "unat (ors_next_event_sequence s) + length (rules_of s) < 2 ^ 64 - 1"
  shows "rule_log_ok (run_rule_op op s)"
proof -
  obtain clk op' where op: "op = (clk, op')" by (cases op)
  note facts = assms rule_log_push rule_log_reconcile rule_push_defs
  show ?thesis
  proof (cases op')
    case (RuleUpdateStatus i st)
    then show ?thesis using assms op
      by (simp add: rule_update_status_def rule_update_status_with_baseline_def rule_log_push Let_def
          split: option.split prod.split)
  next
    case (RuleUpdateStatusBaseline i st b)
    then show ?thesis using assms op
      by (simp add: rule_update_status_with_network_baseline_def rule_log_push Let_def
          rule_update_status_with_baseline_def split: option.split prod.split)
  qed (use assms op in \<open>simp_all add: rule_register_with_network_baseline_def rule_remove_def
      rule_record_outcome_def rule_set_condition_evidence_def rule_record_outcome_with_fallback_def
      orchestration_replace_def orchestration_mark_degraded_def rule_push_defs rule_log_push
      rule_log_reconcile rule_retain_network_request_baselines_def Let_def split: option.split\<close>)
qed

subsection \<open>Entries\<close>

lemma rule_entries_ok_update:
  assumes "rule_entries_ok s" and "\<And>r. oru_idempotency_key (f r) = oru_idempotency_key r"
    and "\<And>r. 1 \<le> oru_lifecycle_generation r \<Longrightarrow> 1 \<le> oru_lifecycle_generation (f r)"
  shows "distinct (map oru_idempotency_key (update_first p f (rules_of s))) \<and>
      list_all (\<lambda>r. 1 \<le> oru_lifecycle_generation r) (update_first p f (rules_of s))"
  using assms by (simp add: rule_entries_ok_def list_all_update_first)

lemma distinct_remove_first: "distinct (map f xs) \<Longrightarrow> distinct (map f (remove_first p xs))"
  using set_remove_first_subset by (induction xs) (auto, fastforce)

lemma rule_entries_step:
  assumes "rule_entries_ok s" shows "rule_entries_ok (run_rule_op op s)"
proof -
  obtain clk op' where op: "op = (clk, op')" by (cases op)
  have pos: "1 \<le> saturating_add a 1" if "1 \<le> a" for a :: u64
    using that saturating_add_mono order.trans by blast
  note u = rule_entries_ok_update [OF assms]
  show ?thesis unfolding rule_entries_ok_def
    by (cases op') (use assms in \<open>auto simp: op rules_of_run u pos rule_entries_ok_def comp_def
        list.pred_map distinct_remove_first list_all_remove_first\<close>)
qed

subsection \<open>Counts\<close>

lemma length_filter_all: "length (filter P xs) = length xs \<longleftrightarrow> list_all P xs"
  by (induction xs) (auto simp: le_imp_less_Suc less_imp_neq)

lemma rule_counts_refresh:
  assumes "or_session_count (ors_projection s) = length (or_known_sessions (ors_projection s))"
  shows "rule_counts_ok (refresh clk s)"
  unfolding rule_counts_ok_def refresh_def orchestration_refresh_status_def refresh_counts_def
    all_rules_unavailable_def Let_def
  by (intro conjI exI [of _ "fst clk"] exI [of _ "snd clk"])
    (use assms in \<open>auto simp: length_filter_all\<close>)

definition session_count_ok :: "'n orchestration_runtime_state \<Rightarrow> bool" where
  "session_count_ok s \<longleftrightarrow>
     or_session_count (ors_projection s) = length (or_known_sessions (ors_projection s))"

lemma session_count_steps [simp]:
  "session_count_ok (set_rules rs s) = session_count_ok s"
  "session_count_ok (orchestration_push_event e s) = session_count_ok s"
  "session_count_ok (set_last_rule i r s) = session_count_ok s"
  "session_count_ok (rule_commit_network_request_baseline ru b s) = session_count_ok s"
  "session_count_ok (rule_retain_network_request_baselines s) = session_count_ok s"
  "session_count_ok (rule_push_outcome_event ru ev r s) = session_count_ok s"
  "session_count_ok (rule_push_stale_outcome_event ru ev r s) = session_count_ok s"
  "session_count_ok (s\<lparr>ors_network_request_baselines := b'\<rparr>) = session_count_ok s"
  "session_count_ok (s\<lparr>ors_projection := p\<rparr>) \<longleftrightarrow> or_session_count p = length (or_known_sessions p)"
  by (simp_all add: session_count_ok_def set_rules_def orchestration_push_event_def
      set_last_rule_def rule_commit_network_request_baseline_def
      rule_retain_network_request_baselines_def rule_push_defs Let_def split: option.splits)

lemma session_count_pushes [simp]:
  "session_count_ok (fold orchestration_push_event es s) = session_count_ok s"
  by (induction es arbitrary: s) simp_all

lemma rule_counts_refresh' [simp]: "session_count_ok s \<Longrightarrow> rule_counts_ok (refresh clk s)"
  by (simp add: session_count_ok_def rule_counts_refresh)

lemma rule_counts_step:
  assumes "rule_counts_ok s" shows "rule_counts_ok (run_rule_op op s)"
proof -
  obtain clk op' where op: "op = (clk, op')" by (cases op)
  have c: "session_count_ok s" using assms by (simp add: session_count_ok_def rule_counts_ok_def)
  show ?thesis
  proof (cases op')
    case (RuleRegister r b)
    then show ?thesis using assms op c [unfolded session_count_ok_def]
      by (simp add: rule_register_with_network_baseline_def Let_def split: option.split)
  qed (use assms c op in \<open>simp_all add: rule_op_defs Let_def split: option.split prod.split\<close>)
qed

subsection \<open>Baselines\<close>

lemma find_rule_id: "find_rule i s = Some r \<Longrightarrow> oru_id r = i \<and> r \<in> set (rules_of s)"
  using find_Some_set by (fastforce simp: find_rule_def)

lemma lookup_rule_commit_baseline:
  "Mapping.lookup (ors_network_request_baselines
     (rule_commit_network_request_baseline r b s)) k \<noteq> None \<Longrightarrow>
   k = oru_id r \<and> rule_network_armed r \<or>
   k \<noteq> oru_id r \<and> Mapping.lookup (ors_network_request_baselines s) k \<noteq> None"
  by (auto simp: rule_commit_network_request_baseline_def lookup_update' lookup_delete_if
      split: option.splits if_splits)

lemma rule_baselines_register:
  assumes "rule_baselines_ok s"
  shows "rule_baselines_ok (snd (rule_register_with_network_baseline clk r b s))"
proof (cases "List.find (\<lambda>e. oru_idempotency_key e = oru_idempotency_key r) (rules_of s)")
  case None
  let ?r = "r\<lparr>oru_lifecycle_generation := max (oru_lifecycle_generation r) 1\<rparr>"
  let ?s = "set_rules (rules_of s @ [?r])
      (s\<lparr>ors_projection := (ors_projection s)\<lparr>or_last_rule_id := Some (oru_id r)\<rparr>\<rparr>)"
  have rs: "rules_of (snd (rule_register_with_network_baseline clk r b s)) = rules_of s @ [?r]"
    and m: "ors_network_request_baselines (snd (rule_register_with_network_baseline clk r b s)) =
      ors_network_request_baselines (rule_commit_network_request_baseline ?r b ?s)"
    using None by (simp_all add: rule_register_with_network_baseline_def Let_def)
  show ?thesis
    unfolding rule_baselines_ok_def rs m
    by (rule side_table_append [OF assms [unfolded rule_baselines_ok_def]])
      (use lookup_rule_commit_baseline [of ?r b ?s] in simp)
next
  case (Some e)
  with assms show ?thesis by (simp add: rule_register_with_network_baseline_def)
qed

lemma rule_baselines_update_status:
  assumes "rule_baselines_ok s"
  shows "rule_baselines_ok (snd (rule_update_status_with_baseline clk i st b s))"
proof (cases "find_rule i s")
  case None
  then show ?thesis using assms by (simp add: rule_update_status_with_baseline_def)
next
  case (Some r)
  have m: "ors_network_request_baselines (snd (rule_update_status_with_baseline clk i st b s)) =
      ors_network_request_baselines (rule_commit_network_request_baseline (write_rule_status st r) b
        (set_rules (update_first (\<lambda>r. oru_id r = i) (write_rule_status st) (rules_of s)) s))"
    using Some by (simp add: rule_update_status_with_baseline_def Let_def
        split: option.split prod.split)
  show ?thesis
    unfolding rule_baselines_ok_def rules_of_ops m
    by (rule side_table_update [OF assms [unfolded rule_baselines_ok_def]
          Some [unfolded find_rule_def]])
      (use find_rule_id [OF Some] in \<open>auto dest!: lookup_rule_commit_baseline
        [of "write_rule_status st r" b, OF option.discI]\<close>)
qed

lemma rule_baselines_record:
  assumes "rule_baselines_ok s"
  shows "rule_baselines_ok (snd (rule_record_outcome clk i g ev res s))"
proof (cases "find_rule i s")
  case None
  then show ?thesis using assms by (simp add: rule_record_outcome_def)
next
  case (Some r)
  note ok = assms [unfolded rule_baselines_ok_def]
  show ?thesis
  proof (cases "rule_committed g i s")
    case True
    have m: "ors_network_request_baselines (snd (rule_record_outcome clk i g ev res s)) =
        (if rule_network_armed (write_rule_outcome ev res r) then ors_network_request_baselines s
         else Mapping.delete i (ors_network_request_baselines s))"
      using Some True find_rule_id [OF Some]
      by (simp add: rule_record_outcome_def generation_mismatch_iff rule_network_armed_def Let_def)
    have rs: "rules_of (snd (rule_record_outcome clk i g ev res s)) =
        update_first (\<lambda>r. oru_id r = i) (write_rule_outcome ev res) (rules_of s)"
      using True by (simp add: rules_of_ops)
    show ?thesis
      unfolding rule_baselines_ok_def rs m
      by (rule side_table_update [OF ok Some [unfolded find_rule_def]])
        (auto simp: lookup_delete_if split: if_splits)
  next
    case False
    have m: "ors_network_request_baselines (snd (rule_record_outcome clk i g ev res s)) =
        ors_network_request_baselines s"
      using Some False by (simp add: rule_record_outcome_def generation_mismatch_iff Let_def)
    have rs: "rules_of (snd (rule_record_outcome clk i g ev res s)) =
        update_first (\<lambda>r. oru_id r = i) (write_rule_stale_outcome ev res) (rules_of s)"
      using False by (simp add: rules_of_ops)
    show ?thesis
      unfolding rule_baselines_ok_def rs m by (rule side_table_same(1) [OF ok]) simp_all
  qed
qed

lemma rule_baselines_reconcile:
  "rule_baselines_ok (reconcile_sessions (rule_retain_network_request_baselines s))"
proof -
  have "side_table_ok oru_id rule_network_armed
      (ors_network_request_baselines (rule_retain_network_request_baselines s)) (rules_of s)"
    by (simp add: rule_retain_network_request_baselines_def side_table_filter)
  from side_table_same(2) [OF this] show ?thesis
    by (simp add: rule_baselines_ok_def reconcile_sessions_def Let_def)
qed

lemma rule_baselines_cong:
  "rules_of s' = rules_of s \<Longrightarrow>
   ors_network_request_baselines s' = ors_network_request_baselines s \<Longrightarrow>
   rule_baselines_ok s' = rule_baselines_ok s"
  by (simp add: rule_baselines_ok_def)

lemma rule_baselines_refresh [simp]:
  "rule_baselines_ok (refresh clk s) = rule_baselines_ok s"
  by (rule rule_baselines_cong) simp_all

lemma rule_baselines_step:
  assumes "rule_baselines_ok s" shows "rule_baselines_ok (run_rule_op op s)"
proof -
  obtain clk op' where op: "op = (clk, op')" by (cases op)
  note ok = assms [unfolded rule_baselines_ok_def]
  show ?thesis
  proof (cases op')
    case (RuleRemove i)
    then show ?thesis
      using side_table_remove [OF ok, of i] ok find_rule_id [of i s] op
      by (auto simp: rule_baselines_ok_def rule_remove_def Let_def split: option.split)
  next
    case (RuleSetEvidence i g ev)
    then show ?thesis
      using side_table_same(1) [OF ok, of "write_rule_evidence ev" "\<lambda>r. oru_id r = i"] ok op
      by (auto simp: rule_baselines_ok_def rule_set_condition_evidence_def Let_def
          split: option.split)
  next
    case (RuleRecordFallback snap g ev res)
    then show ?thesis using rule_baselines_record [OF assms] op ok
      by (simp add: rule_record_outcome_with_fallback_def Let_def)
        (simp add: rule_baselines_ok_def)
  qed (use assms op in \<open>simp_all add: rule_baselines_register rule_baselines_update_status
      rule_baselines_record rule_update_status_def rule_update_status_with_network_baseline_def
      orchestration_replace_def orchestration_mark_degraded_def rule_baselines_reconcile Let_def\<close>)
qed

lemma orchestration_reachable_inv:
  "orchestration_reachable s \<Longrightarrow>
     rule_log_ok s \<and> rule_counts_ok s \<and> rule_entries_ok s \<and> rule_baselines_ok s"
proof (induction rule: orchestration_reachable.induct)
  case orchestration_init
  show ?case
    by (simp add: orchestration_runtime_default_def orchestration_runtime_info_default_def
        rule_log_ok_def rule_counts_ok_def rule_entries_ok_def rule_baselines_ok_def
        side_table_ok_def build_groups_def)
next
  case (orchestration_step s op)
  then show ?case
    using rule_log_step rule_counts_step rule_entries_step rule_baselines_step by blast
qed

section \<open>The generation fence\<close>

lemma rule_gen_step:
  assumes "map_option oru_lifecycle_generation (find_rule j s) = Some g"
    and "\<not> rule_op_drops op j"
  shows "map_option oru_lifecycle_generation (find_rule j (run_rule_op op s)) =
    Some (if rule_op_bumps op s j then saturating_add g 1 else g)"
proof -
  obtain clk op' where op: "op = (clk, op')" by (cases op)
  obtain r where r: "List.find (\<lambda>r. oru_id r = j) (rules_of s) = Some r"
    "oru_lifecycle_generation r = g"
    using assms(1) by (auto simp: find_rule_def)
  show ?thesis
    by (cases op') (use assms(2) op r in \<open>auto simp: find_rule_def rules_of_run find_write
        find_map_key find_append_first find_remove_first_other rule_committed_def\<close>)
qed

interpretation rule_fence: generation_fence
    "\<lambda>s i. map_option oru_lifecycle_generation (find_rule i s)" run_rule_op
    rule_op_bumps rule_op_drops
  by unfold_locales (rule rule_gen_step)

section \<open>The refresh fence, abstractly\<close>

text \<open>
  What the registry promises about the session inventory: it holds the reading with the highest
  sequence number seen, later arrivals winning ties. A reading is its number and the seven fields
  it sets.
\<close>

record session_view =
  sv_current_session_id :: "string option"
  sv_current_session_name :: "string option"
  sv_known_sessions :: "orchestration_session_info list"
  sv_session_count :: nat
  sv_addressing_supported :: bool
  sv_execution_supported :: bool
  sv_degraded_reason :: "string option"

definition refresh_abs :: "'n orchestration_runtime_state \<Rightarrow> u64 \<times> session_view" where
  "refresh_abs s = (ors_last_refresh_sequence s,
     let p = ors_projection s in
     \<lparr>sv_current_session_id = or_current_session_id p,
      sv_current_session_name = or_current_session_name p,
      sv_known_sessions = or_known_sessions p, sv_session_count = or_session_count p,
      sv_addressing_supported = or_addressing_supported p,
      sv_execution_supported = or_execution_supported p,
      sv_degraded_reason = or_degraded_reason p\<rparr>)"

fun op_reading :: "clock \<times> 'n rule_op \<Rightarrow> (u64 \<times> session_view) option" where
  "op_reading (_, SessionsReplace n i nm known a x d) =
     Some (n, \<lparr>sv_current_session_id = Some i, sv_current_session_name = Some nm,
       sv_known_sessions = known, sv_session_count = length known, sv_addressing_supported = a,
       sv_execution_supported = x, sv_degraded_reason = d\<rparr>)"
| "op_reading (_, SessionsDegraded n ses reason) =
     Some (n, \<lparr>sv_current_session_id = Some (ose_session_id ses),
       sv_current_session_name = Some (ose_session_name ses), sv_known_sessions = [ses],
       sv_session_count = 1, sv_addressing_supported = False, sv_execution_supported = True,
       sv_degraded_reason = Some reason\<rparr>)"
| "op_reading _ = None"

definition accept_reading :: "(u64 \<times> session_view) \<Rightarrow> (u64 \<times> session_view) \<Rightarrow> u64 \<times> session_view" where
  "accept_reading reading held = (if fst reading < fst held then held else reading)"

definition readings :: "(clock \<times> 'n rule_op) list \<Rightarrow> (u64 \<times> session_view) list" where
  "readings ops = List.map_filter op_reading ops"

lemma refresh_abs_steps [simp]:
  "refresh_abs (set_rules rs s) = refresh_abs s"
  "refresh_abs (orchestration_push_event e s) = refresh_abs s"
  "refresh_abs (refresh clk s) = refresh_abs s"
  "refresh_abs (set_last_rule i r s) = refresh_abs s"
  "refresh_abs (rule_commit_network_request_baseline ru b s) = refresh_abs s"
  "refresh_abs (rule_retain_network_request_baselines s) = refresh_abs s"
  "refresh_abs (rule_push_outcome_event ru ev r s) = refresh_abs s"
  "refresh_abs (rule_push_stale_outcome_event ru ev r s) = refresh_abs s"
  "refresh_abs (s\<lparr>ors_network_request_baselines := b'\<rparr>) = refresh_abs s"
  "refresh_abs (s\<lparr>ors_projection := (ors_projection s)\<lparr>or_last_rule_id := x\<rparr>\<rparr>) = refresh_abs s"
  by (simp_all add: refresh_abs_def set_rules_def orchestration_push_event_def refresh_def
      refresh_counts_def orchestration_refresh_status_def set_last_rule_def
      rule_commit_network_request_baseline_def rule_retain_network_request_baselines_def
      rule_push_defs Let_def split: option.splits)

lemma refresh_abs_pushes [simp]:
  "refresh_abs (fold orchestration_push_event es s) = refresh_abs s"
  by (induction es arbitrary: s) simp_all

lemma refresh_abs_reconcile [simp]: "refresh_abs (reconcile_sessions s) = refresh_abs s"
  by (simp add: reconcile_sessions_def Let_def)

lemma refresh_abs_step:
  "refresh_abs (run_rule_op op s) =
     (case op_reading op of None \<Rightarrow> refresh_abs s | Some v \<Rightarrow> accept_reading v (refresh_abs s))"
proof -
  obtain clk op' where op: "op = (clk, op')" by (cases op)
  show ?thesis
  proof (cases op')
    case (SessionsReplace n i nm known a x d)
    then show ?thesis using op
      by (simp add: orchestration_replace_def accept_reading_def Let_def)
        (simp add: refresh_abs_def)
  next
    case (SessionsDegraded n ses reason)
    then show ?thesis using op
      by (simp add: orchestration_mark_degraded_def accept_reading_def Let_def)
        (simp add: refresh_abs_def)
  qed (use op in \<open>simp_all add: rule_op_defs Let_def split: option.split prod.split\<close>)
qed

lemma refresh_abs_run:
  "refresh_abs (fold run_rule_op ops s) = fold accept_reading (readings ops) (refresh_abs s)"
  by (induction ops arbitrary: s)
    (simp_all add: readings_def map_filter_simps refresh_abs_step split: option.split)

lemma accept_readings_top:
  "fst held \<le> n \<Longrightarrow> \<forall>w\<in>set vs. fst w \<le> n \<and> (fst w = n \<longrightarrow> snd w = v) \<Longrightarrow>
   (n, v) \<in> set vs \<or> held = (n, v) \<Longrightarrow> fold accept_reading vs held = (n, v)"
proof (induction vs arbitrary: held)
  case (Cons w vs)
  let ?h = "accept_reading w held"
  have "fst ?h \<le> n" using Cons.prems by (auto simp: accept_reading_def)
  moreover have "(n, v) \<in> set vs \<or> ?h = (n, v)"
    using Cons.prems by (cases w) (auto simp: accept_reading_def)
  ultimately show ?case using Cons.IH [of ?h] Cons.prems(2) by simp
qed simp

section \<open>Properties\<close>

text \<open>
  In every reachable orchestration registry: no two rules share an idempotency key, generations
  are at least 1, the counts agree with the entries (resident rules are those armed and available,
  split by one clock reading into active and cooling down), the surface is degraded exactly for the
  stated reasons, every network baseline belongs to an armed network rule, and the trace returns
  the last events under consecutive numbers.
\<close>

theorem orchestration_runtime_consistent:
  assumes "orchestration_reachable s"
  shows "distinct (map oru_idempotency_key (rules_of s)) \<and>
    (\<forall>r\<in>set (rules_of s). 1 \<le> oru_lifecycle_generation r) \<and>
    or_active_rule_count (ors_projection s) + or_cooldown_rule_count (ors_projection s) =
      length (filter (\<lambda>r. oru_status r = RuleArmed \<and> oru_unavailable_reason r = None) (rules_of s)) \<and>
    or_paused_rule_count (ors_projection s) =
      length (filter (\<lambda>r. oru_status r = RulePaused) (rules_of s)) \<and>
    or_group_count (ors_projection s) = card (oru_correlation_key ` set (rules_of s)) \<and>
    (or_status (ors_projection s) = OrchestrationDegraded \<longleftrightarrow>
       or_degraded_reason (ors_projection s) \<noteq> None \<or>
       (rules_of s \<noteq> [] \<and> (\<forall>r\<in>set (rules_of s). oru_unavailable_reason r \<noteq> None)) \<or>
       (\<exists>r\<in>set (rules_of s). rule_result_degraded r)) \<and>
    (\<forall>i b. Mapping.lookup (ors_network_request_baselines s) i = Some b \<longrightarrow>
       (\<exists>r\<in>set (rules_of s). oru_id r = i \<and> oru_status r = RuleArmed \<and>
          tcs_kind (oru_condition r) = NetworkRequest)) \<and>
    (let issued = max 1 (unat (ors_next_event_sequence s)) in
     map (unat \<circ> oe_sequence) (orchestration_trace n s) =
       [issued - min n (min 64 (issued - 1)) ..< issued])"
proof -
  note inv = orchestration_reachable_inv [OF assms]
  have split: "length (filter (\<lambda>r. P r \<and> \<not> Q r) xs) + length (filter (\<lambda>r. P r \<and> Q r) xs) =
      length (filter P xs)" for P Q and xs :: "'a orchestration_rule_info list"
    by (induction xs) auto
  obtain now group_now where
    counts: "or_active_rule_count (ors_projection s) =
        length (filter (\<lambda>r. rule_resident r \<and> \<not> rule_in_cooldown r now) (rules_of s))"
      "or_cooldown_rule_count (ors_projection s) =
        length (filter (\<lambda>r. rule_resident r \<and> rule_in_cooldown r now) (rules_of s))"
    and paused: "or_paused_rule_count (ors_projection s) =
        length (filter (\<lambda>r. oru_status r = RulePaused) (rules_of s))"
    and groups: "or_groups (ors_projection s) = build_groups (rules_of s) group_now"
      "or_group_count (ors_projection s) = length (or_groups (ors_projection s))"
    using inv unfolding rule_counts_ok_def Let_def by blast
  have "or_active_rule_count (ors_projection s) + or_cooldown_rule_count (ors_projection s) =
      length (filter (\<lambda>r. oru_status r = RuleArmed \<and> oru_unavailable_reason r = None) (rules_of s))"
    unfolding counts split by (simp add: rule_resident_def [abs_def])
  moreover have "or_group_count (ors_projection s) = card (oru_correlation_key ` set (rules_of s))"
    by (simp add: groups build_groups_map)
  moreover have "map (unat \<circ> oe_sequence) (orchestration_trace n s) =
      (let issued = max 1 (unat (ors_next_event_sequence s)) in
       [issued - min n (min 64 (issued - 1)) ..< issued])"
    using inv rule_log.numbers_of_last [of s n]
    unfolding orchestration_trace_def ORCHESTRATION_EVENT_LIMIT_def rule_log_ok_def Let_def by blast
  ultimately show ?thesis
    using inv paused unfolding Let_def
    by (simp add: rule_entries_ok_def rule_counts_ok_def rule_baselines_ok_def side_table_ok_def
        list_all_iff list_ex_iff rule_network_armed_def)
qed

text \<open>
  The lifecycle generation fences late outcomes of orchestration rules. A worker that read rule
  \<open>r\<close> and commits its outcome after any operations that did not remove the rule is applied exactly
  when no lifecycle change came between; otherwise the commit is reported stale and status,
  generation and cooldown stay as the newer authority set them. Other rules are never touched.
\<close>

theorem orchestration_outcome_fenced:
  assumes "find_rule i s = Some r" and "unat (oru_lifecycle_generation r) < 2 ^ 64 - 1"
    and "\<forall>op\<in>set ops. \<not> rule_op_drops op i"
    and "now = fold run_rule_op ops s"
    and "(commit, after) = rule_record_outcome_with_fallback clk r
      (Some (oru_lifecycle_generation r)) evidence result now"
  shows "(if bump_count rule_op_bumps run_rule_op i ops s = 0
     then \<exists>u. commit = OrchestrationApplied (Some u) \<and> find_rule i after = Some u \<and>
       oru_status u = ore_next_status result \<and>
       oep_cooldown_until_ms (oru_execution_policy u) = ore_cooldown_until_ms result \<and>
       oru_lifecycle_generation u = oru_lifecycle_generation r + 1
     else \<exists>c u. find_rule i now = Some c \<and> commit = OrchestrationStale (Some u) \<and>
       find_rule i after = Some u \<and> oru_status u = oru_status c \<and>
       oru_lifecycle_generation u = oru_lifecycle_generation c \<and>
       oru_execution_policy u = oru_execution_policy c) \<and>
    (\<forall>j. j \<noteq> i \<longrightarrow> find_rule j after = find_rule j now)"
proof -
  let ?g = "oru_lifecycle_generation r"
  have i: "oru_id r = i" using find_rule_id [OF assms(1)] by simp
  have gen: "map_option oru_lifecycle_generation (find_rule i s) = Some ?g"
    using assms(1) by simp
  obtain c where c: "find_rule i now = Some c"
    using rule_fence.gen_run [OF gen assms(3)] assms(4) by auto
  have fence: "rule_committed (Some ?g) i now \<longleftrightarrow> bump_count rule_op_bumps run_rule_op i ops s = 0"
    using rule_fence.unchanged_iff [OF gen assms(3,2)] assms(4) by (simp add: rule_committed_def)
  have same: "rule_committed (Some ?g) i now \<Longrightarrow> oru_lifecycle_generation c = ?g"
    using c by (simp add: rule_committed_def)
  have inc: "saturating_add ?g 1 = ?g + 1"
    using assms(2) by (simp add: saturating_add_def)
  have aft: "after = snd (rule_record_outcome_with_fallback clk r (Some ?g) evidence result now)"
    and com: "commit = fst (rule_record_outcome_with_fallback clk r (Some ?g) evidence result now)"
    by (simp_all flip: assms(5))
  have found: "find_rule j after = (if j = i then Some
      (if rule_committed (Some ?g) i now then write_rule_outcome evidence result c
       else write_rule_stale_outcome evidence result c) else find_rule j now)" for j
    using c unfolding aft by (auto simp: find_rule_def rules_of_ops' find_write i)
  have "list_ex (\<lambda>r. oru_id r = i) (rules_of now)"
    using find_rule_id [OF c] by (auto simp: list_ex_iff)
  then have "commit = (if rule_committed (Some ?g) i now
      then OrchestrationApplied (Some (write_rule_outcome evidence result c))
      else OrchestrationStale (Some (write_rule_stale_outcome evidence result c)))"
    using c unfolding com
    by (simp add: rule_record_outcome_with_fallback_def rule_record_outcome_def i Let_def
        generation_mismatch_iff)
  moreover have "oep_cooldown_until_ms (oru_execution_policy (write_rule_outcome evidence result c)) =
      ore_cooldown_until_ms result"
    by (simp add: write_rule_outcome_def)
  ultimately show ?thesis
    using c found fence inc same by auto
qed

text \<open>
  The session inventory refines a register that keeps the highest-numbered reading: through the
  abstraction every operation is either no reading or \<open>accept_reading\<close>. So, whatever the order in
  which readings arrive and whatever other operations are interleaved, the registry ends up with
  the reading of the highest number, if that number is not below the one it started from.
\<close>

theorem orchestration_refresh_latest_wins:
  fixes s :: "'n orchestration_runtime_state"
  shows "refresh_abs (fold run_rule_op ops s) = fold accept_reading (readings ops) (refresh_abs s) \<and>
    ((n, v) \<in> set (readings ops) \<and> ors_last_refresh_sequence s \<le> n \<and>
     (\<forall>w\<in>set (readings ops). fst w \<le> n \<and> (fst w = n \<longrightarrow> snd w = v)) \<longrightarrow>
     refresh_abs (fold run_rule_op ops s) = (n, v))"
proof -
  have "fst (refresh_abs s) = ors_last_refresh_sequence s" by (simp add: refresh_abs_def)
  then show ?thesis
    using refresh_abs_run [of ops s] accept_readings_top [of "refresh_abs s" n "readings ops" v]
    by auto
qed

text \<open>
  The group projection is exact: one group per correlation key in key order, holding the sorted
  ids and the counts of the rules with that key; and the group counts add up to the counts over all
  rules.
\<close>

theorem orchestration_groups_exact:
  "map ogr_correlation_key (build_groups rules now) =
     sorted_list_of_set (oru_correlation_key ` set rules) \<and>
   (\<forall>g\<in>set (build_groups rules now). g = group_of now rules (ogr_correlation_key g)) \<and>
   sum_list (map ogr_active_rule_count (build_groups rules now)) =
     length (filter (\<lambda>r. rule_resident r \<and> \<not> rule_in_cooldown r now) rules) \<and>
   sum_list (map ogr_cooldown_rule_count (build_groups rules now)) =
     length (filter (\<lambda>r. rule_resident r \<and> rule_in_cooldown r now) rules) \<and>
   sum_list (map ogr_paused_rule_count (build_groups rules now)) =
     length (filter (\<lambda>r. oru_status r = RulePaused) rules) \<and>
   sum_list (map ogr_unavailable_rule_count (build_groups rules now)) =
     length (filter (\<lambda>r. oru_unavailable_reason r \<noteq> None) rules)"
proof -
  have key: "ogr_correlation_key (group_of now rules k) = k" for k
    by (simp add: group_of_def Let_def)
  show ?thesis
    by (intro conjI sum_list_groups)
      (auto simp: build_groups_map key comp_def group_of_def [unfolded Let_def])
qed

section \<open>Concrete runs\<close>

definition example_address :: "string \<Rightarrow> orchestration_address_info" where
  "example_address sid = \<lparr>oad_session_id = sid, oad_session_name = sid, oad_tab_index = None,
     oad_tab_target_id = None, oad_frame_id = None\<rparr>"

definition example_rule :: "unit orchestration_rule_info" where
  "example_rule = \<lparr>oru_id = 3, oru_status = RuleArmed, oru_lifecycle_generation = 1,
     oru_source = example_address ''a'', oru_target = example_address ''b'',
     oru_mode = OrchestrationRepeat,
     oru_execution_policy =
       \<lparr>oep_cooldown_ms = 10, oep_max_retries = 0, oep_cooldown_until_ms = None\<rparr>,
     oru_condition = \<lparr>tcs_kind = UrlMatch, tcs_locator = None, tcs_text = None,
       tcs_url_pattern = Some ''x'', tcs_readiness_state = None, tcs_method = None,
       tcs_status_code = None, tcs_storage_area = None, tcs_key = None, tcs_value = None\<rparr>,
     oru_actions = [], oru_correlation_key = ''c'', oru_idempotency_key = ''k'',
     oru_unavailable_reason = None, oru_last_condition_evidence = None, oru_last_result = None\<rparr>"

definition example_rule_result :: "unit orchestration_result_info" where
  "example_rule_result = \<lparr>ore_rule_id = 3, ore_status = RuleFired, ore_next_status = RuleArmed,
     ore_summary = ''ok'', ore_committed_steps = 1, ore_total_steps = 1, ore_steps = [],
     ore_cooldown_until_ms = Some 99, ore_error_code = None, ore_reason = None,
     ore_error_context = None\<rparr>"

definition example_orchestration :: "unit orchestration_runtime_state" where
  "example_orchestration =
     run_rule_op ((0, 0), RuleRegister example_rule None) orchestration_runtime_default"

lemma example_orchestration_rules: "rules_of example_orchestration = [example_rule]"
  by (simp add: example_orchestration_def rules_of_run)
    (simp add: orchestration_runtime_default_def orchestration_runtime_info_default_def
      example_rule_def)

theorem orchestration_runtime_consistent_witness:
  "orchestration_reachable example_orchestration \<and>
   or_active_rule_count (ors_projection example_orchestration) +
     or_cooldown_rule_count (ors_projection example_orchestration) = 1 \<and>
   or_group_count (ors_projection example_orchestration) = 1"
proof -
  have r: "orchestration_reachable example_orchestration"
    unfolding example_orchestration_def
    by (rule orchestration_step [OF orchestration_init])
      (simp add: orchestration_runtime_default_def orchestration_runtime_info_default_def)
  then show ?thesis
    using orchestration_runtime_consistent [OF r, of 1] example_orchestration_rules
    by (simp add: example_rule_def)
qed

theorem orchestration_outcome_fenced_witness:
  "\<exists>u. fst (rule_record_outcome_with_fallback (5, 5) example_rule (Some 1) None
      example_rule_result example_orchestration) = OrchestrationApplied (Some u) \<and>
    oru_lifecycle_generation u = 2 \<and> oep_cooldown_until_ms (oru_execution_policy u) = Some 99"
proof -
  let ?c = "rule_record_outcome_with_fallback (5, 5) example_rule
    (Some (oru_lifecycle_generation example_rule)) None example_rule_result example_orchestration"
  have f: "find_rule 3 example_orchestration = Some example_rule"
    by (simp add: find_rule_def example_orchestration_rules example_rule_def)
  have g: "oru_lifecycle_generation example_rule = 1" by (simp add: example_rule_def)
  have p: "(fst ?c, snd ?c) = ?c" by simp
  have small: "unat (oru_lifecycle_generation example_rule) < 2 ^ 64 - 1" by (simp add: g)
  have "\<exists>u. fst ?c = OrchestrationApplied (Some u) \<and>
      oep_cooldown_until_ms (oru_execution_policy u) = ore_cooldown_until_ms example_rule_result \<and>
      oru_lifecycle_generation u = oru_lifecycle_generation example_rule + 1"
    using orchestration_outcome_fenced [where ops = "[]" and clk = "(5, 5)" and evidence = None
        and result = example_rule_result, OF f small _ refl, of "fst ?c" "snd ?c"]
    by auto
  moreover have "ore_cooldown_until_ms example_rule_result = Some 99"
    by (simp add: example_rule_result_def)
  ultimately show ?thesis using g by auto
qed

theorem orchestration_refresh_latest_wins_witness:
  "let newer = ((0, 0), SessionsReplace 7 ''s'' ''n'' [] True True None);
       older = ((0, 0), SessionsReplace 4 ''s'' ''old'' [] False True (Some ''lost''))
   in sv_current_session_name
        (snd (refresh_abs (fold run_rule_op [newer, older] example_orchestration))) = Some ''n''"
proof -
  let ?newer = "((0, 0), SessionsReplace 7 ''s'' ''n'' [] True True None) :: clock \<times> unit rule_op"
  let ?older = "((0, 0), SessionsReplace 4 ''s'' ''old'' [] False True (Some ''lost''))
    :: clock \<times> unit rule_op"
  let ?v = "\<lparr>sv_current_session_id = Some ''s'', sv_current_session_name = Some ''n'',
       sv_known_sessions = [], sv_session_count = 0, sv_addressing_supported = True,
       sv_execution_supported = True, sv_degraded_reason = None\<rparr>"
  have "ors_last_refresh_sequence example_orchestration = 0"
    using refresh_abs_step [of "((0, 0), RuleRegister example_rule None)" orchestration_runtime_default]
    by (simp add: refresh_abs_def example_orchestration_def) (simp add: orchestration_runtime_default_def)
  moreover have "readings [?newer, ?older] = [(7, ?v), (4, \<lparr>sv_current_session_id = Some ''s'',
      sv_current_session_name = Some ''old'', sv_known_sessions = [], sv_session_count = 0,
      sv_addressing_supported = False, sv_execution_supported = True,
      sv_degraded_reason = Some ''lost''\<rparr>)]"
    by (simp add: readings_def map_filter_simps)
  ultimately have "refresh_abs (fold run_rule_op [?newer, ?older] example_orchestration) = (7, ?v)"
    using orchestration_refresh_latest_wins [of "[?newer, ?older]" example_orchestration 7 ?v,
        THEN conjunct2]
    by (simp del: fold_simps fold.simps)
  then show ?thesis unfolding Let_def by (simp only: snd_conv session_view.select_convs)
qed

theorem orchestration_groups_exact_witness:
  "ogr_rule_ids (hd (build_groups [example_rule] 0)) = [3]"
proof -
  have "build_groups [example_rule] 0 \<noteq> []"
    using orchestration_groups_exact [of "[example_rule]" 0] by auto
  then have "hd (build_groups [example_rule] 0) = group_of 0 [example_rule] ''c''"
    using orchestration_groups_exact [of "[example_rule]" 0]
    by (cases "build_groups [example_rule] 0") (auto simp: example_rule_def)
  then show ?thesis by (simp add: group_of_def Let_def example_rule_def)
qed

end
