(* ===== verification/Rub_Observatory.thy ===== *)
theory Rub_Observatory
  imports Rub_Automation
begin

text \<open>
  The session's runtime observatory (\<^verbatim>\<open>rub-daemon/src/observatory.rs\<close>, \<^verbatim>\<open>observatory/{events,projection,
  requests}.rs\<close>, the records of \<^verbatim>\<open>rub-core/src/model/runtime/observability.rs\<close>, the session's windows
  and drop counts of \<^verbatim>\<open>session/runtime/observatory.rs\<close>): a timeline of browser events, four rings of
  recent events, and a registry of network requests, each observation of which is numbered.
  The lemmas give the exact contents of the timeline and of the request registry after any sequence
  of operations, and from them what an \<^emph>\<open>authoritative\<close> window promises.
\<close>

section \<open>Data\<close>

datatype runtime_observatory_status = ObservatoryInactive | ObservatoryActive | ObservatoryDegraded

record console_error_event =
  cee_level :: string
  cee_message :: string
  cee_source :: "string option"

record page_error_event =
  pee_message :: string
  pee_source :: "string option"

datatype network_rule_effect_kind = EffectRewrite | EffectBlock | EffectAllow | EffectHeaderOverride

record network_rule_effect =
  nre_rule_id :: u32
  nre_kind :: network_rule_effect_kind

record network_failure_event =
  nfe_request_id :: string
  nfe_url :: string
  nfe_method :: string
  nfe_error_text :: string
  nfe_original_url :: "string option"
  nfe_rewritten_url :: "string option"
  nfe_applied_rule_effects :: "network_rule_effect list"

record request_summary_event =
  rse_request_id :: string
  rse_url :: string
  rse_method :: string
  rse_status :: "u16 option"
  rse_original_url :: "string option"
  rse_rewritten_url :: "string option"
  rse_applied_rule_effects :: "network_rule_effect list"

record network_body_preview =
  nbp_available :: bool
  nbp_preview :: "string option"
  nbp_encoding :: "string option"
  nbp_truncated :: "bool option"
  nbp_omitted_reason :: "string option"

datatype network_request_lifecycle =
  LifecyclePending | LifecycleResponded | LifecycleCompleted | LifecycleFailed

text \<open>The header maps are \<^verbatim>\<open>BTreeMap<String, String>\<close>, kept here as their sorted list of entries.\<close>

record observed_network_request_record =
  onr_request_id :: string
  onr_lifecycle :: network_request_lifecycle
  onr_url :: string
  onr_method :: string
  onr_tab_target_id :: "string option"
  onr_status :: "u16 option"
  onr_request_headers :: "(string \<times> string) list"
  onr_response_headers :: "(string \<times> string) list"
  onr_request_body :: "network_body_preview option"
  onr_response_body :: "network_body_preview option"
  onr_original_url :: "string option"
  onr_rewritten_url :: "string option"
  onr_applied_rule_effects :: "network_rule_effect list"
  onr_error_text :: "string option"
  onr_frame_id :: "string option"
  onr_resource_type :: "string option"
  onr_mime_type :: "string option"

record network_request_record =
  nrr_request_id :: string
  nrr_sequence :: u64
  nrr_lifecycle :: network_request_lifecycle
  nrr_url :: string
  nrr_method :: string
  nrr_tab_target_id :: "string option"
  nrr_status :: "u16 option"
  nrr_request_headers :: "(string \<times> string) list"
  nrr_response_headers :: "(string \<times> string) list"
  nrr_request_body :: "network_body_preview option"
  nrr_response_body :: "network_body_preview option"
  nrr_original_url :: "string option"
  nrr_rewritten_url :: "string option"
  nrr_applied_rule_effects :: "network_rule_effect list"
  nrr_error_text :: "string option"
  nrr_frame_id :: "string option"
  nrr_resource_type :: "string option"
  nrr_mime_type :: "string option"

datatype observatory_event_payload =
    ConsoleError console_error_event
  | PageError page_error_event
  | NetworkFailure network_failure_event
  | RequestSummary request_summary_event

record observatory_event =
  roe_sequence :: u64
  roe_payload :: observatory_event_payload

record runtime_observatory_info =
  roi_status :: runtime_observatory_status
  roi_recent_console_errors :: "console_error_event list"
  roi_recent_page_errors :: "page_error_event list"
  roi_recent_network_failures :: "network_failure_event list"
  roi_recent_requests :: "request_summary_event list"
  roi_dropped_event_count :: u64
  roi_degraded_reason :: "string option"

definition OBSERVATORY_RING_LIMIT :: nat where "OBSERVATORY_RING_LIMIT = 32"

definition OBSERVATORY_TIMELINE_LIMIT :: nat where "OBSERVATORY_TIMELINE_LIMIT = 64"

definition OBSERVATORY_REQUEST_RECORD_LIMIT :: nat where "OBSERVATORY_REQUEST_RECORD_LIMIT = 1024"

record runtime_observatory_state =
  ros_status :: runtime_observatory_status
  ros_degraded_reason :: "string option"
  ros_next_sequence :: u64
  ros_next_request_sequence :: u64
  ros_timeline :: "observatory_event list"
  ros_console_errors :: "console_error_event list"
  ros_page_errors :: "page_error_event list"
  ros_network_failures :: "network_failure_event list"
  ros_requests :: "request_summary_event list"
  ros_request_records :: "(string, network_request_record) mapping"
  ros_request_order :: "string list"
  ros_dropped_timeline_event_count :: u64
  ros_dropped_request_record_count :: u64
  ros_last_evicted_timeline_sequence :: u64
  ros_last_evicted_request_sequence :: u64

definition runtime_observatory_default :: runtime_observatory_state where
  "runtime_observatory_default =
     \<lparr>ros_status = ObservatoryInactive, ros_degraded_reason = None, ros_next_sequence = 0,
      ros_next_request_sequence = 0, ros_timeline = [], ros_console_errors = [],
      ros_page_errors = [], ros_network_failures = [], ros_requests = [],
      ros_request_records = Mapping.empty, ros_request_order = [],
      ros_dropped_timeline_event_count = 0, ros_dropped_request_record_count = 0,
      ros_last_evicted_timeline_sequence = 0, ros_last_evicted_request_sequence = 0\<rparr>"

record network_request_window =
  nrw_records :: "network_request_record list"
  nrw_next_cursor :: u64
  nrw_authoritative :: bool
  nrw_degraded_reason :: "string option"

record observatory_event_window =
  oew_events :: "observatory_event list"
  oew_authoritative :: bool
  oew_degraded_reason :: "string option"

section \<open>Events\<close>

definition observatory_is_ready :: "runtime_observatory_state \<Rightarrow> bool" where
  "observatory_is_ready s \<longleftrightarrow> ros_status s \<noteq> ObservatoryInactive"

definition observatory_mark_active :: "runtime_observatory_state \<Rightarrow> runtime_observatory_state" where
  "observatory_mark_active s =
     (if ros_status s \<noteq> ObservatoryDegraded
      then s\<lparr>ros_status := ObservatoryActive, ros_degraded_reason := None\<rparr> else s)"

definition observatory_mark_ready :: "runtime_observatory_state \<Rightarrow> runtime_observatory_state" where
  "observatory_mark_ready s =
     (if ros_status s = ObservatoryInactive
      then s\<lparr>ros_status := ObservatoryActive, ros_degraded_reason := None\<rparr> else s)"

definition observatory_mark_degraded ::
  "string \<Rightarrow> runtime_observatory_state \<Rightarrow> runtime_observatory_state" where
  "observatory_mark_degraded reason s =
     s\<lparr>ros_status := ObservatoryDegraded, ros_degraded_reason := Some reason\<rparr>"

definition observatory_cursor :: "runtime_observatory_state \<Rightarrow> u64" where
  "observatory_cursor s = saturating_sub (ros_next_sequence s) 1"

definition request_cursor :: "runtime_observatory_state \<Rightarrow> u64" where
  "request_cursor s = saturating_sub (ros_next_request_sequence s) 1"

definition observatory_events_after ::
  "u64 \<Rightarrow> runtime_observatory_state \<Rightarrow> observatory_event list" where
  "observatory_events_after cursor s = filter (\<lambda>e. roe_sequence e > cursor) (ros_timeline s)"

definition observatory_events_between ::
  "u64 \<Rightarrow> u64 \<Rightarrow> runtime_observatory_state \<Rightarrow> observatory_event list" where
  "observatory_events_between cursor end_cursor s =
     filter (\<lambda>e. roe_sequence e > cursor \<and> roe_sequence e \<le> end_cursor) (ros_timeline s)"

definition push_ring :: "'a list \<Rightarrow> 'a \<Rightarrow> 'a list" where
  "push_ring queue event =
     (if length queue = OBSERVATORY_RING_LIMIT then tl queue else queue) @ [event]"

definition observatory_next_sequence ::
  "runtime_observatory_state \<Rightarrow> u64 \<times> runtime_observatory_state" where
  "observatory_next_sequence s =
     (let sequence = max (ros_next_sequence s) 1
      in (sequence, s\<lparr>ros_next_sequence := sequence + 1\<rparr>))"

definition next_request_sequence ::
  "runtime_observatory_state \<Rightarrow> u64 \<times> runtime_observatory_state" where
  "next_request_sequence s =
     (let sequence = max (ros_next_request_sequence s) 1
      in (sequence, s\<lparr>ros_next_request_sequence := sequence + 1\<rparr>))"

definition push_timeline ::
  "observatory_event \<Rightarrow> runtime_observatory_state \<Rightarrow> runtime_observatory_state" where
  "push_timeline event s =
     (let s = (if length (ros_timeline s) = OBSERVATORY_TIMELINE_LIMIT then
                 (case ros_timeline s of
                    [] \<Rightarrow> s
                  | evicted # rest \<Rightarrow> s\<lparr>ros_timeline := rest,
                      ros_last_evicted_timeline_sequence :=
                        max (ros_last_evicted_timeline_sequence s) (roe_sequence evicted),
                      ros_dropped_timeline_event_count :=
                        saturating_add (ros_dropped_timeline_event_count s) 1\<rparr>)
               else s)
      in s\<lparr>ros_timeline := ros_timeline s @ [event]\<rparr>)"

definition push_console_error ::
  "console_error_event \<Rightarrow> runtime_observatory_state \<Rightarrow> runtime_observatory_state" where
  "push_console_error event s =
     (let s = observatory_mark_active s;
          s = s\<lparr>ros_console_errors := push_ring (ros_console_errors s) event\<rparr>;
          (sequence, s) = observatory_next_sequence s
      in push_timeline \<lparr>roe_sequence = sequence, roe_payload = ConsoleError event\<rparr> s)"

definition push_page_error ::
  "page_error_event \<Rightarrow> runtime_observatory_state \<Rightarrow> runtime_observatory_state" where
  "push_page_error event s =
     (let s = observatory_mark_active s;
          s = s\<lparr>ros_page_errors := push_ring (ros_page_errors s) event\<rparr>;
          (sequence, s) = observatory_next_sequence s
      in push_timeline \<lparr>roe_sequence = sequence, roe_payload = PageError event\<rparr> s)"

definition push_network_failure ::
  "network_failure_event \<Rightarrow> runtime_observatory_state \<Rightarrow> runtime_observatory_state" where
  "push_network_failure event s =
     (let s = observatory_mark_active s;
          s = s\<lparr>ros_network_failures := push_ring (ros_network_failures s) event\<rparr>;
          (sequence, s) = observatory_next_sequence s
      in push_timeline \<lparr>roe_sequence = sequence, roe_payload = NetworkFailure event\<rparr> s)"

definition push_request ::
  "request_summary_event \<Rightarrow> runtime_observatory_state \<Rightarrow> runtime_observatory_state" where
  "push_request event s =
     (let s = observatory_mark_active s;
          s = s\<lparr>ros_requests := push_ring (ros_requests s) event\<rparr>;
          (sequence, s) = observatory_next_sequence s
      in push_timeline \<lparr>roe_sequence = sequence, roe_payload = RequestSummary event\<rparr> s)"

section \<open>Projection\<close>

fun top_level_observatory_degraded_reason :: "string option \<Rightarrow> string option" where
  "top_level_observatory_degraded_reason reason =
     (if reason = Some ''network_request_ring_overflow'' then None else reason)"

definition projection_with_drop_count ::
  "u64 \<Rightarrow> runtime_observatory_state \<Rightarrow> runtime_observatory_info" where
  "projection_with_drop_count dropped s =
     (let degraded_reason = top_level_observatory_degraded_reason (ros_degraded_reason s);
          status = (if degraded_reason = None \<and> ros_status s = ObservatoryDegraded
                    then ObservatoryActive else ros_status s)
      in \<lparr>roi_status = status, roi_recent_console_errors = ros_console_errors s,
          roi_recent_page_errors = ros_page_errors s,
          roi_recent_network_failures = ros_network_failures s,
          roi_recent_requests = ros_requests s, roi_dropped_event_count = dropped,
          roi_degraded_reason = degraded_reason\<rparr>)"

definition observatory_projection :: "runtime_observatory_state \<Rightarrow> runtime_observatory_info" where
  "observatory_projection s =
     projection_with_drop_count (saturating_add (ros_dropped_timeline_event_count s)
       (ros_dropped_request_record_count s)) s"

definition event_window_between ::
  "u64 \<Rightarrow> u64 \<Rightarrow> u64 \<Rightarrow> u64 \<Rightarrow> runtime_observatory_state \<Rightarrow> observatory_event_window" where
  "event_window_between cursor end_cursor ingress_drop_count last_observed_ingress_drop_count s =
     (let events = observatory_events_between cursor end_cursor s;
          cursor_lost_to_eviction = cursor < ros_last_evicted_timeline_sequence s;
          ingress_loss_moved = ingress_drop_count > last_observed_ingress_drop_count;
          degraded_reason =
            (if cursor_lost_to_eviction then Some ''observatory_timeline_overflow''
             else if ingress_loss_moved then Some ''observatory_ingress_overflow''
             else if ros_degraded_reason s \<noteq> None \<and>
                     ros_degraded_reason s \<noteq> Some ''network_request_ring_overflow''
             then ros_degraded_reason s else None)
      in \<lparr>oew_events = events, oew_authoritative = (degraded_reason = None),
          oew_degraded_reason = degraded_reason\<rparr>)"

section \<open>The request registry\<close>

fun request_lifecycle_rank :: "network_request_lifecycle \<Rightarrow> nat" where
  "request_lifecycle_rank LifecyclePending = 0"
| "request_lifecycle_rank LifecycleResponded = 1"
| "request_lifecycle_rank LifecycleCompleted = 2"
| "request_lifecycle_rank LifecycleFailed = 2"

definition authoritative_request_record ::
  "observed_network_request_record \<Rightarrow> u64 \<Rightarrow> network_request_record" where
  "authoritative_request_record r sequence =
     \<lparr>nrr_request_id = onr_request_id r, nrr_sequence = sequence, nrr_lifecycle = onr_lifecycle r,
      nrr_url = onr_url r, nrr_method = onr_method r, nrr_tab_target_id = onr_tab_target_id r,
      nrr_status = onr_status r, nrr_request_headers = onr_request_headers r,
      nrr_response_headers = onr_response_headers r, nrr_request_body = onr_request_body r,
      nrr_response_body = onr_response_body r, nrr_original_url = onr_original_url r,
      nrr_rewritten_url = onr_rewritten_url r,
      nrr_applied_rule_effects = onr_applied_rule_effects r, nrr_error_text = onr_error_text r,
      nrr_frame_id = onr_frame_id r, nrr_resource_type = onr_resource_type r,
      nrr_mime_type = onr_mime_type r\<rparr>"

definition nonempty_or :: "'a list \<Rightarrow> 'a list \<Rightarrow> 'a list" where
  "nonempty_or incoming existing = (if incoming \<noteq> [] then incoming else existing)"

definition merge_observed_request_record ::
  "network_request_record \<Rightarrow> observed_network_request_record \<Rightarrow> network_request_record" where
  "merge_observed_request_record existing incoming =
     existing\<lparr>
       nrr_lifecycle :=
         (if request_lifecycle_rank (onr_lifecycle incoming) \<ge>
             request_lifecycle_rank (nrr_lifecycle existing)
          then onr_lifecycle incoming else nrr_lifecycle existing),
       nrr_url := nonempty_or (onr_url incoming) (nrr_url existing),
       nrr_method := nonempty_or (onr_method incoming) (nrr_method existing),
       nrr_tab_target_id := or_else (onr_tab_target_id incoming) (nrr_tab_target_id existing),
       nrr_status := or_else (onr_status incoming) (nrr_status existing),
       nrr_request_headers :=
         nonempty_or (onr_request_headers incoming) (nrr_request_headers existing),
       nrr_response_headers :=
         nonempty_or (onr_response_headers incoming) (nrr_response_headers existing),
       nrr_request_body := or_else (onr_request_body incoming) (nrr_request_body existing),
       nrr_response_body := or_else (onr_response_body incoming) (nrr_response_body existing),
       nrr_original_url := or_else (onr_original_url incoming) (nrr_original_url existing),
       nrr_rewritten_url := or_else (onr_rewritten_url incoming) (nrr_rewritten_url existing),
       nrr_applied_rule_effects :=
         nonempty_or (onr_applied_rule_effects incoming) (nrr_applied_rule_effects existing),
       nrr_error_text := or_else (onr_error_text incoming) (nrr_error_text existing),
       nrr_frame_id := or_else (onr_frame_id incoming) (nrr_frame_id existing),
       nrr_resource_type := or_else (onr_resource_type incoming) (nrr_resource_type existing),
       nrr_mime_type := or_else (onr_mime_type incoming) (nrr_mime_type existing)\<rparr>"

text \<open>\<^verbatim>\<open>trim_request_records\<close>: the loop over the order, the records, the last evicted number and the
  drop count.\<close>

fun trim_requests ::
  "nat \<Rightarrow> string list \<Rightarrow> (string, network_request_record) mapping \<Rightarrow> u64 \<Rightarrow> u64
   \<Rightarrow> string list \<times> (string, network_request_record) mapping \<times> u64 \<times> u64" where
  "trim_requests limit [] records evicted dropped = ([], records, evicted, dropped)"
| "trim_requests limit (oldest # order) records evicted dropped =
     (if length (oldest # order) > limit then
        (case Mapping.lookup records oldest of
           Some r \<Rightarrow> trim_requests limit order (Mapping.delete oldest records)
             (max evicted (nrr_sequence r)) (saturating_add dropped 1)
         | None \<Rightarrow> trim_requests limit order records evicted (saturating_add dropped 1))
      else (oldest # order, records, evicted, dropped))"

definition trim_request_records :: "runtime_observatory_state \<Rightarrow> runtime_observatory_state" where
  "trim_request_records s =
     (let (order, records, evicted, dropped) = trim_requests OBSERVATORY_REQUEST_RECORD_LIMIT
            (ros_request_order s) (ros_request_records s) (ros_last_evicted_request_sequence s)
            (ros_dropped_request_record_count s)
      in s\<lparr>ros_request_order := order, ros_request_records := records,
           ros_last_evicted_request_sequence := evicted,
           ros_dropped_request_record_count := dropped\<rparr>)"

definition upsert_observed_request_record ::
  "observed_network_request_record \<Rightarrow> runtime_observatory_state \<Rightarrow> runtime_observatory_state" where
  "upsert_observed_request_record r s =
     (let s = observatory_mark_active s;
          (next_sequence, s) = next_request_sequence s;
          request_id = onr_request_id r
      in case Mapping.lookup (ros_request_records s) request_id of
           Some existing \<Rightarrow>
             s\<lparr>ros_request_records := Mapping.update request_id
                 ((merge_observed_request_record existing r)\<lparr>nrr_sequence := next_sequence\<rparr>)
                 (ros_request_records s),
               ros_request_order := remove1 request_id (ros_request_order s) @ [request_id]\<rparr>
         | None \<Rightarrow>
             trim_request_records
               (s\<lparr>ros_request_records := Mapping.update request_id
                    (authoritative_request_record r next_sequence) (ros_request_records s),
                  ros_request_order := ros_request_order s @ [request_id]\<rparr>))"

definition request_record :: "string \<Rightarrow> runtime_observatory_state \<Rightarrow> network_request_record option" where
  "request_record request_id s = Mapping.lookup (ros_request_records s) request_id"

definition opt_all :: "('a \<Rightarrow> bool) \<Rightarrow> 'a option \<Rightarrow> bool" where
  "opt_all p x = (case x of None \<Rightarrow> True | Some v \<Rightarrow> p v)"

definition records_in_order :: "runtime_observatory_state \<Rightarrow> network_request_record list" where
  "records_in_order s = List.map_filter (Mapping.lookup (ros_request_records s)) (ros_request_order s)"

definition request_records ::
  "nat option \<Rightarrow> string option \<Rightarrow> string option \<Rightarrow> u16 option \<Rightarrow> network_request_lifecycle option
   \<Rightarrow> runtime_observatory_state \<Rightarrow> network_request_record list" where
  "request_records last_n url_match method status lifecycle s =
     (let method = map_option to_ascii_uppercase method;
          records = filter (\<lambda>r. opt_all (contains_str (nrr_url r)) url_match \<and>
            opt_all (eq_ignore_ascii_case (nrr_method r)) method \<and>
            opt_all (\<lambda>v. nrr_status r = Some v) status \<and>
            opt_all (\<lambda>v. nrr_lifecycle r = v) lifecycle) (rev (records_in_order s))
      in case last_n of None \<Rightarrow> records | Some n \<Rightarrow> take n records)"

definition request_records_after ::
  "u64 \<Rightarrow> runtime_observatory_state \<Rightarrow> network_request_record list" where
  "request_records_after cursor s = filter (\<lambda>r. nrr_sequence r > cursor) (records_in_order s)"

definition request_records_between ::
  "u64 \<Rightarrow> u64 \<Rightarrow> runtime_observatory_state \<Rightarrow> network_request_record list" where
  "request_records_between cursor end_cursor s =
     filter (\<lambda>r. nrr_sequence r > cursor \<and> nrr_sequence r \<le> end_cursor) (records_in_order s)"

definition request_window_degraded_reason ::
  "u64 \<Rightarrow> u64 \<Rightarrow> u64 \<Rightarrow> runtime_observatory_state \<Rightarrow> string option" where
  "request_window_degraded_reason cursor ingress_drop_count last_observed_ingress_drop_count s =
     (if cursor < ros_last_evicted_request_sequence s then Some ''network_request_ring_overflow''
      else if ingress_drop_count > last_observed_ingress_drop_count
      then Some ''network_request_ingress_overflow''
      else if ros_degraded_reason s \<noteq> None \<and>
              ros_degraded_reason s \<noteq> Some ''network_request_ring_overflow''
      then ros_degraded_reason s else None)"

definition max_sequence :: "network_request_record list \<Rightarrow> u64 option" where
  "max_sequence records =
     (case map nrr_sequence records of [] \<Rightarrow> None | n # ns \<Rightarrow> Some (fold max ns n))"

definition unwrap_or :: "'a option \<Rightarrow> 'a \<Rightarrow> 'a" where
  "unwrap_or x d = (case x of None \<Rightarrow> d | Some v \<Rightarrow> v)"

definition request_window_after ::
  "u64 \<Rightarrow> u64 \<Rightarrow> u64 \<Rightarrow> runtime_observatory_state \<Rightarrow> network_request_window" where
  "request_window_after cursor ingress_drop_count last_observed_ingress_drop_count s =
     (let records = request_records_after cursor s;
          next_cursor = unwrap_or (max_sequence records) (request_cursor s);
          degraded_reason = request_window_degraded_reason cursor ingress_drop_count
            last_observed_ingress_drop_count s
      in \<lparr>nrw_records = records, nrw_next_cursor = next_cursor,
          nrw_authoritative = (degraded_reason = None), nrw_degraded_reason = degraded_reason\<rparr>)"

definition request_window_between ::
  "u64 \<Rightarrow> u64 \<Rightarrow> u64 \<Rightarrow> u64 \<Rightarrow> runtime_observatory_state \<Rightarrow> network_request_window" where
  "request_window_between cursor end_cursor ingress_drop_count last_observed_ingress_drop_count s =
     (let records = request_records_between cursor end_cursor s;
          next_cursor = unwrap_or (max_sequence records) end_cursor;
          degraded_reason = request_window_degraded_reason cursor ingress_drop_count
            last_observed_ingress_drop_count s
      in \<lparr>nrw_records = records, nrw_next_cursor = next_cursor,
          nrw_authoritative = (degraded_reason = None), nrw_degraded_reason = degraded_reason\<rparr>)"

section \<open>The session's view\<close>

text \<open>The ingress counters, kept by the browser side of the session, are arguments.\<close>

record observatory_drop_counts =
  odc_total :: u64
  odc_request :: u64

definition observatory_drop_counts_of ::
  "u64 \<Rightarrow> u64 \<Rightarrow> runtime_observatory_state \<Rightarrow> observatory_drop_counts" where
  "observatory_drop_counts_of observatory_ingress request_ingress s =
     (let timeline = saturating_add observatory_ingress (ros_dropped_timeline_event_count s);
          request = saturating_add request_ingress (ros_dropped_request_record_count s)
      in \<lparr>odc_total = saturating_add timeline request, odc_request = request\<rparr>)"

definition projected_observatory ::
  "u64 \<Rightarrow> u64 \<Rightarrow> runtime_observatory_state \<Rightarrow> runtime_observatory_info" where
  "projected_observatory observatory_ingress request_ingress s =
     projection_with_drop_count
       (odc_total (observatory_drop_counts_of observatory_ingress request_ingress s)) s"

definition current_network_request_baseline ::
  "u64 \<Rightarrow> runtime_observatory_state \<Rightarrow> network_request_baseline" where
  "current_network_request_baseline request_ingress s =
     \<lparr>nrb_cursor = request_cursor s, nrb_observed_ingress_drop_count = request_ingress,
      nrb_primed = True\<rparr>"

section \<open>Sequences of operations\<close>

datatype observatory_op =
    PushEvent observatory_event_payload
  | UpsertRequest observed_network_request_record
  | MarkDegraded string
  | MarkReady

fun push_payload ::
  "observatory_event_payload \<Rightarrow> runtime_observatory_state \<Rightarrow> runtime_observatory_state" where
  "push_payload (ConsoleError e) = push_console_error e"
| "push_payload (PageError e) = push_page_error e"
| "push_payload (NetworkFailure e) = push_network_failure e"
| "push_payload (RequestSummary e) = push_request e"

fun run_observatory_op ::
  "observatory_op \<Rightarrow> runtime_observatory_state \<Rightarrow> runtime_observatory_state" where
  "run_observatory_op (PushEvent p) s = push_payload p s"
| "run_observatory_op (UpsertRequest r) s = upsert_observed_request_record r s"
| "run_observatory_op (MarkDegraded reason) s = observatory_mark_degraded reason s"
| "run_observatory_op MarkReady s = observatory_mark_ready s"

definition pushed_events :: "observatory_op list \<Rightarrow> observatory_event_payload list" where
  "pushed_events ops = concat (map (\<lambda>op. case op of PushEvent p \<Rightarrow> [p] | _ \<Rightarrow> []) ops)"

definition observed_requests :: "observatory_op list \<Rightarrow> observed_network_request_record list" where
  "observed_requests ops = concat (map (\<lambda>op. case op of UpsertRequest r \<Rightarrow> [r] | _ \<Rightarrow> []) ops)"

abbreviation observed_ids :: "observatory_op list \<Rightarrow> string list" where
  "observed_ids ops \<equiv> map onr_request_id (observed_requests ops)"

abbreviation observatory_after :: "observatory_op list \<Rightarrow> runtime_observatory_state" where
  "observatory_after ops \<equiv> fold run_observatory_op ops runtime_observatory_default"

section \<open>The timeline\<close>

lemmas push_defs = push_console_error_def push_page_error_def push_network_failure_def
  push_request_def observatory_next_sequence_def Let_def

lemma mark_active_simps [simp]:
  "ros_next_sequence (observatory_mark_active s) = ros_next_sequence s"
  "ros_next_request_sequence (observatory_mark_active s) = ros_next_request_sequence s"
  "ros_timeline (observatory_mark_active s) = ros_timeline s"
  "ros_request_records (observatory_mark_active s) = ros_request_records s"
  "ros_request_order (observatory_mark_active s) = ros_request_order s"
  "ros_last_evicted_timeline_sequence (observatory_mark_active s) = ros_last_evicted_timeline_sequence s"
  "ros_dropped_timeline_event_count (observatory_mark_active s) = ros_dropped_timeline_event_count s"
  "ros_last_evicted_request_sequence (observatory_mark_active s) = ros_last_evicted_request_sequence s"
  "ros_dropped_request_record_count (observatory_mark_active s) = ros_dropped_request_record_count s"
  by (simp_all add: observatory_mark_active_def)

lemma push_timeline_simps [simp]:
  "ros_next_sequence (push_timeline e s) = ros_next_sequence s"
  "ros_next_request_sequence (push_timeline e s) = ros_next_request_sequence s"
  "ros_request_records (push_timeline e s) = ros_request_records s"
  "ros_request_order (push_timeline e s) = ros_request_order s"
  "ros_last_evicted_request_sequence (push_timeline e s) = ros_last_evicted_request_sequence s"
  "ros_dropped_request_record_count (push_timeline e s) = ros_dropped_request_record_count s"
  "ros_timeline (push_timeline e s) =
     (if length (ros_timeline s) = OBSERVATORY_TIMELINE_LIMIT then tl (ros_timeline s)
      else ros_timeline s) @ [e]"
  "ros_last_evicted_timeline_sequence (push_timeline e s) =
     (if length (ros_timeline s) = OBSERVATORY_TIMELINE_LIMIT
      then max (ros_last_evicted_timeline_sequence s) (roe_sequence (hd (ros_timeline s)))
      else ros_last_evicted_timeline_sequence s)"
  "ros_dropped_timeline_event_count (push_timeline e s) =
     (if length (ros_timeline s) = OBSERVATORY_TIMELINE_LIMIT
      then saturating_add (ros_dropped_timeline_event_count s) 1
      else ros_dropped_timeline_event_count s)"
  by (cases "ros_timeline s"; simp add: push_timeline_def OBSERVATORY_TIMELINE_LIMIT_def)+

lemma push_payload_simps [simp]:
  "ros_next_sequence (push_payload p s) = max (ros_next_sequence s) 1 + 1"
  "ros_next_request_sequence (push_payload p s) = ros_next_request_sequence s"
  "ros_request_records (push_payload p s) = ros_request_records s"
  "ros_request_order (push_payload p s) = ros_request_order s"
  "ros_last_evicted_request_sequence (push_payload p s) = ros_last_evicted_request_sequence s"
  "ros_dropped_request_record_count (push_payload p s) = ros_dropped_request_record_count s"
  "ros_timeline (push_payload p s) =
     (if length (ros_timeline s) = OBSERVATORY_TIMELINE_LIMIT then tl (ros_timeline s)
      else ros_timeline s) @
     [\<lparr>roe_sequence = max (ros_next_sequence s) 1, roe_payload = p\<rparr>]"
  "ros_last_evicted_timeline_sequence (push_payload p s) =
     (if length (ros_timeline s) = OBSERVATORY_TIMELINE_LIMIT
      then max (ros_last_evicted_timeline_sequence s) (roe_sequence (hd (ros_timeline s)))
      else ros_last_evicted_timeline_sequence s)"
  "ros_dropped_timeline_event_count (push_payload p s) =
     (if length (ros_timeline s) = OBSERVATORY_TIMELINE_LIMIT
      then saturating_add (ros_dropped_timeline_event_count s) 1
      else ros_dropped_timeline_event_count s)"
  by (cases p; simp add: push_defs)+

interpretation timeline_log: accounted_log roe_sequence ros_next_sequence ros_timeline push_payload
    "\<lambda>p n. \<lparr>roe_sequence = n, roe_payload = p\<rparr>" OBSERVATORY_TIMELINE_LIMIT
    ros_last_evicted_timeline_sequence ros_dropped_timeline_event_count
proof unfold_locales
  fix p and s :: runtime_observatory_state
  let ?e = "\<lparr>roe_sequence = max (ros_next_sequence s) 1, roe_payload = p\<rparr>"
  have shape: "ros_timeline (push_payload p s) = drop
      (if length (ros_timeline s) = OBSERVATORY_TIMELINE_LIMIT then 1 else 0) (ros_timeline s @ [?e])"
    by (cases "ros_timeline s") (auto simp: OBSERVATORY_TIMELINE_LIMIT_def)
  then show "\<exists>d. ros_timeline (push_payload p s) = drop d (ros_timeline s @ [?e])" by blast
  assume "length (ros_timeline s) \<le> OBSERVATORY_TIMELINE_LIMIT"
  then show "ros_timeline (push_payload p s) =
      drop (Suc (length (ros_timeline s)) - OBSERVATORY_TIMELINE_LIMIT) (ros_timeline s @ [?e])"
    unfolding shape by auto
qed (auto simp: OBSERVATORY_TIMELINE_LIMIT_def)

section \<open>The registry of requests\<close>

lemma merge_simps [simp]:
  "nrr_request_id (merge_observed_request_record e r) = nrr_request_id e"
  "nrr_request_id (authoritative_request_record r n) = onr_request_id r"
  "nrr_sequence (authoritative_request_record r n) = n"
  by (simp_all add: merge_observed_request_record_def authoritative_request_record_def)

text \<open>
  The registry after the observations \<open>rs\<close>: an observation's number is its position. The order lists
  the requests observed since the last evicted number, each at its last observation, and each record
  carries the number of that observation.
\<close>

definition requests_ok ::
  "observed_network_request_record list \<Rightarrow> runtime_observatory_state \<Rightarrow> bool" where
  "requests_ok rs s \<longleftrightarrow>
     max (ros_next_request_sequence s) 1 = of_nat (Suc (length rs)) \<and>
     unat (ros_last_evicted_request_sequence s) \<le> length rs \<and>
     ros_request_order s =
       remdups (drop (unat (ros_last_evicted_request_sequence s)) (map onr_request_id rs)) \<and>
     length (ros_request_order s) \<le> OBSERVATORY_REQUEST_RECORD_LIMIT \<and>
     (\<forall>x. Mapping.lookup (ros_request_records s) x \<noteq> None \<longleftrightarrow> x \<in> set (ros_request_order s)) \<and>
     (\<forall>x r. Mapping.lookup (ros_request_records s) x = Some r \<longrightarrow>
        nrr_request_id r = x \<and> unat (nrr_sequence r) = last_pos x (map onr_request_id rs))"

lemma trim_requests_fits:
  "length order \<le> limit \<Longrightarrow> trim_requests limit order records evicted dropped =
     (order, records, evicted, dropped)"
  by (cases order) auto

text \<open>The state between the insertion of a record and the trimming: as \<open>requests_ok\<close> asks, but
  possibly one entry too long.\<close>

lemma trim_request_records_ok:
  assumes nxt: "max (ros_next_request_sequence s) 1 = of_nat (Suc (length rs))"
    and room: "length rs < 2 ^ 64 - 1"
    and e: "unat (ros_last_evicted_request_sequence s) \<le> length rs"
    and order: "ros_request_order s =
      remdups (drop (unat (ros_last_evicted_request_sequence s)) (map onr_request_id rs))"
    and len: "length (ros_request_order s) \<le> Suc OBSERVATORY_REQUEST_RECORD_LIMIT"
    and keys: "\<And>x. Mapping.lookup (ros_request_records s) x \<noteq> None \<longleftrightarrow> x \<in> set (ros_request_order s)"
    and recs: "\<And>x r. Mapping.lookup (ros_request_records s) x = Some r \<Longrightarrow>
      nrr_request_id r = x \<and> unat (nrr_sequence r) = last_pos x (map onr_request_id rs)"
  shows "requests_ok rs (trim_request_records s)"
proof (cases "length (ros_request_order s) \<le> OBSERVATORY_REQUEST_RECORD_LIMIT")
  case True
  have "trim_request_records s = s"
    using True by (simp add: trim_request_records_def trim_requests_fits)
  then show ?thesis using assms True unfolding requests_ok_def by simp
next
  case False
  let ?ids = "map onr_request_id rs" and ?e = "unat (ros_last_evicted_request_sequence s)"
  obtain y ys where ys: "ros_request_order s = y # ys" using False by (cases "ros_request_order s") auto
  then have l: "length ys = OBSERVATORY_REQUEST_RECORD_LIMIT" using False len by simp
  obtain r where r: "Mapping.lookup (ros_request_records s) y = Some r" using keys [of y] ys by auto
  let ?q = "unat (nrr_sequence r)"
  have q: "?q = last_pos y ?ids" using recs [OF r] by simp
  have y: "y \<in> set (drop ?e ?ids)" using order ys by (metis list.set_intros(1) set_remdups)
  have qe: "?q = ?e + last_pos y (drop ?e ?ids)" using q last_pos_drop [OF y] e by simp
  have "remdups (drop (last_pos y (drop ?e ?ids)) (drop ?e ?ids)) = ys"
    using order ys by (intro remdups_head) simp
  then have rest: "remdups (drop ?q ?ids) = ys" using qe by (simp add: add.commute)
  have max: "max (ros_last_evicted_request_sequence s) (nrr_sequence r) = nrr_sequence r"
    using qe by (simp add: max_def word_le_nat_alt)
  have fresh: "y \<notin> set ys"
    using order ys by (metis distinct.simps(2) distinct_remdups)
  have "trim_request_records s = s\<lparr>ros_request_order := ys,
      ros_request_records := Mapping.delete y (ros_request_records s),
      ros_last_evicted_request_sequence := nrr_sequence r,
      ros_dropped_request_record_count := saturating_add (ros_dropped_request_record_count s) 1\<rparr>"
    by (simp add: trim_request_records_def ys r l max trim_requests_fits)
  moreover have "?q \<le> length rs" using q last_pos_le [of y ?ids] by simp
  ultimately show ?thesis
    using nxt rest l fresh keys recs ys
    unfolding requests_ok_def by (auto simp: lookup_delete_if split: if_splits)
qed

lemma next_number:
  assumes "max nxt 1 = (of_nat (Suc n) :: u64)" and "n < 2 ^ 64 - 2"
  shows "unat (max nxt 1) = Suc n" and "max (max nxt 1 + 1) 1 = (of_nat (Suc (Suc n)) :: u64)"
proof -
  have u: "unat (of_nat (Suc k) :: u64) = Suc k" if "k < 2 ^ 64 - 1" for k
    using that by (simp only: unat_of_nat) simp
  show "unat (max nxt 1) = Suc n" unfolding assms(1) using assms(2) by (intro u) simp
  have s: "of_nat (Suc n) + 1 = (of_nat (Suc (Suc n)) :: u64)" by simp
  have "unat (of_nat (Suc (Suc n)) :: u64) = Suc (Suc n)" using assms(2) by (intro u) simp
  then have "1 \<le> (of_nat (Suc (Suc n)) :: u64)" by (simp add: word_le_nat_alt del: of_nat_Suc)
  then show "max (max nxt 1 + 1) 1 = (of_nat (Suc (Suc n)) :: u64)"
    unfolding assms(1) s by (rule max_absorb1)
qed

lemma upsert_ok:
  assumes ok: "requests_ok rs s" and room: "length rs < 2 ^ 64 - 2"
  shows "requests_ok (rs @ [r]) (upsert_observed_request_record r s)"
proof -
  let ?n = "max (ros_next_request_sequence s) 1" and ?x = "onr_request_id r"
  let ?s = "(observatory_mark_active s)\<lparr>ros_next_request_sequence := ?n + 1\<rparr>"
  let ?ids = "map onr_request_id rs" and ?e = "unat (ros_last_evicted_request_sequence s)"
  note o = ok [unfolded requests_ok_def]
  have nxt: "?n = of_nat (Suc (length rs))" using o by blast
  have n: "unat ?n = Suc (length rs)" "max (?n + 1) 1 = of_nat (Suc (Suc (length rs)))"
    using next_number [OF nxt room] by simp_all
  have e: "?e \<le> length rs" using o by blast
  have order: "ros_request_order s = remdups (drop ?e ?ids)" using o by blast
  have snoc: "remdups (drop ?e (map onr_request_id (rs @ [r]))) =
      filter (\<lambda>y. y \<noteq> ?x) (ros_request_order s) @ [?x]"
    using e by (simp add: order remdups_snoc)
  have keys: "Mapping.lookup (ros_request_records s) x \<noteq> None \<longleftrightarrow> x \<in> set (ros_request_order s)" for x
    using o by blast
  have recs: "nrr_request_id q = x \<and> unat (nrr_sequence q) = last_pos x ?ids"
    if "Mapping.lookup (ros_request_records s) x = Some q" for x q
    using o that by blast
  have up: "upsert_observed_request_record r s =
      (case Mapping.lookup (ros_request_records s) ?x of
         Some existing \<Rightarrow> ?s\<lparr>ros_request_records := Mapping.update ?x
             ((merge_observed_request_record existing r)\<lparr>nrr_sequence := ?n\<rparr>) (ros_request_records s),
           ros_request_order := remove1 ?x (ros_request_order s) @ [?x]\<rparr>
       | None \<Rightarrow> trim_request_records (?s\<lparr>ros_request_records :=
             Mapping.update ?x (authoritative_request_record r ?n) (ros_request_records s),
           ros_request_order := ros_request_order s @ [?x]\<rparr>))"
    by (simp add: upsert_observed_request_record_def next_request_sequence_def Let_def
        split: option.split)
  show ?thesis
  proof (cases "Mapping.lookup (ros_request_records s) ?x")
    case None
    then have fresh: "filter (\<lambda>y. y \<noteq> ?x) (ros_request_order s) = ros_request_order s"
      using keys [of ?x] by (auto simp: filter_id_conv)
    show ?thesis
      unfolding up None option.case
    proof (rule trim_request_records_ok)
      fix x q
      assume "Mapping.lookup (ros_request_records (?s\<lparr>ros_request_records :=
          Mapping.update ?x (authoritative_request_record r ?n) (ros_request_records s),
          ros_request_order := ros_request_order s @ [?x]\<rparr>)) x = Some q"
      then show "nrr_request_id q = x \<and>
          unat (nrr_sequence q) = last_pos x (map onr_request_id (rs @ [r]))"
        using n(1) recs [of x q] by (auto simp: lookup_update' split: if_splits)
    qed (use n e o snoc fresh keys room in \<open>auto simp: lookup_update'\<close>)
  next
    case (Some q)
    have "remove1 ?x (ros_request_order s) = filter (\<lambda>y. y \<noteq> ?x) (ros_request_order s)"
      by (auto simp: order distinct_remove1_removeAll removeAll_filter_not_eq intro: filter_cong)
    moreover have "length (filter (\<lambda>y. y \<noteq> ?x) (ros_request_order s)) < length (ros_request_order s)"
      using keys [of ?x] Some by (intro length_filter_less [of ?x]) auto
    moreover have "length (ros_request_order s) \<le> OBSERVATORY_REQUEST_RECORD_LIMIT" using o by blast
    ultimately show ?thesis
      unfolding up Some option.case requests_ok_def
      using n e snoc keys recs recs [OF Some] Some by (auto simp: lookup_update')
  qed
qed

section \<open>Contents after any sequence of operations\<close>

lemma pushed_events_snoc [simp]:
  "pushed_events [] = []"
  "pushed_events (ops @ [op]) = pushed_events ops @ (case op of PushEvent p \<Rightarrow> [p] | _ \<Rightarrow> [])"
  by (simp_all add: pushed_events_def)

lemma observed_requests_snoc [simp]:
  "observed_requests [] = []"
  "observed_requests (ops @ [op]) = observed_requests ops @ (case op of UpsertRequest r \<Rightarrow> [r] | _ \<Rightarrow> [])"
  by (simp_all add: observed_requests_def)

definition timeline_ok :: "observatory_event_payload list \<Rightarrow> runtime_observatory_state \<Rightarrow> bool" where
  "timeline_ok ps s \<longleftrightarrow>
     accounted OBSERVATORY_TIMELINE_LIMIT (ros_next_sequence s) (map roe_sequence (ros_timeline s))
       (ros_last_evicted_timeline_sequence s) (ros_dropped_timeline_event_count s) \<and>
     max (ros_next_sequence s) 1 = of_nat (Suc (length ps)) \<and>
     ros_timeline s = log_of (\<lambda>p n. \<lparr>roe_sequence = n, roe_payload = p\<rparr>)
       OBSERVATORY_TIMELINE_LIMIT ps"

lemma timeline_ok_push:
  assumes ok: "timeline_ok ps s" and room: "length ps < 2 ^ 64 - 2"
  shows "timeline_ok (ps @ [p]) (push_payload p s)"
proof -
  note o = ok [unfolded timeline_ok_def]
  have nxt: "max (ros_next_sequence s) 1 = of_nat (Suc (length ps))" using o by blast
  note n = next_number [OF nxt room]
  have "unat (ros_next_sequence s) \<le> Suc (length ps)" by (metis n(1) max.cobounded1 unat_max)
  then have "unat (ros_next_sequence s) < 2 ^ 64 - 1" using room by simp
  then have "accounted OBSERVATORY_TIMELINE_LIMIT (ros_next_sequence (push_payload p s))
      (map roe_sequence (ros_timeline (push_payload p s)))
      (ros_last_evicted_timeline_sequence (push_payload p s))
      (ros_dropped_timeline_event_count (push_payload p s))"
    using timeline_log.accounted_push o by blast
  moreover have "ros_timeline (push_payload p s) =
      log_of (\<lambda>p n. \<lparr>roe_sequence = n, roe_payload = p\<rparr>) OBSERVATORY_TIMELINE_LIMIT (ps @ [p])"
    using o by (intro timeline_log.log_of_push) simp_all
  moreover have "max (ros_next_sequence (push_payload p s)) 1 = of_nat (Suc (length (ps @ [p])))"
    using n(2) by simp
  ultimately show ?thesis
    unfolding timeline_ok_def by blast
qed

lemma upsert_keeps_timeline:
  "ros_next_sequence (upsert_observed_request_record r s) = ros_next_sequence s"
  "ros_timeline (upsert_observed_request_record r s) = ros_timeline s"
  "ros_last_evicted_timeline_sequence (upsert_observed_request_record r s) =
     ros_last_evicted_timeline_sequence s"
  "ros_dropped_timeline_event_count (upsert_observed_request_record r s) =
     ros_dropped_timeline_event_count s"
  by (simp_all add: upsert_observed_request_record_def next_request_sequence_def
      trim_request_records_def Let_def split_def split: option.split)

lemma timeline_ok_others:
  "timeline_ok ps (upsert_observed_request_record r s) = timeline_ok ps s"
  "timeline_ok ps (observatory_mark_degraded reason s) = timeline_ok ps s"
  "timeline_ok ps (observatory_mark_ready s) = timeline_ok ps s"
  by (simp_all add: timeline_ok_def upsert_keeps_timeline observatory_mark_degraded_def
      observatory_mark_ready_def)

lemma requests_ok_others:
  "requests_ok rs (push_payload p s) = requests_ok rs s"
  "requests_ok rs (observatory_mark_degraded reason s) = requests_ok rs s"
  "requests_ok rs (observatory_mark_ready s) = requests_ok rs s"
  by (simp_all add: requests_ok_def observatory_mark_degraded_def observatory_mark_ready_def)

lemma observatory_contents:
  "length ops < 2 ^ 64 - 2 \<Longrightarrow>
   timeline_ok (pushed_events ops) (observatory_after ops) \<and>
   requests_ok (observed_requests ops) (observatory_after ops) \<and>
   length (pushed_events ops) \<le> length ops \<and> length (observed_requests ops) \<le> length ops"
proof (induction ops rule: rev_induct)
  case Nil
  then show ?case
    by (simp add: timeline_ok_def requests_ok_def runtime_observatory_default_def accounted_fresh
        log_of_def lookup_empty)
next
  case (snoc op ops)
  let ?s = "observatory_after ops"
  have ih: "timeline_ok (pushed_events ops) ?s" "requests_ok (observed_requests ops) ?s"
    "length (pushed_events ops) < 2 ^ 64 - 2" "length (observed_requests ops) < 2 ^ 64 - 2"
    "length (pushed_events ops) \<le> length ops" "length (observed_requests ops) \<le> length ops"
    using snoc by auto
  have "timeline_ok (pushed_events (ops @ [op])) (run_observatory_op op ?s)"
  proof (cases op)
    case (PushEvent p)
    then show ?thesis using timeline_ok_push [OF ih(1,3)] by simp
  qed (use ih(1) in \<open>simp_all add: timeline_ok_others\<close>)
  moreover have "requests_ok (observed_requests (ops @ [op])) (run_observatory_op op ?s)"
  proof (cases op)
    case (UpsertRequest r)
    then show ?thesis using upsert_ok [OF ih(2,4)] by simp
  qed (use ih(2) in \<open>simp_all add: requests_ok_others\<close>)
  ultimately show ?case
    using ih(5,6) by (cases op) simp_all
qed

section \<open>Windows\<close>

lemma records_in_order_exact:
  assumes "requests_ok rs s"
  shows "map nrr_request_id (records_in_order s) = ros_request_order s"
    and "r \<in> set (records_in_order s) \<Longrightarrow>
      unat (nrr_sequence r) = last_pos (nrr_request_id r) (map onr_request_id rs) \<and>
      request_record (nrr_request_id r) s = Some r"
proof -
  note o = assms [unfolded requests_ok_def]
  have "\<exists>e. Mapping.lookup (ros_request_records s) x = Some e \<and> nrr_request_id e = x \<and>
      unat (nrr_sequence e) = last_pos (nrr_request_id e) (map onr_request_id rs) \<and>
      request_record (nrr_request_id e) s = Some e" if x: "x \<in> set (ros_request_order s)" for x
  proof -
    obtain e where e: "Mapping.lookup (ros_request_records s) x = Some e" using o x by blast
    then have "nrr_request_id e = x \<and> unat (nrr_sequence e) = last_pos x (map onr_request_id rs)"
      using o by blast
    with e show ?thesis by (simp add: request_record_def)
  qed
  then have "map nrr_request_id (records_in_order s) = ros_request_order s \<and>
      list_all (\<lambda>e. unat (nrr_sequence e) = last_pos (nrr_request_id e) (map onr_request_id rs) \<and>
        request_record (nrr_request_id e) s = Some e) (records_in_order s)"
    unfolding records_in_order_def by (intro map_filter_lookup) blast
  then show "map nrr_request_id (records_in_order s) = ros_request_order s"
    and "r \<in> set (records_in_order s) \<Longrightarrow>
      unat (nrr_sequence r) = last_pos (nrr_request_id r) (map onr_request_id rs) \<and>
      request_record (nrr_request_id r) s = Some r"
    by (simp_all add: list_all_iff)
qed

lemma map_filter_key:
  "(\<And>r. r \<in> set rs \<Longrightarrow> P r \<longleftrightarrow> Q (key r)) \<Longrightarrow> map key (filter P rs) = filter Q (map key rs)"
  by (induction rs) auto

lemma window_ids:
  assumes ok: "requests_ok rs s" and "ros_last_evicted_request_sequence s \<le> cursor"
    and p: "\<And>r. r \<in> set (records_in_order s) \<Longrightarrow> P r \<longleftrightarrow>
      unat cursor < last_pos (nrr_request_id r) (map onr_request_id rs) \<and> Q (nrr_request_id r)"
  shows "map nrr_request_id (filter P (records_in_order s)) =
    filter Q (remdups (drop (unat cursor) (map onr_request_id rs)))"
proof -
  let ?ids = "map onr_request_id rs" and ?e = "unat (ros_last_evicted_request_sequence s)"
  have o: "ros_request_order s = remdups (drop ?e ?ids)" "?e \<le> length ?ids" "?e \<le> unat cursor"
    using ok assms(2) by (simp_all add: requests_ok_def word_le_nat_alt)
  have "map nrr_request_id (filter P (records_in_order s)) =
      filter (\<lambda>x. unat cursor < last_pos x ?ids \<and> Q x) (map nrr_request_id (records_in_order s))"
    using p by (intro map_filter_key) simp
  also have "\<dots> = filter Q (filter (\<lambda>x. unat cursor < last_pos x ?ids) (ros_request_order s))"
    by (simp add: records_in_order_exact(1) [OF ok] conj_commute)
  also have "filter (\<lambda>x. unat cursor < last_pos x ?ids) (ros_request_order s) =
      remdups (drop (unat cursor) ?ids)"
    unfolding o(1) using o(3,2) by (rule filter_last_pos_from)
  finally show ?thesis .
qed

lemma records_after_ids:
  assumes ok: "requests_ok rs s" and "ros_last_evicted_request_sequence s \<le> cursor"
  shows "map nrr_request_id (request_records_after cursor s) =
    remdups (drop (unat cursor) (map onr_request_id rs))"
  unfolding request_records_after_def
  using window_ids [OF assms, of _ "\<lambda>_. True"] records_in_order_exact(2) [OF ok]
  by (simp add: word_less_nat_alt)

lemma last_pos_beyond: "x \<in> set xs \<Longrightarrow> d < last_pos x xs \<longleftrightarrow> x \<in> set (drop d xs)"
proof -
  assume "x \<in> set xs"
  then have "d < last_pos x xs \<longleftrightarrow> x \<in> set (filter (\<lambda>x. d < last_pos x xs) (remdups xs))" by simp
  then show ?thesis unfolding filter_last_pos by simp
qed

lemma records_between_ids:
  assumes ok: "requests_ok rs s" and "ros_last_evicted_request_sequence s \<le> cursor"
  shows "map nrr_request_id (request_records_between cursor end_cursor s) =
    filter (\<lambda>x. x \<notin> set (drop (unat end_cursor) (map onr_request_id rs)))
      (remdups (drop (unat cursor) (map onr_request_id rs)))"
  unfolding request_records_between_def
proof (rule window_ids [OF assms])
  fix r assume r: "r \<in> set (records_in_order s)"
  have "nrr_request_id r \<in> set (ros_request_order s)"
    using r records_in_order_exact(1) [OF ok] by (metis image_eqI list.set_map)
  then have m: "nrr_request_id r \<in> set (map onr_request_id rs)"
    using ok by (auto simp: requests_ok_def dest: in_set_dropD)
  show "nrr_sequence r > cursor \<and> nrr_sequence r \<le> end_cursor \<longleftrightarrow>
      unat cursor < last_pos (nrr_request_id r) (map onr_request_id rs) \<and>
      nrr_request_id r \<notin> set (drop (unat end_cursor) (map onr_request_id rs))"
    using records_in_order_exact(2) [OF ok r] last_pos_beyond [OF m, of "unat end_cursor"]
    by (simp add: word_less_nat_alt word_le_nat_alt not_less [symmetric])
qed

lemma fold_max_ge: "m \<in> set (n # ns) \<Longrightarrow> m \<le> fold max ns (n :: u64)"
proof (induction ns arbitrary: m n)
  case (Cons a ns)
  have "max a n \<le> fold max ns (max a n)" by (rule Cons.IH) simp
  then show ?case using Cons.prems Cons.IH [of m "max a n"] by auto
qed simp

lemma fold_max_mem: "fold max ns (n :: u64) \<in> set (n # ns)"
proof (induction ns arbitrary: n)
  case (Cons a ns)
  show ?case using Cons [of "max a n"] by (auto simp: max_def)
qed simp

lemma next_cursor_exact:
  assumes ok: "requests_ok rs s" and e: "ros_last_evicted_request_sequence s \<le> cursor"
    and room: "length rs < 2 ^ 64 - 1" and c: "unat cursor \<le> length rs"
  shows "unat (unwrap_or (max_sequence (request_records_after cursor s)) (request_cursor s)) =
    length rs"
proof -
  let ?ids = "map onr_request_id rs" and ?rs = "request_records_after cursor s"
  have ids: "map nrr_request_id ?rs = remdups (drop (unat cursor) ?ids)"
    by (rule records_after_ids [OF ok e])
  have seqs: "unat (nrr_sequence r) = last_pos (nrr_request_id r) ?ids" if "r \<in> set ?rs" for r
    using that records_in_order_exact(2) [OF ok] by (simp add: request_records_after_def)
  show ?thesis
  proof (cases ?rs)
    case Nil
    then have "remdups (drop (unat cursor) ?ids) = []" using ids by simp
    then have c': "unat cursor = length rs" using c by simp
    have num: "unat (of_nat (Suc (length rs)) :: u64) = Suc (length rs)"
      using room by (simp only: unat_of_nat) simp
    have "max (ros_next_request_sequence s) 1 = of_nat (Suc (length rs))"
      using ok unfolding requests_ok_def by blast
    then have "unat (max (ros_next_request_sequence s) 1) = Suc (length rs)" using num by simp
    then have "max (unat (ros_next_request_sequence s)) 1 = Suc (length rs)" by (simp add: unat_max)
    then show ?thesis
      using Nil by (auto simp: max_sequence_def unwrap_or_def request_cursor_def unat_saturating_sub
          max_def split: if_splits)
  next
    case (Cons r rest)
    let ?m = "fold max (map nrr_sequence rest) (nrr_sequence r)"
    have m: "max_sequence ?rs = Some ?m" using Cons by (simp add: max_sequence_def)
    have ne: "?ids \<noteq> []" "last ?ids \<in> set (drop (unat cursor) ?ids)"
    proof -
      have d: "drop (unat cursor) ?ids \<noteq> []" using ids Cons by auto
      then have "last (drop (unat cursor) ?ids) = last ?ids" by (intro last_drop) simp
      then show "last ?ids \<in> set (drop (unat cursor) ?ids)" using last_in_set [OF d] by simp
      show "?ids \<noteq> []" using d by auto
    qed
    obtain q where q: "q \<in> set ?rs" "nrr_request_id q = last ?ids"
      using ne(2) ids by (metis (no_types, lifting) imageE list.set_map set_remdups)
    have "unat (nrr_sequence q) = length rs" using seqs [OF q(1)] q(2) last_pos_last [OF ne(1)] by simp
    moreover have "nrr_sequence q \<le> ?m"
      using q(1) Cons by (intro fold_max_ge) auto
    moreover have "?m \<in> nrr_sequence ` set ?rs"
      using fold_max_mem [of "map nrr_sequence rest" "nrr_sequence r"] by (simp add: Cons)
    then obtain p where "p \<in> set ?rs" "nrr_sequence p = ?m" by force
    then have "unat ?m \<le> length rs" using seqs [of p] last_pos_le [of "nrr_request_id p" ?ids] by simp
    ultimately show ?thesis using m by (simp add: unwrap_or_def word_le_nat_alt)
  qed
qed

lemma authoritative_cursor:
  "nrw_authoritative (request_window_after cursor ingress observed s) \<Longrightarrow>
     ros_last_evicted_request_sequence s \<le> cursor \<and> ingress \<le> observed"
  "nrw_authoritative (request_window_between cursor end_cursor ingress observed s) \<Longrightarrow>
     ros_last_evicted_request_sequence s \<le> cursor \<and> ingress \<le> observed"
  by (auto simp: request_window_after_def request_window_between_def Let_def not_less
      request_window_degraded_reason_def split: if_splits)

section \<open>Properties\<close>

text \<open>
  What an event window of the observatory holds, after any sequence of operations: if no event
  after the cursor has been evicted, exactly the events published under the numbers in
  (cursor, end], each with its payload, and otherwise the window says that it is not authoritative.
  An authoritative window has no unnoticed loss on ingress either.
\<close>

theorem event_window_complete:
  assumes "length ops < 2 ^ 64 - 2"
  shows "let w = event_window_between cursor end_cursor ingress observed (observatory_after ops);
           events = pushed_events ops in
    (if unat cursor < length events - 64
     then \<not> oew_authoritative w \<and> oew_degraded_reason w = Some ''observatory_timeline_overflow''
     else oew_events w = map (\<lambda>j. \<lparr>roe_sequence = of_nat (Suc j), roe_payload = events ! j\<rparr>)
            [unat cursor ..< min (length events) (unat end_cursor)]) \<and>
    (oew_authoritative w \<longrightarrow> length events - 64 \<le> unat cursor \<and> ingress \<le> observed)"
proof -
  let ?s = "observatory_after ops" and ?ps = "pushed_events ops"
  have ok: "timeline_ok ?ps ?s" and room: "length ?ps < 2 ^ 64 - 2"
    using observatory_contents [OF assms] assms by auto
  note o = ok [unfolded timeline_ok_def]
  have log: "ros_timeline ?s = log_of (\<lambda>p n. \<lparr>roe_sequence = n, roe_payload = p\<rparr>) 64 ?ps"
    using o by (simp add: OBSERVATORY_TIMELINE_LIMIT_def)
  have "max (ros_next_sequence ?s) 1 = of_nat (Suc (length ?ps))" using o by blast
  from next_number(1) [OF this room] have "max 1 (unat (ros_next_sequence ?s)) = Suc (length ?ps)"
    by (simp add: unat_max max.commute)
  then have evicted: "unat (ros_last_evicted_timeline_sequence ?s) = length ?ps - 64"
    using o log by (auto simp: accounted_def log_of_def)
  have "observatory_events_between cursor end_cursor ?s =
      map (\<lambda>j. \<lparr>roe_sequence = of_nat (Suc j), roe_payload = ?ps ! j\<rparr>)
        [unat cursor ..< min (length ?ps) (unat end_cursor)]" if "length ?ps - 64 \<le> unat cursor"
    unfolding observatory_events_between_def log
    using that room by (intro log_of_between) auto
  then show ?thesis
    using evicted by (auto simp: event_window_between_def Let_def word_less_nat_alt word_le_nat_alt)
qed

text \<open>
  C36. What an authoritative window of network requests holds, after any sequence of operations.
  \<^emph>\<open>After\<close> a cursor: exactly the requests observed since then, each once, in the order of their last
  observation, each with the registry's current record under the number of that observation; the
  next cursor is the number of the last observation made, so windows read one after the other leave
  no gap. \<^emph>\<open>Between\<close> two cursors: those of them that were not observed again after the end.
\<close>

theorem request_window_complete:
  assumes "length ops < 2 ^ 64 - 2"
    and s_def: "s = observatory_after ops" and ids_def: "ids = observed_ids ops"
  shows "(nrw_authoritative (request_window_after cursor ingress observed s) \<longrightarrow>
      (let w = request_window_after cursor ingress observed s in
        map nrr_request_id (nrw_records w) = remdups (drop (unat cursor) ids) \<and>
        (\<forall>r\<in>set (nrw_records w). request_record (nrr_request_id r) s = Some r \<and>
          unat (nrr_sequence r) = last_pos (nrr_request_id r) ids) \<and>
        (unat cursor \<le> length ids \<longrightarrow> unat (nrw_next_cursor w) = length ids) \<and>
        ingress \<le> observed)) \<and>
    (nrw_authoritative (request_window_between cursor end_cursor ingress observed s) \<longrightarrow>
      (let w = request_window_between cursor end_cursor ingress observed s in
        map nrr_request_id (nrw_records w) =
          filter (\<lambda>x. x \<notin> set (drop (unat end_cursor) ids)) (remdups (drop (unat cursor) ids)) \<and>
        ingress \<le> observed))"
proof -
  let ?rs = "observed_requests ops"
  have ok: "requests_ok ?rs s" and room: "length ?rs < 2 ^ 64 - 1"
    using observatory_contents [OF assms(1)] assms(1) unfolding s_def by auto
  have recs: "request_record (nrr_request_id r) s = Some r \<and>
      unat (nrr_sequence r) = last_pos (nrr_request_id r) ids"
    if "r \<in> set (request_records_after cursor s)" for r
    using that records_in_order_exact(2) [OF ok, of r]
    by (simp add: request_records_after_def ids_def)
  have fields: "nrw_records (request_window_after cursor ingress observed s) =
      request_records_after cursor s"
    "nrw_next_cursor (request_window_after cursor ingress observed s) =
      unwrap_or (max_sequence (request_records_after cursor s)) (request_cursor s)"
    "nrw_records (request_window_between cursor end_cursor ingress observed s) =
      request_records_between cursor end_cursor s"
    by (simp_all add: request_window_after_def request_window_between_def Let_def)
  show ?thesis
    unfolding Let_def fields
    using records_after_ids [OF ok] records_between_ids [OF ok] recs
      next_cursor_exact [OF ok _ room] authoritative_cursor
    by (auto simp: ids_def)
qed

section \<open>Concrete runs\<close>

definition example_page_error :: "string \<Rightarrow> observatory_event_payload" where
  "example_page_error text = PageError \<lparr>pee_message = text, pee_source = None\<rparr>"

theorem event_window_complete_witness:
  "oew_events (event_window_between 1 2 0 0
     (observatory_after [PushEvent (example_page_error ''a''), PushEvent (example_page_error ''b'')])) =
   [\<lparr>roe_sequence = 2, roe_payload = example_page_error ''b''\<rparr>]"
  using event_window_complete [of "[PushEvent (example_page_error ''a''),
    PushEvent (example_page_error ''b'')]" 1 2 0 0]
  by (simp add: Let_def pushed_events_def)

definition example_observation :: "string \<Rightarrow> observed_network_request_record" where
  "example_observation request_id = \<lparr>onr_request_id = request_id, onr_lifecycle = LifecyclePending,
     onr_url = ''https://a/api'', onr_method = ''GET'', onr_tab_target_id = None, onr_status = None,
     onr_request_headers = [], onr_response_headers = [], onr_request_body = None,
     onr_response_body = None, onr_original_url = None, onr_rewritten_url = None,
     onr_applied_rule_effects = [], onr_error_text = None, onr_frame_id = None,
     onr_resource_type = None, onr_mime_type = None\<rparr>"

abbreviation example_requests :: "observatory_op list" where
  "example_requests \<equiv> map (UpsertRequest \<circ> example_observation) [''a'', ''b'', ''a'']"

lemmas example_observatory_defs = runtime_observatory_default_def upsert_observed_request_record_def
  observatory_mark_active_def next_request_sequence_def trim_request_records_def Let_def
  OBSERVATORY_REQUEST_RECORD_LIMIT_def lookup_empty lookup_update' example_observation_def
  authoritative_request_record_def merge_observed_request_record_def

theorem request_window_complete_witness:
  "map nrr_request_id (nrw_records (request_window_after 1 0 0 (observatory_after example_requests))) =
     [''b'', ''a''] \<and>
   unat (nrw_next_cursor (request_window_after 1 0 0 (observatory_after example_requests))) = 3 \<and>
   map nrr_request_id (nrw_records (request_window_between 0 2 0 0 (observatory_after example_requests))) =
     [''b'']"
proof -
  have "ros_last_evicted_request_sequence (observatory_after example_requests) = 0"
    "ros_degraded_reason (observatory_after example_requests) = None"
    by (simp_all add: example_observatory_defs)
  then have a: "nrw_authoritative (request_window_after 1 0 0 (observatory_after example_requests))"
    "nrw_authoritative (request_window_between 0 2 0 0 (observatory_after example_requests))"
    by (simp_all add: request_window_after_def request_window_between_def
        request_window_degraded_reason_def Let_def)
  have "observed_ids example_requests = [''a'', ''b'', ''a'']"
    by (simp add: observed_requests_def example_observation_def)
  then show ?thesis
    using request_window_complete [of example_requests, OF _ refl refl, of 1 0 0 2] a(1)
      request_window_complete [of example_requests, OF _ refl refl, of 0 0 0 2] a(2)
    by (simp add: Let_def)
qed

end
