(* ===== verification/Rub_Command.thy ===== *)
theory Rub_Command
  imports Rub_Json
begin

text \<open>
  The command manifest of \<^verbatim>\<open>rub-core/src/command.rs\<close>: the wire names, the metadata every command
  carries (visibility, effect class, DOM-epoch policy, timeout recovery, replay safety), and the
  two router policies derived from it, the DOM-epoch policy (\<^verbatim>\<open>router/policy/epoch.rs\<close>) and the
  handoff allow-list (\<^verbatim>\<open>router/policy/handoff.rs\<close>). The lemmas show that the wire names round-trip,
  that the metadata is coherent across commands and arguments, and that the two policies agree
  with it.
\<close>

section \<open>Metadata\<close>

datatype command_effect_class =
    EffectUnknown | ReadOnly | BrowserMutation | RuntimeMutation | WorkflowMutation |
    RegistryMutation | InternalProbe

datatype dom_epoch_policy_kind =
    NoEpoch | Bump | InvalidateSnapshotWithoutBump | ArgsDependent

datatype timeout_recovery_surface_kind =
    NoRecovery | PossibleCommit | PartialCommit | RegistryCommit

datatype replay_safety_kind =
    SafeWithFreshCommandId | RequiresSameCommandId | UnsafeFreshRetry | NotReplayable

record command_metadata =
  internal :: bool
  supports_post_wait :: bool
  in_process_only :: bool
  transport_protocol_compat_exempt :: bool
  effect_class :: command_effect_class
  dom_epoch_policy :: dom_epoch_policy_kind
  timeout_recovery_surface :: timeout_recovery_surface_kind
  replay_safety :: replay_safety_kind

text \<open>\<^verbatim>\<open>#[derive(Default)]\<close>: the metadata of an unknown command.\<close>

definition default_metadata :: command_metadata where
  "default_metadata =
   \<lparr>internal = False, supports_post_wait = False, in_process_only = False,
     transport_protocol_compat_exempt = False,
     effect_class = EffectUnknown, dom_epoch_policy = NoEpoch,
     timeout_recovery_surface = NoRecovery, replay_safety = NotReplayable\<rparr>"

definition read_only :: "command_metadata \<Rightarrow> command_metadata" where
  "read_only m = m\<lparr>effect_class := ReadOnly, dom_epoch_policy := NoEpoch,
     timeout_recovery_surface := NoRecovery, replay_safety := SafeWithFreshCommandId\<rparr>"

definition possible_runtime_commit :: "command_metadata \<Rightarrow> command_metadata" where
  "possible_runtime_commit m = m\<lparr>effect_class := RuntimeMutation,
     timeout_recovery_surface := PossibleCommit, replay_safety := RequiresSameCommandId\<rparr>"

section \<open>Command names\<close>

datatype command_name =
    CmdHandshake | CmdUpgradeCheck | CmdBlockerDiagnose | CmdInteractabilityProbe |
    CmdFillValidate | CmdOrchestrationProbe | CmdOrchestrationTabFrames |
    CmdOrchestrationTargetDispatch | CmdOrchestrationWorkflowSourceVars | CmdTriggerFill |
    CmdTriggerPipe | CmdOpen | CmdState | CmdObserve | CmdOrchestration | CmdInspect |
    CmdFind | CmdClick | CmdExec | CmdScroll | CmdBack | CmdForward | CmdReload |
    CmdScreenshot | CmdDoctor | CmdRuntime | CmdFrames | CmdFrame | CmdHistory | CmdDownloads |
    CmdDownload | CmdStorage | CmdHandoff | CmdTakeover | CmdDialog | CmdIntercept |
    CmdInterference | CmdClose | CmdSecret | CmdKeys | CmdType | CmdWait | CmdTabs |
    CmdTrigger | CmdSwitch | CmdCloseTab | CmdGet | CmdHover | CmdCookies | CmdUpload |
    CmdSelect | CmdFill | CmdExtract | CmdPipe

definition all_commands :: "command_name list" where
  "all_commands = [
     CmdHandshake, CmdUpgradeCheck, CmdBlockerDiagnose, CmdInteractabilityProbe,
     CmdFillValidate, CmdOrchestrationProbe, CmdOrchestrationTabFrames,
     CmdOrchestrationTargetDispatch, CmdOrchestrationWorkflowSourceVars, CmdTriggerFill,
     CmdTriggerPipe, CmdOpen, CmdState, CmdObserve, CmdOrchestration, CmdInspect, CmdFind,
     CmdClick, CmdExec, CmdScroll, CmdBack, CmdForward, CmdReload, CmdScreenshot, CmdDoctor,
     CmdRuntime, CmdFrames, CmdFrame, CmdHistory, CmdDownloads, CmdDownload, CmdStorage,
     CmdHandoff, CmdTakeover, CmdDialog, CmdIntercept, CmdInterference, CmdClose, CmdSecret,
     CmdKeys, CmdType, CmdWait, CmdTabs, CmdTrigger, CmdSwitch, CmdCloseTab, CmdGet, CmdHover,
     CmdCookies, CmdUpload, CmdSelect, CmdFill, CmdExtract, CmdPipe]"

primrec as_str :: "command_name \<Rightarrow> string" where
  "as_str CmdHandshake = ''_handshake''"
| "as_str CmdUpgradeCheck = ''_upgrade_check''"
| "as_str CmdBlockerDiagnose = ''_blocker_diagnose''"
| "as_str CmdInteractabilityProbe = ''_interactability_probe''"
| "as_str CmdFillValidate = ''_fill_validate''"
| "as_str CmdOrchestrationProbe = ''_orchestration_probe''"
| "as_str CmdOrchestrationTabFrames = ''_orchestration_tab_frames''"
| "as_str CmdOrchestrationTargetDispatch = ''_orchestration_target_dispatch''"
| "as_str CmdOrchestrationWorkflowSourceVars = ''_orchestration_workflow_source_vars''"
| "as_str CmdTriggerFill = ''_trigger_fill''"
| "as_str CmdTriggerPipe = ''_trigger_pipe''"
| "as_str CmdOpen = ''open''"
| "as_str CmdState = ''state''"
| "as_str CmdObserve = ''observe''"
| "as_str CmdOrchestration = ''orchestration''"
| "as_str CmdInspect = ''inspect''"
| "as_str CmdFind = ''find''"
| "as_str CmdClick = ''click''"
| "as_str CmdExec = ''exec''"
| "as_str CmdScroll = ''scroll''"
| "as_str CmdBack = ''back''"
| "as_str CmdForward = ''forward''"
| "as_str CmdReload = ''reload''"
| "as_str CmdScreenshot = ''screenshot''"
| "as_str CmdDoctor = ''doctor''"
| "as_str CmdRuntime = ''runtime''"
| "as_str CmdFrames = ''frames''"
| "as_str CmdFrame = ''frame''"
| "as_str CmdHistory = ''history''"
| "as_str CmdDownloads = ''downloads''"
| "as_str CmdDownload = ''download''"
| "as_str CmdStorage = ''storage''"
| "as_str CmdHandoff = ''handoff''"
| "as_str CmdTakeover = ''takeover''"
| "as_str CmdDialog = ''dialog''"
| "as_str CmdIntercept = ''intercept''"
| "as_str CmdInterference = ''interference''"
| "as_str CmdClose = ''close''"
| "as_str CmdSecret = ''secret''"
| "as_str CmdKeys = ''keys''"
| "as_str CmdType = ''type''"
| "as_str CmdWait = ''wait''"
| "as_str CmdTabs = ''tabs''"
| "as_str CmdTrigger = ''trigger''"
| "as_str CmdSwitch = ''switch''"
| "as_str CmdCloseTab = ''close-tab''"
| "as_str CmdGet = ''get''"
| "as_str CmdHover = ''hover''"
| "as_str CmdCookies = ''cookies''"
| "as_str CmdUpload = ''upload''"
| "as_str CmdSelect = ''select''"
| "as_str CmdFill = ''fill''"
| "as_str CmdExtract = ''extract''"
| "as_str CmdPipe = ''pipe''"

definition parse :: "string \<Rightarrow> command_name option" where
  "parse command = map_of [
     (''_handshake'', CmdHandshake), (''_upgrade_check'', CmdUpgradeCheck),
     (''_blocker_diagnose'', CmdBlockerDiagnose),
     (''_interactability_probe'', CmdInteractabilityProbe),
     (''_fill_validate'', CmdFillValidate), (''_orchestration_probe'', CmdOrchestrationProbe),
     (''_orchestration_tab_frames'', CmdOrchestrationTabFrames),
     (''_orchestration_target_dispatch'', CmdOrchestrationTargetDispatch),
     (''_orchestration_workflow_source_vars'', CmdOrchestrationWorkflowSourceVars),
     (''_trigger_fill'', CmdTriggerFill), (''_trigger_pipe'', CmdTriggerPipe),
     (''open'', CmdOpen), (''state'', CmdState), (''observe'', CmdObserve),
     (''orchestration'', CmdOrchestration), (''inspect'', CmdInspect), (''find'', CmdFind),
     (''click'', CmdClick), (''exec'', CmdExec), (''scroll'', CmdScroll), (''back'', CmdBack),
     (''forward'', CmdForward), (''reload'', CmdReload), (''screenshot'', CmdScreenshot),
     (''doctor'', CmdDoctor), (''runtime'', CmdRuntime), (''frames'', CmdFrames),
     (''frame'', CmdFrame), (''history'', CmdHistory), (''downloads'', CmdDownloads),
     (''download'', CmdDownload), (''storage'', CmdStorage), (''handoff'', CmdHandoff),
     (''takeover'', CmdTakeover), (''dialog'', CmdDialog), (''intercept'', CmdIntercept),
     (''interference'', CmdInterference), (''close'', CmdClose), (''secret'', CmdSecret),
     (''keys'', CmdKeys), (''type'', CmdType), (''wait'', CmdWait), (''tabs'', CmdTabs),
     (''trigger'', CmdTrigger), (''switch'', CmdSwitch), (''close-tab'', CmdCloseTab),
     (''get'', CmdGet), (''hover'', CmdHover), (''cookies'', CmdCookies),
     (''upload'', CmdUpload), (''select'', CmdSelect), (''fill'', CmdFill),
     (''extract'', CmdExtract), (''pipe'', CmdPipe)] command"

section \<open>The metadata table\<close>

definition control_plane_metadata :: command_metadata where
  "control_plane_metadata =
   \<lparr>internal = True, supports_post_wait = False, in_process_only = False,
     transport_protocol_compat_exempt = True,
     effect_class = InternalProbe, dom_epoch_policy = NoEpoch,
     timeout_recovery_surface = NoRecovery, replay_safety = SafeWithFreshCommandId\<rparr>"

definition probe_metadata :: command_metadata where
  "probe_metadata =
   \<lparr>internal = True, supports_post_wait = False, in_process_only = False,
     transport_protocol_compat_exempt = False,
     effect_class = InternalProbe, dom_epoch_policy = NoEpoch,
     timeout_recovery_surface = NoRecovery, replay_safety = SafeWithFreshCommandId\<rparr>"

definition target_dispatch_metadata :: command_metadata where
  "target_dispatch_metadata =
   \<lparr>internal = True, supports_post_wait = False, in_process_only = False,
     transport_protocol_compat_exempt = False,
     effect_class = WorkflowMutation, dom_epoch_policy = NoEpoch,
     timeout_recovery_surface = PossibleCommit, replay_safety = RequiresSameCommandId\<rparr>"

definition trigger_fill_metadata :: command_metadata where
  "trigger_fill_metadata =
   \<lparr>internal = True, supports_post_wait = True, in_process_only = True,
     transport_protocol_compat_exempt = False,
     effect_class = WorkflowMutation, dom_epoch_policy = InvalidateSnapshotWithoutBump,
     timeout_recovery_surface = PossibleCommit, replay_safety = RequiresSameCommandId\<rparr>"

definition trigger_pipe_metadata :: command_metadata where
  "trigger_pipe_metadata =
   \<lparr>internal = True, supports_post_wait = True, in_process_only = True,
     transport_protocol_compat_exempt = False,
     effect_class = WorkflowMutation, dom_epoch_policy = NoEpoch,
     timeout_recovery_surface = PossibleCommit, replay_safety = RequiresSameCommandId\<rparr>"

definition browser_mutation_metadata :: command_metadata where
  "browser_mutation_metadata =
   \<lparr>internal = False, supports_post_wait = True, in_process_only = False,
     transport_protocol_compat_exempt = False,
     effect_class = BrowserMutation, dom_epoch_policy = Bump,
     timeout_recovery_surface = PossibleCommit, replay_safety = RequiresSameCommandId\<rparr>"

definition fill_metadata :: command_metadata where
  "fill_metadata =
   \<lparr>internal = False, supports_post_wait = True, in_process_only = False,
     transport_protocol_compat_exempt = False,
     effect_class = WorkflowMutation, dom_epoch_policy = InvalidateSnapshotWithoutBump,
     timeout_recovery_surface = PossibleCommit, replay_safety = RequiresSameCommandId\<rparr>"

definition pipe_metadata :: command_metadata where
  "pipe_metadata =
   \<lparr>internal = False, supports_post_wait = True, in_process_only = False,
     transport_protocol_compat_exempt = False,
     effect_class = WorkflowMutation, dom_epoch_policy = NoEpoch,
     timeout_recovery_surface = PossibleCommit, replay_safety = RequiresSameCommandId\<rparr>"

definition scroll_metadata :: command_metadata where
  "scroll_metadata =
   \<lparr>internal = False, supports_post_wait = False, in_process_only = False,
     transport_protocol_compat_exempt = False,
     effect_class = BrowserMutation, dom_epoch_policy = InvalidateSnapshotWithoutBump,
     timeout_recovery_surface = PossibleCommit, replay_safety = RequiresSameCommandId\<rparr>"

definition close_tab_metadata :: command_metadata where
  "close_tab_metadata =
   \<lparr>internal = False, supports_post_wait = False, in_process_only = False,
     transport_protocol_compat_exempt = False,
     effect_class = BrowserMutation, dom_epoch_policy = Bump,
     timeout_recovery_surface = PossibleCommit, replay_safety = RequiresSameCommandId\<rparr>"

definition args_dependent_read_metadata :: command_metadata where
  "args_dependent_read_metadata =
   \<lparr>internal = False, supports_post_wait = False, in_process_only = False,
     transport_protocol_compat_exempt = False,
     effect_class = ReadOnly, dom_epoch_policy = ArgsDependent,
     timeout_recovery_surface = NoRecovery, replay_safety = SafeWithFreshCommandId\<rparr>"

definition dialog_metadata :: command_metadata where
  "dialog_metadata =
   \<lparr>internal = False, supports_post_wait = False, in_process_only = False,
     transport_protocol_compat_exempt = False,
     effect_class = RuntimeMutation, dom_epoch_policy = ArgsDependent,
     timeout_recovery_surface = PossibleCommit, replay_safety = RequiresSameCommandId\<rparr>"

definition runtime_commit_metadata :: command_metadata where
  "runtime_commit_metadata =
   \<lparr>internal = False, supports_post_wait = False, in_process_only = False,
     transport_protocol_compat_exempt = False,
     effect_class = RuntimeMutation, dom_epoch_policy = NoEpoch,
     timeout_recovery_surface = PossibleCommit, replay_safety = RequiresSameCommandId\<rparr>"

definition orchestration_metadata :: command_metadata where
  "orchestration_metadata =
   \<lparr>internal = False, supports_post_wait = False, in_process_only = False,
     transport_protocol_compat_exempt = False,
     effect_class = WorkflowMutation, dom_epoch_policy = NoEpoch,
     timeout_recovery_surface = PossibleCommit, replay_safety = RequiresSameCommandId\<rparr>"

definition trigger_metadata :: command_metadata where
  "trigger_metadata =
   \<lparr>internal = False, supports_post_wait = False, in_process_only = False,
     transport_protocol_compat_exempt = False,
     effect_class = RegistryMutation, dom_epoch_policy = NoEpoch,
     timeout_recovery_surface = PossibleCommit, replay_safety = RequiresSameCommandId\<rparr>"

definition runtime_control_metadata :: command_metadata where
  "runtime_control_metadata =
   \<lparr>internal = False, supports_post_wait = False, in_process_only = False,
     transport_protocol_compat_exempt = False,
     effect_class = RuntimeMutation, dom_epoch_policy = NoEpoch,
     timeout_recovery_surface = PossibleCommit, replay_safety = RequiresSameCommandId\<rparr>"

definition secret_metadata :: command_metadata where
  "secret_metadata =
   \<lparr>internal = False, supports_post_wait = False, in_process_only = False,
     transport_protocol_compat_exempt = False,
     effect_class = RuntimeMutation, dom_epoch_policy = NoEpoch,
     timeout_recovery_surface = NoRecovery, replay_safety = NotReplayable\<rparr>"

definition read_only_metadata :: command_metadata where
  "read_only_metadata =
   \<lparr>internal = False, supports_post_wait = False, in_process_only = False,
     transport_protocol_compat_exempt = False,
     effect_class = ReadOnly, dom_epoch_policy = NoEpoch,
     timeout_recovery_surface = NoRecovery, replay_safety = SafeWithFreshCommandId\<rparr>"

primrec metadata :: "command_name \<Rightarrow> command_metadata" where
  "metadata CmdHandshake = control_plane_metadata"
| "metadata CmdUpgradeCheck = control_plane_metadata"
| "metadata CmdBlockerDiagnose = control_plane_metadata"
| "metadata CmdInteractabilityProbe = probe_metadata"
| "metadata CmdFillValidate = probe_metadata"
| "metadata CmdOrchestrationProbe = probe_metadata"
| "metadata CmdOrchestrationTabFrames = probe_metadata"
| "metadata CmdOrchestrationWorkflowSourceVars = probe_metadata"
| "metadata CmdOrchestrationTargetDispatch = target_dispatch_metadata"
| "metadata CmdTriggerFill = trigger_fill_metadata"
| "metadata CmdTriggerPipe = trigger_pipe_metadata"
| "metadata CmdOpen = browser_mutation_metadata"
| "metadata CmdExec = browser_mutation_metadata"
| "metadata CmdBack = browser_mutation_metadata"
| "metadata CmdForward = browser_mutation_metadata"
| "metadata CmdReload = browser_mutation_metadata"
| "metadata CmdSwitch = browser_mutation_metadata"
| "metadata CmdClick = browser_mutation_metadata"
| "metadata CmdKeys = browser_mutation_metadata"
| "metadata CmdType = browser_mutation_metadata"
| "metadata CmdHover = browser_mutation_metadata"
| "metadata CmdUpload = browser_mutation_metadata"
| "metadata CmdSelect = browser_mutation_metadata"
| "metadata CmdFill = fill_metadata"
| "metadata CmdPipe = pipe_metadata"
| "metadata CmdScroll = scroll_metadata"
| "metadata CmdCloseTab = close_tab_metadata"
| "metadata CmdFind = args_dependent_read_metadata"
| "metadata CmdExtract = args_dependent_read_metadata"
| "metadata CmdDialog = dialog_metadata"
| "metadata CmdCookies = runtime_commit_metadata"
| "metadata CmdIntercept = runtime_commit_metadata"
| "metadata CmdStorage = runtime_commit_metadata"
| "metadata CmdOrchestration = orchestration_metadata"
| "metadata CmdTrigger = trigger_metadata"
| "metadata CmdDownload = runtime_control_metadata"
| "metadata CmdHandoff = runtime_control_metadata"
| "metadata CmdTakeover = runtime_control_metadata"
| "metadata CmdInterference = runtime_control_metadata"
| "metadata CmdClose = runtime_control_metadata"
| "metadata CmdSecret = secret_metadata"
| "metadata CmdState = read_only_metadata"
| "metadata CmdObserve = read_only_metadata"
| "metadata CmdInspect = read_only_metadata"
| "metadata CmdScreenshot = read_only_metadata"
| "metadata CmdDoctor = read_only_metadata"
| "metadata CmdRuntime = read_only_metadata"
| "metadata CmdFrames = read_only_metadata"
| "metadata CmdFrame = read_only_metadata"
| "metadata CmdHistory = read_only_metadata"
| "metadata CmdDownloads = read_only_metadata"
| "metadata CmdWait = read_only_metadata"
| "metadata CmdTabs = read_only_metadata"
| "metadata CmdGet = read_only_metadata"

lemmas metadata_group_defs =
  control_plane_metadata_def probe_metadata_def target_dispatch_metadata_def
  trigger_fill_metadata_def trigger_pipe_metadata_def browser_mutation_metadata_def
  fill_metadata_def pipe_metadata_def scroll_metadata_def close_tab_metadata_def
  args_dependent_read_metadata_def dialog_metadata_def runtime_commit_metadata_def
  orchestration_metadata_def trigger_metadata_def runtime_control_metadata_def
  secret_metadata_def read_only_metadata_def

definition command_metadata_of :: "string \<Rightarrow> command_metadata" where
  "command_metadata_of command =
     (case parse command of None \<Rightarrow> default_metadata | Some name \<Rightarrow> metadata name)"

definition command_metadata_for_args :: "string \<Rightarrow> 'n json \<Rightarrow> command_metadata" where
  "command_metadata_for_args command args =
     (let m = command_metadata_of command; sub = json_get_str args ''sub'' in
      case parse command of
        Some CmdDownload \<Rightarrow>
          (case sub of
             Some s \<Rightarrow> if s = ''wait'' then read_only m
                      else if s = ''cancel'' \<or> s = ''save'' then possible_runtime_commit m else m
           | None \<Rightarrow> m)
      | Some CmdHandoff \<Rightarrow>
          (case sub of
             None \<Rightarrow> read_only m
           | Some s \<Rightarrow> if s = ''status'' then read_only m
                      else if s = ''start'' \<or> s = ''complete'' then possible_runtime_commit m
                      else m)
      | Some CmdTakeover \<Rightarrow>
          (case sub of
             None \<Rightarrow> read_only m
           | Some s \<Rightarrow> if s = ''status'' then read_only m
                      else if s = ''start'' \<or> s = ''elevate'' \<or> s = ''resume''
                      then possible_runtime_commit m else m)
      | Some CmdInterference \<Rightarrow>
          (case sub of
             None \<Rightarrow> possible_runtime_commit m
           | Some s \<Rightarrow> if s = ''status'' then read_only m
                      else if s = ''mode'' \<or> s = ''recover'' then possible_runtime_commit m
                      else m)
      | Some CmdClose \<Rightarrow> possible_runtime_commit m
      | _ \<Rightarrow> m)"

definition is_transport_exposed_internal_command :: "string \<Rightarrow> bool" where
  "is_transport_exposed_internal_command command =
     (let m = command_metadata_of command in internal m \<and> \<not> in_process_only m)"

definition allows_transport_protocol_compat_exemption :: "string \<Rightarrow> bool" where
  "allows_transport_protocol_compat_exemption command =
     (let m = command_metadata_of command in
      internal m \<and> \<not> in_process_only m \<and> transport_protocol_compat_exempt m)"

definition allows_missing_request_command_id :: "string \<Rightarrow> bool" where
  "allows_missing_request_command_id command =
     (case parse command of
        Some CmdHandshake \<Rightarrow> True
      | Some CmdUpgradeCheck \<Rightarrow> True
      | Some CmdBlockerDiagnose \<Rightarrow> True
      | _ \<Rightarrow> False)"

section \<open>Router policies\<close>

text \<open>\<^verbatim>\<open>router/policy/handoff.rs\<close>\<close>

definition command_allowed_during_handoff :: "string \<Rightarrow> bool" where
  "command_allowed_during_handoff command =
     (if (case parse command of
            None \<Rightarrow> False
          | Some name \<Rightarrow> internal (metadata name) \<and> \<not> in_process_only (metadata name))
      then True
      else command \<in> {''doctor'', ''runtime'', ''frames'', ''history'', ''downloads'', ''download'',
             ''handoff'', ''takeover'', ''dialog'', ''state'', ''observe'', ''inspect'', ''trigger'',
             ''tabs'', ''get'', ''screenshot'', ''close''})"

text \<open>\<^verbatim>\<open>router/policy/epoch.rs\<close>\<close>

definition extract_scan_scrolls_page :: "string \<Rightarrow> 'n json \<Rightarrow> bool" where
  "extract_scan_scrolls_page command args =
     (command = ''extract'' \<and>
      (case json_get args ''scan'' of None \<Rightarrow> False | Some scan \<Rightarrow> \<not> json_is_null scan))"

definition find_topmost_scrolls_page :: "string \<Rightarrow> 'n json \<Rightarrow> bool" where
  "find_topmost_scrolls_page command args =
     (command = ''find'' \<and> Option.bind (json_get args ''topmost'') json_as_bool = Some True)"

definition dialog_action_commits_epoch :: "string \<Rightarrow> 'n json \<Rightarrow> bool" where
  "dialog_action_commits_epoch command args =
     (command = ''dialog'' \<and>
      (case json_get_str args ''sub'' of
         None \<Rightarrow> False | Some s \<Rightarrow> s = ''accept'' \<or> s = ''dismiss''))"

definition command_invalidates_cached_snapshots_from_args :: "string \<Rightarrow> 'n json \<Rightarrow> bool" where
  "command_invalidates_cached_snapshots_from_args command args =
     (extract_scan_scrolls_page command args \<or> find_topmost_scrolls_page command args)"

definition command_invalidates_cached_snapshots_without_epoch_bump :: "string \<Rightarrow> 'n json \<Rightarrow> bool" where
  "command_invalidates_cached_snapshots_without_epoch_bump command args =
     (case dom_epoch_policy (command_metadata_of command) of
        InvalidateSnapshotWithoutBump \<Rightarrow> True
      | ArgsDependent \<Rightarrow> command_invalidates_cached_snapshots_from_args command args
      | NoEpoch \<Rightarrow> False
      | Bump \<Rightarrow> False)"

definition command_increments_epoch :: "string \<Rightarrow> bool" where
  "command_increments_epoch command = (dom_epoch_policy (command_metadata_of command) = Bump)"

text \<open>The two tests of \<^verbatim>\<open>router.rs\<close> and \<^verbatim>\<open>router/queue.rs\<close> that read the same metadata.\<close>

definition command_allows_shared_read_transaction :: "string \<Rightarrow> 'n json \<Rightarrow> bool" where
  "command_allows_shared_read_transaction command args =
     (effect_class (command_metadata_for_args command args) = ReadOnly \<and>
      (command = ''history'' \<or> command = ''downloads''))"

definition command_may_have_dom_commit_after_timeout :: "string \<Rightarrow> 'n json \<Rightarrow> bool" where
  "command_may_have_dom_commit_after_timeout command args =
     (let m = command_metadata_for_args command args in
      dom_epoch_policy m = Bump
      \<or> (dom_epoch_policy m = ArgsDependent \<and> dialog_action_commits_epoch command args)
      \<or> (effect_class m = WorkflowMutation \<and> timeout_recovery_surface m = PossibleCommit))"

section \<open>Wire names\<close>

lemma parse_table: "parse command = map_of (map (\<lambda>name. (as_str name, name)) all_commands) command"
  by (simp only: parse_def all_commands_def list.map as_str.simps)

lemma set_all_commands: "set all_commands = UNIV"
proof -
  have "name \<in> set all_commands" for name
    by (cases name) (simp_all add: all_commands_def)
  then show ?thesis by auto
qed

lemma distinct_wire_names: "distinct (map as_str all_commands)"
  by code_simp

lemma parse_as_str: "parse (as_str name) = Some name"
proof -
  have "distinct (map fst (map (\<lambda>name. (as_str name, name)) all_commands))"
    using distinct_wire_names by (simp add: comp_def)
  moreover have "(as_str name, name) \<in> set (map (\<lambda>name. (as_str name, name)) all_commands)"
    by (simp add: set_all_commands)
  ultimately show ?thesis unfolding parse_table by (rule map_of_is_SomeI)
qed

lemma parse_SomeD: "parse command = Some name \<Longrightarrow> as_str name = command"
  unfolding parse_table by (drule map_of_SomeD) auto

text \<open>
  Wire names and commands correspond one to one: a string parses to a command exactly when it
  is the command's wire name, \<^verbatim>\<open>CommandName::ALL\<close> lists every command once, and no two of them
  share a wire name.
\<close>

theorem parse_as_str_bijection:
  "(parse command = Some name \<longleftrightarrow> as_str name = command) \<and>
   set all_commands = UNIV \<and> distinct (map as_str all_commands)"
  using parse_as_str parse_SomeD set_all_commands distinct_wire_names by blast

section \<open>Coherence of the metadata\<close>

lemma metadata_coherent:
  "timeout_recovery_surface (metadata name) \<noteq> NoRecovery
     \<longleftrightarrow> replay_safety (metadata name) = RequiresSameCommandId"
  "effect_class (metadata name) = ReadOnly \<Longrightarrow>
     replay_safety (metadata name) = SafeWithFreshCommandId"
  "dom_epoch_policy (metadata name) \<in> {Bump, InvalidateSnapshotWithoutBump} \<Longrightarrow>
     replay_safety (metadata name) = RequiresSameCommandId"
  "in_process_only (metadata name) \<Longrightarrow> internal (metadata name)"
  "transport_protocol_compat_exempt (metadata name)
     \<longleftrightarrow> name \<in> {CmdHandshake, CmdUpgradeCheck, CmdBlockerDiagnose}"
  "transport_protocol_compat_exempt (metadata name) \<Longrightarrow>
     internal (metadata name) \<and> \<not> in_process_only (metadata name)"
  by (cases name; simp add: metadata_group_defs)+

lemma command_metadata_of_cases:
  obtains (unknown) "parse command = None" "command_metadata_of command = default_metadata"
  | (known) name where "command = as_str name" "parse command = Some name"
      "command_metadata_of command = metadata name"
  using parse_SomeD by (cases "parse command") (auto simp: command_metadata_of_def)

text \<open>What the argument-dependent refinement can do: nothing, downgrade, or fence.\<close>

lemma command_metadata_for_args_cases:
  "command_metadata_for_args command args = command_metadata_of command
   \<or> command_metadata_for_args command args = read_only (command_metadata_of command)
   \<or> command_metadata_for_args command args = possible_runtime_commit (command_metadata_of command)"
proof (cases "parse command")
  case None
  then show ?thesis by (simp add: command_metadata_for_args_def)
next
  case (Some name)
  then show ?thesis
    by (cases name; cases "json_get_str args ''sub''";
        simp add: command_metadata_for_args_def Let_def)
qed

lemma default_metadata_simps [simp]:
  "effect_class default_metadata = EffectUnknown"
  "replay_safety default_metadata = NotReplayable"
  "timeout_recovery_surface default_metadata = NoRecovery"
  "dom_epoch_policy default_metadata = NoEpoch"
  "internal default_metadata = False"
  "in_process_only default_metadata = False"
  "transport_protocol_compat_exempt default_metadata = False"
  by (simp_all add: default_metadata_def)

lemma read_only_simps [simp]:
  "effect_class (read_only m) = ReadOnly"
  "replay_safety (read_only m) = SafeWithFreshCommandId"
  "timeout_recovery_surface (read_only m) = NoRecovery"
  "dom_epoch_policy (read_only m) = NoEpoch"
  by (simp_all add: read_only_def)

lemma possible_runtime_commit_simps [simp]:
  "effect_class (possible_runtime_commit m) = RuntimeMutation"
  "replay_safety (possible_runtime_commit m) = RequiresSameCommandId"
  "timeout_recovery_surface (possible_runtime_commit m) = PossibleCommit"
  "dom_epoch_policy (possible_runtime_commit m) = dom_epoch_policy m"
  by (simp_all add: possible_runtime_commit_def)

lemma command_metadata_of_coherent:
  "timeout_recovery_surface (command_metadata_of command) \<noteq> NoRecovery
     \<longleftrightarrow> replay_safety (command_metadata_of command) = RequiresSameCommandId"
  "effect_class (command_metadata_of command) = ReadOnly \<Longrightarrow>
     replay_safety (command_metadata_of command) = SafeWithFreshCommandId"
  "dom_epoch_policy (command_metadata_of command) \<in> {Bump, InvalidateSnapshotWithoutBump} \<Longrightarrow>
     replay_safety (command_metadata_of command) = RequiresSameCommandId"
  by (cases command rule: command_metadata_of_cases; simp add: metadata_coherent)+

text \<open>
  Whatever the command string and its arguments, a command has a timeout-recovery surface (it
  may have committed something) exactly when its retry must carry the same command id; a read-only
  one may be retried with a fresh id; one that the DOM-epoch policy marks as changing the page
  must keep its id.
\<close>

theorem replay_safety_covers_commits:
  "let m = command_metadata_for_args command args in
     (timeout_recovery_surface m \<noteq> NoRecovery \<longleftrightarrow> replay_safety m = RequiresSameCommandId) \<and>
     (effect_class m = ReadOnly \<longrightarrow> replay_safety m = SafeWithFreshCommandId) \<and>
     (dom_epoch_policy m \<in> {Bump, InvalidateSnapshotWithoutBump} \<longrightarrow>
        replay_safety m = RequiresSameCommandId)"
  using command_metadata_for_args_cases [of command args] command_metadata_of_coherent [of command]
  unfolding Let_def by auto

theorem replay_safety_covers_commits_witness:
  "replay_safety (command_metadata_for_args ''click'' (JObject [] :: nat json))
     = RequiresSameCommandId \<and>
   replay_safety (command_metadata_for_args ''state'' (JObject [] :: nat json))
     = SafeWithFreshCommandId"
proof -
  have "dom_epoch_policy (command_metadata_for_args ''click'' (JObject [] :: nat json)) = Bump"
    by code_simp
  moreover have "effect_class (command_metadata_for_args ''state'' (JObject [] :: nat json)) = ReadOnly"
    by code_simp
  ultimately show ?thesis
    using replay_safety_covers_commits [of "''click''" "JObject [] :: nat json"]
      replay_safety_covers_commits [of "''state''" "JObject [] :: nat json"]
    by (simp add: Let_def)
qed

text \<open>
  The two transport allow-lists coincide and stay inside the internal control plane: a request
  may omit its command id exactly when the command is exempt from the protocol-version check, and
  then it is an internal command that is exposed on the transport.
\<close>

theorem transport_allow_lists_agree:
  "allows_missing_request_command_id command = allows_transport_protocol_compat_exemption command \<and>
   (allows_missing_request_command_id command
      \<longrightarrow> is_transport_exposed_internal_command command
          \<and> effect_class (command_metadata_of command) = InternalProbe)"
proof (cases command rule: command_metadata_of_cases)
  case unknown
  then show ?thesis
    by (simp add: allows_missing_request_command_id_def
        allows_transport_protocol_compat_exemption_def)
next
  case (known name)
  then show ?thesis
    by (cases name) (simp_all add: allows_missing_request_command_id_def
        allows_transport_protocol_compat_exemption_def is_transport_exposed_internal_command_def
        metadata_group_defs Let_def)
qed

theorem transport_allow_lists_agree_witness:
  "is_transport_exposed_internal_command ''_handshake''"
  using transport_allow_lists_agree [of "''_handshake''"]
  by (simp add: allows_missing_request_command_id_def parse_def)

text \<open>
  While a human holds the session, no command that the manifest calls a browser mutation, no
  command whose DOM-epoch policy is to bump, and no unknown command passes the handoff gate.
\<close>

theorem handoff_blocks_browser_mutations:
  assumes "command_allowed_during_handoff command"
  shows "parse command \<noteq> None \<and>
     effect_class (command_metadata_of command) \<notin> {BrowserMutation, EffectUnknown} \<and>
     \<not> command_increments_epoch command \<and>
     \<not> supports_post_wait (command_metadata_of command)"
proof (cases command rule: command_metadata_of_cases)
  case unknown
  moreover have "list_all (\<lambda>c. parse c \<noteq> None) [''doctor'', ''runtime'', ''frames'', ''history'',
      ''downloads'', ''download'', ''handoff'', ''takeover'', ''dialog'', ''state'', ''observe'',
      ''inspect'', ''trigger'', ''tabs'', ''get'', ''screenshot'', ''close'']"
    by code_simp
  ultimately show ?thesis
    using assms unfolding command_allowed_during_handoff_def list_all_iff list.set by fastforce
next
  case (known name)
  with assms show ?thesis
    by (cases name) (simp_all add: command_allowed_during_handoff_def command_increments_epoch_def
        metadata_group_defs)
qed

theorem handoff_blocks_browser_mutations_witness:
  "command_allowed_during_handoff ''screenshot'' \<and> \<not> command_increments_epoch ''screenshot''"
proof -
  have "command_allowed_during_handoff ''screenshot''"
    by (simp add: command_allowed_during_handoff_def)
  with handoff_blocks_browser_mutations [OF this] show ?thesis by simp
qed

end
