(* ===== verification/Rub_Protocol.thy ===== *)
theory Rub_Protocol
  imports Rub_Error Rub_Command "HOL-Library.List_Lexorder" "HOL-Library.Char_ord"
begin

text \<open>
  The IPC protocol of \<^verbatim>\<open>rub-ipc/src/protocol.rs\<close>: requests, responses, the contract each must meet
  on the wire, and the correlation of a response with its request. Decoding a JSON value into the
  raw record is \<^verbatim>\<open>serde\<close>'s derived code: it is the parameter \<open>raw_of\<close> of the decoders, as are the
  fresh UUID of \<open>ipc_request_new\<close> and the embedding \<open>num\<close> of a \<open>u64\<close> into JSON numbers. Each contract
  function is a cascade of checks in the order of the source; the lemmas give each an equivalent
  closed characterisation.
\<close>

section \<open>Messages\<close>

definition IPC_PROTOCOL_VERSION :: string where
  "IPC_PROTOCOL_VERSION = ''1.1''"

definition MAX_IPC_TIMEOUT_MS :: u64 where
  "MAX_IPC_TIMEOUT_MS = 24 * 60 * 60 * 1000"

datatype response_status = Success | Error

record 'n ipc_request =
  req_ipc_protocol_version :: string
  req_command :: string
  req_command_id :: "string option"
  req_daemon_session_id :: "string option"
  req_args :: "'n json"
  req_timeout_ms :: u64

record timing =
  tm_queue_ms :: u64
  tm_exec_ms :: u64
  tm_total_ms :: u64

definition timing_default :: timing where
  "timing_default = \<lparr>tm_queue_ms = 0, tm_exec_ms = 0, tm_total_ms = 0\<rparr>"

record 'n ipc_response =
  res_ipc_protocol_version :: string
  res_command_id :: "string option"
  res_daemon_session_id :: "string option"
  res_request_id :: string
  res_status :: response_status
  res_data :: "'n json option"
  res_error :: "'n error_envelope option"
  res_timing :: timing

section \<open>Identifiers\<close>

definition validate_optional_command_id :: "string option \<Rightarrow> string + string option" where
  "validate_optional_command_id command_id =
     (case command_id of
        Some v \<Rightarrow> if trim_is_empty v
          then Inl ''IPC command_id must be non-empty and non-whitespace'' else Inr (Some v)
      | None \<Rightarrow> Inr None)"

definition validate_optional_daemon_session_id :: "string option \<Rightarrow> string + string option" where
  "validate_optional_daemon_session_id daemon_session_id =
     (case daemon_session_id of
        Some v \<Rightarrow> if trim_is_empty v
          then Inl ''IPC daemon_session_id must be non-empty and non-whitespace'' else Inr (Some v)
      | None \<Rightarrow> Inr None)"

definition validate_request_id :: "string \<Rightarrow> string + string" where
  "validate_request_id request_id =
     (if trim_is_empty request_id
      then Inl ''IPC request_id must be non-empty and non-whitespace'' else Inr request_id)"

definition default_request_command_id :: "string \<Rightarrow> string \<Rightarrow> string option" where
  "default_request_command_id uuid command =
     (if allows_missing_request_command_id command then None else Some uuid)"

definition allows_unsolicited_response_daemon_session_id :: "string \<Rightarrow> bool" where
  "allows_unsolicited_response_daemon_session_id command = (command = ''_handshake'')"

definition blank_option :: "string option \<Rightarrow> bool" where
  "blank_option v = (case v of None \<Rightarrow> False | Some s \<Rightarrow> trim_is_empty s)"

section \<open>Requests\<close>

definition ipc_request_new :: "string \<Rightarrow> string \<Rightarrow> 'n json \<Rightarrow> u64 \<Rightarrow> 'n ipc_request" where
  "ipc_request_new uuid command args timeout_ms =
     \<lparr>req_ipc_protocol_version = IPC_PROTOCOL_VERSION, req_command = command,
      req_command_id = default_request_command_id uuid command, req_daemon_session_id = None,
      req_args = args, req_timeout_ms = timeout_ms\<rparr>"

definition request_with_command_id :: "'n ipc_request \<Rightarrow> string \<Rightarrow> string + 'n ipc_request" where
  "request_with_command_id r i =
     (case validate_optional_command_id (Some i) of
        Inl e \<Rightarrow> Inl e | Inr v \<Rightarrow> Inr (r\<lparr>req_command_id := v\<rparr>))"

definition request_with_daemon_session_id ::
  "'n ipc_request \<Rightarrow> string \<Rightarrow> string + 'n ipc_request" where
  "request_with_daemon_session_id r i =
     (case validate_optional_daemon_session_id (Some i) of
        Inl e \<Rightarrow> Inl e | Inr v \<Rightarrow> Inr (r\<lparr>req_daemon_session_id := v\<rparr>))"

definition protocol_error :: "string \<Rightarrow> (string \<times> 'n json) list \<Rightarrow> 'n error_envelope" where
  "protocol_error message ctx =
     with_context (error_envelope_new IpcProtocolError message) (JObject ctx)"

definition request_contract_error ::
  "(u64 \<Rightarrow> 'n) \<Rightarrow> bool \<Rightarrow> 'n ipc_request \<Rightarrow> 'n error_envelope option" where
  "request_contract_error num allow_transport_internal_protocol_mismatch r =
     (let protocol_mismatch_allowed = allow_transport_internal_protocol_mismatch
            \<and> allows_transport_protocol_compat_exemption (req_command r);
          reason = (''reason'', JString ''invalid_ipc_request_contract'')
      in
      if req_ipc_protocol_version r \<noteq> IPC_PROTOCOL_VERSION \<and> \<not> protocol_mismatch_allowed then
        Some (protocol_error
          (''IPC request protocol mismatch: expected '' @ IPC_PROTOCOL_VERSION @ '', got ''
            @ req_ipc_protocol_version r)
          [reason, (''field'', JString ''ipc_protocol_version''),
           (''expected_protocol_version'', JString IPC_PROTOCOL_VERSION),
           (''actual_protocol_version'', JString (req_ipc_protocol_version r))])
      else if trim_is_empty (req_command r) then
        Some (protocol_error ''IPC request command must be non-empty and non-whitespace''
          [reason, (''field'', JString ''command'')])
      else if allow_transport_internal_protocol_mismatch
          \<and> in_process_only (command_metadata_of (req_command r)) then
        Some (protocol_error
          (''IPC request command '' @ [CHR 0x27] @ req_command r @ [CHR 0x27]
            @ '' is in-process only and cannot be sent over transport'')
          [reason, (''field'', JString ''command''), (''command'', JString (req_command r)),
           (''in_process_only'', JBool True)])
      else if req_command_id r = None \<and> \<not> allows_missing_request_command_id (req_command r) then
        Some (protocol_error
          (''IPC request '' @ [CHR 0x27] @ req_command r @ [CHR 0x27]
            @ '' requires a command_id on the wire'')
          [reason, (''field'', JString ''command_id''), (''command'', JString (req_command r))])
      else if blank_option (req_command_id r) then
        Some (protocol_error
          ''IPC request command_id must be non-empty and non-whitespace when present''
          [reason, (''field'', JString ''command_id'')])
      else if blank_option (req_daemon_session_id r) then
        Some (protocol_error
          ''IPC request daemon_session_id must be non-empty and non-whitespace when present''
          [reason, (''field'', JString ''daemon_session_id'')])
      else if req_timeout_ms r = 0 \<or> req_timeout_ms r > MAX_IPC_TIMEOUT_MS then
        Some (protocol_error ''IPC request timeout_ms must be between 1 and 86400000''
          [reason, (''field'', JString ''timeout_ms''),
           (''max_timeout_ms'', JNumber (num MAX_IPC_TIMEOUT_MS)),
           (''actual_timeout_ms'', JNumber (num (req_timeout_ms r)))])
      else None)"

definition request_validate_contract ::
  "(u64 \<Rightarrow> 'n) \<Rightarrow> 'n ipc_request \<Rightarrow> 'n error_envelope + unit" where
  "request_validate_contract num r =
     (case request_contract_error num False r of None \<Rightarrow> Inr () | Some e \<Rightarrow> Inl e)"

definition request_validate_transport_contract ::
  "(u64 \<Rightarrow> 'n) \<Rightarrow> 'n ipc_request \<Rightarrow> 'n error_envelope + unit" where
  "request_validate_transport_contract num r =
     (case request_contract_error num True r of None \<Rightarrow> Inr () | Some e \<Rightarrow> Inl e)"

definition decode_with_contract_policy ::
  "(u64 \<Rightarrow> 'n) \<Rightarrow> ('n json \<Rightarrow> string + 'n ipc_request) \<Rightarrow> bool \<Rightarrow> 'n json
     \<Rightarrow> 'n error_envelope + 'n ipc_request" where
  "decode_with_contract_policy num raw_of allow_transport_internal_protocol_mismatch v =
     (case raw_of v of
        Inl e \<Rightarrow> Inl (protocol_error (''IPC request schema error: '' @ e)
          [(''reason'', JString ''invalid_ipc_request_schema'')])
      | Inr request \<Rightarrow>
          (case (if allow_transport_internal_protocol_mismatch
                 then request_validate_transport_contract num request
                 else request_validate_contract num request) of
             Inl e \<Rightarrow> Inl e
           | Inr _ \<Rightarrow> Inr request))"

definition request_from_value_strict ::
  "(u64 \<Rightarrow> 'n) \<Rightarrow> ('n json \<Rightarrow> string + 'n ipc_request) \<Rightarrow> 'n json
     \<Rightarrow> 'n error_envelope + 'n ipc_request" where
  "request_from_value_strict num raw_of v = decode_with_contract_policy num raw_of False v"

definition request_from_value_transport ::
  "(u64 \<Rightarrow> 'n) \<Rightarrow> ('n json \<Rightarrow> string + 'n ipc_request) \<Rightarrow> 'n json
     \<Rightarrow> 'n error_envelope + 'n ipc_request" where
  "request_from_value_transport num raw_of v = decode_with_contract_policy num raw_of True v"

section \<open>Responses\<close>

definition ipc_response_success :: "string \<Rightarrow> 'n json \<Rightarrow> 'n ipc_response" where
  "ipc_response_success request_id data =
     \<lparr>res_ipc_protocol_version = IPC_PROTOCOL_VERSION, res_command_id = None,
      res_daemon_session_id = None, res_request_id = request_id, res_status = Success,
      res_data = Some data, res_error = None, res_timing = timing_default\<rparr>"

definition ipc_response_error :: "string \<Rightarrow> 'n error_envelope \<Rightarrow> 'n ipc_response" where
  "ipc_response_error request_id envelope =
     \<lparr>res_ipc_protocol_version = IPC_PROTOCOL_VERSION, res_command_id = None,
      res_daemon_session_id = None, res_request_id = request_id, res_status = Error,
      res_data = None, res_error = Some envelope, res_timing = timing_default\<rparr>"

definition response_with_command_id :: "'n ipc_response \<Rightarrow> string \<Rightarrow> string + 'n ipc_response" where
  "response_with_command_id r i =
     (case validate_optional_command_id (Some i) of
        Inl e \<Rightarrow> Inl e | Inr v \<Rightarrow> Inr (r\<lparr>res_command_id := v\<rparr>))"

definition response_with_daemon_session_id ::
  "'n ipc_response \<Rightarrow> string \<Rightarrow> string + 'n ipc_response" where
  "response_with_daemon_session_id r i =
     (case validate_optional_daemon_session_id (Some i) of
        Inl e \<Rightarrow> Inl e | Inr v \<Rightarrow> Inr (r\<lparr>res_daemon_session_id := v\<rparr>))"

definition with_timing :: "'n ipc_response \<Rightarrow> timing \<Rightarrow> 'n ipc_response" where
  "with_timing r t = r\<lparr>res_timing := t\<rparr>"

definition response_shape_error :: "string \<Rightarrow> string \<Rightarrow> 'n ipc_response \<Rightarrow> 'n error_envelope" where
  "response_shape_error message status r =
     protocol_error message
       [(''reason'', JString ''invalid_ipc_response_contract''), (''status'', JString status),
        (''has_data'', JBool (res_data r \<noteq> None)), (''has_error'', JBool (res_error r \<noteq> None))]"

definition response_contract_error ::
  "'n ipc_request option \<Rightarrow> bool \<Rightarrow> 'n ipc_response \<Rightarrow> 'n error_envelope option" where
  "response_contract_error request allow_transport_internal_protocol_mismatch r =
     (let protocol_mismatch_allowed =
            (case request of
               None \<Rightarrow> False
             | Some req \<Rightarrow> allow_transport_internal_protocol_mismatch
                 \<and> allows_transport_protocol_compat_exemption (req_command req));
          reason = (''reason'', JString ''invalid_ipc_response_contract'')
      in
      if res_ipc_protocol_version r \<noteq> IPC_PROTOCOL_VERSION \<and> \<not> protocol_mismatch_allowed then
        Some (with_context (error_envelope_new IpcVersionMismatch
            (''IPC response protocol mismatch: expected '' @ IPC_PROTOCOL_VERSION @ '', got ''
              @ res_ipc_protocol_version r))
          (JObject [(''reason'', JString ''ipc_response_protocol_version_mismatch''),
            (''expected_protocol_version'', JString IPC_PROTOCOL_VERSION),
            (''actual_protocol_version'', JString (res_ipc_protocol_version r))]))
      else if trim_is_empty (res_request_id r) then
        Some (protocol_error ''IPC response request_id must be non-empty and non-whitespace''
          [reason, (''field'', JString ''request_id'')])
      else if blank_option (res_command_id r) then
        Some (protocol_error
          ''IPC response command_id must be non-empty and non-whitespace when present''
          [reason, (''field'', JString ''command_id'')])
      else if blank_option (res_daemon_session_id r) then
        Some (protocol_error
          ''IPC response daemon_session_id must be non-empty and non-whitespace when present''
          [reason, (''field'', JString ''daemon_session_id'')])
      else case res_status r of
        Success \<Rightarrow>
          if res_error r \<noteq> None then
            Some (response_shape_error ''IPC success response carried an error envelope'' ''success'' r)
          else if res_data r = None then
            Some (response_shape_error ''IPC success response omitted success data'' ''success'' r)
          else None
      | Error \<Rightarrow>
          if res_error r = None then
            Some (response_shape_error ''IPC error response omitted the error envelope'' ''error'' r)
          else if res_data r \<noteq> None then
            Some (response_shape_error ''IPC error response carried success data'' ''error'' r)
          else None)"

definition quoted :: "string \<Rightarrow> string" where
  "quoted s = [CHR 0x27] @ s @ [CHR 0x27]"

text \<open>The last four arms of the match, which are reached when the command ids agree.\<close>

definition session_correlation_error ::
  "'n ipc_request \<Rightarrow> 'n ipc_response \<Rightarrow> 'n error_envelope option" where
  "session_correlation_error request r =
     (case (req_daemon_session_id request, res_daemon_session_id r) of
        (Some expected, Some actual) \<Rightarrow>
          if actual \<noteq> expected then
            Some (protocol_error
              (''IPC response daemon_session_id mismatch: expected ''
                @ debug_opt_str (req_daemon_session_id request) @ '', got ''
                @ debug_opt_str (res_daemon_session_id r))
              [(''reason'', JString ''ipc_response_daemon_session_id_mismatch''),
               (''expected_daemon_session_id'', json_opt_str (req_daemon_session_id request)),
               (''actual_daemon_session_id'', json_opt_str (res_daemon_session_id r))])
          else None
      | (Some _, None) \<Rightarrow>
          Some (protocol_error
            (''IPC response for command '' @ quoted (req_command request)
              @ '' omitted the required daemon_session_id echo'')
            [(''reason'', JString ''ipc_response_missing_daemon_session_id''),
             (''command'', JString (req_command request)),
             (''expected_daemon_session_id'', json_opt_str (req_daemon_session_id request))])
      | (None, Some _) \<Rightarrow>
          if \<not> allows_unsolicited_response_daemon_session_id (req_command request) then
            Some (protocol_error
              (''IPC response for command '' @ quoted (req_command request)
                @ '' carried an unsolicited daemon_session_id'')
              [(''reason'', JString ''ipc_response_unsolicited_daemon_session_id''),
               (''command'', JString (req_command request)),
               (''actual_daemon_session_id'', json_opt_str (res_daemon_session_id r))])
          else None
      | (None, None) \<Rightarrow> None)"

definition correlation_error ::
  "'n ipc_request \<Rightarrow> 'n ipc_response \<Rightarrow> 'n error_envelope option" where
  "correlation_error request r =
     (case (req_command_id request, res_command_id r) of
        (Some expected, Some actual) \<Rightarrow>
          if actual \<noteq> expected then
            Some (protocol_error
              (''IPC response command_id mismatch: expected ''
                @ debug_opt_str (req_command_id request) @ '', got ''
                @ debug_opt_str (res_command_id r))
              [(''reason'', JString ''ipc_response_command_id_mismatch''),
               (''expected_command_id'', json_opt_str (req_command_id request)),
               (''actual_command_id'', json_opt_str (res_command_id r))])
          else session_correlation_error request r
      | (Some _, None) \<Rightarrow>
          Some (protocol_error
            (''IPC response for command '' @ quoted (req_command request)
              @ '' omitted the required command_id echo'')
            [(''reason'', JString ''ipc_response_missing_command_id''),
             (''command'', JString (req_command request)),
             (''expected_command_id'', json_opt_str (req_command_id request))])
      | (None, Some _) \<Rightarrow>
          Some (protocol_error
            (''IPC response for command '' @ quoted (req_command request)
              @ '' carried an unsolicited command_id'')
            [(''reason'', JString ''ipc_response_unsolicited_command_id''),
             (''command'', JString (req_command request)),
             (''actual_command_id'', json_opt_str (res_command_id r))])
      | (None, None) \<Rightarrow> session_correlation_error request r)"

text \<open>
  The raw response of the decoder: the record, and the fields it did not know. \<open>join\<close> is the
  sorted, comma-separated list of their names.
\<close>

definition response_schema_error :: "string \<Rightarrow> 'n error_envelope" where
  "response_schema_error message =
     protocol_error message [(''reason'', JString ''invalid_ipc_response_schema'')]"

fun join_fields :: "string list \<Rightarrow> string" where
  "join_fields [] = []"
| "join_fields [f] = f"
| "join_fields (f # fs) = f @ '', '' @ join_fields fs"

definition reject_unknown_fields :: "string list \<Rightarrow> 'n error_envelope + unit" where
  "reject_unknown_fields unknown_fields =
     (if unknown_fields = [] then Inr ()
      else Inl (response_schema_error
        (''IPC response schema error: unknown field(s): '' @ join_fields (sort unknown_fields))))"

definition response_raw_from_value ::
  "('n json \<Rightarrow> string + 'n ipc_response \<times> string list) \<Rightarrow> 'n json
     \<Rightarrow> 'n error_envelope + 'n ipc_response \<times> string list" where
  "response_raw_from_value raw_of v =
     (case raw_of v of
        Inl e \<Rightarrow> Inl (response_schema_error (''IPC response schema error: '' @ e))
      | Inr raw \<Rightarrow> Inr raw)"

definition response_from_value_strict ::
  "('n json \<Rightarrow> string + 'n ipc_response \<times> string list) \<Rightarrow> 'n json
     \<Rightarrow> 'n error_envelope + 'n ipc_response" where
  "response_from_value_strict raw_of v =
     (case response_raw_from_value raw_of v of
        Inl e \<Rightarrow> Inl e
      | Inr (response, unknown_fields) \<Rightarrow>
          (case reject_unknown_fields unknown_fields of
             Inl e \<Rightarrow> Inl e
           | Inr _ \<Rightarrow>
               (case response_contract_error None False response of
                  Some e \<Rightarrow> Inl e
                | None \<Rightarrow> Inr response)))"

definition response_from_value_transport ::
  "('n json \<Rightarrow> string + 'n ipc_response \<times> string list) \<Rightarrow> 'n json \<Rightarrow> 'n ipc_request
     \<Rightarrow> 'n error_envelope + 'n ipc_response" where
  "response_from_value_transport raw_of v request =
     (case (if allows_transport_protocol_compat_exemption (req_command request)
            then (case response_raw_from_value raw_of v of
                    Inl e \<Rightarrow> Inl e | Inr (response, _) \<Rightarrow> Inr response)
            else (case response_raw_from_value raw_of v of
                    Inl e \<Rightarrow> Inl e
                  | Inr (response, unknown_fields) \<Rightarrow>
                      (case reject_unknown_fields unknown_fields of
                         Inl e \<Rightarrow> Inl e | Inr _ \<Rightarrow> Inr response))) of
        Inl e \<Rightarrow> Inl e
      | Inr response \<Rightarrow>
          (case response_contract_error (Some request) True response of
             Some e \<Rightarrow> Inl e
           | None \<Rightarrow>
               (case correlation_error request response of
                  Some e \<Rightarrow> Inl e
                | None \<Rightarrow> Inr response)))"

section \<open>What the contracts mean\<close>

lemma protocol_error_simps [simp]:
  "ee_code (protocol_error message ctx) = IpcProtocolError"
  "ee_context (protocol_error message ctx) = Some (JObject ctx)"
  by (simp_all add: protocol_error_def)

text \<open>The contract of a request, as one condition.\<close>

definition request_contract :: "bool \<Rightarrow> 'n ipc_request \<Rightarrow> bool" where
  "request_contract transport r \<longleftrightarrow>
     (req_ipc_protocol_version r = IPC_PROTOCOL_VERSION
        \<or> transport \<and> allows_transport_protocol_compat_exemption (req_command r))
     \<and> \<not> trim_is_empty (req_command r)
     \<and> \<not> (transport \<and> in_process_only (command_metadata_of (req_command r)))
     \<and> (case req_command_id r of
          None \<Rightarrow> allows_missing_request_command_id (req_command r)
        | Some i \<Rightarrow> \<not> trim_is_empty i)
     \<and> (case req_daemon_session_id r of None \<Rightarrow> True | Some i \<Rightarrow> \<not> trim_is_empty i)
     \<and> 0 < req_timeout_ms r \<and> req_timeout_ms r \<le> MAX_IPC_TIMEOUT_MS"

lemma request_contract_error_None_iff:
  "request_contract_error num transport r = None \<longleftrightarrow> request_contract transport r"
  unfolding request_contract_error_def request_contract_def Let_def blank_option_def
  by (auto split: option.splits simp: word_gt_0)

lemma request_contract_error_code:
  "request_contract_error num transport r = Some e \<Longrightarrow> ee_code e = IpcProtocolError"
  unfolding request_contract_error_def Let_def by (auto split: if_splits)

lemma response_contract_error_None_iff:
  "response_contract_error request transport r = None \<longleftrightarrow>
     (res_ipc_protocol_version r = IPC_PROTOCOL_VERSION
        \<or> (\<exists>req. request = Some req \<and> transport
              \<and> allows_transport_protocol_compat_exemption (req_command req)))
     \<and> \<not> trim_is_empty (res_request_id r)
     \<and> \<not> blank_option (res_command_id r) \<and> \<not> blank_option (res_daemon_session_id r)
     \<and> (res_status r = Success \<longleftrightarrow> res_data r \<noteq> None)
     \<and> (res_status r = Error \<longleftrightarrow> res_error r \<noteq> None)"
  unfolding response_contract_error_def Let_def
  by (cases "res_status r") (auto split: option.splits)

lemma correlation_error_None_iff:
  "correlation_error request r = None \<longleftrightarrow>
     res_command_id r = req_command_id request
     \<and> (res_daemon_session_id r = req_daemon_session_id request
        \<or> req_daemon_session_id request = None \<and> req_command request = ''_handshake'')"
  unfolding correlation_error_def session_correlation_error_def
    allows_unsolicited_response_daemon_session_id_def
  by (auto split: option.splits)

section \<open>Properties\<close>

lemma decode_transport_iff:
  "request_from_value_transport num raw_of v = Inr r \<longleftrightarrow>
     raw_of v = Inr r \<and> request_contract True r"
  unfolding request_from_value_transport_def decode_with_contract_policy_def
    request_validate_transport_contract_def
  using request_contract_error_None_iff [of num True r]
  by (auto split: sum.splits option.splits)

text \<open>
  A request that enters the daemon over the transport has passed exactly these checks: the
  protocol version is ours or the command is an exempt control-plane probe, the command is not
  blank and not an in-process one, it carries a non-blank command id or is one of the three probes
  that may omit it, a session id is not blank, and the timeout lies between 1 ms and 24 hours.
  Nothing else is refused, and every refusal is an \<open>IPC_PROTOCOL_ERROR\<close>.
\<close>

theorem request_transport_contract:
  "(request_from_value_transport num raw_of v = Inr r \<longleftrightarrow>
      raw_of v = Inr r
      \<and> (req_ipc_protocol_version r = IPC_PROTOCOL_VERSION
           \<or> allows_transport_protocol_compat_exemption (req_command r))
      \<and> \<not> trim_is_empty (req_command r)
      \<and> \<not> in_process_only (command_metadata_of (req_command r))
      \<and> (case req_command_id r of
           None \<Rightarrow> req_command r \<in> {''_handshake'', ''_upgrade_check'', ''_blocker_diagnose''}
         | Some i \<Rightarrow> \<not> trim_is_empty i)
      \<and> (case req_daemon_session_id r of None \<Rightarrow> True | Some i \<Rightarrow> \<not> trim_is_empty i)
      \<and> 1 \<le> unat (req_timeout_ms r) \<and> unat (req_timeout_ms r) \<le> 86400000) \<and>
   (case request_from_value_transport num raw_of v of
      Inl e \<Rightarrow> ee_code e = IpcProtocolError | Inr _ \<Rightarrow> True)"
proof -
  have ids: "allows_missing_request_command_id c \<longleftrightarrow>
      c \<in> {''_handshake'', ''_upgrade_check'', ''_blocker_diagnose''}" for c
  proof -
    have "allows_missing_request_command_id c \<longleftrightarrow>
        parse c \<in> {Some CmdHandshake, Some CmdUpgradeCheck, Some CmdBlockerDiagnose}"
      unfolding allows_missing_request_command_id_def
      by (auto split: option.split command_name.split)
    also have "\<dots> \<longleftrightarrow> c \<in> as_str ` {CmdHandshake, CmdUpgradeCheck, CmdBlockerDiagnose}"
      using parse_as_str parse_SomeD by (auto simp del: as_str.simps)
    finally show ?thesis by simp
  qed
  have "req_timeout_ms r > 0 \<longleftrightarrow> 1 \<le> unat (req_timeout_ms r)"
    by (metis One_nat_def Suc_leI unat_gt_0 word_gt_0 less_eq_Suc_le)
  moreover have "req_timeout_ms r \<le> MAX_IPC_TIMEOUT_MS \<longleftrightarrow> unat (req_timeout_ms r) \<le> 86400000"
    by (simp add: MAX_IPC_TIMEOUT_MS_def word_le_nat_alt)
  moreover have "ee_code e = IpcProtocolError"
    if "request_from_value_transport num raw_of v = Inl e" for e
    using that request_contract_error_code
    unfolding request_from_value_transport_def decode_with_contract_policy_def
      request_validate_transport_contract_def
    by (auto split: sum.splits option.splits)
  ultimately show ?thesis
    unfolding decode_transport_iff request_contract_def ids
    by (auto split: option.split sum.split)
qed

lemma response_from_value_transport_Inr:
  assumes "response_from_value_transport raw_of v request = Inr r"
  shows "\<exists>unknown. raw_of v = Inr (r, unknown)
      \<and> (unknown = [] \<or> allows_transport_protocol_compat_exemption (req_command request))"
    and "response_contract_error (Some request) True r = None"
    and "correlation_error request r = None"
  using assms
  unfolding response_from_value_transport_def response_raw_from_value_def reject_unknown_fields_def
  by (auto split: sum.splits option.splits if_splits)

text \<open>
  C18. A response that the client accepts answers the request it sent: it echoes the command id
  exactly, it echoes the daemon session id unless the request was a handshake that named none, it
  carries data exactly when it reports success and an error exactly when it reports failure, and
  outside the exempt probes it has our protocol version and no unknown field.
\<close>

theorem response_transport_correlated:
  assumes "response_from_value_transport raw_of v request = Inr r"
  shows "res_command_id r = req_command_id request \<and>
    (res_daemon_session_id r = req_daemon_session_id request
       \<or> req_daemon_session_id request = None \<and> req_command request = ''_handshake'') \<and>
    (res_status r = Success \<longleftrightarrow> res_data r \<noteq> None) \<and>
    (res_status r = Error \<longleftrightarrow> res_error r \<noteq> None) \<and>
    (raw_of v = Inr (r, []) \<and> res_ipc_protocol_version r = IPC_PROTOCOL_VERSION
       \<or> allows_transport_protocol_compat_exemption (req_command request))"
  using response_from_value_transport_Inr [OF assms]
  unfolding response_contract_error_None_iff correlation_error_None_iff by auto

theorem response_transport_correlated_witness:
  "let request = (ipc_request_new ''u-1'' ''doctor'' (JObject []) 1000) :: nat ipc_request;
       r = (ipc_response_success ''r-1'' JNull)\<lparr>res_command_id := Some ''u-1''\<rparr>
   in response_from_value_transport (\<lambda>v. Inr (r, [])) JNull request = Inr r
      \<and> res_command_id r = req_command_id request"
proof -
  let ?request = "(ipc_request_new ''u-1'' ''doctor'' (JObject []) 1000) :: nat ipc_request"
  let ?r = "(ipc_response_success ''r-1'' JNull)\<lparr>res_command_id := Some ''u-1''\<rparr> :: nat ipc_response"
  have "response_from_value_transport (\<lambda>v. Inr (?r, [])) JNull ?request = Inr ?r"
    by (simp add: response_from_value_transport_def response_raw_from_value_def
        reject_unknown_fields_def response_contract_error_def correlation_error_def
        session_correlation_error_def ipc_request_new_def ipc_response_success_def
        default_request_command_id_def allows_missing_request_command_id_def parse_def
        ascii_whitespace_def two_byte_whitespace_def three_byte_whitespace_def blank_option_def)
  with response_transport_correlated [OF this] show ?thesis by (simp add: Let_def)
qed

text \<open>
  The two sides fit: for every request the daemon can have accepted, the success or error
  response it builds, with the ids echoed through the validating setters, is well-formed and is
  accepted by the client, which has the request it sent.
\<close>

theorem response_builders_accepted:
  assumes "request_contract_error num True request = None" and "\<not> trim_is_empty request_id"
    and "r0 \<in> {ipc_response_success request_id data, ipc_response_error request_id envelope}"
  shows "\<exists>r1 r2.
    (case req_command_id request of
       None \<Rightarrow> Inr r0 | Some i \<Rightarrow> response_with_command_id r0 i) = Inr r1 \<and>
    (case req_daemon_session_id request of
       None \<Rightarrow> Inr r1 | Some i \<Rightarrow> response_with_daemon_session_id r1 i) = Inr r2 \<and>
    response_contract_error None False r2 = None \<and>
    response_from_value_transport (\<lambda>v. Inr (r2, [])) v request = Inr r2"
proof -
  have ids: "\<not> blank_option (req_command_id request)" "\<not> blank_option (req_daemon_session_id request)"
    using assms(1) unfolding request_contract_error_None_iff request_contract_def blank_option_def
    by (auto split: option.splits)
  have r0: "res_command_id r0 = None" "res_daemon_session_id r0 = None"
    "res_ipc_protocol_version r0 = IPC_PROTOCOL_VERSION" "res_request_id r0 = request_id"
    "res_status r0 = Success \<longleftrightarrow> res_data r0 \<noteq> None" "res_status r0 = Error \<longleftrightarrow> res_error r0 \<noteq> None"
    using assms(3) by (auto simp: ipc_response_success_def ipc_response_error_def)
  define r1 where "r1 = r0\<lparr>res_command_id := req_command_id request\<rparr>"
  define r2 where "r2 = r1\<lparr>res_daemon_session_id := req_daemon_session_id request\<rparr>"
  have "(case req_command_id request of
      None \<Rightarrow> Inr r0 | Some i \<Rightarrow> response_with_command_id r0 i) = Inr r1"
    using ids r0 by (auto simp: r1_def blank_option_def response_with_command_id_def
        validate_optional_command_id_def split: option.splits)
  moreover have "(case req_daemon_session_id request of
      None \<Rightarrow> Inr r1 | Some i \<Rightarrow> response_with_daemon_session_id r1 i) = Inr r2"
    using ids r0 by (auto simp: r2_def r1_def blank_option_def response_with_daemon_session_id_def
        validate_optional_daemon_session_id_def split: option.splits)
  moreover have contract: "response_contract_error (Some request) True r2 = None"
    "response_contract_error None False r2 = None"
    unfolding response_contract_error_None_iff r2_def r1_def using assms(2) r0 ids by auto
  moreover have "correlation_error request r2 = None"
    unfolding correlation_error_None_iff r2_def r1_def by simp
  then have "response_from_value_transport (\<lambda>v. Inr (r2, [])) v request = Inr r2"
    using contract by (simp add: response_from_value_transport_def response_raw_from_value_def
        reject_unknown_fields_def)
  ultimately show ?thesis by blast
qed

theorem response_builders_accepted_witness:
  "\<exists>r2. response_from_value_transport (\<lambda>v. Inr (r2, [])) JNull
     (ipc_request_new ''u-1'' ''doctor'' (JObject []) 1000 :: nat ipc_request) = Inr r2"
proof -
  let ?request = "ipc_request_new ''u-1'' ''doctor'' (JObject []) 1000 :: nat ipc_request"
  have "request_contract_error unat True ?request = None"
    by (simp add: request_contract_error_def ipc_request_new_def default_request_command_id_def
        allows_missing_request_command_id_def parse_def command_metadata_of_def metadata_group_defs
        ascii_whitespace_def two_byte_whitespace_def three_byte_whitespace_def blank_option_def
        MAX_IPC_TIMEOUT_MS_def)
  moreover have "\<not> trim_is_empty ''r-1''"
    by (simp add: ascii_whitespace_def two_byte_whitespace_def three_byte_whitespace_def)
  ultimately show ?thesis
    using response_builders_accepted
      [of unat ?request "''r-1''" "ipc_response_success ''r-1'' JNull" JNull _ JNull]
    by blast
qed

end
