(* ===== verification/Rub_Network.thy ===== *)
theory Rub_Network
  imports Rub_Observatory Rub_Protocol
begin

text \<open>
  Network inspection (\<^verbatim>\<open>rub-daemon/src/router/network_inspection.rs\<close>, \<^verbatim>\<open>network_inspection/{args,
  projection}.rs\<close>): the timeline query, the wait loop over the observatory's windows, and the export
  of a recorded request as a \<^verbatim>\<open>curl\<close> command. Decoding of the JSON arguments and printing of a request
  record are done by \<^verbatim>\<open>serde\<close>: the handlers start from the decoded arguments, and the record's JSON
  and the JSON number of an integer are parameters. The wait loop runs over a list of what each round
  reads from the session, the clock and the notifier; the empty list means that it is still waiting.
  What a shell makes of the exported command is given by \<open>shell_words\<close>: token recognition and
  quote removal of the POSIX shell, without expansions.
\<close>

section \<open>Arguments\<close>

record network_timeline_args =
  nta_wait :: bool
  nta_id :: "string option"
  nta_last :: "u64 option"
  nta_url_match :: "string option"
  nta_method :: "string option"
  nta_status :: "u64 option"
  nta_lifecycle :: "string option"
  nta_timeout_ms :: "u64 option"

datatype network_request_wait_state =
  WaitPending | WaitResponded | WaitCompleted | WaitFailed | WaitTerminal

fun wait_state_as_str :: "network_request_wait_state \<Rightarrow> string" where
  "wait_state_as_str WaitPending = ''pending''"
| "wait_state_as_str WaitResponded = ''responded''"
| "wait_state_as_str WaitCompleted = ''completed''"
| "wait_state_as_str WaitFailed = ''failed''"
| "wait_state_as_str WaitTerminal = ''terminal''"

fun actual_filter :: "network_request_wait_state \<Rightarrow> network_request_lifecycle option" where
  "actual_filter WaitPending = Some LifecyclePending"
| "actual_filter WaitResponded = Some LifecycleResponded"
| "actual_filter WaitCompleted = Some LifecycleCompleted"
| "actual_filter WaitFailed = Some LifecycleFailed"
| "actual_filter WaitTerminal = None"

fun wait_state_matches :: "network_request_wait_state \<Rightarrow> network_request_lifecycle \<Rightarrow> bool" where
  "wait_state_matches WaitPending lifecycle = (lifecycle = LifecyclePending)"
| "wait_state_matches WaitResponded lifecycle = (lifecycle = LifecycleResponded)"
| "wait_state_matches WaitCompleted lifecycle = (lifecycle = LifecycleCompleted)"
| "wait_state_matches WaitFailed lifecycle = (lifecycle = LifecycleFailed)"
| "wait_state_matches WaitTerminal lifecycle =
     (lifecycle = LifecycleCompleted \<or> lifecycle = LifecycleFailed)"

definition parse_lifecycle_filter ::
  "string option \<Rightarrow> 'n rub_error + network_request_wait_state option" where
  "parse_lifecycle_filter filter_text =
     (case filter_text of
        None \<Rightarrow> Inr None
      | Some text \<Rightarrow>
          if text = ''pending'' then Inr (Some WaitPending)
          else if text = ''responded'' then Inr (Some WaitResponded)
          else if text = ''completed'' then Inr (Some WaitCompleted)
          else if text = ''failed'' then Inr (Some WaitFailed)
          else if text = ''terminal'' then Inr (Some WaitTerminal)
          else Inl (rub_domain InvalidInput
            (''Unknown network lifecycle '' @ [CHR 0x27] @ text @ [CHR 0x27] @
             ''. Valid: pending, responded, completed, failed, terminal'')))"

definition filter_requests_by_wait_state ::
  "network_request_record list \<Rightarrow> network_request_wait_state option \<Rightarrow> network_request_record list" where
  "filter_requests_by_wait_state requests state =
     (case state of
        None \<Rightarrow> requests
      | Some st \<Rightarrow> filter (\<lambda>r. wait_state_matches st (nrr_lifecycle r)) requests)"

definition clamp_status :: "u64 option \<Rightarrow> u16 option" where
  "clamp_status status = map_option (\<lambda>v. ucast (min v 0xFFFF)) status"

section \<open>Projection\<close>

definition summarize_request_record :: "network_request_record \<Rightarrow> network_request_record" where
  "summarize_request_record r = r\<lparr>nrr_request_body := None, nrr_response_body := None\<rparr>"

definition network_payload :: "'n json \<Rightarrow> 'n json \<Rightarrow> 'n json" where
  "network_payload subject result = JObject [(''subject'', subject), (''result'', result)]"

definition network_wait_outcome_summary :: "network_request_wait_state \<Rightarrow> 'n json" where
  "network_wait_outcome_summary lifecycle =
     (let (outcome_class, summary) =
        (if lifecycle \<in> {WaitCompleted, WaitFailed, WaitTerminal}
         then (''confirmed_terminal_request'',
               ''A matching network request reached the requested terminal lifecycle.'')
         else (''confirmed_new_item_observed'',
               ''A matching network request was observed in the requested lifecycle window.''))
      in JObject [(''class'', JString outcome_class), (''authoritative'', JBool True),
                  (''summary'', JString summary)])"

definition json_opt_num :: "(u64 \<Rightarrow> 'n) \<Rightarrow> u64 option \<Rightarrow> 'n json" where
  "json_opt_num num x = (case x of None \<Rightarrow> JNull | Some v \<Rightarrow> JNumber (num v))"

definition network_registry_subject ::
  "(u64 \<Rightarrow> 'n) \<Rightarrow> u64 option \<Rightarrow> string option \<Rightarrow> string option \<Rightarrow> u16 option
   \<Rightarrow> network_request_wait_state option \<Rightarrow> 'n json" where
  "network_registry_subject num last_n url_match method status lifecycle =
     JObject [(''kind'', JString ''network_request_registry''), (''last'', json_opt_num num last_n),
       (''url_match'', json_opt_str url_match), (''method'', json_opt_str method),
       (''status'', json_opt_num num (map_option ucast status)),
       (''lifecycle'', json_opt_str (map_option wait_state_as_str lifecycle))]"

definition network_request_subject :: "string \<Rightarrow> 'n json" where
  "network_request_subject request_id =
     JObject [(''kind'', JString ''network_request''), (''request_id'', JString request_id)]"

definition network_wait_subject ::
  "(u64 \<Rightarrow> 'n) \<Rightarrow> string option \<Rightarrow> string option \<Rightarrow> string option \<Rightarrow> u16 option
   \<Rightarrow> network_request_wait_state \<Rightarrow> 'n json" where
  "network_wait_subject num request_id url_match method status lifecycle =
     JObject [(''kind'', JString ''network_request_wait''), (''request_id'', json_opt_str request_id),
       (''url_match'', json_opt_str url_match), (''method'', json_opt_str method),
       (''status'', json_opt_num num (map_option ucast status)),
       (''lifecycle'', JString (wait_state_as_str lifecycle))]"

section \<open>The timeline query\<close>

definition request_not_found :: "string \<Rightarrow> 'n rub_error" where
  "request_not_found request_id = rub_domain ElementNotFound
     (''No recorded network request with id '' @ [CHR 0x27] @ request_id @ [CHR 0x27])"

text \<open>The records the timeline lists: the registry is asked for at most \<open>last\<close> records first, then the
  lifecycle filter is applied to what it returned.\<close>

definition timeline_requests ::
  "network_timeline_args \<Rightarrow> network_request_wait_state option \<Rightarrow> runtime_observatory_state
   \<Rightarrow> network_request_record list" where
  "timeline_requests args lifecycle s =
     map summarize_request_record
       (filter_requests_by_wait_state
         (request_records (map_option (\<lambda>v. unat (min v 100)) (nta_last args)) (nta_url_match args)
           (nta_method args) (clamp_status (nta_status args))
           (Option.bind lifecycle actual_filter) s) lifecycle)"

definition network_timeline_listing ::
  "(u64 \<Rightarrow> 'n) \<Rightarrow> (network_request_record \<Rightarrow> 'n json) \<Rightarrow> network_timeline_args
   \<Rightarrow> runtime_observatory_state \<Rightarrow> 'n rub_error + 'n json" where
  "network_timeline_listing num req_json args s =
     (case nta_id args of
        Some request_id \<Rightarrow>
          (case request_record request_id s of
             None \<Rightarrow> Inl (request_not_found request_id)
           | Some request \<Rightarrow> Inr (network_payload (network_request_subject request_id)
               (JObject [(''request'', req_json request)])))
      | None \<Rightarrow>
          (case parse_lifecycle_filter (nta_lifecycle args) of
             Inl e \<Rightarrow> Inl e
           | Inr lifecycle \<Rightarrow>
               Inr (network_payload
                 (network_registry_subject num (map_option (\<lambda>v. min v 100) (nta_last args))
                   (nta_url_match args) (nta_method args) (clamp_status (nta_status args)) lifecycle)
                 (JObject [(''items'', JArray (map req_json (timeline_requests args lifecycle s)))]))))"

section \<open>Waiting\<close>

record network_wait_error_context =
  nwc_request_id :: "string option"
  nwc_url_match :: "string option"
  nwc_method :: "string option"
  nwc_status :: "u16 option"
  nwc_desired_state :: network_request_wait_state

definition find_matching_network_wait_record ::
  "network_request_record list \<Rightarrow> network_wait_error_context \<Rightarrow> network_request_record option" where
  "find_matching_network_wait_record requests c =
     (let matches = filter_requests_by_wait_state requests (Some (nwc_desired_state c));
          matches = (if nwc_request_id c = None
            then filter (\<lambda>r. opt_all (contains_str (nrr_url r)) (nwc_url_match c) \<and>
              opt_all (eq_ignore_ascii_case (nrr_method r)) (nwc_method c) \<and>
              opt_all (\<lambda>v. nrr_status r = Some v) (nwc_status c)) matches
            else matches);
          matches = (case nwc_request_id c of
              Some request_id \<Rightarrow> filter (\<lambda>r. nrr_request_id r = request_id) matches
            | None \<Rightarrow> matches)
      in case matches of [] \<Rightarrow> None | r # _ \<Rightarrow> Some r)"

definition network_wait_match_payload ::
  "(u64 \<Rightarrow> 'n) \<Rightarrow> (network_request_record \<Rightarrow> 'n json) \<Rightarrow> network_wait_error_context \<Rightarrow> u64
   \<Rightarrow> network_request_record \<Rightarrow> 'n json" where
  "network_wait_match_payload num req_json c elapsed_ms request =
     network_payload
       (network_wait_subject num (nwc_request_id c) (nwc_url_match c) (nwc_method c) (nwc_status c)
         (nwc_desired_state c))
       (JObject [(''matched'', JBool True), (''elapsed_ms'', JNumber (num elapsed_ms)),
          (''request'', req_json request),
          (''outcome_summary'', network_wait_outcome_summary (nwc_desired_state c))])"

definition network_wait_timeout_error ::
  "(u64 \<Rightarrow> 'n) \<Rightarrow> network_wait_error_context \<Rightarrow> u64 \<Rightarrow> 'n rub_error" where
  "network_wait_timeout_error num c elapsed_ms =
     rub_domain_with_context WaitTimeout
       ''Network wait timed out before a matching request reached the requested lifecycle''
       (JObject [(''kind'', JString ''network_request''), (''id'', json_opt_str (nwc_request_id c)),
          (''url_match'', json_opt_str (nwc_url_match c)), (''method'', json_opt_str (nwc_method c)),
          (''status'', json_opt_num num (map_option ucast (nwc_status c))),
          (''lifecycle'', JString (wait_state_as_str (nwc_desired_state c))),
          (''elapsed_ms'', JNumber (num elapsed_ms))])"

definition network_wait_not_authoritative_error ::
  "(u64 \<Rightarrow> 'n) \<Rightarrow> network_wait_error_context \<Rightarrow> u64 \<Rightarrow> u64 \<Rightarrow> u64 \<Rightarrow> string option
   \<Rightarrow> 'n rub_error" where
  "network_wait_not_authoritative_error num c elapsed_ms next_cursor dropped_event_count reason =
     rub_domain_with_context SessionBusy
       ''Network wait is no longer authoritative because observatory evidence was dropped''
       (JObject [(''kind'', JString ''network_request''), (''id'', json_opt_str (nwc_request_id c)),
          (''url_match'', json_opt_str (nwc_url_match c)), (''method'', json_opt_str (nwc_method c)),
          (''status'', json_opt_num num (map_option ucast (nwc_status c))),
          (''lifecycle'', JString (wait_state_as_str (nwc_desired_state c))),
          (''elapsed_ms'', JNumber (num elapsed_ms)),
          (''reason'', JString ''runtime_observatory_not_authoritative''),
          (''degraded_reason'', json_opt_str reason),
          (''next_network_cursor'', JNumber (num next_cursor)),
          (''dropped_event_count'', JNumber (num dropped_event_count))])"

text \<open>One round of the loop: the observatory and the ingress drop count under which the window is
  read, the drop counts read after it, the clock, and whether the notifier fired in time.\<close>

record network_poll =
  np_observatory :: runtime_observatory_state
  np_window_ingress :: u64
  np_ingress :: u64
  np_dropped :: u64
  np_elapsed_ms :: u64
  np_deadline_passed :: bool
  np_notified :: bool

fun network_wait_loop ::
  "(u64 \<Rightarrow> 'n) \<Rightarrow> (network_request_record \<Rightarrow> 'n json) \<Rightarrow> network_wait_error_context
   \<Rightarrow> u64 \<Rightarrow> u64 \<Rightarrow> network_poll list \<Rightarrow> ('n rub_error + 'n json) option" where
  "network_wait_loop num req_json c cursor observed [] = None"
| "network_wait_loop num req_json c cursor observed (p # ps) =
     (let window = request_window_after cursor (np_window_ingress p) observed (np_observatory p);
          observed = np_ingress p;
          cursor = nrw_next_cursor window
      in
      if \<not> nrw_authoritative window then
        Some (Inl (network_wait_not_authoritative_error num c (np_elapsed_ms p) cursor (np_dropped p)
          (nrw_degraded_reason window)))
      else
        (case find_matching_network_wait_record (nrw_records window) c of
           Some request \<Rightarrow>
             Some (Inr (network_wait_match_payload num req_json c (np_elapsed_ms p) request))
         | None \<Rightarrow>
             if np_deadline_passed p \<or> \<not> np_notified p
             then Some (Inl (network_wait_timeout_error num c (np_elapsed_ms p)))
             else network_wait_loop num req_json c cursor observed ps))"

text \<open>The initial reads of the handler and the window over everything seen so far.\<close>

record network_wait_start =
  nws_cursor :: u64
  nws_ingress :: u64
  nws_dropped :: u64
  nws_observatory :: runtime_observatory_state
  nws_elapsed_ms :: u64

definition wait_context ::
  "network_timeline_args \<Rightarrow> network_request_wait_state \<Rightarrow> network_wait_error_context" where
  "wait_context args desired =
     \<lparr>nwc_request_id = nta_id args, nwc_url_match = nta_url_match args,
      nwc_method = nta_method args, nwc_status = clamp_status (nta_status args),
      nwc_desired_state = desired\<rparr>"

definition cmd_network_wait ::
  "(u64 \<Rightarrow> 'n) \<Rightarrow> (network_request_record \<Rightarrow> 'n json) \<Rightarrow> network_timeline_args
   \<Rightarrow> network_wait_start \<Rightarrow> network_poll list \<Rightarrow> ('n rub_error + 'n json) option" where
  "cmd_network_wait num req_json args start polls =
     (case parse_lifecycle_filter (nta_lifecycle args) of
        Inl e \<Rightarrow> Some (Inl e)
      | Inr lifecycle \<Rightarrow>
          let c = wait_context args (unwrap_or lifecycle WaitTerminal);
              initial = request_window_between 0 (nws_cursor start) (nws_ingress start) 0
                (nws_observatory start)
          in
          if \<not> nrw_authoritative initial then
            Some (Inl (network_wait_not_authoritative_error num c (nws_elapsed_ms start)
              (nws_cursor start) (nws_dropped start) (nrw_degraded_reason initial)))
          else
            (case find_matching_network_wait_record (nrw_records initial) c of
               Some request \<Rightarrow>
                 Some (Inr (network_wait_match_payload num req_json c (nws_elapsed_ms start) request))
             | None \<Rightarrow> network_wait_loop num req_json c (nws_cursor start) (nws_ingress start) polls))"

definition cmd_network_timeline ::
  "(u64 \<Rightarrow> 'n) \<Rightarrow> (network_request_record \<Rightarrow> 'n json) \<Rightarrow> network_timeline_args
   \<Rightarrow> network_wait_start \<Rightarrow> network_poll list \<Rightarrow> runtime_observatory_state
   \<Rightarrow> ('n rub_error + 'n json) option" where
  "cmd_network_timeline num req_json args start polls s =
     (if nta_wait args then cmd_network_wait num req_json args start polls
      else Some (network_timeline_listing num req_json args s))"

section \<open>Export as a curl command\<close>

record curl_export =
  cue_command :: string
  cue_body_complete :: bool
  cue_body_omitted_reason :: "string option"

definition is_ascii_alphanumeric :: "char \<Rightarrow> bool" where
  "is_ascii_alphanumeric c \<longleftrightarrow>
     (let n = (of_char c :: nat) in (48 \<le> n \<and> n \<le> 57) \<or> (65 \<le> n \<and> n \<le> 90) \<or> (97 \<le> n \<and> n \<le> 122))"

definition shell_safe :: "char \<Rightarrow> bool" where
  "shell_safe c \<longleftrightarrow> is_ascii_alphanumeric c \<or> c \<in> set ''-._~/:?&=%@''"

definition quote_char :: "char \<Rightarrow> string" where
  "quote_char c = (if c = CHR 0x27 then [CHR 0x27, CHR 0x22, CHR 0x27, CHR 0x22, CHR 0x27] else [c])"

definition shell_quote :: "string \<Rightarrow> string" where
  "shell_quote input =
     (if input = [] then [CHR 0x27, CHR 0x27]
      else if list_all shell_safe input then input
      else [CHR 0x27] @ concat (map quote_char input) @ [CHR 0x27])"

fun join_words :: "string list \<Rightarrow> string" where
  "join_words [] = []"
| "join_words [w] = w"
| "join_words (w # ws) = w @ CHR '' '' # join_words ws"

definition header_skipped :: "string \<Rightarrow> bool" where
  "header_skipped name \<longleftrightarrow>
     eq_ignore_ascii_case name ''content-length'' \<or> eq_ignore_ascii_case name ''host''"

definition header_parts :: "string \<times> string \<Rightarrow> string list" where
  "header_parts h = (case h of (name, text) \<Rightarrow>
     if header_skipped name then [] else [''-H'', shell_quote (name @ '': '' @ text)])"

text \<open>The match on the body: what is pushed, whether the body is complete, why not.\<close>

definition body_parts :: "network_body_preview option \<Rightarrow> string list \<times> bool \<times> string option" where
  "body_parts body =
     (case body of
        None \<Rightarrow> ([], True, None)
      | Some b \<Rightarrow>
          if nbp_available b then
            let is_truncated = unwrap_or (nbp_truncated b) False in
            if nbp_encoding b = Some ''text'' \<and> \<not> is_truncated
            then ([''--data-raw'', shell_quote (unwrap_or (nbp_preview b) [])], True, None)
            else if nbp_encoding b = Some ''base64'' then ([], False, Some ''request_body_base64'')
            else if is_truncated then ([], False, Some ''request_body_truncated'')
            else ([], True, None)
          else ([], False, nbp_omitted_reason b))"

definition build_curl_export :: "network_request_record \<Rightarrow> 'n rub_error + curl_export" where
  "build_curl_export request =
     (if trim_is_empty (nrr_method request) then
        Inl (rub_domain_with_context SessionBusy
          ''inspect curl requires an authoritative recorded request method''
          (JObject [(''kind'', JString ''network_request''), (''id'', JString (nrr_request_id request)),
             (''reason'', JString ''request_method_missing'')]))
      else
        let parts = [''curl'', ''-X'', shell_quote (nrr_method request)] @
              concat (map header_parts (nrr_request_headers request));
            (body, complete, reason) = body_parts (nrr_request_body request);
            parts = parts @ body @ [shell_quote (nrr_url request)]
        in Inr \<lparr>cue_command = join_words parts, cue_body_complete = complete,
                cue_body_omitted_reason = reason\<rparr>)"

definition cmd_network_curl ::
  "(network_request_record \<Rightarrow> 'n json) \<Rightarrow> string \<Rightarrow> runtime_observatory_state
   \<Rightarrow> 'n rub_error + 'n json" where
  "cmd_network_curl req_json request_id s =
     (case request_record request_id s of
        None \<Rightarrow> Inl (request_not_found request_id)
      | Some request \<Rightarrow>
          (case build_curl_export request of
             Inl e \<Rightarrow> Inl e
           | Inr export \<Rightarrow> Inr (network_payload (network_request_subject request_id)
               (JObject [(''request'', req_json request),
                  (''export'', JObject [(''kind'', JString ''curl_command''),
                     (''command'', JString (cue_command export)),
                     (''body_complete'', JBool (cue_body_complete export)),
                     (''body_omitted_reason'', json_opt_str (cue_body_omitted_reason export))])]))))"

section \<open>The words of a shell command\<close>

datatype lex_mode = Plain | SingleQuoted | DoubleQuoted

definition shell_special :: "char \<Rightarrow> bool" where
  "shell_special c \<longleftrightarrow> c \<in> set ''|&;<>()$'' \<or> c \<in> {CHR 0x60, CHR 0x5C, CHR 0x0A}"

definition flush :: "string option \<Rightarrow> string list" where
  "flush w = (case w of None \<Rightarrow> [] | Some v \<Rightarrow> [v])"

fun shell_lex :: "lex_mode \<Rightarrow> string option \<Rightarrow> string \<Rightarrow> string list option" where
  "shell_lex Plain w [] = Some (flush w)"
| "shell_lex Plain w (c # cs) =
     (if c = CHR '' '' \<or> c = CHR 0x09 then map_option (\<lambda>ws. flush w @ ws) (shell_lex Plain None cs)
      else if c = CHR 0x27 then shell_lex SingleQuoted (Some (unwrap_or w [])) cs
      else if c = CHR 0x22 then shell_lex DoubleQuoted (Some (unwrap_or w [])) cs
      else if shell_special c then None
      else shell_lex Plain (Some (unwrap_or w [] @ [c])) cs)"
| "shell_lex SingleQuoted w [] = None"
| "shell_lex SingleQuoted w (c # cs) =
     (if c = CHR 0x27 then shell_lex Plain w cs
      else shell_lex SingleQuoted (Some (unwrap_or w [] @ [c])) cs)"
| "shell_lex DoubleQuoted w [] = None"
| "shell_lex DoubleQuoted w (c # cs) =
     (if c = CHR 0x22 then shell_lex Plain w cs
      else if c = CHR ''$'' \<or> c = CHR 0x60 \<or> c = CHR 0x5C then None
      else shell_lex DoubleQuoted (Some (unwrap_or w [] @ [c])) cs)"

definition shell_words :: "string \<Rightarrow> string list option" where
  "shell_words command = shell_lex Plain None command"

section \<open>Quoting\<close>

lemma lex_safe:
  "list_all shell_safe w \<Longrightarrow> CHR ''&'' \<notin> set w \<Longrightarrow>
   shell_lex Plain (Some v) (w @ rest) = shell_lex Plain (Some (v @ w)) rest"
proof (induction w arbitrary: v)
  case (Cons c w)
  have "c \<noteq> CHR '' ''" "c \<noteq> CHR 0x09" "c \<noteq> CHR 0x27" "c \<noteq> CHR 0x22" "\<not> shell_special c"
    using Cons.prems
    by (auto simp: shell_safe_def shell_special_def is_ascii_alphanumeric_def)
  then show ?case using Cons by (simp add: unwrap_or_def)
qed simp

lemma lex_quoted:
  "shell_lex SingleQuoted (Some v) (concat (map quote_char w) @ CHR 0x27 # rest) =
   shell_lex Plain (Some (v @ w)) rest"
  by (induction w arbitrary: v) (auto simp: quote_char_def unwrap_or_def)

text \<open>The one gap of \<open>shell_quote\<close>: an ampersand counts as a safe character.\<close>

definition ampersand_quoted :: "string \<Rightarrow> bool" where
  "ampersand_quoted w \<longleftrightarrow> CHR ''&'' \<in> set w \<longrightarrow> \<not> list_all shell_safe w"

lemma lex_shell_quote:
  assumes "ampersand_quoted w"
  shows "shell_lex Plain None (shell_quote w @ rest) = shell_lex Plain (Some w) rest"
proof (cases "w = [] \<or> \<not> list_all shell_safe w")
  case True
  then show ?thesis
    using lex_quoted [of "[]" w rest]
    by (auto simp: shell_quote_def unwrap_or_def)
next
  case False
  then obtain c cs where w: "w = c # cs" by (cases w) auto
  have safe: "list_all shell_safe w" "CHR ''&'' \<notin> set w"
    using False assms by (auto simp: ampersand_quoted_def)
  then have "c \<noteq> CHR '' ''" "c \<noteq> CHR 0x09" "c \<noteq> CHR 0x27" "c \<noteq> CHR 0x22" "\<not> shell_special c"
    using w by (auto simp: shell_safe_def shell_special_def is_ascii_alphanumeric_def)
  then show ?thesis
    using lex_safe [of cs "[c]" rest] safe w by (simp add: shell_quote_def unwrap_or_def)
qed

lemma lex_ampersand:
  "list_all shell_safe w \<Longrightarrow> CHR ''&'' \<in> set w \<Longrightarrow> shell_lex Plain v (w @ rest) = None"
proof (induction w arbitrary: v)
  case (Cons c w)
  have "c \<noteq> CHR '' ''" "c \<noteq> CHR 0x09" "c \<noteq> CHR 0x27" "c \<noteq> CHR 0x22"
    using Cons.prems by (auto simp: shell_safe_def is_ascii_alphanumeric_def)
  then show ?case using Cons by (auto simp: shell_special_def)
qed simp

lemma lex_shell_unquoted:
  "\<not> ampersand_quoted w \<Longrightarrow> shell_lex Plain None (shell_quote w @ rest) = None"
  using lex_ampersand [of w None rest] by (auto simp: ampersand_quoted_def shell_quote_def)

lemma words_of_quoted:
  "ws \<noteq> [] \<Longrightarrow> shell_words (join_words (map shell_quote ws)) =
     (if list_all ampersand_quoted ws then Some ws else None)"
proof (induction ws)
  case (Cons w ws)
  show ?case
  proof (cases ws)
    case Nil
    then show ?thesis
      using lex_shell_quote [of w "[]"] lex_shell_unquoted [of w "[]"]
      by (auto simp: shell_words_def flush_def)
  next
    case (Cons v vs)
    then have "shell_words (join_words (map shell_quote ws)) =
        (if list_all ampersand_quoted ws then Some ws else None)"
      using Cons.IH by simp
    moreover have "join_words (map shell_quote (w # ws)) =
        shell_quote w @ CHR '' '' # join_words (map shell_quote ws)"
      using Cons by simp
    ultimately show ?thesis
      using lex_shell_quote [of w] lex_shell_unquoted [of w]
      by (cases "ampersand_quoted w") (simp_all add: shell_words_def flush_def)
  qed
qed simp

text \<open>The words the export means: method, headers but for length and host, the whole text body,
  the URL.\<close>

definition exported_body :: "network_body_preview option \<Rightarrow> string option" where
  "exported_body body =
     (case body of
        None \<Rightarrow> None
      | Some b \<Rightarrow> if nbp_available b \<and> nbp_encoding b = Some ''text'' \<and> nbp_truncated b \<noteq> Some True
                  then Some (unwrap_or (nbp_preview b) []) else None)"

definition curl_words :: "network_request_record \<Rightarrow> string list" where
  "curl_words r =
     [''curl'', ''-X'', nrr_method r] @
     concat (map (\<lambda>(name, text). [''-H'', name @ '': '' @ text])
       (filter (\<lambda>(name, text). \<not> header_skipped name) (nrr_request_headers r))) @
     (case exported_body (nrr_request_body r) of None \<Rightarrow> [] | Some b \<Rightarrow> [''--data-raw'', b]) @
     [nrr_url r]"

lemma literal_words [simp]:
  "shell_quote ''curl'' = ''curl''" "shell_quote ''-X'' = ''-X''" "shell_quote ''-H'' = ''-H''"
  "shell_quote ''--data-raw'' = ''--data-raw''"
  by (simp_all add: shell_quote_def shell_safe_def is_ascii_alphanumeric_def)

lemma literal_words_ok [simp]:
  "ampersand_quoted ''curl''" "ampersand_quoted ''-X''" "ampersand_quoted ''-H''"
  "ampersand_quoted ''--data-raw''"
  by (simp_all add: ampersand_quoted_def)

lemma header_words_ok: "ampersand_quoted (name @ '': '' @ text)"
  by (simp add: ampersand_quoted_def shell_safe_def is_ascii_alphanumeric_def)

lemma header_parts_quoted:
  "concat (map header_parts hs) =
   map shell_quote (concat (map (\<lambda>(name, text). [''-H'', name @ '': '' @ text])
     (filter (\<lambda>(name, text). \<not> header_skipped name) hs)))"
  by (induction hs) (auto simp: header_parts_def)

lemma body_parts_quoted:
  "fst (body_parts body) =
   map shell_quote (case exported_body body of None \<Rightarrow> [] | Some b \<Rightarrow> [''--data-raw'', b])"
  by (auto simp: body_parts_def exported_body_def unwrap_or_def Let_def split: option.split)

lemma curl_command_quoted:
  assumes "\<not> trim_is_empty (nrr_method r)"
  shows "build_curl_export r = Inr \<lparr>cue_command = join_words (map shell_quote (curl_words r)),
    cue_body_complete = fst (snd (body_parts (nrr_request_body r))),
    cue_body_omitted_reason = snd (snd (body_parts (nrr_request_body r)))\<rparr>"
  using assms
  by (simp add: build_curl_export_def Let_def split_def curl_words_def header_parts_quoted
      body_parts_quoted)

section \<open>Properties of the export\<close>


section \<open>The wait loop\<close>

definition wait_matches :: "network_wait_error_context \<Rightarrow> network_request_record \<Rightarrow> bool" where
  "wait_matches c r \<longleftrightarrow>
     wait_state_matches (nwc_desired_state c) (nrr_lifecycle r) \<and>
     (case nwc_request_id c of
        Some request_id \<Rightarrow> nrr_request_id r = request_id
      | None \<Rightarrow> opt_all (contains_str (nrr_url r)) (nwc_url_match c) \<and>
          opt_all (eq_ignore_ascii_case (nrr_method r)) (nwc_method c) \<and>
          opt_all (\<lambda>v. nrr_status r = Some v) (nwc_status c))"

lemma find_matching_find: "find_matching_network_wait_record rs c = find (wait_matches c) rs"
proof -
  have "find_matching_network_wait_record rs c =
      (case filter (wait_matches c) rs of [] \<Rightarrow> None | r # _ \<Rightarrow> Some r)"
    by (cases "nwc_request_id c")
      (simp_all add: find_matching_network_wait_record_def filter_requests_by_wait_state_def
        wait_matches_def [abs_def] conj_commute)
  also have "\<dots> = find (wait_matches c) rs"
    by (induction rs) auto
  finally show ?thesis .
qed

text \<open>The rounds of a wait over an observatory on which operations \<open>d\<close> happen before each round.\<close>

fun polls_follow ::
  "observatory_op list \<Rightarrow> observatory_op list list \<Rightarrow> network_poll list \<Rightarrow> bool" where
  "polls_follow ops [] [] = True"
| "polls_follow ops (d # ds) (p # ps) =
     (np_observatory p = observatory_after (ops @ d) \<and> polls_follow (ops @ d) ds ps)"
| "polls_follow ops _ _ = False"

definition goes_on :: "network_poll \<Rightarrow> bool" where
  "goes_on p \<longleftrightarrow> \<not> np_deadline_passed p \<and> np_notified p"

lemma observed_requests_append:
  "observed_requests (ops @ ops') = observed_requests ops @ observed_requests ops'"
  by (simp add: observed_requests_def)

lemma observed_requests_length: "length (observed_requests ops) \<le> length ops"
  by (induction ops rule: rev_induct) (auto split: observatory_op.split)

lemma poll_window:
  assumes "nrw_authoritative (request_window_after cursor ingress observed (observatory_after (ops @ d)))"
    and "unat cursor = length (observed_requests ops)" and "length (ops @ d) < 2 ^ 64 - 2"
  shows "map nrr_request_id (nrw_records (request_window_after cursor ingress observed
      (observatory_after (ops @ d)))) = remdups (observed_ids d)"
    and "r \<in> set (nrw_records (request_window_after cursor ingress observed
      (observatory_after (ops @ d)))) \<Longrightarrow>
      request_record (nrr_request_id r) (observatory_after (ops @ d)) = Some r"
    and "unat (nrw_next_cursor (request_window_after cursor ingress observed
      (observatory_after (ops @ d)))) = length (observed_requests (ops @ d))"
    and "ingress \<le> observed"
proof -
  let ?s = "observatory_after (ops @ d)" and ?rs = "observed_requests (ops @ d)"
  have ok: "requests_ok ?rs ?s" using observatory_contents [OF assms(3)] by blast
  have room: "length ?rs < 2 ^ 64 - 1"
    using observed_requests_length [of "ops @ d"] assms(3) by linarith
  have cur: "ros_last_evicted_request_sequence ?s \<le> cursor" and "ingress \<le> observed"
    using authoritative_cursor(1) [OF assms(1)] by simp_all
  then show "ingress \<le> observed" by simp
  have w: "nrw_records (request_window_after cursor ingress observed ?s) = request_records_after cursor ?s"
    "nrw_next_cursor (request_window_after cursor ingress observed ?s) =
      unwrap_or (max_sequence (request_records_after cursor ?s)) (request_cursor ?s)"
    by (simp_all add: request_window_after_def Let_def)
  show "map nrr_request_id (nrw_records (request_window_after cursor ingress observed ?s)) =
      remdups (observed_ids d)"
    unfolding w using records_after_ids [OF ok cur] assms(2)
    by (simp add: observed_requests_append)
  show "r \<in> set (nrw_records (request_window_after cursor ingress observed ?s)) \<Longrightarrow>
      request_record (nrr_request_id r) ?s = Some r"
    unfolding w using records_in_order_exact(2) [OF ok, of r] by (simp add: request_records_after_def)
  show "unat (nrw_next_cursor (request_window_after cursor ingress observed ?s)) = length ?rs"
    unfolding w using next_cursor_exact [OF ok cur room] assms(2)
    by (simp add: observed_requests_append)
qed

lemma wait_loop_match:
  "network_wait_loop num req_json c cursor observed ps = Some (Inr payload) \<Longrightarrow>
   \<exists>p\<in>set ps. \<exists>r. r \<in> set (records_in_order (np_observatory p)) \<and> wait_matches c r \<and>
     payload = network_wait_match_payload num req_json c (np_elapsed_ms p) r"
proof (induction ps arbitrary: cursor observed)
  case (Cons p ps)
  let ?w = "request_window_after cursor (np_window_ingress p) observed (np_observatory p)"
  have auth: "nrw_authoritative ?w" using Cons.prems by (auto simp: Let_def split: if_splits)
  show ?case
  proof (cases "find (wait_matches c) (nrw_records ?w)")
    case None
    then have "network_wait_loop num req_json c (nrw_next_cursor ?w) (np_ingress p) ps =
        Some (Inr payload)"
      using Cons.prems auth by (auto simp: Let_def find_matching_find split: if_splits)
    then show ?thesis using Cons.IH by fastforce
  next
    case (Some r)
    then have "payload = network_wait_match_payload num req_json c (np_elapsed_ms p) r"
      using Cons.prems auth by (simp add: Let_def find_matching_find)
    moreover have "r \<in> set (records_in_order (np_observatory p))" "wait_matches c r"
      using Some by (auto simp: find_Some_iff request_window_after_def Let_def
          request_records_after_def dest: nth_mem)
    ultimately show ?thesis by auto
  qed
qed simp

lemma timeout_not_authority:
  "network_wait_not_authoritative_error num c e cur dropped reason \<noteq> network_wait_timeout_error num c e'"
  by (simp add: network_wait_not_authoritative_error_def network_wait_timeout_error_def
      rub_domain_with_context_def with_context_def error_envelope_new_def)

text \<open>What a wait that has not found anything has looked at.\<close>

definition unmatched ::
  "network_wait_error_context \<Rightarrow> runtime_observatory_state \<Rightarrow> string \<Rightarrow> bool" where
  "unmatched c s x \<longleftrightarrow> (\<exists>r. request_record x s = Some r \<and> \<not> wait_matches c r)"

lemma wait_loop_unmatched:
  "network_wait_loop num req_json c cursor observed ps \<in>
     insert None (range (\<lambda>e. Some (Inl (network_wait_timeout_error num c e)))) \<Longrightarrow>
   polls_follow ops ds ps \<Longrightarrow> unat cursor = length (observed_requests ops) \<Longrightarrow>
   length (ops @ concat ds) < 2 ^ 64 - 2 \<Longrightarrow> i < length ps \<Longrightarrow> \<forall>j<i. goes_on (ps ! j) \<Longrightarrow>
   (\<forall>x\<in>set (observed_ids (ds ! i)). unmatched c (np_observatory (ps ! i)) x) \<and>
   np_window_ingress (ps ! i) \<le> (case i of 0 \<Rightarrow> observed | Suc j \<Rightarrow> np_ingress (ps ! j))"
proof (induction ps arbitrary: cursor observed ops ds i)
  case (Cons p ps)
  obtain d ds' where ds: "ds = d # ds'" using Cons.prems(2) by (cases ds) auto
  let ?s = "observatory_after (ops @ d)"
  let ?w = "request_window_after cursor (np_window_ingress p) observed ?s"
  have p: "np_observatory p = ?s"
    and follow: "polls_follow (ops @ d) ds' ps"
    using Cons.prems(2) by (simp_all add: ds)
  have auth: "nrw_authoritative ?w"
    using Cons.prems(1) p by (auto simp: Let_def timeout_not_authority split: if_splits)
  have room: "length (ops @ d) < 2 ^ 64 - 2" using Cons.prems(4) by (simp add: ds)
  note w = poll_window [OF auth Cons.prems(3) room]
  have none: "find (wait_matches c) (nrw_records ?w) = None"
    using Cons.prems(1) auth p
    by (cases "find (wait_matches c) (nrw_records ?w)") (auto simp: Let_def find_matching_find)
  show ?case
  proof (cases i)
    case 0
    have "unmatched c ?s x" if "x \<in> set (observed_ids d)" for x
    proof -
      have "x \<in> set (map nrr_request_id (nrw_records ?w))" using w(1) that by simp
      then obtain r where r: "r \<in> set (nrw_records ?w)" "nrr_request_id r = x" by auto
      then have "\<not> wait_matches c r" using none by (auto simp: find_None_iff)
      then show ?thesis using w(2) [OF r(1)] r(2) by (auto simp: unmatched_def)
    qed
    then show ?thesis using 0 w(4) by (simp add: ds p)
  next
    case (Suc k)
    then have "goes_on p" using Cons.prems(6) by auto
    then have "network_wait_loop num req_json c (nrw_next_cursor ?w) (np_ingress p) ps \<in>
        insert None (range (\<lambda>e. Some (Inl (network_wait_timeout_error num c e))))"
      using Cons.prems(1) auth none p by (simp add: Let_def find_matching_find goes_on_def)
    then have "(\<forall>x\<in>set (observed_ids (ds' ! k)). unmatched c (np_observatory (ps ! k)) x) \<and>
        np_window_ingress (ps ! k) \<le> (case k of 0 \<Rightarrow> np_ingress p | Suc j \<Rightarrow> np_ingress (ps ! j))"
      using Cons.prems(4,5,6) Suc w(3) follow by (intro Cons.IH) (auto simp: ds)
    then show ?thesis using Suc by (cases k) (simp_all add: ds)
  qed
qed simp

lemma initial_window_unmatched:
  assumes ops: "length (ops @ d) < 2 ^ 64 - 2"
    and auth: "nrw_authoritative (request_window_between 0 cursor ingress observed (observatory_after (ops @ d)))"
    and cursor: "unat cursor = length (observed_requests ops)"
    and none: "find (wait_matches c) (nrw_records (request_window_between 0 cursor ingress observed
      (observatory_after (ops @ d)))) = None"
    and x: "x \<in> set (observed_ids ops)" "x \<notin> set (observed_ids d)"
  shows "unmatched c (observatory_after (ops @ d)) x"
proof -
  let ?s = "observatory_after (ops @ d)" and ?rs = "observed_requests (ops @ d)"
  let ?w = "request_window_between 0 cursor ingress observed ?s"
  have ok: "requests_ok ?rs ?s" using observatory_contents [OF ops] by blast
  have cur: "ros_last_evicted_request_sequence ?s \<le> 0" using authoritative_cursor(2) [OF auth] by simp
  have w: "nrw_records ?w = request_records_between 0 cursor ?s"
    by (simp add: request_window_between_def Let_def)
  have "x \<in> set (map nrr_request_id (nrw_records ?w))"
    unfolding w records_between_ids [OF ok cur] using x cursor
    by (simp add: observed_requests_append)
  then obtain r where r: "r \<in> set (nrw_records ?w)" "nrr_request_id r = x" by auto
  moreover have "request_record (nrr_request_id r) ?s = Some r"
    using r(1) records_in_order_exact(2) [OF ok, of r] unfolding w
    by (simp add: request_records_between_def)
  ultimately show ?thesis using none by (auto simp: unmatched_def find_None_iff)
qed

lemma request_cursor_after:
  assumes "length ops < 2 ^ 64 - 2"
  shows "unat (request_cursor (observatory_after ops)) = length (observed_requests ops)"
proof -
  have ok: "requests_ok (observed_requests ops) (observatory_after ops)"
    and l: "length (observed_requests ops) < 2 ^ 64 - 2"
    using observatory_contents [OF assms] assms by auto
  have "max (ros_next_request_sequence (observatory_after ops)) 1 =
      of_nat (Suc (length (observed_requests ops)))"
    using ok unfolding requests_ok_def by blast
  from next_number(1) [OF this l]
  have "max (unat (ros_next_request_sequence (observatory_after ops))) 1 =
      Suc (length (observed_requests ops))"
    by (simp add: unat_max)
  then show ?thesis
    by (auto simp: request_cursor_def unat_saturating_sub max_def split: if_splits)
qed

lemma wait_result_cases:
  fixes num :: "u64 \<Rightarrow> 'n"
  assumes "parse_lifecycle_filter (nta_lifecycle args) = (Inr lifecycle :: 'n rub_error + _)"
    and "c = wait_context args (unwrap_or lifecycle WaitTerminal)"
    and "w = request_window_between 0 (nws_cursor start) (nws_ingress start) 0 (nws_observatory start)"
  shows "cmd_network_wait num req_json args start polls =
    (if \<not> nrw_authoritative w then
       Some (Inl (network_wait_not_authoritative_error num c (nws_elapsed_ms start)
         (nws_cursor start) (nws_dropped start) (nrw_degraded_reason w)))
     else (case find (wait_matches c) (nrw_records w) of
       Some r \<Rightarrow> Some (Inr (network_wait_match_payload num req_json c (nws_elapsed_ms start) r))
     | None \<Rightarrow> network_wait_loop num req_json c (nws_cursor start) (nws_ingress start) polls))"
  unfolding assms(2,3) using assms(1) by (simp add: cmd_network_wait_def Let_def find_matching_find)

section \<open>The timeline filters\<close>

lemma ascii_uppercase_idem: "ascii_uppercase (ascii_uppercase c) = ascii_uppercase c"
proof (cases "97 \<le> (of_char c :: nat) \<and> (of_char c :: nat) \<le> 122")
  case True
  then have "(of_char c - 32) mod 256 = (of_char c - 32 :: nat)" by (intro mod_less) linarith
  with True show ?thesis by (auto simp: ascii_uppercase_def)
qed (auto simp: ascii_uppercase_def)

lemma eq_ignore_uppercase:
  "eq_ignore_ascii_case a (to_ascii_uppercase b) = eq_ignore_ascii_case a b"
  by (simp add: eq_ignore_ascii_case_def to_ascii_uppercase_def ascii_uppercase_idem comp_def)

lemma opt_all_uppercase:
  "opt_all (eq_ignore_ascii_case a) (map_option to_ascii_uppercase m) =
   opt_all (eq_ignore_ascii_case a) m"
  by (cases m) (simp_all add: opt_all_def eq_ignore_uppercase)

lemma actual_filter_exact:
  "st \<noteq> WaitTerminal \<Longrightarrow> \<exists>l. actual_filter st = Some l \<and> wait_state_matches st = (\<lambda>x. x = l)"
  by (cases st) auto

lemma filter_take_same: "(\<And>x. Q x \<Longrightarrow> P x) \<Longrightarrow> filter P (take n (filter Q xs)) = take n (filter Q xs)"
  by (auto simp: filter_id_conv dest: in_set_takeD)

definition limited :: "u64 option \<Rightarrow> 'a list \<Rightarrow> 'a list" where
  "limited last_n xs = (case last_n of None \<Rightarrow> xs | Some n \<Rightarrow> take (unat (min n 100)) xs)"

definition passes :: "network_timeline_args \<Rightarrow> network_request_record \<Rightarrow> bool" where
  "passes args r \<longleftrightarrow> opt_all (contains_str (nrr_url r)) (nta_url_match args) \<and>
     opt_all (eq_ignore_ascii_case (nrr_method r)) (nta_method args) \<and>
     opt_all (\<lambda>v. nrr_status r = Some v) (clamp_status (nta_status args))"

lemma timeline_requests_exact:
  "timeline_requests args lifecycle s = map summarize_request_record
     (let rs = rev (records_in_order s) in
      case lifecycle of
        None \<Rightarrow> limited (nta_last args) (filter (passes args) rs)
      | Some st \<Rightarrow>
          if st = WaitTerminal
          then filter (\<lambda>r. wait_state_matches st (nrr_lifecycle r))
                 (limited (nta_last args) (filter (passes args) rs))
          else limited (nta_last args)
                 (filter (\<lambda>r. passes args r \<and> wait_state_matches st (nrr_lifecycle r)) rs))"
proof (cases "\<exists>st. lifecycle = Some st \<and> st \<noteq> WaitTerminal")
  case True
  then obtain st l where st: "lifecycle = Some st" "actual_filter st = Some l" "st \<noteq> WaitTerminal"
      "wait_state_matches st = (\<lambda>x. x = l)"
    using actual_filter_exact by blast
  have "filter (\<lambda>r. nrr_lifecycle r = l) (take n (filter (\<lambda>r. A r \<and> B r \<and> C r \<and> nrr_lifecycle r = l) xs)) =
      take n (filter (\<lambda>r. A r \<and> B r \<and> C r \<and> nrr_lifecycle r = l) xs)" for n A B C and xs :: "network_request_record list"
    by (rule filter_take_same) simp
  then show ?thesis
    by (cases "nta_last args")
      (simp_all add: timeline_requests_def filter_requests_by_wait_state_def request_records_def
        Let_def st opt_all_def [of _ "Some _"] opt_all_uppercase limited_def passes_def)
next
  case False
  then show ?thesis
    by (cases lifecycle; cases "nta_last args")
      (auto simp: timeline_requests_def filter_requests_by_wait_state_def request_records_def
        Let_def opt_all_def [of _ None] opt_all_uppercase limited_def passes_def [abs_def])
qed

section \<open>Properties of the queries\<close>



section \<open>Concrete runs\<close>

definition example_record :: network_request_record where
  "example_record = (authoritative_request_record (example_observation ''a'') 1)
     \<lparr>nrr_url := ''https://a/it'' @ [CHR 0x27] @ ''s ok'', nrr_request_headers := [(''x'', ''1'')]\<rparr>"


definition example_timeline_args :: network_timeline_args where
  "example_timeline_args = \<lparr>nta_wait = True, nta_id = None, nta_last = None, nta_url_match = None,
     nta_method = None, nta_status = None, nta_lifecycle = None, nta_timeout_ms = None\<rparr>"

definition example_start :: network_wait_start where
  "example_start = \<lparr>nws_cursor = request_cursor (observatory_after []), nws_ingress = 0, nws_dropped = 0,
     nws_observatory = observatory_after [], nws_elapsed_ms = 0\<rparr>"

definition example_poll :: network_poll where
  "example_poll = \<lparr>np_observatory = observatory_after [UpsertRequest (example_observation ''a'')],
     np_window_ingress = 0, np_ingress = 0, np_dropped = 0, np_elapsed_ms = 5,
     np_deadline_passed = True, np_notified = False\<rparr>"


end
