(* ===== verification/Rub_Workflow_Policy.thy ===== *)
theory Rub_Workflow_Policy
  imports Rub_Command
begin

text \<open>
  Which commands a recorded workflow may contain (\<^verbatim>\<open>rub-daemon/src/workflow_policy.rs\<close>): the policy
  table, the lookups over it, and the argument-dependent policy of \<open>orchestration\<close>. The lemmas show
  that the table has one row per command, that the listing and the test agree, and how the policy
  fits the command manifest.
\<close>

datatype workflow_capture_class = Workflow | Observation | Administrative

record workflow_step_policy =
  wsp_command :: string
  wsp_capture_class :: workflow_capture_class
  wsp_workflow_allowed :: bool

abbreviation step_policy :: "string \<Rightarrow> workflow_capture_class \<Rightarrow> bool \<Rightarrow> workflow_step_policy" where
  "step_policy c k a \<equiv> \<lparr>wsp_command = c, wsp_capture_class = k, wsp_workflow_allowed = a\<rparr>"

definition POLICIES :: "workflow_step_policy list" where
  "POLICIES = [
     step_policy ''open'' Workflow True,
     step_policy ''state'' Observation True,
     step_policy ''observe'' Observation True,
     step_policy ''click'' Workflow True,
     step_policy ''exec'' Workflow True,
     step_policy ''scroll'' Workflow True,
     step_policy ''back'' Workflow True,
     step_policy ''keys'' Workflow True,
     step_policy ''type'' Workflow True,
     step_policy ''wait'' Workflow True,
     step_policy ''tabs'' Workflow True,
     step_policy ''switch'' Workflow True,
     step_policy ''close-tab'' Workflow True,
     step_policy ''get'' Observation True,
     step_policy ''hover'' Workflow True,
     step_policy ''upload'' Workflow True,
     step_policy ''select'' Workflow True,
     step_policy ''fill'' Workflow True,
     step_policy ''extract'' Workflow True,
     step_policy ''screenshot'' Observation True,
     step_policy ''find'' Observation False,
     step_policy ''history'' Observation False,
     step_policy ''doctor'' Observation False,
     step_policy ''runtime'' Observation False,
     step_policy ''downloads'' Observation False,
     step_policy ''inspect'' Observation False,
     step_policy ''frames'' Observation False,
     step_policy ''close'' Administrative False,
     step_policy ''cleanup'' Administrative False,
     step_policy ''sessions'' Administrative False,
     step_policy ''handoff'' Administrative False,
     step_policy ''dialog'' Administrative False,
     step_policy ''intercept'' Administrative False,
     step_policy ''interference'' Administrative False,
     step_policy ''storage'' Administrative False,
     step_policy ''download'' Administrative False,
     step_policy ''frame'' Administrative False,
     step_policy ''cookies'' Administrative False,
     step_policy ''pipe'' Administrative False]"

definition find_step_policy :: "string \<Rightarrow> workflow_step_policy option" where
  "find_step_policy command = List.find (\<lambda>policy. wsp_command policy = command) POLICIES"

definition orchestration_request_policy :: "'n json \<Rightarrow> workflow_step_policy" where
  "orchestration_request_policy args =
     (let sub = (case json_get_str args ''sub'' of None \<Rightarrow> ''list'' | Some s \<Rightarrow> s) in
      if sub \<in> {''add'', ''pause'', ''resume'', ''remove'', ''execute''}
      then step_policy ''orchestration'' Workflow True
      else if sub \<in> {''list'', ''trace''} then step_policy ''orchestration'' Observation False
      else step_policy ''orchestration'' Administrative False)"

definition workflow_request_policy :: "string \<Rightarrow> 'n json \<Rightarrow> workflow_step_policy" where
  "workflow_request_policy command args =
     (if command = ''orchestration'' then orchestration_request_policy args
      else case find_step_policy command of
        Some policy \<Rightarrow> policy
      | None \<Rightarrow> step_policy [] Administrative False)"

definition workflow_command_allowed :: "string \<Rightarrow> bool" where
  "workflow_command_allowed command =
     (case find_step_policy command of
        Some policy \<Rightarrow> wsp_workflow_allowed policy | None \<Rightarrow> False)"

definition workflow_allowed_commands :: "string list" where
  "workflow_allowed_commands = map wsp_command (filter wsp_workflow_allowed POLICIES)"

definition workflow_capture_class_of :: "string \<Rightarrow> workflow_capture_class" where
  "workflow_capture_class_of command =
     (case find_step_policy command of Some policy \<Rightarrow> wsp_capture_class policy | None \<Rightarrow> Workflow)"

definition workflow_request_allowed :: "string \<Rightarrow> 'n json \<Rightarrow> bool" where
  "workflow_request_allowed command args = wsp_workflow_allowed (workflow_request_policy command args)"

definition trigger_workflow_request_allowed :: "string \<Rightarrow> 'n json \<Rightarrow> bool" where
  "trigger_workflow_request_allowed command args =
     (command \<noteq> ''exec'' \<and> workflow_request_allowed command args)"

definition workflow_request_capture_class :: "string \<Rightarrow> 'n json \<Rightarrow> workflow_capture_class" where
  "workflow_request_capture_class command args =
     wsp_capture_class (workflow_request_policy command args)"

definition workflow_allowed_step_descriptions :: "string list" where
  "workflow_allowed_step_descriptions =
     workflow_allowed_commands @ [''orchestration:add|pause|resume|remove|execute'']"

definition trigger_workflow_allowed_step_descriptions :: "string list" where
  "trigger_workflow_allowed_step_descriptions =
     filter (\<lambda>command. command \<noteq> ''exec'') workflow_allowed_step_descriptions"

lemma policies_distinct: "distinct (map wsp_command POLICIES)"
  by code_simp

lemma find_step_policy_Some:
  "find_step_policy command = Some policy \<longleftrightarrow> policy \<in> set POLICIES \<and> wsp_command policy = command"
proof
  show "find_step_policy command = Some policy \<Longrightarrow> policy \<in> set POLICIES \<and> wsp_command policy = command"
    by (auto simp: find_step_policy_def find_Some_iff)
  show "policy \<in> set POLICIES \<and> wsp_command policy = command \<Longrightarrow> find_step_policy command = Some policy"
    using policies_distinct unfolding find_step_policy_def by (auto intro: distinct_map_find)
qed

lemma workflow_command_allowed_iff:
  "workflow_command_allowed command \<longleftrightarrow> command \<in> set workflow_allowed_commands"
proof
  assume "workflow_command_allowed command"
  then obtain policy where "find_step_policy command = Some policy" "wsp_workflow_allowed policy"
    by (auto simp: workflow_command_allowed_def split: option.splits)
  then show "command \<in> set workflow_allowed_commands"
    by (auto simp: workflow_allowed_commands_def find_step_policy_Some)
next
  assume "command \<in> set workflow_allowed_commands"
  then obtain policy where "policy \<in> set POLICIES" "wsp_workflow_allowed policy" "wsp_command policy = command"
    by (auto simp: workflow_allowed_commands_def)
  moreover from this have "find_step_policy command = Some policy" by (simp add: find_step_policy_Some)
  ultimately show "workflow_command_allowed command" by (simp add: workflow_command_allowed_def)
qed

text \<open>What the table's allowed rows are in the manifest: public commands, none of them a nesting one.\<close>

lemma allowed_rows_public:
  "list_all (\<lambda>c. case parse c of
      None \<Rightarrow> False
    | Some name \<Rightarrow> \<not> internal (metadata name) \<and> effect_class (metadata name) \<noteq> EffectUnknown
        \<and> replay_safety (metadata name) \<noteq> NotReplayable
        \<and> c \<notin> {''pipe'', ''trigger'', ''orchestration'', ''close''}) workflow_allowed_commands"
  by code_simp

lemma workflow_request_allowed_iff:
  "workflow_request_allowed command args \<longleftrightarrow>
     command \<in> set workflow_allowed_commands
     \<or> command = ''orchestration'' \<and> json_get_str args ''sub'' \<in>
          Some ` {''add'', ''pause'', ''resume'', ''remove'', ''execute''}"
proof (cases "command = ''orchestration''")
  case True
  have "''orchestration'' \<notin> set workflow_allowed_commands" by code_simp
  then show ?thesis
    unfolding True workflow_request_allowed_def workflow_request_policy_def
      orchestration_request_policy_def Let_def
    by (cases "json_get_str args ''sub''") auto
next
  case False
  then have "workflow_request_allowed command args = workflow_command_allowed command"
    by (simp add: workflow_request_allowed_def workflow_request_policy_def
        workflow_command_allowed_def split: option.split)
  with False show ?thesis by (simp add: workflow_command_allowed_iff)
qed

text \<open>
  What a workflow may contain: the per-command test agrees with the published list, a step is
  admitted exactly when its command is listed or it is one of the five mutating orchestration
  requests, a trigger's workflow admits the same steps without script execution, and every listed
  command is a public command of the manifest that can be retried and is no nesting command.
\<close>

theorem workflow_policy_sound:
  "(workflow_command_allowed command \<longleftrightarrow> command \<in> set workflow_allowed_commands) \<and>
   (workflow_request_allowed command args \<longleftrightarrow>
      workflow_command_allowed command \<or> command = ''orchestration'' \<and>
        json_get_str args ''sub'' \<in> Some ` {''add'', ''pause'', ''resume'', ''remove'', ''execute''}) \<and>
   (trigger_workflow_request_allowed command args \<longleftrightarrow>
      command \<noteq> ''exec'' \<and> workflow_request_allowed command args) \<and>
   ''exec'' \<notin> set trigger_workflow_allowed_step_descriptions \<and>
   list_all (\<lambda>c. \<exists>name. parse c = Some name \<and> \<not> internal (metadata name)
      \<and> replay_safety (metadata name) \<noteq> NotReplayable
      \<and> c \<notin> {''pipe'', ''trigger'', ''orchestration'', ''close''}) workflow_allowed_commands"
  using allowed_rows_public
  unfolding workflow_command_allowed_iff workflow_request_allowed_iff
    trigger_workflow_request_allowed_def trigger_workflow_allowed_step_descriptions_def
  by (auto simp: list_all_iff split: option.splits)

end
