(* ===== verification/Rub_History.thy ===== *)
theory Rub_History
  imports Rub_Protocol Rub_Workflow_Policy Rub_Interfaces Rub_Codec
begin

text \<open>
  The two bounded journals a session keeps of its commands: the command history
  (\<^verbatim>\<open>rub-daemon/src/history.rs\<close>) and the workflow capture (\<^verbatim>\<open>rub-daemon/src/workflow_capture.rs\<close>),
  with the success projection of an interaction they record (\<^verbatim>\<open>rub-core/src/model/interaction.rs\<close>).
  Both stamp their entries with consecutive numbers and drop the oldest: they interpret the
  event-log interface, the history the exact one. Parameters: \<open>code_text\<close>, the wire text of an error
  code, \<open>status_of\<close>, the decoder of a confirmation status, and \<open>len\<close>, the JSON length of a capture
  entry (all three derived by \<^verbatim>\<open>serde\<close>).
\<close>

section \<open>Interaction success\<close>

datatype interaction_confirmation_status = Confirmed | Unconfirmed | Contradicted | Degraded

definition interaction_object :: "'n json option \<Rightarrow> (string \<times> 'n json) list option" where
  "interaction_object data =
     Option.bind (Option.bind data (\<lambda>v. json_get v ''interaction'')) json_as_object"

definition projected_interaction_confirmation_status ::
  "('n json \<Rightarrow> interaction_confirmation_status option) \<Rightarrow> 'n json option
     \<Rightarrow> interaction_confirmation_status option" where
  "projected_interaction_confirmation_status status_of data =
     (case interaction_object data of
        None \<Rightarrow> None
      | Some interaction \<Rightarrow> Option.bind (map_of interaction ''confirmation_status'') status_of)"

definition projected_interaction_present :: "'n json option \<Rightarrow> bool" where
  "projected_interaction_present data = (interaction_object data \<noteq> None)"

definition projected_wait_after_fallback_matched :: "'n json option \<Rightarrow> bool" where
  "projected_wait_after_fallback_matched data =
     (case Option.bind (Option.bind (Option.bind data (\<lambda>v. json_get v ''wait_after''))
             (\<lambda>v. json_get v ''matched'')) json_as_bool of
        None \<Rightarrow> False | Some b \<Rightarrow> b)"

definition projected_interaction_effect_success ::
  "('n json \<Rightarrow> interaction_confirmation_status option) \<Rightarrow> bool \<Rightarrow> 'n json option \<Rightarrow> bool" where
  "projected_interaction_effect_success status_of attempt_success data =
     (if \<not> attempt_success then False
      else if \<not> projected_interaction_present data then True
      else case projected_interaction_confirmation_status status_of data of
        Some Confirmed \<Rightarrow> True
      | Some _ \<Rightarrow> projected_wait_after_fallback_matched data
      | None \<Rightarrow> False)"

section \<open>Command history\<close>

definition HISTORY_LIMIT :: nat where
  "HISTORY_LIMIT = 64"

record command_history_entry =
  che_sequence :: u64
  che_command :: string
  che_success :: bool
  che_request_id :: string
  che_command_id :: "string option"
  che_timing :: timing
  che_summary :: "string option"
  che_error_code :: "string option"
  che_confirmation_status :: "string option"
  che_confirmation_kind :: "string option"

record command_history_projection =
  chp_entries :: "command_history_entry list"
  chp_oldest_retained_sequence :: "u64 option"
  chp_newest_retained_sequence :: "u64 option"
  chp_dropped_before_retention :: u64
  chp_dropped_before_projection :: u64
  chp_selection_dropped_before_projection :: bool
  chp_selection_truncated_by_retention :: bool

record command_history_state =
  chs_next_sequence :: u64
  chs_entries :: "command_history_entry list"

definition command_history_default :: command_history_state where
  "command_history_default = \<lparr>chs_next_sequence = 0, chs_entries = []\<rparr>"

definition interaction_confirmation :: "'n ipc_response \<Rightarrow> string option \<times> string option" where
  "interaction_confirmation response =
     (let interaction = interaction_object (res_data response);
          field = (\<lambda>key. Option.bind (Option.bind interaction (\<lambda>object. map_of object key)) json_as_str)
      in (field ''confirmation_status'', field ''confirmation_kind''))"

definition summarize_entry ::
  "(error_code \<Rightarrow> string) \<Rightarrow> 'n ipc_response \<Rightarrow> string option \<Rightarrow> string option \<Rightarrow> string option" where
  "summarize_entry code_text response confirmation_status confirmation_kind =
     (case res_error response of
        Some error \<Rightarrow> Some (code_text (ee_code error))
      | None \<Rightarrow>
          (case confirmation_status of
             Some status \<Rightarrow>
               (case confirmation_kind of
                  Some kind \<Rightarrow> Some (status @ ''/'' @ kind)
                | None \<Rightarrow> Some status)
           | None \<Rightarrow> if res_status response = Success then Some ''success'' else None))"

definition history_entry ::
  "(error_code \<Rightarrow> string) \<Rightarrow> ('n json \<Rightarrow> interaction_confirmation_status option)
     \<Rightarrow> 'n ipc_request \<times> 'n ipc_response \<Rightarrow> u64 \<Rightarrow> command_history_entry" where
  "history_entry code_text status_of rr sequence =
     (let (request, response) = rr;
          (confirmation_status, confirmation_kind) = interaction_confirmation response
      in \<lparr>che_sequence = sequence, che_command = req_command request,
          che_success = projected_interaction_effect_success status_of
            (res_status response = Success) (res_data response),
          che_request_id = res_request_id response, che_command_id = res_command_id response,
          che_timing = res_timing response,
          che_summary = summarize_entry code_text response confirmation_status confirmation_kind,
          che_error_code = map_option (\<lambda>error. code_text (ee_code error)) (res_error response),
          che_confirmation_status = confirmation_status,
          che_confirmation_kind = confirmation_kind\<rparr>)"

definition history_record ::
  "(error_code \<Rightarrow> string) \<Rightarrow> ('n json \<Rightarrow> interaction_confirmation_status option)
     \<Rightarrow> 'n ipc_request \<times> 'n ipc_response \<Rightarrow> command_history_state \<Rightarrow> command_history_state" where
  "history_record code_text status_of rr s =
     (let sequence = max (chs_next_sequence s) 1 in
      \<lparr>chs_next_sequence = sequence + 1,
       chs_entries = pop_front_to HISTORY_LIMIT
         (chs_entries s @ [history_entry code_text status_of rr sequence])\<rparr>)"

definition matches_history_range :: "u64 \<Rightarrow> u64 option \<Rightarrow> u64 option \<Rightarrow> bool" where
  "matches_history_range sequence from_seq to_seq =
     (if (case from_seq of Some from \<Rightarrow> sequence < from | None \<Rightarrow> False) then False
      else if (case to_seq of Some to \<Rightarrow> sequence > to | None \<Rightarrow> False) then False
      else True)"

definition projection_for_selection ::
  "command_history_state \<Rightarrow> nat \<Rightarrow> u64 option \<Rightarrow> u64 option \<Rightarrow> u64 \<Rightarrow> command_history_projection" where
  "projection_for_selection s n from_seq to_seq dropped =
     (let count = length (chs_entries s);
          ranged = (from_seq \<noteq> None \<or> to_seq \<noteq> None);
          entries = (if ranged
            then filter (\<lambda>entry. matches_history_range (che_sequence entry) from_seq to_seq) (chs_entries s)
            else take_last (min n count) (chs_entries s));
          oldest = map_option che_sequence (deque_front (chs_entries s));
          newest = map_option che_sequence (deque_back (chs_entries s));
          dropped_before_retention = (case oldest of
            Some sequence \<Rightarrow> saturating_sub sequence 1 | None \<Rightarrow> 0);
          truncated = (if dropped_before_retention = 0 then False
            else if ranged then
              (let requested_start = (case from_seq of Some from \<Rightarrow> from | None \<Rightarrow> 1)
               in case oldest of Some first \<Rightarrow> requested_start < first | None \<Rightarrow> False)
            else n > length entries)
      in \<lparr>chp_entries = entries, chp_oldest_retained_sequence = oldest,
          chp_newest_retained_sequence = newest,
          chp_dropped_before_retention = dropped_before_retention,
          chp_dropped_before_projection = dropped,
          chp_selection_dropped_before_projection =
            (dropped > 0 \<and> from_seq = None \<and> to_seq = None \<and> n > length entries),
          chp_selection_truncated_by_retention = truncated\<rparr>)"

definition history_projection :: "command_history_state \<Rightarrow> nat \<Rightarrow> u64 \<Rightarrow> command_history_projection" where
  "history_projection s n dropped = projection_for_selection s n None None dropped"

definition history_projection_range ::
  "command_history_state \<Rightarrow> u64 option \<Rightarrow> u64 option \<Rightarrow> u64 \<Rightarrow> command_history_projection" where
  "history_projection_range s from_seq to_seq dropped =
     projection_for_selection s usize_max from_seq to_seq dropped"

interpretation history: exact_event_log che_sequence chs_next_sequence chs_entries
  "history_record code_text status_of" "history_entry code_text status_of" HISTORY_LIMIT
  for code_text :: "error_code \<Rightarrow> string"
    and status_of :: "'n json \<Rightarrow> interaction_confirmation_status option"
proof unfold_locales
  fix i :: "'n ipc_request \<times> 'n ipc_response" and n and s
  show "che_sequence (history_entry code_text status_of i n) = n"
    by (simp add: history_entry_def split: prod.split)
  show "0 < HISTORY_LIMIT" by (simp add: HISTORY_LIMIT_def)
  show "\<exists>d. chs_entries (history_record code_text status_of i s) =
      drop d (chs_entries s @ [history_entry code_text status_of i (max (chs_next_sequence s) 1)])"
    by (rule exI [of _ "Suc (length (chs_entries s)) - HISTORY_LIMIT"])
      (simp add: history_record_def Let_def pop_front_to_drop)
qed (auto simp: history_record_def Let_def pop_front_to_drop)

lemma history_entries_run:
  assumes "length rrs < 2 ^ 64 - 1"
  shows "chs_entries (fold (history_record code_text status_of) rrs command_history_default) =
    map (\<lambda>j. history_entry code_text status_of (rrs ! j) (of_nat (Suc j)))
      [length rrs - HISTORY_LIMIT..<length rrs]"
proof -
  have "chs_entries (fold (history_record code_text status_of) rrs command_history_default) =
      drop (length rrs - HISTORY_LIMIT)
        (map (\<lambda>j. history_entry code_text status_of (rrs ! j) (of_nat (Suc j))) [0..<length rrs])"
    using assms by (intro history.entries_run) (simp_all add: command_history_default_def)
  then show ?thesis by (simp add: drop_map drop_upt)
qed

lemma unat_seq: "Suc j < 2 ^ 64 \<Longrightarrow> unat (of_nat (Suc j) :: u64) = Suc j"
  by (simp only: unat_of_nat) simp

lemma history_entry_sequence [simp]: "che_sequence (history_entry code_text status_of rr n) = n"
  by (rule history.seq_mk)

text \<open>
  The history is exact: after any sequence of commands, the projection of the last \<open>n\<close> returns
  precisely the last commands that are still retained (at most 64), each under its position in the
  session counted from 1; it reports how many were forgotten, and it reports truncation exactly
  when it returns fewer commands than the selection asked for and the session ran.
\<close>

theorem history_projection_exact:
  assumes "length rrs < 2 ^ 64 - 1"
    and "s = fold (history_record code_text status_of) rrs command_history_default"
  shows "let p = history_projection s n dropped; m = length rrs; k = min n (min m 64) in
    chp_entries p = map (\<lambda>j. history_entry code_text status_of (rrs ! j) (of_nat (Suc j))) [m - k..<m] \<and>
    unat (chp_dropped_before_retention p) = m - 64 \<and>
    (chp_selection_truncated_by_retention p \<longleftrightarrow> length (chp_entries p) < min n m)"
proof -
  let ?m = "length rrs" and ?mk = "\<lambda>j. history_entry code_text status_of (rrs ! j) (of_nat (Suc j))"
  have E: "chs_entries s = map ?mk [?m - 64..<?m]"
    using history_entries_run [OF assms(1)] by (simp add: assms(2) HISTORY_LIMIT_def)
  have entries: "chp_entries (history_projection s n dropped) = map ?mk [?m - min n (min ?m 64)..<?m]"
    unfolding history_projection_def projection_for_selection_def Let_def E
    by (simp add: take_last_drop drop_map drop_upt min_def)
  have oldest: "unat (chp_dropped_before_retention (history_projection s n dropped)) = ?m - 64"
  proof (cases "rrs = []")
    case True
    then show ?thesis
      unfolding history_projection_def projection_for_selection_def Let_def E by (simp add: deque_front_def)
  next
    case False
    then have "deque_front (chs_entries s) = Some (?mk (?m - 64))"
      unfolding E deque_front_def by (simp add: upt_conv_Cons)
    then have "chp_dropped_before_retention (history_projection s n dropped)
        = saturating_sub (of_nat (Suc (?m - 64))) 1"
      by (simp add: history_projection_def projection_for_selection_def Let_def)
    moreover have "unat (of_nat (Suc (?m - 64)) :: u64) = Suc (?m - 64)"
      using assms(1) by (intro unat_seq) simp
    ultimately show ?thesis by (simp only: unat_saturating_sub) simp
  qed
  moreover have "chp_selection_truncated_by_retention (history_projection s n dropped) \<longleftrightarrow>
      chp_dropped_before_retention (history_projection s n dropped) \<noteq> 0
      \<and> n > length (chp_entries (history_projection s n dropped))"
    by (simp add: history_projection_def projection_for_selection_def Let_def)
  moreover have "chp_dropped_before_retention (history_projection s n dropped) \<noteq> 0 \<longleftrightarrow> ?m > 64"
    using oldest unat_eq_zero [of "chp_dropped_before_retention (history_projection s n dropped)"]
    by auto
  ultimately show ?thesis unfolding Let_def entries by auto
qed

theorem history_projection_exact_witness:
  "let rr = (ipc_request_new ''u'' ''doctor'' JNull 1 :: nat ipc_request, ipc_response_success ''r'' JNull);
       s = fold (history_record (\<lambda>_. ''E'') (\<lambda>_. None)) [rr, rr, rr] command_history_default
   in map che_sequence (chp_entries (history_projection s 2 0)) = [2, 3]"
proof -
  let ?rr = "(ipc_request_new ''u'' ''doctor'' JNull 1 :: nat ipc_request, ipc_response_success ''r'' JNull)"
  have "length [?rr, ?rr, ?rr] < 2 ^ 64 - 1" by simp
  from history_projection_exact [OF this refl, of "\<lambda>_. ''E''" "\<lambda>_. None" 2 0]
  show ?thesis by (simp add: Let_def upt_rec numeral_2_eq_2 numeral_3_eq_3)
qed

text \<open>
  A range query never hides what it has, and never hides that something is gone: it returns
  exactly the retained commands whose position lies in the range, and when it does not report
  truncation these are all the commands the session ever ran at those positions.
\<close>

theorem history_range_complete:
  assumes "length rrs < 2 ^ 64 - 1"
    and "s = fold (history_record code_text status_of) rrs command_history_default"
    and "from_seq \<noteq> None \<or> to_seq \<noteq> None"
    and "p = history_projection_range s from_seq to_seq dropped"
  shows "chp_entries p = filter (\<lambda>e. matches_history_range (che_sequence e) from_seq to_seq)
      (map (\<lambda>j. history_entry code_text status_of (rrs ! j) (of_nat (Suc j)))
        [length rrs - 64..<length rrs]) \<and>
    (\<not> chp_selection_truncated_by_retention p \<longrightarrow>
       chp_entries p = filter (\<lambda>e. matches_history_range (che_sequence e) from_seq to_seq)
         (map (\<lambda>j. history_entry code_text status_of (rrs ! j) (of_nat (Suc j))) [0..<length rrs]))"
proof -
  let ?m = "length rrs" and ?mk = "\<lambda>j. history_entry code_text status_of (rrs ! j) (of_nat (Suc j))"
  let ?match = "\<lambda>e. matches_history_range (che_sequence e) from_seq to_seq"
  have E: "chs_entries s = map ?mk [?m - 64..<?m]"
    using history_entries_run [OF assms(1)] by (simp add: assms(2) HISTORY_LIMIT_def)
  have p: "chp_entries p = filter ?match (map ?mk [?m - 64..<?m])"
    unfolding assms(4) history_projection_range_def projection_for_selection_def Let_def E
    using assms(3) by auto
  have "filter ?match (map ?mk [0..<?m - 64]) = []" if "\<not> chp_selection_truncated_by_retention p"
  proof (cases "?m \<le> 64")
    case False
    then have front: "deque_front (chs_entries s) = Some (?mk (?m - 64))"
      unfolding E deque_front_def by (simp add: upt_conv_Cons)
    have u: "unat (of_nat (Suc (?m - 64)) :: u64) = Suc (?m - 64)"
      using assms(1) by (intro unat_seq) simp
    have "unat (saturating_sub (of_nat (Suc (?m - 64)) :: u64) 1) \<noteq> 0"
      using False by (simp only: unat_saturating_sub u) simp
    then have "saturating_sub (of_nat (Suc (?m - 64)) :: u64) 1 \<noteq> 0" by auto
    then have start: "(case from_seq of Some a \<Rightarrow> a | None \<Rightarrow> 1) \<ge> (of_nat (Suc (?m - 64)) :: u64)"
      using that front assms(3) unfolding assms(4) history_projection_range_def
        projection_for_selection_def Let_def by (auto simp: not_less)
    have "\<not> ?match (?mk j)" if j: "j < ?m - 64" for j
    proof -
      have uj: "unat (of_nat (Suc j) :: u64) = Suc j" using assms(1) j by (intro unat_seq) simp
      have "unat (of_nat (Suc (?m - 64)) :: u64) \<le> unat (case from_seq of Some a \<Rightarrow> a | None \<Rightarrow> 1)"
        using start by (simp add: word_le_nat_alt)
      then have "Suc (?m - 64) \<le> unat (case from_seq of Some a \<Rightarrow> a | None \<Rightarrow> 1)"
        by (simp only: u)
      moreover have "Suc (?m - 64) > 1" using False by simp
      ultimately obtain a where a: "from_seq = Some a" "Suc (?m - 64) \<le> unat a"
        by (cases from_seq) auto
      then have "of_nat (Suc j) < a" using j by (simp only: word_less_nat_alt uj)
      with a show ?thesis by (simp add: matches_history_range_def)
    qed
    then show ?thesis by (simp add: filter_empty_conv)
  qed simp
  moreover have "[0..<?m] = [0..<?m - 64] @ [?m - 64..<?m]"
    using upt_add_eq_append [of 0 "?m - 64" "?m - (?m - 64)"] by simp
  ultimately show ?thesis using p by simp
qed

theorem history_range_complete_witness:
  "let rr = (ipc_request_new ''u'' ''doctor'' JNull 1 :: nat ipc_request, ipc_response_success ''r'' JNull);
       s = fold (history_record (\<lambda>_. ''E'') (\<lambda>_. None)) [rr, rr, rr] command_history_default
   in map che_sequence (chp_entries (history_projection_range s (Some 2) None 0)) = [2, 3]"
proof -
  let ?rr = "(ipc_request_new ''u'' ''doctor'' JNull 1 :: nat ipc_request, ipc_response_success ''r'' JNull)"
  have "length [?rr, ?rr, ?rr] < 2 ^ 64 - 1" by simp
  note range = history_range_complete [OF this refl _ refl, of "Some 2" None "\<lambda>_. ''E''" "\<lambda>_. None" 0]
  have upt: "[length [?rr, ?rr, ?rr] - 64..<length [?rr, ?rr, ?rr]] = [0, Suc 0, Suc (Suc 0)]"
    by (simp add: upt_rec)
  show ?thesis
    using range unfolding upt Let_def by (simp add: matches_history_range_def)
qed

section \<open>Workflow capture\<close>

definition WORKFLOW_CAPTURE_LIMIT :: nat where
  "WORKFLOW_CAPTURE_LIMIT = 128"

definition WORKFLOW_CAPTURE_LIMIT_BYTES :: nat where
  "WORKFLOW_CAPTURE_LIMIT_BYTES = MAX_FRAME_BYTES * 4"

datatype workflow_capture_delivery_state = Delivered | DeliveryFailedAfterCommit

record 'n workflow_capture_entry =
  wce_sequence :: u64
  wce_command :: string
  wce_request_id :: string
  wce_command_id :: "string option"
  wce_args :: "'n json"
  wce_capture_class :: workflow_capture_class
  wce_workflow_allowed :: bool
  wce_delivery_state :: workflow_capture_delivery_state
  wce_timing :: timing

record 'n workflow_capture_projection =
  wcp_entries :: "'n workflow_capture_entry list"
  wcp_oldest_retained_sequence :: "u64 option"
  wcp_newest_retained_sequence :: "u64 option"
  wcp_dropped_before_retention :: u64
  wcp_dropped_before_projection :: u64

record 'n workflow_capture_stored_entry =
  wcs_entry :: "'n workflow_capture_entry"
  wcs_approx_bytes :: nat

record 'n workflow_capture_state =
  wc_next_sequence :: u64
  wc_total_bytes :: nat
  wc_entries :: "'n workflow_capture_stored_entry list"

definition workflow_capture_default :: "'n workflow_capture_state" where
  "workflow_capture_default = \<lparr>wc_next_sequence = 0, wc_total_bytes = 0, wc_entries = []\<rparr>"

fun trim_workflow_capture_with_limits ::
  "nat \<Rightarrow> nat \<Rightarrow> nat \<Rightarrow> 'n workflow_capture_stored_entry list
     \<Rightarrow> nat \<times> 'n workflow_capture_stored_entry list" where
  "trim_workflow_capture_with_limits max_entries max_bytes total_bytes [] = (total_bytes, [])"
| "trim_workflow_capture_with_limits max_entries max_bytes total_bytes (evicted # rest) =
     (if length (evicted # rest) > max_entries
         \<or> (total_bytes > max_bytes \<and> length (evicted # rest) > 1)
      then trim_workflow_capture_with_limits max_entries max_bytes
        (total_bytes - wcs_approx_bytes evicted) rest
      else (total_bytes, evicted # rest))"

text \<open>The entry a successful command gets, and its append with the byte account.\<close>

definition capture_entry ::
  "'n ipc_request \<times> 'n ipc_response \<times> workflow_capture_delivery_state \<Rightarrow> u64
     \<Rightarrow> 'n workflow_capture_entry" where
  "capture_entry rrd sequence =
     (let (request, response, delivery_state) = rrd in
      \<lparr>wce_sequence = sequence, wce_command = req_command request,
       wce_request_id = res_request_id response, wce_command_id = res_command_id response,
       wce_args = req_args request,
       wce_capture_class = workflow_request_capture_class (req_command request) (req_args request),
       wce_workflow_allowed = workflow_request_allowed (req_command request) (req_args request),
       wce_delivery_state = delivery_state, wce_timing = res_timing response\<rparr>)"

definition capture_stored ::
  "('n workflow_capture_entry \<Rightarrow> nat)
     \<Rightarrow> 'n ipc_request \<times> 'n ipc_response \<times> workflow_capture_delivery_state \<Rightarrow> u64
     \<Rightarrow> 'n workflow_capture_stored_entry" where
  "capture_stored len rrd sequence =
     \<lparr>wcs_entry = capture_entry rrd sequence, wcs_approx_bytes = len (capture_entry rrd sequence)\<rparr>"

definition capture_append ::
  "('n workflow_capture_entry \<Rightarrow> nat)
     \<Rightarrow> 'n ipc_request \<times> 'n ipc_response \<times> workflow_capture_delivery_state
     \<Rightarrow> 'n workflow_capture_state \<Rightarrow> 'n workflow_capture_state" where
  "capture_append len rrd s =
     (let sequence = max (wc_next_sequence s) 1;
          stored = capture_stored len rrd sequence;
          (total_bytes, entries) = trim_workflow_capture_with_limits WORKFLOW_CAPTURE_LIMIT
            WORKFLOW_CAPTURE_LIMIT_BYTES
            (usize_saturating_add (wc_total_bytes s) (wcs_approx_bytes stored))
            (wc_entries s @ [stored])
      in \<lparr>wc_next_sequence = sequence + 1, wc_total_bytes = total_bytes, wc_entries = entries\<rparr>)"

definition workflow_capture_record ::
  "('n workflow_capture_entry \<Rightarrow> nat)
     \<Rightarrow> 'n ipc_request \<times> 'n ipc_response \<times> workflow_capture_delivery_state
     \<Rightarrow> 'n workflow_capture_state \<Rightarrow> 'n workflow_capture_state" where
  "workflow_capture_record len rrd s =
     (if res_status (fst (snd rrd)) \<noteq> Success then s else capture_append len rrd s)"

definition workflow_capture_projection_of ::
  "'n workflow_capture_state \<Rightarrow> nat \<Rightarrow> u64 \<Rightarrow> 'n workflow_capture_projection" where
  "workflow_capture_projection_of s n dropped =
     (let count = length (wc_entries s);
          entries = map wcs_entry (take_last (min n count) (wc_entries s));
          oldest = map_option (\<lambda>e. wce_sequence (wcs_entry e)) (deque_front (wc_entries s));
          newest = map_option (\<lambda>e. wce_sequence (wcs_entry e)) (deque_back (wc_entries s))
      in \<lparr>wcp_entries = entries, wcp_oldest_retained_sequence = oldest,
          wcp_newest_retained_sequence = newest,
          wcp_dropped_before_retention =
            (case oldest of Some sequence \<Rightarrow> saturating_sub sequence 1 | None \<Rightarrow> 0),
          wcp_dropped_before_projection = dropped\<rparr>)"

lemma trim_workflow_capture_drop:
  "\<exists>d. snd (trim_workflow_capture_with_limits n b t xs) = drop d xs"
proof (induction n b t xs rule: trim_workflow_capture_with_limits.induct)
  case (2 n b t x xs)
  show ?case
  proof (cases "length (x # xs) > n \<or> (t > b \<and> length (x # xs) > 1)")
    case True
    with 2 obtain d where "snd (trim_workflow_capture_with_limits n b (t - wcs_approx_bytes x) xs) = drop d xs"
      by blast
    with True show ?thesis by (intro exI [of _ "Suc d"]) auto
  next
    case False
    then show ?thesis by (intro exI [of _ 0]) auto
  qed
qed simp

lemma trim_workflow_capture_bounds:
  assumes "t = (\<Sum>x\<leftarrow>xs. wcs_approx_bytes x)" and "0 < n"
  shows "length (snd (trim_workflow_capture_with_limits n b t xs)) \<le> n
    \<and> fst (trim_workflow_capture_with_limits n b t xs)
        = (\<Sum>x\<leftarrow>snd (trim_workflow_capture_with_limits n b t xs). wcs_approx_bytes x)
    \<and> (fst (trim_workflow_capture_with_limits n b t xs) \<le> b
       \<or> length (snd (trim_workflow_capture_with_limits n b t xs)) = 1)
    \<and> (xs \<noteq> [] \<longrightarrow> snd (trim_workflow_capture_with_limits n b t xs) \<noteq> [])"
  using assms
  by (induction n b t xs rule: trim_workflow_capture_with_limits.induct) (auto simp: not_less)

lemma trim_workflow_capture_length:
  "length (snd (trim_workflow_capture_with_limits n b t xs)) \<le> n"
  by (induction n b t xs rule: trim_workflow_capture_with_limits.induct) auto

lemma capture_append_simps:
  "wc_next_sequence (capture_append len i s) = max (wc_next_sequence s) 1 + 1"
  "wc_entries (capture_append len i s) = snd (trim_workflow_capture_with_limits
     WORKFLOW_CAPTURE_LIMIT WORKFLOW_CAPTURE_LIMIT_BYTES
     (usize_saturating_add (wc_total_bytes s)
       (wcs_approx_bytes (capture_stored len i (max (wc_next_sequence s) 1))))
     (wc_entries s @ [capture_stored len i (max (wc_next_sequence s) 1)]))"
  "wc_total_bytes (capture_append len i s) = fst (trim_workflow_capture_with_limits
     WORKFLOW_CAPTURE_LIMIT WORKFLOW_CAPTURE_LIMIT_BYTES
     (usize_saturating_add (wc_total_bytes s)
       (wcs_approx_bytes (capture_stored len i (max (wc_next_sequence s) 1))))
     (wc_entries s @ [capture_stored len i (max (wc_next_sequence s) 1)]))"
  by (simp_all add: capture_append_def Let_def case_prod_beta)

interpretation capture: event_log "\<lambda>e. wce_sequence (wcs_entry e)" wc_next_sequence wc_entries
  "capture_append len" "capture_stored len" WORKFLOW_CAPTURE_LIMIT
  for len :: "'n workflow_capture_entry \<Rightarrow> nat"
proof unfold_locales
  fix i :: "'n ipc_request \<times> 'n ipc_response \<times> workflow_capture_delivery_state" and n s
  show "wce_sequence (wcs_entry (capture_stored len i n)) = n"
    by (simp add: capture_stored_def capture_entry_def split: prod.split)
  show "wc_next_sequence (capture_append len i s) = max (wc_next_sequence s) 1 + 1"
    by (rule capture_append_simps)
  show "\<exists>d. wc_entries (capture_append len i s) =
      drop d (wc_entries s @ [capture_stored len i (max (wc_next_sequence s) 1)])"
    unfolding capture_append_simps by (rule trim_workflow_capture_drop)
  show "length (wc_entries (capture_append len i s)) \<le> WORKFLOW_CAPTURE_LIMIT"
    unfolding capture_append_simps by (rule trim_workflow_capture_length)
qed

text \<open>The byte account of the capture: exact, and within four frames unless one entry is larger.\<close>

definition capture_ok :: "'n workflow_capture_state \<Rightarrow> bool" where
  "capture_ok s \<longleftrightarrow> wc_total_bytes s = (\<Sum>e\<leftarrow>wc_entries s. wcs_approx_bytes e)
     \<and> (wc_total_bytes s \<le> WORKFLOW_CAPTURE_LIMIT_BYTES \<or> length (wc_entries s) = 1)
     \<and> (\<forall>e\<in>set (wc_entries s). wcs_approx_bytes e \<le> 2 ^ 63 - 1)"

lemma capture_ok_append:
  assumes "capture_ok s" and "\<And>e. len e \<le> 2 ^ 63 - 1"
  shows "capture_ok (capture_append len i s)"
proof -
  let ?x = "capture_stored len i (max (wc_next_sequence s) 1)"
  have x: "wcs_approx_bytes ?x \<le> 2 ^ 63 - 1" using assms(2) by (simp add: capture_stored_def)
  have "wc_total_bytes s \<le> 2 ^ 63 - 1"
  proof (cases "length (wc_entries s) = 1")
    case True
    then obtain e where "wc_entries s = [e]" by (metis One_nat_def Suc_length_conv length_0_conv)
    with assms(1) show ?thesis by (simp add: capture_ok_def)
  next
    case False
    with assms(1) show ?thesis
      by (simp add: capture_ok_def WORKFLOW_CAPTURE_LIMIT_BYTES_def MAX_FRAME_BYTES_def)
  qed
  with x have "usize_saturating_add (wc_total_bytes s) (wcs_approx_bytes ?x)
      = (\<Sum>e\<leftarrow>wc_entries s @ [?x]. wcs_approx_bytes e)"
    using assms(1) by (simp add: capture_ok_def usize_saturating_add_def usize_max_def)
  from trim_workflow_capture_bounds [OF this, of WORKFLOW_CAPTURE_LIMIT WORKFLOW_CAPTURE_LIMIT_BYTES]
  have "wc_total_bytes (capture_append len i s) = (\<Sum>e\<leftarrow>wc_entries (capture_append len i s). wcs_approx_bytes e)
      \<and> (wc_total_bytes (capture_append len i s) \<le> WORKFLOW_CAPTURE_LIMIT_BYTES
         \<or> length (wc_entries (capture_append len i s)) = 1)"
    unfolding capture_append_simps by (auto simp: WORKFLOW_CAPTURE_LIMIT_def)
  moreover have "set (wc_entries (capture_append len i s)) \<subseteq> set (wc_entries s @ [?x])"
    using capture.entries_push [of len i s] by (metis set_drop_subset)
  then have "\<forall>e\<in>set (wc_entries (capture_append len i s)). wcs_approx_bytes e \<le> 2 ^ 63 - 1"
    using assms(1) x by (auto simp: capture_ok_def)
  ultimately show ?thesis unfolding capture_ok_def by blast
qed

lemma capture_record_filter:
  "fold (workflow_capture_record len) rrds s =
     fold (capture_append len) (filter (\<lambda>rrd. res_status (fst (snd rrd)) = Success) rrds) s"
  by (induction rrds arbitrary: s) (auto simp: workflow_capture_record_def)

lemma capture_ok_run:
  "(\<And>e. len e \<le> 2 ^ 63 - 1) \<Longrightarrow> capture_ok s \<Longrightarrow> capture_ok (fold (capture_append len) is s)"
  by (induction "is" arbitrary: s) (simp_all add: capture_ok_append)

text \<open>
  The workflow capture records the successful commands and nothing else: after any sequence
  of commands, the retained entries carry consecutive numbers that end at the number of successful
  commands, the reported loss is the number of those no longer retained, at most 128 are kept, and
  the byte account is the exact sum, within four frames unless a single entry is larger.
\<close>

theorem workflow_capture_exact:
  fixes rrds :: "('n ipc_request \<times> 'n ipc_response \<times> workflow_capture_delivery_state) list"
  assumes "\<And>e. len e \<le> 2 ^ 63 - 1"
    and "m = length (filter (\<lambda>rrd. res_status (fst (snd rrd)) = Success) rrds)" and "m < 2 ^ 64 - 1"
    and "s = fold (workflow_capture_record len) rrds workflow_capture_default"
  shows "map (\<lambda>e. unat (wce_sequence (wcs_entry e))) (wc_entries s) =
      [m - length (wc_entries s) + 1..<m + 1] \<and>
    length (wc_entries s) \<le> 128 \<and> (wc_entries s = [] \<longleftrightarrow> m = 0) \<and>
    unat (wcp_dropped_before_retention (workflow_capture_projection_of s n d)) = m - length (wc_entries s) \<and>
    wc_total_bytes s = (\<Sum>e\<leftarrow>wc_entries s. wcs_approx_bytes e) \<and>
    (wc_total_bytes s \<le> 4 * MAX_FRAME_BYTES \<or> length (wc_entries s) = 1)"
proof -
  let ?is = "filter (\<lambda>rrd. res_status (fst (snd rrd)) = Success) rrds"
  let ?seq = "\<lambda>e. wce_sequence (wcs_entry e)"
  have s: "s = fold (capture_append len) ?is workflow_capture_default"
    by (simp add: assms(4) capture_record_filter)
  have d: "wc_entries (workflow_capture_default :: 'n workflow_capture_state) = []"
    "unat (wc_next_sequence (workflow_capture_default :: 'n workflow_capture_state)) \<le> 1"
    by (simp_all add: workflow_capture_default_def)
  have ok: "capture_ok s"
    unfolding s by (rule capture_ok_run [OF assms(1)])
      (simp add: capture_ok_def workflow_capture_default_def)
  have bound: "length (wc_entries s) \<le> 128"
    using capture.bound_run [of workflow_capture_default len ?is] d
    by (simp add: s WORKFLOW_CAPTURE_LIMIT_def)
  have empty: "wc_entries s = [] \<longleftrightarrow> m = 0"
  proof (cases ?is rule: rev_cases)
    case Nil
    then show ?thesis using d assms(2) by (simp add: s)
  next
    case (snoc is' i)
    let ?t = "fold (capture_append len) is' workflow_capture_default"
    have "wc_entries (capture_append len i ?t) \<noteq> []"
    proof -
      have ne: "snd (trim_workflow_capture_with_limits p b t xs) \<noteq> []" if "xs \<noteq> []" "0 < p" for p b t
        and xs :: "'n workflow_capture_stored_entry list"
        using that
      proof (induction p b t xs rule: trim_workflow_capture_with_limits.induct)
        case (2 p b t y ys)
        then show ?case by (cases ys) auto
      qed simp
      show ?thesis unfolding capture_append_simps by (rule ne) (simp_all add: WORKFLOW_CAPTURE_LIMIT_def)
    qed
    with snoc show ?thesis by (simp add: s assms(2))
  qed
  have window: "map (\<lambda>e. unat (?seq e)) (wc_entries s) = [m - length (wc_entries s) + 1..<m + 1]
      \<and> unat (wcp_dropped_before_retention (workflow_capture_projection_of s n d')) = m - length (wc_entries s)"
    for d'
  proof (cases "wc_entries s = []")
    case True
    with empty show ?thesis by (simp add: workflow_capture_projection_of_def Let_def deque_front_def)
  next
    case False
    have w: "seq_window (wc_next_sequence s) (map ?seq (wc_entries s))"
      unfolding s by (rule capture.window_run) (use d assms(2,3) in auto)
    note nr = capture.newest_run [OF d, of ?is len, folded s]
    have last: "unat (?seq (last (wc_entries s))) = m" and hd: "unat (?seq (hd (wc_entries s))) + length (wc_entries s) = Suc m"
      using nr assms(2,3) False by auto
    have "unat (wc_next_sequence s) = Suc m"
      using seq_window_last [OF w] False last by (simp add: last_map)
    with w have "map unat (map ?seq (wc_entries s)) = [Suc m - length (wc_entries s)..<Suc m]"
      and le: "length (wc_entries s) \<le> m"
      by (simp_all add: seq_window_def del: upt_Suc)
    moreover have "deque_front (wc_entries s) = Some (hd (wc_entries s))"
      using False by (cases "wc_entries s") (auto simp: deque_front_def)
    then have "unat (wcp_dropped_before_retention (workflow_capture_projection_of s n d')) = m - length (wc_entries s)"
      using hd by (simp add: workflow_capture_projection_of_def Let_def unat_saturating_sub)
    ultimately show ?thesis using le by (simp add: comp_def Suc_diff_le del: upt_Suc)
  qed
  then show ?thesis
    using ok bound empty by (auto simp: capture_ok_def WORKFLOW_CAPTURE_LIMIT_BYTES_def)
qed

theorem workflow_capture_exact_witness:
  "let ok = (ipc_request_new ''u'' ''doctor'' JNull 1 :: nat ipc_request, ipc_response_success ''r'' JNull, Delivered);
       bad = (ipc_request_new ''u'' ''doctor'' JNull 1 :: nat ipc_request,
              ipc_response_error ''r'' (error_envelope_new IoError ''x''), Delivered);
       s = fold (workflow_capture_record (\<lambda>_. 9)) [ok, bad, ok] workflow_capture_default
   in wc_entries s \<noteq> [] \<and> length (wc_entries s) \<le> 128"
proof -
  let ?ok = "(ipc_request_new ''u'' ''doctor'' JNull 1 :: nat ipc_request, ipc_response_success ''r'' JNull, Delivered)"
  let ?bad = "(ipc_request_new ''u'' ''doctor'' JNull 1 :: nat ipc_request,
    ipc_response_error ''r'' (error_envelope_new IoError ''x''), Delivered)"
  let ?rrds = "[?ok, ?bad, ?ok]"
  have len: "\<And>e :: nat workflow_capture_entry. (\<lambda>_. 9 :: nat) e \<le> 2 ^ 63 - 1" by simp
  have m: "2 = length (filter (\<lambda>rrd. res_status (fst (snd rrd)) = Success) ?rrds)"
    by (simp add: ipc_response_success_def ipc_response_error_def)
  show ?thesis
    using workflow_capture_exact [where len = "\<lambda>_. 9", OF len m _ refl] by (simp add: Let_def)
qed

end
