(* ===== verification/Rub_Post_Commit.thy ===== *)
theory Rub_Post_Commit
  imports Rub_Replay Rub_History "HOL-Library.Multiset" "HOL-Library.Sublist"
begin

text \<open>
  The queue of post-commit projections (session/cache.rs) and its submission after a committed
  response (router/transaction/response.rs): a committed command is queued, and drains move the
  queue into the command history and the workflow capture.

  Several drains may run at once: tasks spawned after a delivery, and direct drains of readers of
  the history and of synchronous commits. \<open>pcs_spawned\<close> counts tasks not yet started, \<open>pcs_waiting\<close>
  lists the drains that wait for the drain mutex, \<open>pcs_holder\<close> is the one that has it with its
  position in the loop, and \<open>pcs_ready\<close> counts committers between their submission and their
  wake-up. Every operation is one atomic move. A direct drain runs inside the timeout of its
  request, which can drop it wherever it awaits a lock: \<open>CancelWaiting\<close> and \<open>CancelHolder\<close>.
  \<open>pcs_submitted\<close>, \<open>pcs_recorded\<close>, \<open>pcs_captured\<close>, \<open>pcs_evicted\<close>, \<open>pcs_lost\<close> and \<open>pcs_half\<close> are the
  history of the run and are never read.
\<close>

section \<open>The queue\<close>

record 'n post_commit_projection =
  pcp_request :: "'n ipc_request"
  pcp_response :: "'n ipc_response"
  pcp_workflow_capture_response :: "'n ipc_response"
  pcp_workflow_capture_delivery_state :: workflow_capture_delivery_state
  pcp_approx_bytes :: nat

record 'n post_commit_projection_queue =
  pcq_entries :: "'n post_commit_projection list"
  pcq_total_bytes :: nat
  pcq_dropped_before_projection :: u64

text \<open>What the operations use of code outside this theory: the text of an error code, the decoding
  of a confirmation status, the lengths of JSON texts (\<open>None\<close> where serialisation fails), and the
  redaction of a request.\<close>

record 'n projection_env =
  pe_code_text :: "error_code \<Rightarrow> string"
  pe_status_of :: "'n json \<Rightarrow> interaction_confirmation_status option"
  pe_capture_len :: "'n workflow_capture_entry \<Rightarrow> nat"
  pe_request_len :: "'n ipc_request \<Rightarrow> nat option"
  pe_response_len :: "'n ipc_response \<Rightarrow> nat option"
  pe_redact :: "'n ipc_request \<Rightarrow> 'n ipc_request"

definition serialized_len :: "nat option \<Rightarrow> nat" where
  "serialized_len bytes = (case bytes of Some n \<Rightarrow> n | None \<Rightarrow> MAX_FRAME_BYTES)"

definition post_commit_projection_bytes ::
  "'n projection_env \<Rightarrow> 'n ipc_request \<Rightarrow> 'n ipc_response \<Rightarrow> 'n ipc_response \<Rightarrow> nat" where
  "post_commit_projection_bytes env request response workflow_capture_response =
     usize_saturating_add
       (usize_saturating_add (serialized_len (pe_request_len env request))
         (serialized_len (pe_response_len env response)))
       (serialized_len (pe_response_len env workflow_capture_response))"

fun trim_projection_entries ::
  "nat \<Rightarrow> nat \<Rightarrow> 'n post_commit_projection list \<Rightarrow> nat \<Rightarrow> u64
   \<Rightarrow> 'n post_commit_projection list \<times> nat \<times> u64" where
  "trim_projection_entries max_entries max_bytes [] total_bytes dropped = ([], total_bytes, dropped)"
| "trim_projection_entries max_entries max_bytes (evicted # entries) total_bytes dropped =
     (if length (evicted # entries) > max_entries \<or>
         (total_bytes > max_bytes \<and> length (evicted # entries) > 1)
      then trim_projection_entries max_entries max_bytes entries
             (total_bytes - pcp_approx_bytes evicted) (saturating_add dropped 1)
      else (evicted # entries, total_bytes, dropped))"

definition trim_post_commit_projection_queue_with_limits ::
  "nat \<Rightarrow> nat \<Rightarrow> 'n post_commit_projection_queue \<Rightarrow> 'n post_commit_projection_queue" where
  "trim_post_commit_projection_queue_with_limits max_entries max_bytes q =
     (let (entries, total_bytes, dropped) = trim_projection_entries max_entries max_bytes
            (pcq_entries q) (pcq_total_bytes q) (pcq_dropped_before_projection q)
      in \<lparr>pcq_entries = entries, pcq_total_bytes = total_bytes,
          pcq_dropped_before_projection = dropped\<rparr>)"

definition trim_post_commit_projection_queue ::
  "'n post_commit_projection_queue \<Rightarrow> 'n post_commit_projection_queue" where
  "trim_post_commit_projection_queue =
     trim_post_commit_projection_queue_with_limits POST_COMMIT_PROJECTION_LIMIT
       POST_COMMIT_PROJECTION_LIMIT_BYTES"

section \<open>State\<close>

datatype drain_origin = SpawnedDrain | DirectDrain

datatype 'n drain_position =
    DrainHolding
  | DrainRecording "'n post_commit_projection"
  | DrainCapturing "'n post_commit_projection"
  | DrainEmptied
  | DrainStored
  | DrainRechecking

record 'n post_commit_state =
  pcs_queue :: "'n post_commit_projection_queue"
  pcs_drain_scheduled :: bool
  pcs_followup_count :: u32
  pcs_history :: command_history_state
  pcs_capture :: "'n workflow_capture_state"
  pcs_ready :: nat
  pcs_spawned :: nat
  pcs_waiting :: "drain_origin list"
  pcs_holder :: "(drain_origin \<times> 'n drain_position) option"
  pcs_submitted :: "'n post_commit_projection list"
  pcs_recorded :: "'n post_commit_projection list"
  pcs_captured :: "'n post_commit_projection list"
  pcs_evicted :: "'n post_commit_projection list"
  pcs_lost :: "'n post_commit_projection list"
  pcs_half :: "'n post_commit_projection list"

definition post_commit_default :: "'n post_commit_state" where
  "post_commit_default =
     \<lparr>pcs_queue = \<lparr>pcq_entries = [], pcq_total_bytes = 0, pcq_dropped_before_projection = 0\<rparr>,
      pcs_drain_scheduled = False, pcs_followup_count = 0, pcs_history = command_history_default,
      pcs_capture = workflow_capture_default, pcs_ready = 0, pcs_spawned = 0, pcs_waiting = [],
      pcs_holder = None, pcs_submitted = [], pcs_recorded = [], pcs_captured = [], pcs_evicted = [],
      pcs_lost = [], pcs_half = []\<rparr>"

definition pending_post_commit_projection_count :: "'n post_commit_state \<Rightarrow> nat" where
  "pending_post_commit_projection_count s = length (pcq_entries (pcs_queue s))"

definition post_commit_projection_drop_count :: "'n post_commit_state \<Rightarrow> u64" where
  "post_commit_projection_drop_count s = pcq_dropped_before_projection (pcs_queue s)"

section \<open>Operations\<close>

definition submit_post_commit_projection_with_capture ::
  "'n projection_env \<Rightarrow> 'n ipc_request \<Rightarrow> 'n ipc_response \<Rightarrow> 'n ipc_response
   \<Rightarrow> workflow_capture_delivery_state \<Rightarrow> 'n post_commit_state \<Rightarrow> 'n post_commit_state" where
  "submit_post_commit_projection_with_capture env request response workflow_capture_response
     delivery_state s =
     (let projection = \<lparr>pcp_request = request, pcp_response = response,
            pcp_workflow_capture_response = workflow_capture_response,
            pcp_workflow_capture_delivery_state = delivery_state,
            pcp_approx_bytes =
              post_commit_projection_bytes env request response workflow_capture_response\<rparr>;
          queue = (pcs_queue s)\<lparr>
            pcq_total_bytes := usize_saturating_add (pcq_total_bytes (pcs_queue s))
              (pcp_approx_bytes projection),
            pcq_entries := pcq_entries (pcs_queue s) @ [projection]\<rparr>;
          trimmed = trim_post_commit_projection_queue queue
      in s\<lparr>pcs_queue := trimmed, pcs_ready := pcs_ready s + 1,
           pcs_submitted := pcs_submitted s @ [projection],
           pcs_evicted := pcs_evicted s @
             take (length (pcq_entries queue) - length (pcq_entries trimmed)) (pcq_entries queue)\<rparr>)"

definition submit_post_commit_projection ::
  "'n projection_env \<Rightarrow> 'n ipc_request \<Rightarrow> 'n ipc_response \<Rightarrow> 'n post_commit_state
   \<Rightarrow> 'n post_commit_state" where
  "submit_post_commit_projection env request response =
     submit_post_commit_projection_with_capture env request response response Delivered"

text \<open>The wake-up of a committer: a task unless one is scheduled, or a drain of its own.\<close>

definition spawn_post_commit_projection_drain :: "'n post_commit_state \<Rightarrow> 'n post_commit_state" where
  "spawn_post_commit_projection_drain s =
     (if pcs_drain_scheduled s then s
      else s\<lparr>pcs_drain_scheduled := True, pcs_spawned := pcs_spawned s + 1\<rparr>)"

text \<open>A drain begins: its guard is counted, and it waits for the mutex.\<close>

definition drain_begin :: "drain_origin \<Rightarrow> 'n post_commit_state \<Rightarrow> 'n post_commit_state" where
  "drain_begin origin s =
     s\<lparr>pcs_followup_count := pcs_followup_count s + 1, pcs_waiting := pcs_waiting s @ [origin]\<rparr>"

text \<open>A drain ends, or is dropped: its guard is released.\<close>

definition drain_end :: "'n post_commit_state \<Rightarrow> 'n post_commit_state" where
  "drain_end s = s\<lparr>pcs_followup_count := pcs_followup_count s - 1, pcs_holder := None\<rparr>"

definition record_command_history ::
  "'n projection_env \<Rightarrow> 'n post_commit_projection \<Rightarrow> 'n post_commit_state \<Rightarrow> 'n post_commit_state" where
  "record_command_history env p s =
     s\<lparr>pcs_history := history_record (pe_code_text env) (pe_status_of env)
         (pcp_request p, pcp_response p) (pcs_history s),
       pcs_recorded := pcs_recorded s @ [p]\<rparr>"

definition record_workflow_capture_with_state ::
  "'n projection_env \<Rightarrow> 'n post_commit_projection \<Rightarrow> 'n post_commit_state \<Rightarrow> 'n post_commit_state" where
  "record_workflow_capture_with_state env p s =
     s\<lparr>pcs_capture := workflow_capture_record (pe_capture_len env)
         (pe_redact env (pcp_request p), pcp_workflow_capture_response p,
          pcp_workflow_capture_delivery_state p) (pcs_capture s),
       pcs_captured := pcs_captured s @ [p]\<rparr>"

text \<open>One move of the drain that holds the mutex.\<close>

definition drain_step ::
  "'n projection_env \<Rightarrow> drain_origin \<Rightarrow> 'n drain_position \<Rightarrow> 'n post_commit_state
   \<Rightarrow> 'n post_commit_state" where
  "drain_step env origin position s =
     (case position of
        DrainHolding \<Rightarrow>
          (case pcq_entries (pcs_queue s) of
             [] \<Rightarrow> s\<lparr>pcs_holder := Some (origin, DrainEmptied)\<rparr>
           | projection # entries \<Rightarrow>
               s\<lparr>pcs_queue := (pcs_queue s)\<lparr>pcq_entries := entries,
                    pcq_total_bytes := pcq_total_bytes (pcs_queue s) - pcp_approx_bytes projection\<rparr>,
                  pcs_holder := Some (origin, DrainRecording projection)\<rparr>)
      | DrainRecording projection \<Rightarrow>
          (record_command_history env projection s)
            \<lparr>pcs_holder := Some (origin, DrainCapturing projection)\<rparr>
      | DrainCapturing projection \<Rightarrow>
          (record_workflow_capture_with_state env projection s)
            \<lparr>pcs_holder := Some (origin, DrainHolding)\<rparr>
      | DrainEmptied \<Rightarrow>
          s\<lparr>pcs_drain_scheduled := False, pcs_holder := Some (origin, DrainStored)\<rparr>
      | DrainStored \<Rightarrow>
          if pcq_entries (pcs_queue s) = [] then drain_end s
          else s\<lparr>pcs_holder := Some (origin, DrainRechecking)\<rparr>
      | DrainRechecking \<Rightarrow>
          if pcs_drain_scheduled s then drain_end s
          else s\<lparr>pcs_drain_scheduled := True, pcs_holder := None,
                 pcs_waiting := pcs_waiting s @ [origin]\<rparr>)"

section \<open>Runs\<close>

datatype 'n post_commit_op =
    SubmitProjection "'n ipc_request" "'n ipc_response" "'n ipc_response" workflow_capture_delivery_state
  | SpawnDrain
  | DrainAfterSubmit
  | ReaderDrain
  | StartSpawned
  | AcquireDrain nat
  | DrainMove
  | CancelWaiting nat
  | CancelHolder

text \<open>The two moves of a committer, with its fence.\<close>

datatype post_commit_projection_fence = DetachedFence | SynchronousFence

definition finalize_post_commit_followups ::
  "'n ipc_request \<Rightarrow> 'n ipc_response \<Rightarrow> 'n ipc_response \<Rightarrow> workflow_capture_delivery_state
   \<Rightarrow> post_commit_projection_fence \<Rightarrow> 'n post_commit_op list" where
  "finalize_post_commit_followups request committed_response workflow_capture_response
     delivery_state fence =
     [SubmitProjection request committed_response workflow_capture_response delivery_state,
      case fence of DetachedFence \<Rightarrow> SpawnDrain | SynchronousFence \<Rightarrow> DrainAfterSubmit]"

definition remove_at :: "nat \<Rightarrow> 'a list \<Rightarrow> 'a list" where
  "remove_at i xs = take i xs @ drop (Suc i) xs"

fun run_post_commit_op ::
  "'n projection_env \<Rightarrow> 'n post_commit_op \<Rightarrow> 'n post_commit_state \<Rightarrow> 'n post_commit_state" where
  "run_post_commit_op env (SubmitProjection request response capture_response delivery) s =
     submit_post_commit_projection_with_capture env request response capture_response delivery s"
| "run_post_commit_op env SpawnDrain s =
     (if pcs_ready s = 0 then s
      else spawn_post_commit_projection_drain (s\<lparr>pcs_ready := pcs_ready s - 1\<rparr>))"
| "run_post_commit_op env DrainAfterSubmit s =
     (if pcs_ready s = 0 then s
      else drain_begin DirectDrain (s\<lparr>pcs_ready := pcs_ready s - 1\<rparr>))"
| "run_post_commit_op env ReaderDrain s = drain_begin DirectDrain s"
| "run_post_commit_op env StartSpawned s =
     (if pcs_spawned s = 0 then s
      else drain_begin SpawnedDrain (s\<lparr>pcs_spawned := pcs_spawned s - 1\<rparr>))"
| "run_post_commit_op env (AcquireDrain i) s =
     (if pcs_holder s = None \<and> i < length (pcs_waiting s)
      then s\<lparr>pcs_holder := Some (pcs_waiting s ! i, DrainHolding),
             pcs_waiting := remove_at i (pcs_waiting s)\<rparr>
      else s)"
| "run_post_commit_op env DrainMove s =
     (case pcs_holder s of
        Some (origin, position) \<Rightarrow> drain_step env origin position s
      | None \<Rightarrow> s)"
| "run_post_commit_op env (CancelWaiting i) s =
     (if i < length (pcs_waiting s) \<and> pcs_waiting s ! i = DirectDrain
      then s\<lparr>pcs_followup_count := pcs_followup_count s - 1,
             pcs_waiting := remove_at i (pcs_waiting s)\<rparr>
      else s)"
| "run_post_commit_op env CancelHolder s =
     (case pcs_holder s of
        Some (DirectDrain, DrainRecording projection) \<Rightarrow>
          drain_end (s\<lparr>pcs_lost := pcs_lost s @ [projection]\<rparr>)
      | Some (DirectDrain, DrainCapturing projection) \<Rightarrow>
          drain_end (s\<lparr>pcs_half := pcs_half s @ [projection]\<rparr>)
      | _ \<Rightarrow> s)"

abbreviation run_post_commit ::
  "'n projection_env \<Rightarrow> 'n post_commit_op list \<Rightarrow> 'n post_commit_state" where
  "run_post_commit env ops \<equiv> fold (run_post_commit_op env) ops post_commit_default"

fun is_cancellation :: "'n post_commit_op \<Rightarrow> bool" where
  "is_cancellation (CancelWaiting i) = True"
| "is_cancellation CancelHolder = True"
| "is_cancellation op = False"

section \<open>Trimming\<close>

lemma trim_projection_entries_drop:
  assumes "trim_projection_entries n b es t d = (es', t', d')"
    and "t = (\<Sum>p\<leftarrow>es. pcp_approx_bytes p)"
  shows "es' = drop (length es - length es') es \<and> length es' \<le> length es \<and>
    t' = (\<Sum>p\<leftarrow>es'. pcp_approx_bytes p) \<and> length es' \<le> n \<and> (t' \<le> b \<or> length es' \<le> 1) \<and>
    unat d' = min (unat d + (length es - length es')) (2 ^ 64 - 1)"
  using assms
proof (induction n b es t d rule: trim_projection_entries.induct)
  case (1 n b t d)
  then show ?case using unat_u64_bound [of d] by auto
next
  case (2 n b e es t d)
  show ?case
  proof (cases "length (e # es) > n \<or> (t > b \<and> length (e # es) > 1)")
    case True
    note ih = 2(1) [OF True]
    have r: "es' = drop (length es - length es') es" "length es' \<le> length es"
      "t' = (\<Sum>p\<leftarrow>es'. pcp_approx_bytes p)" "length es' \<le> n" "t' \<le> b \<or> length es' \<le> 1"
      "unat d' = min (unat (saturating_add d 1) + (length es - length es')) (2 ^ 64 - 1)"
      using ih 2(2,3) True by auto
    have "es' = drop (length (e # es) - length es') (e # es)"
      using r(1,2) by (simp add: Suc_diff_le)
    moreover have "unat d' = min (unat d + (length (e # es) - length es')) (2 ^ 64 - 1)"
      using r(2,6) by (simp add: unat_saturating_add Suc_diff_le)
    ultimately show ?thesis using r by simp
  next
    case False
    with 2(2,3) show ?thesis using unat_u64_bound [of d] by auto
  qed
qed

section \<open>Every submission is accounted for\<close>

definition in_hand :: "'n post_commit_state \<Rightarrow> 'n post_commit_projection list" where
  "in_hand s = (case pcs_holder s of Some (origin, DrainRecording p) \<Rightarrow> [p] | _ \<Rightarrow> [])"

definition half_in_hand :: "'n post_commit_state \<Rightarrow> 'n post_commit_projection list" where
  "half_in_hand s = (case pcs_holder s of Some (origin, DrainCapturing p) \<Rightarrow> [p] | _ \<Rightarrow> [])"

definition submissions_ok :: "'n post_commit_state \<Rightarrow> bool" where
  "submissions_ok s \<longleftrightarrow>
     mset (pcs_submitted s) = mset (pcs_recorded s) + mset (in_hand s) +
       mset (pcq_entries (pcs_queue s)) + mset (pcs_evicted s) + mset (pcs_lost s) \<and>
     subseq (pcs_recorded s @ in_hand s @ pcq_entries (pcs_queue s)) (pcs_submitted s)"

definition logs_ok :: "'n projection_env \<Rightarrow> 'n post_commit_state \<Rightarrow> bool" where
  "logs_ok env s \<longleftrightarrow>
     pcs_history s = fold (history_record (pe_code_text env) (pe_status_of env))
       (map (\<lambda>p. (pcp_request p, pcp_response p)) (pcs_recorded s)) command_history_default \<and>
     pcs_capture s = fold (workflow_capture_record (pe_capture_len env))
       (map (\<lambda>p. (pe_redact env (pcp_request p), pcp_workflow_capture_response p,
          pcp_workflow_capture_delivery_state p)) (pcs_captured s)) workflow_capture_default \<and>
     mset (pcs_recorded s) = mset (pcs_captured s) + mset (half_in_hand s) + mset (pcs_half s) \<and>
     subseq (pcs_captured s @ half_in_hand s) (pcs_recorded s)"

definition queue_bounded :: "'n post_commit_projection_queue \<Rightarrow> bool" where
  "queue_bounded q \<longleftrightarrow>
     pcq_total_bytes q = (\<Sum>p\<leftarrow>pcq_entries q. pcp_approx_bytes p) \<and>
     length (pcq_entries q) \<le> POST_COMMIT_PROJECTION_LIMIT \<and>
     (pcq_total_bytes q \<le> POST_COMMIT_PROJECTION_LIMIT_BYTES \<or> length (pcq_entries q) \<le> 1)"

definition counters_ok :: "'n post_commit_state \<Rightarrow> bool" where
  "counters_ok s \<longleftrightarrow> queue_bounded (pcs_queue s) \<and>
     unat (pcq_dropped_before_projection (pcs_queue s)) = min (length (pcs_evicted s)) (2 ^ 64 - 1) \<and>
     pcs_followup_count s =
       of_nat (length (pcs_waiting s) + (if pcs_holder s = None then 0 else 1))"

text \<open>The size of every projection is far below the width of \<^verbatim>\<open>usize\<close>.\<close>

definition sizes_ok :: "'n post_commit_state \<Rightarrow> bool" where
  "sizes_ok s \<longleftrightarrow> (\<forall>p\<in>set (pcs_submitted s). pcp_approx_bytes p < 2 ^ 62)"

lemma queue_bounded_tail:
  assumes "queue_bounded q" "pcq_entries q = p # es"
  shows "queue_bounded (q\<lparr>pcq_entries := es, pcq_total_bytes := pcq_total_bytes q - pcp_approx_bytes p\<rparr>)"
  using assms by (auto simp: queue_bounded_def)

lemma queue_total_small:
  assumes "queue_bounded q" "\<forall>p\<in>set (pcq_entries q). pcp_approx_bytes p < 2 ^ 62"
  shows "pcq_total_bytes q < 2 ^ 62"
proof (cases "pcq_total_bytes q \<le> POST_COMMIT_PROJECTION_LIMIT_BYTES")
  case True
  then show ?thesis by (simp add: POST_COMMIT_PROJECTION_LIMIT_BYTES_def MAX_FRAME_BYTES_def)
next
  case False
  then have "length (pcq_entries q) \<le> 1" using assms(1) by (simp add: queue_bounded_def)
  then consider "pcq_entries q = []" | p where "pcq_entries q = [p]"
    by (metis One_nat_def Suc_length_conv le_SucE le_zero_eq length_0_conv)
  then show ?thesis using assms by cases (auto simp: queue_bounded_def)
qed

text \<open>A submission appends at the back and evicts at the front, counting what it evicts.\<close>

lemma submit_effect:
  fixes s :: "'n post_commit_state"
  assumes cnt: "counters_ok s" and sub: "submissions_ok s"
    and t: "t = submit_post_commit_projection_with_capture env req resp wresp delivery s"
    and small: "sizes_ok t"
  shows "\<exists>p d. pcs_submitted t = pcs_submitted s @ [p] \<and> d \<le> Suc (length (pcq_entries (pcs_queue s))) \<and>
    pcq_entries (pcs_queue t) = drop d (pcq_entries (pcs_queue s) @ [p]) \<and>
    pcs_evicted t = pcs_evicted s @ take d (pcq_entries (pcs_queue s) @ [p]) \<and>
    queue_bounded (pcs_queue t) \<and>
    unat (pcq_dropped_before_projection (pcs_queue t)) = min (length (pcs_evicted t)) (2 ^ 64 - 1)"
proof -
  define p :: "'n post_commit_projection" where "p = \<lparr>pcp_request = req, pcp_response = resp,
    pcp_workflow_capture_response = wresp, pcp_workflow_capture_delivery_state = delivery,
    pcp_approx_bytes = post_commit_projection_bytes env req resp wresp\<rparr>"
  let ?q = "pcs_queue s"
  let ?es = "pcq_entries ?q @ [p]"
  let ?t = "usize_saturating_add (pcq_total_bytes ?q) (pcp_approx_bytes p)"
  obtain es' t' d' where trim: "trim_projection_entries POST_COMMIT_PROJECTION_LIMIT
      POST_COMMIT_PROJECTION_LIMIT_BYTES ?es ?t (pcq_dropped_before_projection ?q) = (es', t', d')"
    by (metis prod_cases3)
  have after: "pcs_submitted t = pcs_submitted s @ [p]"
    "pcs_queue t = \<lparr>pcq_entries = es', pcq_total_bytes = t', pcq_dropped_before_projection = d'\<rparr>"
    "pcs_evicted t = pcs_evicted s @ take (length ?es - length es') ?es"
    using trim by (simp_all add: t submit_post_commit_projection_with_capture_def p_def [symmetric]
        trim_post_commit_projection_queue_def trim_post_commit_projection_queue_with_limits_def Let_def)
  have members: "set (pcq_entries ?q) \<subseteq> set (pcs_submitted s)"
    using sub unfolding submissions_ok_def by (auto dest: list_emb_set)
  then have "\<forall>x\<in>set (pcq_entries ?q). pcp_approx_bytes x < 2 ^ 62" "pcp_approx_bytes p < 2 ^ 62"
    using small after(1) by (auto simp: sizes_ok_def)
  moreover have bounded: "queue_bounded ?q" using cnt by (simp add: counters_ok_def)
  ultimately have "?t = (\<Sum>x\<leftarrow>?es. pcp_approx_bytes x)"
    using queue_total_small [OF bounded]
    by (simp add: usize_saturating_add_def usize_max_def queue_bounded_def)
  note trimmed = trim_projection_entries_drop [OF trim this]
  then have "queue_bounded (pcs_queue t)" by (auto simp: after queue_bounded_def)
  moreover have "unat d' = min (length (pcs_evicted t)) (2 ^ 64 - 1)"
  proof -
    define k where "k = length ?es - length es'"
    have "k \<le> length ?es" by (simp add: k_def)
    then have "length (take k ?es) = k" by (simp only: length_take min_absorb2)
    then have "length (pcs_evicted t) = length (pcs_evicted s) + k"
      unfolding after(3) k_def [symmetric] by (simp only: length_append)
    moreover have "unat d' = min (min (length (pcs_evicted s)) (2 ^ 64 - 1) + k) (2 ^ 64 - 1)"
      using trimmed cnt unfolding k_def counters_ok_def by metis
    ultimately show ?thesis by linarith
  qed
  ultimately show ?thesis
    using trimmed after by (intro exI [of _ p] exI [of _ "length ?es - length es'"]) simp
qed

lemma submit_frame:
  fixes s :: "'n post_commit_state"
  assumes "t = submit_post_commit_projection_with_capture env req resp wresp delivery s"
  shows "pcs_drain_scheduled t = pcs_drain_scheduled s" "pcs_followup_count t = pcs_followup_count s"
    "pcs_history t = pcs_history s" "pcs_capture t = pcs_capture s" "pcs_ready t = Suc (pcs_ready s)"
    "pcs_spawned t = pcs_spawned s" "pcs_waiting t = pcs_waiting s" "pcs_holder t = pcs_holder s"
    "pcs_recorded t = pcs_recorded s" "pcs_captured t = pcs_captured s" "pcs_lost t = pcs_lost s"
    "pcs_half t = pcs_half s" "in_hand t = in_hand s" "half_in_hand t = half_in_hand s"
  unfolding assms by (simp_all add: submit_post_commit_projection_with_capture_def in_hand_def
      half_in_hand_def Let_def)

lemma submit_ok:
  fixes s :: "'n post_commit_state"
  assumes cnt: "counters_ok s" and sub: "submissions_ok s"
    and t: "t = submit_post_commit_projection_with_capture env req resp wresp delivery s"
    and small: "sizes_ok t"
  shows "counters_ok t \<and> submissions_ok t"
proof -
  obtain p d where e: "pcs_submitted t = pcs_submitted s @ [p]"
      "pcq_entries (pcs_queue t) = drop d (pcq_entries (pcs_queue s) @ [p])"
      "pcs_evicted t = pcs_evicted s @ take d (pcq_entries (pcs_queue s) @ [p])"
      "queue_bounded (pcs_queue t)"
      "unat (pcq_dropped_before_projection (pcs_queue t)) = min (length (pcs_evicted t)) (2 ^ 64 - 1)"
    using submit_effect [OF assms] by blast
  have same: "pcs_recorded t = pcs_recorded s" "pcs_lost t = pcs_lost s" "in_hand t = in_hand s"
    "pcs_followup_count t = pcs_followup_count s" "pcs_waiting t = pcs_waiting s"
    "pcs_holder t = pcs_holder s"
    using submit_frame [OF t] by simp_all
  have "mset (drop d (pcq_entries (pcs_queue s) @ [p])) + mset (take d (pcq_entries (pcs_queue s) @ [p])) =
      add_mset p (mset (pcq_entries (pcs_queue s)))"
    by (metis add.commute append_take_drop_id mset.simps(2) mset_append mset_rev rev.simps(2) rev_rev_ident
        union_mset_add_mset_right add.right_neutral mset.simps(1))
  then have "mset (pcs_submitted t) = mset (pcs_recorded t) + mset (in_hand t) +
      mset (pcq_entries (pcs_queue t)) + mset (pcs_evicted t) + mset (pcs_lost t)"
    using sub unfolding submissions_ok_def e(1-3) same mset_append by (simp add: ac_simps)
  moreover have "subseq (pcs_recorded t @ in_hand t @ pcq_entries (pcs_queue t)) (pcs_submitted t)"
  proof -
    have "subseq (drop d (pcq_entries (pcs_queue s) @ [p])) (pcq_entries (pcs_queue s) @ [p])"
      by (rule suffix_imp_subseq [OF suffix_drop])
    then have "subseq (pcs_recorded s @ in_hand s @ drop d (pcq_entries (pcs_queue s) @ [p]))
        ((pcs_recorded s @ in_hand s @ pcq_entries (pcs_queue s)) @ [p])"
      by (simp add: subseq_append')
    moreover have "subseq ((pcs_recorded s @ in_hand s @ pcq_entries (pcs_queue s)) @ [p])
        (pcs_submitted s @ [p])"
      using sub unfolding submissions_ok_def by (simp only: subseq_append)
    ultimately show ?thesis unfolding e(1,2) same by (rule subseq_order.trans)
  qed
  ultimately show ?thesis
    using cnt e(4,5) same by (simp add: submissions_ok_def counters_ok_def)
qed

lemma length_remove_at: "i < length xs \<Longrightarrow> Suc (length (remove_at i xs)) = length xs"
  by (simp add: remove_at_def)

lemmas post_commit_defs = submissions_ok_def counters_ok_def in_hand_def half_in_hand_def
  spawn_post_commit_projection_drain_def drain_begin_def drain_end_def record_command_history_def
  record_workflow_capture_with_state_def drain_step_def

lemma take_move_ok:
  assumes "counters_ok s" "submissions_ok s"
  shows "counters_ok (run_post_commit_op env DrainMove s) \<and>
    submissions_ok (run_post_commit_op env DrainMove s)"
proof (cases "pcs_holder s")
  case None
  with assms show ?thesis by simp
next
  case (Some h)
  obtain origin position where h: "h = (origin, position)" by (cases h)
  show ?thesis
  proof (cases position)
    case DrainHolding
    show ?thesis
    proof (cases "pcq_entries (pcs_queue s)")
      case Nil
      with assms Some h DrainHolding show ?thesis by (simp add: post_commit_defs)
    next
      case (Cons p es)
      with assms queue_bounded_tail [OF _ Cons] Some h DrainHolding show ?thesis
        by (simp add: post_commit_defs)
    qed
  qed (use assms Some h in \<open>auto simp: post_commit_defs\<close>)
qed

lemma cancel_ok:
  assumes "counters_ok s" "submissions_ok s"
  shows "counters_ok (run_post_commit_op env CancelHolder s) \<and>
    submissions_ok (run_post_commit_op env CancelHolder s)"
proof (cases "pcs_holder s")
  case None
  with assms show ?thesis by simp
next
  case (Some h)
  obtain origin position where h: "h = (origin, position)" by (cases h)
  have sub: "subseq (xs @ es) ys" if "subseq (xs @ p # es) ys" for xs es ys :: "'a post_commit_projection list" and p
    by (rule subseq_order.trans [OF _ that]) (simp add: subseq_append' list_emb_Cons)
  show ?thesis
    by (cases origin; cases position)
      (use assms Some h in \<open>auto simp: post_commit_defs dest: sub\<close>)
qed

lemma other_move_ok:
  assumes "counters_ok s" "submissions_ok s"
  shows "counters_ok (run_post_commit_op env SpawnDrain s) \<and>
      submissions_ok (run_post_commit_op env SpawnDrain s)"
    "counters_ok (run_post_commit_op env DrainAfterSubmit s) \<and>
      submissions_ok (run_post_commit_op env DrainAfterSubmit s)"
    "counters_ok (run_post_commit_op env ReaderDrain s) \<and>
      submissions_ok (run_post_commit_op env ReaderDrain s)"
    "counters_ok (run_post_commit_op env StartSpawned s) \<and>
      submissions_ok (run_post_commit_op env StartSpawned s)"
    "counters_ok (run_post_commit_op env (AcquireDrain i) s) \<and>
      submissions_ok (run_post_commit_op env (AcquireDrain i) s)"
    "counters_ok (run_post_commit_op env (CancelWaiting i) s) \<and>
      submissions_ok (run_post_commit_op env (CancelWaiting i) s)"
  using assms length_remove_at [of i "pcs_waiting s", symmetric] by (auto simp: post_commit_defs)

lemma post_commit_op_ok:
  assumes "counters_ok s" "submissions_ok s" "sizes_ok (run_post_commit_op env op s)"
  shows "counters_ok (run_post_commit_op env op s) \<and> submissions_ok (run_post_commit_op env op s)"
  using assms other_move_ok [OF assms(1,2)] take_move_ok [OF assms(1,2)] cancel_ok [OF assms(1,2)]
    submit_ok [OF assms(1,2) refl]
  by (cases op) (simp_all only: run_post_commit_op.simps(1))

lemma drain_step_logs:
  assumes "logs_ok env s" "pcs_holder s = Some (origin, position)"
  shows "logs_ok env (drain_step env origin position s)"
  by (cases position)
    (use assms in \<open>auto simp: logs_ok_def drain_step_def half_in_hand_def record_command_history_def
      record_workflow_capture_with_state_def drain_end_def subseq_append' split: list.splits
      intro: list_emb_append_mono\<close>)

lemma post_commit_op_logs:
  assumes "logs_ok env s"
  shows "logs_ok env (run_post_commit_op env op s)"
proof (cases op)
  case (SubmitProjection req resp wresp delivery)
  note f = submit_frame [OF refl, of env req resp wresp delivery s]
  show ?thesis using assms unfolding SubmitProjection run_post_commit_op.simps logs_ok_def f .
next
  case CancelHolder
  show ?thesis
  proof (cases "pcs_holder s")
    case None
    with assms CancelHolder show ?thesis by simp
  next
    case (Some h)
    obtain origin position where h: "h = (origin, position)" by (cases h)
    have "subseq xs ys" if "subseq (xs @ [p]) ys" for xs ys :: "'a post_commit_projection list" and p
      by (rule subseq_order.trans [OF _ that]) (rule prefix_imp_subseq, simp)
    with assms Some h CancelHolder show ?thesis
      by (cases origin; cases position) (auto simp: logs_ok_def half_in_hand_def drain_end_def)
  qed
next
  case DrainMove
  with assms show ?thesis by (auto simp: drain_step_logs split: option.splits)
qed (use assms in \<open>auto simp: logs_ok_def half_in_hand_def spawn_post_commit_projection_drain_def
    drain_begin_def\<close>)

lemma submitted_grows: "set (pcs_submitted s) \<subseteq> set (pcs_submitted (run_post_commit_op env op s))"
proof (cases op)
  case DrainMove
  show ?thesis
    by (cases "pcs_holder s"; cases "snd (the (pcs_holder s))")
      (auto simp: DrainMove drain_step_def drain_end_def record_command_history_def
        record_workflow_capture_with_state_def split: list.splits)
next
  case CancelHolder
  show ?thesis
    by (cases "pcs_holder s"; cases "fst (the (pcs_holder s))"; cases "snd (the (pcs_holder s))")
      (auto simp: CancelHolder drain_end_def)
qed (auto simp: submit_post_commit_projection_with_capture_def
    spawn_post_commit_projection_drain_def drain_begin_def Let_def)

lemma post_commit_run:
  assumes "sizes_ok (run_post_commit env ops)"
  shows "counters_ok (run_post_commit env ops) \<and> submissions_ok (run_post_commit env ops) \<and>
    logs_ok env (run_post_commit env ops)"
  using assms
proof (induction ops rule: rev_induct)
  case Nil
  show ?case
    by (simp add: post_commit_default_def counters_ok_def submissions_ok_def logs_ok_def
        queue_bounded_def in_hand_def half_in_hand_def)
next
  case (snoc op ops)
  let ?s = "run_post_commit env ops"
  have "sizes_ok ?s"
    using snoc.prems submitted_grows [of ?s env op] by (auto simp: sizes_ok_def)
  then show ?case
    using snoc post_commit_op_ok [of ?s env op] post_commit_op_logs [of env ?s op] by simp
qed

section \<open>No wake-up is lost\<close>

text \<open>A drain is active while it will still look into the queue before it gives up the flag.\<close>

definition drain_active :: "'n post_commit_state \<Rightarrow> bool" where
  "drain_active s \<longleftrightarrow> pcs_spawned s > 0 \<or> pcs_waiting s \<noteq> [] \<or>
     (case pcs_holder s of
        Some (origin, position) \<Rightarrow> position \<noteq> DrainStored \<and> position \<noteq> DrainRechecking
      | None \<Rightarrow> False)"

definition drain_checking :: "'n post_commit_state \<Rightarrow> bool" where
  "drain_checking s \<longleftrightarrow> (\<exists>origin. pcs_holder s = Some (origin, DrainStored) \<or>
     pcs_holder s = Some (origin, DrainRechecking))"

definition wakeup_ok :: "'n post_commit_state \<Rightarrow> bool" where
  "wakeup_ok s \<longleftrightarrow>
     (pcs_drain_scheduled s \<longrightarrow> drain_active s) \<and>
     (pcq_entries (pcs_queue s) \<noteq> [] \<longrightarrow> pcs_ready s > 0 \<or> drain_active s \<or> drain_checking s)"

lemma drain_step_wakeup:
  assumes "wakeup_ok s" "pcs_holder s = Some (origin, position)"
  shows "wakeup_ok (drain_step env origin position s)"
  by (cases position)
    (use assms in \<open>auto simp: wakeup_ok_def drain_active_def drain_checking_def drain_step_def
      drain_end_def record_command_history_def record_workflow_capture_with_state_def
      split: list.splits\<close>)

lemma post_commit_op_wakeup:
  assumes "wakeup_ok s" "\<not> is_cancellation op"
  shows "wakeup_ok (run_post_commit_op env op s)"
proof (cases op)
  case (SubmitProjection req resp wresp delivery)
  note f = submit_frame [OF refl, of env req resp wresp delivery s]
  show ?thesis using assms(1)
    unfolding SubmitProjection run_post_commit_op.simps wakeup_ok_def drain_active_def
      drain_checking_def f by simp
next
  case DrainMove
  with assms show ?thesis by (auto simp: drain_step_wakeup split: option.splits)
qed (use assms in \<open>auto simp: wakeup_ok_def drain_active_def drain_checking_def
    spawn_post_commit_projection_drain_def drain_begin_def\<close>)

lemma post_commit_run_wakeup:
  assumes "\<forall>op\<in>set ops. \<not> is_cancellation op"
  shows "wakeup_ok (run_post_commit env ops) \<and> pcs_lost (run_post_commit env ops) = [] \<and>
    pcs_half (run_post_commit env ops) = []"
  using assms
proof (induction ops rule: rev_induct)
  case Nil
  show ?case by (simp add: wakeup_ok_def post_commit_default_def)
next
  case (snoc op ops)
  let ?s = "run_post_commit env ops"
  have "pcs_lost (run_post_commit_op env op ?s) = pcs_lost ?s \<and>
      pcs_half (run_post_commit_op env op ?s) = pcs_half ?s"
  proof (cases op)
    case DrainMove
    show ?thesis
      by (cases "pcs_holder ?s"; cases "snd (the (pcs_holder ?s))")
        (auto simp: DrainMove drain_step_def drain_end_def record_command_history_def
          record_workflow_capture_with_state_def split: list.splits)
  qed (use snoc.prems in \<open>auto simp: submit_post_commit_projection_with_capture_def
      spawn_post_commit_projection_drain_def drain_begin_def Let_def\<close>)
  with snoc post_commit_op_wakeup [of ?s op env] show ?case by simp
qed

section \<open>A drain comes to its end\<close>

lemma drain_moves:
  fixes s :: "'n post_commit_state"
  assumes "pcs_holder s = Some (origin, DrainHolding)"
  shows "\<exists>t. fold (run_post_commit_op env) (replicate (3 * length (pcq_entries (pcs_queue s))) DrainMove) s = t \<and>
    pcs_holder t = Some (origin, DrainHolding) \<and> pcq_entries (pcs_queue t) = [] \<and>
    pcs_recorded t = pcs_recorded s @ pcq_entries (pcs_queue s) \<and>
    pcs_captured t = pcs_captured s @ pcq_entries (pcs_queue s)"
  using assms
proof (induction "pcq_entries (pcs_queue s)" arbitrary: s)
  case Nil
  then show ?case by simp
next
  case (Cons p es)
  obtain t where three: "fold (run_post_commit_op env) [DrainMove, DrainMove, DrainMove] s = t"
    by blast
  have t: "pcs_holder t = Some (origin, DrainHolding)" "pcq_entries (pcs_queue t) = es"
    "pcs_recorded t = pcs_recorded s @ [p]" "pcs_captured t = pcs_captured s @ [p]"
    unfolding three [symmetric] using Cons.prems Cons.hyps(2) [symmetric]
    by (simp_all add: drain_step_def record_command_history_def record_workflow_capture_with_state_def)
  have "replicate (3 * length (p # es)) (DrainMove :: 'n post_commit_op) =
      [DrainMove, DrainMove, DrainMove] @ replicate (3 * length es) DrainMove"
    by (simp add: replicate_add numeral_3_eq_3)
  then have "fold (run_post_commit_op env) (replicate (3 * length (p # es)) DrainMove) s =
      fold (run_post_commit_op env) (replicate (3 * length (pcq_entries (pcs_queue t))) DrainMove) t"
    by (simp only: fold_append comp_apply three t(2))
  with Cons.hyps(1) [of t] t show ?case
    unfolding Cons.hyps(2) [symmetric] by auto
qed

lemma drain_ends:
  assumes "pcs_holder s = Some (origin, DrainHolding)"
    and "t = fold (run_post_commit_op env)
      (replicate (3 * length (pcq_entries (pcs_queue s)) + 3) DrainMove) s"
  shows "pcs_holder t = None" "pcq_entries (pcs_queue t) = []"
    "pcs_recorded t = pcs_recorded s @ pcq_entries (pcs_queue s)"
    "pcs_captured t = pcs_captured s @ pcq_entries (pcs_queue s)" "\<not> pcs_drain_scheduled t"
proof -
  obtain u where u: "fold (run_post_commit_op env)
      (replicate (3 * length (pcq_entries (pcs_queue s))) DrainMove) s = u"
    "pcs_holder u = Some (origin, DrainHolding)" "pcq_entries (pcs_queue u) = []"
    "pcs_recorded u = pcs_recorded s @ pcq_entries (pcs_queue s)"
    "pcs_captured u = pcs_captured s @ pcq_entries (pcs_queue s)"
    using drain_moves [OF assms(1)] by blast
  have "t = fold (run_post_commit_op env) [DrainMove, DrainMove, DrainMove] u"
    unfolding assms(2) replicate_add fold_append comp_apply u(1) by (simp add: numeral_3_eq_3)
  with u show "pcs_holder t = None" "pcq_entries (pcs_queue t) = []"
    "pcs_recorded t = pcs_recorded s @ pcq_entries (pcs_queue s)"
    "pcs_captured t = pcs_captured s @ pcq_entries (pcs_queue s)" "\<not> pcs_drain_scheduled t"
    by (simp_all add: drain_step_def drain_end_def)
qed

section \<open>Concrete runs\<close>

definition example_env :: "nat projection_env" where
  "example_env = \<lparr>pe_code_text = (\<lambda>_. ''E''), pe_status_of = (\<lambda>_. None), pe_capture_len = (\<lambda>_. 9),
     pe_request_len = (\<lambda>_. Some 5), pe_response_len = (\<lambda>_. Some 7), pe_redact = (\<lambda>r. r)\<rparr>"

definition example_submit :: "string \<Rightarrow> nat post_commit_op" where
  "example_submit name =
     SubmitProjection (ipc_request_new ''u'' name JNull 1) (ipc_response_success name JNull)
       (ipc_response_success name JNull) Delivered"

text \<open>The second commit arrives while the task of the first is past its last look into the queue: the
  task finds it when it checks, and takes another round.\<close>

definition example_late_commit :: "nat post_commit_op list" where
  "example_late_commit =
     [example_submit ''a'', SpawnDrain, StartSpawned, AcquireDrain 0, DrainMove, DrainMove, DrainMove,
      DrainMove, example_submit ''b'', SpawnDrain, DrainMove, DrainMove, DrainMove,
      AcquireDrain 0, DrainMove, DrainMove, DrainMove, DrainMove, DrainMove, DrainMove]"

text \<open>A reader of the history is timed out between taking a projection and recording it.\<close>

definition example_cancelled_reader :: "nat post_commit_op list" where
  "example_cancelled_reader =
     [example_submit ''a'', ReaderDrain, AcquireDrain 0, DrainMove, CancelHolder,
      SpawnDrain, StartSpawned, AcquireDrain 0, DrainMove, DrainMove, DrainMove]"

lemmas example_post_commit_defs = example_env_def example_submit_def post_commit_default_def
  submit_post_commit_projection_with_capture_def trim_post_commit_projection_queue_def
  trim_post_commit_projection_queue_with_limits_def POST_COMMIT_PROJECTION_LIMIT_def
  POST_COMMIT_PROJECTION_LIMIT_BYTES_def MAX_FRAME_BYTES_def post_commit_projection_bytes_def
  serialized_len_def usize_saturating_add_def usize_max_def spawn_post_commit_projection_drain_def
  drain_begin_def drain_end_def drain_step_def record_command_history_def
  record_workflow_capture_with_state_def remove_at_def Let_def ipc_request_new_def sizes_ok_def

lemma example_late_commit_run:
  "sizes_ok (run_post_commit example_env example_late_commit)"
  "map (req_command \<circ> pcp_request) (pcs_recorded (run_post_commit example_env example_late_commit)) =
     [''a'', ''b'']"
  "map (req_command \<circ> pcp_request) (pcs_submitted (run_post_commit example_env example_late_commit)) =
     [''a'', ''b'']"
  "pcs_ready (run_post_commit example_env example_late_commit) = 0"
  "pcs_spawned (run_post_commit example_env example_late_commit) = 0"
  "pcs_waiting (run_post_commit example_env example_late_commit) = []"
  "pcs_holder (run_post_commit example_env example_late_commit) = None"
  by (simp_all add: example_late_commit_def example_post_commit_defs)

lemma example_cancelled_run:
  "sizes_ok (run_post_commit example_env example_cancelled_reader)"
  "map (req_command \<circ> pcp_request) (pcs_lost (run_post_commit example_env example_cancelled_reader)) =
     [''a'']"
  "pcs_recorded (run_post_commit example_env example_cancelled_reader) = []"
  "post_commit_projection_drop_count (run_post_commit example_env example_cancelled_reader) = 0"
  "pcs_holder (run_post_commit example_env example_cancelled_reader) = None"
  by (simp_all add: example_cancelled_reader_def example_post_commit_defs
      post_commit_projection_drop_count_def)

text \<open>A synchronous drain that goes for another round is timed out before it gets the mutex back; the
  flag it set stays, and later commits spawn no drain.\<close>

definition example_stuck_flag :: "nat post_commit_op list" where
  "example_stuck_flag =
     [example_submit ''a'', DrainAfterSubmit, AcquireDrain 0, DrainMove, DrainMove, DrainMove, DrainMove,
      example_submit ''b'', DrainMove, DrainMove, DrainMove, CancelWaiting 0, SpawnDrain,
      example_submit ''c'', SpawnDrain]"

lemma example_stuck_run:
  "pcs_drain_scheduled (run_post_commit example_env example_stuck_flag)"
  "\<not> drain_active (run_post_commit example_env example_stuck_flag)"
  "map (req_command \<circ> pcp_request)
     (pcq_entries (pcs_queue (run_post_commit example_env example_stuck_flag))) = [''b'', ''c'']"
  by (simp_all add: example_stuck_flag_def example_post_commit_defs drain_active_def)

section \<open>Properties\<close>

text \<open>
  C14. No wake-up is lost. However commits, spawned drains and direct drains interleave, once every
  committer has woken a drain and every drain has ended, no projection is left in the queue, provided
  no drain was cancelled: the command history is exactly the record of the submitted commands
  without those the full queue evicted, in the order of their submission, the drop counter counts the
  evicted ones, and the workflow capture was fed the same commands.
\<close>

theorem post_commit_no_lost_wakeup:
  assumes "\<forall>op\<in>set ops. \<not> is_cancellation op"
    and "s = run_post_commit env ops" and "sizes_ok s"
    and "pcs_ready s = 0" "pcs_spawned s = 0" "pcs_waiting s = []" "pcs_holder s = None"
  shows "pcq_entries (pcs_queue s) = [] \<and> \<not> pcs_drain_scheduled s \<and>
    subseq (pcs_recorded s) (pcs_submitted s) \<and>
    mset (pcs_submitted s) = mset (pcs_recorded s) + mset (pcs_evicted s) \<and>
    unat (post_commit_projection_drop_count s) = min (length (pcs_evicted s)) (2 ^ 64 - 1) \<and>
    pcs_captured s = pcs_recorded s \<and>
    pcs_history s = fold (history_record (pe_code_text env) (pe_status_of env))
      (map (\<lambda>p. (pcp_request p, pcp_response p)) (pcs_recorded s)) command_history_default"
proof -
  have cnt: "counters_ok s" and sub: "submissions_ok s" and logs: "logs_ok env s"
    using post_commit_run [of env ops] assms(2,3) by simp_all
  have wake: "wakeup_ok s" and none: "pcs_lost s = []" "pcs_half s = []"
    using post_commit_run_wakeup [OF assms(1), of env] assms(2) by simp_all
  have empty: "pcq_entries (pcs_queue s) = []" "\<not> pcs_drain_scheduled s"
    using wake assms(4-7) by (auto simp: wakeup_ok_def drain_active_def drain_checking_def)
  have "mset (pcs_recorded s) = mset (pcs_captured s)" "subseq (pcs_captured s) (pcs_recorded s)"
    using logs none assms(7) by (simp_all add: logs_ok_def half_in_hand_def)
  then have "pcs_captured s = pcs_recorded s"
    by (metis size_mset subseq_same_length)
  then show ?thesis
    using cnt sub logs none empty assms(7)
    by (simp add: submissions_ok_def counters_ok_def logs_ok_def in_hand_def
        post_commit_projection_drop_count_def)
qed

theorem post_commit_no_lost_wakeup_witness:
  "map (req_command \<circ> pcp_request) (pcs_captured (run_post_commit example_env example_late_commit)) =
     [''a'', ''b'']"
proof -
  have "\<forall>op\<in>set example_late_commit. \<not> is_cancellation op"
    by (simp add: example_late_commit_def example_submit_def)
  from post_commit_no_lost_wakeup [OF this refl, of example_env] show ?thesis
    using example_late_commit_run by simp
qed



text \<open>
  The queue of post-commit projections is bounded: at most 256 projections, whose byte account is
  exact and within four frames unless a single projection is larger, and the follow-up counter the
  shutdown waits on is the number of drains under way. A drain that is left alone comes to its end:
  it empties the queue into both logs, gives up the flag and releases its guard.
\<close>

theorem post_commit_queue_bounded:
  assumes "s = run_post_commit env ops" and "sizes_ok s"
  shows "length (pcq_entries (pcs_queue s)) \<le> 256 \<and>
    pcq_total_bytes (pcs_queue s) = (\<Sum>p\<leftarrow>pcq_entries (pcs_queue s). pcp_approx_bytes p) \<and>
    (pcq_total_bytes (pcs_queue s) \<le> 4 * MAX_FRAME_BYTES \<or> length (pcq_entries (pcs_queue s)) \<le> 1) \<and>
    pcs_followup_count s =
      of_nat (length (pcs_waiting s) + (if pcs_holder s = None then 0 else 1)) \<and>
    (\<forall>origin. pcs_holder s = Some (origin, DrainHolding) \<longrightarrow>
      (\<exists>t. t = fold (run_post_commit_op env)
          (replicate (3 * length (pcq_entries (pcs_queue s)) + 3) DrainMove) s \<and>
        pcs_holder t = None \<and> pcq_entries (pcs_queue t) = [] \<and> \<not> pcs_drain_scheduled t \<and>
        pcs_recorded t = pcs_recorded s @ pcq_entries (pcs_queue s) \<and>
        pcs_captured t = pcs_captured s @ pcq_entries (pcs_queue s)))"
proof -
  have "counters_ok s" using post_commit_run [of env ops] assms by simp
  moreover have "\<exists>t. t = fold (run_post_commit_op env)
          (replicate (3 * length (pcq_entries (pcs_queue s)) + 3) DrainMove) s \<and>
        pcs_holder t = None \<and> pcq_entries (pcs_queue t) = [] \<and> \<not> pcs_drain_scheduled t \<and>
        pcs_recorded t = pcs_recorded s @ pcq_entries (pcs_queue s) \<and>
        pcs_captured t = pcs_captured s @ pcq_entries (pcs_queue s)"
    if "pcs_holder s = Some (origin, DrainHolding)" for origin
    using drain_ends [OF that refl] by blast
  ultimately show ?thesis
    by (auto simp: counters_ok_def queue_bounded_def POST_COMMIT_PROJECTION_LIMIT_def
        POST_COMMIT_PROJECTION_LIMIT_BYTES_def)
qed

theorem post_commit_queue_bounded_witness:
  "pcq_total_bytes (pcs_queue (run_post_commit example_env [example_submit ''a'', example_submit ''b''])) = 38"
proof -
  let ?ops = "[example_submit ''a'', example_submit ''b'']"
  have small: "sizes_ok (run_post_commit example_env ?ops)"
    and "map pcp_approx_bytes (pcq_entries (pcs_queue (run_post_commit example_env ?ops))) = [19, 19]"
    by (simp_all add: example_post_commit_defs)
  then show ?thesis
    using post_commit_queue_bounded [OF refl small] by simp
qed

end
