(* ===== verification/Rub_Downloads.thy ===== *)
theory Rub_Downloads
  imports Rub_Interfaces
begin

text \<open>
  The session's download surface (\<^verbatim>\<open>rub-daemon/src/downloads.rs\<close>, \<^verbatim>\<open>downloads/{events,mutation,
  projection}.rs\<close>, the records of \<^verbatim>\<open>rub-core/src/model/runtime/downloads.rs\<close>): entries keyed by the
  browser's guid, an active and a completed order of bounded length, a per-entry sequence fence
  against reordered browser events, and a timeline with eviction accounting.
  \<^verbatim>\<open>rfc3339_now()\<close> is an argument \<open>now\<close> of the operations that read the clock. The three \<^verbatim>\<open>expect\<close>s
  of \<^verbatim>\<open>record_started\<close> follow a successful lookup of the same key and cannot fail.
\<close>

section \<open>Data\<close>

datatype download_runtime_status =
  DownloadsInactive | DownloadsActive | DownloadsDegraded | DownloadsUnsupported

datatype download_mode = ObserveOnly | Managed | Deny

datatype download_state =
  DownloadStarted | DownloadInProgress | DownloadCompleted | DownloadFailed | DownloadCanceled

record download_entry =
  de_guid :: string
  de_state :: download_state
  de_url :: "string option"
  de_suggested_filename :: "string option"
  de_final_path :: "string option"
  de_mime_hint :: "string option"
  de_received_bytes :: u64
  de_total_bytes :: "u64 option"
  de_started_at :: string
  de_completed_at :: "string option"
  de_frame_id :: "string option"
  de_trigger_command_id :: "string option"

datatype download_event_kind =
    DownloadEventStarted | DownloadEventProgress | DownloadEventCompleted | DownloadEventFailed
  | DownloadEventCanceled

record download_event =
  dev_sequence :: u64
  dev_kind :: download_event_kind
  dev_download :: download_entry

record download_runtime_info =
  dri_status :: download_runtime_status
  dri_mode :: download_mode
  dri_download_dir :: "string option"
  dri_active_downloads :: "download_entry list"
  dri_completed_downloads :: "download_entry list"
  dri_last_download :: "download_entry option"
  dri_degraded_reason :: "string option"

definition download_runtime_info_default :: download_runtime_info where
  "download_runtime_info_default =
     \<lparr>dri_status = DownloadsInactive, dri_mode = ObserveOnly, dri_download_dir = None,
      dri_active_downloads = [], dri_completed_downloads = [], dri_last_download = None,
      dri_degraded_reason = None\<rparr>"

definition ACTIVE_DOWNLOAD_LIMIT :: nat where "ACTIVE_DOWNLOAD_LIMIT = 32"

definition COMPLETED_DOWNLOAD_LIMIT :: nat where "COMPLETED_DOWNLOAD_LIMIT = 64"

definition DOWNLOAD_EVENT_LIMIT :: nat where "DOWNLOAD_EVENT_LIMIT = 128"

record download_runtime_state =
  dls_next_sequence :: u64
  dls_runtime_event_sequence :: u64
  dls_projection :: download_runtime_info
  dls_entries :: "(string, download_entry) mapping"
  dls_entry_event_sequence :: "(string, u64) mapping"
  dls_active_order :: "string list"
  dls_completed_order :: "string list"
  dls_timeline :: "download_event list"
  dls_dropped_event_count :: u64
  dls_last_evicted_sequence :: u64
  dls_current_generation :: u64

definition download_runtime_default :: download_runtime_state where
  "download_runtime_default =
     \<lparr>dls_next_sequence = 0, dls_runtime_event_sequence = 0,
      dls_projection = download_runtime_info_default, dls_entries = Mapping.empty,
      dls_entry_event_sequence = Mapping.empty, dls_active_order = [], dls_completed_order = [],
      dls_timeline = [], dls_dropped_event_count = 0, dls_last_evicted_sequence = 0,
      dls_current_generation = 0\<rparr>"

record download_progress_event =
  dpe_generation :: u64
  dpe_sequence :: u64
  dpe_guid :: string
  dpe_state :: download_state
  dpe_received_bytes :: u64
  dpe_total_bytes :: "u64 option"
  dpe_final_path :: "string option"

section \<open>Events and projection\<close>

fun event_kind_for_state :: "download_state \<Rightarrow> download_event_kind" where
  "event_kind_for_state DownloadStarted = DownloadEventStarted"
| "event_kind_for_state DownloadInProgress = DownloadEventProgress"
| "event_kind_for_state DownloadCompleted = DownloadEventCompleted"
| "event_kind_for_state DownloadFailed = DownloadEventFailed"
| "event_kind_for_state DownloadCanceled = DownloadEventCanceled"

definition is_terminal :: "download_state \<Rightarrow> bool" where
  "is_terminal state \<longleftrightarrow>
     state = DownloadCompleted \<or> state = DownloadFailed \<or> state = DownloadCanceled"

text \<open>\<^verbatim>\<open>while timeline.len() > LIMIT { pop_front; account }\<close>\<close>

fun evict_timeline :: "nat \<Rightarrow> download_event list \<Rightarrow> u64 \<Rightarrow> u64 \<Rightarrow> download_event list \<times> u64 \<times> u64" where
  "evict_timeline limit [] evicted dropped = ([], evicted, dropped)"
| "evict_timeline limit (e # es) evicted dropped =
     (if length (e # es) > limit
      then evict_timeline limit es (max evicted (dev_sequence e)) (saturating_add dropped 1)
      else (e # es, evicted, dropped))"

definition record_event ::
  "download_event_kind \<Rightarrow> download_entry \<Rightarrow> download_runtime_state \<Rightarrow> download_runtime_state" where
  "record_event kind download s =
     (let sequence = max (dls_next_sequence s) 1;
          timeline = dls_timeline s @
            [\<lparr>dev_sequence = sequence, dev_kind = kind, dev_download = download\<rparr>];
          (timeline, evicted, dropped) = evict_timeline DOWNLOAD_EVENT_LIMIT timeline
            (dls_last_evicted_sequence s) (dls_dropped_event_count s)
      in s\<lparr>dls_next_sequence := sequence + 1, dls_timeline := timeline,
           dls_last_evicted_sequence := evicted, dls_dropped_event_count := dropped\<rparr>)"

definition download_projection :: "download_runtime_state \<Rightarrow> download_runtime_info" where
  "download_projection s =
     \<lparr>dri_status = dri_status (dls_projection s), dri_mode = dri_mode (dls_projection s),
      dri_download_dir = dri_download_dir (dls_projection s),
      dri_active_downloads =
        List.map_filter (Mapping.lookup (dls_entries s)) (dls_active_order s),
      dri_completed_downloads =
        List.map_filter (Mapping.lookup (dls_entries s)) (dls_completed_order s),
      dri_last_download = dri_last_download (dls_projection s),
      dri_degraded_reason = dri_degraded_reason (dls_projection s)\<rparr>"

definition download_cursor :: "download_runtime_state \<Rightarrow> u64" where
  "download_cursor s = saturating_sub (dls_next_sequence s) 1"

definition download_events_after :: "u64 \<Rightarrow> download_runtime_state \<Rightarrow> download_event list" where
  "download_events_after cursor s = filter (\<lambda>e. dev_sequence e > cursor) (dls_timeline s)"

definition download_events_between ::
  "u64 \<Rightarrow> u64 \<Rightarrow> download_runtime_state \<Rightarrow> download_event list" where
  "download_events_between cursor end_cursor s =
     filter (\<lambda>e. dev_sequence e > cursor \<and> dev_sequence e \<le> end_cursor) (dls_timeline s)"

definition download_get :: "string \<Rightarrow> download_runtime_state \<Rightarrow> download_entry option" where
  "download_get guid s = Mapping.lookup (dls_entries s) guid"

section \<open>Mutation\<close>

definition backfill_event ::
  "string \<Rightarrow> string \<Rightarrow> string \<Rightarrow> string option \<Rightarrow> download_event \<Rightarrow> download_event" where
  "backfill_event guid url suggested_filename frame_id event =
     (let d = dev_download event in
      if de_guid d \<noteq> guid then event
      else
        let d = (if de_url d = None then d\<lparr>de_url := Some url\<rparr> else d);
            d = (if de_suggested_filename d = None
                 then d\<lparr>de_suggested_filename := Some suggested_filename\<rparr> else d);
            d = (if de_frame_id d = None then d\<lparr>de_frame_id := frame_id\<rparr> else d)
        in event\<lparr>dev_download := d\<rparr>)"

definition backfill_timeline_metadata ::
  "string \<Rightarrow> string \<Rightarrow> string \<Rightarrow> string option \<Rightarrow> download_runtime_state
   \<Rightarrow> download_runtime_state" where
  "backfill_timeline_metadata guid url suggested_filename frame_id s =
     s\<lparr>dls_timeline := map (backfill_event guid url suggested_filename frame_id) (dls_timeline s)\<rparr>"

definition download_effective_generation :: "u64 \<Rightarrow> download_runtime_state \<Rightarrow> u64" where
  "download_effective_generation generation s =
     (if generation = 0 then dls_current_generation s else generation)"

definition download_prepare_generation ::
  "u64 \<Rightarrow> download_runtime_state \<Rightarrow> bool \<times> download_runtime_state" where
  "download_prepare_generation generation s =
     (let generation = download_effective_generation generation s in
      if generation < dls_current_generation s then (False, s)
      else if generation > dls_current_generation s then
        (True, s\<lparr>dls_current_generation := generation, dls_next_sequence := 0,
           dls_runtime_event_sequence := 0, dls_dropped_event_count := 0,
           dls_last_evicted_sequence := 0, dls_projection := download_runtime_info_default,
           dls_entries := Mapping.empty, dls_entry_event_sequence := Mapping.empty,
           dls_active_order := [], dls_completed_order := [], dls_timeline := []\<rparr>)
      else (True, s))"

definition prepare_runtime_event_order ::
  "u64 \<Rightarrow> u64 option \<Rightarrow> download_runtime_state \<Rightarrow> bool \<times> download_runtime_state" where
  "prepare_runtime_event_order generation browser_sequence s =
     (let (ok, s) = download_prepare_generation generation s in
      if \<not> ok then (False, s)
      else
        (case browser_sequence of
           None \<Rightarrow> (True, s)
         | Some sequence \<Rightarrow>
             if sequence = 0 then (True, s)
             else if sequence \<le> dls_runtime_event_sequence s then (False, s)
             else (True, s\<lparr>dls_runtime_event_sequence := sequence\<rparr>)))"

text \<open>\<^verbatim>\<open>DownloadRuntimeMutationOutcome\<close> is the flag \<^verbatim>\<open>applied\<close>; its projection is that of the new
  state.\<close>

definition apply_runtime_event ::
  "u64 \<Rightarrow> u64 option \<Rightarrow> download_runtime_status \<Rightarrow> download_mode \<Rightarrow> string option
   \<Rightarrow> string option \<Rightarrow> download_runtime_state \<Rightarrow> bool \<times> download_runtime_state" where
  "apply_runtime_event generation browser_sequence status mode download_dir degraded_reason s =
     (let (ok, s) = prepare_runtime_event_order generation browser_sequence s in
      if \<not> ok then (False, s)
      else (True, s\<lparr>dls_projection := (dls_projection s)\<lparr>
              dri_status := (if degraded_reason \<noteq> None then DownloadsDegraded else status),
              dri_mode := mode, dri_download_dir := download_dir,
              dri_degraded_reason := degraded_reason\<rparr>\<rparr>))"

definition apply_runtime_event_sequenced ::
  "u64 \<Rightarrow> u64 \<Rightarrow> download_runtime_status \<Rightarrow> download_mode \<Rightarrow> string option
   \<Rightarrow> string option \<Rightarrow> download_runtime_state \<Rightarrow> bool \<times> download_runtime_state" where
  "apply_runtime_event_sequenced generation browser_sequence status mode download_dir reason s =
     apply_runtime_event generation (Some browser_sequence) status mode download_dir reason s"

definition set_runtime ::
  "u64 \<Rightarrow> download_runtime_status \<Rightarrow> download_mode \<Rightarrow> string option
   \<Rightarrow> download_runtime_state \<Rightarrow> download_runtime_state" where
  "set_runtime generation status mode download_dir s =
     snd (apply_runtime_event generation None status mode download_dir None s)"

definition mark_degraded_sequenced ::
  "u64 \<Rightarrow> u64 option \<Rightarrow> string \<Rightarrow> download_runtime_state \<Rightarrow> bool \<times> download_runtime_state" where
  "mark_degraded_sequenced generation browser_sequence reason s =
     (let (ok, s) = prepare_runtime_event_order generation browser_sequence s in
      if \<not> ok then (False, s)
      else (True, s\<lparr>dls_projection := (dls_projection s)\<lparr>
              dri_status := DownloadsDegraded, dri_degraded_reason := Some reason\<rparr>\<rparr>))"

definition download_mark_degraded ::
  "u64 \<Rightarrow> string \<Rightarrow> download_runtime_state \<Rightarrow> download_runtime_state" where
  "download_mark_degraded generation reason s = snd (mark_degraded_sequenced generation None reason s)"

definition mark_degraded_browser_event ::
  "u64 \<Rightarrow> u64 \<Rightarrow> string \<Rightarrow> download_runtime_state \<Rightarrow> download_runtime_state" where
  "mark_degraded_browser_event generation browser_sequence reason s =
     snd (mark_degraded_sequenced generation (Some browser_sequence) reason s)"

fun trim_download_order ::
  "nat \<Rightarrow> string list \<Rightarrow> string list \<Rightarrow> (string, download_entry) mapping \<Rightarrow> (string, u64) mapping
   \<Rightarrow> string list \<times> (string, download_entry) mapping \<times> (string, u64) mapping" where
  "trim_download_order limit retained_elsewhere [] entries sequences = ([], entries, sequences)"
| "trim_download_order limit retained_elsewhere (oldest # order) entries sequences =
     (if length (oldest # order) > limit then
        (if oldest \<in> set retained_elsewhere
         then trim_download_order limit retained_elsewhere order entries sequences
         else trim_download_order limit retained_elsewhere order (Mapping.delete oldest entries)
                (Mapping.delete oldest sequences))
      else (oldest # order, entries, sequences))"

definition move_to_active :: "string \<Rightarrow> download_runtime_state \<Rightarrow> download_runtime_state" where
  "move_to_active guid s =
     (let active = filter (\<lambda>g. g \<noteq> guid) (dls_active_order s) @ [guid];
          completed = filter (\<lambda>g. g \<noteq> guid) (dls_completed_order s);
          (active, entries, sequences) = trim_download_order ACTIVE_DOWNLOAD_LIMIT completed active
            (dls_entries s) (dls_entry_event_sequence s)
      in s\<lparr>dls_active_order := active, dls_completed_order := completed, dls_entries := entries,
           dls_entry_event_sequence := sequences\<rparr>)"

definition move_to_completed :: "string \<Rightarrow> download_runtime_state \<Rightarrow> download_runtime_state" where
  "move_to_completed guid s =
     (let active = filter (\<lambda>g. g \<noteq> guid) (dls_active_order s);
          completed = filter (\<lambda>g. g \<noteq> guid) (dls_completed_order s) @ [guid];
          (completed, entries, sequences) = trim_download_order COMPLETED_DOWNLOAD_LIMIT active
            completed (dls_entries s) (dls_entry_event_sequence s)
      in s\<lparr>dls_active_order := active, dls_completed_order := completed, dls_entries := entries,
           dls_entry_event_sequence := sequences\<rparr>)"

definition new_entry :: "string \<Rightarrow> string \<Rightarrow> download_entry" where
  "new_entry guid now =
     \<lparr>de_guid = guid, de_state = DownloadStarted, de_url = None, de_suggested_filename = None,
      de_final_path = None, de_mime_hint = None, de_received_bytes = 0, de_total_bytes = None,
      de_started_at = now, de_completed_at = None, de_frame_id = None,
      de_trigger_command_id = None\<rparr>"

definition write_metadata ::
  "string \<Rightarrow> string \<Rightarrow> string option \<Rightarrow> string \<Rightarrow> download_entry \<Rightarrow> download_entry" where
  "write_metadata url suggested_filename frame_id started_at entry =
     (let entry = entry\<lparr>de_url := Some url, de_suggested_filename := Some suggested_filename,
            de_frame_id := frame_id\<rparr>
      in if de_started_at entry = [] then entry\<lparr>de_started_at := started_at\<rparr> else entry)"

definition last_entry_sequence :: "string \<Rightarrow> download_runtime_state \<Rightarrow> u64" where
  "last_entry_sequence guid s =
     (case Mapping.lookup (dls_entry_event_sequence s) guid of Some n \<Rightarrow> n | None \<Rightarrow> 0)"

text \<open>The tail of \<^verbatim>\<open>record_started\<close>: the entry is new or still in its first state.\<close>

definition record_started_entry ::
  "string \<Rightarrow> string \<Rightarrow> string \<Rightarrow> string option \<Rightarrow> string \<Rightarrow> u64 \<Rightarrow> download_entry
   \<Rightarrow> download_runtime_state \<Rightarrow> download_entry \<times> download_runtime_state" where
  "record_started_entry guid url suggested_filename frame_id now sequence entry s =
     (let entry = write_metadata url suggested_filename frame_id now
                    (entry\<lparr>de_state := DownloadStarted\<rparr>);
          s = s\<lparr>dls_entries := Mapping.update guid entry (dls_entries s),
                dls_entry_event_sequence :=
                  Mapping.update guid sequence (dls_entry_event_sequence s)\<rparr>;
          s = move_to_active guid s;
          s = s\<lparr>dls_projection := (dls_projection s)\<lparr>dri_last_download := Some entry\<rparr>\<rparr>;
          s = record_event DownloadEventStarted entry s
      in (entry, s))"

definition record_started ::
  "u64 \<Rightarrow> u64 \<Rightarrow> string \<Rightarrow> string \<Rightarrow> string \<Rightarrow> string option \<Rightarrow> string
   \<Rightarrow> download_runtime_state \<Rightarrow> download_entry \<times> download_runtime_state" where
  "record_started generation sequence guid url suggested_filename frame_id now s =
     (let (ok, s) = download_prepare_generation generation s;
          refused = (case Mapping.lookup (dls_entries s) guid of
              Some entry \<Rightarrow> entry
            | None \<Rightarrow> (new_entry guid now)\<lparr>de_url := Some url,
                        de_suggested_filename := Some suggested_filename,
                        de_frame_id := frame_id\<rparr>)
      in
      if \<not> ok then (refused, s)
      else if sequence \<le> last_entry_sequence guid s then (refused, s)
      else
        (case Mapping.lookup (dls_entries s) guid of
           Some existing \<Rightarrow>
             if de_state existing \<noteq> DownloadStarted then
               let entry = write_metadata url suggested_filename frame_id now existing;
                   s = s\<lparr>dls_entries := Mapping.update guid entry (dls_entries s),
                     dls_entry_event_sequence :=
                       Mapping.update guid sequence (dls_entry_event_sequence s)\<rparr>;
                   s = backfill_timeline_metadata guid url suggested_filename frame_id s;
                   s = (case dri_last_download (dls_projection s) of
                          Some download \<Rightarrow>
                            if de_guid download = guid
                            then s\<lparr>dls_projection := (dls_projection s)\<lparr>dri_last_download := Some entry\<rparr>\<rparr>
                            else s
                        | None \<Rightarrow> s)
               in (entry, s)
             else record_started_entry guid url suggested_filename frame_id now sequence existing s
         | None \<Rightarrow>
             record_started_entry guid url suggested_filename frame_id now sequence
               (new_entry guid now) s))"

definition write_progress :: "download_progress_event \<Rightarrow> string \<Rightarrow> download_entry \<Rightarrow> download_entry" where
  "write_progress event now entry =
     (let entry = entry\<lparr>de_state := dpe_state event,
            de_received_bytes := max (de_received_bytes entry) (dpe_received_bytes event)\<rparr>;
          entry = (if dpe_total_bytes event \<noteq> None
                   then entry\<lparr>de_total_bytes := dpe_total_bytes event\<rparr> else entry);
          entry = (if dpe_final_path event \<noteq> None
                   then entry\<lparr>de_final_path := dpe_final_path event\<rparr> else entry)
      in if is_terminal (dpe_state event) then entry\<lparr>de_completed_at := Some now\<rparr> else entry)"

definition record_progress ::
  "download_progress_event \<Rightarrow> string \<Rightarrow> download_runtime_state
   \<Rightarrow> download_entry option \<times> download_runtime_state" where
  "record_progress event now s =
     (let (ok, s) = download_prepare_generation (dpe_generation event) s;
          guid = dpe_guid event
      in
      if \<not> ok then (Mapping.lookup (dls_entries s) guid, s)
      else if dpe_sequence event \<le> last_entry_sequence guid s
      then (Mapping.lookup (dls_entries s) guid, s)
      else
        let entry = (case Mapping.lookup (dls_entries s) guid of
               Some entry \<Rightarrow> entry | None \<Rightarrow> new_entry guid now) in
        if is_terminal (de_state entry) \<and> \<not> is_terminal (dpe_state event) then (Some entry, s)
        else
          let entry = write_progress event now entry;
              s = s\<lparr>dls_entries := Mapping.update guid entry (dls_entries s),
                    dls_entry_event_sequence :=
                      Mapping.update guid (dpe_sequence event) (dls_entry_event_sequence s)\<rparr>;
              s = (if is_terminal (dpe_state event) then move_to_completed guid s
                   else move_to_active guid s);
              s = s\<lparr>dls_projection := (dls_projection s)\<lparr>dri_last_download := Some entry\<rparr>\<rparr>;
              s = record_event (event_kind_for_state (dpe_state event)) entry s
          in (Some entry, s))"

text \<open>\<^verbatim>\<open>apply_runtime_projection_sequenced\<close>: the loops that rebuild the registry from a reported
  projection, then the events for the entries that changed.\<close>

definition recovered_entries :: "download_runtime_info \<Rightarrow> download_entry list" where
  "recovered_entries runtime =
     (let recovered = dri_active_downloads runtime;
          add = (\<lambda>download recovered.
            if list_ex (\<lambda>e. de_guid e = de_guid download) recovered then recovered
            else recovered @ [download]);
          recovered = fold add (dri_completed_downloads runtime) recovered
      in case dri_last_download runtime of
           None \<Rightarrow> recovered
         | Some download \<Rightarrow> add download recovered)"

definition projected_entries :: "download_runtime_info \<Rightarrow> (string, download_entry) mapping" where
  "projected_entries runtime =
     (let entries = fold (\<lambda>d. Mapping.update (de_guid d) d)
            (dri_active_downloads runtime @ dri_completed_downloads runtime) Mapping.empty
      in case dri_last_download runtime of
           None \<Rightarrow> entries
         | Some d \<Rightarrow> (case Mapping.lookup entries (de_guid d) of
                       Some _ \<Rightarrow> entries
                     | None \<Rightarrow> Mapping.update (de_guid d) d entries))"

definition projected_completed_order :: "download_entry list \<Rightarrow> string list" where
  "projected_completed_order downloads =
     fold (\<lambda>d order. if de_guid d \<in> set order then order else order @ [de_guid d]) downloads []"

definition last_of :: "'a list \<Rightarrow> 'a option" where
  "last_of xs = (if xs = [] then None else Some (last xs))"

definition apply_runtime_projection_sequenced ::
  "u64 \<Rightarrow> u64 \<Rightarrow> download_runtime_info \<Rightarrow> download_runtime_state
   \<Rightarrow> bool \<times> download_runtime_state" where
  "apply_runtime_projection_sequenced generation browser_sequence runtime s =
     (let (applied, s) = apply_runtime_event generation (Some browser_sequence)
            (dri_status runtime) (dri_mode runtime) (dri_download_dir runtime)
            (dri_degraded_reason runtime) s
      in
      if \<not> applied then (False, s)
      else
        let previous = dls_entries s;
            s = s\<lparr>dls_entries := projected_entries runtime,
                  dls_entry_event_sequence := Mapping.empty,
                  dls_active_order := map de_guid (dri_active_downloads runtime),
                  dls_completed_order := projected_completed_order (dri_completed_downloads runtime),
                  dls_projection := (dls_projection s)\<lparr>
                    dri_active_downloads := dri_active_downloads runtime,
                    dri_completed_downloads := dri_completed_downloads runtime,
                    dri_last_download := or_else (dri_last_download runtime)
                      (or_else (last_of (dri_active_downloads runtime))
                        (last_of (dri_completed_downloads runtime)))\<rparr>\<rparr>;
            s = fold (\<lambda>d s. if Mapping.lookup previous (de_guid d) \<noteq> Some d
                       then record_event (event_kind_for_state (de_state d)) d s else s)
                  (recovered_entries runtime) s
        in (True, s))"

section \<open>Sequences of operations\<close>

datatype download_op =
    DownloadRuntimeEvent u64 "u64 option" download_runtime_status download_mode "string option"
      "string option"
  | DownloadDegraded u64 "u64 option" string
  | DownloadProjection u64 u64 download_runtime_info
  | DownloadStart u64 u64 string string string "string option" string
  | DownloadProgress download_progress_event string

fun run_download_op :: "download_op \<Rightarrow> download_runtime_state \<Rightarrow> download_runtime_state" where
  "run_download_op (DownloadRuntimeEvent g n st md dir deg) s =
     snd (apply_runtime_event g n st md dir deg s)"
| "run_download_op (DownloadDegraded g n reason) s = snd (mark_degraded_sequenced g n reason s)"
| "run_download_op (DownloadProjection g n runtime) s =
     snd (apply_runtime_projection_sequenced g n runtime s)"
| "run_download_op (DownloadStart g n guid url name frame now) s =
     snd (record_started g n guid url name frame now s)"
| "run_download_op (DownloadProgress event now) s = snd (record_progress event now s)"

fun download_op_generation :: "download_op \<Rightarrow> u64" where
  "download_op_generation (DownloadRuntimeEvent g _ _ _ _ _) = g"
| "download_op_generation (DownloadDegraded g _ _) = g"
| "download_op_generation (DownloadProjection g _ _) = g"
| "download_op_generation (DownloadStart g _ _ _ _ _ _) = g"
| "download_op_generation (DownloadProgress event _) = dpe_generation event"

text \<open>What the browser side promises of a reported projection: each guid once, within the limits,
  running downloads listed as active and finished ones as completed.\<close>

definition download_info_ok :: "download_runtime_info \<Rightarrow> bool" where
  "download_info_ok runtime \<longleftrightarrow>
     distinct (map de_guid (dri_active_downloads runtime @ dri_completed_downloads runtime)) \<and>
     length (dri_active_downloads runtime) \<le> 32 \<and>
     length (dri_completed_downloads runtime) \<le> 64 \<and>
     list_all (\<lambda>d. \<not> is_terminal (de_state d)) (dri_active_downloads runtime) \<and>
     list_all (\<lambda>d. is_terminal (de_state d)) (dri_completed_downloads runtime)"

fun download_op_ok :: "download_op \<Rightarrow> bool" where
  "download_op_ok (DownloadProjection _ _ runtime) = download_info_ok runtime"
| "download_op_ok _ = True"

fun download_op_events :: "download_op \<Rightarrow> nat" where
  "download_op_events (DownloadProjection _ _ runtime) = length (recovered_entries runtime)"
| "download_op_events _ = 1"

inductive download_reachable :: "download_runtime_state \<Rightarrow> bool" where
  download_init: "download_reachable download_runtime_default"
| download_step: "download_reachable s \<Longrightarrow> download_op_ok op \<Longrightarrow>
    unat (dls_next_sequence s) + download_op_events op < 2 ^ 64 - 1 \<Longrightarrow>
    download_reachable (run_download_op op s)"

section \<open>The timeline\<close>

lemma evict_timeline_short:
  "length es \<le> limit \<Longrightarrow> evict_timeline limit es ev dr = (es, ev, dr)"
  by (cases es) auto

lemma evict_timeline_one:
  "length es \<le> limit \<Longrightarrow> evict_timeline limit (e # es) ev dr =
     (if length es < limit then (e # es, ev, dr)
      else (es, max ev (dev_sequence e), saturating_add dr 1))"
  by (auto simp: evict_timeline_short)

lemma evict_timeline_drop: "fst (evict_timeline limit es ev dr) = drop (length es - limit) es"
  by (induction limit es ev dr rule: evict_timeline.induct) (auto simp: Suc_diff_le)

lemma record_event_simps [simp]:
  "dls_next_sequence (record_event k d s) = max (dls_next_sequence s) 1 + 1"
  "dls_timeline (record_event k d s) = drop (Suc (length (dls_timeline s)) - DOWNLOAD_EVENT_LIMIT)
     (dls_timeline s @
       [\<lparr>dev_sequence = max (dls_next_sequence s) 1, dev_kind = k, dev_download = d\<rparr>])"
  "dls_entries (record_event k d s) = dls_entries s"
  "dls_entry_event_sequence (record_event k d s) = dls_entry_event_sequence s"
  "dls_active_order (record_event k d s) = dls_active_order s"
  "dls_completed_order (record_event k d s) = dls_completed_order s"
  "dls_current_generation (record_event k d s) = dls_current_generation s"
  "dls_projection (record_event k d s) = dls_projection s"
  "dls_runtime_event_sequence (record_event k d s) = dls_runtime_event_sequence s"
proof -
  let ?t = "dls_timeline s @
    [\<lparr>dev_sequence = max (dls_next_sequence s) 1, dev_kind = k, dev_download = d\<rparr>]"
  show "dls_timeline (record_event k d s) = drop (Suc (length (dls_timeline s)) - DOWNLOAD_EVENT_LIMIT) ?t"
    using evict_timeline_drop [of DOWNLOAD_EVENT_LIMIT ?t "dls_last_evicted_sequence s"
        "dls_dropped_event_count s"]
    by (simp add: record_event_def Let_def split_def)
qed (simp_all add: record_event_def Let_def split_def)

lemma record_event_eviction:
  assumes "length (dls_timeline s) \<le> DOWNLOAD_EVENT_LIMIT"
  shows "dls_last_evicted_sequence (record_event k d s) =
      (if length (dls_timeline s) = DOWNLOAD_EVENT_LIMIT
       then max (dls_last_evicted_sequence s) (dev_sequence (hd (dls_timeline s)))
       else dls_last_evicted_sequence s)"
    and "dls_dropped_event_count (record_event k d s) =
      (if length (dls_timeline s) = DOWNLOAD_EVENT_LIMIT
       then saturating_add (dls_dropped_event_count s) 1 else dls_dropped_event_count s)"
  using assms
  by (cases "dls_timeline s"; auto simp: record_event_def Let_def split_def evict_timeline_short
      DOWNLOAD_EVENT_LIMIT_def)+

interpretation download_log: accounted_log dev_sequence dls_next_sequence dls_timeline
    "\<lambda>(k, d). record_event k d"
    "\<lambda>(k, d) n. \<lparr>dev_sequence = n, dev_kind = k, dev_download = d\<rparr>" DOWNLOAD_EVENT_LIMIT
    dls_last_evicted_sequence dls_dropped_event_count
proof unfold_locales
  fix i :: "download_event_kind \<times> download_entry" and s
  obtain k d where i: "i = (k, d)" by (cases i)
  show "\<exists>n. dls_timeline ((case i of (k, d) \<Rightarrow> record_event k d) s) = drop n (dls_timeline s @
      [(case i of (k, d) \<Rightarrow> \<lambda>n. \<lparr>dev_sequence = n, dev_kind = k, dev_download = d\<rparr>)
        (max (dls_next_sequence s) 1)])"
    unfolding i prod.case record_event_simps by blast
qed (auto simp: DOWNLOAD_EVENT_LIMIT_def record_event_eviction split: prod.split)

definition download_log_ok :: "download_runtime_state \<Rightarrow> bool" where
  "download_log_ok s \<longleftrightarrow>
     accounted DOWNLOAD_EVENT_LIMIT (dls_next_sequence s) (map dev_sequence (dls_timeline s))
       (dls_last_evicted_sequence s) (dls_dropped_event_count s)"

lemma download_log_push:
  "download_log_ok s \<Longrightarrow> unat (dls_next_sequence s) < 2 ^ 64 - 1 \<Longrightarrow>
   download_log_ok (record_event k d s)"
  using download_log.accounted_push [of s "(k, d)"]
  by (simp add: download_log_ok_def del: record_event_simps(1,2))

section \<open>The orders\<close>

lemma trim_download_order_simps:
  assumes "distinct order" and "set order \<inter> set elsewhere = {}"
  shows "fst (trim_download_order limit elsewhere order es qs) = drop (length order - limit) order"
    and "Mapping.lookup (fst (snd (trim_download_order limit elsewhere order es qs))) g =
      (if g \<in> set (take (length order - limit) order) then None else Mapping.lookup es g)"
  using assms
proof (induction limit elsewhere order es qs rule: trim_download_order.induct)
  case (2 limit elsewhere oldest order es qs)
  note IH = "2.IH"
  {
    case 1
    with IH show ?case by (auto simp: Suc_diff_le)
  next
    case 2
    show ?case
    proof (cases "length (oldest # order) > limit")
      case True
      then have t: "take (length (oldest # order) - limit) (oldest # order) =
          oldest # take (length order - limit) order"
        by (simp add: Suc_diff_le)
      show ?thesis
        using True 2 IH(4) unfolding t by (auto simp: lookup_delete_if)
    next
      case False
      then show ?thesis by simp
    qed
  }
qed simp_all

definition listed :: "(download_entry \<Rightarrow> bool) \<Rightarrow> (string, download_entry) mapping \<Rightarrow> string list \<Rightarrow> bool" where
  "listed P entries order \<longleftrightarrow>
     (\<forall>g\<in>set order. \<exists>e. Mapping.lookup entries g = Some e \<and> P e)"

definition download_listed_ok ::
  "(string, download_entry) mapping \<Rightarrow> string list \<Rightarrow> string list \<Rightarrow> bool" where
  "download_listed_ok entries active completed \<longleftrightarrow>
     distinct (active @ completed) \<and> length active \<le> 32 \<and> length completed \<le> 64 \<and>
     listed (\<lambda>e. \<not> is_terminal (de_state e)) entries active \<and>
     listed (\<lambda>e. is_terminal (de_state e)) entries completed \<and>
     (\<forall>g e. Mapping.lookup entries g = Some e \<longrightarrow> de_guid e = g)"

text \<open>A guid moved to the back of one order with its entry rewritten, the front of that order
  evicted.\<close>

lemma listed_moved:
  assumes "listed P es xs" and "P e" and "distinct (filter (\<lambda>g. g \<noteq> guid) xs @ [guid])"
    and "\<And>g. Mapping.lookup es' g = (if g \<in> set (take n (filter (\<lambda>g. g \<noteq> guid) xs @ [guid]))
      then None else Mapping.lookup (Mapping.update guid e es) g)"
  shows "listed P es' (drop n (filter (\<lambda>g. g \<noteq> guid) xs @ [guid]))"
  unfolding listed_def
proof
  let ?xs = "filter (\<lambda>g. g \<noteq> guid) xs @ [guid]"
  fix g assume g: "g \<in> set (drop n ?xs)"
  have "set (take n ?xs) \<inter> set (drop n ?xs) = {}"
    using assms(3) by (metis append_take_drop_id distinct_append)
  with g have l: "Mapping.lookup es' g = Mapping.lookup (Mapping.update guid e es) g"
    unfolding assms(4) by auto
  show "\<exists>e. Mapping.lookup es' g = Some e \<and> P e"
  proof (cases "g = guid")
    case True
    with l assms(2) show ?thesis by (simp add: lookup_update')
  next
    case False
    with g have "g \<in> set xs" using set_drop_subset [of n ?xs] by auto
    with l False assms(1) show ?thesis by (simp add: lookup_update' listed_def)
  qed
qed

lemma listed_other:
  assumes "listed P es ys" and "set xs \<inter> set ys = {}"
    and "\<And>g. Mapping.lookup es' g = (if g \<in> set (take n (filter (\<lambda>g. g \<noteq> guid) xs @ [guid]))
      then None else Mapping.lookup (Mapping.update guid e es) g)"
  shows "listed P es' (filter (\<lambda>g. g \<noteq> guid) ys)"
  unfolding listed_def
proof
  let ?xs = "filter (\<lambda>g. g \<noteq> guid) xs @ [guid]"
  fix g assume g: "g \<in> set (filter (\<lambda>g. g \<noteq> guid) ys)"
  then have "g \<notin> set (take n ?xs)"
    using set_take_subset [of n ?xs] assms(2) by auto
  then have "Mapping.lookup es' g = Mapping.lookup es g"
    unfolding assms(3) using g by (auto simp: lookup_update')
  with g assms(1) show "\<exists>e. Mapping.lookup es' g = Some e \<and> P e" by (simp add: listed_def)
qed

abbreviation download_order_ok :: "download_runtime_state \<Rightarrow> bool" where
  "download_order_ok s \<equiv>
     download_listed_ok (dls_entries s) (dls_active_order s) (dls_completed_order s)"

lemma move_to_active_simps:
  assumes "distinct (dls_active_order s @ dls_completed_order s)"
    and active_def: "active = filter (\<lambda>g. g \<noteq> guid) (dls_active_order s) @ [guid]"
  shows "dls_active_order (move_to_active guid s) = drop (length active - 32) active"
    and "dls_completed_order (move_to_active guid s) =
      filter (\<lambda>g. g \<noteq> guid) (dls_completed_order s)"
    and "Mapping.lookup (dls_entries (move_to_active guid s)) g =
      (if g \<in> set (take (length active - 32) active) then None
       else Mapping.lookup (dls_entries s) g)"
proof -
  have "distinct active" "set active \<inter> set (filter (\<lambda>g. g \<noteq> guid) (dls_completed_order s)) = {}"
    using assms by auto
  note trim = trim_download_order_simps [OF this, where limit = ACTIVE_DOWNLOAD_LIMIT]
  show "dls_active_order (move_to_active guid s) = drop (length active - 32) active"
    "dls_completed_order (move_to_active guid s) = filter (\<lambda>g. g \<noteq> guid) (dls_completed_order s)"
    "Mapping.lookup (dls_entries (move_to_active guid s)) g =
      (if g \<in> set (take (length active - 32) active) then None
       else Mapping.lookup (dls_entries s) g)"
    using trim unfolding active_def
    by (simp_all add: move_to_active_def Let_def split_def ACTIVE_DOWNLOAD_LIMIT_def)
qed

lemma move_to_completed_simps:
  assumes "distinct (dls_active_order s @ dls_completed_order s)"
    and completed_def: "completed = filter (\<lambda>g. g \<noteq> guid) (dls_completed_order s) @ [guid]"
  shows "dls_completed_order (move_to_completed guid s) = drop (length completed - 64) completed"
    and "dls_active_order (move_to_completed guid s) =
      filter (\<lambda>g. g \<noteq> guid) (dls_active_order s)"
    and "Mapping.lookup (dls_entries (move_to_completed guid s)) g =
      (if g \<in> set (take (length completed - 64) completed) then None
       else Mapping.lookup (dls_entries s) g)"
proof -
  have "distinct completed" "set completed \<inter> set (filter (\<lambda>g. g \<noteq> guid) (dls_active_order s)) = {}"
    using assms by auto
  note trim = trim_download_order_simps [OF this, where limit = COMPLETED_DOWNLOAD_LIMIT]
  show "dls_completed_order (move_to_completed guid s) = drop (length completed - 64) completed"
    "dls_active_order (move_to_completed guid s) = filter (\<lambda>g. g \<noteq> guid) (dls_active_order s)"
    "Mapping.lookup (dls_entries (move_to_completed guid s)) g =
      (if g \<in> set (take (length completed - 64) completed) then None
       else Mapping.lookup (dls_entries s) g)"
    using trim unfolding completed_def
    by (simp_all add: move_to_completed_def Let_def split_def COMPLETED_DOWNLOAD_LIMIT_def)
qed

lemma order_ok_active:
  assumes "download_order_ok s" and "de_guid e = guid" and "\<not> is_terminal (de_state e)"
  shows "download_order_ok (move_to_active guid
    (s\<lparr>dls_entries := Mapping.update guid e (dls_entries s), dls_entry_event_sequence := q\<rparr>))"
proof -
  let ?s = "s\<lparr>dls_entries := Mapping.update guid e (dls_entries s), dls_entry_event_sequence := q\<rparr>"
  let ?xs = "filter (\<lambda>g. g \<noteq> guid) (dls_active_order s) @ [guid]"
  let ?n = "length ?xs - 32"
  note ok = assms(1) [unfolded download_listed_ok_def]
  have d: "distinct (dls_active_order ?s @ dls_completed_order ?s)" using ok by simp
  have xs: "?xs = filter (\<lambda>g. g \<noteq> guid) (dls_active_order ?s) @ [guid]" by simp
  note moved = move_to_active_simps [OF d xs]
  have m: "dls_active_order (move_to_active guid ?s) = drop ?n ?xs"
      "dls_completed_order (move_to_active guid ?s) = filter (\<lambda>g. g \<noteq> guid) (dls_completed_order s)"
      "Mapping.lookup (dls_entries (move_to_active guid ?s)) g = (if g \<in> set (take ?n ?xs) then None
        else Mapping.lookup (Mapping.update guid e (dls_entries s)) g)" for g
    using moved(1) moved(2) moved(3) [of g] by simp_all
  have dist: "distinct ?xs" using ok by auto
  have disj: "set (dls_active_order s) \<inter> set (dls_completed_order s) = {}" using ok by auto
  have dd: "distinct (drop ?n ?xs)" using dist by (rule distinct_drop)
  have sub: "set (drop ?n ?xs) \<subseteq> insert guid (set (dls_active_order s))"
    using set_drop_subset [of ?n ?xs] by auto
  show ?thesis
    unfolding download_listed_ok_def
  proof (intro conjI)
    show "distinct (dls_active_order (move_to_active guid ?s) @
        dls_completed_order (move_to_active guid ?s))"
      unfolding m using dd sub disj ok by auto
    show "length (dls_active_order (move_to_active guid ?s)) \<le> 32"
      unfolding m by simp
    show "length (dls_completed_order (move_to_active guid ?s)) \<le> 64"
      unfolding m by (rule order.trans [OF length_filter_le]) (use ok in simp)
    show "listed (\<lambda>e. \<not> is_terminal (de_state e)) (dls_entries (move_to_active guid ?s))
        (dls_active_order (move_to_active guid ?s))"
      unfolding m(1) by (rule listed_moved [OF _ _ dist m(3)]) (use ok assms(3) in blast)+
    show "listed (\<lambda>e. is_terminal (de_state e)) (dls_entries (move_to_active guid ?s))
        (dls_completed_order (move_to_active guid ?s))"
      unfolding m(2) by (rule listed_other [OF _ disj m(3)]) (use ok in blast)
    show "\<forall>g e. Mapping.lookup (dls_entries (move_to_active guid ?s)) g = Some e \<longrightarrow> de_guid e = g"
      unfolding m(3) using ok assms(2) by (auto simp: lookup_update')
  qed
qed

lemma order_ok_completed:
  assumes "download_order_ok s" and "de_guid e = guid" and "is_terminal (de_state e)"
  shows "download_order_ok (move_to_completed guid
    (s\<lparr>dls_entries := Mapping.update guid e (dls_entries s), dls_entry_event_sequence := q\<rparr>))"
proof -
  let ?s = "s\<lparr>dls_entries := Mapping.update guid e (dls_entries s), dls_entry_event_sequence := q\<rparr>"
  let ?xs = "filter (\<lambda>g. g \<noteq> guid) (dls_completed_order s) @ [guid]"
  let ?n = "length ?xs - 64"
  note ok = assms(1) [unfolded download_listed_ok_def]
  have d: "distinct (dls_active_order ?s @ dls_completed_order ?s)" using ok by simp
  have xs: "?xs = filter (\<lambda>g. g \<noteq> guid) (dls_completed_order ?s) @ [guid]" by simp
  note moved = move_to_completed_simps [OF d xs]
  have m: "dls_completed_order (move_to_completed guid ?s) = drop ?n ?xs"
      "dls_active_order (move_to_completed guid ?s) = filter (\<lambda>g. g \<noteq> guid) (dls_active_order s)"
      "Mapping.lookup (dls_entries (move_to_completed guid ?s)) g = (if g \<in> set (take ?n ?xs) then None
        else Mapping.lookup (Mapping.update guid e (dls_entries s)) g)" for g
    using moved(1) moved(2) moved(3) [of g] by simp_all
  have dist: "distinct ?xs" using ok by auto
  have disj: "set (dls_completed_order s) \<inter> set (dls_active_order s) = {}" using ok by auto
  have dd: "distinct (drop ?n ?xs)" using dist by (rule distinct_drop)
  have sub: "set (drop ?n ?xs) \<subseteq> insert guid (set (dls_completed_order s))"
    using set_drop_subset [of ?n ?xs] by auto
  show ?thesis
    unfolding download_listed_ok_def
  proof (intro conjI)
    show "distinct (dls_active_order (move_to_completed guid ?s) @
        dls_completed_order (move_to_completed guid ?s))"
      unfolding m using dd sub disj ok by auto
    show "length (dls_completed_order (move_to_completed guid ?s)) \<le> 64"
      unfolding m by simp
    show "length (dls_active_order (move_to_completed guid ?s)) \<le> 32"
      unfolding m by (rule order.trans [OF length_filter_le]) (use ok in simp)
    show "listed (\<lambda>e. is_terminal (de_state e)) (dls_entries (move_to_completed guid ?s))
        (dls_completed_order (move_to_completed guid ?s))"
      unfolding m(1) by (rule listed_moved [OF _ _ dist m(3)]) (use ok assms(3) in blast)+
    show "listed (\<lambda>e. \<not> is_terminal (de_state e)) (dls_entries (move_to_completed guid ?s))
        (dls_active_order (move_to_completed guid ?s))"
      unfolding m(2) by (rule listed_other [OF _ disj m(3)]) (use ok in blast)
    show "\<forall>g e. Mapping.lookup (dls_entries (move_to_completed guid ?s)) g = Some e \<longrightarrow> de_guid e = g"
      unfolding m(3) using ok assms(2) by (auto simp: lookup_update')
  qed
qed

section \<open>What the operations keep\<close>

definition download_ok :: "download_runtime_state \<Rightarrow> bool" where
  "download_ok s \<longleftrightarrow> download_order_ok s \<and> download_log_ok s"

lemma download_ok_reset:
  "dls_next_sequence s = 0 \<Longrightarrow> dls_timeline s = [] \<Longrightarrow> dls_last_evicted_sequence s = 0 \<Longrightarrow>
   dls_dropped_event_count s = 0 \<Longrightarrow> dls_active_order s = [] \<Longrightarrow> dls_completed_order s = [] \<Longrightarrow>
   dls_entries s = Mapping.empty \<Longrightarrow> download_ok s"
  by (simp add: download_ok_def download_listed_ok_def listed_def download_log_ok_def lookup_empty
      accounted_fresh)

lemma download_ok_event:
  "download_ok s \<Longrightarrow> unat (dls_next_sequence s) < 2 ^ 64 - 1 \<Longrightarrow> download_ok (record_event k d s)"
  by (simp add: download_ok_def download_log_push del: record_event_simps(1,2))

lemma download_ok_projection:
  "download_ok (s\<lparr>dls_projection := p\<rparr>) = download_ok s"
  "download_ok (s\<lparr>dls_runtime_event_sequence := n\<rparr>) = download_ok s"
  by (simp_all add: download_ok_def download_log_ok_def)

lemma prepare_generation_cases:
  assumes "download_prepare_generation g s = (ok, s')"
  shows "(s' = s \<and> (ok \<longleftrightarrow> g = 0 \<or> dls_current_generation s \<le> g) \<and> (ok \<longrightarrow> g = 0 \<or> g = dls_current_generation s)) \<or>
    (ok \<and> dls_current_generation s < g \<and>
     s' = download_runtime_default\<lparr>dls_current_generation := g\<rparr>)"
  using assms
  by (auto simp: download_prepare_generation_def download_effective_generation_def Let_def
      download_runtime_default_def split: if_splits)

lemma prepare_generation_ok:
  assumes "download_prepare_generation g s = (ok, s')" and "download_ok s"
  shows "download_ok s'" and "unat (dls_next_sequence s') \<le> unat (dls_next_sequence s)"
proof -
  have "download_ok (download_runtime_default\<lparr>dls_current_generation := g\<rparr>)"
    by (rule download_ok_reset) (simp_all add: download_runtime_default_def)
  then show "download_ok s'" "unat (dls_next_sequence s') \<le> unat (dls_next_sequence s)"
    using prepare_generation_cases [OF assms(1)] assms(2)
    by (auto simp: download_runtime_default_def)
qed

lemma runtime_order_ok:
  assumes "prepare_runtime_event_order g n s = (ok, s')" and "download_ok s"
  shows "download_ok s'" and "unat (dls_next_sequence s') \<le> unat (dls_next_sequence s)"
proof -
  obtain ok' u where u: "download_prepare_generation g s = (ok', u)" by fastforce
  note p = prepare_generation_ok [OF u assms(2)]
  have "s' = u \<or> (\<exists>n. s' = u\<lparr>dls_runtime_event_sequence := n\<rparr>)"
    using assms(1) u by (auto simp: prepare_runtime_event_order_def split: if_splits option.splits)
  then show "download_ok s'" "unat (dls_next_sequence s') \<le> unat (dls_next_sequence s)"
    using p by (auto simp: download_ok_projection)
qed

lemma moves_keep:
  "dls_next_sequence (move_to_active g s) = dls_next_sequence s"
  "dls_timeline (move_to_active g s) = dls_timeline s"
  "dls_last_evicted_sequence (move_to_active g s) = dls_last_evicted_sequence s"
  "dls_dropped_event_count (move_to_active g s) = dls_dropped_event_count s"
  "dls_current_generation (move_to_active g s) = dls_current_generation s"
  "dls_next_sequence (move_to_completed g s) = dls_next_sequence s"
  "dls_timeline (move_to_completed g s) = dls_timeline s"
  "dls_last_evicted_sequence (move_to_completed g s) = dls_last_evicted_sequence s"
  "dls_dropped_event_count (move_to_completed g s) = dls_dropped_event_count s"
  "dls_current_generation (move_to_completed g s) = dls_current_generation s"
  by (simp_all add: move_to_active_def move_to_completed_def Let_def split_def)

lemma download_log_moves:
  "download_log_ok s \<Longrightarrow> download_log_ok (move_to_active g (s\<lparr>dls_entries := es, dls_entry_event_sequence := q\<rparr>))"
  "download_log_ok s \<Longrightarrow> download_log_ok (move_to_completed g (s\<lparr>dls_entries := es, dls_entry_event_sequence := q\<rparr>))"
  by (simp_all add: download_log_ok_def moves_keep)

lemma download_writes_simps [simp]:
  "de_guid (write_metadata url name frame now e) = de_guid e"
  "de_state (write_metadata url name frame now e) = de_state e"
  "de_received_bytes (write_metadata url name frame now e) = de_received_bytes e"
  "de_guid (write_progress event now e) = de_guid e"
  "de_state (write_progress event now e) = dpe_state event"
  "de_received_bytes (write_progress event now e) =
     max (de_received_bytes e) (dpe_received_bytes event)"
  "de_guid (new_entry g now) = g"
  "de_state (new_entry g now) = DownloadStarted"
  by (simp_all add: write_metadata_def write_progress_def new_entry_def Let_def)

lemma is_terminal_started [simp]: "\<not> is_terminal DownloadStarted"
  by (simp add: is_terminal_def)

lemma started_entry_ok:
  assumes "download_ok s" and "unat (dls_next_sequence s) < 2 ^ 64 - 1" and "de_guid entry = guid"
  shows "download_ok (snd (record_started_entry guid url name frame now n entry s))"
proof -
  let ?e = "write_metadata url name frame now (entry\<lparr>de_state := DownloadStarted\<rparr>)"
  let ?s = "move_to_active guid (s\<lparr>dls_entries := Mapping.update guid ?e (dls_entries s),
    dls_entry_event_sequence := Mapping.update guid n (dls_entry_event_sequence s)\<rparr>)"
  have "download_ok ?s"
    unfolding download_ok_def
    using assms by (intro conjI order_ok_active download_log_moves) (simp_all add: download_ok_def)
  then show ?thesis
    using assms(2) by (simp add: record_started_entry_def Let_def download_ok_event
        download_ok_projection moves_keep)
qed

lemma order_ok_rewrite:
  assumes "download_order_ok s" and "Mapping.lookup (dls_entries s) guid = Some e"
    and "de_guid e' = de_guid e" and "de_state e' = de_state e"
  shows "download_listed_ok (Mapping.update guid e' (dls_entries s)) (dls_active_order s)
    (dls_completed_order s)"
  using assms by (fastforce simp: download_listed_ok_def listed_def lookup_update')

lemma backfill_sequences: "dev_sequence \<circ> backfill_event guid url name frame = dev_sequence"
  by (auto simp: backfill_event_def Let_def)

lemma record_started_ok:
  assumes "download_ok s" and "unat (dls_next_sequence s) < 2 ^ 64 - 1"
  shows "download_ok (snd (record_started g n guid url name frame now s))"
proof -
  obtain ok u where u: "download_prepare_generation g s = (ok, u)" by fastforce
  note p = prepare_generation_ok [OF u assms(1)]
  have room: "unat (dls_next_sequence u) < 2 ^ 64 - 1" using p(2) assms(2) by simp
  show ?thesis
  proof (cases "ok \<and> \<not> n \<le> last_entry_sequence guid u")
    case True
    show ?thesis
    proof (cases "Mapping.lookup (dls_entries u) guid")
      case None
      with True u show ?thesis
        using started_entry_ok [OF p(1) room, of "new_entry guid now" guid]
        by (simp add: record_started_def)
    next
      case (Some e)
      have guid: "de_guid e = guid"
        using p(1) Some by (simp add: download_ok_def download_listed_ok_def)
      show ?thesis
      proof (cases "de_state e = DownloadStarted")
        case True
        with \<open>ok \<and> _\<close> Some u show ?thesis
          using started_entry_ok [OF p(1) room guid] by (simp add: record_started_def)
      next
        case False
        let ?e = "write_metadata url name frame now e"
        have "download_listed_ok (Mapping.update guid ?e (dls_entries u)) (dls_active_order u)
            (dls_completed_order u)"
          by (rule order_ok_rewrite [OF _ Some]) (use p(1) in \<open>simp_all add: download_ok_def\<close>)
        moreover have "download_log_ok u" using p(1) by (simp add: download_ok_def)
        ultimately show ?thesis
          using False \<open>ok \<and> _\<close> Some u
          by (simp add: record_started_def Let_def download_ok_def backfill_timeline_metadata_def
              download_log_ok_def backfill_sequences split: option.split)
      qed
    qed
  next
    case False
    with u p(1) show ?thesis by (auto simp: record_started_def Let_def)
  qed
qed

lemma record_progress_ok:
  assumes "download_ok s" and "unat (dls_next_sequence s) < 2 ^ 64 - 1"
  shows "download_ok (snd (record_progress event now s))"
proof -
  let ?guid = "dpe_guid event"
  obtain ok u where u: "download_prepare_generation (dpe_generation event) s = (ok, u)" by fastforce
  note p = prepare_generation_ok [OF u assms(1)]
  have room: "unat (dls_next_sequence u) < 2 ^ 64 - 1" using p(2) assms(2) by simp
  define entry where "entry = (case Mapping.lookup (dls_entries u) ?guid of
    Some entry \<Rightarrow> entry | None \<Rightarrow> new_entry ?guid now)"
  have guid: "de_guid entry = ?guid"
    using p(1) by (auto simp: entry_def download_ok_def download_listed_ok_def split: option.split)
  show ?thesis
  proof (cases "\<not> ok \<or> dpe_sequence event \<le> last_entry_sequence ?guid u \<or>
      (is_terminal (de_state entry) \<and> \<not> is_terminal (dpe_state event))")
    case True
    then show ?thesis
      using u p(1) by (auto simp: record_progress_def Let_def entry_def)
  next
    case False
    let ?e = "write_progress event now entry"
    let ?u = "u\<lparr>dls_entries := Mapping.update ?guid ?e (dls_entries u),
      dls_entry_event_sequence :=
        Mapping.update ?guid (dpe_sequence event) (dls_entry_event_sequence u)\<rparr>"
    let ?t = "if is_terminal (dpe_state event) then move_to_completed ?guid ?u
      else move_to_active ?guid ?u"
    have "download_ok ?t"
      using p(1) order_ok_completed [of u ?e ?guid] order_ok_active [of u ?e ?guid] guid
      by (simp add: download_ok_def download_log_moves)
    moreover have "dls_next_sequence ?t = dls_next_sequence u" by (simp add: moves_keep)
    moreover have "snd (record_progress event now s) =
        record_event (event_kind_for_state (dpe_state event)) ?e
          (?t\<lparr>dls_projection := (dls_projection ?t)\<lparr>dri_last_download := Some ?e\<rparr>\<rparr>)"
      using False u
      by (cases "is_terminal (de_state entry)") (simp_all add: record_progress_def Let_def flip: entry_def)
    ultimately show ?thesis
      using room by (simp add: download_ok_event download_ok_projection)
  qed
qed

lemma projected_completed_distinct:
  "distinct (map de_guid ds) \<Longrightarrow> projected_completed_order ds = map de_guid ds"
proof (induction ds rule: rev_induct)
  case (snoc d ds)
  then show ?case by (simp add: projected_completed_order_def)
qed (simp add: projected_completed_order_def)

lemma fold_entries_lookup:
  "distinct (map de_guid ds) \<Longrightarrow> d \<in> set ds \<Longrightarrow>
   Mapping.lookup (fold (\<lambda>d. Mapping.update (de_guid d) d) ds m) (de_guid d) = Some d"
  by (induction ds rule: rev_induct) (auto simp: lookup_update')

lemma fold_entries_keys:
  "\<forall>g e. Mapping.lookup m g = Some e \<longrightarrow> de_guid e = g \<Longrightarrow>
   Mapping.lookup (fold (\<lambda>d. Mapping.update (de_guid d) d) ds m) g = Some e \<Longrightarrow> de_guid e = g"
  by (induction ds rule: rev_induct) (auto simp: lookup_update' split: if_splits)

lemma projected_entries_ok:
  assumes "download_info_ok r"
  shows "download_listed_ok (projected_entries r) (map de_guid (dri_active_downloads r))
    (projected_completed_order (dri_completed_downloads r))"
proof -
  let ?ds = "dri_active_downloads r @ dri_completed_downloads r"
  let ?es = "fold (\<lambda>d. Mapping.update (de_guid d) d) ?ds Mapping.empty"
  note ok = assms [unfolded download_info_ok_def]
  have look: "Mapping.lookup (projected_entries r) (de_guid d) = Some d" if "d \<in> set ?ds" for d
  proof -
    have "Mapping.lookup ?es (de_guid d) = Some d"
      using ok that by (intro fold_entries_lookup) auto
    then show ?thesis
      by (auto simp: projected_entries_def Let_def lookup_update' simp del: fold_append
          split: option.split)
  qed
  have keys: "de_guid e = g" if "Mapping.lookup (projected_entries r) g = Some e" for g e
  proof -
    have "Mapping.lookup ?es g = Some e \<Longrightarrow> de_guid e = g" for g e
      by (rule fold_entries_keys [of Mapping.empty ?ds]) (simp add: lookup_empty)
    then show ?thesis
      using that by (auto simp: projected_entries_def Let_def lookup_update' simp del: fold_append
          split: option.splits if_splits)
  qed
  have "projected_completed_order (dri_completed_downloads r) = map de_guid (dri_completed_downloads r)"
    using ok by (intro projected_completed_distinct) auto
  then show ?thesis
    using ok look keys by (auto simp: download_listed_ok_def listed_def list_all_iff)
qed

lemma recovered_events_ok:
  "download_ok s \<Longrightarrow> max 1 (unat (dls_next_sequence s)) + length ds < 2 ^ 64 \<Longrightarrow>
   download_ok (fold (\<lambda>d s. if P d then record_event (event_kind_for_state (de_state d)) d s else s) ds s)"
proof (induction ds arbitrary: s)
  case (Cons d ds)
  let ?s = "record_event (event_kind_for_state (de_state d)) d s"
  have "download_ok ?s" using Cons.prems by (simp add: download_ok_event)
  moreover have "max 1 (unat (dls_next_sequence ?s)) = Suc (max 1 (unat (dls_next_sequence s)))"
    using download_log.nxt_run [of s "[(event_kind_for_state (de_state d), d)]"] Cons.prems by simp
  ultimately show ?case using Cons by (simp del: record_event_simps(1))
qed simp

lemma runtime_event_state:
  assumes "apply_runtime_event g n st md dir deg s = (ok, s')" and "download_ok s"
  shows "download_ok s'" and "unat (dls_next_sequence s') \<le> unat (dls_next_sequence s)"
proof -
  obtain ok' u where u: "prepare_runtime_event_order g n s = (ok', u)" by fastforce
  note p = runtime_order_ok [OF u assms(2)]
  show "download_ok s'" "unat (dls_next_sequence s') \<le> unat (dls_next_sequence s)"
    using assms(1) u p
    by (auto simp: apply_runtime_event_def Let_def download_ok_projection split: if_splits)
qed

lemma projection_ok:
  assumes "download_ok s" and "download_info_ok r"
    and "unat (dls_next_sequence s) + length (recovered_entries r) < 2 ^ 64 - 1"
  shows "download_ok (snd (apply_runtime_projection_sequenced g n r s))"
proof -
  obtain ok u where u: "apply_runtime_event g (Some n) (dri_status r) (dri_mode r)
      (dri_download_dir r) (dri_degraded_reason r) s = (ok, u)" by fastforce
  note p = runtime_event_state [OF u assms(1)]
  show ?thesis
  proof (cases ok)
    case True
    have "download_ok (u\<lparr>dls_entries := projected_entries r, dls_entry_event_sequence := Mapping.empty,
        dls_active_order := map de_guid (dri_active_downloads r),
        dls_completed_order := projected_completed_order (dri_completed_downloads r),
        dls_projection := q\<rparr>)" for q
      using p(1) projected_entries_ok [OF assms(2)]
      by (simp add: download_ok_def download_log_ok_def)
    then show ?thesis
      using True u p(2) assms(3)
      by (simp add: apply_runtime_projection_sequenced_def Let_def recovered_events_ok)
  next
    case False
    with u p(1) show ?thesis by (simp add: apply_runtime_projection_sequenced_def)
  qed
qed

lemma download_reachable_ok: "download_reachable s \<Longrightarrow> download_ok s"
proof (induction rule: download_reachable.induct)
  case download_init
  show ?case by (rule download_ok_reset) (simp_all add: download_runtime_default_def)
next
  case (download_step s op)
  show ?case
  proof (cases op)
    case (DownloadRuntimeEvent g n st md dir deg)
    then show ?thesis
      using runtime_event_state(1) [OF prod.collapse [symmetric] download_step.IH] by simp
  next
    case (DownloadDegraded g n reason)
    obtain ok u where u: "prepare_runtime_event_order g n s = (ok, u)" by fastforce
    show ?thesis
      using runtime_order_ok(1) [OF u download_step.IH] u DownloadDegraded
      by (simp add: mark_degraded_sequenced_def Let_def download_ok_projection)
  qed (use download_step in \<open>simp_all add: projection_ok record_started_ok record_progress_ok\<close>)
qed

section \<open>The fences\<close>

lemma record_events_keep:
  "dls_current_generation (fold (\<lambda>d s. if P d then record_event (k d) d s else s) ds s) =
     dls_current_generation s"
  by (induction ds arbitrary: s) auto

lemma prepare_generation_current:
  "dls_current_generation (snd (download_prepare_generation g s)) = max (dls_current_generation s) g"
  by (auto simp: download_prepare_generation_def download_effective_generation_def Let_def max_def)

lemma prepare_order_current:
  "dls_current_generation (snd (prepare_runtime_event_order g n s)) = max (dls_current_generation s) g"
  using prepare_generation_current [of g s]
  by (auto simp: prepare_runtime_event_order_def Let_def split_def split: option.split)

lemma runtime_event_current:
  "dls_current_generation (snd (apply_runtime_event g n st md dir deg s)) =
     max (dls_current_generation s) g"
  using prepare_order_current [of g n s] by (auto simp: apply_runtime_event_def Let_def split_def)

lemma prepare_generation_stale:
  "g \<noteq> 0 \<Longrightarrow> g < dls_current_generation s \<Longrightarrow> download_prepare_generation g s = (False, s)"
  by (simp add: download_prepare_generation_def download_effective_generation_def)

lemma runtime_order_stale:
  "g \<noteq> 0 \<Longrightarrow> g < dls_current_generation s \<Longrightarrow> prepare_runtime_event_order g n s = (False, s)"
  by (simp add: prepare_runtime_event_order_def prepare_generation_stale)

interpretation download_surface:
  browser_surface dls_current_generation run_download_op download_op_generation
proof
  fix e and s :: download_runtime_state
  assume "download_op_generation e \<noteq> 0" "download_op_generation e < dls_current_generation s"
  then show "run_download_op e s = s"
    by (cases e)
      (simp_all add: apply_runtime_event_def mark_degraded_sequenced_def record_started_def
        apply_runtime_projection_sequenced_def record_progress_def runtime_order_stale
        prepare_generation_stale)
next
  fix e and s :: download_runtime_state
  show "dls_current_generation (run_download_op e s) =
      max (dls_current_generation s) (download_op_generation e)"
  proof (cases e)
    case (DownloadRuntimeEvent g n st md dir deg)
    then show ?thesis by (simp add: runtime_event_current)
  next
    case (DownloadDegraded g n reason)
    then show ?thesis
      using prepare_order_current [of g n s] by (simp add: mark_degraded_sequenced_def Let_def split_def)
  next
    case (DownloadProjection g n r)
    then show ?thesis
      using runtime_event_current [of g "Some n" _ _ _ _ s]
      by (simp add: apply_runtime_projection_sequenced_def Let_def split_def record_events_keep)
  next
    case (DownloadStart g n guid url name frame now)
    then show ?thesis
      using prepare_generation_current [of g s]
      by (simp add: record_started_def record_started_entry_def Let_def split_def moves_keep
          backfill_timeline_metadata_def split: option.split)
  next
    case (DownloadProgress event now)
    then show ?thesis
      using prepare_generation_current [of "dpe_generation event" s]
      by (simp add: record_progress_def Let_def split_def moves_keep)
  qed
qed

text \<open>Eviction drops an entry and its sequence together, and changes neither otherwise.\<close>

lemma trim_sync:
  "Mapping.lookup (fst (snd (trim_download_order limit elsewhere order es qs))) g = Some e \<Longrightarrow>
   Mapping.lookup es g = Some e \<and>
   Mapping.lookup (snd (snd (trim_download_order limit elsewhere order es qs))) g = Mapping.lookup qs g"
  by (induction limit elsewhere order es qs rule: trim_download_order.induct)
    (auto simp: lookup_delete_if split: if_splits)

lemma moves_sync:
  "Mapping.lookup (dls_entries (move_to_active guid s)) g = Some e \<Longrightarrow>
   Mapping.lookup (dls_entries s) g = Some e \<and>
   last_entry_sequence g (move_to_active guid s) = last_entry_sequence g s"
  "Mapping.lookup (dls_entries (move_to_completed guid s)) g = Some e \<Longrightarrow>
   Mapping.lookup (dls_entries s) g = Some e \<and>
   last_entry_sequence g (move_to_completed guid s) = last_entry_sequence g s"
  by (auto simp: move_to_active_def move_to_completed_def Let_def split_def last_entry_sequence_def
      dest!: trim_sync)

text \<open>How an entry may change from one state to the next.\<close>

definition entry_step ::
  "string \<Rightarrow> download_runtime_state \<Rightarrow> download_runtime_state \<Rightarrow> bool" where
  "entry_step guid s s' \<longleftrightarrow>
     (\<forall>e e'. Mapping.lookup (dls_entries s) guid = Some e \<longrightarrow>
        Mapping.lookup (dls_entries s') guid = Some e' \<longrightarrow>
        (is_terminal (de_state e) \<longrightarrow> is_terminal (de_state e')) \<and>
        de_received_bytes e \<le> de_received_bytes e' \<and>
        (e' = e \<or> last_entry_sequence guid s < last_entry_sequence guid s'))"

lemma entry_step_cong:
  "dls_entries s' = dls_entries s \<Longrightarrow> entry_step guid s s'"
  by (auto simp: entry_step_def)

lemma last_entry_sequence_cong [simp]:
  "last_entry_sequence g (record_event k d s) = last_entry_sequence g s"
  "last_entry_sequence g (s\<lparr>dls_projection := p\<rparr>) = last_entry_sequence g s"
  "last_entry_sequence g (s\<lparr>dls_timeline := t\<rparr>) = last_entry_sequence g s"
  by (simp_all add: last_entry_sequence_def)

lemma entry_step_write:
  assumes "last_entry_sequence guid s < n"
    and "\<And>e0. Mapping.lookup (dls_entries s) guid = Some e0 \<Longrightarrow>
      (is_terminal (de_state e0) \<longrightarrow> is_terminal (de_state e)) \<and>
      de_received_bytes e0 \<le> de_received_bytes e"
    and t_def: "t = s\<lparr>dls_entries := Mapping.update guid e (dls_entries s),
      dls_entry_event_sequence := Mapping.update guid n (dls_entry_event_sequence s)\<rparr>"
    and "\<And>x. Mapping.lookup (dls_entries s') g = Some x \<Longrightarrow>
      Mapping.lookup (dls_entries t) g = Some x \<and> last_entry_sequence g s' = last_entry_sequence g t"
  shows "entry_step g s s'"
  unfolding entry_step_def
proof (intro allI impI)
  fix e0 x
  assume a: "Mapping.lookup (dls_entries s) g = Some e0" "Mapping.lookup (dls_entries s') g = Some x"
  note x = assms(4) [OF a(2)]
  show "(is_terminal (de_state e0) \<longrightarrow> is_terminal (de_state x)) \<and>
      de_received_bytes e0 \<le> de_received_bytes x \<and>
      (x = e0 \<or> last_entry_sequence g s < last_entry_sequence g s')"
  proof (cases "g = guid")
    case True
    then have "x = e" "last_entry_sequence g s' = n"
      using x by (simp_all add: t_def lookup_update' last_entry_sequence_def)
    then show ?thesis using True assms(1) assms(2) a(1) by simp
  next
    case False
    then have "x = e0" using x a(1) by (simp add: t_def lookup_update')
    then show ?thesis by simp
  qed
qed

lemma entry_step_started:
  assumes "last_entry_sequence guid s < n"
    and "Mapping.lookup (dls_entries s) guid = None \<or>
      Mapping.lookup (dls_entries s) guid = Some e \<and> de_state e = DownloadStarted"
  shows "entry_step g s (snd (record_started_entry guid url name frame now n e s))"
  by (rule entry_step_write [OF assms(1),
        where e = "write_metadata url name frame now (e\<lparr>de_state := DownloadStarted\<rparr>)", OF _ refl])
    (use assms(2) in \<open>auto simp: record_started_entry_def Let_def dest: moves_sync(1)\<close>)

lemma entry_step_start:
  assumes "download_prepare_generation gen s = (ok, s)"
  shows "entry_step g s (snd (record_started gen n guid url name frame now s))"
proof (cases "ok \<and> \<not> n \<le> last_entry_sequence guid s")
  case True
  then have n: "last_entry_sequence guid s < n" by (simp add: not_le)
  show ?thesis
  proof (cases "Mapping.lookup (dls_entries s) guid")
    case None
    with True assms show ?thesis
      using entry_step_started [OF n, of "new_entry guid now"] by (simp add: record_started_def)
  next
    case (Some e)
    show ?thesis
    proof (cases "de_state e = DownloadStarted")
      case st: True
      with True Some assms show ?thesis
        using entry_step_started [OF n, of e] by (simp add: record_started_def)
    next
      case False
      show ?thesis
        by (rule entry_step_write [OF n, where e = "write_metadata url name frame now e", OF _ refl])
          (use True False Some assms in \<open>simp_all add: record_started_def Let_def
            backfill_timeline_metadata_def last_entry_sequence_def split: option.split_asm if_splits\<close>)
    qed
  qed
next
  case False
  with assms have "snd (record_started gen n guid url name frame now s) = s"
    by (auto simp: record_started_def Let_def)
  then show ?thesis by (simp add: entry_step_cong)
qed

lemma entry_step_progress:
  assumes "download_prepare_generation (dpe_generation event) s = (ok, s)"
  shows "entry_step g s (snd (record_progress event now s))"
proof -
  let ?guid = "dpe_guid event"
  define entry where "entry = (case Mapping.lookup (dls_entries s) ?guid of
    Some entry \<Rightarrow> entry | None \<Rightarrow> new_entry ?guid now)"
  show ?thesis
  proof (cases "\<not> ok \<or> dpe_sequence event \<le> last_entry_sequence ?guid s \<or>
      (is_terminal (de_state entry) \<and> \<not> is_terminal (dpe_state event))")
    case True
    then have "snd (record_progress event now s) = s"
      using assms by (auto simp: record_progress_def Let_def entry_def)
    then show ?thesis by (simp add: entry_step_cong)
  next
    case False
    then have n: "last_entry_sequence ?guid s < dpe_sequence event" by (simp add: not_le)
    show ?thesis
    proof (rule entry_step_write [OF n, where e = "write_progress event now entry", OF _ refl])
      fix e0 assume "Mapping.lookup (dls_entries s) ?guid = Some e0"
      then show "(is_terminal (de_state e0) \<longrightarrow> is_terminal (de_state (write_progress event now entry))) \<and>
          de_received_bytes e0 \<le> de_received_bytes (write_progress event now entry)"
        using False by (simp add: entry_def)
    next
      fix x assume "Mapping.lookup (dls_entries (snd (record_progress event now s))) g = Some x"
      then show "Mapping.lookup (dls_entries (s\<lparr>dls_entries :=
            Mapping.update ?guid (write_progress event now entry) (dls_entries s),
            dls_entry_event_sequence :=
              Mapping.update ?guid (dpe_sequence event) (dls_entry_event_sequence s)\<rparr>)) g = Some x \<and>
          last_entry_sequence g (snd (record_progress event now s)) =
          last_entry_sequence g (s\<lparr>dls_entries :=
            Mapping.update ?guid (write_progress event now entry) (dls_entries s),
            dls_entry_event_sequence :=
              Mapping.update ?guid (dpe_sequence event) (dls_entry_event_sequence s)\<rparr>)"
        using False assms
        by (cases "is_terminal (de_state entry)"; cases "is_terminal (dpe_state event)")
          (auto simp: record_progress_def Let_def simp flip: entry_def dest: moves_sync)
    qed
  qed
qed

lemma prepare_generation_same:
  assumes "max (dls_current_generation s) g = dls_current_generation s"
  shows "\<exists>ok. download_prepare_generation g s = (ok, s)"
  using assms prepare_generation_cases [of g s, OF prod.collapse [symmetric]]
  by (metis max.absorb_iff1 leD prod.collapse)

lemma runtime_order_entries:
  assumes "max (dls_current_generation s) g = dls_current_generation s"
  shows "dls_entries (snd (prepare_runtime_event_order g n s)) = dls_entries s"
  using prepare_generation_same [OF assms]
  by (auto simp: prepare_runtime_event_order_def split: option.split)

lemma entry_step_run:
  assumes "\<And>g n r. op \<noteq> DownloadProjection g n r"
    and "dls_current_generation (run_download_op op s) = dls_current_generation s"
  shows "entry_step guid s (run_download_op op s)"
proof -
  have same: "max (dls_current_generation s) (download_op_generation op) = dls_current_generation s"
    using assms(2) unfolding download_surface.gen_step .
  then obtain ok where p: "download_prepare_generation (download_op_generation op) s = (ok, s)"
    using prepare_generation_same by blast
  show ?thesis
  proof (cases op)
    case (DownloadRuntimeEvent g n st md dir deg)
    then show ?thesis
      using runtime_order_entries [of s g n] same
      by (intro entry_step_cong) (simp add: apply_runtime_event_def Let_def split_def)
  next
    case (DownloadDegraded g n reason)
    then show ?thesis
      using runtime_order_entries [of s g n] same
      by (intro entry_step_cong) (simp add: mark_degraded_sequenced_def Let_def split_def)
  qed (use assms(1) p in \<open>simp_all add: entry_step_start entry_step_progress\<close>)
qed

section \<open>Properties\<close>

text \<open>
  C34. In every reachable state of the download registry the reported projection lists each download
  once, at most 32 running and 64 finished ones, each in the list its state belongs to, and every
  guid of the orders is reported. The event timeline is gap free: a reader whose cursor is not older
  than the last evicted event gets exactly the events since then, up to the registry's cursor, and
  the number of dropped events reported is the last evicted sequence number.
\<close>

theorem download_registry_consistent:
  assumes "download_reachable s"
  shows "distinct (dls_active_order s @ dls_completed_order s) \<and>
    length (dls_active_order s) \<le> 32 \<and> length (dls_completed_order s) \<le> 64 \<and>
    map de_guid (dri_active_downloads (download_projection s)) = dls_active_order s \<and>
    map de_guid (dri_completed_downloads (download_projection s)) = dls_completed_order s \<and>
    list_all (\<lambda>d. \<not> is_terminal (de_state d)) (dri_active_downloads (download_projection s)) \<and>
    list_all (\<lambda>d. is_terminal (de_state d)) (dri_completed_downloads (download_projection s)) \<and>
    (\<forall>cursor. dls_last_evicted_sequence s \<le> cursor \<longrightarrow>
      map (unat \<circ> dev_sequence) (download_events_after cursor s) =
        [Suc (unat cursor) ..< Suc (unat (download_cursor s))]) \<and>
    dls_dropped_event_count s = dls_last_evicted_sequence s"
proof -
  note ok = download_reachable_ok [OF assms, unfolded download_ok_def]
  have cur: "Suc (unat (download_cursor s)) = max 1 (unat (dls_next_sequence s))"
    by (auto simp: download_cursor_def unat_saturating_sub max_def)
  have window: "map (unat \<circ> dev_sequence) (download_events_after cursor s) =
      [Suc (unat cursor) ..< Suc (unat (download_cursor s))]"
    if "dls_last_evicted_sequence s \<le> cursor" for cursor
    unfolding download_events_after_def cur
    by (rule accounted_after) (use ok that in \<open>auto simp: download_log_ok_def\<close>)
  have dropped: "dls_dropped_event_count s = dls_last_evicted_sequence s"
    using ok by (simp add: download_log_ok_def accounted_def)
  have orders: "download_order_ok s" using ok by blast
  have lists: "map de_guid (List.map_filter (Mapping.lookup (dls_entries s)) (dls_active_order s)) =
      dls_active_order s \<and> list_all (\<lambda>d. \<not> is_terminal (de_state d))
        (List.map_filter (Mapping.lookup (dls_entries s)) (dls_active_order s))"
    "map de_guid (List.map_filter (Mapping.lookup (dls_entries s)) (dls_completed_order s)) =
      dls_completed_order s \<and> list_all (\<lambda>d. is_terminal (de_state d))
        (List.map_filter (Mapping.lookup (dls_entries s)) (dls_completed_order s))"
    using orders by (intro map_filter_lookup; auto simp: download_listed_ok_def listed_def)+
  show ?thesis
    using orders dropped window lists by (simp add: download_projection_def download_listed_ok_def)
qed

text \<open>
  C35. Reordered and stale browser events do no harm to the download registry. After any events, an
  event of an older browser generation than one already seen changes nothing. An event that neither
  opens a generation nor reports a whole projection never makes a finished download unfinished,
  never lowers the bytes received, and changes an entry only under a larger per-entry sequence.
\<close>

theorem download_events_ordered:
  assumes now_def: "now = fold run_download_op es s"
  shows "(\<forall>newer\<in>set es. download_op_generation op \<noteq> 0 \<longrightarrow>
      download_op_generation op < download_op_generation newer \<longrightarrow> run_download_op op now = now) \<and>
    ((\<forall>g n r. op \<noteq> DownloadProjection g n r) \<longrightarrow>
     dls_current_generation (run_download_op op now) = dls_current_generation now \<longrightarrow>
     (\<forall>guid e e'. download_get guid now = Some e \<longrightarrow>
        download_get guid (run_download_op op now) = Some e' \<longrightarrow>
        (is_terminal (de_state e) \<longrightarrow> is_terminal (de_state e')) \<and>
        de_received_bytes e \<le> de_received_bytes e' \<and>
        (e' = e \<or> last_entry_sequence guid now < last_entry_sequence guid (run_download_op op now))))"
proof (intro conjI ballI impI)
  fix newer assume "newer \<in> set es" "download_op_generation op \<noteq> 0"
    "download_op_generation op < download_op_generation newer"
  then show "run_download_op op now = now"
    unfolding now_def by (rule download_surface.stale_run)
next
  assume "\<forall>g n r. op \<noteq> DownloadProjection g n r"
    "dls_current_generation (run_download_op op now) = dls_current_generation now"
  then have "entry_step guid now (run_download_op op now)" for guid
    by (intro entry_step_run) auto
  then show "\<forall>guid e e'. download_get guid now = Some e \<longrightarrow>
        download_get guid (run_download_op op now) = Some e' \<longrightarrow>
        (is_terminal (de_state e) \<longrightarrow> is_terminal (de_state e')) \<and>
        de_received_bytes e \<le> de_received_bytes e' \<and>
        (e' = e \<or> last_entry_sequence guid now < last_entry_sequence guid (run_download_op op now))"
    unfolding entry_step_def download_get_def by blast
qed

section \<open>Concrete runs\<close>

definition example_progress :: "u64 \<Rightarrow> download_state \<Rightarrow> u64 \<Rightarrow> download_progress_event" where
  "example_progress n st bytes = \<lparr>dpe_generation = 1, dpe_sequence = n, dpe_guid = ''g'',
     dpe_state = st, dpe_received_bytes = bytes, dpe_total_bytes = None, dpe_final_path = None\<rparr>"

definition example_downloads :: "download_op list" where
  "example_downloads =
     [DownloadStart 1 1 ''g'' ''https://a/f'' ''f'' None ''t0'',
      DownloadProgress (example_progress 3 DownloadCompleted 9) ''t1'']"

lemma example_sequences: "\<not> (3 :: u64) \<le> 1" "(2 :: u64) \<le> 3" "(1 :: u64) \<noteq> 0" "\<not> (1 :: u64) < 1"
  by (simp_all add: word_le_nat_alt)

lemmas example_download_defs = example_sequences example_downloads_def example_progress_def
  download_runtime_default_def record_started_def record_started_entry_def record_progress_def
  download_prepare_generation_def download_effective_generation_def move_to_active_def
  move_to_completed_def record_event_def Let_def last_entry_sequence_def new_entry_def
  write_metadata_def write_progress_def is_terminal_def ACTIVE_DOWNLOAD_LIMIT_def
  COMPLETED_DOWNLOAD_LIMIT_def DOWNLOAD_EVENT_LIMIT_def lookup_update' lookup_empty

theorem download_registry_consistent_witness:
  "download_reachable (fold run_download_op example_downloads download_runtime_default) \<and>
   dls_completed_order (fold run_download_op example_downloads download_runtime_default) = [''g''] \<and>
   length (download_events_after 0 (fold run_download_op example_downloads download_runtime_default)) = 2"
proof -
  let ?s = "fold run_download_op example_downloads download_runtime_default"
  have r: "download_reachable ?s"
    unfolding example_downloads_def fold.simps comp_apply id_apply
    by (intro download_step download_init) (simp_all add: example_download_defs)
  have "dls_completed_order ?s = [''g'']" "download_cursor ?s = 2" "dls_last_evicted_sequence ?s = 0"
    by (simp_all add: example_download_defs download_cursor_def saturating_sub_def)
  moreover have "map (unat \<circ> dev_sequence) (download_events_after 0 ?s) =
      [Suc (unat (0 :: u64)) ..< Suc (unat (download_cursor ?s))]"
    using download_registry_consistent [OF r] \<open>dls_last_evicted_sequence ?s = 0\<close> by simp
  then have "length (map (unat \<circ> dev_sequence) (download_events_after 0 ?s)) =
      length [Suc (unat (0 :: u64)) ..< Suc (unat (download_cursor ?s))]" by (rule arg_cong)
  ultimately show ?thesis using r by simp
qed

theorem download_events_ordered_witness:
  "\<exists>e'. download_get ''g'' (run_download_op (DownloadProgress (example_progress 2 DownloadInProgress 4) ''t2'')
      (fold run_download_op example_downloads download_runtime_default)) = Some e' \<and>
    is_terminal (de_state e') \<and> 9 \<le> de_received_bytes e'"
proof -
  let ?s = "fold run_download_op example_downloads download_runtime_default"
  let ?op = "DownloadProgress (example_progress 2 DownloadInProgress 4) ''t2''"
  have "map_option (\<lambda>e. (de_state e, de_received_bytes e)) (download_get ''g'' ?s) =
      Some (DownloadCompleted, 9)"
    by (simp add: example_download_defs download_get_def)
  then obtain e where e: "download_get ''g'' ?s = Some e" "is_terminal (de_state e)"
      "de_received_bytes e = 9"
    by (auto simp: is_terminal_def)
  have "download_get ''g'' (run_download_op ?op ?s) \<noteq> None"
    by (simp add: example_download_defs download_get_def)
  then obtain e' where e': "download_get ''g'' (run_download_op ?op ?s) = Some e'" by blast
  have gen: "dls_current_generation (run_download_op ?op ?s) = dls_current_generation ?s"
    by (simp add: example_download_defs)
  have "\<forall>g n r. ?op \<noteq> DownloadProjection g n r" by simp
  note kept = download_events_ordered [where op = ?op, OF refl [of ?s], THEN conjunct2,
      THEN mp, OF this, THEN mp, OF gen, THEN spec, THEN spec, THEN spec, THEN mp, OF e(1),
      THEN mp, OF e']
  show ?thesis
    by (rule exI [of _ e'], intro conjI e') (use kept e(2) in blast, use kept e(3) in simp)
qed

end
