(* ===== verification/Rub_Surfaces.thy ===== *)
theory Rub_Surfaces
  imports Rub_Observatory
begin

text \<open>
  The small runtime surfaces of a session: JavaScript dialogs (\<^verbatim>\<open>dialogs.rs\<close>), the frame context
  (\<^verbatim>\<open>frame_runtime.rs\<close>), the runtime-state store with readiness and state inspector
  (\<^verbatim>\<open>runtime_state_projection.rs\<close>, \<^verbatim>\<open>readiness.rs\<close>, \<^verbatim>\<open>state_inspector.rs\<close>), the storage ledger
  (\<^verbatim>\<open>storage_runtime.rs\<close>), human handoff and takeover (\<^verbatim>\<open>handoff.rs\<close>, \<^verbatim>\<open>takeover.rs\<close>), network rules
  and the integration projection over all of them (\<^verbatim>\<open>session/runtime/network_rules.rs\<close>,
  \<^verbatim>\<open>session/runtime/integration.rs\<close>, \<^verbatim>\<open>session/integration.rs\<close>). The session's own methods only take the
  locks around these operations.
\<close>

section \<open>Dialogs\<close>

datatype dialog_runtime_status = DialogsInactive | DialogsActive | DialogsDegraded

datatype dialog_kind = DialogAlert | DialogConfirm | DialogPrompt | DialogBeforeunload

record pending_dialog_info =
  pdi_kind :: dialog_kind
  pdi_message :: string
  pdi_url :: string
  pdi_tab_target_id :: "string option"
  pdi_frame_id :: "string option"
  pdi_default_prompt :: "string option"
  pdi_has_browser_handler :: bool
  pdi_opened_at :: string

record dialog_resolution_info =
  dre_accepted :: bool
  dre_user_input :: "string option"
  dre_closed_at :: string

record dialog_runtime_info =
  dgi_status :: dialog_runtime_status
  dgi_pending_dialog :: "pending_dialog_info option"
  dgi_last_dialog :: "pending_dialog_info option"
  dgi_last_result :: "dialog_resolution_info option"
  dgi_degraded_reason :: "string option"

definition dialog_runtime_info_default :: dialog_runtime_info where
  "dialog_runtime_info_default = \<lparr>dgi_status = DialogsInactive, dgi_pending_dialog = None,
     dgi_last_dialog = None, dgi_last_result = None, dgi_degraded_reason = None\<rparr>"

record dialog_runtime_state =
  dgs_projection :: dialog_runtime_info
  dgs_last_event_sequence :: u64
  dgs_current_generation :: u64

definition dialog_runtime_default :: dialog_runtime_state where
  "dialog_runtime_default = \<lparr>dgs_projection = dialog_runtime_info_default,
     dgs_last_event_sequence = 0, dgs_current_generation = 0\<rparr>"

record dialog_opened_event =
  doe_generation :: u64
  doe_sequence :: u64
  doe_pending :: pending_dialog_info

definition dialog_effective_generation :: "u64 \<Rightarrow> dialog_runtime_state \<Rightarrow> u64" where
  "dialog_effective_generation generation s =
     (if generation = 0 then dgs_current_generation s else generation)"

definition dialog_prepare_generation ::
  "u64 \<Rightarrow> dialog_runtime_state \<Rightarrow> bool \<times> dialog_runtime_state" where
  "dialog_prepare_generation generation s =
     (let generation = dialog_effective_generation generation s in
      if generation < dgs_current_generation s then (False, s)
      else if generation > dgs_current_generation s then
        (True, s\<lparr>dgs_current_generation := generation,
           dgs_projection := dialog_runtime_info_default, dgs_last_event_sequence := 0\<rparr>)
      else (True, s))"

definition dialog_replace_projection ::
  "u64 \<Rightarrow> dialog_runtime_info \<Rightarrow> dialog_runtime_state \<Rightarrow> dialog_runtime_state" where
  "dialog_replace_projection generation projection s =
     (let (ok, s) = dialog_prepare_generation generation s in
      if \<not> ok then s else s\<lparr>dgs_projection := projection\<rparr>)"

definition dialog_set_runtime ::
  "u64 \<Rightarrow> dialog_runtime_status \<Rightarrow> dialog_runtime_state \<Rightarrow> dialog_runtime_state" where
  "dialog_set_runtime generation status s =
     (let (ok, s) = dialog_prepare_generation generation s in
      if \<not> ok then s
      else
        let p = (dgs_projection s)\<lparr>dgi_status := status\<rparr>;
            p = (if status \<noteq> DialogsDegraded then p\<lparr>dgi_degraded_reason := None\<rparr> else p)
        in s\<lparr>dgs_projection := p\<rparr>)"

definition dialog_mark_degraded ::
  "u64 \<Rightarrow> string \<Rightarrow> dialog_runtime_state \<Rightarrow> dialog_runtime_state" where
  "dialog_mark_degraded generation reason s =
     (let (ok, s) = dialog_prepare_generation generation s in
      if \<not> ok then s
      else s\<lparr>dgs_projection := (dgs_projection s)\<lparr>dgi_status := DialogsDegraded,
             dgi_degraded_reason := Some reason\<rparr>\<rparr>)"

definition dialog_apply_runtime_status ::
  "dialog_runtime_status \<Rightarrow> dialog_runtime_info \<Rightarrow> dialog_runtime_info" where
  "dialog_apply_runtime_status status p =
     (if dgi_degraded_reason p \<noteq> None then p\<lparr>dgi_status := DialogsDegraded\<rparr>
      else p\<lparr>dgi_status := status\<rparr>)"

definition dialog_record_opened ::
  "dialog_opened_event \<Rightarrow> dialog_runtime_state \<Rightarrow> dialog_runtime_state" where
  "dialog_record_opened event s =
     (let (ok, s) = dialog_prepare_generation (doe_generation event) s in
      if \<not> ok then s
      else if doe_sequence event \<le> dgs_last_event_sequence s then s
      else
        let p = dialog_apply_runtime_status DialogsActive (dgs_projection s)
        in s\<lparr>dgs_last_event_sequence := doe_sequence event,
             dgs_projection := p\<lparr>dgi_last_result := None,
               dgi_last_dialog := Some (doe_pending event),
               dgi_pending_dialog := Some (doe_pending event)\<rparr>\<rparr>)"

definition dialog_record_closed ::
  "u64 \<Rightarrow> u64 \<Rightarrow> bool \<Rightarrow> string \<Rightarrow> string \<Rightarrow> dialog_runtime_state \<Rightarrow> dialog_runtime_state" where
  "dialog_record_closed generation sequence accepted user_input now s =
     (let (ok, s) = dialog_prepare_generation generation s in
      if \<not> ok then s
      else if sequence \<le> dgs_last_event_sequence s then s
      else
        let prompt_input = (case dgi_last_dialog (dgs_projection s) of
              Some dialog \<Rightarrow> if pdi_kind dialog = DialogPrompt then Some user_input else None
            | None \<Rightarrow> None);
            p = dialog_apply_runtime_status DialogsInactive (dgs_projection s)
        in s\<lparr>dgs_last_event_sequence := sequence,
             dgs_projection := p\<lparr>dgi_pending_dialog := None,
               dgi_last_result := Some \<lparr>dre_accepted = accepted, dre_user_input = prompt_input,
                 dre_closed_at = now\<rparr>\<rparr>\<rparr>)"

datatype dialog_op =
    DialogReplace u64 dialog_runtime_info
  | DialogSetRuntime u64 dialog_runtime_status
  | DialogDegrade u64 string
  | DialogOpened dialog_opened_event
  | DialogClosed u64 u64 bool string string

fun run_dialog_op :: "dialog_op \<Rightarrow> dialog_runtime_state \<Rightarrow> dialog_runtime_state" where
  "run_dialog_op (DialogReplace g p) s = dialog_replace_projection g p s"
| "run_dialog_op (DialogSetRuntime g st) s = dialog_set_runtime g st s"
| "run_dialog_op (DialogDegrade g reason) s = dialog_mark_degraded g reason s"
| "run_dialog_op (DialogOpened e) s = dialog_record_opened e s"
| "run_dialog_op (DialogClosed g n accepted text now) s = dialog_record_closed g n accepted text now s"

fun dialog_op_generation :: "dialog_op \<Rightarrow> u64" where
  "dialog_op_generation (DialogReplace g _) = g"
| "dialog_op_generation (DialogSetRuntime g _) = g"
| "dialog_op_generation (DialogDegrade g _) = g"
| "dialog_op_generation (DialogOpened e) = doe_generation e"
| "dialog_op_generation (DialogClosed g _ _ _ _) = g"

section \<open>Frames\<close>

datatype frame_context_status = FrameUnknown | FrameTop | FrameChild | FrameStale | FrameDegraded

record frame_context_info =
  fci_frame_id :: string
  fci_name :: "string option"
  fci_parent_frame_id :: "string option"
  fci_target_id :: "string option"
  fci_url :: "string option"
  fci_depth :: u32
  fci_same_origin_accessible :: "bool option"

record frame_inventory_entry =
  fie_index :: u32
  fie_frame :: frame_context_info
  fie_is_current :: bool
  fie_is_primary :: bool

record frame_runtime_info =
  fri_status :: frame_context_status
  fri_current_frame :: "frame_context_info option"
  fri_primary_frame :: "frame_context_info option"
  fri_frame_lineage :: "string list"
  fri_degraded_reason :: "string option"

definition frame_runtime_info_default :: frame_runtime_info where
  "frame_runtime_info_default = \<lparr>fri_status = FrameUnknown, fri_current_frame = None,
     fri_primary_frame = None, fri_frame_lineage = [], fri_degraded_reason = None\<rparr>"

record frame_runtime_state =
  frs_selected_frame_id :: "string option"
  frs_projection :: frame_runtime_info

definition frame_select_frame :: "string option \<Rightarrow> frame_runtime_state \<Rightarrow> frame_runtime_state" where
  "frame_select_frame frame_id s = s\<lparr>frs_selected_frame_id := frame_id\<rparr>"

definition frame_replace :: "frame_runtime_info \<Rightarrow> frame_runtime_state \<Rightarrow> frame_runtime_state" where
  "frame_replace projection s = s\<lparr>frs_projection := projection\<rparr>"

definition frame_mark_degraded :: "string \<Rightarrow> frame_runtime_state \<Rightarrow> frame_runtime_state" where
  "frame_mark_degraded reason s =
     s\<lparr>frs_projection := frame_runtime_info_default\<lparr>fri_status := FrameDegraded,
         fri_degraded_reason := Some reason\<rparr>\<rparr>"

text \<open>\<^verbatim>\<open>parent_by_frame\<close>: collecting into a \<^verbatim>\<open>HashMap\<close> keeps the last entry of a frame id.\<close>

definition parent_of :: "frame_inventory_entry list \<Rightarrow> string \<Rightarrow> string option" where
  "parent_of inventory frame_id =
     Option.bind (map_of (rev (map (\<lambda>e. (fci_frame_id (fie_frame e),
       fci_parent_frame_id (fie_frame e))) inventory)) frame_id) (\<lambda>p. p)"

definition parent_ids :: "frame_inventory_entry list \<Rightarrow> string set" where
  "parent_ids inventory = {p. Some p \<in> (fci_parent_frame_id \<circ> fie_frame) ` set inventory}"

lemma finite_parent_ids [simp]: "finite (parent_ids inventory)"
proof -
  have "Some ` parent_ids inventory \<subseteq> (fci_parent_frame_id \<circ> fie_frame) ` set inventory"
    by (auto simp: parent_ids_def)
  then show ?thesis by (metis finite_imageD finite_imageI finite_set finite_subset inj_Some)
qed

lemma parent_of_ids: "parent_of inventory f = Some p \<Longrightarrow> p \<in> parent_ids inventory"
  by (auto simp: parent_of_def parent_ids_def bind_eq_Some_conv dest!: map_of_SomeD)

function lineage_loop ::
  "frame_inventory_entry list \<Rightarrow> string option \<Rightarrow> string list \<Rightarrow> string list" where
  "lineage_loop inventory current lineage =
     (case current of
        None \<Rightarrow> lineage
      | Some frame_id \<Rightarrow>
          if frame_id \<in> set lineage then lineage
          else lineage_loop inventory (parent_of inventory frame_id) (lineage @ [frame_id]))"
  by auto

termination
proof (relation "measure (\<lambda>(inventory, current, lineage).
    card ((parent_ids inventory \<union> set_option current) - set lineage))")
  fix inventory :: "frame_inventory_entry list" and current lineage and frame_id :: string
  assume c: "current = Some frame_id" "frame_id \<notin> set lineage"
  let ?new = "(parent_ids inventory \<union> set_option (parent_of inventory frame_id)) -
    set (lineage @ [frame_id])"
  let ?old = "(parent_ids inventory \<union> set_option current) - set lineage"
  have "?new \<subset> ?old"
    using c parent_of_ids [of inventory frame_id] by (cases "parent_of inventory frame_id") auto
  moreover have "finite ?old" by simp
  ultimately show "((inventory, parent_of inventory frame_id, lineage @ [frame_id]),
      inventory, current, lineage) \<in> measure (\<lambda>(inventory, current, lineage).
        card ((parent_ids inventory \<union> set_option current) - set lineage))"
    by (simp add: psubset_card_mono)
qed simp

declare lineage_loop.simps [simp del]

definition build_lineage :: "string \<Rightarrow> frame_inventory_entry list \<Rightarrow> string list" where
  "build_lineage current_frame_id inventory = lineage_loop inventory (Some current_frame_id) []"

definition stale_frame_context ::
  "string \<Rightarrow> frame_context_info option \<Rightarrow> frame_context_info" where
  "stale_frame_context selected previous =
     (let stale = \<lparr>fci_frame_id = selected, fci_name = None, fci_parent_frame_id = None,
            fci_target_id = None, fci_url = None, fci_depth = 0, fci_same_origin_accessible = None\<rparr>
      in case previous of
           Some p \<Rightarrow> if fci_frame_id p = selected then p else stale
         | None \<Rightarrow> stale)"

definition primary_entry :: "frame_inventory_entry list \<Rightarrow> frame_inventory_entry option" where
  "primary_entry inventory =
     or_else (find fie_is_primary inventory) (case inventory of [] \<Rightarrow> None | e # _ \<Rightarrow> Some e)"

definition apply_inventory ::
  "frame_inventory_entry list \<Rightarrow> frame_runtime_state \<Rightarrow> frame_runtime_state" where
  "apply_inventory inventory s =
     (case primary_entry inventory of
        None \<Rightarrow> s\<lparr>frs_projection := frame_runtime_info_default\<lparr>fri_status := FrameDegraded,
            fri_degraded_reason := Some ''frame_inventory_empty''\<rparr>\<rparr>
      | Some primary \<Rightarrow>
          s\<lparr>frs_projection :=
            (case frs_selected_frame_id s of
               Some selected_frame_id \<Rightarrow>
                 (case find (\<lambda>e. fci_frame_id (fie_frame e) = selected_frame_id) inventory of
                    Some selected \<Rightarrow>
                      \<lparr>fri_status = (if fie_is_primary selected then FrameTop else FrameChild),
                       fri_current_frame = Some (fie_frame selected),
                       fri_primary_frame = Some (fie_frame primary),
                       fri_frame_lineage = build_lineage selected_frame_id inventory,
                       fri_degraded_reason = None\<rparr>
                  | None \<Rightarrow>
                      \<lparr>fri_status = FrameStale,
                       fri_current_frame = Some (stale_frame_context selected_frame_id
                         (fri_current_frame (frs_projection s))),
                       fri_primary_frame = Some (fie_frame primary),
                       fri_frame_lineage = [selected_frame_id],
                       fri_degraded_reason = Some ''selected_frame_not_found''\<rparr>)
             | None \<Rightarrow>
                 \<lparr>fri_status = FrameTop, fri_current_frame = Some (fie_frame primary),
                  fri_primary_frame = Some (fie_frame primary),
                  fri_frame_lineage = build_lineage (fci_frame_id (fie_frame primary)) inventory,
                  fri_degraded_reason = None\<rparr>)\<rparr>)"

definition project_inventory ::
  "frame_inventory_entry list \<Rightarrow> frame_runtime_state \<Rightarrow> frame_inventory_entry list" where
  "project_inventory inventory s =
     (let current_frame_id = map_option fci_frame_id (fri_current_frame (frs_projection s));
          primary_frame_id = map_option fci_frame_id (fri_primary_frame (frs_projection s))
      in map (\<lambda>e. e\<lparr>fie_is_current := (current_frame_id = Some (fci_frame_id (fie_frame e))),
           fie_is_primary := (primary_frame_id = Some (fci_frame_id (fie_frame e)))\<rparr>) inventory)"

section \<open>Runtime state: inspector and readiness\<close>

datatype state_inspector_status = InspectorInactive | InspectorActive | InspectorDegraded

datatype auth_state = AuthUnknown | AuthAnonymous | AuthAuthenticated

record state_inspector_info =
  sii_status :: state_inspector_status
  sii_auth_state :: auth_state
  sii_cookie_count :: u32
  sii_local_storage_keys :: "string list"
  sii_session_storage_keys :: "string list"
  sii_auth_signals :: "string list"
  sii_degraded_reason :: "string option"

definition state_inspector_info_default :: state_inspector_info where
  "state_inspector_info_default = \<lparr>sii_status = InspectorInactive, sii_auth_state = AuthUnknown,
     sii_cookie_count = 0, sii_local_storage_keys = [], sii_session_storage_keys = [],
     sii_auth_signals = [], sii_degraded_reason = None\<rparr>"

datatype readiness_status = ReadinessInactive | ReadinessActive | ReadinessDegraded

datatype route_stability = RouteUnknown | RouteStable | RouteTransitioning

datatype overlay_state = OverlayNone | OverlayDevelopment | OverlayError | OverlayUserBlocking

record readiness_info =
  rdi_status :: readiness_status
  rdi_route_stability :: route_stability
  rdi_loading_present :: bool
  rdi_skeleton_present :: bool
  rdi_overlay_state :: overlay_state
  rdi_document_ready_state :: "string option"
  rdi_blocking_signals :: "string list"
  rdi_degraded_reason :: "string option"

definition readiness_info_default :: readiness_info where
  "readiness_info_default = \<lparr>rdi_status = ReadinessInactive, rdi_route_stability = RouteUnknown,
     rdi_loading_present = False, rdi_skeleton_present = False, rdi_overlay_state = OverlayNone,
     rdi_document_ready_state = None, rdi_blocking_signals = [], rdi_degraded_reason = None\<rparr>"

record runtime_state_snapshot =
  rss_state_inspector :: state_inspector_info
  rss_readiness_state :: readiness_info

record runtime_state_projection =
  rsp_state_inspector :: state_inspector_info
  rsp_readiness :: readiness_info
  rsp_last_sequence :: u64

definition runtime_state_default :: runtime_state_projection where
  "runtime_state_default = \<lparr>rsp_state_inspector = state_inspector_info_default,
     rsp_readiness = readiness_info_default, rsp_last_sequence = 0\<rparr>"

definition inspector_mark_degraded :: "string \<Rightarrow> state_inspector_info" where
  "inspector_mark_degraded reason = state_inspector_info_default\<lparr>sii_status := InspectorDegraded,
     sii_degraded_reason := Some reason\<rparr>"

definition readiness_mark_degraded :: "string \<Rightarrow> readiness_info" where
  "readiness_mark_degraded reason = readiness_info_default\<lparr>rdi_status := ReadinessDegraded,
     rdi_degraded_reason := Some reason\<rparr>"

definition runtime_state_snapshot_of :: "runtime_state_projection \<Rightarrow> runtime_state_snapshot" where
  "runtime_state_snapshot_of s =
     \<lparr>rss_state_inspector = rsp_state_inspector s, rss_readiness_state = rsp_readiness s\<rparr>"

definition runtime_state_replace ::
  "u64 \<Rightarrow> runtime_state_snapshot \<Rightarrow> runtime_state_projection \<Rightarrow> bool \<times> runtime_state_projection" where
  "runtime_state_replace sequence snap s =
     (if sequence < rsp_last_sequence s then (False, s)
      else (True, s\<lparr>rsp_last_sequence := sequence,
              rsp_state_inspector := rss_state_inspector snap,
              rsp_readiness := rss_readiness_state snap\<rparr>))"

definition runtime_state_mark_degraded ::
  "u64 \<Rightarrow> string \<Rightarrow> runtime_state_projection \<Rightarrow> bool \<times> runtime_state_projection" where
  "runtime_state_mark_degraded sequence reason s =
     (if sequence < rsp_last_sequence s then (False, s)
      else (True, s\<lparr>rsp_last_sequence := sequence,
              rsp_state_inspector := inspector_mark_degraded reason,
              rsp_readiness := readiness_mark_degraded reason\<rparr>))"

definition publish_runtime_state_snapshot_if ::
  "u64 \<Rightarrow> runtime_state_snapshot \<Rightarrow> bool \<Rightarrow> runtime_state_projection \<Rightarrow> bool \<times> runtime_state_projection" where
  "publish_runtime_state_snapshot_if sequence snap publish_allowed s =
     (if \<not> publish_allowed then (False, s) else runtime_state_replace sequence snap s)"

definition publish_runtime_state_snapshot ::
  "u64 \<Rightarrow> runtime_state_snapshot \<Rightarrow> runtime_state_projection \<Rightarrow> runtime_state_projection" where
  "publish_runtime_state_snapshot sequence snap s =
     snd (publish_runtime_state_snapshot_if sequence snap True s)"

definition mark_runtime_state_probe_degraded ::
  "u64 \<Rightarrow> string \<Rightarrow> runtime_state_projection \<Rightarrow> runtime_state_projection" where
  "mark_runtime_state_probe_degraded sequence reason s =
     snd (runtime_state_mark_degraded sequence (''live_probe_failed:'' @ reason) s)"

section \<open>Storage\<close>

datatype storage_runtime_status = StorageInactive | StorageActive | StorageDegraded

datatype storage_mutation_kind = MutationSet | MutationRemove | MutationClear | MutationImport

record storage_mutation_record =
  smr_sequence :: u64
  smr_kind :: storage_mutation_kind
  smr_origin :: string
  smr_tab_target_id :: "string option"
  smr_frame_id :: "string option"
  smr_area :: "storage_area option"
  smr_key :: "string option"
  smr_commit_status :: "string option"

record storage_runtime_info =
  sri_status :: storage_runtime_status
  sri_current_origin :: "string option"
  sri_current_tab_target_id :: "string option"
  sri_current_frame_id :: "string option"
  sri_local_storage_keys :: "string list"
  sri_session_storage_keys :: "string list"
  sri_recent_mutations :: "storage_mutation_record list"
  sri_degraded_reason :: "string option"

definition storage_runtime_info_default :: storage_runtime_info where
  "storage_runtime_info_default = \<lparr>sri_status = StorageInactive, sri_current_origin = None,
     sri_current_tab_target_id = None, sri_current_frame_id = None, sri_local_storage_keys = [],
     sri_session_storage_keys = [], sri_recent_mutations = [], sri_degraded_reason = None\<rparr>"

record storage_snapshot =
  sns_origin :: string
  sns_tab_target_id :: "string option"
  sns_frame_id :: "string option"
  sns_local_storage :: "(string \<times> string) list"
  sns_session_storage :: "(string \<times> string) list"

definition STORAGE_MUTATION_LIMIT :: nat where "STORAGE_MUTATION_LIMIT = 64"

record storage_runtime_state =
  srs_next_sequence :: u64
  srs_projection :: storage_runtime_info
  srs_recent_mutations :: "storage_mutation_record list"

record storage_mutation_context =
  smc_tab_target_id :: "string option"
  smc_frame_id :: "string option"
  smc_area :: "storage_area option"
  smc_key :: "string option"
  smc_commit_status :: "string option"

definition storage_projection :: "storage_runtime_state \<Rightarrow> storage_runtime_info" where
  "storage_projection s = (srs_projection s)\<lparr>sri_recent_mutations := srs_recent_mutations s\<rparr>"

definition storage_replace_snapshot ::
  "storage_snapshot \<Rightarrow> storage_runtime_state \<Rightarrow> storage_runtime_state" where
  "storage_replace_snapshot snap s =
     s\<lparr>srs_projection := (srs_projection s)\<lparr>sri_status := StorageActive,
         sri_current_origin := Some (sns_origin snap),
         sri_current_tab_target_id := sns_tab_target_id snap,
         sri_current_frame_id := sns_frame_id snap,
         sri_local_storage_keys := map fst (sns_local_storage snap),
         sri_session_storage_keys := map fst (sns_session_storage snap),
         sri_degraded_reason := None\<rparr>\<rparr>"

definition storage_mutation ::
  "storage_mutation_kind \<times> string \<times> storage_mutation_context \<Rightarrow> u64 \<Rightarrow> storage_mutation_record" where
  "storage_mutation i sequence = (case i of (kind, origin, c) \<Rightarrow>
     \<lparr>smr_sequence = sequence, smr_kind = kind, smr_origin = origin,
      smr_tab_target_id = smc_tab_target_id c, smr_frame_id = smc_frame_id c, smr_area = smc_area c,
      smr_key = smc_key c, smr_commit_status = smc_commit_status c\<rparr>)"

definition storage_record_mutation ::
  "storage_mutation_kind \<times> string \<times> storage_mutation_context \<Rightarrow> storage_runtime_state
   \<Rightarrow> storage_runtime_state" where
  "storage_record_mutation i s =
     (let sequence = max (srs_next_sequence s) 1
      in s\<lparr>srs_next_sequence := sequence + 1,
           srs_recent_mutations := pop_front_to STORAGE_MUTATION_LIMIT
             (srs_recent_mutations s @ [storage_mutation i sequence])\<rparr>)"

definition storage_mark_degraded :: "string \<Rightarrow> storage_runtime_state \<Rightarrow> storage_runtime_state" where
  "storage_mark_degraded reason s =
     s\<lparr>srs_projection := (srs_projection s)\<lparr>sri_status := StorageDegraded,
         sri_degraded_reason := Some reason\<rparr>\<rparr>"

interpretation storage_log: exact_event_log smr_sequence srs_next_sequence srs_recent_mutations
    storage_record_mutation storage_mutation STORAGE_MUTATION_LIMIT
proof unfold_locales
  fix i and s :: storage_runtime_state
  show "\<exists>d. srs_recent_mutations (storage_record_mutation i s) =
      drop d (srs_recent_mutations s @ [storage_mutation i (max (srs_next_sequence s) 1)])"
    by (rule exI [of _ "Suc (length (srs_recent_mutations s)) - STORAGE_MUTATION_LIMIT"])
      (simp add: storage_record_mutation_def Let_def pop_front_to_drop)
qed (auto simp: storage_record_mutation_def storage_mutation_def Let_def pop_front_to_drop
    STORAGE_MUTATION_LIMIT_def split: prod.split)

section \<open>Handoff and takeover\<close>

datatype handoff_status = HandoffAvailable | HandoffActive | HandoffCompleted | HandoffUnavailable

record handoff_info =
  hvi_status :: handoff_status
  hvi_automation_paused :: bool
  hvi_resume_supported :: bool
  hvi_unavailable_reason :: "string option"

definition handoff_info_default :: handoff_info where
  "handoff_info_default = \<lparr>hvi_status = HandoffUnavailable, hvi_automation_paused = False,
     hvi_resume_supported = False, hvi_unavailable_reason = Some ''not_configured''\<rparr>"

definition handoff_is_ready :: "handoff_info \<Rightarrow> bool" where
  "handoff_is_ready h \<longleftrightarrow> hvi_status h \<noteq> HandoffUnavailable"

definition handoff_replace :: "handoff_info \<Rightarrow> handoff_info \<Rightarrow> handoff_info" where
  "handoff_replace projection h = projection"

definition handoff_set_available :: "bool \<Rightarrow> handoff_info \<Rightarrow> handoff_info" where
  "handoff_set_available resume_supported h = \<lparr>hvi_status = HandoffAvailable,
     hvi_automation_paused = False, hvi_resume_supported = resume_supported,
     hvi_unavailable_reason = None\<rparr>"

definition handoff_activate :: "handoff_info \<Rightarrow> handoff_info" where
  "handoff_activate h = h\<lparr>hvi_status := HandoffActive, hvi_automation_paused := True,
     hvi_unavailable_reason := None\<rparr>"

definition handoff_complete :: "handoff_info \<Rightarrow> handoff_info" where
  "handoff_complete h = h\<lparr>hvi_status := HandoffCompleted, hvi_automation_paused := False,
     hvi_resume_supported := True, hvi_unavailable_reason := None\<rparr>"

datatype connection_target =
    CdpUrl string
  | AutoDiscovered string u16
  | Profile string string
  | Managed

text \<open>The fields of \<^verbatim>\<open>LaunchPolicyInfo\<close> that takeover reads; the others are diagnostics.\<close>

record launch_policy_info =
  lpi_headless :: bool
  lpi_connection_target :: "connection_target option"

datatype takeover_status = TakeoverAvailable | TakeoverActive | TakeoverDegraded | TakeoverUnavailable

datatype session_accessibility = AutomationOnly | UserAccessible

datatype takeover_visibility_mode = VisibilityHeaded | VisibilityHeadless | VisibilityExternal

datatype takeover_transition_kind = TransitionStart | TransitionResume | TransitionElevate

datatype takeover_transition_result = TransitionSucceeded | TransitionRejected

record takeover_transition_info =
  tti_kind :: takeover_transition_kind
  tti_result :: takeover_transition_result
  tti_reason :: "string option"

record takeover_runtime_info =
  tri_status :: takeover_status
  tri_session_accessibility :: session_accessibility
  tri_visibility_mode :: takeover_visibility_mode
  tri_elevate_supported :: bool
  tri_resume_supported :: bool
  tri_automation_paused :: bool
  tri_unavailable_reason :: "string option"
  tri_last_transition :: "takeover_transition_info option"

record takeover_runtime_state =
  tks_projection :: takeover_runtime_info
  tks_degraded_reason :: "string option"

fun external_target :: "connection_target option \<Rightarrow> bool" where
  "external_target (Some (CdpUrl _)) = True"
| "external_target (Some (AutoDiscovered _ _)) = True"
| "external_target _ = False"

definition session_is_user_accessible :: "launch_policy_info \<Rightarrow> bool" where
  "session_is_user_accessible policy =
     (if external_target (lpi_connection_target policy) then True else \<not> lpi_headless policy)"

definition derive_visibility_mode :: "launch_policy_info \<Rightarrow> takeover_visibility_mode" where
  "derive_visibility_mode policy =
     (if external_target (lpi_connection_target policy) then VisibilityExternal
      else if lpi_headless policy then VisibilityHeadless else VisibilityHeaded)"

definition session_supports_elevation :: "launch_policy_info \<Rightarrow> bool" where
  "session_supports_elevation policy \<longleftrightarrow>
     \<not> session_is_user_accessible policy \<and> \<not> external_target (lpi_connection_target policy)"

definition takeover_refresh ::
  "launch_policy_info \<Rightarrow> handoff_info \<Rightarrow> takeover_runtime_state \<Rightarrow> takeover_runtime_state" where
  "takeover_refresh policy handoff s =
     (let accessibility =
            (if session_is_user_accessible policy then UserAccessible else AutomationOnly);
          elevate_supported = session_supports_elevation policy;
          (status, reason) =
            (case accessibility of
               UserAccessible \<Rightarrow>
                 (case hvi_status handoff of
                    HandoffActive \<Rightarrow> (TakeoverActive, None)
                  | HandoffAvailable \<Rightarrow> (TakeoverAvailable, None)
                  | HandoffCompleted \<Rightarrow> (TakeoverAvailable, None)
                  | HandoffUnavailable \<Rightarrow> (TakeoverDegraded, Some ''handoff_unavailable''))
             | AutomationOnly \<Rightarrow>
                 (TakeoverUnavailable,
                  Some (if elevate_supported then ''elevation_required''
                        else ''automation_only_session'')));
          p = \<lparr>tri_status = status, tri_session_accessibility = accessibility,
               tri_visibility_mode = derive_visibility_mode policy,
               tri_elevate_supported = elevate_supported,
               tri_resume_supported = (hvi_resume_supported handoff \<and> accessibility = UserAccessible),
               tri_automation_paused = hvi_automation_paused handoff,
               tri_unavailable_reason = reason,
               tri_last_transition = tri_last_transition (tks_projection s)\<rparr>;
          p = (case tks_degraded_reason s of
                 Some degraded \<Rightarrow> p\<lparr>tri_status := TakeoverDegraded, tri_unavailable_reason := Some degraded\<rparr>
               | None \<Rightarrow> p)
      in s\<lparr>tks_projection := p\<rparr>)"

definition takeover_record_transition ::
  "takeover_transition_kind \<Rightarrow> takeover_transition_result \<Rightarrow> string option
   \<Rightarrow> takeover_runtime_state \<Rightarrow> takeover_runtime_state" where
  "takeover_record_transition kind result reason s =
     s\<lparr>tks_projection := (tks_projection s)\<lparr>tri_last_transition :=
         Some \<lparr>tti_kind = kind, tti_result = result, tti_reason = reason\<rparr>\<rparr>\<rparr>"

definition takeover_mark_degraded ::
  "string \<Rightarrow> takeover_runtime_state \<Rightarrow> takeover_runtime_state" where
  "takeover_mark_degraded reason s =
     s\<lparr>tks_degraded_reason := Some reason,
       tks_projection := (tks_projection s)\<lparr>tri_status := TakeoverDegraded,
         tri_unavailable_reason := Some reason\<rparr>\<rparr>"

definition takeover_clear_degraded :: "takeover_runtime_state \<Rightarrow> takeover_runtime_state" where
  "takeover_clear_degraded s = s\<lparr>tks_degraded_reason := None\<rparr>"

definition is_handoff_active :: "handoff_info \<Rightarrow> bool" where
  "is_handoff_active h \<longleftrightarrow> hvi_automation_paused h"

definition has_active_human_control :: "handoff_info \<Rightarrow> takeover_runtime_state \<Rightarrow> bool" where
  "has_active_human_control h s =
     (if is_handoff_active h then True
      else tri_automation_paused (tks_projection s) \<or> tri_status (tks_projection s) = TakeoverActive)"

section \<open>Network rules and the integration projection\<close>

datatype network_rule_status = RuleConfigured | RuleActive | RuleDegraded

datatype network_rule_spec =
    RewriteRule string string
  | BlockRule string
  | AllowRule string
  | HeaderOverrideRule string "(string \<times> string) list"

record network_rule =
  nru_id :: u32
  nru_status :: network_rule_status
  nru_spec :: network_rule_spec

datatype integration_mode = IntegrationNormal | IntegrationDeveloper

datatype integration_status =
  IntegrationInactive | IntegrationActive | IntegrationDegraded | IntegrationUnsupported

datatype integration_surface =
    SurfaceRequestRules | SurfaceRuntimeObservatory | SurfaceStateInspector | SurfaceReadiness
  | SurfaceHumanVerificationHandoff

record integration_runtime_info =
  iri_mode :: integration_mode
  iri_status :: integration_status
  iri_request_rule_count :: u32
  iri_request_rules :: "network_rule list"
  iri_active_surfaces :: "integration_surface list"
  iri_degraded_surfaces :: "integration_surface list"
  iri_observatory_ready :: bool
  iri_readiness_ready :: bool
  iri_state_inspector_ready :: bool
  iri_handoff_ready :: bool

definition sync_request_rule_count :: "integration_runtime_info \<Rightarrow> integration_runtime_info" where
  "sync_request_rule_count i = i\<lparr>iri_request_rule_count := of_nat (length (iri_request_rules i))\<rparr>"

definition next_network_rule_id :: "u32 \<times> integration_runtime_info \<Rightarrow> u32 \<times> u32 \<times> integration_runtime_info" where
  "next_network_rule_id s = (fst s, fst s + 1, snd s)"

definition register_network_rule ::
  "network_rule_spec \<Rightarrow> u32 \<times> integration_runtime_info
   \<Rightarrow> network_rule \<times> u32 \<times> integration_runtime_info" where
  "register_network_rule spec s =
     (let (next_id, i) = s;
          rule = \<lparr>nru_id = next_id, nru_status = RuleConfigured, nru_spec = spec\<rparr>;
          i = sync_request_rule_count (i\<lparr>iri_request_rules := iri_request_rules i @ [rule]\<rparr>)
      in (rule, next_id + 1, i\<lparr>iri_status := IntegrationActive\<rparr>))"

definition set_network_rule_status ::
  "u32 \<Rightarrow> network_rule_status \<Rightarrow> integration_runtime_info
   \<Rightarrow> network_rule option \<times> integration_runtime_info" where
  "set_network_rule_status rule_id status i =
     (case find (\<lambda>r. nru_id r = rule_id) (iri_request_rules i) of
        None \<Rightarrow> (None, i)
      | Some r \<Rightarrow> (Some (r\<lparr>nru_status := status\<rparr>),
          i\<lparr>iri_request_rules := update_first (\<lambda>r. nru_id r = rule_id)
              (\<lambda>r. r\<lparr>nru_status := status\<rparr>) (iri_request_rules i)\<rparr>))"

definition remove_network_rule ::
  "u32 \<Rightarrow> integration_runtime_info \<Rightarrow> network_rule option \<times> integration_runtime_info" where
  "remove_network_rule rule_id i =
     (case find (\<lambda>r. nru_id r = rule_id) (iri_request_rules i) of
        None \<Rightarrow> (None, i)
      | Some r \<Rightarrow>
          let i = sync_request_rule_count (i\<lparr>iri_request_rules :=
                remove_first (\<lambda>r. nru_id r = rule_id) (iri_request_rules i)\<rparr>)
          in (Some r, if iri_request_rules i = [] then i\<lparr>iri_status := IntegrationInactive\<rparr> else i))"

definition clear_network_rules ::
  "integration_runtime_info \<Rightarrow> network_rule list \<times> integration_runtime_info" where
  "clear_network_rules i =
     (iri_request_rules i,
      (sync_request_rule_count (i\<lparr>iri_request_rules := []\<rparr>))\<lparr>iri_status := IntegrationInactive\<rparr>)"

definition replace_network_rules_with_status ::
  "network_rule list \<Rightarrow> integration_status \<Rightarrow> integration_status \<Rightarrow> integration_runtime_info
   \<Rightarrow> integration_runtime_info" where
  "replace_network_rules_with_status rules non_empty_status empty_status i =
     (let i = sync_request_rule_count (i\<lparr>iri_request_rules := rules\<rparr>)
      in i\<lparr>iri_status := (if iri_request_rules i = [] then empty_status else non_empty_status)\<rparr>)"

definition replace_network_rules ::
  "network_rule list \<Rightarrow> integration_runtime_info \<Rightarrow> integration_runtime_info" where
  "replace_network_rules rules i =
     replace_network_rules_with_status rules IntegrationActive IntegrationInactive i"

definition replace_network_rules_degraded ::
  "network_rule list \<Rightarrow> integration_runtime_info \<Rightarrow> integration_runtime_info" where
  "replace_network_rules_degraded rules i =
     replace_network_rules_with_status (map (\<lambda>r. r\<lparr>nru_status := RuleDegraded\<rparr>) rules)
       IntegrationDegraded IntegrationInactive i"

definition derive_integration_runtime_status ::
  "integration_status \<Rightarrow> network_rule list \<Rightarrow> runtime_observatory_status
   \<Rightarrow> state_inspector_status \<Rightarrow> readiness_status \<Rightarrow> integration_status" where
  "derive_integration_runtime_status current rules observatory inspector readiness =
     (if current = IntegrationUnsupported then IntegrationUnsupported
      else if current = IntegrationDegraded \<or> list_ex (\<lambda>r. nru_status r = RuleDegraded) rules \<or>
              observatory = ObservatoryDegraded \<or> inspector = InspectorDegraded \<or>
              readiness = ReadinessDegraded
      then IntegrationDegraded
      else if rules \<noteq> [] \<or> observatory = ObservatoryActive \<or> inspector = InspectorActive \<or>
              readiness = ReadinessActive
      then IntegrationActive
      else IntegrationInactive)"

definition derive_integration_runtime_surfaces ::
  "network_rule list \<Rightarrow> runtime_observatory_status \<Rightarrow> state_inspector_status \<Rightarrow> readiness_status
   \<Rightarrow> handoff_info \<Rightarrow> integration_surface list \<times> integration_surface list" where
  "derive_integration_runtime_surfaces rules observatory inspector readiness handoff =
     ((if rules \<noteq> [] then [SurfaceRequestRules] else []) @
      (if observatory = ObservatoryActive then [SurfaceRuntimeObservatory] else []) @
      (if inspector = InspectorActive then [SurfaceStateInspector] else []) @
      (if readiness = ReadinessActive then [SurfaceReadiness] else []) @
      (if hvi_status handoff \<noteq> HandoffUnavailable then [SurfaceHumanVerificationHandoff] else []),
      (if list_ex (\<lambda>r. nru_status r = RuleDegraded) rules then [SurfaceRequestRules] else []) @
      (if observatory = ObservatoryDegraded then [SurfaceRuntimeObservatory] else []) @
      (if inspector = InspectorDegraded then [SurfaceStateInspector] else []) @
      (if readiness = ReadinessDegraded then [SurfaceReadiness] else []))"

definition set_integration_runtime ::
  "integration_runtime_info \<Rightarrow> integration_runtime_info \<Rightarrow> integration_runtime_info" where
  "set_integration_runtime integration i = sync_request_rule_count integration"

text \<open>\<^verbatim>\<open>SessionState::integration_runtime\<close>; the ingress counters of the observatory are arguments.\<close>

definition integration_runtime ::
  "u64 \<Rightarrow> u64 \<Rightarrow> integration_runtime_info \<Rightarrow> runtime_observatory_state \<Rightarrow> runtime_state_projection
   \<Rightarrow> handoff_info \<Rightarrow> integration_runtime_info" where
  "integration_runtime observatory_ingress request_ingress i obs rs handoff =
     (let i = sync_request_rule_count i;
          observatory = projected_observatory observatory_ingress request_ingress obs;
          snap = runtime_state_snapshot_of rs;
          (active, degraded) = derive_integration_runtime_surfaces (iri_request_rules i)
            (roi_status observatory) (sii_status (rss_state_inspector snap))
            (rdi_status (rss_readiness_state snap)) handoff
      in i\<lparr>iri_status := derive_integration_runtime_status (iri_status i) (iri_request_rules i)
             (roi_status observatory) (sii_status (rss_state_inspector snap))
             (rdi_status (rss_readiness_state snap)),
           iri_active_surfaces := active, iri_degraded_surfaces := degraded,
           iri_observatory_ready := (roi_status observatory \<noteq> ObservatoryInactive),
           iri_state_inspector_ready := (sii_status (rss_state_inspector snap) \<noteq> InspectorInactive),
           iri_readiness_ready := (rdi_status (rss_readiness_state snap) \<noteq> ReadinessInactive),
           iri_handoff_ready := (hvi_status handoff \<noteq> HandoffUnavailable)\<rparr>)"

section \<open>Dialog lemmas\<close>

lemmas dialog_step_defs = dialog_replace_projection_def dialog_set_runtime_def
  dialog_mark_degraded_def dialog_record_opened_def dialog_record_closed_def
  dialog_apply_runtime_status_def dialog_prepare_generation_def dialog_effective_generation_def

interpretation dialog_surface:
  browser_surface dgs_current_generation run_dialog_op dialog_op_generation
proof
  fix e and s :: dialog_runtime_state
  assume "dialog_op_generation e \<noteq> 0" "dialog_op_generation e < dgs_current_generation s"
  then show "run_dialog_op e s = s" by (cases e) (simp_all add: dialog_step_defs Let_def)
next
  fix e and s :: dialog_runtime_state
  show "dgs_current_generation (run_dialog_op e s) =
      max (dgs_current_generation s) (dialog_op_generation e)"
    by (cases e) (auto simp: dialog_step_defs Let_def max_def split: option.splits)
qed

text \<open>An opened or closed event, its number and the dialog it leaves open.\<close>

fun dialog_event_sequence :: "dialog_op \<Rightarrow> u64 option" where
  "dialog_event_sequence (DialogOpened e) = Some (doe_sequence e)"
| "dialog_event_sequence (DialogClosed _ n _ _ _) = Some n"
| "dialog_event_sequence _ = None"

fun dialog_left_open :: "dialog_op \<Rightarrow> pending_dialog_info option" where
  "dialog_left_open (DialogOpened e) = Some (doe_pending e)"
| "dialog_left_open _ = None"

fun replaces_projection :: "dialog_op \<Rightarrow> bool" where
  "replaces_projection (DialogReplace _ _) = True"
| "replaces_projection _ = False"

text \<open>\<open>dialog_older m e\<close>: the operation \<open>m\<close> is of an older generation than \<open>e\<close>, or of the same one and
  no event, or an event with a smaller number.\<close>

definition dialog_older :: "dialog_op \<Rightarrow> dialog_op \<Rightarrow> bool" where
  "dialog_older m e \<longleftrightarrow> dialog_op_generation m \<noteq> 0 \<and> \<not> replaces_projection m \<and>
     (dialog_op_generation m < dialog_op_generation e \<or>
      dialog_op_generation m = dialog_op_generation e \<and>
      (case dialog_event_sequence m of None \<Rightarrow> True
       | Some k \<Rightarrow> (\<exists>n. dialog_event_sequence e = Some n \<and> k < n)))"

definition dialog_behind :: "dialog_runtime_state \<Rightarrow> dialog_op \<Rightarrow> bool" where
  "dialog_behind s e \<longleftrightarrow> dgs_current_generation s < dialog_op_generation e \<or>
     dgs_current_generation s = dialog_op_generation e \<and>
     (\<exists>n. dialog_event_sequence e = Some n \<and> dgs_last_event_sequence s < n)"

definition dialog_settled :: "dialog_op \<Rightarrow> dialog_runtime_state \<Rightarrow> bool" where
  "dialog_settled e s \<longleftrightarrow> dgs_current_generation s = dialog_op_generation e \<and>
     Some (dgs_last_event_sequence s) = dialog_event_sequence e \<and>
     dgi_pending_dialog (dgs_projection s) = dialog_left_open e \<and>
     (dgi_last_result (dgs_projection s) = None \<longleftrightarrow> dialog_left_open e \<noteq> None)"

text \<open>What each operation does in its own generation, and that a newer generation starts it from the
  default projection.\<close>

definition dialog_fresh :: "u64 \<Rightarrow> dialog_runtime_state" where
  "dialog_fresh g = \<lparr>dgs_projection = dialog_runtime_info_default, dgs_last_event_sequence = 0,
     dgs_current_generation = g\<rparr>"

lemma dialog_fresh_simps [simp]:
  "dgs_current_generation (dialog_fresh g) = g" "dgs_last_event_sequence (dialog_fresh g) = 0"
  by (simp_all add: dialog_fresh_def)

lemma dialog_newer_step:
  fixes s :: dialog_runtime_state
  assumes "dgs_current_generation s < dialog_op_generation m"
  shows "run_dialog_op m s = run_dialog_op m (dialog_fresh (dialog_op_generation m))"
proof -
  have g: "dialog_op_generation m \<noteq> 0" using assms by auto
  have "dialog_prepare_generation (dialog_op_generation m) s =
      dialog_prepare_generation (dialog_op_generation m) (dialog_fresh (dialog_op_generation m))"
    using assms g
    by (cases s)
      (auto simp: dialog_prepare_generation_def dialog_effective_generation_def dialog_fresh_def Let_def)
  then show ?thesis
    by (cases m) (simp_all add: dialog_replace_projection_def dialog_set_runtime_def
        dialog_mark_degraded_def dialog_record_opened_def dialog_record_closed_def)
qed

lemma dialog_prepare_same [simp]:
  "dialog_prepare_generation (dgs_current_generation s) s = (True, s)"
  by (simp add: dialog_prepare_generation_def dialog_effective_generation_def)

lemma dialog_same_step:
  fixes s :: dialog_runtime_state
  assumes "dialog_op_generation m = dgs_current_generation s"
  shows "dgs_last_event_sequence (run_dialog_op m s) =
      (case dialog_event_sequence m of None \<Rightarrow> dgs_last_event_sequence s
       | Some k \<Rightarrow> max k (dgs_last_event_sequence s))"
    and "\<not> replaces_projection m \<Longrightarrow>
      dgi_pending_dialog (dgs_projection (run_dialog_op m s)) =
      (case dialog_event_sequence m of None \<Rightarrow> dgi_pending_dialog (dgs_projection s)
       | Some k \<Rightarrow> if k \<le> dgs_last_event_sequence s then dgi_pending_dialog (dgs_projection s)
                  else dialog_left_open m)"
    and "\<not> replaces_projection m \<Longrightarrow>
      (dgi_last_result (dgs_projection (run_dialog_op m s)) = None) =
      (case dialog_event_sequence m of None \<Rightarrow> dgi_last_result (dgs_projection s) = None
       | Some k \<Rightarrow> if k \<le> dgs_last_event_sequence s then dgi_last_result (dgs_projection s) = None
                  else dialog_left_open m \<noteq> None)"
  using assms
  by (cases m; simp add: dialog_replace_projection_def dialog_set_runtime_def
      dialog_mark_degraded_def dialog_record_opened_def dialog_record_closed_def
      dialog_apply_runtime_status_def Let_def max_def)+

lemma dialog_behind_start:
  fixes s :: dialog_runtime_state
  assumes "dialog_behind s e" and "dialog_op_generation m = dialog_op_generation e"
    and "dialog_event_sequence e = Some n" and "0 < n"
  obtains t :: dialog_runtime_state where "run_dialog_op m s = run_dialog_op m t"
    and "dialog_op_generation m = dgs_current_generation t" and "dgs_last_event_sequence t < n"
proof (cases "dgs_current_generation s < dialog_op_generation m")
  case True
  then show ?thesis
    using that [of "dialog_fresh (dialog_op_generation m)"] dialog_newer_step assms(4) by simp
next
  case False
  then show ?thesis using that [of s] assms by (auto simp: dialog_behind_def)
qed

lemma dialog_behind_older:
  fixes s :: dialog_runtime_state
  assumes b: "dialog_behind s e" and m: "dialog_older m e"
    and n: "dialog_event_sequence e = Some n" "0 < n"
  shows "dialog_behind (run_dialog_op m s) e"
proof (cases "dialog_op_generation m < dialog_op_generation e")
  case True
  show ?thesis
  proof (cases "dgs_current_generation s < dialog_op_generation e")
    case less: True
    then show ?thesis
      using True by (simp add: dialog_behind_def dialog_surface.gen_step)
  next
    case False
    then have "run_dialog_op m s = s"
      using b m True by (intro dialog_surface.stale_step) (auto simp: dialog_behind_def dialog_older_def)
    then show ?thesis using b by simp
  qed
next
  case False
  then have g: "dialog_op_generation m = dialog_op_generation e"
    and k: "\<And>k. dialog_event_sequence m = Some k \<Longrightarrow> k < n"
    using m n by (auto simp: dialog_older_def)
  obtain t :: dialog_runtime_state where t: "run_dialog_op m s = run_dialog_op m t"
    and c: "dialog_op_generation m = dgs_current_generation t" "dgs_last_event_sequence t < n"
    using dialog_behind_start [OF b g n] .
  have "dgs_last_event_sequence (run_dialog_op m t) < n"
    using dialog_same_step(1) [OF c(1)] c(2) k by (cases "dialog_event_sequence m") simp_all
  moreover have "dgs_current_generation (run_dialog_op m t) = dialog_op_generation e"
    using c(1) g by (simp only: dialog_surface.gen_step) simp
  ultimately show ?thesis using n by (simp add: t dialog_behind_def)
qed

lemma dialog_behind_event:
  fixes s :: dialog_runtime_state
  assumes b: "dialog_behind s e" and n: "dialog_event_sequence e = Some n" "0 < n"
  shows "dialog_settled e (run_dialog_op e s)"
proof -
  obtain t :: dialog_runtime_state where t: "run_dialog_op e s = run_dialog_op e t"
    and c: "dialog_op_generation e = dgs_current_generation t" "dgs_last_event_sequence t < n"
    using dialog_behind_start [OF b refl n] .
  have r: "\<not> replaces_projection e" using n by (cases e) simp_all
  have late: "(n \<le> dgs_last_event_sequence t) = False" using c(2) by simp
  have "dgs_current_generation (run_dialog_op e t) = dialog_op_generation e"
    using c(1) by (simp only: dialog_surface.gen_step) simp
  then show ?thesis
    using dialog_same_step(1) [OF c(1)] dialog_same_step(2,3) [OF c(1) r] n(1) late
    by (simp add: t dialog_settled_def max_def)
qed

lemma dialog_settled_stays:
  fixes s :: dialog_runtime_state
  assumes e: "dialog_settled e s" and m: "m = e \<or> dialog_older m e"
  shows "dialog_settled e (run_dialog_op m s)"
proof (cases "dialog_op_generation m < dialog_op_generation e")
  case True
  then have "run_dialog_op m s = s"
    using e m by (intro dialog_surface.stale_step) (auto simp: dialog_settled_def dialog_older_def)
  then show ?thesis using e by simp
next
  case False
  then have c: "dialog_op_generation m = dgs_current_generation s"
    using e m by (auto simp: dialog_settled_def dialog_older_def)
  have n: "dialog_event_sequence e = Some (dgs_last_event_sequence s)"
    using e by (simp add: dialog_settled_def)
  then have r: "\<not> replaces_projection m"
    using m by (cases m) (auto simp: dialog_older_def)
  have k: "k \<le> dgs_last_event_sequence s" if "dialog_event_sequence m = Some k" for k
    using m n that False by (auto simp: dialog_older_def)
  have "dgs_current_generation (run_dialog_op m s) = dialog_op_generation e"
    using c e by (simp only: dialog_surface.gen_step) (simp add: dialog_settled_def)
  then show ?thesis
    using dialog_same_step(1) [OF c] dialog_same_step(2,3) [OF c r] e k
    by (cases "dialog_event_sequence m") (simp_all add: dialog_settled_def max_def)
qed

lemma dialog_settled_run:
  assumes "\<forall>m\<in>set ops. m = e \<or> dialog_older m e" and "dialog_settled e s"
  shows "dialog_settled e (fold run_dialog_op ops s)"
  using assms by (induction ops arbitrary: s) (auto intro: dialog_settled_stays)

lemma dialog_event_run:
  assumes "\<forall>m\<in>set ops. m = e \<or> dialog_older m e" and "e \<in> set ops"
    and "dialog_event_sequence e = Some n" and "0 < n" and "dialog_behind s e"
  shows "dialog_settled e (fold run_dialog_op ops s)"
  using assms
proof (induction ops arbitrary: s)
  case (Cons m ops)
  show ?case
  proof (cases "m = e")
    case True
    then show ?thesis
      using Cons.prems by (auto intro!: dialog_settled_run dialog_behind_event)
  next
    case False
    then show ?thesis
      using Cons.prems by (auto intro!: Cons.IH dialog_behind_older)
  qed
qed simp

section \<open>Frame lemmas\<close>

definition parent_chain :: "frame_inventory_entry list \<Rightarrow> string list \<Rightarrow> bool" where
  "parent_chain inventory ids \<longleftrightarrow>
     (\<forall>i. Suc i < length ids \<longrightarrow> parent_of inventory (ids ! i) = Some (ids ! Suc i))"

definition chain_ends :: "frame_inventory_entry list \<Rightarrow> string list \<Rightarrow> bool" where
  "chain_ends inventory ids \<longleftrightarrow>
     (case parent_of inventory (last ids) of None \<Rightarrow> True | Some p \<Rightarrow> p \<in> set ids)"

lemma parent_chain_snoc:
  "parent_chain inventory (ids @ [f]) \<longleftrightarrow> parent_chain inventory ids \<and>
     (ids \<noteq> [] \<longrightarrow> parent_of inventory (last ids) = Some f)"
  unfolding parent_chain_def
  by (cases ids rule: rev_cases) (auto simp: nth_append less_Suc_eq)

lemma lineage_loop_chain:
  assumes "distinct lineage" and "parent_chain inventory lineage"
    and "lineage \<noteq> [] \<Longrightarrow> current = parent_of inventory (last lineage)"
    and "lineage \<noteq> [] \<or> current \<noteq> None"
    and "set (tl lineage) \<subseteq> parent_ids inventory"
  shows "let r = lineage_loop inventory current lineage in
    distinct r \<and> parent_chain inventory r \<and> r \<noteq> [] \<and> chain_ends inventory r \<and>
    set (tl r) \<subseteq> parent_ids inventory \<and>
    hd r = (if lineage = [] then the current else hd lineage)"
  using assms
proof (induction inventory current lineage rule: lineage_loop.induct)
  case (1 inventory current lineage)
  show ?case
  proof (cases "\<exists>f. current = Some f \<and> f \<notin> set lineage")
    case True
    then obtain f where f: "current = Some f" "f \<notin> set lineage" by auto
    have tl: "set (tl (lineage @ [f])) \<subseteq> parent_ids inventory"
      using "1.prems" f parent_of_ids [of inventory "last lineage" f] by (cases lineage) auto
    have "let r = lineage_loop inventory (parent_of inventory f) (lineage @ [f]) in
      distinct r \<and> parent_chain inventory r \<and> r \<noteq> [] \<and> chain_ends inventory r \<and>
      set (tl r) \<subseteq> parent_ids inventory \<and> hd r = hd (lineage @ [f])"
      using "1.IH" [OF f] "1.prems" f tl by (simp add: parent_chain_snoc)
    then show ?thesis
      using f by (subst lineage_loop.simps) (simp add: Let_def hd_append split: if_splits)
  next
    case False
    then have "lineage_loop inventory current lineage = lineage" and "lineage \<noteq> []"
      using "1.prems"(4) by (subst lineage_loop.simps, auto split: option.split)
    then show ?thesis
      using "1.prems" False by (auto simp: chain_ends_def Let_def split: option.split)
  qed
qed

lemma card_parent_ids: "card (parent_ids inventory) \<le> length inventory"
proof -
  have "card (parent_ids inventory) = card (Some ` parent_ids inventory)"
    by (simp add: card_image)
  also have "\<dots> \<le> card ((fci_parent_frame_id \<circ> fie_frame) ` set inventory)"
    by (rule card_mono) (auto simp: parent_ids_def)
  also have "\<dots> \<le> length inventory"
    by (rule order.trans [OF card_image_le card_length]) simp
  finally show ?thesis .
qed

lemma build_lineage_chain:
  "distinct (build_lineage f inventory)" "parent_chain inventory (build_lineage f inventory)"
  "build_lineage f inventory \<noteq> []" "chain_ends inventory (build_lineage f inventory)"
  "hd (build_lineage f inventory) = f"
  "length (build_lineage f inventory) \<le> Suc (length inventory)"
proof -
  let ?r = "build_lineage f inventory"
  have r: "distinct ?r \<and> parent_chain inventory ?r \<and> ?r \<noteq> [] \<and> chain_ends inventory ?r \<and>
      set (tl ?r) \<subseteq> parent_ids inventory \<and> hd ?r = f"
    using lineage_loop_chain [of "[]" inventory "Some f"]
    by (simp add: build_lineage_def parent_chain_def Let_def)
  then have "length (tl ?r) \<le> card (parent_ids inventory)"
    by (metis card_mono distinct_card distinct_tl finite_parent_ids)
  then show "length ?r \<le> Suc (length inventory)"
    using card_parent_ids [of inventory] by simp
  show "distinct ?r" "parent_chain inventory ?r" "?r \<noteq> []" "chain_ends inventory ?r" "hd ?r = f"
    using r by auto
qed

lemma primary_entry_None [simp]: "primary_entry inventory = None \<longleftrightarrow> inventory = []"
  by (auto simp: primary_entry_def or_else_def split: option.splits list.splits)

lemma stale_frame_context_id [simp]: "fci_frame_id (stale_frame_context f previous) = f"
  by (simp add: stale_frame_context_def Let_def split: option.split)

lemma apply_inventory_cases:
  assumes "inventory \<noteq> []"
  obtains (lineage) frame where
      "fri_current_frame (frs_projection (apply_inventory inventory s)) = Some frame"
      "fri_frame_lineage (frs_projection (apply_inventory inventory s)) =
        build_lineage (fci_frame_id frame) inventory"
      "fri_status (frs_projection (apply_inventory inventory s)) \<noteq> FrameStale"
  | (stale) frame where
      "fri_current_frame (frs_projection (apply_inventory inventory s)) = Some frame"
      "fri_frame_lineage (frs_projection (apply_inventory inventory s)) = [fci_frame_id frame]"
      "fri_status (frs_projection (apply_inventory inventory s)) = FrameStale"
proof -
  obtain primary where p: "primary_entry inventory = Some primary"
    using assms by (cases "primary_entry inventory") auto
  show thesis
  proof (cases "frs_selected_frame_id s")
    case None
    then show thesis using p by (intro lineage) (simp_all add: apply_inventory_def)
  next
    case (Some f)
    note sel = this
    show thesis
    proof (cases "find (\<lambda>e. fci_frame_id (fie_frame e) = f) inventory")
      case None
      then show thesis
        using p sel
        by (intro stale [of "stale_frame_context f (fri_current_frame (frs_projection s))"])
          (simp_all add: apply_inventory_def)
    next
      case (Some e)
      then have "fci_frame_id (fie_frame e) = f" by (auto simp: find_Some_iff)
      then show thesis
        using p sel Some by (intro lineage [of "fie_frame e"]) (simp_all add: apply_inventory_def)
    qed
  qed
qed

section \<open>Properties\<close>

text \<open>
  C40. The dialog projection refines a register that keeps the newest browser event. Whatever the order
  in which opened and closed events, status changes and degradations of any browser generations reach
  the session, and however often one is repeated, the pending dialog at the end is the one the event
  with the highest generation and number left open, and a result is shown exactly when that event
  closed the dialog.
\<close>

theorem dialog_latest_event_wins:
  assumes "e \<in> set ops" and "dialog_event_sequence e = Some n" and "0 < n"
    and "\<forall>m\<in>set ops. m = e \<or> dialog_older m e"
    and "dialog_behind s e"
  shows "dgi_pending_dialog (dgs_projection (fold run_dialog_op ops s)) = dialog_left_open e \<and>
    (dgi_last_result (dgs_projection (fold run_dialog_op ops s)) = None \<longleftrightarrow> dialog_left_open e \<noteq> None) \<and>
    dgs_last_event_sequence (fold run_dialog_op ops s) = n \<and>
    dgs_current_generation (fold run_dialog_op ops s) = dialog_op_generation e"
  using dialog_event_run [OF assms(4,1,2,3,5)] assms(2) by (simp add: dialog_settled_def)

text \<open>The close of a prompt arrives before its opening, and an old generation's dialog arrives last.\<close>

theorem dialog_latest_event_wins_witness:
  "let dialog = \<lparr>pdi_kind = DialogPrompt, pdi_message = ''name?'', pdi_url = ''https://a'',
         pdi_tab_target_id = None, pdi_frame_id = None, pdi_default_prompt = None,
         pdi_has_browser_handler = False, pdi_opened_at = ''t0''\<rparr>;
       ops = [DialogClosed 2 5 True ''x'' ''t1'',
              DialogOpened \<lparr>doe_generation = 2, doe_sequence = 4, doe_pending = dialog\<rparr>,
              DialogDegrade 2 ''ingress_overflow'',
              DialogOpened \<lparr>doe_generation = 1, doe_sequence = 9, doe_pending = dialog\<rparr>]
   in dgi_pending_dialog (dgs_projection (fold run_dialog_op ops dialog_runtime_default)) = None"
proof -
  define dialog where "dialog = \<lparr>pdi_kind = DialogPrompt, pdi_message = ''name?'',
    pdi_url = ''https://a'', pdi_tab_target_id = None, pdi_frame_id = None,
    pdi_default_prompt = None, pdi_has_browser_handler = False, pdi_opened_at = ''t0''\<rparr>"
  let ?e = "DialogClosed 2 5 True ''x'' ''t1''"
  let ?ops = "[?e, DialogOpened \<lparr>doe_generation = 2, doe_sequence = 4, doe_pending = dialog\<rparr>,
    DialogDegrade 2 ''ingress_overflow'',
    DialogOpened \<lparr>doe_generation = 1, doe_sequence = 9, doe_pending = dialog\<rparr>]"
  have "dgi_pending_dialog (dgs_projection (fold run_dialog_op ?ops dialog_runtime_default)) =
      dialog_left_open ?e"
    by (rule dialog_latest_event_wins [of ?e ?ops 5 dialog_runtime_default, THEN conjunct1])
      (simp_all add: dialog_older_def dialog_behind_def dialog_runtime_default_def)
  then show ?thesis unfolding Let_def dialog_def [symmetric] by simp
qed

text \<open>
  Refreshing the frame runtime from any non-empty inventory ends, also when the parent links form a
  cycle or repeat an id, and yields a current frame and its lineage: the lineage starts at the current
  frame, follows the parent links of the inventory, repeats no frame, has at most one id more than the
  inventory has entries, and stops only where there is no parent left or the next parent is already
  listed; only a selected frame that has vanished gets the one-element lineage of a stale frame.
\<close>

theorem frame_lineage_complete:
  assumes "inventory \<noteq> []"
  shows "\<exists>frame. fri_current_frame (frs_projection (apply_inventory inventory s)) = Some frame \<and>
    (let ids = fri_frame_lineage (frs_projection (apply_inventory inventory s)) in
     ids \<noteq> [] \<and> hd ids = fci_frame_id frame \<and> distinct ids \<and> parent_chain inventory ids \<and>
     length ids \<le> Suc (length inventory) \<and>
     (if fri_status (frs_projection (apply_inventory inventory s)) = FrameStale
      then ids = [fci_frame_id frame] else chain_ends inventory ids))"
  using assms
proof (cases rule: apply_inventory_cases [of inventory s])
  case (lineage frame)
  then show ?thesis using build_lineage_chain [where f = "fci_frame_id frame" and inventory = inventory] by simp
next
  case (stale frame)
  then show ?thesis by (simp add: parent_chain_def)
qed

text \<open>Two frames that name each other as parent.\<close>

theorem frame_lineage_complete_witness:
  "let frame = (\<lambda>i p. \<lparr>fci_frame_id = i, fci_name = None, fci_parent_frame_id = Some p,
         fci_target_id = None, fci_url = None, fci_depth = 0, fci_same_origin_accessible = None\<rparr>);
       inventory = [\<lparr>fie_index = 0, fie_frame = frame ''a'' ''b'', fie_is_current = False, fie_is_primary = True\<rparr>,
         \<lparr>fie_index = 1, fie_frame = frame ''b'' ''a'', fie_is_current = False, fie_is_primary = False\<rparr>];
       ids = fri_frame_lineage (frs_projection (apply_inventory inventory
         \<lparr>frs_selected_frame_id = Some ''b'', frs_projection = frame_runtime_info_default\<rparr>))
   in distinct ids \<and> length ids \<le> 3"
proof -
  have w: "distinct (fri_frame_lineage (frs_projection (apply_inventory [x, y] s))) \<and>
      length (fri_frame_lineage (frs_projection (apply_inventory [x, y] s))) \<le> 3"
    for x y :: frame_inventory_entry and s :: frame_runtime_state
    using frame_lineage_complete [of "[x, y]" s] by (auto simp: Let_def)
  show ?thesis unfolding Let_def by (rule w)
qed

end
