(* ===== verification/Rub_Ingress.thy ===== *)
theory Rub_Ingress
  imports Rub_Downloads Rub_Surfaces "HOL-Library.Multiset"
begin

text \<open>
  The ingress of browser events (session/protocol.rs, session/lifecycle.rs and
  session/runtime/browser_events/): callbacks of the browser allocate a number from the session,
  and put their event on one of two channels, an unbounded one for events that must not be lost
  and a bounded one for the progress of downloads. One worker per session merges the two channels
  by number, applies each event to the dialog and download surfaces and commits its number.

  The callbacks run on their own threads. Their program counters are part of the state: the
  numbers allocated and not yet enqueued (\<open>ing_held\<close>), and the critical events already counted in
  the telemetry and not yet sent (\<open>ing_metered\<close>). The worker's is \<open>ing_worker\<close>. Every operation of
  \<open>ingress_op\<close> is one atomic move of one of them, and a run is any list of such moves.
  The part of an enqueue that runs under the progress overflow mutex is one move.
  \<open>ing_applied\<close>, \<open>ing_log\<close> and \<open>ing_lost\<close> record the history and are never read.
\<close>

section \<open>Events\<close>

definition BROWSER_EVENT_PROGRESS_INGRESS_LIMIT :: nat where
  "BROWSER_EVENT_PROGRESS_INGRESS_LIMIT = 1024"

definition BROWSER_EVENT_CRITICAL_SOFT_LIMIT :: u32 where
  "BROWSER_EVENT_CRITICAL_SOFT_LIMIT = 256"

definition DOWNLOAD_PROGRESS_OVERFLOW_REASON :: string where
  "DOWNLOAD_PROGRESS_OVERFLOW_REASON = ''browser_event_ingress_overflow:download_progress''"

datatype browser_session_event =
    EvDialogRuntime u64 u64 dialog_runtime_info
  | EvDialogOpened u64 u64 dialog_kind string string "string option" "string option"
      "string option" bool
  | EvDialogClosed u64 u64 bool string
  | EvDownloadRuntime u64 u64 download_runtime_info
  | EvDownloadRuntimeDegradedMarker u64 u64 string
  | EvDownloadStarted u64 u64 string string string "string option"
  | EvDownloadProgress u64 u64 string download_state u64 "u64 option" "string option"

primrec browser_sequence :: "browser_session_event \<Rightarrow> u64" where
  "browser_sequence (EvDialogRuntime n g runtime) = n"
| "browser_sequence (EvDialogOpened n g kind message url tab frame prompt handler) = n"
| "browser_sequence (EvDialogClosed n g accepted input) = n"
| "browser_sequence (EvDownloadRuntime n g runtime) = n"
| "browser_sequence (EvDownloadRuntimeDegradedMarker n g reason) = n"
| "browser_sequence (EvDownloadStarted n g guid url name frame) = n"
| "browser_sequence (EvDownloadProgress n g guid state received total_bytes path) = n"

fun uses_bounded_progress_ingress :: "browser_session_event \<Rightarrow> bool" where
  "uses_bounded_progress_ingress (EvDownloadProgress n g guid state received total_bytes path) =
     (state = DownloadInProgress)"
| "uses_bounded_progress_ingress event = False"

text \<open>A runtime report without a degraded reason is a clear: it reopens the overflow latch.\<close>

fun runtime_clear_reopen :: "browser_session_event \<Rightarrow> (u64 \<times> u64) option" where
  "runtime_clear_reopen (EvDownloadRuntime n g runtime) =
     (if dri_degraded_reason runtime = None then Some (g, n) else None)"
| "runtime_clear_reopen event = None"

definition requires_download_progress_coordination :: "browser_session_event \<Rightarrow> bool" where
  "requires_download_progress_coordination event \<longleftrightarrow>
     uses_bounded_progress_ingress event \<or> runtime_clear_reopen event \<noteq> None"

section \<open>State\<close>

record browser_event_ingress_telemetry =
  bet_critical_pending_count :: u32
  bet_critical_max_pending_count :: u32
  bet_critical_soft_limit_cross_count :: u64
  bet_critical_pressure_active :: bool
  bet_last_critical_soft_limit_cross_uptime_ms :: u64

record browser_event_apply_outcome =
  beo_browser_sequence :: u64
  beo_clear_progress_overflow_latch :: "(u64 \<times> u64) option"

datatype worker_position =
    WorkerIdle
  | WorkerTaken browser_session_event
  | WorkerApplied browser_event_apply_outcome
  | WorkerUnlatched u64

datatype ingress_note = NoteCleared u64 u64 | NoteMarked u64 u64 | NoteDropped u64 u64

record ingress_state =
  ing_next_browser_event_sequence :: u64
  ing_committed_browser_event_sequence :: u64
  ing_committed_browser_event_backlog :: "u64 list"
  ing_browser_event_ingress_drop_count :: u64
  ing_telemetry :: browser_event_ingress_telemetry
  ing_next_dialog_event_sequence :: u64
  ing_next_download_event_sequence :: u64
  ing_dialogs :: dialog_runtime_state
  ing_downloads :: download_runtime_state
  ing_critical :: "browser_session_event list"
  ing_progress :: "browser_session_event list"
  ing_capacity :: nat
  ing_open :: bool
  ing_latched :: bool
  ing_latched_generation :: u64
  ing_latched_sequence :: u64
  ing_reopen_generation :: u64
  ing_reopen_sequence :: u64
  ing_pending :: "(u64, browser_session_event) mapping"
  ing_next_sequence :: u64
  ing_worker :: worker_position
  ing_held :: "u64 list"
  ing_metered :: "browser_session_event list"
  ing_applied :: "browser_session_event list"
  ing_log :: "ingress_note list"
  ing_lost :: "u64 list"

definition telemetry_default :: browser_event_ingress_telemetry where
  "telemetry_default = \<lparr>bet_critical_pending_count = 0, bet_critical_max_pending_count = 0,
     bet_critical_soft_limit_cross_count = 0, bet_critical_pressure_active = False,
     bet_last_critical_soft_limit_cross_uptime_ms = 0\<rparr>"

text \<open>A fresh session with its sink (\<^verbatim>\<open>new_with_progress_capacity\<close>); the worker starts at the
  number after the committed cursor.\<close>

definition new_with_progress_capacity :: "nat \<Rightarrow> ingress_state" where
  "new_with_progress_capacity progress_capacity =
     \<lparr>ing_next_browser_event_sequence = 0, ing_committed_browser_event_sequence = 0,
      ing_committed_browser_event_backlog = [], ing_browser_event_ingress_drop_count = 0,
      ing_telemetry = telemetry_default, ing_next_dialog_event_sequence = 0,
      ing_next_download_event_sequence = 0, ing_dialogs = dialog_runtime_default,
      ing_downloads = download_runtime_default, ing_critical = [], ing_progress = [],
      ing_capacity = progress_capacity, ing_open = True, ing_latched = False,
      ing_latched_generation = 0, ing_latched_sequence = 0, ing_reopen_generation = 0,
      ing_reopen_sequence = 0, ing_pending = Mapping.empty,
      ing_next_sequence = saturating_add 0 1, ing_worker = WorkerIdle, ing_held = [],
      ing_metered = [], ing_applied = [], ing_log = [], ing_lost = []\<rparr>"

definition sink_new :: ingress_state where
  "sink_new = new_with_progress_capacity BROWSER_EVENT_PROGRESS_INGRESS_LIMIT"

section \<open>The session's cursors and telemetry\<close>

definition allocate_browser_event_sequence :: "ingress_state \<Rightarrow> u64 \<times> ingress_state" where
  "allocate_browser_event_sequence s =
     (saturating_add (ing_next_browser_event_sequence s) 1,
      s\<lparr>ing_next_browser_event_sequence := ing_next_browser_event_sequence s + 1\<rparr>)"

function advance_committed :: "u64 \<Rightarrow> u64 list \<Rightarrow> u64 \<times> u64 list" where
  "advance_committed nxt backlog =
     (if saturating_add nxt 1 \<in> set backlog
      then advance_committed (saturating_add nxt 1) (removeAll (saturating_add nxt 1) backlog)
      else (nxt, backlog))"
  by pat_completeness auto
termination
  by (relation "measure (\<lambda>(nxt, backlog). length backlog)") (auto simp: length_removeAll_less)

definition record_browser_event_commit :: "u64 \<Rightarrow> ingress_state \<Rightarrow> ingress_state" where
  "record_browser_event_commit sequence s =
     (let current = ing_committed_browser_event_sequence s in
      if sequence \<le> current then s
      else
        let (nxt, backlog) = advance_committed current
              (List.insert sequence (ing_committed_browser_event_backlog s));
            s = s\<lparr>ing_committed_browser_event_backlog := backlog\<rparr>
        in if nxt > current then s\<lparr>ing_committed_browser_event_sequence := nxt\<rparr> else s)"

definition record_browser_event_ingress_overflow :: "ingress_state \<Rightarrow> ingress_state" where
  "record_browser_event_ingress_overflow s =
     s\<lparr>ing_browser_event_ingress_drop_count := ing_browser_event_ingress_drop_count s + 1\<rparr>"

definition atomic_max_u32 :: "u32 \<Rightarrow> u32 \<Rightarrow> u32" where
  "atomic_max_u32 current candidate = (if candidate > current then candidate else current)"

definition atomic_saturating_decrement_u32 :: "u32 \<Rightarrow> u32" where
  "atomic_saturating_decrement_u32 current = (if current = 0 then 0 else current - 1)"

definition record_critical_browser_event_enqueued ::
  "u64 \<Rightarrow> browser_event_ingress_telemetry \<Rightarrow> browser_event_ingress_telemetry" where
  "record_critical_browser_event_enqueued uptime_millis t =
     (let pending = saturating_add (bet_critical_pending_count t) 1;
          t = t\<lparr>bet_critical_pending_count := bet_critical_pending_count t + 1,
                bet_critical_max_pending_count :=
                  atomic_max_u32 (bet_critical_max_pending_count t) pending\<rparr>
      in
      if pending > BROWSER_EVENT_CRITICAL_SOFT_LIMIT then
        (if bet_critical_pressure_active t then t
         else t\<lparr>bet_critical_pressure_active := True,
                bet_critical_soft_limit_cross_count := bet_critical_soft_limit_cross_count t + 1,
                bet_last_critical_soft_limit_cross_uptime_ms := uptime_millis\<rparr>)
      else t)"

definition record_critical_browser_event_dequeued ::
  "browser_event_ingress_telemetry \<Rightarrow> browser_event_ingress_telemetry" where
  "record_critical_browser_event_dequeued t =
     (let remaining = atomic_saturating_decrement_u32 (bet_critical_pending_count t);
          t = t\<lparr>bet_critical_pending_count := remaining\<rparr>
      in if remaining \<le> BROWSER_EVENT_CRITICAL_SOFT_LIMIT
         then t\<lparr>bet_critical_pressure_active := False\<rparr> else t)"

section \<open>Enqueueing\<close>

definition should_emit_progress_overflow_marker ::
  "bool \<Rightarrow> u64 \<Rightarrow> u64 \<Rightarrow> u64 \<Rightarrow> u64 \<Rightarrow> u64 \<Rightarrow> bool" where
  "should_emit_progress_overflow_marker overflow_latched latched_generation latched_sequence
     generation reopen_generation reopen_sequence \<longleftrightarrow>
     \<not> overflow_latched \<or> latched_generation \<noteq> generation \<or>
     (reopen_generation = generation \<and> reopen_sequence > latched_sequence)"

datatype try_send_result = SendOk | SendFull | SendClosed

definition progress_try_send ::
  "browser_session_event \<Rightarrow> ingress_state \<Rightarrow> try_send_result \<times> ingress_state" where
  "progress_try_send event s =
     (if \<not> ing_open s then (SendClosed, s)
      else if length (ing_progress s) < ing_capacity s
      then (SendOk, s\<lparr>ing_progress := ing_progress s @ [event]\<rparr>)
      else (SendFull, s))"

definition critical_send :: "browser_session_event \<Rightarrow> ingress_state \<Rightarrow> bool \<times> ingress_state" where
  "critical_send event s =
     (if ing_open s then (True, s\<lparr>ing_critical := ing_critical s @ [event]\<rparr>) else (False, s))"

fun progress_generation :: "browser_session_event \<Rightarrow> u64" where
  "progress_generation (EvDownloadProgress n g guid state received total_bytes path) = g"
| "progress_generation event = 0"

text \<open>The bounded path: the event leaves its callback's hands, and is sent, or dropped with a
  degraded marker in its place, or dropped with its number committed.\<close>

definition enqueue_progress :: "browser_session_event \<Rightarrow> ingress_state \<Rightarrow> ingress_state" where
  "enqueue_progress event s =
     (let sequence = browser_sequence event;
          generation = progress_generation event;
          (sent, s) = progress_try_send event (s\<lparr>ing_held := remove1 sequence (ing_held s)\<rparr>)
      in case sent of
        SendOk \<Rightarrow> s
      | SendFull \<Rightarrow>
          let s = record_browser_event_ingress_overflow s in
          if should_emit_progress_overflow_marker (ing_latched s) (ing_latched_generation s)
               (ing_latched_sequence s) generation (ing_reopen_generation s) (ing_reopen_sequence s)
          then
            let (ok, s) = critical_send (EvDownloadRuntimeDegradedMarker sequence generation
                  DOWNLOAD_PROGRESS_OVERFLOW_REASON) s
            in if ok
               then s\<lparr>ing_latched := True, ing_latched_generation := generation,
                      ing_latched_sequence := sequence,
                      ing_log := ing_log s @ [NoteMarked generation sequence,
                        NoteDropped generation sequence]\<rparr>
               else record_browser_event_commit sequence s
          else record_browser_event_commit sequence
                 (s\<lparr>ing_log := ing_log s @ [NoteDropped generation sequence]\<rparr>)
      | SendClosed \<Rightarrow> record_browser_event_commit sequence s)"

text \<open>The critical path, in its two moves: the event is counted, then sent.\<close>

definition meter_critical :: "u64 \<Rightarrow> browser_session_event \<Rightarrow> ingress_state \<Rightarrow> ingress_state" where
  "meter_critical uptime_millis event s =
     s\<lparr>ing_held := remove1 (browser_sequence event) (ing_held s),
       ing_telemetry := record_critical_browser_event_enqueued uptime_millis (ing_telemetry s),
       ing_metered := ing_metered s @ [event]\<rparr>"

definition store_reopen :: "browser_session_event \<Rightarrow> ingress_state \<Rightarrow> ingress_state" where
  "store_reopen event s =
     (case runtime_clear_reopen event of
        Some (generation, sequence) \<Rightarrow>
          s\<lparr>ing_reopen_generation := generation, ing_reopen_sequence := sequence,
            ing_log := ing_log s @ [NoteCleared generation sequence]\<rparr>
      | None \<Rightarrow> s)"

definition withdraw_reopen :: "browser_session_event \<Rightarrow> ingress_state \<Rightarrow> ingress_state" where
  "withdraw_reopen event s =
     (case runtime_clear_reopen event of
        Some (generation, sequence) \<Rightarrow>
          if ing_reopen_generation s = generation \<and> ing_reopen_sequence s = sequence
          then s\<lparr>ing_reopen_generation := 0, ing_reopen_sequence := 0\<rparr> else s
      | None \<Rightarrow> s)"

definition publish_critical :: "browser_session_event \<Rightarrow> ingress_state \<Rightarrow> ingress_state" where
  "publish_critical event s =
     (let (ok, s) = critical_send event
            (store_reopen event (s\<lparr>ing_metered := remove1 event (ing_metered s)\<rparr>))
      in if ok then s
         else record_browser_event_commit (browser_sequence event)
           (withdraw_reopen event
             (s\<lparr>ing_telemetry := record_critical_browser_event_dequeued (ing_telemetry s)\<rparr>)))"

definition enqueue_with_optional_coordination ::
  "u64 \<Rightarrow> browser_session_event \<Rightarrow> ingress_state \<Rightarrow> ingress_state" where
  "enqueue_with_optional_coordination uptime_millis event s =
     (if uses_bounded_progress_ingress event then enqueue_progress event s
      else publish_critical event (meter_critical uptime_millis event s))"

definition enqueue_download_runtime ::
  "u64 \<Rightarrow> u64 \<Rightarrow> download_runtime_info \<Rightarrow> ingress_state \<Rightarrow> ingress_state" where
  "enqueue_download_runtime uptime_millis generation runtime s =
     (let (n, s) = allocate_browser_event_sequence s
      in enqueue_with_optional_coordination uptime_millis (EvDownloadRuntime n generation runtime) s)"

definition enqueue_download_started ::
  "u64 \<Rightarrow> u64 \<Rightarrow> string \<Rightarrow> string \<Rightarrow> string \<Rightarrow> string option \<Rightarrow> ingress_state \<Rightarrow> ingress_state" where
  "enqueue_download_started uptime_millis generation guid url suggested_filename frame_id s =
     (let (n, s) = allocate_browser_event_sequence s
      in enqueue_with_optional_coordination uptime_millis
           (EvDownloadStarted n generation guid url suggested_filename frame_id) s)"

definition enqueue_download_progress ::
  "u64 \<Rightarrow> u64 \<Rightarrow> string \<Rightarrow> download_state \<Rightarrow> u64 \<Rightarrow> u64 option \<Rightarrow> string option
   \<Rightarrow> ingress_state \<Rightarrow> ingress_state" where
  "enqueue_download_progress uptime_millis generation guid state received_bytes total_bytes
     final_path s =
     (let (n, s) = allocate_browser_event_sequence s
      in enqueue_with_optional_coordination uptime_millis
           (EvDownloadProgress n generation guid state received_bytes total_bytes final_path) s)"

section \<open>The worker\<close>

definition insert_pending_browser_event ::
  "browser_session_event \<Rightarrow> ingress_state \<Rightarrow> ingress_state" where
  "insert_pending_browser_event event s =
     (if browser_sequence event \<le> ing_committed_browser_event_sequence s then s
      else s\<lparr>ing_pending := Mapping.update (browser_sequence event) event (ing_pending s)\<rparr>)"

definition receive_critical :: "ingress_state \<Rightarrow> ingress_state" where
  "receive_critical s =
     (case ing_critical s of
        [] \<Rightarrow> s
      | event # rest \<Rightarrow> insert_pending_browser_event event
          (s\<lparr>ing_critical := rest,
             ing_telemetry := record_critical_browser_event_dequeued (ing_telemetry s)\<rparr>))"

definition receive_progress :: "ingress_state \<Rightarrow> ingress_state" where
  "receive_progress s =
     (case ing_progress s of
        [] \<Rightarrow> s
      | event # rest \<Rightarrow> insert_pending_browser_event event (s\<lparr>ing_progress := rest\<rparr>))"

fun apply_browser_session_event ::
  "string \<Rightarrow> browser_session_event \<Rightarrow> ingress_state \<Rightarrow> browser_event_apply_outcome \<times> ingress_state" where
  "apply_browser_session_event now (EvDialogRuntime n g runtime) s =
     (\<lparr>beo_browser_sequence = n, beo_clear_progress_overflow_latch = None\<rparr>,
      s\<lparr>ing_dialogs := dialog_replace_projection g runtime (ing_dialogs s)\<rparr>)"
| "apply_browser_session_event now
     (EvDialogOpened n g kind message url tab frame_id default_prompt handler) s =
     (\<lparr>beo_browser_sequence = n, beo_clear_progress_overflow_latch = None\<rparr>,
      s\<lparr>ing_next_dialog_event_sequence := ing_next_dialog_event_sequence s + 1,
        ing_dialogs := dialog_record_opened
          \<lparr>doe_generation = g,
           doe_sequence = saturating_add (ing_next_dialog_event_sequence s) 1,
           doe_pending = \<lparr>pdi_kind = kind, pdi_message = message, pdi_url = url,
             pdi_tab_target_id = tab, pdi_frame_id = frame_id,
             pdi_default_prompt = default_prompt, pdi_has_browser_handler = handler,
             pdi_opened_at = now\<rparr>\<rparr> (ing_dialogs s)\<rparr>)"
| "apply_browser_session_event now (EvDialogClosed n g accepted user_input) s =
     (\<lparr>beo_browser_sequence = n, beo_clear_progress_overflow_latch = None\<rparr>,
      s\<lparr>ing_next_dialog_event_sequence := ing_next_dialog_event_sequence s + 1,
        ing_dialogs := dialog_record_closed g
          (saturating_add (ing_next_dialog_event_sequence s) 1) accepted user_input now
          (ing_dialogs s)\<rparr>)"
| "apply_browser_session_event now (EvDownloadRuntime n g runtime) s =
     (let clears = (if dri_degraded_reason runtime = None then Some (g, n) else None);
          (applied, downloads) = apply_runtime_projection_sequenced g n runtime (ing_downloads s)
      in (\<lparr>beo_browser_sequence = n,
           beo_clear_progress_overflow_latch = (if applied then clears else None)\<rparr>,
          s\<lparr>ing_downloads := downloads\<rparr>))"
| "apply_browser_session_event now (EvDownloadRuntimeDegradedMarker n g reason) s =
     (\<lparr>beo_browser_sequence = n, beo_clear_progress_overflow_latch = None\<rparr>,
      s\<lparr>ing_downloads := mark_degraded_browser_event g n reason (ing_downloads s)\<rparr>)"
| "apply_browser_session_event now
     (EvDownloadStarted n g guid url suggested_filename frame_id) s =
     (\<lparr>beo_browser_sequence = n, beo_clear_progress_overflow_latch = None\<rparr>,
      s\<lparr>ing_next_download_event_sequence := ing_next_download_event_sequence s + 1,
        ing_downloads := snd (record_started g
          (saturating_add (ing_next_download_event_sequence s) 1) guid url suggested_filename
          frame_id now (ing_downloads s))\<rparr>)"
| "apply_browser_session_event now
     (EvDownloadProgress n g guid state received_bytes total_bytes final_path) s =
     (\<lparr>beo_browser_sequence = n, beo_clear_progress_overflow_latch = None\<rparr>,
      s\<lparr>ing_next_download_event_sequence := ing_next_download_event_sequence s + 1,
        ing_downloads := snd (record_progress
          \<lparr>dpe_generation = g, dpe_sequence = saturating_add (ing_next_download_event_sequence s) 1,
           dpe_guid = guid, dpe_state = state, dpe_received_bytes = received_bytes,
           dpe_total_bytes = total_bytes, dpe_final_path = final_path\<rparr> now (ing_downloads s))\<rparr>)"

text \<open>One round of \<^verbatim>\<open>drain_ready_browser_events\<close>, cut where the callbacks can interleave: take the
  expected event, apply it, reset the overflow latch, commit.\<close>

definition worker_take :: "ingress_state \<Rightarrow> ingress_state" where
  "worker_take s =
     (let expected = saturating_add (ing_committed_browser_event_sequence s) 1;
          next_sequence = (if expected > ing_next_sequence s then expected else ing_next_sequence s);
          s = s\<lparr>ing_next_sequence := next_sequence\<rparr>
      in case Mapping.lookup (ing_pending s) next_sequence of
        None \<Rightarrow> s
      | Some event \<Rightarrow> s\<lparr>ing_pending := Mapping.delete next_sequence (ing_pending s),
                        ing_worker := WorkerTaken event\<rparr>)"

definition worker_apply :: "string \<Rightarrow> browser_session_event \<Rightarrow> ingress_state \<Rightarrow> ingress_state" where
  "worker_apply now event s =
     (let (outcome, s) = apply_browser_session_event now event s
      in s\<lparr>ing_applied := ing_applied s @ [event], ing_worker := WorkerApplied outcome\<rparr>)"

definition worker_unlatch :: "browser_event_apply_outcome \<Rightarrow> ingress_state \<Rightarrow> ingress_state" where
  "worker_unlatch outcome s =
     (let s = s\<lparr>ing_worker := WorkerUnlatched (beo_browser_sequence outcome)\<rparr>
      in case beo_clear_progress_overflow_latch outcome of
        Some (clear_generation, clear_sequence) \<Rightarrow>
          if ing_latched s \<and> ing_latched_generation s = clear_generation \<and>
             clear_sequence > ing_latched_sequence s
          then s\<lparr>ing_latched := False, ing_latched_generation := 0, ing_latched_sequence := 0\<rparr>
          else s
      | None \<Rightarrow> s)"

definition worker_commit :: "u64 \<Rightarrow> ingress_state \<Rightarrow> ingress_state" where
  "worker_commit sequence s =
     (let s = record_browser_event_commit sequence s
      in s\<lparr>ing_next_sequence := saturating_add (ing_next_sequence s) 1, ing_worker := WorkerIdle\<rparr>)"

definition worker_move :: "string \<Rightarrow> ingress_state \<Rightarrow> ingress_state" where
  "worker_move now s =
     (case ing_worker s of
        WorkerIdle \<Rightarrow> worker_take s
      | WorkerTaken event \<Rightarrow> worker_apply now event s
      | WorkerApplied outcome \<Rightarrow> worker_unlatch outcome s
      | WorkerUnlatched sequence \<Rightarrow> worker_commit sequence s)"

text \<open>The drain loop run on its own, for at most \<open>fuel\<close> events.\<close>

primrec drain_ready_browser_events :: "nat \<Rightarrow> string \<Rightarrow> ingress_state \<Rightarrow> ingress_state" where
  "drain_ready_browser_events 0 now s = s"
| "drain_ready_browser_events (Suc fuel) now s =
     (let s = worker_take s
      in case ing_worker s of
        WorkerTaken event \<Rightarrow> drain_ready_browser_events fuel now
          (worker_move now (worker_move now (worker_apply now event s)))
      | _ \<Rightarrow> s)"

text \<open>The worker's task is dropped with the runtime at shutdown: both receivers close, and what
  they and the worker held is gone.\<close>

definition worker_sequences :: "worker_position \<Rightarrow> u64 list" where
  "worker_sequences w =
     (case w of
        WorkerIdle \<Rightarrow> []
      | WorkerTaken event \<Rightarrow> [browser_sequence event]
      | WorkerApplied outcome \<Rightarrow> [beo_browser_sequence outcome]
      | WorkerUnlatched sequence \<Rightarrow> [sequence])"

definition pending_sequences :: "ingress_state \<Rightarrow> u64 list" where
  "pending_sequences s = sorted_list_of_set (Mapping.keys (ing_pending s))"

definition worker_dropped :: "ingress_state \<Rightarrow> ingress_state" where
  "worker_dropped s =
     s\<lparr>ing_open := False,
       ing_lost := ing_lost s @ map browser_sequence (ing_critical s) @
         map browser_sequence (ing_progress s) @ pending_sequences s @ worker_sequences (ing_worker s),
       ing_critical := [], ing_progress := [], ing_pending := Mapping.empty,
       ing_worker := WorkerIdle\<rparr>"

section \<open>Runs\<close>

datatype ingress_op =
    AllocateSequence
  | MeterCritical u64 browser_session_event
  | PublishCritical browser_session_event
  | EnqueueProgress browser_session_event
  | ReceiveCritical
  | ReceiveProgress
  | WorkerMove string
  | WorkerDropped

text \<open>A move that its thread cannot make in the state leaves the state alone.\<close>

fun run_ingress_op :: "ingress_op \<Rightarrow> ingress_state \<Rightarrow> ingress_state" where
  "run_ingress_op AllocateSequence s =
     (let (n, s) = allocate_browser_event_sequence s in s\<lparr>ing_held := ing_held s @ [n]\<rparr>)"
| "run_ingress_op (MeterCritical uptime event) s =
     (if browser_sequence event \<in> set (ing_held s) \<and> \<not> uses_bounded_progress_ingress event
      then meter_critical uptime event s else s)"
| "run_ingress_op (PublishCritical event) s =
     (if event \<in> set (ing_metered s) then publish_critical event s else s)"
| "run_ingress_op (EnqueueProgress event) s =
     (if browser_sequence event \<in> set (ing_held s) \<and> uses_bounded_progress_ingress event
      then enqueue_progress event s else s)"
| "run_ingress_op ReceiveCritical s =
     (if ing_open s \<and> ing_worker s = WorkerIdle then receive_critical s else s)"
| "run_ingress_op ReceiveProgress s =
     (if ing_open s \<and> ing_worker s = WorkerIdle then receive_progress s else s)"
| "run_ingress_op (WorkerMove now) s = (if ing_open s then worker_move now s else s)"
| "run_ingress_op WorkerDropped s = (if ing_open s then worker_dropped s else s)"

abbreviation run_ingress :: "nat \<Rightarrow> ingress_op list \<Rightarrow> ingress_state" where
  "run_ingress capacity ops \<equiv> fold run_ingress_op ops (new_with_progress_capacity capacity)"


section \<open>The committed cursor\<close>

lemma saturating_Suc: "unat a < 2 ^ 64 - 1 \<Longrightarrow> saturating_add a 1 = a + 1" for a :: u64
  by (simp add: saturating_add_def)

lemma upto_Suc:
  fixes c :: u64
  assumes "unat c < 2 ^ 64 - 1"
  shows "{0<..c + 1} = insert (c + 1) {0<..c}" and "c < c + 1"
  using assms by (auto simp: word_less_nat_alt word_le_nat_alt unat_inc_u64 word_unat_eq_iff)

lemma mset_upto_Suc:
  fixes c :: u64
  assumes "unat c < 2 ^ 64 - 1"
  shows "mset_set {0<..c + 1} = add_mset (c + 1) (mset_set {0<..c})"
proof -
  have "c + 1 \<notin> {0<..c}" using upto_Suc(2) [OF assms] by (metis greaterThanAtMost_iff leD)
  then show ?thesis unfolding upto_Suc(1) [OF assms] by simp
qed

lemma less_Suc_u64: "unat c < 2 ^ 64 - 1 \<Longrightarrow> c < x \<Longrightarrow> x \<noteq> c + 1 \<Longrightarrow> c + 1 < x" for c x :: u64
  by (auto simp: word_less_nat_alt unat_inc_u64 word_unat_eq_iff)

lemma mset_removeAll_distinct: "distinct xs \<Longrightarrow> x \<in> set xs \<Longrightarrow> add_mset x (mset (removeAll x xs)) = mset xs"
  by (simp add: distinct_remove1_removeAll [symmetric])

text \<open>Advancing the cursor moves the numbers next in line from the backlog under the cursor, and
  stops exactly at the first gap.\<close>

lemma advance_committed_spec:
  assumes "distinct backlog" "\<forall>x\<in>set backlog. c < x \<and> unat x < 2 ^ 64 - 1" "unat c < 2 ^ 64 - 1"
    "advance_committed c backlog = (c', backlog')"
  shows "mset backlog' + mset_set {0<..c'} = mset backlog + mset_set {0<..c} \<and> c \<le> c' \<and>
    saturating_add c' 1 \<notin> set backlog'"
  using assms
proof (induction c backlog rule: advance_committed.induct)
  case (1 c backlog)
  note s = saturating_Suc [OF "1.prems"(3)]
  show ?case
  proof (cases "c + 1 \<in> set backlog")
    case True
    let ?b = "removeAll (c + 1) backlog"
    have step: "advance_committed (c + 1) ?b = (c', backlog')"
      using "1.prems"(4) True s by (subst (asm) advance_committed.simps) simp
    have "mset backlog' + mset_set {0<..c'} = mset ?b + mset_set {0<..c + 1} \<and> c + 1 \<le> c' \<and>
        saturating_add c' 1 \<notin> set backlog'"
      using "1.IH" True s step "1.prems"
      by (auto simp: less_Suc_u64 distinct_removeAll)
    moreover have "mset ?b + mset_set {0<..c + 1} = mset backlog + mset_set {0<..c}"
      unfolding mset_upto_Suc [OF "1.prems"(3)]
        mset_removeAll_distinct [OF "1.prems"(1) True, symmetric] by simp
    ultimately show ?thesis
      using upto_Suc(2) [OF "1.prems"(3)] by auto
  next
    case False
    with "1.prems"(4) s show ?thesis by (subst (asm) advance_committed.simps) auto
  qed
qed

declare advance_committed.simps [simp del]

section \<open>Where the numbers are\<close>

definition outstanding :: "ingress_state \<Rightarrow> u64 multiset" where
  "outstanding s = mset (ing_held s) + mset (map browser_sequence (ing_metered s)) +
     mset (map browser_sequence (ing_critical s)) + mset (map browser_sequence (ing_progress s)) +
     mset_set (Mapping.keys (ing_pending s)) + mset (worker_sequences (ing_worker s)) +
     mset (ing_lost s)"

text \<open>Every allocated number is committed, waits in the commit backlog, or is at exactly one of the
  places above; \<open>extra\<close> are numbers in transit inside a move.\<close>

definition number_account :: "u64 multiset \<Rightarrow> ingress_state \<Rightarrow> bool" where
  "number_account extra s \<longleftrightarrow>
     extra + outstanding s + mset (ing_committed_browser_event_backlog s) +
       mset_set {0<..ing_committed_browser_event_sequence s} =
       mset_set {0<..ing_next_browser_event_sequence s} \<and>
     saturating_add (ing_committed_browser_event_sequence s) 1
       \<notin> set (ing_committed_browser_event_backlog s) \<and>
     finite (Mapping.keys (ing_pending s)) \<and>
     (\<forall>n e. Mapping.lookup (ing_pending s) n = Some e \<longrightarrow> browser_sequence e = n) \<and>
     unat (ing_next_browser_event_sequence s) < 2 ^ 64 - 1"

lemma mset_partition:
  assumes "A + B + mset_set C = mset_set D" "finite C" "finite D" "x \<in># A"
  shows "x \<notin># B" "x \<notin> C" "x \<in> D" "count A x = 1"
proof -
  have eq: "count A x + count B x + count (mset_set C) x = count (mset_set D) x"
    using assms(1) by (metis count_union)
  have pos: "0 < count A x" using assms(4) by simp
  have le: "count (mset_set D) x \<le> 1" by (cases "x \<in> D") (simp_all add: assms(3))
  have d: "count (mset_set D) x = 1" and "count B x = 0" and c: "count (mset_set C) x = 0"
    and "count A x = 1"
    using eq pos le by linarith+
  then show "x \<notin># B" "count A x = 1" by (simp_all add: not_in_iff)
  show "x \<in> D" using d by (cases "x \<in> D") simp_all
  show "x \<notin> C" using c assms(2) by auto
qed

lemma number_account_facts:
  assumes "number_account extra s" "n \<in># extra + outstanding s"
  shows "n \<notin> set (ing_committed_browser_event_backlog s)"
    "ing_committed_browser_event_sequence s < n" "n \<le> ing_next_browser_event_sequence s"
    "count (extra + outstanding s) n = 1" "0 < n"
proof -
  have "extra + outstanding s + mset (ing_committed_browser_event_backlog s) +
       mset_set {0<..ing_committed_browser_event_sequence s} =
       mset_set {0<..ing_next_browser_event_sequence s}"
    using assms(1) by (simp add: number_account_def)
  note p = mset_partition [OF this _ _ assms(2)]
  show "n \<notin> set (ing_committed_browser_event_backlog s)" "n \<le> ing_next_browser_event_sequence s"
    "count (extra + outstanding s) n = 1" "0 < n" "ing_committed_browser_event_sequence s < n"
    using p by auto
qed

lemma number_account_backlog:
  assumes "number_account extra s"
  shows "distinct (ing_committed_browser_event_backlog s)"
    "n \<in> set (ing_committed_browser_event_backlog s) \<Longrightarrow>
      ing_committed_browser_event_sequence s < n \<and> n \<le> ing_next_browser_event_sequence s"
    "ing_committed_browser_event_sequence s \<le> ing_next_browser_event_sequence s"
proof -
  let ?b = "ing_committed_browser_event_backlog s"
  have eq: "mset ?b + (extra + outstanding s) +
       mset_set {0<..ing_committed_browser_event_sequence s} =
       mset_set {0<..ing_next_browser_event_sequence s}"
    using assms by (simp add: number_account_def ac_simps)
  note p = mset_partition [OF eq]
  show "distinct ?b"
    unfolding distinct_count_atmost_1 using p(4) by (auto simp: not_in_iff)
  show "n \<in> set ?b \<Longrightarrow>
      ing_committed_browser_event_sequence s < n \<and> n \<le> ing_next_browser_event_sequence s"
    using p [of n] by (auto simp: word_neq_0_conv)
  have "mset_set {0<..ing_committed_browser_event_sequence s} \<subseteq>#
      mset_set {0<..ing_next_browser_event_sequence s}"
    unfolding eq [symmetric] by simp
  then have "{0<..ing_committed_browser_event_sequence s} \<subseteq> {0<..ing_next_browser_event_sequence s}"
    by (metis finite_greaterThanAtMost finite_set_mset_mset_set set_mset_mono finite)
  then show "ing_committed_browser_event_sequence s \<le> ing_next_browser_event_sequence s"
    by (cases "ing_committed_browser_event_sequence s = 0") (auto simp: word_neq_0_conv subset_iff)
qed

lemma commit_frame [simp]:
  "ing_next_browser_event_sequence (record_browser_event_commit n s) =
     ing_next_browser_event_sequence s"
  "ing_held (record_browser_event_commit n s) = ing_held s"
  "ing_metered (record_browser_event_commit n s) = ing_metered s"
  "ing_critical (record_browser_event_commit n s) = ing_critical s"
  "ing_progress (record_browser_event_commit n s) = ing_progress s"
  "ing_capacity (record_browser_event_commit n s) = ing_capacity s"
  "ing_open (record_browser_event_commit n s) = ing_open s"
  "ing_pending (record_browser_event_commit n s) = ing_pending s"
  "ing_worker (record_browser_event_commit n s) = ing_worker s"
  "ing_next_sequence (record_browser_event_commit n s) = ing_next_sequence s"
  "ing_lost (record_browser_event_commit n s) = ing_lost s"
  "ing_applied (record_browser_event_commit n s) = ing_applied s"
  "ing_log (record_browser_event_commit n s) = ing_log s"
  "ing_latched (record_browser_event_commit n s) = ing_latched s"
  "ing_latched_generation (record_browser_event_commit n s) = ing_latched_generation s"
  "ing_latched_sequence (record_browser_event_commit n s) = ing_latched_sequence s"
  "ing_reopen_generation (record_browser_event_commit n s) = ing_reopen_generation s"
  "ing_reopen_sequence (record_browser_event_commit n s) = ing_reopen_sequence s"
  "ing_telemetry (record_browser_event_commit n s) = ing_telemetry s"
  "outstanding (record_browser_event_commit n s) = outstanding s"
  by (simp_all add: record_browser_event_commit_def outstanding_def Let_def split: prod.splits)

lemma commit_account:
  assumes "number_account (add_mset n extra) s"
  shows "number_account extra (record_browser_event_commit n s)"
    "ing_committed_browser_event_sequence s
       \<le> ing_committed_browser_event_sequence (record_browser_event_commit n s)"
    "n = ing_committed_browser_event_sequence s + 1 \<Longrightarrow>
       n \<le> ing_committed_browser_event_sequence (record_browser_event_commit n s)"
proof -
  let ?c = "ing_committed_browser_event_sequence s" and ?b = "ing_committed_browser_event_backlog s"
  let ?next = "ing_next_browser_event_sequence s" and ?s = "record_browser_event_commit n s"
  have n: "n \<notin> set ?b" "?c < n" "n \<le> ?next"
    using number_account_facts [OF assms] by simp_all
  have room: "unat ?next < 2 ^ 64 - 1" using assms by (simp add: number_account_def)
  note b = number_account_backlog [OF assms]
  obtain c' b' where adv: "advance_committed ?c (List.insert n ?b) = (c', b')" by fastforce
  have "mset b' + mset_set {0<..c'} = mset (List.insert n ?b) + mset_set {0<..?c} \<and> ?c \<le> c' \<and>
      saturating_add c' 1 \<notin> set b'"
  proof (rule advance_committed_spec [OF _ _ _ adv])
    show "\<forall>x\<in>set (List.insert n ?b). ?c < x \<and> unat x < 2 ^ 64 - 1"
      using n b(2) room by (auto simp: word_le_nat_alt dest!: b(2))
    show "unat ?c < 2 ^ 64 - 1" using b(3) room by (simp add: word_le_nat_alt)
  qed (use b(1) in simp)
  then have spec: "mset b' + mset_set {0<..c'} = add_mset n (mset ?b + mset_set {0<..?c})"
    "?c \<le> c'" "saturating_add c' 1 \<notin> set b'"
    using n(1) by simp_all
  have after: "ing_committed_browser_event_sequence ?s = c'"
    "ing_committed_browser_event_backlog ?s = b'"
    using n(2) adv spec(2) by (auto simp: record_browser_event_commit_def Let_def)
  have "extra + outstanding s + mset b' + mset_set {0<..c'} =
      extra + outstanding s + (mset b' + mset_set {0<..c'})" by (simp add: ac_simps)
  also have "\<dots> = add_mset n extra + outstanding s + mset ?b + mset_set {0<..?c}"
    unfolding spec(1) by simp
  also have "\<dots> = mset_set {0<..?next}" using assms unfolding number_account_def by blast
  finally have eq: "extra + outstanding s + mset b' + mset_set {0<..c'} = mset_set {0<..?next}" .
  show "number_account extra ?s"
    unfolding number_account_def after commit_frame
    using assms spec(3) eq unfolding number_account_def by blast
  show "?c \<le> ing_committed_browser_event_sequence ?s" using after spec(2) by simp
  show "n \<le> ing_committed_browser_event_sequence ?s" if "n = ?c + 1"
  proof (rule ccontr)
    assume "\<not> n \<le> ing_committed_browser_event_sequence ?s"
    then have lt: "c' < n" using after by simp
    have "n \<in># mset b' + mset_set {0<..c'}" unfolding spec(1) by simp
    with lt have "n \<in> set b'" by (auto dest: leD)
    moreover have "c' = ?c"
      using lt that spec(2) b(3) room
      by (simp add: word_less_nat_alt word_le_nat_alt unat_inc_u64 word_unat_eq_iff)
    then have "saturating_add c' 1 = n"
      using that b(3) room by (simp add: saturating_Suc word_le_nat_alt)
    ultimately show False using spec(3) by simp
  qed
qed

section \<open>Every move keeps the account\<close>

lemma apply_event_frame:
  assumes "apply_browser_session_event now e s = (outcome, t)"
  shows "beo_browser_sequence outcome = browser_sequence e"
    "ing_next_browser_event_sequence t = ing_next_browser_event_sequence s"
    "ing_committed_browser_event_sequence t = ing_committed_browser_event_sequence s"
    "ing_committed_browser_event_backlog t = ing_committed_browser_event_backlog s"
    "ing_held t = ing_held s" "ing_metered t = ing_metered s" "ing_critical t = ing_critical s"
    "ing_progress t = ing_progress s" "ing_capacity t = ing_capacity s" "ing_open t = ing_open s"
    "ing_pending t = ing_pending s" "ing_worker t = ing_worker s"
    "ing_next_sequence t = ing_next_sequence s" "ing_lost t = ing_lost s"
    "ing_applied t = ing_applied s" "ing_log t = ing_log s" "ing_latched t = ing_latched s"
    "ing_latched_generation t = ing_latched_generation s"
    "ing_latched_sequence t = ing_latched_sequence s"
    "ing_reopen_generation t = ing_reopen_generation s"
    "ing_reopen_sequence t = ing_reopen_sequence s" "ing_telemetry t = ing_telemetry s"
  using assms by (cases e; auto simp: Let_def split: prod.splits)+

lemma account_move:
  assumes "number_account x s"
    and "ing_next_browser_event_sequence t = ing_next_browser_event_sequence s"
    "ing_committed_browser_event_sequence t = ing_committed_browser_event_sequence s"
    "ing_committed_browser_event_backlog t = ing_committed_browser_event_backlog s"
    "ing_pending t = ing_pending s"
    and "y + outstanding t = x + outstanding s"
  shows "number_account y t"
  using assms by (simp add: number_account_def)

lemma insert_pending_frame [simp]:
  "ing_committed_browser_event_sequence (insert_pending_browser_event e s) =
     ing_committed_browser_event_sequence s"
  "ing_open (insert_pending_browser_event e s) = ing_open s"
  "ing_worker (insert_pending_browser_event e s) = ing_worker s"
  "ing_next_sequence (insert_pending_browser_event e s) = ing_next_sequence s"
  "ing_applied (insert_pending_browser_event e s) = ing_applied s"
  "ing_progress (insert_pending_browser_event e s) = ing_progress s"
  "ing_critical (insert_pending_browser_event e s) = ing_critical s"
  "ing_metered (insert_pending_browser_event e s) = ing_metered s"
  "ing_capacity (insert_pending_browser_event e s) = ing_capacity s"
  "ing_telemetry (insert_pending_browser_event e s) = ing_telemetry s"
  "ing_log (insert_pending_browser_event e s) = ing_log s"
  "ing_latched (insert_pending_browser_event e s) = ing_latched s"
  "ing_latched_generation (insert_pending_browser_event e s) = ing_latched_generation s"
  "ing_latched_sequence (insert_pending_browser_event e s) = ing_latched_sequence s"
  "ing_reopen_generation (insert_pending_browser_event e s) = ing_reopen_generation s"
  "ing_reopen_sequence (insert_pending_browser_event e s) = ing_reopen_sequence s"
  by (simp_all add: insert_pending_browser_event_def)

text \<open>What the worker receives is never already committed, and never replaces another event.\<close>

lemma insert_pending_account:
  assumes "number_account (add_mset (browser_sequence e) x) s"
  shows "number_account x (insert_pending_browser_event e s)"
proof -
  let ?n = "browser_sequence e"
  note f = number_account_facts [OF assms, of ?n]
  have "count (x + outstanding s) ?n = 0" using f(4) by simp
  then have fresh: "?n \<notin># outstanding s" by (simp add: not_in_iff)
  have fin: "finite (Mapping.keys (ing_pending s))" using assms by (simp add: number_account_def)
  with fresh have key: "?n \<notin> Mapping.keys (ing_pending s)" by (simp add: outstanding_def)
  have eq: "insert_pending_browser_event e s =
      s\<lparr>ing_pending := Mapping.update ?n e (ing_pending s)\<rparr>"
    using f(2) by (simp add: insert_pending_browser_event_def)
  show ?thesis
    using assms key fin unfolding eq number_account_def
    by (simp add: outstanding_def lookup_update')
qed

lemma receive_account:
  assumes "number_account {#} s"
  shows "number_account {#} (receive_critical s)" "number_account {#} (receive_progress s)"
  unfolding receive_critical_def receive_progress_def
  by (cases "ing_critical s"; cases "ing_progress s";
      auto simp: assms outstanding_def intro!: insert_pending_account account_move [OF assms])+

lemma remove1_held:
  assumes "number_account x s" "n \<in> set (ing_held s)"
  shows "number_account (add_mset n x) (s\<lparr>ing_held := remove1 n (ing_held s)\<rparr>)"
  by (rule account_move [OF assms(1)]) (use assms(2) in \<open>simp_all add: outstanding_def\<close>)

lemma meter_account:
  assumes "number_account {#} s" "browser_sequence e \<in> set (ing_held s)"
  shows "number_account {#} (meter_critical uptime e s)"
  by (rule account_move [OF assms(1)])
    (use assms(2) in \<open>simp_all add: outstanding_def meter_critical_def\<close>)

lemma progress_account:
  assumes "number_account {#} s" "browser_sequence e \<in> set (ing_held s)"
  shows "number_account {#} (enqueue_progress e s)"
proof -
  note h = remove1_held [OF assms]
  show ?thesis
    by (auto simp: enqueue_progress_def Let_def progress_try_send_def critical_send_def
        record_browser_event_ingress_overflow_def outstanding_def
        intro!: commit_account(1) account_move [OF h] split: prod.splits)
qed

lemma reopen_frame [simp]:
  "outstanding (store_reopen e s) = outstanding s"
  "outstanding (withdraw_reopen e s) = outstanding s"
  "ing_open (store_reopen e s) = ing_open s"
  by (auto simp: store_reopen_def withdraw_reopen_def outstanding_def split: option.splits)

lemma reopen_account [simp]:
  "number_account x (store_reopen e s) = number_account x s"
  "number_account x (withdraw_reopen e s) = number_account x s"
  by (auto simp: store_reopen_def withdraw_reopen_def outstanding_def number_account_def
      split: option.splits)

lemma publish_account:
  assumes "number_account {#} s" "e \<in> set (ing_metered s)"
  shows "number_account {#} (publish_critical e s)"
proof -
  let ?n = "browser_sequence e" and ?s = "s\<lparr>ing_metered := remove1 e (ing_metered s)\<rparr>"
  have "image_mset browser_sequence (mset (ing_metered s)) =
      add_mset ?n (image_mset browser_sequence (mset (remove1 e (ing_metered s))))"
    using assms(2) by (metis image_mset_add_mset insert_DiffM mset_remove1 set_mset_mset)
  then have h: "number_account {#?n#} (store_reopen e ?s)"
    by (intro reopen_account [THEN iffD2] account_move [OF assms(1)]) (simp_all add: outstanding_def)
  show ?thesis
  proof (cases "ing_open s")
    case True
    have "number_account {#} ((store_reopen e ?s)\<lparr>ing_critical := ing_critical (store_reopen e ?s) @ [e]\<rparr>)"
      by (rule account_move [OF h]) (simp_all add: outstanding_def)
    with True show ?thesis by (simp add: publish_critical_def critical_send_def Let_def)
  next
    case False
    have "number_account {#?n#} ((store_reopen e ?s)\<lparr>ing_telemetry := T\<rparr>)" for T
      by (rule account_move [OF h]) (simp_all add: outstanding_def)
    then show ?thesis using False
      by (auto simp: publish_critical_def critical_send_def Let_def intro!: commit_account(1))
  qed
qed

definition take_sequence :: "ingress_state \<Rightarrow> u64" where
  "take_sequence s =
     (if saturating_add (ing_committed_browser_event_sequence s) 1 > ing_next_sequence s
      then saturating_add (ing_committed_browser_event_sequence s) 1 else ing_next_sequence s)"

lemma worker_take_cases:
  "worker_take s =
     (case Mapping.lookup (ing_pending s) (take_sequence s) of
        None \<Rightarrow> s\<lparr>ing_next_sequence := take_sequence s\<rparr>
      | Some event \<Rightarrow> s\<lparr>ing_next_sequence := take_sequence s,
          ing_pending := Mapping.delete (take_sequence s) (ing_pending s),
          ing_worker := WorkerTaken event\<rparr>)"
  by (simp add: worker_take_def take_sequence_def Let_def split: option.split)

lemma take_account:
  assumes "number_account {#} s" "ing_worker s = WorkerIdle"
  shows "number_account {#} (worker_take s)"
proof (cases "Mapping.lookup (ing_pending s) (take_sequence s)")
  case None
  have "number_account {#} (s\<lparr>ing_next_sequence := take_sequence s\<rparr>)"
    by (rule account_move [OF assms(1)]) (simp_all add: outstanding_def)
  with None show ?thesis by (simp add: worker_take_cases)
next
  case (Some e)
  let ?n = "take_sequence s"
  have fin: "finite (Mapping.keys (ing_pending s))" and key: "browser_sequence e = ?n"
    using assms(1) Some by (simp_all add: number_account_def)
  have "?n \<in> Mapping.keys (ing_pending s)" using Some by (simp add: keys_lookup)
  then have "mset_set (Mapping.keys (ing_pending s)) =
      add_mset ?n (mset_set (Mapping.keys (ing_pending s) - {?n}))"
    using fin by (simp add: mset_set.remove)
  then have "outstanding (worker_take s) = outstanding s"
    by (simp add: worker_take_cases Some outstanding_def worker_sequences_def assms(2) key)
  then show ?thesis
    using assms(1) fin
    by (simp add: worker_take_cases Some number_account_def lookup_delete_if split: if_splits)
qed

lemma apply_account:
  assumes "number_account {#} s" "ing_worker s = WorkerTaken e"
  shows "number_account {#} (worker_apply now e s)"
proof -
  obtain outcome t where t: "apply_browser_session_event now e s = (outcome, t)" by fastforce
  show ?thesis
    by (rule account_move [OF assms(1)])
      (simp_all add: worker_apply_def t apply_event_frame [OF t] outstanding_def assms(2)
        worker_sequences_def)
qed

lemma unlatch_account:
  assumes "number_account {#} s" "ing_worker s = WorkerApplied outcome"
  shows "number_account {#} (worker_unlatch outcome s)"
  by (rule account_move [OF assms(1)])
    (auto simp: worker_unlatch_def Let_def outstanding_def assms(2) worker_sequences_def
      split: option.splits)

lemma worker_commit_account:
  assumes "number_account {#} s" "ing_worker s = WorkerUnlatched n"
  shows "number_account {#} (worker_commit n s)"
proof -
  let ?t = "s\<lparr>ing_worker := WorkerIdle, ing_next_sequence := saturating_add (ing_next_sequence s) 1\<rparr>"
  have "number_account {#n#} ?t"
    by (rule account_move [OF assms(1)])
      (simp_all add: outstanding_def assms(2) worker_sequences_def)
  moreover have "worker_commit n s = record_browser_event_commit n ?t"
    by (simp add: worker_commit_def record_browser_event_commit_def Let_def split: prod.splits)
  ultimately show ?thesis by (simp add: commit_account(1))
qed

lemma dropped_account:
  assumes "number_account {#} s"
  shows "number_account {#} (worker_dropped s)"
proof -
  have "finite (Mapping.keys (ing_pending s))" using assms by (simp add: number_account_def)
  then have "mset (pending_sequences s) = mset_set (Mapping.keys (ing_pending s))"
    unfolding pending_sequences_def
    by (metis distinct_sorted_list_of_set mset_set_set set_sorted_list_of_set)
  then have "outstanding (worker_dropped s) = outstanding s"
    by (simp add: outstanding_def worker_dropped_def worker_sequences_def)
  then show ?thesis
    using assms by (simp add: number_account_def worker_dropped_def)
qed

lemma allocate_account:
  assumes "number_account {#} s" "unat (ing_next_browser_event_sequence s) < 2 ^ 64 - 2"
  shows "number_account {#} (run_ingress_op AllocateSequence s)"
proof -
  let ?n = "ing_next_browser_event_sequence s"
  have "unat ?n < 2 ^ 64 - 1" "unat (?n + 1) < 2 ^ 64 - 1"
    using assms(2) unat_inc_u64 [of ?n] by simp_all
  then show ?thesis
    using assms(1) mset_upto_Suc [of ?n]
    by (simp add: number_account_def allocate_browser_event_sequence_def outstanding_def
        saturating_Suc)
qed

lemma worker_move_account:
  "number_account {#} s \<Longrightarrow> number_account {#} (worker_move now s)"
  by (cases "ing_worker s")
    (simp_all add: worker_move_def take_account apply_account unlatch_account worker_commit_account)

lemma ingress_op_account:
  "number_account {#} s \<Longrightarrow> unat (ing_next_browser_event_sequence s) < 2 ^ 64 - 2 \<Longrightarrow>
   number_account {#} (run_ingress_op op s)"
  by (cases op) (simp_all add: allocate_account meter_account publish_account progress_account
      receive_account worker_move_account dropped_account
      del: run_ingress_op.simps(1) One_nat_def)

section \<open>Order\<close>

text \<open>While the worker lives it is never ahead of the committed cursor by more than one: the event
  in its hand is always the first uncommitted one.\<close>

definition applied_upto :: "u64 \<Rightarrow> ingress_state \<Rightarrow> bool" where
  "applied_upto n s \<longleftrightarrow> (\<forall>e\<in>set (ing_applied s). browser_sequence e \<le> n)"

definition worker_order :: "ingress_state \<Rightarrow> bool" where
  "worker_order s \<longleftrightarrow>
     sorted_wrt (<) (map browser_sequence (ing_applied s)) \<and>
     (ing_open s \<longrightarrow>
       (let c = ing_committed_browser_event_sequence s in
        case ing_worker s of
          WorkerIdle \<Rightarrow> ing_next_sequence s \<le> c + 1 \<and> applied_upto c s
        | WorkerTaken e \<Rightarrow> browser_sequence e = c + 1 \<and> ing_next_sequence s = c + 1 \<and> applied_upto c s
        | WorkerApplied outcome \<Rightarrow>
            beo_browser_sequence outcome = c + 1 \<and> ing_next_sequence s = c + 1 \<and> applied_upto (c + 1) s
        | WorkerUnlatched n \<Rightarrow> n = c + 1 \<and> ing_next_sequence s = c + 1 \<and> applied_upto (c + 1) s))"

lemma account_room:
  assumes "number_account x s"
  shows "unat (ing_committed_browser_event_sequence s) < 2 ^ 64 - 1"
  using assms number_account_backlog(3) [OF assms]
  by (simp add: number_account_def word_le_nat_alt)

lemma Suc_le_mono: "unat b < 2 ^ 64 - 1 \<Longrightarrow> a \<le> b \<Longrightarrow> a + 1 \<le> b + 1" for a b :: u64
  by (simp add: word_le_nat_alt unat_inc_u64)

text \<open>A callback's commit cannot pass the event in the worker's hand.\<close>

lemma commit_order:
  assumes acc: "number_account {#n#} s" and order: "worker_order s"
  shows "worker_order (record_browser_event_commit n s)"
proof -
  let ?t = "record_browser_event_commit n s"
  let ?c = "ing_committed_browser_event_sequence s" and ?d = "ing_committed_browser_event_sequence ?t"
  have acc': "number_account {#} ?t" and le: "?c \<le> ?d" using commit_account [OF acc] by simp_all
  note room = account_room [OF acc]
  have hand: "?d = ?c" if "worker_sequences (ing_worker s) = [?c + 1]"
  proof -
    have "?c + 1 \<in># {#} + outstanding ?t" using that by (simp add: outstanding_def)
    then have "?d < ?c + 1" by (rule number_account_facts(2) [OF acc'])
    with le room show ?thesis
      by (simp add: word_less_nat_alt word_le_nat_alt unat_inc_u64 word_unat_eq_iff)
  qed
  have idle: "ing_next_sequence s \<le> ?d + 1 \<and> applied_upto ?d s"
    if "ing_next_sequence s \<le> ?c + 1" "applied_upto ?c s"
    using that le Suc_le_mono [OF account_room [OF acc'] le] by (auto simp: applied_upto_def)
  have keep: "applied_upto m ?t = applied_upto m s" for m by (simp add: applied_upto_def)
  show ?thesis
    using order hand idle
    by (cases "ing_worker s") (auto simp: worker_order_def Let_def worker_sequences_def keep)
qed

lemma worker_order_cong:
  assumes "ing_committed_browser_event_sequence t = ing_committed_browser_event_sequence s"
    "ing_open t = ing_open s" "ing_worker t = ing_worker s"
    "ing_next_sequence t = ing_next_sequence s" "ing_applied t = ing_applied s"
  shows "worker_order t = worker_order s"
  using assms by (cases "ing_worker s") (simp_all add: worker_order_def applied_upto_def Let_def)

lemmas order_same = worker_order_cong [THEN iffD2]

lemma publish_order:
  assumes acc: "number_account {#} s" and order: "worker_order s" and e: "e \<in> set (ing_metered s)"
  shows "worker_order (publish_critical e s)"
proof -
  have same: "worker_order (store_reopen e s) = worker_order s"
    "worker_order (withdraw_reopen e s) = worker_order s" for s
    by (rule worker_order_cong;
        simp add: store_reopen_def withdraw_reopen_def split: option.split)+
  let ?s = "store_reopen e (s\<lparr>ing_metered := remove1 e (ing_metered s)\<rparr>)"
  have base: "worker_order ?s" unfolding same by (rule order_same [OF _ _ _ _ _ order]) simp_all
  show ?thesis
  proof (cases "ing_open s")
    case True
    then show ?thesis
      by (simp add: publish_critical_def critical_send_def Let_def) (rule order_same [OF _ _ _ _ _ base], simp_all)
  next
    case False
    let ?t = "withdraw_reopen e (?s\<lparr>ing_telemetry := record_critical_browser_event_dequeued (ing_telemetry ?s)\<rparr>)"
    have "image_mset browser_sequence (mset (ing_metered s)) =
        add_mset (browser_sequence e) (image_mset browser_sequence (mset (remove1 e (ing_metered s))))"
      using e by (metis image_mset_add_mset insert_DiffM mset_remove1 set_mset_mset)
    then have h: "number_account {#browser_sequence e#} ?s"
      by (intro reopen_account [THEN iffD2] account_move [OF acc]) (simp_all add: outstanding_def)
    have "number_account {#browser_sequence e#} ?t"
      by (intro reopen_account [THEN iffD2] account_move [OF h]) (simp_all add: outstanding_def)
    moreover have "worker_order ?t" unfolding same by (rule order_same [OF _ _ _ _ _ base]) simp_all
    ultimately have "worker_order (record_browser_event_commit (browser_sequence e) ?t)"
      by (rule commit_order)
    then show ?thesis using False by (simp add: publish_critical_def critical_send_def Let_def)
  qed
qed

lemma progress_order:
  assumes acc: "number_account {#} s" and order: "worker_order s"
    and n: "browser_sequence e \<in> set (ing_held s)"
  shows "worker_order (enqueue_progress e s)"
proof -
  let ?n = "browser_sequence e"
  note h = remove1_held [OF acc n]
  have commit: "worker_order (record_browser_event_commit ?n t)"
    if "number_account {#?n#} t" "worker_order t" for t
    using that by (rule commit_order)
  show ?thesis
    by (auto simp: enqueue_progress_def Let_def progress_try_send_def critical_send_def
        record_browser_event_ingress_overflow_def outstanding_def
        intro!: commit account_move [OF h] order_same [OF _ _ _ _ _ order] split: prod.splits)
qed

lemma take_sequence_next:
  assumes "number_account x s" "worker_order s" "ing_open s" "ing_worker s = WorkerIdle"
  shows "take_sequence s = ing_committed_browser_event_sequence s + 1"
  using assms by (auto simp: take_sequence_def saturating_Suc [OF account_room [OF assms(1)]]
      worker_order_def Let_def)

lemma take_order:
  assumes acc: "number_account {#} s" and order: "worker_order s" and "open": "ing_open s"
    and idle: "ing_worker s = WorkerIdle"
  shows "worker_order (worker_take s)"
proof -
  note n = take_sequence_next [OF assms]
  have "browser_sequence e = take_sequence s"
    if "Mapping.lookup (ing_pending s) (take_sequence s) = Some e" for e
    using acc that by (simp add: number_account_def)
  then show ?thesis
    using order "open" idle
    by (auto simp: worker_take_cases n worker_order_def applied_upto_def Let_def split: option.splits)
qed

lemma apply_order:
  assumes acc: "number_account {#} s" and order: "worker_order s" and "open": "ing_open s"
    and taken: "ing_worker s = WorkerTaken e"
  shows "worker_order (worker_apply now e s)"
proof -
  obtain outcome t where t: "apply_browser_session_event now e s = (outcome, t)" by fastforce
  let ?c = "ing_committed_browser_event_sequence s"
  have lt: "?c < ?c + 1" using upto_Suc(2) [OF account_room [OF acc]] .
  have h: "sorted_wrt (<) (map browser_sequence (ing_applied s))" "browser_sequence e = ?c + 1"
    "ing_next_sequence s = ?c + 1" "\<And>a. a \<in> set (ing_applied s) \<Longrightarrow> browser_sequence a \<le> ?c"
    using order "open" taken by (simp_all add: worker_order_def applied_upto_def Let_def)
  then have "browser_sequence a < ?c + 1" if "a \<in> set (ing_applied s)" for a
    using lt that by (meson le_less_trans)
  with h show ?thesis
    by (simp add: worker_order_def worker_apply_def t apply_event_frame [OF t] sorted_wrt_append
        applied_upto_def less_imp_le Let_def)
qed

lemma unlatch_order:
  assumes "worker_order s" "ing_worker s = WorkerApplied outcome"
  shows "worker_order (worker_unlatch outcome s)"
  using assms by (auto simp: worker_order_def worker_unlatch_def applied_upto_def Let_def
      split: option.splits)

lemma worker_commit_order:
  assumes acc: "number_account {#} s" and order: "worker_order s" and "open": "ing_open s"
    and hand: "ing_worker s = WorkerUnlatched n"
  shows "worker_order (worker_commit n s)"
proof -
  let ?c = "ing_committed_browser_event_sequence s"
  let ?t = "s\<lparr>ing_worker := WorkerIdle\<rparr>"
  let ?d = "ing_committed_browser_event_sequence (record_browser_event_commit n ?t)"
  have h: "n = ?c + 1" "ing_next_sequence s = ?c + 1" "applied_upto (?c + 1) s"
    "sorted_wrt (<) (map browser_sequence (ing_applied s))"
    using order "open" hand by (simp_all add: worker_order_def Let_def)
  have "number_account {#n#} ?t"
    by (rule account_move [OF acc]) (simp_all add: outstanding_def hand worker_sequences_def)
  note c = commit_account [OF this]
  have le: "?c + 1 \<le> ?d" and room: "unat ?d < 2 ^ 64 - 1"
    using c(3) h(1) account_room [OF c(1)] by simp_all
  then have "unat (?c + 1) < 2 ^ 64 - 1" by (simp add: word_le_nat_alt)
  then have nxt: "saturating_add (?c + 1) 1 = ?c + 1 + 1" by (rule saturating_Suc)
  have "?c + 1 + 1 \<le> ?d + 1" by (rule Suc_le_mono [OF room le])
  moreover have "browser_sequence a \<le> ?d" if "a \<in> set (ing_applied s)" for a
    using h(3) le that by (auto simp: applied_upto_def)
  moreover have "worker_commit n s = (record_browser_event_commit n ?t)
      \<lparr>ing_next_sequence := saturating_add (ing_next_sequence s) 1\<rparr>"
    by (simp add: worker_commit_def record_browser_event_commit_def Let_def split: prod.splits)
  ultimately show ?thesis
    using h nxt by (simp add: worker_order_def applied_upto_def Let_def)
qed

lemma worker_move_order:
  "number_account {#} s \<Longrightarrow> worker_order s \<Longrightarrow> ing_open s \<Longrightarrow> worker_order (worker_move now s)"
  by (cases "ing_worker s")
    (simp_all add: worker_move_def take_order apply_order unlatch_order worker_commit_order)

lemma receive_order:
  "worker_order s \<Longrightarrow> worker_order (receive_critical s)"
  "worker_order s \<Longrightarrow> worker_order (receive_progress s)"
  by (auto simp: receive_critical_def receive_progress_def split: list.splits
      elim!: order_same [rotated 5])

lemma ingress_op_order:
  assumes "number_account {#} s" "worker_order s"
  shows "worker_order (run_ingress_op op s)"
proof (cases op)
  case (MeterCritical uptime e)
  have "worker_order (meter_critical uptime e s)"
    by (rule order_same [OF _ _ _ _ _ assms(2)]) (simp_all add: meter_critical_def)
  with assms MeterCritical show ?thesis by simp
next
  case AllocateSequence
  have "worker_order (run_ingress_op AllocateSequence s)"
    by (rule order_same [OF _ _ _ _ _ assms(2)]) (simp_all add: allocate_browser_event_sequence_def)
  with AllocateSequence show ?thesis by simp
next
  case WorkerDropped
  have "worker_order (worker_dropped s)"
    using assms(2) by (simp add: worker_order_def worker_dropped_def)
  with assms WorkerDropped show ?thesis by simp
qed (use assms in \<open>simp_all add: publish_order progress_order receive_order worker_move_order\<close>)

section \<open>Bounds\<close>

text \<open>What a run of \<open>k\<close> moves can have accumulated: numbers, events on the way, and the telemetry
  of the critical channel, which counts only events that went through \<open>meter_critical\<close>.\<close>

fun is_marker_note :: "ingress_note \<Rightarrow> bool" where
  "is_marker_note (NoteMarked g n) = True"
| "is_marker_note note = False"

definition marker_count :: "ingress_state \<Rightarrow> nat" where
  "marker_count s = length (filter is_marker_note (ing_log s))"

definition critical_backlog :: "ingress_state \<Rightarrow> nat" where
  "critical_backlog s = length (ing_metered s) + length (ing_critical s)"

definition pending_telemetry :: "ingress_state \<Rightarrow> nat" where
  "pending_telemetry s = unat (bet_critical_pending_count (ing_telemetry s))"

definition ingress_bounds :: "nat \<Rightarrow> ingress_state \<Rightarrow> bool" where
  "ingress_bounds k s \<longleftrightarrow>
     unat (ing_next_browser_event_sequence s) \<le> k \<and> critical_backlog s \<le> k \<and>
     length (ing_progress s) \<le> ing_capacity s \<and>
     (ing_open s \<longrightarrow> pending_telemetry s \<le> critical_backlog s \<and>
       critical_backlog s \<le> pending_telemetry s + marker_count s)"

lemma dequeued_count [simp]:
  "unat (bet_critical_pending_count (record_critical_browser_event_dequeued t)) =
     unat (bet_critical_pending_count t) - 1"
  by (simp add: record_critical_browser_event_dequeued_def atomic_saturating_decrement_u32_def Let_def
      unat_sub_if_size word_le_nat_alt unat_eq_zero Suc_le_eq)

lemma enqueued_count:
  "unat (bet_critical_pending_count t) < 2 ^ 32 - 1 \<Longrightarrow>
   unat (bet_critical_pending_count (record_critical_browser_event_enqueued uptime t)) =
     Suc (unat (bet_critical_pending_count t))"
  by (simp add: record_critical_browser_event_enqueued_def Let_def unat_word_ariths)

lemma bounds_mono: "ingress_bounds k s \<Longrightarrow> ingress_bounds (Suc k) s"
  by (auto simp: ingress_bounds_def)

lemmas ingress_bounds_defs = ingress_bounds_def critical_backlog_def pending_telemetry_def
  marker_count_def

lemma publish_bounds:
  assumes "ingress_bounds k s" "e \<in> set (ing_metered s)"
  shows "ingress_bounds (Suc k) (publish_critical e s)"
proof -
  obtain m where "length (ing_metered s) = Suc m" "length (remove1 e (ing_metered s)) = m"
    using assms(2) length_remove1 [of e "ing_metered s"] that [of "length (ing_metered s) - 1"]
    by (cases "ing_metered s") simp_all
  with assms show ?thesis
    by (auto simp: ingress_bounds_defs publish_critical_def critical_send_def store_reopen_def
        withdraw_reopen_def Let_def split: option.splits)
qed

lemma progress_bounds:
  "ingress_bounds k s \<Longrightarrow> ingress_bounds (Suc k) (enqueue_progress e s)"
  by (auto simp: ingress_bounds_defs enqueue_progress_def progress_try_send_def critical_send_def
      record_browser_event_ingress_overflow_def Let_def)

lemma receive_bounds:
  "ingress_bounds k s \<Longrightarrow> ingress_bounds (Suc k) (receive_critical s)"
  "ingress_bounds k s \<Longrightarrow> ingress_bounds (Suc k) (receive_progress s)"
  by (auto simp: ingress_bounds_defs receive_critical_def receive_progress_def
      insert_pending_browser_event_def split: list.splits)

lemma worker_move_bounds: "ingress_bounds k s \<Longrightarrow> ingress_bounds (Suc k) (worker_move now s)"
proof (cases "ing_worker s")
  case (WorkerTaken e)
  obtain outcome t where t: "apply_browser_session_event now e s = (outcome, t)" by fastforce
  assume "ingress_bounds k s"
  with WorkerTaken show ?thesis
    by (simp add: worker_move_def worker_apply_def t apply_event_frame [OF t] ingress_bounds_defs)
qed (auto simp: worker_move_def worker_take_cases worker_unlatch_def worker_commit_def
      ingress_bounds_defs Let_def split: option.splits)

lemma ingress_op_bounds:
  assumes "ingress_bounds k s" "k < 2 ^ 32 - 1"
  shows "ingress_bounds (Suc k) (run_ingress_op op s)"
proof (cases op)
  case AllocateSequence
  have "unat (ing_next_browser_event_sequence s) \<le> k"
    using assms(1) by (simp add: ingress_bounds_def)
  then have "unat (ing_next_browser_event_sequence s + 1) = Suc (unat (ing_next_browser_event_sequence s))"
    using assms(2) by (intro unat_inc_u64) simp
  with assms(1) AllocateSequence show ?thesis
    by (auto simp: allocate_browser_event_sequence_def ingress_bounds_defs)
next
  case (MeterCritical uptime e)
  have "ing_open s \<Longrightarrow> unat (bet_critical_pending_count (ing_telemetry s)) < 2 ^ 32 - 1"
    using assms by (auto simp: ingress_bounds_defs)
  with assms(1) MeterCritical show ?thesis
    by (auto simp: meter_critical_def ingress_bounds_defs enqueued_count)
next
  case WorkerDropped
  with assms(1) show ?thesis
    by (auto simp: worker_dropped_def ingress_bounds_defs)
qed (use assms(1) in \<open>simp_all add: bounds_mono publish_bounds progress_bounds receive_bounds
  worker_move_bounds\<close>)

section \<open>Runs\<close>

lemma ingress_start:
  "number_account {#} (new_with_progress_capacity capacity)"
  "worker_order (new_with_progress_capacity capacity)"
  "ingress_bounds 0 (new_with_progress_capacity capacity)"
  by (simp_all add: new_with_progress_capacity_def number_account_def outstanding_def worker_order_def
      applied_upto_def worker_sequences_def lookup_empty saturating_add_def ingress_bounds_defs
      telemetry_default_def Let_def)

lemma ingress_run:
  assumes "length ops < 2 ^ 32"
  shows "number_account {#} (run_ingress capacity ops) \<and> worker_order (run_ingress capacity ops) \<and>
    ingress_bounds (length ops) (run_ingress capacity ops)"
  using assms
proof (induction ops rule: rev_induct)
  case Nil
  then show ?case using ingress_start by simp
next
  case (snoc op ops)
  let ?s = "run_ingress capacity ops"
  have h: "number_account {#} ?s" "worker_order ?s" "ingress_bounds (length ops) ?s"
    "length ops < 2 ^ 32 - 1"
    using snoc by simp_all
  then have "unat (ing_next_browser_event_sequence ?s) < 2 ^ 64 - 2"
    by (simp add: ingress_bounds_def)
  with h show ?case
    using ingress_op_account ingress_op_order ingress_op_bounds [OF h(3,4)] by simp
qed

section \<open>The worker never stalls\<close>

text \<open>With nothing outside the pending map, the first uncommitted number is in it.\<close>

definition only_pending :: "ingress_state \<Rightarrow> bool" where
  "only_pending s \<longleftrightarrow> ing_open s \<and> ing_worker s = WorkerIdle \<and> ing_held s = [] \<and> ing_metered s = [] \<and>
     ing_critical s = [] \<and> ing_progress s = [] \<and> ing_lost s = []"

lemma first_uncommitted_pending:
  assumes acc: "number_account {#} s" and only: "only_pending s"
    and lt: "ing_committed_browser_event_sequence s \<noteq> ing_next_browser_event_sequence s"
  shows "ing_committed_browser_event_sequence s + 1 \<in> Mapping.keys (ing_pending s)"
proof -
  let ?c = "ing_committed_browser_event_sequence s" and ?n = "ing_next_browser_event_sequence s"
  note room = account_room [OF acc]
  have "?c < ?n" using lt number_account_backlog(3) [OF acc] by simp
  then have "?c + 1 \<in> {0<..?n}"
    using room upto_Suc(1) [OF room] by (auto simp: word_less_nat_alt word_le_nat_alt unat_inc_u64)
  then have "?c + 1 \<in># mset_set {0<..?n}" by simp
  moreover have "mset_set (Mapping.keys (ing_pending s)) + mset (ing_committed_browser_event_backlog s)
      + mset_set {0<..?c} = mset_set {0<..?n}" and fin: "finite (Mapping.keys (ing_pending s))"
    and "?c + 1 \<notin> set (ing_committed_browser_event_backlog s)"
    using acc only by (simp_all add: number_account_def only_pending_def outstanding_def
        worker_sequences_def saturating_Suc [OF room])
  moreover have "?c + 1 \<notin> {0<..?c}" using upto_Suc(2) [OF room] by (metis greaterThanAtMost_iff leD)
  ultimately show ?thesis
    by (metis finite finite_set_mset_mset_set set_mset_mset union_iff)
qed

lemma nothing_pending:
  assumes acc: "number_account {#} s"
    and all: "ing_committed_browser_event_sequence s = ing_next_browser_event_sequence s"
  shows "Mapping.keys (ing_pending s) = {}"
proof -
  have "outstanding s = {#}" using acc all by (auto simp: number_account_def)
  then show ?thesis using acc by (simp add: outstanding_def number_account_def mset_set_empty_iff)
qed

definition places :: "ingress_state \<Rightarrow> _" where
  "places s = (ing_open s, ing_held s, ing_metered s, ing_critical s, ing_progress s, ing_lost s,
     ing_pending s, ing_next_browser_event_sequence s)"

definition drain_round :: "string \<Rightarrow> browser_session_event \<Rightarrow> ingress_state \<Rightarrow> ingress_state" where
  "drain_round now e s = worker_move now (worker_move now (worker_apply now e (worker_take s)))"

lemma drain_round_step:
  assumes acc: "number_account {#} s" and order: "worker_order s" and only: "only_pending s"
    and e: "Mapping.lookup (ing_pending s) (take_sequence s) = Some e"
  shows "number_account {#} (drain_round now e s)" "worker_order (drain_round now e s)"
    "only_pending (drain_round now e s)"
    "Mapping.keys (ing_pending (drain_round now e s)) =
       Mapping.keys (ing_pending s) - {take_sequence s}"
    "ing_next_browser_event_sequence (drain_round now e s) = ing_next_browser_event_sequence s"
proof -
  have o: "ing_open s" "ing_worker s = WorkerIdle" using only by (simp_all add: only_pending_def)
  let ?a = "worker_take s"
  let ?b = "worker_apply now e ?a"
  obtain outcome t where t: "apply_browser_session_event now e ?a = (outcome, t)" by fastforce
  have a: "ing_worker ?a = WorkerTaken e" "ing_open ?a"
    using o e by (simp_all add: worker_take_cases)
  have b: "ing_worker ?b = WorkerApplied outcome" "ing_open ?b"
    by (simp_all add: worker_apply_def t apply_event_frame [OF t] a)
  have c: "ing_worker (worker_move now ?b) = WorkerUnlatched (beo_browser_sequence outcome)"
    "ing_open (worker_move now ?b)"
    by (simp_all add: worker_move_def b worker_unlatch_def Let_def split: option.splits)
  have acc_b: "number_account {#} ?b" and order_b: "worker_order ?b"
    using apply_account [OF take_account [OF acc o(2)] a(1)]
      apply_order [OF take_account [OF acc o(2)] take_order [OF acc order o] a(2,1)] by simp_all
  note move = worker_move_account [OF acc_b] worker_move_order [OF acc_b order_b b(2)]
  show "number_account {#} (drain_round now e s)" "worker_order (drain_round now e s)"
    unfolding drain_round_def
    by (rule worker_move_account [OF move(1)], rule worker_move_order [OF move c(2)])
  have "places (drain_round now e s) = places (worker_move now ?b)"
    "ing_worker (drain_round now e s) = WorkerIdle"
    by (simp_all add: drain_round_def worker_move_def [of now "worker_move now ?b"] c
        worker_commit_def Let_def places_def)
  moreover have "places (worker_move now ?b) = places ?b"
    by (simp add: worker_move_def b worker_unlatch_def Let_def places_def split: option.splits)
  moreover have "places ?b = places ?a"
    by (simp add: worker_apply_def t apply_event_frame [OF t] places_def)
  ultimately have view: "places (drain_round now e s) = places ?a"
    "ing_worker (drain_round now e s) = WorkerIdle" by simp_all
  show "only_pending (drain_round now e s)"
    "Mapping.keys (ing_pending (drain_round now e s)) =
       Mapping.keys (ing_pending s) - {take_sequence s}"
    "ing_next_browser_event_sequence (drain_round now e s) = ing_next_browser_event_sequence s"
    using only e view by (simp_all add: places_def worker_take_cases only_pending_def)
qed

lemma drain_commits_all:
  assumes "number_account {#} s" "worker_order s" "only_pending s"
    and "card (Mapping.keys (ing_pending s)) < fuel"
  shows "ing_committed_browser_event_sequence (drain_ready_browser_events fuel now s) =
      ing_next_browser_event_sequence s \<and>
    Mapping.keys (ing_pending (drain_ready_browser_events fuel now s)) = {}"
  using assms
proof (induction fuel arbitrary: s)
  case (Suc fuel)
  note h = Suc.prems(1-3)
  have o: "ing_open s" "ing_worker s = WorkerIdle" using h(3) by (simp_all add: only_pending_def)
  note n = take_sequence_next [OF h(1,2) o]
  show ?case
  proof (cases "ing_committed_browser_event_sequence s = ing_next_browser_event_sequence s")
    case True
    note empty = nothing_pending [OF h(1) True]
    then have "Mapping.lookup (ing_pending s) (take_sequence s) = None"
      by (metis empty_iff keys_lookup)
    with True empty o show ?thesis by (simp add: worker_take_cases)
  next
    case False
    have key: "take_sequence s \<in> Mapping.keys (ing_pending s)"
      unfolding n by (rule first_uncommitted_pending [OF h(1,3) False])
    then obtain e where e: "Mapping.lookup (ing_pending s) (take_sequence s) = Some e"
      by (auto simp: keys_lookup)
    note round = drain_round_step [OF h e, of now]
    have "finite (Mapping.keys (ing_pending s))" using h(1) by (simp add: number_account_def)
    then have "card (Mapping.keys (ing_pending (drain_round now e s))) < fuel"
      using card_Diff1_less [OF _ key] Suc.prems(4) by (fastforce simp: round(4))
    note IH = Suc.IH [OF round(1-3) this]
    have "drain_ready_browser_events (Suc fuel) now s =
        drain_ready_browser_events fuel now (drain_round now e s)"
      using e by (simp add: drain_round_def worker_take_cases)
    with IH round(5) show ?thesis by simp
  qed
qed simp

section \<open>Overflow markers\<close>

fun note_cleared :: "ingress_note \<Rightarrow> u64 \<times> u64 \<Rightarrow> u64 \<times> u64" where
  "note_cleared (NoteCleared g n) last_clear = (g, n)"
| "note_cleared note last_clear = last_clear"

definition last_cleared :: "ingress_note list \<Rightarrow> u64 \<times> u64" where
  "last_cleared ns = fold note_cleared ns (0, 0)"

text \<open>A dropped progress event is covered by its own marker, or by an earlier marker of its
  generation that the last clear on record does not outrun.\<close>

definition drop_covered :: "ingress_note list \<Rightarrow> u64 \<Rightarrow> u64 \<Rightarrow> bool" where
  "drop_covered before g n \<longleftrightarrow>
     NoteMarked g n \<in> set before \<or>
     (\<exists>m. NoteMarked g m \<in> set before \<and>
        \<not> (fst (last_cleared before) = g \<and> snd (last_cleared before) > m))"

fun drops_covered :: "ingress_note list \<Rightarrow> ingress_note list \<Rightarrow> bool" where
  "drops_covered before [] = True"
| "drops_covered before (NoteDropped g n # ns) =
     (drop_covered before g n \<and> drops_covered (before @ [NoteDropped g n]) ns)"
| "drops_covered before (note # ns) = drops_covered (before @ [note]) ns"

lemma drops_covered_append:
  "drops_covered before (xs @ ys) = (drops_covered before xs \<and> drops_covered (before @ xs) ys)"
proof (induction xs arbitrary: before)
  case (Cons x xs)
  then show ?case by (cases x) simp_all
qed simp

lemma drops_covered_nth:
  "drops_covered before ns \<Longrightarrow> i < length ns \<Longrightarrow> ns ! i = NoteDropped g n \<Longrightarrow>
   drop_covered (before @ take i ns) g n"
proof (induction ns arbitrary: before i)
  case (Cons x xs)
  then show ?case
    using Cons.IH [of "before @ [x]" "i - 1"] by (cases x; cases i) auto
qed simp

fun is_drop_note :: "ingress_note \<Rightarrow> bool" where
  "is_drop_note (NoteDropped g n) = True"
| "is_drop_note note = False"

definition overflow_log :: "ingress_state \<Rightarrow> bool" where
  "overflow_log s \<longleftrightarrow>
     (ing_open s \<longrightarrow> last_cleared (ing_log s) = (ing_reopen_generation s, ing_reopen_sequence s)) \<and>
     (ing_latched s \<longrightarrow>
        NoteMarked (ing_latched_generation s) (ing_latched_sequence s) \<in> set (ing_log s)) \<and>
     drops_covered [] (ing_log s) \<and>
     ing_browser_event_ingress_drop_count s = of_nat (length (filter is_drop_note (ing_log s)))"

lemma last_cleared_snoc [simp]:
  "last_cleared (ns @ [NoteCleared g n]) = (g, n)"
  "last_cleared (ns @ [NoteMarked g n]) = last_cleared ns"
  "last_cleared (ns @ [NoteDropped g n]) = last_cleared ns"
  "last_cleared (ns @ [NoteMarked g n, NoteDropped g' n']) = last_cleared ns"
  by (simp_all add: last_cleared_def)

lemma overflow_same:
  assumes "overflow_log s" "ing_log t = ing_log s" "ing_open t = ing_open s"
    "ing_reopen_generation t = ing_reopen_generation s"
    "ing_reopen_sequence t = ing_reopen_sequence s" "ing_latched t = ing_latched s"
    "ing_latched_generation t = ing_latched_generation s"
    "ing_latched_sequence t = ing_latched_sequence s"
    "ing_browser_event_ingress_drop_count t = ing_browser_event_ingress_drop_count s"
  shows "overflow_log t"
  using assms by (simp add: overflow_log_def)

lemma commit_drop_count [simp]:
  "ing_browser_event_ingress_drop_count (record_browser_event_commit n s) =
     ing_browser_event_ingress_drop_count s"
  "ing_browser_event_ingress_drop_count (insert_pending_browser_event e s) =
     ing_browser_event_ingress_drop_count s"
  by (simp_all add: record_browser_event_commit_def insert_pending_browser_event_def Let_def
      split: prod.splits)

lemma progress_overflow:
  assumes "overflow_log s"
  shows "overflow_log (enqueue_progress e s)"
  using assms
  by (auto simp: overflow_log_def enqueue_progress_def progress_try_send_def critical_send_def
      record_browser_event_ingress_overflow_def should_emit_progress_overflow_marker_def Let_def
      drops_covered_append drop_covered_def)

lemma publish_overflow:
  assumes "overflow_log s"
  shows "overflow_log (publish_critical e s)"
  using assms
  by (auto simp: overflow_log_def publish_critical_def critical_send_def store_reopen_def
      withdraw_reopen_def Let_def drops_covered_append split: option.splits)

lemma worker_move_overflow:
  assumes "overflow_log s"
  shows "overflow_log (worker_move now s)"
proof (cases "ing_worker s")
  case (WorkerTaken e)
  obtain outcome t where t: "apply_browser_session_event now e s = (outcome, t)" by fastforce
  have "ing_browser_event_ingress_drop_count t = ing_browser_event_ingress_drop_count s"
    using t by (cases e) (auto simp: Let_def split: prod.splits)
  with assms show ?thesis
    by (simp add: WorkerTaken worker_move_def worker_apply_def t apply_event_frame [OF t]
        overflow_log_def)
qed (use assms in \<open>auto simp: worker_move_def worker_take_cases worker_unlatch_def worker_commit_def
      overflow_log_def Let_def split: option.splits\<close>)

lemma ingress_op_overflow:
  assumes "overflow_log s"
  shows "overflow_log (run_ingress_op op s)"
proof (cases op)
  case WorkerDropped
  with assms show ?thesis by (simp add: overflow_log_def worker_dropped_def)
qed (use assms in \<open>auto simp: progress_overflow publish_overflow worker_move_overflow
    allocate_browser_event_sequence_def meter_critical_def receive_critical_def receive_progress_def
    split: list.splits elim!: overflow_same\<close>)

lemma overflow_run: "overflow_log (run_ingress capacity ops)"
proof (induction ops rule: rev_induct)
  case Nil
  show ?case by (simp add: overflow_log_def new_with_progress_capacity_def last_cleared_def)
next
  case (snoc op ops)
  then show ?case by (simp add: ingress_op_overflow)
qed

section \<open>What committing means\<close>

definition committed_numbers :: "ingress_state \<Rightarrow> u64 set" where
  "committed_numbers s =
     {0<..ing_committed_browser_event_sequence s} \<union> set (ing_committed_browser_event_backlog s)"

definition explained :: "ingress_state \<Rightarrow> u64 set" where
  "explained s = browser_sequence ` set (ing_applied s) \<union> {n. \<exists>g. NoteDropped g n \<in> set (ing_log s)}"

text \<open>While the worker lives, a number is committed only for an event that was applied or for a
  progress report whose drop is on record.\<close>

definition commits_explained :: "ingress_state \<Rightarrow> bool" where
  "commits_explained s \<longleftrightarrow>
     (ing_open s \<longrightarrow> committed_numbers s \<subseteq> explained s \<and>
       (case ing_worker s of
          WorkerApplied outcome \<Rightarrow> beo_browser_sequence outcome \<in> explained s
        | WorkerUnlatched n \<Rightarrow> n \<in> explained s
        | _ \<Rightarrow> True))"

lemma committed_numbers_account:
  assumes "number_account x s"
  shows "committed_numbers s = {0<..ing_next_browser_event_sequence s} - set_mset (x + outstanding s)"
proof -
  have eq: "x + outstanding s + mset (ing_committed_browser_event_backlog s) +
      mset_set {0<..ing_committed_browser_event_sequence s} =
      mset_set {0<..ing_next_browser_event_sequence s}"
    using assms by (simp add: number_account_def)
  have "set_mset (x + outstanding s) \<union> committed_numbers s = {0<..ing_next_browser_event_sequence s}"
    using arg_cong [OF eq, of set_mset] by (auto simp: committed_numbers_def)
  moreover have "n \<notin> committed_numbers s" if "n \<in># x + outstanding s" for n
    using number_account_facts [OF assms that] by (auto simp: committed_numbers_def)
  ultimately show ?thesis by blast
qed

lemma commit_numbers:
  assumes "number_account (add_mset n x) s"
  shows "committed_numbers (record_browser_event_commit n s) = insert n (committed_numbers s)"
proof -
  have "n \<in> {0<..ing_next_browser_event_sequence s}"
    using number_account_facts(3,5) [OF assms, of n] by simp
  moreover have "n \<notin># x + outstanding s"
    using number_account_facts(4) [OF assms, of n] by (simp add: not_in_iff)
  ultimately show ?thesis
    unfolding committed_numbers_account [OF assms] committed_numbers_account [OF commit_account(1) [OF assms]]
    by auto
qed

lemma explained_same:
  assumes "commits_explained s" "committed_numbers t = committed_numbers s"
    "explained s \<subseteq> explained t" "ing_open t = ing_open s" "ing_worker t = ing_worker s"
  shows "commits_explained t"
  using assms by (cases "ing_worker s") (auto simp: commits_explained_def)

lemma commit_explained:
  assumes "number_account (add_mset n x) s" "commits_explained s" "ing_open s \<Longrightarrow> n \<in> explained s"
  shows "commits_explained (record_browser_event_commit n s)"
proof -
  have "explained (record_browser_event_commit n s) = explained s" by (simp add: explained_def)
  then show ?thesis
    using assms(2,3) commit_numbers [OF assms(1)] by (cases "ing_worker s") (auto simp: commits_explained_def)
qed

lemma progress_explained:
  assumes acc: "number_account {#} s" and ex: "commits_explained s"
    and n: "browser_sequence e \<in> set (ing_held s)"
  shows "commits_explained (enqueue_progress e s)"
proof -
  note h = remove1_held [OF acc n]
  note commit = commit_explained [where x = "{#}" and n = "browser_sequence e"]
  show ?thesis
    by (auto simp: enqueue_progress_def Let_def progress_try_send_def critical_send_def
        record_browser_event_ingress_overflow_def outstanding_def explained_def committed_numbers_def
        intro!: commit account_move [OF h] explained_same [OF ex] split: prod.splits)
qed

lemma publish_explained:
  assumes acc: "number_account {#} s" and ex: "commits_explained s"
    and e: "e \<in> set (ing_metered s)"
  shows "commits_explained (publish_critical e s)"
proof (cases "ing_open s")
  case True
  then show ?thesis
    by (auto simp: publish_critical_def critical_send_def Let_def store_reopen_def explained_def
        committed_numbers_def intro!: explained_same [OF ex] split: option.splits)
next
  case False
  then show ?thesis
    by (auto simp: commits_explained_def publish_critical_def critical_send_def Let_def
        store_reopen_def withdraw_reopen_def split: option.splits)
qed

lemma worker_move_explained:
  assumes acc: "number_account {#} s" and order: "worker_order s" and ex: "commits_explained s"
  shows "commits_explained (worker_move now s)"
proof (cases "ing_worker s")
  case WorkerIdle
  with ex show ?thesis
    by (auto simp: worker_move_def worker_take_cases commits_explained_def committed_numbers_def
        explained_def split: option.splits)
next
  case (WorkerTaken e)
  obtain outcome t where t: "apply_browser_session_event now e s = (outcome, t)" by fastforce
  show ?thesis
    using ex by (auto simp: WorkerTaken worker_move_def worker_apply_def t apply_event_frame [OF t]
        commits_explained_def committed_numbers_def explained_def)
next
  case (WorkerApplied outcome)
  with ex show ?thesis
    by (auto simp: worker_move_def worker_unlatch_def commits_explained_def committed_numbers_def
        explained_def Let_def split: option.splits)
next
  case (WorkerUnlatched n)
  let ?t = "s\<lparr>ing_worker := WorkerIdle, ing_next_sequence := saturating_add (ing_next_sequence s) 1\<rparr>"
  have "number_account {#n#} ?t"
    by (rule account_move [OF acc]) (simp_all add: outstanding_def WorkerUnlatched worker_sequences_def)
  moreover have "commits_explained ?t" "ing_open ?t \<Longrightarrow> n \<in> explained ?t"
    using ex WorkerUnlatched
    by (auto simp: commits_explained_def committed_numbers_def explained_def)
  ultimately have "commits_explained (record_browser_event_commit n ?t)"
    by (rule commit_explained)
  moreover have "worker_commit n s = record_browser_event_commit n ?t"
    by (simp add: worker_commit_def record_browser_event_commit_def Let_def split: prod.splits)
  ultimately show ?thesis by (simp add: worker_move_def WorkerUnlatched)
qed

lemma ingress_op_explained:
  assumes "number_account {#} s" "worker_order s" "commits_explained s"
  shows "commits_explained (run_ingress_op op s)"
proof (cases op)
  case WorkerDropped
  with assms(3) show ?thesis by (simp add: commits_explained_def worker_dropped_def)
qed (use assms in \<open>auto simp: progress_explained publish_explained worker_move_explained
    allocate_browser_event_sequence_def meter_critical_def receive_critical_def receive_progress_def
    committed_numbers_def explained_def insert_pending_browser_event_def
    split: list.splits elim!: explained_same\<close>)

lemma explained_run: "length ops < 2 ^ 32 \<Longrightarrow> commits_explained (run_ingress capacity ops)"
proof (induction ops rule: rev_induct)
  case Nil
  show ?case
    by (simp add: commits_explained_def new_with_progress_capacity_def committed_numbers_def)
next
  case (snoc op ops)
  then show ?case using ingress_run [of ops capacity] by (simp add: ingress_op_explained)
qed

section \<open>Download windows\<close>

record download_event_window =
  dew_events :: "download_event list"
  dew_authoritative :: bool
  dew_degraded_reason :: "string option"

definition cursor_lost_to_timeline_eviction :: "u64 \<Rightarrow> download_runtime_state \<Rightarrow> bool" where
  "cursor_lost_to_timeline_eviction cursor downloads \<longleftrightarrow>
     dls_dropped_event_count downloads > 0 \<and> cursor < dls_last_evicted_sequence downloads"

text \<open>\<open>runtime\<close> is the projection read before the window, \<open>current_ingress_drop_count\<close> the counter
  read while the registry is locked.\<close>

definition download_event_window_after ::
  "u64 \<Rightarrow> u64 \<Rightarrow> download_runtime_info \<Rightarrow> u64 \<Rightarrow> download_runtime_state \<Rightarrow> download_event_window" where
  "download_event_window_after cursor last_observed_ingress_drop_count runtime
     current_ingress_drop_count downloads =
     (let events = download_events_after cursor downloads;
          ingress_overflow = (current_ingress_drop_count > last_observed_ingress_drop_count);
          degraded_reason =
            (if ingress_overflow then
               or_else (dri_degraded_reason runtime) (Some DOWNLOAD_PROGRESS_OVERFLOW_REASON)
             else if cursor_lost_to_timeline_eviction cursor downloads then
               or_else (dri_degraded_reason runtime) (Some ''download_event_timeline_overflow'')
             else dri_degraded_reason runtime)
      in \<lparr>dew_events = events, dew_authoritative = (degraded_reason = None),
          dew_degraded_reason = degraded_reason\<rparr>)"

definition download_event_window_between ::
  "u64 \<Rightarrow> u64 \<Rightarrow> u64 \<Rightarrow> u64 \<Rightarrow> string option \<Rightarrow> string option \<Rightarrow> download_runtime_state
   \<Rightarrow> download_event_window" where
  "download_event_window_between cursor end_cursor last_observed_ingress_drop_count
     observed_ingress_drop_count baseline_degraded_reason observed_degraded_reason downloads =
     (let events = download_events_between cursor end_cursor downloads;
          ingress_overflow = (observed_ingress_drop_count > last_observed_ingress_drop_count);
          degraded_reason =
            (case or_else observed_degraded_reason baseline_degraded_reason of
               Some reason \<Rightarrow> Some reason
             | None \<Rightarrow>
                 if ingress_overflow then Some DOWNLOAD_PROGRESS_OVERFLOW_REASON
                 else if cursor_lost_to_timeline_eviction cursor downloads
                 then Some ''download_event_timeline_overflow''
                 else None)
      in \<lparr>dew_events = events, dew_authoritative = (degraded_reason = None),
          dew_degraded_reason = degraded_reason\<rparr>)"

section \<open>A concrete run\<close>

text \<open>A progress channel of one slot: the first progress report fills it, the second overflows and
  leaves a marker, a download start follows; the worker receives everything and applies it.\<close>

definition example_report :: "u64 \<Rightarrow> browser_session_event" where
  "example_report n = EvDownloadProgress n 1 ''g'' DownloadInProgress 5 None None"

definition example_ingress :: "ingress_op list" where
  "example_ingress =
     [AllocateSequence, AllocateSequence, AllocateSequence,
      MeterCritical 7 (EvDownloadStarted 3 1 ''g'' ''u'' ''f'' None),
      EnqueueProgress (example_report 1), EnqueueProgress (example_report 2),
      PublishCritical (EvDownloadStarted 3 1 ''g'' ''u'' ''f'' None),
      ReceiveCritical]"

lemmas example_ingress_defs = example_report_def example_ingress_def new_with_progress_capacity_def
  allocate_browser_event_sequence_def meter_critical_def enqueue_progress_def progress_try_send_def
  critical_send_def publish_critical_def store_reopen_def withdraw_reopen_def receive_critical_def
  receive_progress_def insert_pending_browser_event_def should_emit_progress_overflow_marker_def
  record_browser_event_ingress_overflow_def saturating_add_def Let_def
  record_critical_browser_event_enqueued_def record_critical_browser_event_dequeued_def
  atomic_saturating_decrement_u32_def atomic_max_u32_def telemetry_default_def
  BROWSER_EVENT_CRITICAL_SOFT_LIMIT_def word_le_nat_alt word_less_nat_alt

lemma example_ingress_state:
  "map browser_sequence (ing_critical (run_ingress 1 example_ingress)) = [3]"
  "ing_metered (run_ingress 1 example_ingress) = []"
  "bet_critical_pending_count (ing_telemetry (run_ingress 1 example_ingress)) = 0"
  "ing_log (run_ingress 1 example_ingress) = [NoteMarked 1 2, NoteDropped 1 2]"
  by (simp_all add: example_ingress_defs)

text \<open>Two dialog events whose callbacks overtake each other between allocation and sending.\<close>

definition example_overtaking :: "ingress_op list" where
  "example_overtaking =
     [AllocateSequence, AllocateSequence,
      MeterCritical 7 (EvDialogClosed 2 1 True ''b''), PublishCritical (EvDialogClosed 2 1 True ''b''),
      ReceiveCritical, WorkerMove ''t'',
      MeterCritical 8 (EvDialogClosed 1 1 True ''a''), PublishCritical (EvDialogClosed 1 1 True ''a''),
      ReceiveCritical]"

definition example_overtaking_drain :: "ingress_op list" where
  "example_overtaking_drain = example_overtaking @
     [WorkerMove ''t'', WorkerMove ''t'', WorkerMove ''t'', WorkerMove ''t'',
      WorkerMove ''t'', WorkerMove ''t'', WorkerMove ''t'', WorkerMove ''t'']"

lemma example_overtaking_applied:
  "map browser_sequence (ing_applied (run_ingress 1 example_overtaking_drain)) = [1, 2]"
  by (simp add: example_overtaking_drain_def example_overtaking_def example_ingress_defs
      worker_move_def worker_take_def worker_apply_def worker_unlatch_def worker_commit_def
      record_browser_event_commit_def advance_committed.simps lookup_update' lookup_delete_if
      lookup_empty)

lemma example_lengths:
  "length example_ingress < 2 ^ 32" "length example_overtaking < 2 ^ 32"
  "length example_overtaking_drain < 2 ^ 32"
  by (simp_all add: example_ingress_def example_overtaking_def example_overtaking_drain_def)

section \<open>Properties\<close>

text \<open>
  C9. However the callbacks and the worker interleave, browser events are applied to the dialog and
  download surfaces in the order their numbers were allocated, each at most once. While the worker
  lives no event is lost: every allocated number is at exactly one place on its way (a callback's
  hand, one of the channels, the pending map, the worker's hand) or committed, never both, and a
  number is committed only when its event was applied or is a progress report whose drop is on record.
\<close>

theorem browser_events_ordered_and_conserved:
  assumes "length ops < 2 ^ 32" and "s = run_ingress capacity ops"
  shows "sorted_wrt (<) (map browser_sequence (ing_applied s)) \<and>
    (\<forall>n. 0 < n \<and> n \<le> ing_next_browser_event_sequence s \<longrightarrow>
       count (outstanding s) n = (if n \<in> committed_numbers s then 0 else 1)) \<and>
    (ing_open s \<longrightarrow> (\<forall>n\<in>committed_numbers s.
       n \<in> browser_sequence ` set (ing_applied s) \<or> (\<exists>g. NoteDropped g n \<in> set (ing_log s))))"
proof -
  have acc: "number_account {#} s" and order: "worker_order s" and ex: "commits_explained s"
    using ingress_run [OF assms(1), of capacity] explained_run [OF assms(1), of capacity] assms(2)
    by simp_all
  have "count (outstanding s) n = (if n \<in> committed_numbers s then 0 else 1)"
    if "0 < n" "n \<le> ing_next_browser_event_sequence s" for n
    using that committed_numbers_account [OF acc] number_account_facts(4) [OF acc, of n]
    by (auto simp: not_in_iff)
  with order ex show ?thesis
    by (auto simp: worker_order_def commits_explained_def explained_def)
qed

theorem browser_events_ordered_and_conserved_witness:
  "sorted_wrt (<) (map browser_sequence (ing_applied (run_ingress 1 example_overtaking_drain))) \<and>
   map browser_sequence (ing_applied (run_ingress 1 example_overtaking_drain)) = [1, 2]"
  using browser_events_ordered_and_conserved [OF example_lengths(3) refl, of 1]
    example_overtaking_applied by blast

text \<open>
  C10. The browser event worker never stalls on a number that will not come. Once the callbacks have
  handed over what they allocated and the worker has received it, draining the pending map commits
  every allocated number, holes left by dropped progress reports included: the committed cursor
  reaches the allocation cursor, which is what waiters for quiescence wait for.
\<close>

theorem browser_event_worker_never_stalls:
  assumes "length ops < 2 ^ 32" and "s = run_ingress capacity ops" and "only_pending s"
    and "card (Mapping.keys (ing_pending s)) < fuel"
  shows "ing_committed_browser_event_sequence (drain_ready_browser_events fuel now s) =
      ing_next_browser_event_sequence s \<and>
    Mapping.keys (ing_pending (drain_ready_browser_events fuel now s)) = {}"
  using ingress_run [OF assms(1), of capacity] assms(2-4) by (intro drain_commits_all) simp_all

theorem browser_event_worker_never_stalls_witness:
  "ing_committed_browser_event_sequence
     (drain_ready_browser_events 3 ''t'' (run_ingress 1 example_overtaking)) = 2"
proof -
  let ?s = "run_ingress 1 example_overtaking"
  have "only_pending ?s" "ing_next_browser_event_sequence ?s = 2"
    "Mapping.keys (ing_pending ?s) = {1, 2}"
    by (simp_all add: example_overtaking_def example_ingress_defs only_pending_def worker_move_def
        worker_take_def lookup_update' lookup_empty)
  then show ?thesis
    using browser_event_worker_never_stalls [OF example_lengths(2) refl, of 1 3 "''t''"] by simp
qed

text \<open>
  C13. The bounds of the ingress. The progress channel never holds more than its capacity. While the
  worker lives the reported critical pending count never exceeds the critical backlog, the events
  counted and not yet received, and falls short of it by at most the number of overflow markers, so
  it is exact as long as no marker was sent.
\<close>

theorem browser_event_ingress_bounded:
  assumes "length ops < 2 ^ 32" and "s = run_ingress capacity ops"
  shows "length (ing_progress s) \<le> ing_capacity s \<and>
    (ing_open s \<longrightarrow> pending_telemetry s \<le> critical_backlog s \<and>
      critical_backlog s \<le> pending_telemetry s + marker_count s)"
  using ingress_run [OF assms(1), of capacity] assms(2) by (simp add: ingress_bounds_def)

text \<open>The shortfall is real: the marker is received as if it had been counted, and the event still
  queued behind it is no longer reported.\<close>

theorem browser_event_ingress_bounded_witness:
  "pending_telemetry (run_ingress 1 example_ingress) = 0 \<and>
   critical_backlog (run_ingress 1 example_ingress) = 1 \<and>
   critical_backlog (run_ingress 1 example_ingress)
     \<le> pending_telemetry (run_ingress 1 example_ingress) + marker_count (run_ingress 1 example_ingress)"
proof -
  have "ing_open (run_ingress 1 example_ingress)" by (simp add: example_ingress_defs)
  moreover have "length (ing_critical (run_ingress 1 example_ingress)) = 1"
    using example_ingress_state(1) by (metis length_map list.size(3,4) One_nat_def add.right_neutral add_Suc_right)
  ultimately show ?thesis
    using browser_event_ingress_bounded [OF example_lengths(1) refl, of 1] example_ingress_state(2,3)
    by (simp add: pending_telemetry_def critical_backlog_def)
qed





end
