(* ===== verification/Rub_Takeover.thy ===== *)
theory Rub_Takeover
  imports Rub_Surfaces Rub_Error
begin

text \<open>
  The commands that hand a session to a human and back: \<^verbatim>\<open>handoff\<close> and \<^verbatim>\<open>takeover\<close>
  (\<^verbatim>\<open>router/runtime/takeover.rs\<close>) with the live refresh they use as continuity fence
  (\<^verbatim>\<open>runtime_refresh/surfaces.rs\<close>, \<^verbatim>\<open>runtime_refresh/interference.rs\<close>). The state is the part of
  \<^verbatim>\<open>SessionState\<close> these commands read and write. The answers of the browser port are inputs: a
  \<open>live_probe\<close> holds the answers one refresh receives, the launch policy is the one the port reports.
  The interference projection is written by the refresh but read by none of these commands with the
  \<^verbatim>\<open>ReadOnly\<close> intent, so only what its classifier reports is an input. Derived serializers and the wire
  names of error codes, which \<^verbatim>\<open>serde\<close> generates, are the arguments of the error messages.
\<close>

section \<open>State and inputs\<close>

record human_session =
  hss_handoff :: handoff_info
  hss_takeover :: takeover_runtime_state
  hss_frame_runtime :: frame_runtime_state
  hss_storage_runtime :: storage_runtime_state
  hss_runtime_state :: runtime_state_projection
  hss_next_runtime_state_sequence :: u64
  hss_integration :: integration_runtime_info
  hss_observatory :: runtime_observatory_state
  hss_observatory_ingress :: u64
  hss_request_ingress :: u64

datatype interference_kind =
    InterstitialNavigation | PopupHijack | OverlayInterference | ThirdPartyNoise
  | HumanVerificationRequired | UnknownNavigationDrift

record 'n live_probe =
  lpr_runtime_state :: "'n rub_error + runtime_state_snapshot"
  lpr_frames :: "'n rub_error + frame_inventory_entry list"
  lpr_storage_frames :: "'n rub_error + frame_inventory_entry list"
  lpr_storage :: "string option \<Rightarrow> 'n rub_error + storage_snapshot"
  lpr_tabs :: "'n rub_error + tab_info list"
  lpr_interference :: "interference_kind option"
  lpr_policies :: "string list"

record 'n surface_json =
  sfj_takeover :: "takeover_runtime_info \<Rightarrow> 'n json"
  sfj_handoff :: "handoff_info \<Rightarrow> 'n json"
  sfj_frame :: "frame_runtime_info \<Rightarrow> 'n json"
  sfj_readiness :: "readiness_info \<Rightarrow> 'n json"
  sfj_integration :: "integration_runtime_info \<Rightarrow> 'n json"
  sfj_code :: "error_code \<Rightarrow> string"

section \<open>Live refresh\<close>

fun rub_error_display :: "(error_code \<Rightarrow> string) \<Rightarrow> 'n rub_error \<Rightarrow> string" where
  "rub_error_display code_name (RubDomain e) = code_name (ee_code e) @ '': '' @ ee_message e"
| "rub_error_display code_name (RubIo text) = ''IO error: '' @ text"
| "rub_error_display code_name (RubJson text) = ''JSON error: '' @ text"
| "rub_error_display code_name (RubInternal text) = ''Internal error: '' @ text"

definition error_context_reason :: "'n error_envelope \<Rightarrow> string option" where
  "error_context_reason e = Option.bind (ee_context e) (\<lambda>c. json_get_str c ''reason'')"

fun runtime_state_probe_degraded_reason :: "'n rub_error \<Rightarrow> string" where
  "runtime_state_probe_degraded_reason (RubDomain e) =
     (case error_context_reason e of
        Some reason \<Rightarrow> reason
      | None \<Rightarrow> if ee_code e = BrowserCrashed \<and> ee_message e = ''No active page''
                then ''page_unavailable'' else ''runtime_state_probe_failed'')"
| "runtime_state_probe_degraded_reason _ = ''runtime_state_probe_failed''"

fun storage_runtime_degraded_reason :: "'n rub_error \<Rightarrow> string" where
  "storage_runtime_degraded_reason (RubDomain e) =
     (case error_context_reason e of Some reason \<Rightarrow> reason | None \<Rightarrow> ''storage_probe_failed'')"
| "storage_runtime_degraded_reason _ = ''storage_probe_failed''"

fun stable_surface_probe_degraded_reason :: "'n rub_error \<Rightarrow> string \<Rightarrow> string" where
  "stable_surface_probe_degraded_reason (RubDomain e) default_reason =
     (case error_context_reason e of Some reason \<Rightarrow> reason | None \<Rightarrow> default_reason)"
| "stable_surface_probe_degraded_reason _ default_reason = default_reason"

definition resolve_storage_runtime_frame_id ::
  "string \<Rightarrow> frame_inventory_entry list \<Rightarrow> 'n rub_error + string" where
  "resolve_storage_runtime_frame_id frame_id frames =
     (case find (\<lambda>e. fci_frame_id (fie_frame e) = frame_id) frames of
        None \<Rightarrow> Inl (rub_domain_with_context InvalidInput
          (''Selected frame '' @ [CHR 0x27] @ frame_id @ [CHR 0x27] @
             '' is no longer present in the current tab inventory'')
          (JObject [(''reason'', JString ''continuity_frame_unavailable''),
                    (''frame_id'', JString frame_id)]))
      | Some _ \<Rightarrow> Inr frame_id)"

definition refresh_live_runtime_state :: "'n live_probe \<Rightarrow> human_session \<Rightarrow> human_session" where
  "refresh_live_runtime_state probe s =
     (let sequence = hss_next_runtime_state_sequence s;
          s = s\<lparr>hss_next_runtime_state_sequence := sequence + 1\<rparr>
      in case lpr_runtime_state probe of
           Inr snap \<Rightarrow> s\<lparr>hss_runtime_state :=
             publish_runtime_state_snapshot sequence snap (hss_runtime_state s)\<rparr>
         | Inl error \<Rightarrow> s\<lparr>hss_runtime_state := mark_runtime_state_probe_degraded sequence
             (runtime_state_probe_degraded_reason error) (hss_runtime_state s)\<rparr>)"

definition refresh_live_frame_runtime :: "'n live_probe \<Rightarrow> human_session \<Rightarrow> human_session" where
  "refresh_live_frame_runtime probe s =
     (case lpr_frames probe of
        Inr frames \<Rightarrow> s\<lparr>hss_frame_runtime := apply_inventory frames (hss_frame_runtime s)\<rparr>
      | Inl error \<Rightarrow> s\<lparr>hss_frame_runtime := frame_mark_degraded
          (stable_surface_probe_degraded_reason error ''frame_probe_failed'') (hss_frame_runtime s)\<rparr>)"

definition refresh_live_storage_runtime :: "'n live_probe \<Rightarrow> human_session \<Rightarrow> human_session" where
  "refresh_live_storage_runtime probe s =
     (let degrade = (\<lambda>reason. s\<lparr>hss_storage_runtime :=
            storage_mark_degraded reason (hss_storage_runtime s)\<rparr>);
          snapshot = (\<lambda>frame. case lpr_storage probe frame of
              Inr snap \<Rightarrow> s\<lparr>hss_storage_runtime := storage_replace_snapshot snap (hss_storage_runtime s)\<rparr>
            | Inl error \<Rightarrow> degrade (storage_runtime_degraded_reason error))
      in case frs_selected_frame_id (hss_frame_runtime s) of
           None \<Rightarrow> snapshot None
         | Some frame_id \<Rightarrow>
             (case lpr_storage_frames probe of
                Inl error \<Rightarrow> degrade ''continuity_frame_inventory_unavailable''
              | Inr frames \<Rightarrow>
                  (case resolve_storage_runtime_frame_id frame_id frames :: 'n rub_error + string of
                     Inl error \<Rightarrow> degrade (storage_runtime_degraded_reason error)
                   | Inr frame_id \<Rightarrow> snapshot (Some frame_id))))"

definition refresh_takeover_runtime :: "launch_policy_info \<Rightarrow> human_session \<Rightarrow> human_session" where
  "refresh_takeover_runtime policy s =
     s\<lparr>hss_takeover := takeover_refresh policy (hss_handoff s) (hss_takeover s)\<rparr>"

definition activate_handoff :: "human_session \<Rightarrow> human_session" where
  "activate_handoff s = s\<lparr>hss_handoff := handoff_activate (hss_handoff s)\<rparr>"

definition complete_handoff :: "human_session \<Rightarrow> human_session" where
  "complete_handoff s = s\<lparr>hss_handoff := handoff_complete (hss_handoff s)\<rparr>"

definition set_handoff_available :: "bool \<Rightarrow> human_session \<Rightarrow> human_session" where
  "set_handoff_available resume s = s\<lparr>hss_handoff := handoff_set_available resume (hss_handoff s)\<rparr>"

definition mark_takeover_runtime_degraded :: "string \<Rightarrow> human_session \<Rightarrow> human_session" where
  "mark_takeover_runtime_degraded reason s =
     s\<lparr>hss_takeover := takeover_mark_degraded reason (hss_takeover s)\<rparr>"

definition clear_takeover_runtime_degraded :: "human_session \<Rightarrow> human_session" where
  "clear_takeover_runtime_degraded s = s\<lparr>hss_takeover := takeover_clear_degraded (hss_takeover s)\<rparr>"

definition record_takeover_transition ::
  "takeover_transition_kind \<Rightarrow> takeover_transition_result \<Rightarrow> string option \<Rightarrow> human_session
   \<Rightarrow> human_session" where
  "record_takeover_transition kind result reason s =
     s\<lparr>hss_takeover := takeover_record_transition kind result reason (hss_takeover s)\<rparr>"

datatype interference_refresh_intent = ReadOnlyIntent | PolicyDrivenIntent

definition should_escalate :: "interference_kind option \<Rightarrow> string list \<Rightarrow> bool" where
  "should_escalate kind policies \<longleftrightarrow>
     kind = Some HumanVerificationRequired \<and> ''handoff_escalation'' \<in> set policies"

definition apply_policy_driven_handoff ::
  "interference_refresh_intent \<Rightarrow> interference_kind option \<Rightarrow> string list \<Rightarrow> launch_policy_info
   \<Rightarrow> human_session \<Rightarrow> human_session" where
  "apply_policy_driven_handoff intent kind policies policy s =
     (if intent = ReadOnlyIntent then s
      else if \<not> should_escalate kind policies then s
      else if hvi_status (hss_handoff s) = HandoffAvailable \<or>
              hvi_status (hss_handoff s) = HandoffCompleted
      then refresh_takeover_runtime policy (activate_handoff s)
      else s)"

definition refresh_live_interference_state ::
  "interference_refresh_intent \<Rightarrow> launch_policy_info \<Rightarrow> 'n live_probe \<Rightarrow> human_session
   \<Rightarrow> ('n rub_error + tab_info list) \<times> human_session" where
  "refresh_live_interference_state intent policy probe s =
     (case lpr_tabs probe of
        Inr tabs \<Rightarrow> (Inr tabs, apply_policy_driven_handoff intent (lpr_interference probe)
          (lpr_policies probe) policy s)
      | Inl error \<Rightarrow> (Inl error, s))"

definition refresh_live_runtime_and_interference ::
  "interference_refresh_intent \<Rightarrow> launch_policy_info \<Rightarrow> 'n live_probe \<Rightarrow> human_session
   \<Rightarrow> ('n rub_error + tab_info list) \<times> human_session" where
  "refresh_live_runtime_and_interference intent policy probe s =
     refresh_live_interference_state intent policy probe
       (refresh_takeover_runtime policy
         (refresh_live_storage_runtime probe
           (refresh_live_frame_runtime probe (refresh_live_runtime_state probe s))))"

section \<open>The continuity fence\<close>

definition takeover_continuity_failure ::
  "bool \<Rightarrow> frame_runtime_info \<Rightarrow> readiness_info \<Rightarrow> integration_runtime_info
   \<Rightarrow> (string \<times> string) option" where
  "takeover_continuity_failure active_tab frame readiness integration =
     (if \<not> active_tab then
        Some (''continuity_no_active_tab'', ''No active tab remained after takeover transition'')
      else if fri_status frame \<in> {FrameUnknown, FrameStale, FrameDegraded} \<or>
              fri_current_frame frame = None then
        Some (''continuity_frame_unavailable'',
              ''Frame context became unavailable after takeover transition'')
      else if rdi_status readiness = ReadinessDegraded then
        Some (''continuity_readiness_degraded'',
              ''Readiness surface degraded after takeover transition'')
      else if iri_status integration = IntegrationDegraded \<and>
              list_ex (\<lambda>x. x = SurfaceRequestRules \<or> x = SurfaceRuntimeObservatory)
                (iri_degraded_surfaces integration) then
        Some (''continuity_runtime_degraded'',
              ''Integration runtime degraded after takeover transition'')
      else None)"

text \<open>The keys of \<^verbatim>\<open>extra_context\<close> are inserted over \<^verbatim>\<open>reason\<close> one by one.\<close>

definition takeover_degraded_authority_error ::
  "string \<Rightarrow> string \<Rightarrow> (string \<times> 'n json) list \<Rightarrow> 'n rub_error" where
  "takeover_degraded_authority_error message reason extra =
     rub_domain_with_context SessionBusy message
       (JObject (fold (\<lambda>(k, v). AList.update k v) extra [(''reason'', JString reason)]))"

definition takeover_runtime_refresh_unavailable_error :: "string \<Rightarrow> 'n rub_error" where
  "takeover_runtime_refresh_unavailable_error cause =
     takeover_degraded_authority_error
       (''Takeover continuity fence failed because runtime refresh authority is currently '' @
        ''unavailable'')
       ''continuity_runtime_refresh_unavailable''
       [(''phase'', JString ''runtime_refresh''), (''cause'', JString cause)]"

definition session_integration_runtime :: "human_session \<Rightarrow> integration_runtime_info" where
  "session_integration_runtime s =
     integration_runtime (hss_observatory_ingress s) (hss_request_ingress s) (hss_integration s)
       (hss_observatory s) (hss_runtime_state s) (hss_handoff s)"

definition verify_takeover_continuity ::
  "'n surface_json \<Rightarrow> launch_policy_info \<Rightarrow> 'n live_probe \<Rightarrow> human_session
   \<Rightarrow> ('n rub_error + unit) \<times> human_session" where
  "verify_takeover_continuity j policy probe s =
     (case refresh_live_runtime_and_interference ReadOnlyIntent policy probe s of
        (Inl error, s) \<Rightarrow>
          (Inl (takeover_runtime_refresh_unavailable_error (rub_error_display (sfj_code j) error)),
           mark_takeover_runtime_degraded ''continuity_runtime_refresh_unavailable'' s)
      | (Inr tabs, s) \<Rightarrow>
          let frame = frs_projection (hss_frame_runtime s);
              readiness = rsp_readiness (hss_runtime_state s);
              integration = session_integration_runtime s
          in case takeover_continuity_failure (list_ex tab_active tabs) frame readiness integration of
               Some (reason, message) \<Rightarrow>
                 let s = mark_takeover_runtime_degraded reason s
                 in (Inl (takeover_degraded_authority_error message reason
                       [(''reason'', JString reason), (''frame_runtime'', sfj_frame j frame),
                        (''readiness_state'', sfj_readiness j readiness),
                        (''integration_runtime'', sfj_integration j integration),
                        (''takeover_runtime'', sfj_takeover j (tks_projection (hss_takeover s)))]), s)
             | None \<Rightarrow>
                 (Inr (), refresh_takeover_runtime policy (clear_takeover_runtime_degraded s)))"

section \<open>Commands\<close>

datatype handoff_action = HandoffStatusAction | HandoffStart | HandoffComplete

datatype takeover_action = TakeoverStatusAction | TakeoverStart | TakeoverElevate | TakeoverResume

definition subcommand_arg :: "'n json \<Rightarrow> string \<Rightarrow> string" where
  "subcommand_arg args fallback = (case json_get_str args ''sub'' of Some v \<Rightarrow> v | None \<Rightarrow> fallback)"

definition handoff_action_parse :: "'n json \<Rightarrow> 'n rub_error + handoff_action" where
  "handoff_action_parse args =
     (let other = subcommand_arg args ''status'' in
      if other = ''status'' then Inr HandoffStatusAction
      else if other = ''start'' then Inr HandoffStart
      else if other = ''complete'' then Inr HandoffComplete
      else Inl (rub_domain InvalidInput
        (''Unknown handoff subcommand: '' @ [CHR 0x27] @ other @ [CHR 0x27])))"

definition takeover_action_parse :: "'n json \<Rightarrow> 'n rub_error + takeover_action" where
  "takeover_action_parse args =
     (let other = subcommand_arg args ''status'' in
      if other = ''status'' then Inr TakeoverStatusAction
      else if other = ''start'' then Inr TakeoverStart
      else if other = ''elevate'' then Inr TakeoverElevate
      else if other = ''resume'' then Inr TakeoverResume
      else Inl (rub_domain InvalidInput
        (''Unknown takeover subcommand: '' @ [CHR 0x27] @ other @ [CHR 0x27])))"

primrec takeover_action_kind :: "takeover_action \<Rightarrow> takeover_transition_kind" where
  "takeover_action_kind TakeoverStatusAction = TransitionStart"
| "takeover_action_kind TakeoverStart = TransitionStart"
| "takeover_action_kind TakeoverElevate = TransitionElevate"
| "takeover_action_kind TakeoverResume = TransitionResume"

primrec handoff_action_name :: "handoff_action \<Rightarrow> string" where
  "handoff_action_name HandoffStatusAction = ''status''"
| "handoff_action_name HandoffStart = ''start''"
| "handoff_action_name HandoffComplete = ''complete''"

primrec takeover_action_name :: "takeover_action \<Rightarrow> string" where
  "takeover_action_name TakeoverStatusAction = ''status''"
| "takeover_action_name TakeoverStart = ''start''"
| "takeover_action_name TakeoverElevate = ''elevate''"
| "takeover_action_name TakeoverResume = ''resume''"

definition ensure_handoff_available :: "human_session \<Rightarrow> 'n rub_error option" where
  "ensure_handoff_available s =
     (if hvi_status (hss_handoff s) = HandoffUnavailable
      then Some (rub_domain InvalidInput ''Human verification handoff is unavailable for this session'')
      else None)"

definition handoff_execute ::
  "handoff_action \<Rightarrow> launch_policy_info \<Rightarrow> human_session \<Rightarrow> ('n rub_error + unit) \<times> human_session" where
  "handoff_execute action policy s =
     (case action of
        HandoffStatusAction \<Rightarrow> (Inr (), s)
      | HandoffStart \<Rightarrow>
          (case ensure_handoff_available s of
             Some error \<Rightarrow> (Inl error, s)
           | None \<Rightarrow> (Inr (), refresh_takeover_runtime policy (activate_handoff s)))
      | HandoffComplete \<Rightarrow>
          (case ensure_handoff_available s of
             Some error \<Rightarrow> (Inl error, s)
           | None \<Rightarrow> (Inr (), refresh_takeover_runtime policy (complete_handoff s))))"

definition record_rejection :: "takeover_action \<Rightarrow> string option \<Rightarrow> human_session \<Rightarrow> human_session" where
  "record_rejection action reason s =
     record_takeover_transition (takeover_action_kind action) TransitionRejected reason s"

definition record_success :: "takeover_action \<Rightarrow> human_session \<Rightarrow> human_session" where
  "record_success action s =
     record_takeover_transition (takeover_action_kind action) TransitionSucceeded None s"

definition takeover_reject ::
  "takeover_action \<Rightarrow> string option \<Rightarrow> string \<Rightarrow> 'n json \<Rightarrow> human_session
   \<Rightarrow> ('n rub_error + unit) \<times> human_session" where
  "takeover_reject action reason message context s =
     (Inl (rub_domain_with_context InvalidInput message context), record_rejection action reason s)"

definition takeover_resume_repaused_error ::
  "'n surface_json \<Rightarrow> takeover_runtime_info \<Rightarrow> handoff_info \<Rightarrow> 'n rub_error option" where
  "takeover_resume_repaused_error j takeover handoff =
     (if \<not> tri_automation_paused takeover \<and> \<not> hvi_automation_paused handoff then None
      else Some (rub_domain_with_context AutomationPaused
        (''Session takeover resumed briefly but policy-driven handoff immediately re-paused '' @
         ''automation'')
        (JObject [(''takeover_runtime'', sfj_takeover j takeover),
                  (''handoff'', sfj_handoff j handoff)])))"

definition takeover_execute_start ::
  "'n surface_json \<Rightarrow> launch_policy_info \<Rightarrow> human_session \<Rightarrow> ('n rub_error + unit) \<times> human_session" where
  "takeover_execute_start j policy s =
     (let current = tks_projection (hss_takeover s) in
      if tri_status current \<notin> {TakeoverAvailable, TakeoverActive} then
        takeover_reject TakeoverStart (tri_unavailable_reason current)
          ''Session takeover is unavailable for this session''
          (JObject [(''takeover_runtime'', sfj_takeover j current)]) s
      else
        (Inr (), refresh_takeover_runtime policy (record_success TakeoverStart (activate_handoff s))))"

text \<open>The launch policy is read again after \<^verbatim>\<open>elevate_to_visible\<close>: \<open>elevated\<close> is the outcome of that
  call, with the policy the port reports from then on.\<close>

definition takeover_execute_elevate ::
  "'n surface_json \<Rightarrow> 'n rub_error + launch_policy_info \<Rightarrow> 'n live_probe \<Rightarrow> human_session
   \<Rightarrow> ('n rub_error + unit) \<times> human_session" where
  "takeover_execute_elevate j elevated probe s =
     (let current = tks_projection (hss_takeover s) in
      if \<not> tri_elevate_supported current then
        let reason = or_else (tri_unavailable_reason current) (Some ''elevation_not_supported'')
        in takeover_reject TakeoverElevate reason
             ''Session takeover elevation is unavailable for this session''
             (JObject [(''takeover_runtime'', sfj_takeover j current),
                       (''reason'', json_opt_str reason)]) s
      else
        let s = mark_takeover_runtime_degraded ''elevation_transition_unconfirmed'' s
        in case elevated of
             Inl error \<Rightarrow> (Inl error, record_rejection TakeoverElevate (Some ''elevation_failed'') s)
           | Inr policy \<Rightarrow>
               let s = refresh_takeover_runtime policy (set_handoff_available True s)
               in case verify_takeover_continuity j policy probe s of
                    (Inl error, s) \<Rightarrow>
                      (Inl error, record_rejection TakeoverElevate (Some ''continuity_fence_failed'') s)
                  | (Inr _, s) \<Rightarrow> (Inr (), record_success TakeoverElevate s))"

text \<open>\<open>meanwhile\<close> lists the policy-driven refreshes (what the classifier reported, with its policies)
  that other tasks may complete between the fence and the last look at the projections.\<close>

definition policy_driven_refreshes ::
  "launch_policy_info \<Rightarrow> (interference_kind option \<times> string list) list \<Rightarrow> human_session
   \<Rightarrow> human_session" where
  "policy_driven_refreshes policy meanwhile s =
     fold (\<lambda>(kind, policies). apply_policy_driven_handoff PolicyDrivenIntent kind policies policy)
       meanwhile s"

definition takeover_execute_resume ::
  "'n surface_json \<Rightarrow> launch_policy_info \<Rightarrow> 'n live_probe
   \<Rightarrow> (interference_kind option \<times> string list) list \<Rightarrow> human_session
   \<Rightarrow> ('n rub_error + unit) \<times> human_session" where
  "takeover_execute_resume j policy probe meanwhile s =
     (let current = tks_projection (hss_takeover s) in
      if \<not> tri_automation_paused current \<or> \<not> tri_resume_supported current then
        let reason = (if \<not> tri_resume_supported current
              then or_else (tri_unavailable_reason current) (Some ''resume_not_supported'')
              else Some ''takeover_not_active'')
        in takeover_reject TakeoverResume reason
             ''Session takeover resume is unavailable for this session''
             (JObject [(''takeover_runtime'', sfj_takeover j current),
                       (''reason'', json_opt_str reason)]) s
      else
        let s = mark_takeover_runtime_degraded ''resume_continuity_unconfirmed'' s;
            s = complete_handoff s;
            s = record_success TakeoverResume s;
            s = refresh_takeover_runtime policy s
        in case verify_takeover_continuity j policy probe s of
             (Inl error, s) \<Rightarrow>
               (Inl error, record_rejection TakeoverResume (Some ''continuity_fence_failed'')
                  (refresh_takeover_runtime policy (activate_handoff s)))
           | (Inr _, s) \<Rightarrow>
               let s = policy_driven_refreshes policy meanwhile s
               in case takeover_resume_repaused_error j (tks_projection (hss_takeover s))
                         (hss_handoff s) of
                    Some error \<Rightarrow>
                      (Inl error, record_rejection TakeoverResume
                         (Some ''automation_repaused_by_policy'') s)
                  | None \<Rightarrow> (Inr (), s))"

definition takeover_execute ::
  "'n surface_json \<Rightarrow> takeover_action \<Rightarrow> launch_policy_info \<Rightarrow> 'n rub_error + launch_policy_info
   \<Rightarrow> 'n live_probe \<Rightarrow> (interference_kind option \<times> string list) list \<Rightarrow> human_session
   \<Rightarrow> ('n rub_error + unit) \<times> human_session" where
  "takeover_execute j action policy elevated probe meanwhile s =
     (case action of
        TakeoverStatusAction \<Rightarrow> (Inr (), s)
      | TakeoverStart \<Rightarrow> takeover_execute_start j policy s
      | TakeoverElevate \<Rightarrow> takeover_execute_elevate j elevated probe s
      | TakeoverResume \<Rightarrow> takeover_execute_resume j policy probe meanwhile s)"

definition runtime_projection_state :: "string \<Rightarrow> string \<Rightarrow> 'n json" where
  "runtime_projection_state surface projection_authority =
     JObject [(''surface'', JString surface), (''truth_level'', JString ''operator_projection''),
       (''projection_kind'', JString ''live_runtime_projection''),
       (''projection_authority'', JString projection_authority),
       (''upstream_truth'', JString ''session_live_runtime_state''),
       (''control_role'', JString ''display_only''), (''durability'', JString ''best_effort'')]"

definition runtime_surface_payload :: "'n json \<Rightarrow> 'n json \<Rightarrow> 'n json \<Rightarrow> 'n json" where
  "runtime_surface_payload subject projection_state runtime =
     JObject [(''subject'', subject), (''runtime_projection_state'', projection_state),
       (''runtime'', runtime)]"

definition cmd_handoff ::
  "'n surface_json \<Rightarrow> launch_policy_info \<Rightarrow> 'n json \<Rightarrow> human_session
   \<Rightarrow> ('n rub_error + 'n json) \<times> human_session" where
  "cmd_handoff j policy args s =
     (let s = refresh_takeover_runtime policy s in
      case handoff_action_parse args of
        Inl error \<Rightarrow> (Inl error, s)
      | Inr action \<Rightarrow>
          (case handoff_execute action policy s of
             (Inl error, s) \<Rightarrow> (Inl error, s)
           | (Inr _, s) \<Rightarrow>
               (Inr (runtime_surface_payload
                  (JObject [(''kind'', JString ''human_verification_handoff''),
                            (''action'', JString (handoff_action_name action))])
                  (runtime_projection_state ''handoff'' ''session.human_verification_handoff'')
                  (sfj_handoff j (hss_handoff s))), s)))"

definition cmd_takeover ::
  "'n surface_json \<Rightarrow> launch_policy_info \<Rightarrow> 'n rub_error + launch_policy_info \<Rightarrow> 'n live_probe
   \<Rightarrow> (interference_kind option \<times> string list) list \<Rightarrow> 'n json \<Rightarrow> human_session
   \<Rightarrow> ('n rub_error + 'n json) \<times> human_session" where
  "cmd_takeover j policy elevated probe meanwhile args s =
     (let s = refresh_takeover_runtime policy s in
      case takeover_action_parse args of
        Inl error \<Rightarrow> (Inl error, s)
      | Inr action \<Rightarrow>
          (case takeover_execute j action policy elevated probe meanwhile s of
             (Inl error, s) \<Rightarrow> (Inl error, s)
           | (Inr _, s) \<Rightarrow>
               (Inr (runtime_surface_payload
                  (JObject [(''kind'', JString ''takeover''),
                            (''action'', JString (takeover_action_name action))])
                  (runtime_projection_state ''takeover'' ''session.takeover_runtime'')
                  (sfj_takeover j (tks_projection (hss_takeover s)))), s)))"

definition human_control :: "human_session \<Rightarrow> bool" where
  "human_control s = has_active_human_control (hss_handoff s) (hss_takeover s)"

section \<open>What each step touches\<close>

lemma takeover_refresh_simps [simp]:
  "tri_automation_paused (tks_projection (takeover_refresh policy h t)) = hvi_automation_paused h"
  "tri_resume_supported (tks_projection (takeover_refresh policy h t)) =
     (hvi_resume_supported h \<and> session_is_user_accessible policy)"
  "tri_elevate_supported (tks_projection (takeover_refresh policy h t)) =
     session_supports_elevation policy"
  "tri_status (tks_projection (takeover_refresh policy h t)) = TakeoverActive \<longleftrightarrow>
     session_is_user_accessible policy \<and> hvi_status h = HandoffActive \<and> tks_degraded_reason t = None"
  "tks_degraded_reason (takeover_refresh policy h t) = tks_degraded_reason t"
  by (simp_all add: takeover_refresh_def Let_def split: option.split handoff_status.split)

lemma takeover_step_simps [simp]:
  "tks_degraded_reason (takeover_mark_degraded text t) = Some text"
  "tks_degraded_reason (takeover_clear_degraded t) = None"
  "tks_degraded_reason (takeover_record_transition kind result reason t) = tks_degraded_reason t"
  "tri_automation_paused (tks_projection (takeover_record_transition kind result reason t)) =
     tri_automation_paused (tks_projection t)"
  "tri_status (tks_projection (takeover_record_transition kind result reason t)) =
     tri_status (tks_projection t)"
  by (simp_all add: takeover_mark_degraded_def takeover_clear_degraded_def
      takeover_record_transition_def)

lemma handoff_step_simps [simp]:
  "hvi_automation_paused (handoff_activate h)" "\<not> hvi_automation_paused (handoff_complete h)"
  "hvi_status (handoff_activate h) = HandoffActive"
  "hvi_status (handoff_complete h) = HandoffCompleted"
  by (simp_all add: handoff_activate_def handoff_complete_def)

lemmas session_step_defs = refresh_takeover_runtime_def activate_handoff_def complete_handoff_def
  set_handoff_available_def mark_takeover_runtime_degraded_def clear_takeover_runtime_degraded_def
  record_takeover_transition_def record_rejection_def record_success_def

lemma live_refresh_simps [simp]:
  "hss_handoff (refresh_live_runtime_state probe s) = hss_handoff s"
  "hss_handoff (refresh_live_frame_runtime probe s) = hss_handoff s"
  "hss_handoff (refresh_live_storage_runtime probe s) = hss_handoff s"
  "hss_frame_runtime (refresh_live_storage_runtime probe s) = hss_frame_runtime s"
  "hss_runtime_state (refresh_live_storage_runtime probe s) = hss_runtime_state s"
  "hss_integration (refresh_live_storage_runtime probe s) = hss_integration s"
  "hss_observatory (refresh_live_storage_runtime probe s) = hss_observatory s"
  "hss_observatory_ingress (refresh_live_storage_runtime probe s) = hss_observatory_ingress s"
  "hss_request_ingress (refresh_live_storage_runtime probe s) = hss_request_ingress s"
  by (simp_all add: refresh_live_runtime_state_def refresh_live_frame_runtime_def
      refresh_live_storage_runtime_def Let_def split: sum.split option.split)

lemma live_refresh_update [simp]:
  "refresh_live_runtime_state probe (s\<lparr>hss_handoff := h\<rparr>) =
     (refresh_live_runtime_state probe s)\<lparr>hss_handoff := h\<rparr>"
  "refresh_live_runtime_state probe (s\<lparr>hss_takeover := t\<rparr>) =
     (refresh_live_runtime_state probe s)\<lparr>hss_takeover := t\<rparr>"
  "refresh_live_frame_runtime probe (s\<lparr>hss_handoff := h\<rparr>) =
     (refresh_live_frame_runtime probe s)\<lparr>hss_handoff := h\<rparr>"
  "refresh_live_frame_runtime probe (s\<lparr>hss_takeover := t\<rparr>) =
     (refresh_live_frame_runtime probe s)\<lparr>hss_takeover := t\<rparr>"
  by (simp_all add: refresh_live_runtime_state_def refresh_live_frame_runtime_def Let_def
      split: sum.split)

text \<open>The continuity fence as a condition on the answers of the browser and the surfaces before them.\<close>

definition continuity_fence :: "'n live_probe \<Rightarrow> human_session \<Rightarrow> bool" where
  "continuity_fence probe s =
     (case lpr_tabs probe of
        Inl error \<Rightarrow> False
      | Inr tabs \<Rightarrow>
          let s = refresh_live_frame_runtime probe (refresh_live_runtime_state probe s)
          in takeover_continuity_failure (list_ex tab_active tabs)
               (frs_projection (hss_frame_runtime s)) (rsp_readiness (hss_runtime_state s))
               (session_integration_runtime s) = None)"

lemma session_integration_simps [simp]:
  "session_integration_runtime (s\<lparr>hss_takeover := t\<rparr>) = session_integration_runtime s"
  "session_integration_runtime (refresh_live_storage_runtime probe s) = session_integration_runtime s"
  by (simp_all add: session_integration_runtime_def)

lemma integration_handoff_irrelevant:
  "iri_status (integration_runtime a b i obs rs h) = iri_status (integration_runtime a b i obs rs h')"
  "iri_degraded_surfaces (integration_runtime a b i obs rs h) =
     iri_degraded_surfaces (integration_runtime a b i obs rs h')"
  by (simp_all add: integration_runtime_def derive_integration_runtime_surfaces_def Let_def)

lemma continuity_failure_cong:
  "iri_status i = iri_status i' \<Longrightarrow> iri_degraded_surfaces i = iri_degraded_surfaces i' \<Longrightarrow>
     takeover_continuity_failure a f r i = takeover_continuity_failure a f r i'"
  by (simp add: takeover_continuity_failure_def)

lemma continuity_fence_update [simp]:
  "continuity_fence probe (s\<lparr>hss_takeover := t\<rparr>) = continuity_fence probe s"
  "continuity_fence probe (s\<lparr>hss_handoff := h\<rparr>) = continuity_fence probe s"
proof -
  show "continuity_fence probe (s\<lparr>hss_takeover := t\<rparr>) = continuity_fence probe s"
    by (simp add: continuity_fence_def session_integration_runtime_def Let_def split: sum.split)
  let ?s = "refresh_live_frame_runtime probe (refresh_live_runtime_state probe s)"
  have "takeover_continuity_failure a f r (session_integration_runtime (?s\<lparr>hss_handoff := h\<rparr>)) =
      takeover_continuity_failure a f r (session_integration_runtime ?s)" for a f r
    unfolding session_integration_runtime_def
    by (rule continuity_failure_cong) (simp_all, (rule integration_handoff_irrelevant)+)
  then show "continuity_fence probe (s\<lparr>hss_handoff := h\<rparr>) = continuity_fence probe s"
    by (simp add: continuity_fence_def Let_def split: sum.split)
qed

lemma verify_takeover_continuity_cases:
  "if continuity_fence probe s
   then \<exists>s' t. verify_takeover_continuity j policy probe s = (Inr (), s') \<and>
     hss_handoff s' = hss_handoff s \<and> hss_takeover s' = takeover_refresh policy (hss_handoff s) t \<and>
     tks_degraded_reason t = None
   else \<exists>error s'. verify_takeover_continuity j policy probe s = (Inl error, s') \<and>
     hss_handoff s' = hss_handoff s \<and> tks_degraded_reason (hss_takeover s') \<noteq> None"
proof (cases "lpr_tabs probe")
  case (Inl error)
  then show ?thesis
    by (simp add: continuity_fence_def verify_takeover_continuity_def session_step_defs
        refresh_live_runtime_and_interference_def refresh_live_interference_state_def)
next
  case (Inr tabs)
  let ?s = "refresh_live_frame_runtime probe (refresh_live_runtime_state probe s)"
  have r: "refresh_live_runtime_and_interference ReadOnlyIntent policy probe s =
      (Inr tabs, refresh_takeover_runtime policy (refresh_live_storage_runtime probe ?s))"
    using Inr by (simp add: refresh_live_runtime_and_interference_def
        refresh_live_interference_state_def apply_policy_driven_handoff_def)
  show ?thesis
    using Inr
    by (auto simp: continuity_fence_def verify_takeover_continuity_def r Let_def session_step_defs
        split: option.split intro!: exI [of _ "takeover_clear_degraded _"])
qed

lemma policy_driven_refreshes_cases:
  assumes "hvi_status (hss_handoff s) = HandoffCompleted"
  shows "if \<exists>(kind, policies) \<in> set meanwhile. should_escalate kind policies
    then hvi_automation_paused (hss_handoff (policy_driven_refreshes policy meanwhile s))
    else policy_driven_refreshes policy meanwhile s = s"
proof -
  have active: "policy_driven_refreshes policy ms t = t"
    if "hvi_status (hss_handoff t) = HandoffActive" for ms and t :: human_session
    using that by (induction ms) (auto simp: policy_driven_refreshes_def apply_policy_driven_handoff_def)
  show ?thesis
  proof (induction meanwhile)
    case Nil
    then show ?case by (simp add: policy_driven_refreshes_def)
  next
    case (Cons m ms)
    obtain kind policies where m: "m = (kind, policies)" by (cases m)
    show ?case
    proof (cases "should_escalate kind policies")
      case True
      let ?t = "refresh_takeover_runtime policy (activate_handoff s)"
      have "policy_driven_refreshes policy (m # ms) s = policy_driven_refreshes policy ms ?t"
        using True assms by (simp add: m policy_driven_refreshes_def apply_policy_driven_handoff_def)
      also have "\<dots> = ?t" by (rule active) (simp add: session_step_defs)
      finally show ?thesis using True m by (simp add: session_step_defs)
    next
      case False
      then have "policy_driven_refreshes policy (m # ms) s = policy_driven_refreshes policy ms s"
        by (simp add: m policy_driven_refreshes_def apply_policy_driven_handoff_def)
      then show ?thesis using Cons False m by simp
    qed
  qed
qed

text \<open>Resume from a paused session: it succeeds under exactly four conditions, and otherwise the
  session is still held by the human.\<close>

lemma takeover_resume_cases:
  assumes "hvi_automation_paused (hss_handoff s)"
    and "tri_automation_paused (tks_projection (hss_takeover s))"
    and "tri_resume_supported (tks_projection (hss_takeover s)) \<longleftrightarrow> ok"
  shows "if ok \<and> continuity_fence probe s \<and>
      \<not> (\<exists>(kind, policies) \<in> set meanwhile. should_escalate kind policies)
    then \<exists>s'. takeover_execute_resume j policy probe meanwhile s = (Inr (), s') \<and>
      hvi_status (hss_handoff s') = HandoffCompleted \<and> \<not> human_control s' \<and>
      tks_degraded_reason (hss_takeover s') = None
    else \<exists>error s'. takeover_execute_resume j policy probe meanwhile s = (Inl error, s') \<and>
      hvi_automation_paused (hss_handoff s')"
proof (cases ok)
  case False
  then show ?thesis
    using assms by (simp add: takeover_execute_resume_def takeover_reject_def Let_def session_step_defs)
next
  case True
  let ?s = "refresh_takeover_runtime policy (record_success TakeoverResume
    (complete_handoff (mark_takeover_runtime_degraded ''resume_continuity_unconfirmed'' s)))"
  have step: "takeover_execute_resume j policy probe meanwhile s =
      (case verify_takeover_continuity j policy probe ?s of
         (Inl error, s) \<Rightarrow>
           (Inl error, record_rejection TakeoverResume (Some ''continuity_fence_failed'')
              (refresh_takeover_runtime policy (activate_handoff s)))
       | (Inr _, s) \<Rightarrow>
           let s = policy_driven_refreshes policy meanwhile s
           in case takeover_resume_repaused_error j (tks_projection (hss_takeover s)) (hss_handoff s) of
                Some error \<Rightarrow> (Inl error, record_rejection TakeoverResume
                  (Some ''automation_repaused_by_policy'') s)
              | None \<Rightarrow> (Inr (), s))"
    using assms True by (simp add: takeover_execute_resume_def Let_def)
  have f: "continuity_fence probe ?s = continuity_fence probe s"
    and h: "hss_handoff ?s = handoff_complete (hss_handoff s)"
    by (simp_all add: session_step_defs)
  show ?thesis
  proof (cases "continuity_fence probe s")
    case False
    then obtain error s' where "verify_takeover_continuity j policy probe ?s = (Inl error, s')"
      using verify_takeover_continuity_cases [of probe ?s j policy] f by auto
    then show ?thesis using False by (simp add: step session_step_defs)
  next
    case fence: True
    then obtain s' t where v: "verify_takeover_continuity j policy probe ?s = (Inr (), s')"
        "hss_handoff s' = handoff_complete (hss_handoff s)"
        "hss_takeover s' = takeover_refresh policy (handoff_complete (hss_handoff s)) t"
        "tks_degraded_reason t = None"
      using verify_takeover_continuity_cases [of probe ?s j policy] f h by auto
    have p: "if \<exists>(kind, policies) \<in> set meanwhile. should_escalate kind policies
        then hvi_automation_paused (hss_handoff (policy_driven_refreshes policy meanwhile s'))
        else policy_driven_refreshes policy meanwhile s' = s'"
      by (rule policy_driven_refreshes_cases) (simp add: v)
    show ?thesis
    proof (cases "\<exists>(kind, policies) \<in> set meanwhile. should_escalate kind policies")
      case True
      then show ?thesis
        using p by (simp only: step v) (simp add: takeover_resume_repaused_error_def Let_def
            session_step_defs)
    next
      case False
      then have same: "policy_driven_refreshes policy meanwhile s' = s'" using p by simp
      have "takeover_execute_resume j policy probe meanwhile s = (Inr (), s')"
        by (simp add: step v(1) same takeover_resume_repaused_error_def v(2,3))
      then show ?thesis
        using False fence \<open>ok\<close> v(2,3,4)
        by (simp add: human_control_def has_active_human_control_def is_handoff_active_def)
    qed
  qed
qed

section \<open>Properties\<close>


text \<open>A headed session whose handoff is active, one live tab and its top frame.\<close>

definition example_session :: human_session where
  "example_session = \<lparr>hss_handoff = \<lparr>hvi_status = HandoffActive, hvi_automation_paused = True,
       hvi_resume_supported = True, hvi_unavailable_reason = None\<rparr>,
     hss_takeover = \<lparr>tks_projection = \<lparr>tri_status = TakeoverActive,
         tri_session_accessibility = UserAccessible, tri_visibility_mode = VisibilityHeaded,
         tri_elevate_supported = False, tri_resume_supported = True, tri_automation_paused = True,
         tri_unavailable_reason = None, tri_last_transition = None\<rparr>, tks_degraded_reason = None\<rparr>,
     hss_frame_runtime = \<lparr>frs_selected_frame_id = None, frs_projection = frame_runtime_info_default\<rparr>,
     hss_storage_runtime = \<lparr>srs_next_sequence = 0, srs_projection = storage_runtime_info_default,
       srs_recent_mutations = []\<rparr>,
     hss_runtime_state = runtime_state_default, hss_next_runtime_state_sequence = 1,
     hss_integration = \<lparr>iri_mode = IntegrationNormal, iri_status = IntegrationInactive,
       iri_request_rule_count = 0, iri_request_rules = [], iri_active_surfaces = [],
       iri_degraded_surfaces = [], iri_observatory_ready = False, iri_readiness_ready = False,
       iri_state_inspector_ready = False, iri_handoff_ready = False\<rparr>,
     hss_observatory = runtime_observatory_default, hss_observatory_ingress = 0,
     hss_request_ingress = 0\<rparr>"

definition example_probe :: "nat live_probe" where
  "example_probe = \<lparr>lpr_runtime_state = Inr \<lparr>rss_state_inspector = state_inspector_info_default,
       rss_readiness_state = readiness_info_default\<rparr>,
     lpr_frames = Inr [\<lparr>fie_index = 0, fie_frame = \<lparr>fci_frame_id = ''top'', fci_name = None,
       fci_parent_frame_id = None, fci_target_id = None, fci_url = None, fci_depth = 0,
       fci_same_origin_accessible = None\<rparr>, fie_is_current = True, fie_is_primary = True\<rparr>],
     lpr_storage_frames = Inr [], lpr_storage = (\<lambda>_. Inl (RubInternal ''no storage'')),
     lpr_tabs = Inr [\<lparr>tab_index = 0, tab_target_id = ''t'', tab_url = ''https://a'', tab_title = [],
       tab_active = True, tab_active_authority = None, tab_degraded_reason = None\<rparr>],
     lpr_interference = None, lpr_policies = []\<rparr>"

lemma example_fence: "continuity_fence example_probe example_session"
  by (simp add: continuity_fence_def example_probe_def example_session_def
      refresh_live_runtime_state_def refresh_live_frame_runtime_def Let_def
      takeover_continuity_failure_def apply_inventory_def primary_entry_def or_else_def
      publish_runtime_state_snapshot_def publish_runtime_state_snapshot_if_def
      runtime_state_replace_def runtime_state_default_def readiness_info_default_def
      session_integration_runtime_def integration_runtime_def sync_request_rule_count_def
      derive_integration_runtime_surfaces_def derive_integration_runtime_status_def
      runtime_state_snapshot_of_def state_inspector_info_default_def projected_observatory_def
      observatory_drop_counts_of_def projection_with_drop_count_def runtime_observatory_default_def)


end
