(* ===== verification/Rub_Interference.thy ===== *)
theory Rub_Interference
  imports Rub_Takeover
begin

text \<open>
  Public-web interference: the runtime surface (interference.rs, interference/baseline.rs,
  interference/recovery.rs), the classifier (interference_classifier.rs) and its policies
  (interference_policy.rs), the safe recovery (interference_recovery.rs) on top of the live refresh
  (runtime_refresh/interference.rs), and the command (router/interference.rs).

  A session is the human session of the takeover commands with the interference surface. One live
  refresh receives the answers of a \<open>live_probe\<close>; what the classifier makes of them is computed here.
  The recovery receives the answers of the browser to its actions as \<open>recovery_answers\<close>, and the
  refreshes of its polling loop as a list with the time each one ends, in milliseconds after the
  action; a run that needs more polls than the list holds has no result yet.
\<close>

section \<open>The surface\<close>

datatype interference_mode = NormalMode | PublicWebStableMode | StrictMode

datatype interference_runtime_status = InterferenceInactive | InterferenceActive | InterferenceDegraded

datatype interference_recovery_action =
    BackNavigate | CloseUnexpectedTab | RestorePrimaryContext | DismissOverlay | EscalateToHandoff

datatype interference_recovery_result = RecoverySucceeded | RecoveryFailed | RecoveryAbandoned
  | RecoveryEscalated

record interference_observation =
  iob_kind :: interference_kind
  iob_summary :: string
  iob_current_url :: "string option"
  iob_primary_url :: "string option"

record interference_runtime_info =
  inf_mode :: interference_mode
  inf_status :: interference_runtime_status
  inf_current_interference :: "interference_observation option"
  inf_last_interference :: "interference_observation option"
  inf_active_policies :: "string list"
  inf_recovery_in_progress :: bool
  inf_last_recovery_action :: "interference_recovery_action option"
  inf_last_recovery_result :: "interference_recovery_result option"
  inf_handoff_required :: bool
  inf_degraded_reason :: "string option"

definition interference_runtime_info_default :: interference_runtime_info where
  "interference_runtime_info_default = \<lparr>inf_mode = NormalMode,
     inf_status = InterferenceInactive, inf_current_interference = None,
     inf_last_interference = None, inf_active_policies = [], inf_recovery_in_progress = False,
     inf_last_recovery_action = None, inf_last_recovery_result = None, inf_handoff_required = False,
     inf_degraded_reason = None\<rparr>"

record interference_recovery_report =
  irr_attempted :: bool
  irr_action :: "interference_recovery_action option"
  irr_result :: "interference_recovery_result option"
  irr_fence_satisfied :: bool
  irr_reason :: "string option"

definition interference_recovery_report_default :: interference_recovery_report where
  "interference_recovery_report_default = \<lparr>irr_attempted = False, irr_action = None,
     irr_result = None, irr_fence_satisfied = False, irr_reason = None\<rparr>"

record interference_baseline =
  ibl_primary_target_id :: "string option"
  ibl_primary_url :: "string option"
  ibl_last_tab_count :: nat

record interference_runtime_state =
  irs_projection :: interference_runtime_info
  irs_baseline :: interference_baseline

definition interference_runtime_default :: interference_runtime_state where
  "interference_runtime_default = \<lparr>irs_projection = interference_runtime_info_default,
     irs_baseline = \<lparr>ibl_primary_target_id = None, ibl_primary_url = None, ibl_last_tab_count = 0\<rparr>\<rparr>"

record interference_recovery_context =
  irc_baseline :: interference_baseline
  irc_projection :: interference_runtime_info

fun active_policies_for_mode :: "interference_mode \<Rightarrow> string list" where
  "active_policies_for_mode NormalMode = []"
| "active_policies_for_mode PublicWebStableMode = [''safe_recovery'', ''handoff_escalation'']"
| "active_policies_for_mode StrictMode =
     [''safe_recovery'', ''handoff_escalation'', ''strict_containment'']"

section \<open>The classifier\<close>

definition web_host_of :: "string \<Rightarrow> string option" where
  "web_host_of url =
     (case split_once url ''://'' of
        None \<Rightarrow> None
      | Some (scheme, rest) \<Rightarrow>
          if scheme \<noteq> ''http'' \<and> scheme \<noteq> ''https'' then None
          else
            let host = split_first (CHR 0x3A) (split_last (CHR 0x40) (split_first (CHR 0x2F) rest))
            in if host = [] then None else Some host)"

definition human_verification_needles :: "string list" where
  "human_verification_needles = [''captcha'', ''recaptcha'', ''hcaptcha'', ''turnstile'',
     ''cf-challenge'', ''verify you are human'', ''human verification'', ''are you human'']"

definition has_human_verification_hint ::
  "string option \<Rightarrow> string option \<Rightarrow> readiness_info \<Rightarrow> handoff_info \<Rightarrow> bool" where
  "has_human_verification_hint current_url title readiness handoff \<longleftrightarrow>
     hvi_status handoff = HandoffActive \<or>
     (let haystack = to_ascii_lowercase (case_option [] id current_url @ '' '' @ case_option [] id title)
      in list_ex (contains_str haystack) human_verification_needles) \<or>
     list_ex (\<lambda>signal. contains_str signal ''human_verification'') (rdi_blocking_signals readiness)"

definition is_popup_hijack :: "tab_info \<Rightarrow> string option \<Rightarrow> nat \<Rightarrow> bool" where
  "is_popup_hijack active_tab primary_target_id previous_tab_count =
     (case primary_target_id of
        None \<Rightarrow> False
      | Some primary \<Rightarrow> tab_target_id active_tab \<noteq> primary \<and> previous_tab_count > 0)"

definition has_overlay_interference :: "readiness_info \<Rightarrow> bool" where
  "has_overlay_interference readiness \<longleftrightarrow> rdi_overlay_state readiness \<noteq> OverlayNone \<or>
     list_ex (\<lambda>signal. starts_with signal ''overlay:'') (rdi_blocking_signals readiness)"

definition has_interstitial_navigation_hint ::
  "string option \<Rightarrow> string option \<Rightarrow> string option \<Rightarrow> bool" where
  "has_interstitial_navigation_hint current_url title primary_url =
     (case current_url of
        None \<Rightarrow> False
      | Some current \<Rightarrow>
          if primary_url = Some current then False
          else
            let haystack = to_ascii_lowercase (current @ '' '' @ case_option [] id title)
            in list_ex (contains_str haystack) [''interstitial'', ''vignette'', ''redirect notice''])"

record third_party_noise_stats =
  tps_failures :: nat
  tps_requests :: nat
  tps_unique_hosts :: nat

definition third_party_hosts :: "string \<Rightarrow> string list \<Rightarrow> string list" where
  "third_party_hosts primary_host urls =
     filter (\<lambda>host. host \<noteq> primary_host) (List.map_filter web_host_of urls)"

definition third_party_noise_stats_of ::
  "runtime_observatory_info \<Rightarrow> string option \<Rightarrow> third_party_noise_stats" where
  "third_party_noise_stats_of observatory primary_url =
     (case Option.bind primary_url web_host_of of
        None \<Rightarrow> \<lparr>tps_failures = 0, tps_requests = 0, tps_unique_hosts = 0\<rparr>
      | Some primary_host \<Rightarrow>
          let failed = third_party_hosts primary_host
                (map nfe_url (roi_recent_network_failures observatory));
              requested = third_party_hosts primary_host
                (map rse_url (roi_recent_requests observatory))
          in \<lparr>tps_failures = length failed, tps_requests = length requested,
              tps_unique_hosts = length (remdups (failed @ requested))\<rparr>)"

definition is_readiness_stable_for_noise :: "readiness_info \<Rightarrow> bool" where
  "is_readiness_stable_for_noise readiness \<longleftrightarrow>
     rdi_overlay_state readiness = OverlayNone \<and> rdi_blocking_signals readiness = [] \<and>
     (case rdi_document_ready_state readiness of
        None \<Rightarrow> True | Some ready \<Rightarrow> to_ascii_lowercase ready = ''complete'')"

definition observation_kind :: "interference_observation option \<Rightarrow> interference_kind option" where
  "observation_kind observation = map_option iob_kind observation"

definition has_third_party_noise ::
  "interference_runtime_info \<Rightarrow> runtime_observatory_info \<Rightarrow> readiness_info \<Rightarrow> string option \<Rightarrow> bool" where
  "has_third_party_noise current observatory readiness primary_url =
     (let stats = third_party_noise_stats_of observatory primary_url;
          prior_noise = (observation_kind (inf_current_interference current) = Some ThirdPartyNoise \<or>
            observation_kind (inf_last_interference current) = Some ThirdPartyNoise)
      in
      if \<not> is_readiness_stable_for_noise readiness then False
      else if tps_failures stats \<ge> 5 \<and> tps_unique_hosts stats \<ge> 4 then True
      else prior_noise \<and>
        ((tps_failures stats \<ge> 2 \<and> tps_unique_hosts stats \<ge> 2) \<or>
         (tps_requests stats \<ge> 8 \<and> tps_unique_hosts stats \<ge> 4)))"

definition has_unknown_navigation_drift :: "string option \<Rightarrow> string option \<Rightarrow> bool" where
  "has_unknown_navigation_drift current_url primary_url =
     (case (current_url, primary_url) of
        (Some current, Some primary) \<Rightarrow>
          if current = primary then False
          else
            let current = to_ascii_lowercase current
            in starts_with current ''about:blank'' \<or> starts_with current ''chrome-error://'' \<or>
               starts_with current ''about:srcdoc'' \<or> starts_with current ''chrome://newtab''
      | _ \<Rightarrow> False)"

definition find_active_tab :: "tab_info list \<Rightarrow> tab_info option" where
  "find_active_tab tabs = List.find tab_active tabs"

definition authoritative_url :: "tab_info \<Rightarrow> string option" where
  "authoritative_url tab = (if page_identity_authoritative tab then Some (tab_url tab) else None)"

definition classify_observation ::
  "interference_runtime_info \<Rightarrow> tab_info option \<Rightarrow> interference_baseline \<Rightarrow> runtime_observatory_info
   \<Rightarrow> readiness_info \<Rightarrow> handoff_info \<Rightarrow> interference_observation option" where
  "classify_observation current active_tab baseline observatory readiness handoff =
     (case active_tab of
        None \<Rightarrow> None
      | Some tab \<Rightarrow>
          let current_url = authoritative_url tab;
              title = (if page_identity_authoritative tab then Some (tab_title tab) else None);
              primary_url = ibl_primary_url baseline;
              observed = (\<lambda>kind summary. Some \<lparr>iob_kind = kind, iob_summary = summary,
                iob_current_url = current_url, iob_primary_url = primary_url\<rparr>)
          in
          if has_human_verification_hint current_url title readiness handoff then
            observed HumanVerificationRequired ''human verification checkpoint detected''
          else if is_popup_hijack tab (ibl_primary_target_id baseline) (ibl_last_tab_count baseline) then
            observed PopupHijack ''unexpected active tab drift with additional tab(s) detected''
          else if has_overlay_interference readiness then
            observed OverlayInterference ''overlay-related blocking signals detected''
          else if has_interstitial_navigation_hint current_url title primary_url then
            observed InterstitialNavigation ''interstitial-like navigation drift detected''
          else if has_third_party_noise current observatory readiness (or_else primary_url current_url) then
            observed ThirdPartyNoise ''heavy unrelated third-party request noise detected''
          else if has_unknown_navigation_drift current_url primary_url then
            observed UnknownNavigationDrift ''unexpected navigation drift detected''
          else None)"

definition classify ::
  "interference_runtime_info \<Rightarrow> interference_baseline \<Rightarrow> tab_info list \<Rightarrow> runtime_observatory_info
   \<Rightarrow> readiness_info \<Rightarrow> handoff_info \<Rightarrow> interference_runtime_info \<times> interference_baseline" where
  "classify current baseline tabs observatory readiness handoff =
     (let next_observation = classify_observation current (find_active_tab tabs) baseline observatory
            readiness handoff;
          projection = interference_runtime_info_default\<lparr>
            inf_mode := inf_mode current,
            inf_active_policies := active_policies_for_mode (inf_mode current),
            inf_last_interference :=
              or_else (inf_current_interference current) (inf_last_interference current),
            inf_last_recovery_action := inf_last_recovery_action current,
            inf_last_recovery_result := inf_last_recovery_result current,
            inf_recovery_in_progress := inf_recovery_in_progress current,
            inf_handoff_required :=
              (observation_kind next_observation = Some HumanVerificationRequired \<or>
               inf_handoff_required current),
            inf_degraded_reason := None\<rparr>;
          next_baseline = baseline\<lparr>ibl_last_tab_count := length tabs\<rparr>;
          projection = (case next_observation of
              Some observation \<Rightarrow> projection\<lparr>inf_status := InterferenceActive,
                inf_current_interference := Some observation\<rparr>
            | None \<Rightarrow> projection\<lparr>inf_status := InterferenceInactive,
                inf_current_interference := None, inf_handoff_required := False\<rparr>);
          projection = (case inf_current_interference projection of
              Some observation \<Rightarrow> projection\<lparr>inf_last_interference := Some observation\<rparr>
            | None \<Rightarrow> projection)
      in (projection, next_baseline))"

section \<open>Operations of the surface\<close>

definition interference_replace ::
  "interference_runtime_info \<Rightarrow> interference_runtime_state \<Rightarrow> interference_runtime_state" where
  "interference_replace projection s = s\<lparr>irs_projection := projection\<rparr>"

definition set_mode ::
  "interference_mode \<Rightarrow> interference_runtime_state \<Rightarrow> interference_runtime_state" where
  "set_mode mode s = s\<lparr>irs_projection := (irs_projection s)\<lparr>inf_mode := mode,
     inf_active_policies := active_policies_for_mode mode\<rparr>\<rparr>"

definition adopt_primary_context_from_tabs ::
  "tab_info list \<Rightarrow> interference_runtime_state \<Rightarrow> interference_runtime_state" where
  "adopt_primary_context_from_tabs tabs s =
     (case find_active_tab tabs of
        None \<Rightarrow> s
      | Some tab \<Rightarrow> s\<lparr>irs_baseline := \<lparr>ibl_primary_target_id = Some (tab_target_id tab),
          ibl_primary_url = authoritative_url tab, ibl_last_tab_count = length tabs\<rparr>\<rparr>)"

definition prime_baseline_from_tabs ::
  "tab_info list \<Rightarrow> interference_runtime_state \<Rightarrow> interference_runtime_state" where
  "prime_baseline_from_tabs tabs s =
     (if ibl_primary_target_id (irs_baseline s) \<noteq> None \<or> ibl_primary_url (irs_baseline s) \<noteq> None then s
      else case find_active_tab tabs of
        None \<Rightarrow> s
      | Some tab \<Rightarrow> s\<lparr>irs_baseline := \<lparr>ibl_primary_target_id = Some (tab_target_id tab),
          ibl_primary_url = authoritative_url tab, ibl_last_tab_count = length tabs\<rparr>\<rparr>)"

definition state_classify ::
  "tab_info list \<Rightarrow> runtime_observatory_info \<Rightarrow> readiness_info \<Rightarrow> handoff_info
   \<Rightarrow> interference_runtime_state \<Rightarrow> interference_runtime_state" where
  "state_classify tabs observatory readiness handoff s =
     (let (projection, baseline) = classify (irs_projection s) (irs_baseline s) tabs observatory
            readiness handoff;
          s = s\<lparr>irs_projection := projection, irs_baseline := baseline\<rparr>
      in if ibl_primary_target_id (irs_baseline s) = None \<and> ibl_primary_url (irs_baseline s) = None \<and>
            inf_status (irs_projection s) = InterferenceInactive
         then prime_baseline_from_tabs tabs s else s)"

definition recovery_context :: "interference_runtime_state \<Rightarrow> interference_recovery_context" where
  "recovery_context s = \<lparr>irc_baseline = irs_baseline s, irc_projection = irs_projection s\<rparr>"

definition begin_recovery ::
  "interference_recovery_action \<Rightarrow> interference_runtime_state \<Rightarrow> interference_runtime_state" where
  "begin_recovery action s = s\<lparr>irs_projection := (irs_projection s)\<lparr>inf_recovery_in_progress := True,
     inf_last_recovery_action := Some action, inf_last_recovery_result := None,
     inf_degraded_reason := None\<rparr>\<rparr>"

definition finish_recovery ::
  "interference_recovery_result \<Rightarrow> interference_runtime_state \<Rightarrow> interference_runtime_state" where
  "finish_recovery result s = s\<lparr>irs_projection := (irs_projection s)\<lparr>inf_recovery_in_progress := False,
     inf_last_recovery_result := Some result\<rparr>\<rparr>"

definition record_recovery_outcome ::
  "interference_recovery_action option \<Rightarrow> interference_recovery_result
   \<Rightarrow> interference_runtime_state \<Rightarrow> interference_runtime_state" where
  "record_recovery_outcome action result s = s\<lparr>irs_projection := (irs_projection s)\<lparr>
     inf_recovery_in_progress := False, inf_last_recovery_action := action,
     inf_last_recovery_result := Some result\<rparr>\<rparr>"

definition interference_mark_degraded ::
  "string \<Rightarrow> interference_runtime_state \<Rightarrow> interference_runtime_state" where
  "interference_mark_degraded reason s = s\<lparr>irs_projection := (irs_projection s)\<lparr>
     inf_status := InterferenceDegraded, inf_recovery_in_progress := False,
     inf_degraded_reason := Some reason\<rparr>\<rparr>"

section \<open>Live refresh\<close>

record interference_session =
  ins_human :: human_session
  ins_interference :: interference_runtime_state

record interference_refresh_snapshot =
  irf_tabs :: "tab_info list"
  irf_interference :: interference_runtime_info
  irf_readiness :: readiness_info

definition classify_interference_runtime ::
  "tab_info list \<Rightarrow> interference_session \<Rightarrow> interference_session" where
  "classify_interference_runtime tabs s =
     (let h = ins_human s;
          observatory = projected_observatory (hss_observatory_ingress h) (hss_request_ingress h)
            (hss_observatory h);
          readiness = rss_readiness_state (runtime_state_snapshot_of (hss_runtime_state h))
      in s\<lparr>ins_interference :=
           state_classify tabs observatory readiness (hss_handoff h) (ins_interference s)\<rparr>)"

definition refresh_surfaces ::
  "launch_policy_info \<Rightarrow> 'n live_probe \<Rightarrow> human_session \<Rightarrow> human_session" where
  "refresh_surfaces policy probe h =
     refresh_takeover_runtime policy
       (refresh_live_storage_runtime probe
         (refresh_live_frame_runtime probe (refresh_live_runtime_state probe h)))"

definition refresh_live_runtime_and_interference_snapshot ::
  "interference_refresh_intent \<Rightarrow> launch_policy_info \<Rightarrow> 'n live_probe \<Rightarrow> interference_session
   \<Rightarrow> ('n rub_error + interference_refresh_snapshot) \<times> interference_session" where
  "refresh_live_runtime_and_interference_snapshot intent policy probe s =
     (let s = s\<lparr>ins_human := refresh_surfaces policy probe (ins_human s)\<rparr>
      in case lpr_tabs probe of
        Inl error \<Rightarrow> (Inl error, s\<lparr>ins_interference :=
          interference_mark_degraded ''tab_probe_failed'' (ins_interference s)\<rparr>)
      | Inr tabs \<Rightarrow>
          let s = classify_interference_runtime tabs s;
              runtime = irs_projection (ins_interference s);
              s = s\<lparr>ins_human := apply_policy_driven_handoff intent
                    (observation_kind (inf_current_interference runtime))
                    (inf_active_policies runtime) policy (ins_human s)\<rparr>
          in (Inr \<lparr>irf_tabs = tabs, irf_interference = irs_projection (ins_interference s),
                irf_readiness = rss_readiness_state
                  (runtime_state_snapshot_of (hss_runtime_state (ins_human s)))\<rparr>, s))"

section \<open>Recovery\<close>

definition find_primary_tab ::
  "tab_info list \<Rightarrow> interference_recovery_context \<Rightarrow> tab_info option" where
  "find_primary_tab tabs context =
     or_else
       (Option.bind (ibl_primary_target_id (irc_baseline context))
          (\<lambda>target_id. List.find (\<lambda>tab. tab_target_id tab = target_id) tabs))
       (Option.bind (ibl_primary_url (irc_baseline context))
          (\<lambda>url. List.find (\<lambda>tab. page_identity_authoritative tab \<and> tab_url tab = url) tabs))"

definition select_recovery_action ::
  "interference_recovery_context \<Rightarrow> tab_info list \<Rightarrow> interference_recovery_action option" where
  "select_recovery_action context tabs =
     (case observation_kind (inf_current_interference (irc_projection context)) of
        None \<Rightarrow> None
      | Some InterstitialNavigation \<Rightarrow> Some BackNavigate
      | Some PopupHijack \<Rightarrow>
          or_else (map_option (\<lambda>_. CloseUnexpectedTab) (find_active_tab tabs))
            (Some RestorePrimaryContext)
      | Some UnknownNavigationDrift \<Rightarrow>
          if find_primary_tab tabs context \<noteq> None then Some RestorePrimaryContext
          else Some BackNavigate
      | Some HumanVerificationRequired \<Rightarrow> Some EscalateToHandoff
      | Some OverlayInterference \<Rightarrow> Some DismissOverlay
      | Some ThirdPartyNoise \<Rightarrow> None)"

record 'n overlay_dismiss_probe =
  odp_status :: string
  odp_x :: "'n option"
  odp_y :: "'n option"
  odp_label :: "string option"

text \<open>The answers of the browser port to the actions, a failure as the text of its error, and the
  decoding of the overlay probe's JSON text.\<close>

record 'n recovery_answers =
  rca_back :: "string option"
  rca_close_tab :: "u32 \<Rightarrow> string option"
  rca_switch_tab :: "u32 \<Rightarrow> string option"
  rca_escape_key :: "string option"
  rca_send_keys :: "string option"
  rca_execute_js :: "string + 'n json"
  rca_parse_probe :: "string \<Rightarrow> string + 'n overlay_dismiss_probe"
  rca_click_xy :: "'n \<Rightarrow> 'n \<Rightarrow> string option"

definition failing :: "string \<Rightarrow> string option \<Rightarrow> string + unit" where
  "failing prefix answer = (case answer of None \<Rightarrow> Inr () | Some error \<Rightarrow> Inl (prefix @ '':'' @ error))"

definition dismiss_overlay :: "'n recovery_answers \<Rightarrow> string + unit" where
  "dismiss_overlay answers =
     (case rca_escape_key answers of
        Some error \<Rightarrow> Inl (''escape_key_parse_failed:'' @ error)
      | None \<Rightarrow>
     (case rca_send_keys answers of
        Some error \<Rightarrow> Inl (''dismiss_overlay_escape_failed:'' @ error)
      | None \<Rightarrow>
     (case rca_execute_js answers of
        Inl error \<Rightarrow> Inl (''dismiss_overlay_probe_failed:'' @ error)
      | Inr value \<Rightarrow>
     (case json_as_str value of
        None \<Rightarrow> Inl ''dismiss_overlay_probe_invalid_payload''
      | Some text \<Rightarrow>
     (case rca_parse_probe answers text of
        Inl error \<Rightarrow> Inl (''dismiss_overlay_probe_parse_failed:'' @ error)
      | Inr probe \<Rightarrow>
          if odp_status probe = ''cleared'' then Inr ()
          else if odp_status probe = ''candidate'' then
            (case odp_x probe of
               None \<Rightarrow> Inl ''dismiss_overlay_candidate_missing_x''
             | Some x \<Rightarrow>
                 (case odp_y probe of
                    None \<Rightarrow> Inl ''dismiss_overlay_candidate_missing_y''
                  | Some y \<Rightarrow>
                      (case rca_click_xy answers x y of
                         None \<Rightarrow> Inr ()
                       | Some error \<Rightarrow> Inl (''dismiss_overlay_click_failed:'' @
                           (case odp_label probe of Some label \<Rightarrow> label | None \<Rightarrow> ''candidate'') @
                           '':'' @ error))))
          else if odp_status probe = ''blocked'' then Inl ''dismiss_overlay_candidate_not_found''
          else Inl (''dismiss_overlay_probe_unknown_status:'' @ odp_status probe))))))"

definition apply_recovery_action ::
  "'n recovery_answers \<Rightarrow> interference_recovery_action \<Rightarrow> interference_recovery_context
   \<Rightarrow> tab_info list \<Rightarrow> string + unit" where
  "apply_recovery_action answers action context tabs =
     (case action of
        BackNavigate \<Rightarrow> failing ''back_navigation_failed'' (rca_back answers)
      | CloseUnexpectedTab \<Rightarrow>
          (case find_active_tab tabs of
             None \<Rightarrow> Inl ''active_tab_not_found''
           | Some active \<Rightarrow>
               failing ''close_unexpected_tab_failed'' (rca_close_tab answers (tab_index active)))
      | RestorePrimaryContext \<Rightarrow>
          (case find_primary_tab tabs context of
             None \<Rightarrow> Inl ''primary_context_not_found''
           | Some primary \<Rightarrow>
               failing ''restore_primary_context_failed'' (rca_switch_tab answers (tab_index primary)))
      | DismissOverlay \<Rightarrow> dismiss_overlay answers
      | EscalateToHandoff \<Rightarrow> Inr ())"

definition readiness_allows_resume :: "readiness_info \<Rightarrow> bool" where
  "readiness_allows_resume readiness \<longleftrightarrow> rdi_status readiness = ReadinessActive \<and>
     rdi_route_stability readiness \<noteq> RouteTransitioning \<and> \<not> rdi_loading_present readiness \<and>
     \<not> rdi_skeleton_present readiness \<and> rdi_overlay_state readiness = OverlayNone"

definition overlay_dismiss_fence_satisfied :: "readiness_info \<Rightarrow> bool" where
  "overlay_dismiss_fence_satisfied readiness \<longleftrightarrow>
     rdi_status readiness = ReadinessActive \<and> rdi_overlay_state readiness = OverlayNone"

definition primary_context_restored ::
  "tab_info \<Rightarrow> interference_recovery_context \<Rightarrow> bool" where
  "primary_context_restored active_tab context \<longleftrightarrow>
     ibl_primary_target_id (irc_baseline context) = Some (tab_target_id active_tab) \<or>
     (page_identity_authoritative active_tab \<and>
      ibl_primary_url (irc_baseline context) = Some (tab_url active_tab))"

definition recovery_fence_satisfied ::
  "interference_recovery_action \<Rightarrow> interference_recovery_context \<Rightarrow> interference_refresh_snapshot
   \<Rightarrow> bool" where
  "recovery_fence_satisfied action context refresh =
     (if action = EscalateToHandoff then False
      else if inf_status (irf_interference refresh) \<noteq> InterferenceInactive then False
      else if inf_current_interference (irf_interference refresh) \<noteq> None then False
      else case find_active_tab (irf_tabs refresh) of
        None \<Rightarrow> False
      | Some active_tab \<Rightarrow>
          (case action of
             BackNavigate \<Rightarrow>
               (case ibl_primary_url (irc_baseline context) of
                  None \<Rightarrow> True
                | Some primary_url \<Rightarrow>
                    page_identity_authoritative active_tab \<and> tab_url active_tab = primary_url)
           | CloseUnexpectedTab \<Rightarrow>
               primary_context_restored active_tab context \<and>
               (ibl_last_tab_count (irc_baseline context) = 0 \<or>
                length (irf_tabs refresh) \<le> ibl_last_tab_count (irc_baseline context))
           | RestorePrimaryContext \<Rightarrow>
               readiness_allows_resume (irf_readiness refresh) \<and>
               primary_context_restored active_tab context
           | DismissOverlay \<Rightarrow>
               overlay_dismiss_fence_satisfied (irf_readiness refresh) \<and>
               primary_context_restored active_tab context
           | EscalateToHandoff \<Rightarrow> False))"

fun recovery_success_reason :: "interference_recovery_action \<Rightarrow> string" where
  "recovery_success_reason BackNavigate = ''back_navigation_fence_satisfied''"
| "recovery_success_reason CloseUnexpectedTab = ''unexpected_tab_closed''"
| "recovery_success_reason RestorePrimaryContext = ''primary_context_restored''"
| "recovery_success_reason DismissOverlay = ''overlay_dismissed''"
| "recovery_success_reason EscalateToHandoff = ''handoff_activated''"

fun interference_kind_label :: "interference_kind \<Rightarrow> string" where
  "interference_kind_label InterstitialNavigation = ''interstitial_navigation''"
| "interference_kind_label PopupHijack = ''popup_hijack''"
| "interference_kind_label OverlayInterference = ''overlay_interference''"
| "interference_kind_label ThirdPartyNoise = ''third_party_noise''"
| "interference_kind_label HumanVerificationRequired = ''human_verification_required''"
| "interference_kind_label UnknownNavigationDrift = ''unknown_navigation_drift''"

definition RECOVERY_TIMEOUT_MS :: nat where "RECOVERY_TIMEOUT_MS = 4000"

definition recovery_poll_delay :: "nat \<Rightarrow> nat" where
  "recovery_poll_delay poll_count = min (100 + 100 * poll_count) 300"

fun wait_for_recovery_fence ::
  "(error_code \<Rightarrow> string) \<Rightarrow> launch_policy_info \<Rightarrow> interference_recovery_action
   \<Rightarrow> interference_recovery_context \<Rightarrow> ('n live_probe \<times> nat) list \<Rightarrow> interference_session
   \<Rightarrow> ((bool \<times> string option) \<times> interference_session) option" where
  "wait_for_recovery_fence code_name policy action context [] s = None"
| "wait_for_recovery_fence code_name policy action context ((probe, now) # polls) s =
     (case refresh_live_runtime_and_interference_snapshot ReadOnlyIntent policy probe s of
        (Inl error, s) \<Rightarrow>
          Some ((False, Some (''live_refresh_failed:'' @ rub_error_display code_name error)), s)
      | (Inr refresh, s) \<Rightarrow>
          if recovery_fence_satisfied action context refresh
          then Some ((True, Some (recovery_success_reason action)), s)
          else if now \<ge> RECOVERY_TIMEOUT_MS
          then Some ((False, Some ''recovery_fence_timed_out''), s)
          else wait_for_recovery_fence code_name policy action context polls s)"

definition with_interference ::
  "(interference_runtime_state \<Rightarrow> interference_runtime_state) \<Rightarrow> interference_session
   \<Rightarrow> interference_session" where
  "with_interference f s = s\<lparr>ins_interference := f (ins_interference s)\<rparr>"

text \<open>\<open>probe\<close> answers the first refresh, \<open>settle\<close> the one after an escalation or a failed action.\<close>

definition recover ::
  "(error_code \<Rightarrow> string) \<Rightarrow> launch_policy_info \<Rightarrow> 'n live_probe \<Rightarrow> 'n recovery_answers
   \<Rightarrow> 'n live_probe \<Rightarrow> ('n live_probe \<times> nat) list \<Rightarrow> interference_session
   \<Rightarrow> (interference_recovery_report \<times> interference_session) option" where
  "recover code_name policy probe answers settle polls s =
     (case refresh_live_runtime_and_interference_snapshot ReadOnlyIntent policy probe s of
        (Inl error, s) \<Rightarrow>
          Some (interference_recovery_report_default\<lparr>irr_reason :=
            Some (''live_refresh_failed:'' @ rub_error_display code_name error)\<rparr>, s)
      | (Inr refresh, s) \<Rightarrow>
          let context = (recovery_context (ins_interference s))\<lparr>irc_projection := irf_interference refresh\<rparr>
          in case inf_current_interference (irc_projection context) of
            None \<Rightarrow> Some (interference_recovery_report_default\<lparr>irr_reason :=
              Some ''no_active_interference''\<rparr>, s)
          | Some current \<Rightarrow>
              (case select_recovery_action context (irf_tabs refresh) of
                 None \<Rightarrow>
                   Some (interference_recovery_report_default\<lparr>irr_result := Some RecoveryAbandoned,
                       irr_reason := Some (''interference_not_safely_recoverable:'' @
                         interference_kind_label (iob_kind current))\<rparr>,
                     with_interference (record_recovery_outcome None RecoveryAbandoned) s)
               | Some action \<Rightarrow>
                   let s = with_interference (begin_recovery action) s in
                   if action = EscalateToHandoff then
                     (if hvi_status (hss_handoff (ins_human s)) = HandoffUnavailable then
                        Some (\<lparr>irr_attempted = True, irr_action = Some action,
                            irr_result = Some RecoveryFailed, irr_fence_satisfied = False,
                            irr_reason = Some ''handoff_unavailable''\<rparr>,
                          with_interference (finish_recovery RecoveryFailed) s)
                      else
                        let s = s\<lparr>ins_human := activate_handoff (ins_human s)\<rparr>;
                            s = snd (refresh_live_runtime_and_interference_snapshot ReadOnlyIntent
                                  policy settle s);
                            s = with_interference (finish_recovery RecoveryEscalated) s
                        in Some (\<lparr>irr_attempted = True, irr_action = Some action,
                            irr_result = Some RecoveryEscalated,
                            irr_fence_satisfied =
                              (hvi_status (hss_handoff (ins_human s)) = HandoffActive),
                            irr_reason = Some ''handoff_activated''\<rparr>, s))
                   else
                     (case apply_recovery_action answers action context (irf_tabs refresh) of
                        Inl reason \<Rightarrow>
                          let s = snd (refresh_live_runtime_and_interference_snapshot ReadOnlyIntent
                                policy settle s);
                              s = with_interference (finish_recovery RecoveryFailed) s
                          in Some (\<lparr>irr_attempted = True, irr_action = Some action,
                              irr_result = Some RecoveryFailed, irr_fence_satisfied = False,
                              irr_reason = Some reason\<rparr>, s)
                      | Inr _ \<Rightarrow>
                          (case wait_for_recovery_fence code_name policy action context polls s of
                             None \<Rightarrow> None
                           | Some ((fence_satisfied, reason), s) \<Rightarrow>
                               let result = (if fence_satisfied then RecoverySucceeded
                                     else RecoveryFailed)
                               in Some (\<lparr>irr_attempted = True, irr_action = Some action,
                                   irr_result = Some result, irr_fence_satisfied = fence_satisfied,
                                   irr_reason = reason\<rparr>,
                                 with_interference (finish_recovery result) s)))))"

section \<open>The command\<close>

definition parse_interference_mode :: "string option \<Rightarrow> 'n rub_error + interference_mode" where
  "parse_interference_mode raw =
     (case raw of
        Some mode \<Rightarrow>
          if mode = ''normal'' then Inr NormalMode
          else if mode = ''public_web_stable'' then Inr PublicWebStableMode
          else if mode = ''strict'' then Inr StrictMode
          else Inl (rub_domain InvalidInput
            (''Unknown interference mode: '' @ [CHR 0x27] @ mode @ [CHR 0x27]))
      | None \<Rightarrow> Inl (rub_domain InvalidInput
          (''Interference mode update requires a '' @ [CHR 0x27] @ ''mode'' @ [CHR 0x27] @
           '' argument'')))"

text \<open>The derived serializers are arguments.\<close>

record 'n interference_json =
  inj_runtime :: "interference_runtime_info \<Rightarrow> 'n json"
  inj_recovery :: "interference_recovery_report \<Rightarrow> 'n json"
  inj_handoff :: "handoff_info \<Rightarrow> 'n json"
  inj_mode :: "interference_mode \<Rightarrow> 'n json"

definition interference_payload :: "'n json \<Rightarrow> 'n json \<Rightarrow> 'n json \<Rightarrow> 'n json" where
  "interference_payload subject result runtime =
     JObject [(''subject'', subject), (''result'', result), (''runtime'', runtime)]"

definition cmd_interference ::
  "'n interference_json \<Rightarrow> (error_code \<Rightarrow> string) \<Rightarrow> launch_policy_info \<Rightarrow> 'n live_probe
   \<Rightarrow> 'n recovery_answers \<Rightarrow> 'n live_probe \<Rightarrow> ('n live_probe \<times> nat) list \<Rightarrow> 'n json
   \<Rightarrow> interference_session \<Rightarrow> (('n rub_error + 'n json) \<times> interference_session) option" where
  "cmd_interference json code_name policy probe answers settle polls args s =
     (let sub = (case json_get_str args ''sub'' of Some sub \<Rightarrow> sub | None \<Rightarrow> ''recover'')
      in
      if sub = ''mode'' then
        (case parse_interference_mode (json_get_str args ''mode'') of
           Inl error \<Rightarrow> Some (Inl error, s)
         | Inr mode \<Rightarrow>
             let s = with_interference (set_mode mode) s;
                 runtime = irs_projection (ins_interference s)
             in Some (Inr (interference_payload
                  (JObject [(''kind'', JString ''interference_policy''), (''action'', JString ''mode''),
                     (''requested_mode'', inj_mode json mode)])
                  (JObject [(''mode'', inj_mode json (inf_mode runtime)),
                     (''active_policies'', JArray (map JString (inf_active_policies runtime)))])
                  (inj_runtime json runtime)), s))
      else if sub = ''recover'' then
        (case recover code_name policy probe answers settle polls s of
           None \<Rightarrow> None
         | Some (recovery, s) \<Rightarrow>
             Some (Inr (interference_payload
               (JObject [(''kind'', JString ''interference_recovery''), (''action'', JString ''recover'')])
               (JObject [(''recovery'', inj_recovery json recovery),
                  (''handoff'', inj_handoff json (hss_handoff (ins_human s)))])
               (inj_runtime json (irs_projection (ins_interference s)))), s))
      else if sub = ''status'' then
        (let s = snd (refresh_live_runtime_and_interference_snapshot ReadOnlyIntent policy probe s)
         in Some (Inr (interference_payload
              (JObject [(''kind'', JString ''interference_runtime''), (''action'', JString ''status'')])
              (JObject []) (inj_runtime json (irs_projection (ins_interference s)))), s))
      else Some (Inl (rub_domain InvalidInput
        (''Unknown interference subcommand: '' @ [CHR 0x27] @ sub @ [CHR 0x27])), s))"

section \<open>Sequences of operations\<close>

datatype interference_op =
    SetInterferenceMode interference_mode
  | PrimeBaseline "tab_info list"
  | AdoptPrimaryContext "tab_info list"
  | ClassifyInterference "tab_info list" runtime_observatory_info readiness_info handoff_info
  | BeginRecovery interference_recovery_action
  | FinishRecovery interference_recovery_result
  | RecordRecoveryOutcome "interference_recovery_action option" interference_recovery_result
  | DegradeInterference string

fun run_interference_op ::
  "interference_op \<Rightarrow> interference_runtime_state \<Rightarrow> interference_runtime_state" where
  "run_interference_op (SetInterferenceMode mode) s = set_mode mode s"
| "run_interference_op (PrimeBaseline tabs) s = prime_baseline_from_tabs tabs s"
| "run_interference_op (AdoptPrimaryContext tabs) s = adopt_primary_context_from_tabs tabs s"
| "run_interference_op (ClassifyInterference tabs observatory readiness handoff) s =
     state_classify tabs observatory readiness handoff s"
| "run_interference_op (BeginRecovery action) s = begin_recovery action s"
| "run_interference_op (FinishRecovery result) s = finish_recovery result s"
| "run_interference_op (RecordRecoveryOutcome action result) s = record_recovery_outcome action result s"
| "run_interference_op (DegradeInterference reason) s = interference_mark_degraded reason s"

definition interference_info_ok :: "interference_runtime_info \<Rightarrow> bool" where
  "interference_info_ok p \<longleftrightarrow>
     inf_active_policies p = active_policies_for_mode (inf_mode p) \<and>
     (inf_status p = InterferenceActive \<longrightarrow> inf_current_interference p \<noteq> None) \<and>
     (inf_status p = InterferenceInactive \<longrightarrow> inf_current_interference p = None) \<and>
     (inf_handoff_required p \<longrightarrow> inf_current_interference p \<noteq> None) \<and>
     (inf_current_interference p \<noteq> None \<longrightarrow> inf_last_interference p = inf_current_interference p) \<and>
     (inf_degraded_reason p \<noteq> None \<longrightarrow> inf_status p = InterferenceDegraded)"

definition baseline_ok :: "interference_baseline \<Rightarrow> bool" where
  "baseline_ok b \<longleftrightarrow> (ibl_primary_url b \<noteq> None \<longrightarrow> ibl_primary_target_id b \<noteq> None)"

definition primary_of :: "interference_runtime_state \<Rightarrow> string option \<times> string option" where
  "primary_of s = (ibl_primary_target_id (irs_baseline s), ibl_primary_url (irs_baseline s))"

section \<open>What a classification yields\<close>

lemma classify_result:
  assumes "classify current baseline tabs observatory readiness handoff = (p, b)"
  shows "inf_mode p = inf_mode current"
    "inf_active_policies p = active_policies_for_mode (inf_mode current)"
    "inf_recovery_in_progress p = inf_recovery_in_progress current"
    "inf_current_interference p = classify_observation current (find_active_tab tabs) baseline
       observatory readiness handoff"
    "inf_status p = (if inf_current_interference p = None then InterferenceInactive
       else InterferenceActive)"
    "inf_handoff_required p \<longrightarrow> inf_current_interference p \<noteq> None"
    "inf_current_interference p \<noteq> None \<longrightarrow> inf_last_interference p = inf_current_interference p"
    "inf_degraded_reason p = None" "interference_info_ok p"
    "b = baseline\<lparr>ibl_last_tab_count := length tabs\<rparr>"
  using assms by (auto simp: classify_def Let_def interference_runtime_info_default_def
      interference_info_ok_def split: option.splits)

lemma observation_has_active_tab:
  "classify_observation current active_tab baseline observatory readiness handoff = Some observation \<Longrightarrow>
   active_tab \<noteq> None"
  by (cases active_tab) (simp_all add: classify_observation_def)

lemma state_classify_result:
  fixes s :: interference_runtime_state
  assumes "t = state_classify tabs observatory readiness handoff s"
  shows "interference_info_ok (irs_projection t)"
    "inf_recovery_in_progress (irs_projection t) = inf_recovery_in_progress (irs_projection s)"
    "inf_mode (irs_projection t) = inf_mode (irs_projection s)"
    "inf_current_interference (irs_projection t) = classify_observation (irs_projection s)
       (find_active_tab tabs) (irs_baseline s) observatory readiness handoff"
    "inf_status (irs_projection t) = (if inf_current_interference (irs_projection t) = None
       then InterferenceInactive else InterferenceActive)"
    "ibl_last_tab_count (irs_baseline t) = length tabs"
    "primary_of t \<noteq> primary_of s \<Longrightarrow> primary_of s = (None, None) \<and>
       inf_status (irs_projection t) = InterferenceInactive \<and>
       (\<exists>tab. find_active_tab tabs = Some tab \<and>
          primary_of t = (Some (tab_target_id tab), authoritative_url tab))"
    "baseline_ok (irs_baseline s) \<Longrightarrow> baseline_ok (irs_baseline t)"
proof -
  obtain p b where c: "classify (irs_projection s) (irs_baseline s) tabs observatory readiness handoff = (p, b)"
    by fastforce
  note r = classify_result [OF c]
  have t: "irs_projection t = p"
    unfolding assms state_classify_def Let_def c
    by (simp add: prime_baseline_from_tabs_def split: option.split)
  show "interference_info_ok (irs_projection t)"
    "inf_recovery_in_progress (irs_projection t) = inf_recovery_in_progress (irs_projection s)"
    "inf_mode (irs_projection t) = inf_mode (irs_projection s)"
    "inf_current_interference (irs_projection t) = classify_observation (irs_projection s)
       (find_active_tab tabs) (irs_baseline s) observatory readiness handoff"
    "inf_status (irs_projection t) = (if inf_current_interference (irs_projection t) = None
       then InterferenceInactive else InterferenceActive)"
    unfolding t using r by simp_all
  show "ibl_last_tab_count (irs_baseline t) = length tabs"
    "primary_of t \<noteq> primary_of s \<Longrightarrow> primary_of s = (None, None) \<and>
       inf_status (irs_projection t) = InterferenceInactive \<and>
       (\<exists>tab. find_active_tab tabs = Some tab \<and>
          primary_of t = (Some (tab_target_id tab), authoritative_url tab))"
    "baseline_ok (irs_baseline s) \<Longrightarrow> baseline_ok (irs_baseline t)"
    using r(10) unfolding t assms state_classify_def Let_def c
    by (auto simp: prime_baseline_from_tabs_def primary_of_def baseline_ok_def
        split: option.splits if_splits)
qed

lemma interference_op_ok:
  assumes "interference_info_ok (irs_projection s)" "baseline_ok (irs_baseline s)"
  shows "interference_info_ok (irs_projection (run_interference_op op s)) \<and>
    baseline_ok (irs_baseline (run_interference_op op s))"
proof (cases op)
  case (ClassifyInterference tabs observatory readiness handoff)
  note r = state_classify_result [OF refl, where tabs = tabs and observatory = observatory and readiness = readiness
      and handoff = handoff and s = s]
  show ?thesis using r(1) r(8) [OF assms(2)] by (simp add: ClassifyInterference)
qed (use assms in \<open>auto simp: set_mode_def prime_baseline_from_tabs_def
    adopt_primary_context_from_tabs_def begin_recovery_def finish_recovery_def
    record_recovery_outcome_def interference_mark_degraded_def interference_info_ok_def baseline_ok_def
    split: option.splits\<close>)

lemma interference_run_ok:
  "interference_info_ok (irs_projection (fold run_interference_op ops interference_runtime_default)) \<and>
   baseline_ok (irs_baseline (fold run_interference_op ops interference_runtime_default))"
proof (induction ops rule: rev_induct)
  case Nil
  show ?case by (simp add: interference_runtime_default_def interference_runtime_info_default_def
      interference_info_ok_def baseline_ok_def)
next
  case (snoc op ops)
  then show ?case by (simp add: interference_op_ok)
qed

lemma primary_step:
  assumes "\<And>tabs. op \<noteq> AdoptPrimaryContext tabs" "primary_of s \<noteq> (None, None)"
  shows "primary_of (run_interference_op op s) = primary_of s"
proof (cases op)
  case (ClassifyInterference tabs observatory readiness handoff)
  show ?thesis
    using state_classify_result(7) [OF refl, where tabs = tabs and observatory = observatory
      and readiness = readiness and handoff = handoff and s = s] assms(2)
    by (auto simp: ClassifyInterference)
qed (use assms in \<open>auto simp: set_mode_def prime_baseline_from_tabs_def begin_recovery_def
    finish_recovery_def record_recovery_outcome_def interference_mark_degraded_def primary_of_def\<close>)

lemma primary_run:
  "primary_of s \<noteq> (None, None) \<Longrightarrow> \<forall>op\<in>set ops. \<forall>tabs. op \<noteq> AdoptPrimaryContext tabs \<Longrightarrow>
   primary_of (fold run_interference_op ops s) = primary_of s"
  by (induction ops arbitrary: s) (simp_all add: primary_step)

section \<open>What a refresh yields\<close>

lemma read_only_handoff [simp]: "apply_policy_driven_handoff ReadOnlyIntent kind policies policy h = h"
  by (simp add: apply_policy_driven_handoff_def)

lemma refresh_frame_only:
  "\<exists>f. refresh_live_frame_runtime probe h = h\<lparr>hss_frame_runtime := f\<rparr>"
  "\<exists>r. refresh_live_storage_runtime probe h = h\<lparr>hss_storage_runtime := r\<rparr>"
  "\<exists>r. refresh_live_runtime_state probe h = h\<lparr>hss_next_runtime_state_sequence :=
     hss_next_runtime_state_sequence h + 1, hss_runtime_state := r\<rparr>"
proof -
  show "\<exists>f. refresh_live_frame_runtime probe h = h\<lparr>hss_frame_runtime := f\<rparr>"
    by (cases "lpr_frames probe") (auto simp: refresh_live_frame_runtime_def)
  show "\<exists>r. refresh_live_storage_runtime probe h = h\<lparr>hss_storage_runtime := r\<rparr>"
    unfolding refresh_live_storage_runtime_def Let_def by (auto split: sum.split option.split)
  show "\<exists>r. refresh_live_runtime_state probe h = h\<lparr>hss_next_runtime_state_sequence :=
     hss_next_runtime_state_sequence h + 1, hss_runtime_state := r\<rparr>"
    by (cases "lpr_runtime_state probe") (auto simp: refresh_live_runtime_state_def Let_def)
qed

lemma refresh_surfaces_frame [simp]:
  "hss_handoff (refresh_surfaces policy probe h) = hss_handoff h"
  "hss_observatory (refresh_surfaces policy probe h) = hss_observatory h"
  "hss_observatory_ingress (refresh_surfaces policy probe h) = hss_observatory_ingress h"
  "hss_request_ingress (refresh_surfaces policy probe h) = hss_request_ingress h"
  "hss_runtime_state (refresh_surfaces policy probe h) =
     hss_runtime_state (refresh_live_runtime_state probe h)"
proof -
  obtain f r q where e: "refresh_live_runtime_state probe h = h\<lparr>hss_next_runtime_state_sequence :=
      hss_next_runtime_state_sequence h + 1, hss_runtime_state := q\<rparr>"
    "refresh_live_frame_runtime probe (refresh_live_runtime_state probe h) =
      (refresh_live_runtime_state probe h)\<lparr>hss_frame_runtime := f\<rparr>"
    "refresh_live_storage_runtime probe
      (refresh_live_frame_runtime probe (refresh_live_runtime_state probe h)) =
      (refresh_live_frame_runtime probe (refresh_live_runtime_state probe h))\<lparr>hss_storage_runtime := r\<rparr>"
    using refresh_frame_only by metis
  show "hss_handoff (refresh_surfaces policy probe h) = hss_handoff h"
    "hss_observatory (refresh_surfaces policy probe h) = hss_observatory h"
    "hss_observatory_ingress (refresh_surfaces policy probe h) = hss_observatory_ingress h"
    "hss_request_ingress (refresh_surfaces policy probe h) = hss_request_ingress h"
    "hss_runtime_state (refresh_surfaces policy probe h) =
      hss_runtime_state (refresh_live_runtime_state probe h)"
    unfolding refresh_surfaces_def refresh_takeover_runtime_def e(3) e(2) by (simp_all add: e(1))
qed

lemma snapshot_result:
  assumes "refresh_live_runtime_and_interference_snapshot ReadOnlyIntent policy probe s = (r, t)"
  shows "hss_handoff (ins_human t) = hss_handoff (ins_human s)"
    "\<not> inf_recovery_in_progress (irs_projection (ins_interference s)) \<Longrightarrow>
       \<not> inf_recovery_in_progress (irs_projection (ins_interference t))"
    "r = Inr refresh \<Longrightarrow> irf_interference refresh = irs_projection (ins_interference t) \<and>
       ibl_last_tab_count (irs_baseline (ins_interference t)) = length (irf_tabs refresh) \<and>
       interference_info_ok (irf_interference refresh) \<and>
       (inf_current_interference (irf_interference refresh) \<noteq> None \<longrightarrow>
          find_active_tab (irf_tabs refresh) \<noteq> None)"
proof -
  let ?s = "s\<lparr>ins_human := refresh_surfaces policy probe (ins_human s)\<rparr>"
  have "hss_handoff (ins_human t) = hss_handoff (ins_human s) \<and>
    (\<not> inf_recovery_in_progress (irs_projection (ins_interference s)) \<longrightarrow>
       \<not> inf_recovery_in_progress (irs_projection (ins_interference t))) \<and>
    (r = Inr refresh \<longrightarrow> irf_interference refresh = irs_projection (ins_interference t) \<and>
       ibl_last_tab_count (irs_baseline (ins_interference t)) = length (irf_tabs refresh) \<and>
       interference_info_ok (irf_interference refresh) \<and>
       (inf_current_interference (irf_interference refresh) \<noteq> None \<longrightarrow>
          find_active_tab (irf_tabs refresh) \<noteq> None))"
  proof (cases "lpr_tabs probe")
    case (Inl error)
    with assms show ?thesis
      by (auto simp: refresh_live_runtime_and_interference_snapshot_def Let_def
          interference_mark_degraded_def)
  next
    case (Inr tabs)
    obtain obs rd where c: "ins_interference (classify_interference_runtime tabs ?s) =
        state_classify tabs obs rd (hss_handoff (ins_human ?s)) (ins_interference s)"
      "ins_human (classify_interference_runtime tabs ?s) = ins_human ?s"
      by (simp add: classify_interference_runtime_def Let_def)
    note f = state_classify_result [OF c(1)]
    have "inf_current_interference (irs_projection (ins_interference (classify_interference_runtime tabs ?s)))
        \<noteq> None \<Longrightarrow> find_active_tab tabs \<noteq> None"
      using f(4) observation_has_active_tab by (metis not_Some_eq)
    with Inr assms c(2) f show ?thesis
      by (auto simp: refresh_live_runtime_and_interference_snapshot_def Let_def)
  qed
  then show "hss_handoff (ins_human t) = hss_handoff (ins_human s)"
    "\<not> inf_recovery_in_progress (irs_projection (ins_interference s)) \<Longrightarrow>
       \<not> inf_recovery_in_progress (irs_projection (ins_interference t))"
    "r = Inr refresh \<Longrightarrow> irf_interference refresh = irs_projection (ins_interference t) \<and>
       ibl_last_tab_count (irs_baseline (ins_interference t)) = length (irf_tabs refresh) \<and>
       interference_info_ok (irf_interference refresh) \<and>
       (inf_current_interference (irf_interference refresh) \<noteq> None \<longrightarrow>
          find_active_tab (irf_tabs refresh) \<noteq> None)"
    by blast+
qed

text \<open>The refresh of the takeover commands is this one with the classifier's answer filled in.\<close>

lemma takeover_refresh_agrees:
  assumes "refresh_live_runtime_and_interference_snapshot intent policy probe s = (r, t)"
    and "runtime = irs_projection (ins_interference t)"
  shows "snd (refresh_live_runtime_and_interference intent policy
      (probe\<lparr>lpr_interference := observation_kind (inf_current_interference runtime),
        lpr_policies := inf_active_policies runtime\<rparr>) (ins_human s)) = ins_human t"
proof -
  let ?p = "probe\<lparr>lpr_interference := observation_kind (inf_current_interference runtime),
        lpr_policies := inf_active_policies runtime\<rparr>"
  have same: "refresh_takeover_runtime policy (refresh_live_storage_runtime ?p
      (refresh_live_frame_runtime ?p (refresh_live_runtime_state ?p (ins_human s)))) =
      refresh_surfaces policy probe (ins_human s)"
    by (simp add: refresh_surfaces_def refresh_live_storage_runtime_def refresh_live_frame_runtime_def
        refresh_live_runtime_state_def Let_def cong: sum.case_cong option.case_cong)
  show ?thesis
    unfolding refresh_live_runtime_and_interference_def refresh_live_interference_state_def same
    using assms by (auto simp: refresh_live_runtime_and_interference_snapshot_def Let_def
        classify_interference_runtime_def split: sum.splits)
qed

section \<open>What a recovery yields\<close>

lemma wait_result:
  assumes "wait_for_recovery_fence code_name policy action context polls s = Some ((ok, reason), t)"
  shows "hss_handoff (ins_human t) = hss_handoff (ins_human s) \<and>
    (ok \<longrightarrow> (\<exists>refresh. recovery_fence_satisfied action context refresh \<and>
       irf_interference refresh = irs_projection (ins_interference t) \<and>
       ibl_last_tab_count (irs_baseline (ins_interference t)) = length (irf_tabs refresh)))"
  using assms
proof (induction polls arbitrary: s)
  case (Cons poll polls)
  obtain probe now where poll: "poll = (probe, now)" by (cases poll)
  obtain r u where
    u: "refresh_live_runtime_and_interference_snapshot ReadOnlyIntent policy probe s = (r, u)"
    by fastforce
  note f = snapshot_result [OF u]
  show ?case
  proof (cases r)
    case (Inl error)
    with Cons.prems f(1) show ?thesis by (auto simp: poll u)
  next
    case (Inr refresh)
    with Cons.prems f(1) f(3) [OF Inr] Cons.IH [of u] show ?thesis
      by (auto simp: poll u split: if_splits)
  qed
qed simp

text \<open>The cases of a recovery whose first refresh succeeds: \<open>u\<close> is the session after it.\<close>

lemma recover_after_refresh:
  assumes "refresh_live_runtime_and_interference_snapshot ReadOnlyIntent policy probe s = (Inr refresh, u)"
    and "recover code_name policy probe answers settle polls s = Some (report, t)"
    and "context = (recovery_context (ins_interference u))\<lparr>irc_projection := irf_interference refresh\<rparr>"
  shows "inf_current_interference (irf_interference refresh) = None \<and> \<not> irr_attempted report \<and>
      irr_action report = None \<and> irr_result report = None \<and> \<not> irr_fence_satisfied report \<and> t = u \<or>
    select_recovery_action context (irf_tabs refresh) = None \<and> \<not> irr_attempted report \<and>
      irr_action report = None \<and> irr_result report = Some RecoveryAbandoned \<and>
      \<not> irr_fence_satisfied report \<and>
      t = with_interference (record_recovery_outcome None RecoveryAbandoned) u \<or>
    (\<exists>action v. select_recovery_action context (irf_tabs refresh) = Some action \<and>
      irr_attempted report \<and> irr_action report = Some action \<and>
      irr_result report \<noteq> None \<and> irr_result report \<noteq> Some RecoveryAbandoned \<and>
      t = with_interference (finish_recovery (the (irr_result report))) v \<and>
      (if action = EscalateToHandoff
       then irr_result report \<noteq> Some RecoverySucceeded \<and>
         (irr_fence_satisfied report \<longrightarrow> irr_result report = Some RecoveryEscalated)
       else hss_handoff (ins_human v) = hss_handoff (ins_human u) \<and>
         irr_result report = Some (if irr_fence_satisfied report then RecoverySucceeded else RecoveryFailed) \<and>
         (irr_fence_satisfied report \<longrightarrow> (\<exists>final. recovery_fence_satisfied action context final \<and>
            irf_interference final = irs_projection (ins_interference v) \<and>
            ibl_last_tab_count (irs_baseline (ins_interference v)) = length (irf_tabs final)))))"
proof (cases "inf_current_interference (irf_interference refresh)")
  case None
  have "report = interference_recovery_report_default\<lparr>irr_reason := Some ''no_active_interference''\<rparr>"
    "t = u"
    using assms(1,2) None unfolding recover_def by (simp_all add: Let_def)
  with None show ?thesis by (simp add: interference_recovery_report_default_def)
next
  case current: (Some current)
  show ?thesis
  proof (cases "select_recovery_action context (irf_tabs refresh)")
    case None
    have "irr_attempted report = False" "irr_action report = None"
      "irr_result report = Some RecoveryAbandoned" "irr_fence_satisfied report = False"
      "t = with_interference (record_recovery_outcome None RecoveryAbandoned) u"
      using assms(1,2) current None unfolding recover_def assms(3)
      by (auto simp: Let_def interference_recovery_report_default_def)
    with None show ?thesis by simp
  next
    case sel: (Some action)
    note sel' = sel [unfolded assms(3)]
    let ?b = "with_interference (begin_recovery action) u"
    have human: "ins_human ?b = ins_human u" by (simp add: with_interference_def)
    show ?thesis
    proof (cases "action = EscalateToHandoff")
      case True
      obtain v result where "irr_attempted report" "irr_action report = Some action"
        "irr_result report = Some result" "result = RecoveryFailed \<or> result = RecoveryEscalated"
        "irr_fence_satisfied report \<longrightarrow> result = RecoveryEscalated"
        "t = with_interference (finish_recovery result) v"
        using assms(1,2) current sel' True unfolding recover_def
        by (auto simp: Let_def split: if_splits)
      with sel True show ?thesis
        by (intro disjI2 exI [of _ action] exI [of _ v]) auto
    next
      case False
      show ?thesis
      proof (cases "apply_recovery_action answers action context (irf_tabs refresh)")
        case (Inl reason)
        obtain r v where v: "refresh_live_runtime_and_interference_snapshot ReadOnlyIntent policy settle ?b
            = (r, v)" by fastforce
        have "hss_handoff (ins_human v) = hss_handoff (ins_human u)"
          using snapshot_result(1) [OF v] human by simp
        moreover have "irr_attempted report" "irr_action report = Some action"
          "irr_result report = Some RecoveryFailed" "\<not> irr_fence_satisfied report"
          "t = with_interference (finish_recovery RecoveryFailed) v"
          using assms(1,2) current sel' False Inl v unfolding recover_def assms(3)
          by (auto simp: Let_def)
        ultimately show ?thesis
          using sel False by (intro disjI2 exI [of _ action] exI [of _ v]) auto
      next
        case (Inr applied)
        show ?thesis
        proof (cases "wait_for_recovery_fence code_name policy action context polls ?b")
          case None
          with assms(1,2) current sel' False Inr show ?thesis
            unfolding recover_def assms(3) by (simp add: Let_def)
        next
          case (Some w)
          obtain ok reason v where w: "w = ((ok, reason), v)" by (metis surj_pair)
          note f = wait_result [OF Some [unfolded w]]
          have t: "irr_attempted report" "irr_action report = Some action"
            "irr_result report = Some (if ok then RecoverySucceeded else RecoveryFailed)"
            "irr_fence_satisfied report = ok"
            "t = with_interference (finish_recovery (if ok then RecoverySucceeded else RecoveryFailed)) v"
            using assms(1,2) current sel' False Inr Some w unfolding recover_def assms(3)
            by (auto simp: Let_def)
          then show ?thesis
            using f human sel False by (intro disjI2 exI [of _ action] exI [of _ v]) auto
        qed
      qed
    qed
  qed
qed

section \<open>The recovery ends\<close>

text \<open>The clock moves on by at least the delay the loop slept for.\<close>

fun poll_times_ok :: "nat \<Rightarrow> nat \<Rightarrow> ('n live_probe \<times> nat) list \<Rightarrow> bool" where
  "poll_times_ok poll_count earliest [] = True"
| "poll_times_ok poll_count earliest ((probe, now) # polls) =
     (earliest \<le> now \<and> poll_times_ok (Suc poll_count) (now + recovery_poll_delay poll_count) polls)"

lemma wait_unfinished:
  assumes "wait_for_recovery_fence code_name policy action context polls s = None"
    "poll_times_ok k t polls" "polls \<noteq> []"
  shows "t + (\<Sum>i<length polls - 1. recovery_poll_delay (k + i)) < RECOVERY_TIMEOUT_MS"
  using assms
proof (induction polls arbitrary: s k t)
  case (Cons poll polls)
  obtain probe now where poll: "poll = (probe, now)" by (cases poll)
  obtain r u where
    u: "refresh_live_runtime_and_interference_snapshot ReadOnlyIntent policy probe s = (r, u)"
    by fastforce
  have h: "now < RECOVERY_TIMEOUT_MS" "wait_for_recovery_fence code_name policy action context polls u = None"
    using Cons.prems(1) by (auto simp: poll u split: sum.splits if_splits)
  have p: "t \<le> now" "poll_times_ok (Suc k) (now + recovery_poll_delay k) polls"
    using Cons.prems(2) by (simp_all add: poll)
  show ?case
  proof (cases polls)
    case Nil
    with h p show ?thesis by simp
  next
    case (Cons q qs)
    have "(\<Sum>i<length polls. recovery_poll_delay (k + i)) =
        recovery_poll_delay k + (\<Sum>i<length qs. recovery_poll_delay (Suc k + i))"
      by (simp add: Cons sum.lessThan_Suc_shift del: sum.lessThan_Suc)
    with Cons.IH [OF h(2) p(2)] p(1) show ?thesis by (simp add: Cons)
  qed
qed simp

lemma sixteen_polls:
  assumes "poll_times_ok 0 0 polls" "16 \<le> length polls"
  shows "wait_for_recovery_fence code_name policy action context polls s \<noteq> None"
proof
  assume "wait_for_recovery_fence code_name policy action context polls s = None"
  then have "(\<Sum>i<length polls - 1. recovery_poll_delay i) < RECOVERY_TIMEOUT_MS"
    using wait_unfinished [OF _ assms(1)] assms(2) by fastforce
  moreover have "(\<Sum>i<15. recovery_poll_delay i) \<le> (\<Sum>i<length polls - 1. recovery_poll_delay i)"
    using assms(2) by (intro sum_mono2) auto
  moreover have "(\<Sum>i<15. recovery_poll_delay i) = 4200"
    by (simp add: recovery_poll_delay_def lessThan_nat_numeral lessThan_Suc)
  ultimately show False by (simp add: RECOVERY_TIMEOUT_MS_def)
qed

section \<open>A concrete recovery\<close>

text \<open>A popup takes the place of the primary tab; closing it brings the primary tab back.\<close>

definition example_tab :: "u32 \<Rightarrow> string \<Rightarrow> string \<Rightarrow> bool \<Rightarrow> tab_info" where
  "example_tab index target url active = \<lparr>tab_index = index, tab_target_id = target, tab_url = url,
     tab_title = [], tab_active = active, tab_active_authority = None, tab_degraded_reason = None\<rparr>"

definition example_interference_session :: interference_session where
  "example_interference_session =
     \<lparr>ins_human = example_session\<lparr>hss_handoff := handoff_set_available True (hss_handoff example_session)\<rparr>,
      ins_interference = \<lparr>irs_projection = interference_runtime_info_default,
        irs_baseline = \<lparr>ibl_primary_target_id = Some ''t'', ibl_primary_url = Some ''https://a'',
          ibl_last_tab_count = 1\<rparr>\<rparr>\<rparr>"

definition example_popup_probe :: "nat live_probe" where
  "example_popup_probe = example_probe\<lparr>lpr_tabs :=
     Inr [example_tab 0 ''t'' ''https://a'' False, example_tab 1 ''p'' ''https://b'' True]\<rparr>"

definition example_policy :: launch_policy_info where
  "example_policy = \<lparr>lpi_headless = False, lpi_connection_target = None\<rparr>"

definition example_answers :: "nat recovery_answers" where
  "example_answers = \<lparr>rca_back = None, rca_close_tab = (\<lambda>_. None), rca_switch_tab = (\<lambda>_. None),
     rca_escape_key = None, rca_send_keys = None, rca_execute_js = Inl [],
     rca_parse_probe = (\<lambda>_. Inl []), rca_click_xy = (\<lambda>_ _. None)\<rparr>"

lemma example_hints:
  "list_ex (contains_str (to_ascii_lowercase ''https://b '')) human_verification_needles = False"
  "list_ex (contains_str (to_ascii_lowercase ''https://a '')) human_verification_needles = False"
  by code_simp+

text \<open>What the example sessions look like to the classifier: nothing observed, the page at its
  defaults, no handoff.\<close>

definition quiet_session :: "interference_session \<Rightarrow> bool" where
  "quiet_session s \<longleftrightarrow> hss_observatory (ins_human s) = runtime_observatory_default \<and>
     hvi_status (hss_handoff (ins_human s)) = HandoffAvailable \<and>
     rsp_readiness (hss_runtime_state (ins_human s)) = readiness_info_default"

definition quiet_classify ::
  "tab_info list \<Rightarrow> handoff_info \<Rightarrow> interference_runtime_state \<Rightarrow> interference_runtime_state" where
  "quiet_classify tabs handoff =
     state_classify tabs (projected_observatory 0 0 runtime_observatory_default) readiness_info_default handoff"

lemma quiet_refresh:
  assumes "quiet_session s" "lpr_runtime_state probe = Inr snap"
    "rss_readiness_state snap = readiness_info_default" "lpr_tabs probe = Inr tabs"
    "hss_observatory_ingress (ins_human s) = 0" "hss_request_ingress (ins_human s) = 0"
  shows "\<exists>refresh u. refresh_live_runtime_and_interference_snapshot ReadOnlyIntent policy probe s =
      (Inr refresh, u) \<and> irf_tabs refresh = tabs \<and> quiet_session u \<and>
      irf_interference refresh = irs_projection (ins_interference u) \<and>
      hss_observatory_ingress (ins_human u) = 0 \<and> hss_request_ingress (ins_human u) = 0 \<and>
      ins_interference u = quiet_classify tabs (hss_handoff (ins_human s)) (ins_interference s)"
proof -
  let ?h = "refresh_surfaces policy probe (ins_human s)"
  have "rsp_readiness (hss_runtime_state ?h) = readiness_info_default"
    using assms(1-3) by (simp add: refresh_live_runtime_state_def
        publish_runtime_state_snapshot_def publish_runtime_state_snapshot_if_def
        runtime_state_replace_def Let_def quiet_session_def)
  then show ?thesis
    using assms(1,4-6) by (simp add: refresh_live_runtime_and_interference_snapshot_def Let_def
        classify_interference_runtime_def quiet_classify_def quiet_session_def
        runtime_state_snapshot_of_def)
qed

lemma quiet_no_hint:
  "hvi_status handoff = HandoffAvailable \<Longrightarrow>
   has_human_verification_hint (Some ''https://a'') (Some []) readiness_info_default handoff = False"
  "hvi_status handoff = HandoffAvailable \<Longrightarrow>
   has_human_verification_hint (Some ''https://b'') (Some []) readiness_info_default handoff = False"
  using example_hints by (simp_all add: has_human_verification_hint_def readiness_info_default_def Let_def)

lemma example_popup_classified:
  assumes "hvi_status handoff = HandoffAvailable" "ibl_primary_target_id (irs_baseline s) = Some ''t''"
    "ibl_primary_url (irs_baseline s) = Some ''https://a''" "ibl_last_tab_count (irs_baseline s) = 1"
    and "t = quiet_classify
      [example_tab 0 ''t'' ''https://a'' False, example_tab 1 ''p'' ''https://b'' True] handoff s"
  shows "observation_kind (inf_current_interference (irs_projection t)) = Some PopupHijack"
    "irs_baseline t = (irs_baseline s)\<lparr>ibl_last_tab_count := 2\<rparr>"
proof -
  note r = state_classify_result [OF assms(5) [unfolded quiet_classify_def]]
  have "find_active_tab [example_tab 0 ''t'' ''https://a'' False, example_tab 1 ''p'' ''https://b'' True] =
      Some (example_tab 1 ''p'' ''https://b'' True)"
    by (simp add: find_active_tab_def example_tab_def)
  then show "observation_kind (inf_current_interference (irs_projection t)) = Some PopupHijack"
    unfolding r(4) using assms(1-4)
    by (simp add: classify_observation_def Let_def example_tab_def authoritative_url_def
        page_identity_authoritative_def quiet_no_hint is_popup_hijack_def observation_kind_def)
  show "irs_baseline t = (irs_baseline s)\<lparr>ibl_last_tab_count := 2\<rparr>"
    using assms(2,5) by (simp add: quiet_classify_def state_classify_def classify_def Let_def)
qed

lemma example_primary_classified:
  assumes "hvi_status handoff = HandoffAvailable" "ibl_primary_target_id (irs_baseline s) = Some ''t''"
    "ibl_primary_url (irs_baseline s) = Some ''https://a''"
    and "t = quiet_classify [example_tab 0 ''t'' ''https://a'' True] handoff s"
  shows "inf_current_interference (irs_projection t) = None"
    "inf_status (irs_projection t) = InterferenceInactive"
proof -
  note r = state_classify_result [OF assms(4) [unfolded quiet_classify_def]]
  have "find_active_tab [example_tab 0 ''t'' ''https://a'' True] =
      Some (example_tab 0 ''t'' ''https://a'' True)"
    by (simp add: find_active_tab_def example_tab_def)
  moreover have "\<not> has_third_party_noise current (projected_observatory 0 0 runtime_observatory_default)
      readiness url" for current readiness url
    by (auto simp: has_third_party_noise_def third_party_noise_stats_of_def third_party_hosts_def
        projected_observatory_def projection_with_drop_count_def runtime_observatory_default_def
        List.map_filter_def Let_def split: option.splits)
  moreover have "\<not> has_overlay_interference readiness_info_default"
    by (simp add: has_overlay_interference_def readiness_info_default_def)
  ultimately show none: "inf_current_interference (irs_projection t) = None"
    unfolding r(4) using assms(1-3)
    by (simp add: classify_observation_def Let_def example_tab_def authoritative_url_def
        page_identity_authoritative_def quiet_no_hint is_popup_hijack_def observation_kind_def
        has_interstitial_navigation_hint_def has_unknown_navigation_drift_def)
  show "inf_status (irs_projection t) = InterferenceInactive"
    unfolding r(5) by (simp add: none)
qed

lemma example_recovery:
  "\<exists>report t. recover (\<lambda>_. []) example_policy example_popup_probe example_answers example_popup_probe
     [(example_probe, 100)] example_interference_session = Some (report, t) \<and>
     irr_result report = Some RecoverySucceeded"
proof -
  let ?s = example_interference_session
  have quiet: "quiet_session ?s" and zero: "hss_observatory_ingress (ins_human ?s) = 0"
    "hss_request_ingress (ins_human ?s) = 0"
    and start: "ibl_primary_target_id (irs_baseline (ins_interference ?s)) = Some ''t''"
    "ibl_primary_url (irs_baseline (ins_interference ?s)) = Some ''https://a''"
    "ibl_last_tab_count (irs_baseline (ins_interference ?s)) = 1"
    by (simp_all add: quiet_session_def example_interference_session_def example_session_def
        handoff_set_available_def runtime_state_default_def)
  have snap: "lpr_runtime_state example_probe = Inr \<lparr>rss_state_inspector = state_inspector_info_default,
       rss_readiness_state = readiness_info_default\<rparr>"
    "lpr_tabs example_probe = Inr [example_tab 0 ''t'' ''https://a'' True]"
    by (simp_all add: example_probe_def example_tab_def)
  have popup: "lpr_runtime_state example_popup_probe = Inr \<lparr>rss_state_inspector = state_inspector_info_default,
       rss_readiness_state = readiness_info_default\<rparr>"
    "lpr_tabs example_popup_probe =
       Inr [example_tab 0 ''t'' ''https://a'' False, example_tab 1 ''p'' ''https://b'' True]"
    using snap by (simp_all add: example_popup_probe_def)
  obtain refresh u where u: "refresh_live_runtime_and_interference_snapshot ReadOnlyIntent example_policy
        example_popup_probe ?s = (Inr refresh, u)"
      "irf_tabs refresh = [example_tab 0 ''t'' ''https://a'' False, example_tab 1 ''p'' ''https://b'' True]"
      "quiet_session u" "irf_interference refresh = irs_projection (ins_interference u)"
      "hss_observatory_ingress (ins_human u) = 0" "hss_request_ingress (ins_human u) = 0"
      "ins_interference u = quiet_classify
        [example_tab 0 ''t'' ''https://a'' False, example_tab 1 ''p'' ''https://b'' True]
        (hss_handoff (ins_human ?s)) (ins_interference ?s)"
    using quiet_refresh [OF quiet popup(1) _ popup(2) zero, of example_policy] by auto
  have available: "hvi_status (hss_handoff (ins_human ?s)) = HandoffAvailable"
    using quiet by (simp add: quiet_session_def)
  note first = example_popup_classified [OF available start u(7)]
  let ?v = "with_interference (begin_recovery CloseUnexpectedTab) u"
  have v: "quiet_session ?v" "hss_observatory_ingress (ins_human ?v) = 0"
    "hss_request_ingress (ins_human ?v) = 0"
    using u(3,5,6) by (simp_all add: quiet_session_def with_interference_def)
  obtain final w where w: "refresh_live_runtime_and_interference_snapshot ReadOnlyIntent example_policy
        example_probe ?v = (Inr final, w)" "irf_tabs final = [example_tab 0 ''t'' ''https://a'' True]"
      "irf_interference final = irs_projection (ins_interference w)"
      "ins_interference w = quiet_classify [example_tab 0 ''t'' ''https://a'' True]
        (hss_handoff (ins_human ?v)) (ins_interference ?v)"
    using quiet_refresh [OF v(1) snap(1) _ snap(2) v(2,3), of example_policy] by auto
  have available': "hvi_status (hss_handoff (ins_human ?v)) = HandoffAvailable"
    using v(1) by (simp add: quiet_session_def)
  have base: "ibl_primary_target_id (irs_baseline (ins_interference ?v)) = Some ''t''"
    "ibl_primary_url (irs_baseline (ins_interference ?v)) = Some ''https://a''"
    using first(2) start by (simp_all add: with_interference_def begin_recovery_def)
  note second = example_primary_classified [OF available' base w(4)]
  let ?ctx = "(recovery_context (ins_interference u))\<lparr>irc_projection := irf_interference refresh\<rparr>"
  have active: "find_active_tab (irf_tabs refresh) = Some (example_tab 1 ''p'' ''https://b'' True)"
    "find_active_tab (irf_tabs final) = Some (example_tab 0 ''t'' ''https://a'' True)"
    by (simp_all add: u(2) w(2) find_active_tab_def example_tab_def)
  obtain current where current: "inf_current_interference (irs_projection (ins_interference u)) = Some current"
    using first(1) by (auto simp: observation_kind_def)
  have sel: "select_recovery_action ?ctx (irf_tabs refresh) = Some CloseUnexpectedTab"
    using first(1) active(1) by (simp add: select_recovery_action_def u(4) or_else_def)
  have fence: "recovery_fence_satisfied CloseUnexpectedTab ?ctx final"
    using second active(2) first(2) start w(2)
    by (simp add: recovery_fence_satisfied_def w(3) primary_context_restored_def recovery_context_def
        example_tab_def)
  have applied: "apply_recovery_action example_answers CloseUnexpectedTab ?ctx (irf_tabs refresh) = Inr ()"
    using active(1) by (simp add: apply_recovery_action_def failing_def example_answers_def)
  show ?thesis
    unfolding recover_def using u(1,4) current sel applied fence w(1) by (simp add: Let_def)
qed

section \<open>What a recovery reports\<close>

lemma recovery_fence_facts:
  assumes "recovery_fence_satisfied action context final"
  shows "inf_status (irf_interference final) = InterferenceInactive \<and>
    inf_current_interference (irf_interference final) = None \<and>
    (\<exists>active. find_active_tab (irf_tabs final) = Some active \<and>
       (action = BackNavigate \<and> ibl_primary_url (irc_baseline context) = None \<or>
        primary_context_restored active context)) \<and>
    (action = CloseUnexpectedTab \<longrightarrow> ibl_last_tab_count (irc_baseline context) = 0 \<or>
       length (irf_tabs final) \<le> ibl_last_tab_count (irc_baseline context))"
  using assms
  by (cases action) (auto simp: recovery_fence_satisfied_def primary_context_restored_def
      split: if_splits option.splits)

lemma selected_recovery_action:
  "select_recovery_action context tabs = Some EscalateToHandoff \<longleftrightarrow>
     observation_kind (inf_current_interference (irc_projection context)) =
       Some HumanVerificationRequired"
  "observation_kind (inf_current_interference (irc_projection context)) = Some ThirdPartyNoise \<Longrightarrow>
     select_recovery_action context tabs = None"
  by (auto simp: select_recovery_action_def or_else_def split: option.splits interference_kind.splits)

text \<open>What a report says, given the first refresh of the recovery.\<close>

definition recovery_report_ok ::
  "interference_refresh_snapshot \<Rightarrow> interference_session \<Rightarrow> interference_recovery_report
   \<Rightarrow> interference_session \<Rightarrow> bool" where
  "recovery_report_ok refresh u report t \<longleftrightarrow>
     (irr_action report = Some EscalateToHandoff \<longleftrightarrow>
        observation_kind (inf_current_interference (irf_interference refresh)) =
          Some HumanVerificationRequired) \<and>
     (observation_kind (inf_current_interference (irf_interference refresh)) = Some ThirdPartyNoise \<longrightarrow>
        irr_action report = None \<and> irr_result report = Some RecoveryAbandoned) \<and>
     (irr_result report = Some RecoverySucceeded \<longrightarrow>
        inf_status (irs_projection (ins_interference t)) = InterferenceInactive \<and>
        inf_current_interference (irs_projection (ins_interference t)) = None \<and>
        (\<exists>final active. ibl_last_tab_count (irs_baseline (ins_interference t)) = length final \<and>
           find_active_tab final = Some active \<and>
           (irr_action report = Some BackNavigate \<and>
              ibl_primary_url (irs_baseline (ins_interference u)) = None \<or>
            primary_context_restored active (recovery_context (ins_interference u))) \<and>
           (irr_action report = Some CloseUnexpectedTab \<longrightarrow> length final \<le> length (irf_tabs refresh))))"

lemma recover_reports:
  assumes r: "refresh_live_runtime_and_interference_snapshot ReadOnlyIntent policy probe s = (Inr refresh, u)"
    and recover: "recover code_name policy probe answers settle polls s = Some (report, t)"
    and idle: "\<not> inf_recovery_in_progress (irs_projection (ins_interference s))"
  shows "recovery_report_ok refresh u report t \<and>
    \<not> inf_recovery_in_progress (irs_projection (ins_interference t)) \<and>
    (irr_fence_satisfied report \<longrightarrow>
       irr_result report = Some RecoverySucceeded \<or> irr_result report = Some RecoveryEscalated) \<and>
    (irr_action report \<noteq> Some EscalateToHandoff \<longrightarrow>
       hss_handoff (ins_human t) = hss_handoff (ins_human s))"
proof -
  let ?ctx = "(recovery_context (ins_interference u))\<lparr>irc_projection := irf_interference refresh\<rparr>"
  note f = snapshot_result(1) [OF r] snapshot_result(2) [OF r idle] snapshot_result(3) [OF r refl]
  have p: "irc_projection ?ctx = irf_interference refresh"
    "irc_baseline ?ctx = irs_baseline (ins_interference u)"
    "primary_context_restored a ?ctx =
       primary_context_restored a (recovery_context (ins_interference u))" for a
    by (simp_all add: recovery_context_def primary_context_restored_def)
  note sel = selected_recovery_action [of ?ctx "irf_tabs refresh", unfolded p(1)]
  from recover_after_refresh [OF r recover refl] show ?thesis
  proof (elim disjE exE conjE, goal_cases none abandoned tried)
    case none
    then show ?thesis using f by (simp add: recovery_report_ok_def observation_kind_def)
  next
    case abandoned
    then show ?thesis using f sel
      by (auto simp: recovery_report_ok_def with_interference_def record_recovery_outcome_def)
  next
    case (tried action v)
    have t: "\<not> inf_recovery_in_progress (irs_projection (ins_interference t))"
      "hss_handoff (ins_human t) = hss_handoff (ins_human v)"
      "inf_status (irs_projection (ins_interference t)) = inf_status (irs_projection (ins_interference v))"
      "inf_current_interference (irs_projection (ins_interference t)) =
         inf_current_interference (irs_projection (ins_interference v))"
      "irs_baseline (ins_interference t) = irs_baseline (ins_interference v)"
      using tried(6) by (simp_all add: with_interference_def finish_recovery_def)
    have selected: "irr_action report = Some EscalateToHandoff \<longleftrightarrow>
        observation_kind (inf_current_interference (irf_interference refresh)) =
          Some HumanVerificationRequired"
      "observation_kind (inf_current_interference (irf_interference refresh)) \<noteq> Some ThirdPartyNoise"
      using sel tried(1,3) by auto
    show ?thesis
    proof (cases "irr_result report = Some RecoverySucceeded")
      case True
      with tried(7) obtain final where final: "recovery_fence_satisfied action ?ctx final"
        "irf_interference final = irs_projection (ins_interference v)"
        "ibl_last_tab_count (irs_baseline (ins_interference v)) = length (irf_tabs final)"
        "hss_handoff (ins_human v) = hss_handoff (ins_human u)"
        by (auto split: if_splits)
      note facts = recovery_fence_facts [OF final(1), unfolded p final(2)]
      obtain active where active: "find_active_tab (irf_tabs final) = Some active"
        "action = BackNavigate \<and> ibl_primary_url (irs_baseline (ins_interference u)) = None \<or>
         primary_context_restored active (recovery_context (ins_interference u))"
        using facts by blast
      have "irf_tabs refresh \<noteq> []"
        using tried(1) f(3) by (auto simp: select_recovery_action_def observation_kind_def find_active_tab_def)
      then have "action = CloseUnexpectedTab \<longrightarrow> length (irf_tabs final) \<le> length (irf_tabs refresh)"
        using facts f(3) by auto
      then show ?thesis
        unfolding recovery_report_ok_def
        using active facts final(3,4) f(1) t selected True tried(3) by auto
    next
      case False
      with tried t selected f(1) show ?thesis
        by (auto simp: recovery_report_ok_def split: if_splits)
    qed
  qed
qed

section \<open>Properties\<close>

text \<open>
  The interference surface is well formed in every state that classifications, mode changes,
  baseline updates, recoveries and failed probes can reach: its policies are those of its mode, it is
  active only with a current interference and inactive only without one, a required handoff and a
  remembered last interference agree with the current one, a degraded reason is shown only when
  degraded, and the baseline never holds a URL without the tab it belongs to. The baseline is safe
  from hijacking: once a primary context is set only an explicit adoption changes it, and a
  classification sets one only when it found no interference, from the active tab it was given.
\<close>

theorem interference_surface_well_formed:
  assumes "s = fold run_interference_op ops interference_runtime_default"
    and "p = irs_projection s" and "t = state_classify tabs observatory readiness handoff s"
  shows "inf_active_policies p = active_policies_for_mode (inf_mode p) \<and>
    (inf_status p = InterferenceActive \<longrightarrow> inf_current_interference p \<noteq> None) \<and>
    (inf_status p = InterferenceInactive \<longrightarrow>
       inf_current_interference p = None \<and> \<not> inf_handoff_required p) \<and>
    (inf_current_interference p \<noteq> None \<longrightarrow> inf_last_interference p = inf_current_interference p) \<and>
    (inf_degraded_reason p \<noteq> None \<longrightarrow> inf_status p = InterferenceDegraded) \<and>
    (ibl_primary_url (irs_baseline s) \<noteq> None \<longrightarrow> ibl_primary_target_id (irs_baseline s) \<noteq> None) \<and>
    (primary_of s \<noteq> (None, None) \<longrightarrow> (\<forall>op\<in>set later_ops. \<forall>tabs. op \<noteq> AdoptPrimaryContext tabs) \<longrightarrow>
       primary_of (fold run_interference_op later_ops s) = primary_of s) \<and>
    (primary_of t \<noteq> primary_of s \<longrightarrow> inf_status (irs_projection t) = InterferenceInactive \<and>
       (\<exists>tab. find_active_tab tabs = Some tab \<and>
          primary_of t = (Some (tab_target_id tab), authoritative_url tab)))"
proof -
  have "interference_info_ok p" "baseline_ok (irs_baseline s)"
    using interference_run_ok [of ops] assms(1,2) by simp_all
  then show ?thesis
    using primary_run [of s later_ops] state_classify_result(7) [OF assms(3)]
    by (auto simp: interference_info_ok_def baseline_ok_def)
qed

theorem interference_surface_well_formed_witness:
  "inf_active_policies (irs_projection
     (fold run_interference_op [SetInterferenceMode StrictMode, DegradeInterference ''x'']
        interference_runtime_default)) = active_policies_for_mode StrictMode \<and>
   primary_of (fold run_interference_op [DegradeInterference ''x'']
     (fold run_interference_op [PrimeBaseline [example_tab 0 ''t'' ''https://a'' True]]
        interference_runtime_default)) = (Some ''t'', Some ''https://a'')"
proof -
  let ?a = "fold run_interference_op [SetInterferenceMode StrictMode, DegradeInterference ''x'']
        interference_runtime_default"
  let ?b = "fold run_interference_op [PrimeBaseline [example_tab 0 ''t'' ''https://a'' True]]
        interference_runtime_default"
  have "inf_active_policies (irs_projection ?a) = active_policies_for_mode (inf_mode (irs_projection ?a))"
    using interference_surface_well_formed [OF refl refl refl] by blast
  moreover have "inf_mode (irs_projection ?a) = StrictMode"
    by (simp add: set_mode_def interference_mark_degraded_def)
  moreover have b: "primary_of ?b = (Some ''t'', Some ''https://a'')"
    by (simp add: prime_baseline_from_tabs_def interference_runtime_default_def find_active_tab_def
        example_tab_def authoritative_url_def page_identity_authoritative_def primary_of_def)
  moreover have "primary_of (fold run_interference_op [DegradeInterference ''x''] ?b) = primary_of ?b"
  proof -
    have "primary_of ?b \<noteq> (None, None)" using b by simp
    moreover have "\<forall>op\<in>set [DegradeInterference ''x'']. \<forall>tabs. op \<noteq> AdoptPrimaryContext tabs" by simp
    ultimately show ?thesis
      using interference_surface_well_formed [OF refl refl refl] by blast
  qed
  ultimately show ?thesis by simp
qed


text \<open>
  C20. A recovery reports success only behind its fence. When it reports success, the last refresh
  classified the session as free of interference, there is an active tab and it is the primary
  context (or the action was a back navigation and no primary URL is known), and closing an
  unexpected tab left no more tabs than before. A recovery never leaves itself marked as in
  progress, reports a satisfied fence only with a success or an escalation, escalates to a handoff
  exactly for a human verification and leaves the handoff alone otherwise. A third-party noise is
  abandoned without an action, and a failed first refresh acts on nothing.
\<close>

theorem recovery_success_is_fenced:
  assumes "recover code_name policy probe answers settle polls s = Some (report, t)"
    and "\<not> inf_recovery_in_progress (irs_projection (ins_interference s))"
  shows "\<not> inf_recovery_in_progress (irs_projection (ins_interference t)) \<and>
    (irr_fence_satisfied report \<longrightarrow>
       irr_result report = Some RecoverySucceeded \<or> irr_result report = Some RecoveryEscalated) \<and>
    (irr_action report \<noteq> Some EscalateToHandoff \<longrightarrow>
       hss_handoff (ins_human t) = hss_handoff (ins_human s)) \<and>
    (case refresh_live_runtime_and_interference_snapshot ReadOnlyIntent policy probe s of
       (Inl error, u) \<Rightarrow> t = u \<and> irr_action report = None \<and> irr_result report = None
     | (Inr refresh, u) \<Rightarrow> recovery_report_ok refresh u report t)"
proof -
  obtain r u where r: "refresh_live_runtime_and_interference_snapshot ReadOnlyIntent policy probe s = (r, u)"
    by fastforce
  show ?thesis
  proof (cases r)
    case (Inl error)
    have "report = interference_recovery_report_default\<lparr>irr_reason :=
        Some (''live_refresh_failed:'' @ rub_error_display code_name error)\<rparr>" "t = u"
      using assms(1) r Inl by (auto simp: recover_def)
    with snapshot_result(1) [OF r] snapshot_result(2) [OF r assms(2)] r Inl show ?thesis
      by (simp add: interference_recovery_report_default_def)
  next
    case (Inr refresh)
    with recover_reports [OF r [unfolded Inr] assms] r show ?thesis by simp
  qed
qed

theorem recovery_success_is_fenced_witness:
  "\<exists>report t. recover (\<lambda>_. []) example_policy example_popup_probe example_answers example_popup_probe
     [(example_probe, 100)] example_interference_session = Some (report, t) \<and>
   irr_result report = Some RecoverySucceeded \<and>
   \<not> inf_recovery_in_progress (irs_projection (ins_interference t)) \<and>
   inf_current_interference (irs_projection (ins_interference t)) = None"
proof -
  obtain report t where rec: "recover (\<lambda>_. []) example_policy example_popup_probe example_answers
      example_popup_probe [(example_probe, 100)] example_interference_session = Some (report, t)"
    and ok: "irr_result report = Some RecoverySucceeded"
    using example_recovery by blast
  have "\<not> inf_recovery_in_progress (irs_projection (ins_interference example_interference_session))"
    by (simp add: example_interference_session_def interference_runtime_default_def
        interference_runtime_info_default_def)
  from recovery_success_is_fenced [OF rec this] rec ok show ?thesis
    by (auto simp: recovery_report_ok_def split: prod.splits sum.splits)
qed

text \<open>
  A recovery always ends. Its fence is polled with growing pauses up to a deadline of four
  seconds, and whatever the browser answers, sixteen polls reach a verdict: when no poll happens
  before the pause of the previous one is over, the recovery returns a report.
\<close>

theorem recovery_returns:
  assumes "poll_times_ok 0 0 polls" "16 \<le> length polls"
  shows "\<exists>report t. recover code_name policy probe answers settle polls s = Some (report, t)"
  unfolding recover_def Let_def
  by (auto split: sum.split option.split prod.split dest: sixteen_polls [OF assms, THEN notE])

theorem recovery_returns_witness:
  "\<exists>report t. recover (\<lambda>_. []) example_policy example_popup_probe example_answers example_popup_probe
     (map (\<lambda>i. (example_popup_probe, 300 * i)) [0..<16]) example_interference_session = Some (report, t)"
proof -
  have "poll_times_ok 0 0 (map (\<lambda>i. (example_popup_probe, 300 * i)) [0..<16])"
    by (simp add: upt_rec recovery_poll_delay_def)
  then show ?thesis by (rule recovery_returns) simp
qed

end
