(* ===== verification/Rub_Correlation.thy ===== *)
theory Rub_Correlation
  imports Rub_Observatory
begin

text \<open>
  The request correlation registry of the browser adapter (\<^verbatim>\<open>rub-cdp/src/request_correlation.rs\<close>).
  A network rule that rewrites, blocks or re-headers an intercepted request records what it did under
  the id of the interception and, when the browser names one, the id of the network request; the
  observatory looks the record up when the request is sent, answered or finished. The registry keeps
  five structures: the entries, two indices by id, the order of insertion, and an index of the entries
  no id has claimed yet, by tab, URL and method, for requests the browser reports under an unknown id.

  The refinement at the end shows that all five act as one list of entries.

  A \<^verbatim>\<open>BTreeMap<String, String>\<close> of headers is its list of entries; an \<^verbatim>\<open>Instant\<close> is a natural number of
  nanoseconds, and \<^verbatim>\<open>duration_since\<close> saturates at zero as subtraction on them does.
\<close>

section \<open>State\<close>

definition CORRELATION_LIMIT :: nat where
  "CORRELATION_LIMIT = 2048"

definition CORRELATION_TTL :: nat where
  "CORRELATION_TTL = 900 * 1000000000"

definition CORRELATION_REGISTRY_EVICTED_REASON :: string where
  "CORRELATION_REGISTRY_EVICTED_REASON = ''request_correlation_registry_evicted''"

definition CORRELATION_REGISTRY_TTL_EXPIRED_REASON :: string where
  "CORRELATION_REGISTRY_TTL_EXPIRED_REASON = ''request_correlation_registry_ttl_expired''"

definition CORRELATION_STRICT_FALLBACK_REASON :: string where
  "CORRELATION_STRICT_FALLBACK_REASON = ''request_correlation_unresolved_fallback''"

definition CORRELATION_RELAXED_FALLBACK_REASON :: string where
  "CORRELATION_RELAXED_FALLBACK_REASON = ''request_correlation_relaxed_fallback''"

definition CORRELATION_AMBIGUOUS_FALLBACK_REASON :: string where
  "CORRELATION_AMBIGUOUS_FALLBACK_REASON = ''request_correlation_ambiguous_fallback''"

type_synonym headers = "(string \<times> string) list"

record request_correlation =
  rqc_tab_target_id :: "string option"
  rqc_original_url :: string
  rqc_rewritten_url :: "string option"
  rqc_effective_request_headers :: "headers option"
  rqc_applied_rule_effects :: "network_rule_effect list"

record unresolved_correlation_match =
  ucm_expected_url :: string
  ucm_expected_method :: string
  ucm_effective_request_headers :: "headers option"
  ucm_expected_tab_target_id :: "string option"

record unresolved_lookup_key =
  ulk_expected_tab_target_id :: "string option"
  ulk_expected_url :: string
  ulk_expected_method :: string

record timed_correlation =
  tmc_recorded_at :: nat
  tmc_fetch_request_id :: string
  tmc_network_id :: "string option"
  tmc_unresolved_match :: "unresolved_correlation_match option"
  tmc_unresolved_lookup_key :: "unresolved_lookup_key option"
  tmc_correlation :: request_correlation

record correlation_fallback_metrics =
  cfm_unresolved_fallback_attempts :: u64
  cfm_unresolved_entries_scanned :: u64
  cfm_relaxed_match_candidates :: u64
  cfm_strict_match_candidates :: u64

record request_correlation_registry =
  rcr_next_id :: u64
  rcr_by_id :: "(u64, timed_correlation) mapping"
  rcr_by_fetch_request_id :: "(string, u64) mapping"
  rcr_by_network_request_id :: "(string, u64) mapping"
  rcr_order :: "u64 list"
  rcr_unresolved_by_lookup_key :: "(unresolved_lookup_key, u64 list) mapping"
  rcr_fallback_metrics :: correlation_fallback_metrics
  rcr_degraded_reasons :: "string list"

definition request_correlation_registry_default :: request_correlation_registry where
  "request_correlation_registry_default =
     \<lparr>rcr_next_id = 0, rcr_by_id = Mapping.empty, rcr_by_fetch_request_id = Mapping.empty,
      rcr_by_network_request_id = Mapping.empty, rcr_order = [],
      rcr_unresolved_by_lookup_key = Mapping.empty,
      rcr_fallback_metrics = \<lparr>cfm_unresolved_fallback_attempts = 0,
        cfm_unresolved_entries_scanned = 0, cfm_relaxed_match_candidates = 0,
        cfm_strict_match_candidates = 0\<rparr>,
      rcr_degraded_reasons = []\<rparr>"

section \<open>Operations\<close>

definition normalize_header_name :: "string \<Rightarrow> string" where
  "normalize_header_name name = to_ascii_lowercase name"

definition headers_include :: "headers \<Rightarrow> headers \<Rightarrow> bool" where
  "headers_include actual expected \<longleftrightarrow>
     list_all (\<lambda>(name, value).
       or_else (map_of actual (normalize_header_name name)) (map_of actual name) = Some value) expected"

definition from_match :: "unresolved_correlation_match \<Rightarrow> unresolved_lookup_key" where
  "from_match m = \<lparr>ulk_expected_tab_target_id = ucm_expected_tab_target_id m,
     ulk_expected_url = ucm_expected_url m, ulk_expected_method = ucm_expected_method m\<rparr>"

definition for_request :: "string \<Rightarrow> string \<Rightarrow> string option \<Rightarrow> unresolved_lookup_key" where
  "for_request url http_method tab_target = \<lparr>ulk_expected_tab_target_id = tab_target,
     ulk_expected_url = url, ulk_expected_method = http_method\<rparr>"

definition emit_degraded ::
  "string \<Rightarrow> request_correlation_registry \<Rightarrow> request_correlation_registry" where
  "emit_degraded reason s =
     (if deque_back (rcr_degraded_reasons s) \<noteq> Some reason
      then s\<lparr>rcr_degraded_reasons := rcr_degraded_reasons s @ [reason]\<rparr> else s)"

definition remove_from_unresolved_index ::
  "unresolved_lookup_key \<Rightarrow> u64 \<Rightarrow> request_correlation_registry \<Rightarrow> request_correlation_registry" where
  "remove_from_unresolved_index lookup_key entry_id s =
     (case Mapping.lookup (rcr_unresolved_by_lookup_key s) lookup_key of
        Some entries \<Rightarrow>
          let entries = filter (\<lambda>existing. existing \<noteq> entry_id) entries
          in s\<lparr>rcr_unresolved_by_lookup_key :=
               (if entries = [] then Mapping.delete lookup_key (rcr_unresolved_by_lookup_key s)
                else Mapping.update lookup_key entries (rcr_unresolved_by_lookup_key s))\<rparr>
      | None \<Rightarrow> s)"

definition remove_entry ::
  "u64 \<Rightarrow> request_correlation_registry \<Rightarrow> request_correlation option \<times> request_correlation_registry" where
  "remove_entry entry_id s =
     (case Mapping.lookup (rcr_by_id s) entry_id of
        None \<Rightarrow> (None, s)
      | Some entry \<Rightarrow>
          let s = s\<lparr>rcr_by_id := Mapping.delete entry_id (rcr_by_id s),
                    rcr_order := filter (\<lambda>existing. existing \<noteq> entry_id) (rcr_order s)\<rparr>;
              s = (case tmc_unresolved_lookup_key entry of
                     Some lookup_key \<Rightarrow> remove_from_unresolved_index lookup_key entry_id s
                   | None \<Rightarrow> s);
              s = (if Mapping.lookup (rcr_by_fetch_request_id s) (tmc_fetch_request_id entry) =
                      Some entry_id
                   then s\<lparr>rcr_by_fetch_request_id :=
                     Mapping.delete (tmc_fetch_request_id entry) (rcr_by_fetch_request_id s)\<rparr> else s);
              s = (case tmc_network_id entry of
                     Some network_id \<Rightarrow>
                       if Mapping.lookup (rcr_by_network_request_id s) network_id = Some entry_id
                       then s\<lparr>rcr_by_network_request_id :=
                         Mapping.delete network_id (rcr_by_network_request_id s)\<rparr> else s
                   | None \<Rightarrow> s)
          in (Some (tmc_correlation entry), s))"

definition retire_unresolved ::
  "u64 \<Rightarrow> request_correlation_registry \<Rightarrow> request_correlation_registry" where
  "retire_unresolved entry_id s =
     (let lookup_key = Option.bind (Mapping.lookup (rcr_by_id s) entry_id) tmc_unresolved_lookup_key;
          s = (case lookup_key of
                 Some lookup_key \<Rightarrow> remove_from_unresolved_index lookup_key entry_id s
               | None \<Rightarrow> s)
      in case Mapping.lookup (rcr_by_id s) entry_id of
           Some entry \<Rightarrow> s\<lparr>rcr_by_id := Mapping.update entry_id
             (entry\<lparr>tmc_unresolved_match := None, tmc_unresolved_lookup_key := None\<rparr>) (rcr_by_id s)\<rparr>
         | None \<Rightarrow> s)"

definition direct_entry_id :: "string \<Rightarrow> request_correlation_registry \<Rightarrow> u64 option" where
  "direct_entry_id request_id s =
     or_else (Mapping.lookup (rcr_by_network_request_id s) request_id)
       (Mapping.lookup (rcr_by_fetch_request_id s) request_id)"

definition replaced_entry_ids ::
  "string \<Rightarrow> string option \<Rightarrow> request_correlation_registry \<Rightarrow> u64 list" where
  "replaced_entry_ids fetch_request_id network_id s =
     (let replaced = (case Mapping.lookup (rcr_by_fetch_request_id s) fetch_request_id of
                        Some entry_id \<Rightarrow> [entry_id] | None \<Rightarrow> [])
      in case Option.bind network_id (Mapping.lookup (rcr_by_network_request_id s)) of
           Some entry_id \<Rightarrow> if entry_id \<notin> set replaced then replaced @ [entry_id] else replaced
         | None \<Rightarrow> replaced)"

definition retire_replaced_direct_authority ::
  "string \<Rightarrow> string option \<Rightarrow> request_correlation_registry \<Rightarrow> request_correlation_registry" where
  "retire_replaced_direct_authority fetch_request_id network_id s =
     fold (\<lambda>entry_id s. snd (remove_entry entry_id s)) (replaced_entry_ids fetch_request_id network_id s) s"

definition insert_timed ::
  "string \<Rightarrow> string option \<Rightarrow> string \<Rightarrow> request_correlation \<Rightarrow> nat \<Rightarrow> request_correlation_registry
   \<Rightarrow> request_correlation_registry" where
  "insert_timed fetch_request_id network_id http_method correlation now s =
     (let s = retire_replaced_direct_authority fetch_request_id network_id s;
          entry_id = rcr_next_id s;
          s = s\<lparr>rcr_next_id := saturating_add (rcr_next_id s) 1,
                rcr_by_fetch_request_id :=
                  Mapping.update fetch_request_id entry_id (rcr_by_fetch_request_id s),
                rcr_by_network_request_id :=
                  (case network_id of
                     Some network_id \<Rightarrow>
                       Mapping.update network_id entry_id (rcr_by_network_request_id s)
                   | None \<Rightarrow> rcr_by_network_request_id s)\<rparr>;
          unresolved_match =
            \<lparr>ucm_expected_url = (case rqc_rewritten_url correlation of
                Some rewritten_url \<Rightarrow> rewritten_url | None \<Rightarrow> rqc_original_url correlation),
             ucm_expected_method = http_method,
             ucm_effective_request_headers = rqc_effective_request_headers correlation,
             ucm_expected_tab_target_id = rqc_tab_target_id correlation\<rparr>;
          lookup_key = from_match unresolved_match
      in s\<lparr>rcr_unresolved_by_lookup_key := Mapping.update lookup_key
             ((case Mapping.lookup (rcr_unresolved_by_lookup_key s) lookup_key of
                 Some entries \<Rightarrow> entries | None \<Rightarrow> []) @ [entry_id])
             (rcr_unresolved_by_lookup_key s),
           rcr_by_id := Mapping.update entry_id
             \<lparr>tmc_recorded_at = now, tmc_fetch_request_id = fetch_request_id,
              tmc_network_id = network_id, tmc_unresolved_match = Some unresolved_match,
              tmc_unresolved_lookup_key = Some lookup_key, tmc_correlation = correlation\<rparr>
             (rcr_by_id s),
           rcr_order := rcr_order s @ [entry_id]\<rparr>)"

text \<open>The loop of \<^verbatim>\<open>prune\<close>, with its two flags.\<close>

definition entry_expired :: "nat \<Rightarrow> u64 \<Rightarrow> request_correlation_registry \<Rightarrow> bool" where
  "entry_expired now entry_id s =
     (case Mapping.lookup (rcr_by_id s) entry_id of
        None \<Rightarrow> True
      | Some entry \<Rightarrow> now - tmc_recorded_at entry > CORRELATION_TTL)"

lemma remove_entry_order:
  "length (rcr_order (snd (remove_entry entry_id s))) \<le> length (rcr_order s)"
  by (auto simp: remove_entry_def remove_from_unresolved_index_def Let_def
      split: option.splits)

function prune_loop ::
  "nat \<Rightarrow> bool \<Rightarrow> bool \<Rightarrow> request_correlation_registry \<Rightarrow> bool \<times> bool \<times> request_correlation_registry" where
  "prune_loop now expired_pruned bounded_evicted s =
     (case rcr_order s of
        [] \<Rightarrow> (expired_pruned, bounded_evicted, s)
      | oldest # rest \<Rightarrow>
          let expired = entry_expired now oldest s
          in if \<not> expired \<and> length (rcr_order s) \<le> CORRELATION_LIMIT
             then (expired_pruned, bounded_evicted, s)
             else prune_loop now (expired_pruned \<or> expired) (bounded_evicted \<or> \<not> expired)
               (snd (remove_entry oldest (s\<lparr>rcr_order := rest\<rparr>))))"
  by pat_completeness auto
termination
proof (relation "measure (\<lambda>(now, e, b, s). length (rcr_order s))", goal_cases)
  case (2 now e b s oldest rest x)
  then show ?case
    using remove_entry_order [of oldest "s\<lparr>rcr_order := rest\<rparr>"] by simp
qed simp

declare prune_loop.simps [simp del]

definition prune :: "nat \<Rightarrow> request_correlation_registry \<Rightarrow> request_correlation_registry" where
  "prune now s =
     (let (expired_pruned, bounded_evicted, s) = prune_loop now False False s;
          s = (if expired_pruned then emit_degraded CORRELATION_REGISTRY_TTL_EXPIRED_REASON s else s)
      in if bounded_evicted then emit_degraded CORRELATION_REGISTRY_EVICTED_REASON s else s)"

text \<open>The eviction loop of \<^verbatim>\<open>record_at\<close>.\<close>

function evict_loop ::
  "bool \<Rightarrow> request_correlation_registry \<Rightarrow> bool \<times> request_correlation_registry" where
  "evict_loop bounded_evicted s =
     (if length (rcr_order s) > CORRELATION_LIMIT
      then case rcr_order s of
             [] \<Rightarrow> (bounded_evicted, s)
           | oldest # rest \<Rightarrow> evict_loop True (snd (remove_entry oldest (s\<lparr>rcr_order := rest\<rparr>)))
      else (bounded_evicted, s))"
  by pat_completeness auto
termination
proof (relation "measure (\<lambda>(b, s). length (rcr_order s))", goal_cases)
  case (2 b s oldest rest)
  then show ?case
    using remove_entry_order [of oldest "s\<lparr>rcr_order := rest\<rparr>"] by simp
qed simp

declare evict_loop.simps [simp del]

definition record_at ::
  "string \<Rightarrow> string option \<Rightarrow> string \<Rightarrow> request_correlation \<Rightarrow> nat \<Rightarrow> request_correlation_registry
   \<Rightarrow> request_correlation_registry" where
  "record_at fetch_request_id network_id http_method correlation now s =
     (let s = prune now s;
          s = insert_timed fetch_request_id network_id http_method correlation now s;
          (bounded_evicted, s) = evict_loop False s
      in if bounded_evicted then emit_degraded CORRELATION_REGISTRY_EVICTED_REASON s else s)"

text \<open>The candidates of a request under an unknown id, scanned in order.\<close>

record unresolved_scan =
  usc_strict_match :: "u64 option"
  usc_strict_ambiguous :: bool
  usc_relaxed_match :: "u64 option"
  usc_relaxed_ambiguous :: bool
  usc_metrics :: correlation_fallback_metrics

definition scan_candidate ::
  "unresolved_lookup_key \<Rightarrow> headers option \<Rightarrow> request_correlation_registry \<Rightarrow> u64
   \<Rightarrow> unresolved_scan \<Rightarrow> unresolved_scan" where
  "scan_candidate lookup_key request_headers s entry_id c =
     (case Mapping.lookup (rcr_by_id s) entry_id of
        None \<Rightarrow> c
      | Some entry \<Rightarrow>
          (case tmc_unresolved_match entry of
             None \<Rightarrow> c
           | Some unresolved_match \<Rightarrow>
               let metrics = (usc_metrics c)\<lparr>cfm_unresolved_entries_scanned :=
                     saturating_add (cfm_unresolved_entries_scanned (usc_metrics c)) 1\<rparr>;
                   c = c\<lparr>usc_metrics := metrics\<rparr>
               in if tmc_unresolved_lookup_key entry \<noteq> Some lookup_key then c
                  else
                    let c = (if usc_relaxed_match c \<noteq> None then c\<lparr>usc_relaxed_ambiguous := True\<rparr>
                             else c\<lparr>usc_relaxed_match := Some entry_id\<rparr>);
                        c = c\<lparr>usc_metrics := metrics\<lparr>cfm_relaxed_match_candidates :=
                              saturating_add (cfm_relaxed_match_candidates metrics) 1\<rparr>\<rparr>;
                        strict_headers_match =
                          (case ucm_effective_request_headers unresolved_match of
                             Some expected_headers \<Rightarrow>
                               (case request_headers of
                                  Some actual_headers \<Rightarrow> headers_include actual_headers expected_headers
                                | None \<Rightarrow> False)
                           | None \<Rightarrow> True)
                    in if strict_headers_match
                       then
                         let c = c\<lparr>usc_metrics := (usc_metrics c)\<lparr>cfm_strict_match_candidates :=
                               saturating_add (cfm_strict_match_candidates (usc_metrics c)) 1\<rparr>\<rparr>
                         in if usc_strict_match c \<noteq> None then c\<lparr>usc_strict_ambiguous := True\<rparr>
                            else c\<lparr>usc_strict_match := Some entry_id\<rparr>
                       else c))"

definition find_unique_unresolved ::
  "string \<Rightarrow> string \<Rightarrow> headers option \<Rightarrow> string option \<Rightarrow> request_correlation_registry
   \<Rightarrow> u64 option \<times> request_correlation_registry" where
  "find_unique_unresolved url http_method request_headers tab_target s =
     (let metrics = (rcr_fallback_metrics s)\<lparr>cfm_unresolved_fallback_attempts :=
            saturating_add (cfm_unresolved_fallback_attempts (rcr_fallback_metrics s)) 1\<rparr>;
          lookup_key = for_request url http_method tab_target;
          candidate_entry_ids =
            (case Mapping.lookup (rcr_unresolved_by_lookup_key s) lookup_key of
               Some entries \<Rightarrow> entries | None \<Rightarrow> []);
          c = fold (scan_candidate lookup_key request_headers s) candidate_entry_ids
                \<lparr>usc_strict_match = None, usc_strict_ambiguous = False, usc_relaxed_match = None,
                 usc_relaxed_ambiguous = False, usc_metrics = metrics\<rparr>;
          s = s\<lparr>rcr_fallback_metrics := usc_metrics c\<rparr>
      in if usc_strict_ambiguous c
         then (None, emit_degraded CORRELATION_AMBIGUOUS_FALLBACK_REASON s)
         else case usc_strict_match c of
           Some entry_id \<Rightarrow> (Some entry_id, emit_degraded CORRELATION_STRICT_FALLBACK_REASON s)
         | None \<Rightarrow>
             if usc_relaxed_ambiguous c
             then (None, emit_degraded CORRELATION_AMBIGUOUS_FALLBACK_REASON s)
             else if usc_relaxed_match c \<noteq> None
             then (usc_relaxed_match c, emit_degraded CORRELATION_RELAXED_FALLBACK_REASON s)
             else (None, s))"

definition take_at ::
  "string \<Rightarrow> string \<Rightarrow> string \<Rightarrow> headers option \<Rightarrow> string option \<Rightarrow> nat \<Rightarrow> request_correlation_registry
   \<Rightarrow> request_correlation option \<times> request_correlation_registry" where
  "take_at request_id url http_method request_headers tab_target now s =
     (let s = prune now s;
          (entry_id, s) =
            (case direct_entry_id request_id s of
               Some entry_id \<Rightarrow> (Some entry_id, s)
             | None \<Rightarrow> find_unique_unresolved url http_method request_headers tab_target s)
      in case entry_id of
           Some entry_id \<Rightarrow> remove_entry entry_id s
         | None \<Rightarrow> (None, s))"

definition peek_at ::
  "string \<Rightarrow> string \<Rightarrow> string \<Rightarrow> headers option \<Rightarrow> string option \<Rightarrow> nat \<Rightarrow> request_correlation_registry
   \<Rightarrow> request_correlation option \<times> request_correlation_registry" where
  "peek_at request_id url http_method request_headers tab_target now s =
     (let s = prune now s
      in case direct_entry_id request_id s of
           Some entry_id \<Rightarrow>
             let s = retire_unresolved entry_id s
             in (map_option tmc_correlation (Mapping.lookup (rcr_by_id s) entry_id), s)
         | None \<Rightarrow>
             let (entry_id, s) = find_unique_unresolved url http_method request_headers tab_target s
             in (map_option tmc_correlation (Option.bind entry_id (Mapping.lookup (rcr_by_id s))), s))"

definition discard_for_fetch_request_id ::
  "string \<Rightarrow> request_correlation_registry \<Rightarrow> bool \<times> request_correlation_registry" where
  "discard_for_fetch_request_id fetch_request_id s =
     (case Mapping.lookup (rcr_by_fetch_request_id s) fetch_request_id of
        None \<Rightarrow> (False, s)
      | Some entry_id \<Rightarrow> let (removed, s) = remove_entry entry_id s in (removed \<noteq> None, s))"

definition take_degraded_reasons ::
  "request_correlation_registry \<Rightarrow> string list \<times> request_correlation_registry" where
  "take_degraded_reasons s = (rcr_degraded_reasons s, s\<lparr>rcr_degraded_reasons := []\<rparr>)"

definition mark_runtime_degraded ::
  "string \<Rightarrow> request_correlation_registry \<Rightarrow> request_correlation_registry" where
  "mark_runtime_degraded reason s = emit_degraded reason s"

section \<open>The list of entries\<close>

definition entries_of :: "request_correlation_registry \<Rightarrow> (u64 \<times> timed_correlation) list" where
  "entries_of s = map (\<lambda>i. (i, the (Mapping.lookup (rcr_by_id s) i))) (rcr_order s)"

definition unresolved_ids :: "request_correlation_registry \<Rightarrow> unresolved_lookup_key \<Rightarrow> u64 list" where
  "unresolved_ids s key =
     (case Mapping.lookup (rcr_unresolved_by_lookup_key s) key of Some entries \<Rightarrow> entries | None \<Rightarrow> [])"

definition keyed_by :: "unresolved_lookup_key \<Rightarrow> request_correlation_registry \<Rightarrow> u64 \<Rightarrow> bool" where
  "keyed_by key s i \<longleftrightarrow>
     (\<exists>e. Mapping.lookup (rcr_by_id s) i = Some e \<and> tmc_unresolved_lookup_key e = Some key)"

definition correlation_ok :: "request_correlation_registry \<Rightarrow> bool" where
  "correlation_ok s \<longleftrightarrow>
     distinct (rcr_order s) \<and>
     (\<forall>i. Mapping.lookup (rcr_by_id s) i \<noteq> None \<longleftrightarrow> i \<in> set (rcr_order s)) \<and>
     (\<forall>f i. Mapping.lookup (rcr_by_fetch_request_id s) f = Some i \<longleftrightarrow>
        (\<exists>e. Mapping.lookup (rcr_by_id s) i = Some e \<and> tmc_fetch_request_id e = f)) \<and>
     (\<forall>n i. Mapping.lookup (rcr_by_network_request_id s) n = Some i \<longleftrightarrow>
        (\<exists>e. Mapping.lookup (rcr_by_id s) i = Some e \<and> tmc_network_id e = Some n)) \<and>
     (\<forall>key. unresolved_ids s key = filter (keyed_by key s) (rcr_order s)) \<and>
     (\<forall>key. Mapping.lookup (rcr_unresolved_by_lookup_key s) key \<noteq> Some []) \<and>
     (\<forall>i e. Mapping.lookup (rcr_by_id s) i = Some e \<longrightarrow>
        tmc_unresolved_lookup_key e = map_option from_match (tmc_unresolved_match e))"

lemma correlation_okD:
  assumes "correlation_ok s"
  shows "distinct (rcr_order s)" "Mapping.lookup (rcr_by_id s) i \<noteq> None \<longleftrightarrow> i \<in> set (rcr_order s)"
    "Mapping.lookup (rcr_by_fetch_request_id s) f = Some i \<longleftrightarrow>
        (\<exists>e. Mapping.lookup (rcr_by_id s) i = Some e \<and> tmc_fetch_request_id e = f)"
    "Mapping.lookup (rcr_by_network_request_id s) n = Some i \<longleftrightarrow>
        (\<exists>e. Mapping.lookup (rcr_by_id s) i = Some e \<and> tmc_network_id e = Some n)"
    "unresolved_ids s key = filter (keyed_by key s) (rcr_order s)"
    "Mapping.lookup (rcr_unresolved_by_lookup_key s) key \<noteq> Some []"
    "Mapping.lookup (rcr_by_id s) i = Some e \<Longrightarrow>
        tmc_unresolved_lookup_key e = map_option from_match (tmc_unresolved_match e)"
  using assms unfolding correlation_ok_def by blast+

lemma correlation_ok_default: "correlation_ok request_correlation_registry_default"
  by (simp add: correlation_ok_def request_correlation_registry_default_def unresolved_ids_def)

lemma remove_from_unresolved_index_frame [simp]:
  "rcr_next_id (remove_from_unresolved_index key i s) = rcr_next_id s"
  "rcr_by_id (remove_from_unresolved_index key i s) = rcr_by_id s"
  "rcr_by_fetch_request_id (remove_from_unresolved_index key i s) = rcr_by_fetch_request_id s"
  "rcr_by_network_request_id (remove_from_unresolved_index key i s) = rcr_by_network_request_id s"
  "rcr_order (remove_from_unresolved_index key i s) = rcr_order s"
  "rcr_fallback_metrics (remove_from_unresolved_index key i s) = rcr_fallback_metrics s"
  "rcr_degraded_reasons (remove_from_unresolved_index key i s) = rcr_degraded_reasons s"
  by (simp_all add: remove_from_unresolved_index_def Let_def split: option.split)

lemma remove_from_unresolved_index_ids:
  "unresolved_ids (remove_from_unresolved_index key i s) k =
     (if k = key then filter (\<lambda>j. j \<noteq> i) (unresolved_ids s k) else unresolved_ids s k)"
  by (auto simp: remove_from_unresolved_index_def unresolved_ids_def Let_def lookup_delete_if
      lookup_update' split: option.split)

lemma remove_from_unresolved_index_buckets:
  "\<forall>k. Mapping.lookup (rcr_unresolved_by_lookup_key s) k \<noteq> Some [] \<Longrightarrow>
   Mapping.lookup (rcr_unresolved_by_lookup_key (remove_from_unresolved_index key i s)) k \<noteq> Some []"
  by (auto simp: remove_from_unresolved_index_def Let_def lookup_delete_if
      lookup_update' split: option.split)

lemma unresolved_ids_cong [simp]:
  "unresolved_ids (s\<lparr>rcr_by_id := x\<rparr>) = unresolved_ids s"
  "unresolved_ids (s\<lparr>rcr_order := y\<rparr>) = unresolved_ids s"
  "unresolved_ids (s\<lparr>rcr_by_fetch_request_id := z\<rparr>) = unresolved_ids s"
  "unresolved_ids (s\<lparr>rcr_by_network_request_id := z\<rparr>) = unresolved_ids s"
  "unresolved_ids (s\<lparr>rcr_next_id := n\<rparr>) = unresolved_ids s"
  "unresolved_ids (s\<lparr>rcr_degraded_reasons := d\<rparr>) = unresolved_ids s"
  "unresolved_ids (s\<lparr>rcr_fallback_metrics := m\<rparr>) = unresolved_ids s"
  by (simp_all add: unresolved_ids_def fun_eq_iff)

text \<open>Removing an entry, field by field.\<close>

lemma remove_entry_fields:
  assumes "Mapping.lookup (rcr_by_id s) i = Some e" "t = snd (remove_entry i s)"
  shows "fst (remove_entry i s) = Some (tmc_correlation e)"
    "rcr_by_id t = Mapping.delete i (rcr_by_id s)"
    "rcr_order t = filter (\<lambda>j. j \<noteq> i) (rcr_order s)"
    "Mapping.lookup (rcr_by_fetch_request_id t) f =
       (if f = tmc_fetch_request_id e \<and> Mapping.lookup (rcr_by_fetch_request_id s) f = Some i then None
        else Mapping.lookup (rcr_by_fetch_request_id s) f)"
    "Mapping.lookup (rcr_by_network_request_id t) n =
       (if Some n = tmc_network_id e \<and> Mapping.lookup (rcr_by_network_request_id s) n = Some i then None
        else Mapping.lookup (rcr_by_network_request_id s) n)"
    "unresolved_ids t key = (if tmc_unresolved_lookup_key e = Some key
       then filter (\<lambda>j. j \<noteq> i) (unresolved_ids s key) else unresolved_ids s key)"
    "\<forall>k. Mapping.lookup (rcr_unresolved_by_lookup_key s) k \<noteq> Some [] \<Longrightarrow>
       Mapping.lookup (rcr_unresolved_by_lookup_key t) key \<noteq> Some []"
    "rcr_next_id t = rcr_next_id s" "rcr_fallback_metrics t = rcr_fallback_metrics s"
    "rcr_degraded_reasons t = rcr_degraded_reasons s"
  unfolding assms(2) remove_entry_def using assms(1)
  by (auto simp: Let_def lookup_delete_if remove_from_unresolved_index_ids
      remove_from_unresolved_index_buckets split: option.splits)

lemma remove_entry_absent: "Mapping.lookup (rcr_by_id s) i = None \<Longrightarrow> remove_entry i s = (None, s)"
  by (simp add: remove_entry_def)

lemma remove_entry_ok:
  assumes ok: "correlation_ok s"
  shows "correlation_ok (snd (remove_entry i s))"
    "rcr_order (snd (remove_entry i s)) = filter (\<lambda>j. j \<noteq> i) (rcr_order s)"
    "Mapping.lookup (rcr_by_id (snd (remove_entry i s))) j =
       (if j = i then None else Mapping.lookup (rcr_by_id s) j)"
    "fst (remove_entry i s) = map_option tmc_correlation (Mapping.lookup (rcr_by_id s) i)"
    "rcr_next_id (snd (remove_entry i s)) = rcr_next_id s"
    "rcr_degraded_reasons (snd (remove_entry i s)) = rcr_degraded_reasons s"
proof -
  show "correlation_ok (snd (remove_entry i s))"
  proof (cases "Mapping.lookup (rcr_by_id s) i")
    case (Some e)
    obtain t where t: "t = snd (remove_entry i s)" by simp
    note f = remove_entry_fields [OF Some t]
    have id: "Mapping.lookup (rcr_by_id t) j = (if j = i then None else Mapping.lookup (rcr_by_id s) j)" for j
      by (simp add: f(2) lookup_delete_if)
    have keyed: "keyed_by key t j \<longleftrightarrow> j \<noteq> i \<and> keyed_by key s j" for key j
      by (simp add: keyed_by_def id)
    have unresolved: "unresolved_ids t key = filter (keyed_by key t) (rcr_order t)" for key
    proof -
      have "unresolved_ids s key = filter (keyed_by key s) (rcr_order s)"
        using ok by (simp add: correlation_ok_def)
      moreover have "keyed_by key s i \<longleftrightarrow> tmc_unresolved_lookup_key e = Some key"
        by (simp add: keyed_by_def Some)
      ultimately show ?thesis
        unfolding f(3,6) keyed by (auto simp: filter_filter intro!: filter_cong)
    qed
    have fetch: "Mapping.lookup (rcr_by_fetch_request_id t) x = Some j \<longleftrightarrow>
        (\<exists>e. Mapping.lookup (rcr_by_id t) j = Some e \<and> tmc_fetch_request_id e = x)" for x j
    proof -
      have "Mapping.lookup (rcr_by_fetch_request_id s) x = Some j \<longleftrightarrow>
          (\<exists>e. Mapping.lookup (rcr_by_id s) j = Some e \<and> tmc_fetch_request_id e = x)" for j
        using ok by (simp add: correlation_ok_def)
      from this [of i] this [of j] show ?thesis
        using Some unfolding f(4) id by (metis option.inject option.distinct(1))
    qed
    have network: "Mapping.lookup (rcr_by_network_request_id t) x = Some j \<longleftrightarrow>
        (\<exists>e. Mapping.lookup (rcr_by_id t) j = Some e \<and> tmc_network_id e = Some x)" for x j
    proof -
      have "Mapping.lookup (rcr_by_network_request_id s) x = Some j \<longleftrightarrow>
          (\<exists>e. Mapping.lookup (rcr_by_id s) j = Some e \<and> tmc_network_id e = Some x)" for j
        using ok by (simp add: correlation_ok_def)
      from this [of i] this [of j] show ?thesis
        using Some unfolding f(5) id by (metis option.inject option.distinct(1))
    qed
    have "distinct (rcr_order t)" "\<forall>j. Mapping.lookup (rcr_by_id t) j \<noteq> None \<longleftrightarrow> j \<in> set (rcr_order t)"
      using ok unfolding f(3) id by (simp_all add: correlation_ok_def)
    moreover have "\<forall>k. Mapping.lookup (rcr_unresolved_by_lookup_key t) k \<noteq> Some []"
      using ok f(7) by (simp add: correlation_ok_def)
    moreover have "\<forall>j e. Mapping.lookup (rcr_by_id t) j = Some e \<longrightarrow>
        tmc_unresolved_lookup_key e = map_option from_match (tmc_unresolved_match e)"
      using ok unfolding id by (simp add: correlation_ok_def)
    ultimately show ?thesis
      unfolding t [symmetric] correlation_ok_def using fetch network unresolved by blast
  qed (simp add: remove_entry_absent ok)
  have e: "Mapping.lookup (rcr_by_id s) i = None \<Longrightarrow> i \<notin> set (rcr_order s)"
    using correlation_okD(2) [OF ok, of i] by simp
  have "rcr_order (snd (remove_entry i s)) = filter (\<lambda>j. j \<noteq> i) (rcr_order s) \<and>
      rcr_by_id (snd (remove_entry i s)) = Mapping.delete i (rcr_by_id s) \<and>
      fst (remove_entry i s) = map_option tmc_correlation (Mapping.lookup (rcr_by_id s) i) \<and>
      rcr_next_id (snd (remove_entry i s)) = rcr_next_id s \<and>
      rcr_degraded_reasons (snd (remove_entry i s)) = rcr_degraded_reasons s"
  proof (cases "Mapping.lookup (rcr_by_id s) i")
    case None
    then have "Mapping.delete i (rcr_by_id s) = rcr_by_id s"
      by (intro mapping_eqI) (simp add: lookup_delete_if)
    moreover have "filter (\<lambda>j. j \<noteq> i) (rcr_order s) = rcr_order s"
      using None e by (auto simp: filter_id_conv)
    ultimately show ?thesis using None by (simp add: remove_entry_absent)
  next
    case (Some entry)
    show ?thesis using remove_entry_fields [OF Some refl] Some by simp
  qed
  then show "rcr_order (snd (remove_entry i s)) = filter (\<lambda>j. j \<noteq> i) (rcr_order s)"
    "Mapping.lookup (rcr_by_id (snd (remove_entry i s))) j =
       (if j = i then None else Mapping.lookup (rcr_by_id s) j)"
    "fst (remove_entry i s) = map_option tmc_correlation (Mapping.lookup (rcr_by_id s) i)"
    "rcr_next_id (snd (remove_entry i s)) = rcr_next_id s"
    "rcr_degraded_reasons (snd (remove_entry i s)) = rcr_degraded_reasons s"
    by (simp_all add: lookup_delete_if)
qed

text \<open>The entry list, and what removing, retiring and inserting do to it.\<close>

lemma entries_of_set: "correlation_ok s \<Longrightarrow> (i, e) \<in> set (entries_of s) \<longleftrightarrow>
    Mapping.lookup (rcr_by_id s) i = Some e"
  using correlation_okD(2) [of s i] by (auto simp: entries_of_def)

lemma entries_of_fst [simp]: "map fst (entries_of s) = rcr_order s"
  by (simp add: entries_of_def comp_def)

lemma entries_of_distinct: "correlation_ok s \<Longrightarrow> distinct (map fst (entries_of s))"
  by (simp add: correlation_okD(1))

lemma entries_of_filter:
  "filter (\<lambda>(i, e). P i) (entries_of s) =
     map (\<lambda>i. (i, the (Mapping.lookup (rcr_by_id s) i))) (filter P (rcr_order s))"
  by (simp add: entries_of_def filter_map comp_def)

lemma remove_entry_entries:
  "correlation_ok s \<Longrightarrow>
   entries_of (snd (remove_entry i s)) = filter (\<lambda>(j, e). j \<noteq> i) (entries_of s)"
  unfolding entries_of_filter by (simp add: entries_of_def remove_entry_ok)

lemma retire_unresolved_ok:
  assumes ok: "correlation_ok s" and t: "t = retire_unresolved i s"
  shows "correlation_ok t" "rcr_order t = rcr_order s"
    "Mapping.lookup (rcr_by_id t) j = (if j = i then map_option (\<lambda>e. e\<lparr>tmc_unresolved_match := None,
       tmc_unresolved_lookup_key := None\<rparr>) (Mapping.lookup (rcr_by_id s) i)
       else Mapping.lookup (rcr_by_id s) j)"
    "rcr_next_id t = rcr_next_id s" "rcr_degraded_reasons t = rcr_degraded_reasons s"
proof -
  have fields: "rcr_order t = rcr_order s" "rcr_next_id t = rcr_next_id s"
    "rcr_degraded_reasons t = rcr_degraded_reasons s"
    "rcr_by_fetch_request_id t = rcr_by_fetch_request_id s"
    "rcr_by_network_request_id t = rcr_by_network_request_id s"
    "Mapping.lookup (rcr_by_id t) j = (if j = i then map_option (\<lambda>e. e\<lparr>tmc_unresolved_match := None,
       tmc_unresolved_lookup_key := None\<rparr>) (Mapping.lookup (rcr_by_id s) i)
       else Mapping.lookup (rcr_by_id s) j)"
    "unresolved_ids t key = (if keyed_by key s i then filter (\<lambda>j. j \<noteq> i) (unresolved_ids s key)
       else unresolved_ids s key)"
    "Mapping.lookup (rcr_unresolved_by_lookup_key t) key \<noteq> Some []" for j key
    unfolding t retire_unresolved_def using correlation_okD(6) [OF ok]
    by (auto simp: Let_def lookup_update' remove_from_unresolved_index_ids keyed_by_def
        remove_from_unresolved_index_buckets split: option.splits)
  show "rcr_order t = rcr_order s" "rcr_next_id t = rcr_next_id s"
    "rcr_degraded_reasons t = rcr_degraded_reasons s"
    "Mapping.lookup (rcr_by_id t) j = (if j = i then map_option (\<lambda>e. e\<lparr>tmc_unresolved_match := None,
       tmc_unresolved_lookup_key := None\<rparr>) (Mapping.lookup (rcr_by_id s) i)
       else Mapping.lookup (rcr_by_id s) j)"
    by (fact fields)+
  have ex: "(\<exists>e. Mapping.lookup (rcr_by_id t) j = Some e \<and> P e) \<longleftrightarrow>
      (\<exists>e. Mapping.lookup (rcr_by_id s) j = Some e \<and> P e)"
    if "\<And>e. P (e\<lparr>tmc_unresolved_match := None, tmc_unresolved_lookup_key := None\<rparr>) = P e" for P j
    unfolding fields(6) using that by auto
  have keyed: "keyed_by key t j \<longleftrightarrow> j \<noteq> i \<and> keyed_by key s j" for key j
    unfolding keyed_by_def fields(6) by auto
  have "unresolved_ids t key = filter (keyed_by key t) (rcr_order t)" for key
    unfolding fields(1,7) keyed correlation_okD(5) [OF ok]
    by (auto simp: filter_filter intro!: filter_cong)
  moreover have "Mapping.lookup (rcr_by_id t) j \<noteq> None \<longleftrightarrow> j \<in> set (rcr_order t)" for j
    using correlation_okD(2) [OF ok, of j] unfolding fields(1,6) by (cases "j = i") simp_all
  moreover have "Mapping.lookup (rcr_by_fetch_request_id t) x = Some j \<longleftrightarrow>
      (\<exists>e. Mapping.lookup (rcr_by_id t) j = Some e \<and> tmc_fetch_request_id e = x)"
    "Mapping.lookup (rcr_by_network_request_id t) x = Some j \<longleftrightarrow>
      (\<exists>e. Mapping.lookup (rcr_by_id t) j = Some e \<and> tmc_network_id e = Some x)" for x j
    unfolding fields(4,5) using ex by (simp_all add: correlation_okD(3,4) [OF ok])
  moreover have "tmc_unresolved_lookup_key e = map_option from_match (tmc_unresolved_match e)"
    if "Mapping.lookup (rcr_by_id t) j = Some e" for j e
    using that correlation_okD(7) [OF ok] unfolding fields(6) by (auto split: if_splits)
  moreover have "distinct (rcr_order t)" using correlation_okD(1) [OF ok] by (simp add: fields(1))
  ultimately show "correlation_ok t"
    unfolding correlation_ok_def using fields(8) by blast
qed

lemma emit_degraded_frame [simp]:
  "rcr_next_id (emit_degraded reason s) = rcr_next_id s"
  "rcr_by_id (emit_degraded reason s) = rcr_by_id s"
  "rcr_by_fetch_request_id (emit_degraded reason s) = rcr_by_fetch_request_id s"
  "rcr_by_network_request_id (emit_degraded reason s) = rcr_by_network_request_id s"
  "rcr_order (emit_degraded reason s) = rcr_order s"
  "unresolved_ids (emit_degraded reason s) = unresolved_ids s"
  "rcr_unresolved_by_lookup_key (emit_degraded reason s) = rcr_unresolved_by_lookup_key s"
  "entries_of (emit_degraded reason s) = entries_of s"
  "correlation_ok (emit_degraded reason s) = correlation_ok s"
  by (simp_all add: emit_degraded_def entries_of_def correlation_ok_def keyed_by_def [abs_def])

lemma emit_degraded_last [simp]:
  "rcr_degraded_reasons (emit_degraded reason s) \<noteq> [] \<and>
   last (rcr_degraded_reasons (emit_degraded reason s)) = reason"
  by (simp add: emit_degraded_def deque_back_def)

lemma remove_entries_ok:
  assumes "correlation_ok s" and "t = fold (\<lambda>i s. snd (remove_entry i s)) is s"
  shows "correlation_ok t \<and> entries_of t = filter (\<lambda>(j, e). j \<notin> set is) (entries_of s) \<and>
    rcr_next_id t = rcr_next_id s \<and> rcr_degraded_reasons t = rcr_degraded_reasons s"
  using assms
proof (induction "is" arbitrary: s)
  case (Cons i "is")
  have "correlation_ok t \<and> entries_of t =
      filter (\<lambda>(j, e). j \<notin> set is) (entries_of (snd (remove_entry i s))) \<and>
      rcr_next_id t = rcr_next_id (snd (remove_entry i s)) \<and>
      rcr_degraded_reasons t = rcr_degraded_reasons (snd (remove_entry i s))"
    using Cons.prems by (intro Cons.IH) (simp_all add: remove_entry_ok)
  with Cons.prems show ?case
    by (auto simp: remove_entry_entries remove_entry_ok filter_filter intro!: filter_cong)
qed simp

definition replaces :: "string \<Rightarrow> string option \<Rightarrow> timed_correlation \<Rightarrow> bool" where
  "replaces fetch_request_id network_id e \<longleftrightarrow>
     tmc_fetch_request_id e = fetch_request_id \<or> (network_id \<noteq> None \<and> tmc_network_id e = network_id)"

lemma replaced_entry_ids_set:
  assumes "correlation_ok s"
  shows "i \<in> set (replaced_entry_ids f n s) \<longleftrightarrow>
    (\<exists>e. Mapping.lookup (rcr_by_id s) i = Some e \<and> replaces f n e)"
proof -
  have "i \<in> set (replaced_entry_ids f n s) \<longleftrightarrow> Mapping.lookup (rcr_by_fetch_request_id s) f = Some i \<or>
      (\<exists>x. n = Some x \<and> Mapping.lookup (rcr_by_network_request_id s) x = Some i)"
    by (auto simp: replaced_entry_ids_def Let_def split: option.splits Option.bind_splits)
  then show ?thesis
    unfolding replaces_def using correlation_okD(3,4) [OF assms] by (cases n) auto
qed

lemma retire_replaced_ok:
  assumes ok: "correlation_ok s" and t: "t = retire_replaced_direct_authority f n s"
  shows "correlation_ok t" "entries_of t = filter (\<lambda>(i, e). \<not> replaces f n e) (entries_of s)"
    "rcr_next_id t = rcr_next_id s" "rcr_degraded_reasons t = rcr_degraded_reasons s"
proof -
  note r = remove_entries_ok [OF ok t [unfolded retire_replaced_direct_authority_def]]
  have "entries_of t = filter (\<lambda>(j, e). j \<notin> set (replaced_entry_ids f n s)) (entries_of s)"
    using r by simp
  also have "\<dots> = filter (\<lambda>(i, e). \<not> replaces f n e) (entries_of s)"
    by (rule filter_cong) (auto simp: replaced_entry_ids_set [OF ok] entries_of_set [OF ok])
  finally show "entries_of t = filter (\<lambda>(i, e). \<not> replaces f n e) (entries_of s)" .
  show "correlation_ok t" "rcr_next_id t = rcr_next_id s"
    "rcr_degraded_reasons t = rcr_degraded_reasons s"
    using r by simp_all
qed

text \<open>The entry a record makes.\<close>

definition recorded_match :: "string \<Rightarrow> request_correlation \<Rightarrow> unresolved_correlation_match" where
  "recorded_match http_method correlation =
     \<lparr>ucm_expected_url = (case rqc_rewritten_url correlation of
        Some rewritten_url \<Rightarrow> rewritten_url | None \<Rightarrow> rqc_original_url correlation),
      ucm_expected_method = http_method,
      ucm_effective_request_headers = rqc_effective_request_headers correlation,
      ucm_expected_tab_target_id = rqc_tab_target_id correlation\<rparr>"

definition recorded_entry ::
  "string \<Rightarrow> string option \<Rightarrow> string \<Rightarrow> request_correlation \<Rightarrow> nat \<Rightarrow> timed_correlation" where
  "recorded_entry fetch_request_id network_id http_method correlation now =
     \<lparr>tmc_recorded_at = now, tmc_fetch_request_id = fetch_request_id, tmc_network_id = network_id,
      tmc_unresolved_match = Some (recorded_match http_method correlation),
      tmc_unresolved_lookup_key = Some (from_match (recorded_match http_method correlation)),
      tmc_correlation = correlation\<rparr>"

definition ids_below :: "request_correlation_registry \<Rightarrow> bool" where
  "ids_below s \<longleftrightarrow> (\<forall>i\<in>set (rcr_order s). i < rcr_next_id s)"

lemma insert_timed_ok:
  assumes ok: "correlation_ok s" and below: "ids_below s"
    and t: "t = insert_timed f n m c now s"
  shows "correlation_ok t"
    "entries_of t = filter (\<lambda>(i, e). \<not> replaces f n e) (entries_of s) @
       [(rcr_next_id s, recorded_entry f n m c now)]"
    "rcr_next_id t = saturating_add (rcr_next_id s) 1"
    "rcr_degraded_reasons t = rcr_degraded_reasons s"
proof -
  obtain u where u: "u = retire_replaced_direct_authority f n s" by simp
  note r = retire_replaced_ok [OF ok u]
  let ?i = "rcr_next_id s" and ?e = "recorded_entry f n m c now"
  let ?key = "from_match (recorded_match m c)"
  have order: "rcr_order u = map fst (filter (\<lambda>(i, e). \<not> replaces f n e) (entries_of s))"
    unfolding r(2) [symmetric] by simp
  then have "set (rcr_order u) \<subseteq> set (rcr_order s)"
    using entries_of_fst [of s] by (metis (no_types, lifting) filter_is_subset image_mono set_map)
  then have fresh: "?i \<notin> set (rcr_order u)" using below by (auto simp: ids_below_def)
  then have absent: "Mapping.lookup (rcr_by_id u) ?i = None"
    using correlation_okD(2) [OF r(1)] by metis
  have t_fields: "rcr_order t = rcr_order u @ [?i]" "rcr_next_id t = saturating_add ?i 1"
    "rcr_degraded_reasons t = rcr_degraded_reasons s"
    "Mapping.lookup (rcr_by_id t) j = (if j = ?i then Some ?e else Mapping.lookup (rcr_by_id u) j)"
    "Mapping.lookup (rcr_by_fetch_request_id t) x =
       (if x = f then Some ?i else Mapping.lookup (rcr_by_fetch_request_id u) x)"
    "Mapping.lookup (rcr_by_network_request_id t) x =
       (if Some x = n then Some ?i else Mapping.lookup (rcr_by_network_request_id u) x)"
    "unresolved_ids t key = unresolved_ids u key @ (if key = ?key then [?i] else [])"
    "Mapping.lookup (rcr_unresolved_by_lookup_key t) key \<noteq> Some []" for j x key
    unfolding t insert_timed_def u [symmetric]
    using correlation_okD(6) [OF r(1)]
    by (auto simp: Let_def r(3,4) lookup_update' recorded_entry_def recorded_match_def
        unresolved_ids_def split: option.splits)
  have none: "\<not> replaces f n e" if "Mapping.lookup (rcr_by_id u) j = Some e" for j e
    using that unfolding entries_of_set [OF r(1), symmetric] r(2) by simp
  have keyed: "keyed_by key t j \<longleftrightarrow> (if j = ?i then key = ?key else keyed_by key u j)" for key j
    by (auto simp: keyed_by_def t_fields(4) recorded_entry_def)
  show "entries_of t = filter (\<lambda>(i, e). \<not> replaces f n e) (entries_of s) @ [(?i, ?e)]"
    unfolding r(2) [symmetric] using fresh by (auto simp: entries_of_def t_fields(1,4))
  show "rcr_next_id t = saturating_add ?i 1" "rcr_degraded_reasons t = rcr_degraded_reasons s"
    by (fact t_fields)+
  have "distinct (rcr_order t)" using correlation_okD(1) [OF r(1)] fresh by (simp add: t_fields(1))
  moreover have "Mapping.lookup (rcr_by_id t) j \<noteq> None \<longleftrightarrow> j \<in> set (rcr_order t)" for j
    using correlation_okD(2) [OF r(1), of j] by (simp add: t_fields(1,4))
  moreover have "unresolved_ids t key = filter (keyed_by key t) (rcr_order t)" for key
  proof -
    have "filter (keyed_by key t) (rcr_order u) = filter (keyed_by key u) (rcr_order u)"
      using fresh by (intro filter_cong) (auto simp: keyed)
    then show ?thesis by (simp add: t_fields(1,7) keyed correlation_okD(5) [OF r(1)])
  qed
  moreover have "Mapping.lookup (rcr_by_fetch_request_id t) x = Some j \<longleftrightarrow>
      (\<exists>e. Mapping.lookup (rcr_by_id t) j = Some e \<and> tmc_fetch_request_id e = x)" for x j
    using correlation_okD(3) [OF r(1), of x j] none absent
    by (auto simp: t_fields(4,5) recorded_entry_def replaces_def)
  moreover have "Mapping.lookup (rcr_by_network_request_id t) x = Some j \<longleftrightarrow>
      (\<exists>e. Mapping.lookup (rcr_by_id t) j = Some e \<and> tmc_network_id e = Some x)" for x j
    using correlation_okD(4) [OF r(1), of x j] none absent
    by (auto simp: t_fields(4,6) recorded_entry_def replaces_def)
  moreover have "tmc_unresolved_lookup_key e = map_option from_match (tmc_unresolved_match e)"
    if "Mapping.lookup (rcr_by_id t) j = Some e" for j e
    using that correlation_okD(7) [OF r(1)]
    by (auto simp: t_fields(4) recorded_entry_def split: if_splits)
  ultimately show "correlation_ok t"
    unfolding correlation_ok_def using t_fields(8) by blast
qed

definition expired_entry :: "nat \<Rightarrow> u64 \<times> timed_correlation \<Rightarrow> bool" where
  "expired_entry now = (\<lambda>(i, e). now - tmc_recorded_at e > CORRELATION_TTL)"

lemma remove_front:
  assumes ok: "correlation_ok s" and order: "rcr_order s = oldest # rest"
  shows "remove_entry oldest (s\<lparr>rcr_order := rest\<rparr>) = remove_entry oldest s"
proof -
  obtain e where "Mapping.lookup (rcr_by_id s) oldest = Some e"
    using correlation_okD(2) [OF ok, of oldest] order by auto
  then show ?thesis by (simp add: remove_entry_def order)
qed

lemma entries_front:
  assumes ok: "correlation_ok s" and order: "rcr_order s = oldest # rest"
  shows "entries_of s = (oldest, the (Mapping.lookup (rcr_by_id s) oldest)) #
    entries_of (snd (remove_entry oldest s))"
proof -
  have "filter (\<lambda>j. j \<noteq> oldest) rest = rest"
    using correlation_okD(1) [OF ok] by (intro filter_True) (auto simp: order)
  then show ?thesis
    unfolding remove_entry_entries [OF ok] entries_of_filter by (simp add: entries_of_def order)
qed

lemma emit_degraded_reasons:
  "rcr_degraded_reasons s = rcr_degraded_reasons t \<Longrightarrow>
   rcr_degraded_reasons (emit_degraded reason s) = rcr_degraded_reasons (emit_degraded reason t)"
  by (simp add: emit_degraded_def)

lemma prune_loop_ok:
  assumes "correlation_ok s" "length (rcr_order s) \<le> CORRELATION_LIMIT"
    and "prune_loop now ep be s = (ep', be', t)"
  shows "correlation_ok t \<and> entries_of t = dropWhile (expired_entry now) (entries_of s) \<and>
    rcr_next_id t = rcr_next_id s \<and> rcr_degraded_reasons t = rcr_degraded_reasons s \<and>
    be' = be \<and> ep' = (ep \<or> entries_of t \<noteq> entries_of s)"
  using assms
proof (induction now ep be s rule: prune_loop.induct)
  case (1 now ep be s)
  show ?case
  proof (cases "rcr_order s")
    case Nil
    with "1.prems" show ?thesis by (simp add: prune_loop.simps entries_of_def)
  next
    case (Cons oldest rest)
    obtain e where e: "Mapping.lookup (rcr_by_id s) oldest = Some e"
      using correlation_okD(2) [OF "1.prems"(1), of oldest] Cons by auto
    have entries: "entries_of s = (oldest, e) # entries_of (snd (remove_entry oldest s))"
      using entries_front [OF "1.prems"(1) Cons] by (simp add: e)
    have expired: "entry_expired now oldest s = expired_entry now (oldest, e)"
      by (simp add: entry_expired_def expired_entry_def e)
    show ?thesis
    proof (cases "expired_entry now (oldest, e)")
      case False
      then have "(ep', be', t) = (ep, be, s)"
        using "1.prems" Cons expired by (subst (asm) prune_loop.simps) simp
      moreover have "dropWhile (expired_entry now) (entries_of s) = entries_of s"
        by (subst (1 2) entries) (simp add: False)
      ultimately show ?thesis using "1.prems" by simp
    next
      case True
      let ?u = "snd (remove_entry oldest s)"
      have u: "correlation_ok ?u" "length (rcr_order ?u) \<le> CORRELATION_LIMIT"
        using "1.prems" by (simp_all add: remove_entry_ok) (meson length_filter_le order_trans)
      have "prune_loop now True be ?u = (ep', be', t)"
        using "1.prems" Cons expired True remove_front [OF "1.prems"(1) Cons]
        by (subst (asm) prune_loop.simps) simp
      then have "correlation_ok t \<and> entries_of t = dropWhile (expired_entry now) (entries_of ?u) \<and>
          rcr_next_id t = rcr_next_id ?u \<and> rcr_degraded_reasons t = rcr_degraded_reasons ?u \<and>
          be' = be \<and> ep'"
        using "1.IH" [OF Cons refl _ _ _ ] u Cons expired True remove_front [OF "1.prems"(1) Cons]
        by simp
      moreover note entries
      moreover have "length (dropWhile (expired_entry now) (entries_of ?u)) \<le> length (entries_of ?u)"
        by (rule length_dropWhile_le)
      ultimately show ?thesis
        using "1.prems" True by (auto simp: remove_entry_ok)
    qed
  qed
qed

lemma prune_ok:
  assumes "correlation_ok s" "length (rcr_order s) \<le> CORRELATION_LIMIT" and t: "t = prune now s"
  shows "correlation_ok t" "entries_of t = dropWhile (expired_entry now) (entries_of s)"
    "rcr_next_id t = rcr_next_id s"
    "rcr_degraded_reasons t = (if entries_of t = entries_of s then rcr_degraded_reasons s
       else rcr_degraded_reasons (emit_degraded CORRELATION_REGISTRY_TTL_EXPIRED_REASON s))"
proof -
  obtain ep be u where u: "prune_loop now False False s = (ep, be, u)" by (metis prod_cases3)
  note l = prune_loop_ok [OF assms(1,2) u]
  have "t = (if ep then emit_degraded CORRELATION_REGISTRY_TTL_EXPIRED_REASON u else u)"
    using t u l by (simp add: prune_def)
  then show "correlation_ok t" "entries_of t = dropWhile (expired_entry now) (entries_of s)"
    "rcr_next_id t = rcr_next_id s"
    "rcr_degraded_reasons t = (if entries_of t = entries_of s then rcr_degraded_reasons s
       else rcr_degraded_reasons (emit_degraded CORRELATION_REGISTRY_TTL_EXPIRED_REASON s))"
    using l emit_degraded_reasons [of u s] by auto
qed

lemma evict_loop_ok:
  assumes "correlation_ok s" and "evict_loop b s = (b', t)"
  shows "correlation_ok t \<and> entries_of t = take_last CORRELATION_LIMIT (entries_of s) \<and>
    rcr_next_id t = rcr_next_id s \<and> rcr_degraded_reasons t = rcr_degraded_reasons s \<and>
    b' = (b \<or> length (entries_of s) > CORRELATION_LIMIT)"
  using assms
proof (induction b s rule: evict_loop.induct)
  case (1 b s)
  have len: "length (rcr_order s) = length (entries_of s)" by (simp add: entries_of_def)
  show ?case
  proof (cases "length (rcr_order s) > CORRELATION_LIMIT")
    case False
    with "1.prems" show ?thesis by (simp add: evict_loop.simps take_last_drop len)
  next
    case True
    then obtain oldest rest where o: "rcr_order s = oldest # rest"
      by (cases "rcr_order s") auto
    let ?u = "snd (remove_entry oldest s)"
    have u: "correlation_ok ?u" using "1.prems" by (simp add: remove_entry_ok)
    note entries_front [OF "1.prems"(1) o]
    moreover have "evict_loop True ?u = (b', t)"
      using "1.prems" True o remove_front [OF "1.prems"(1) o]
      by (subst (asm) evict_loop.simps) simp
    then have "correlation_ok t \<and> entries_of t = take_last CORRELATION_LIMIT (entries_of ?u) \<and>
        rcr_next_id t = rcr_next_id ?u \<and> rcr_degraded_reasons t = rcr_degraded_reasons ?u \<and> b'"
      using "1.IH" [OF True o] u remove_front [OF "1.prems"(1) o] by simp
    ultimately show ?thesis
      using True len "1.prems" by (auto simp: take_last_drop remove_entry_ok Suc_diff_le)
  qed
qed

section \<open>The search without an id\<close>

definition strict_entry :: "headers option \<Rightarrow> timed_correlation \<Rightarrow> bool" where
  "strict_entry request_headers e =
     (case Option.bind (tmc_unresolved_match e) ucm_effective_request_headers of
        Some expected \<Rightarrow> (case request_headers of
            Some actual \<Rightarrow> headers_include actual expected | None \<Rightarrow> False)
      | None \<Rightarrow> True)"

definition the_only :: "'a list \<Rightarrow> 'a option" where
  "the_only xs = (if length xs = 1 then Some (hd xs) else None)"

lemma scan_candidates:
  assumes "\<forall>i\<in>set is. keyed_by key s i" "correlation_ok s"
    and "c' = fold (scan_candidate key hs s) is c"
    and "st = filter (\<lambda>i. strict_entry hs (the (Mapping.lookup (rcr_by_id s) i))) is"
  shows "usc_relaxed_match c' = or_else (usc_relaxed_match c) (deque_front is) \<and>
    usc_strict_match c' = or_else (usc_strict_match c) (deque_front st) \<and>
    usc_relaxed_ambiguous c' = (usc_relaxed_ambiguous c \<or>
      length is + (if usc_relaxed_match c = None then 0 else 1) > 1 \<and> is \<noteq> []) \<and>
    usc_strict_ambiguous c' = (usc_strict_ambiguous c \<or>
      length st + (if usc_strict_match c = None then 0 else 1) > 1 \<and> st \<noteq> [])"
  using assms
proof (induction "is" arbitrary: c st)
  case (Cons i "is")
  obtain e m where e: "Mapping.lookup (rcr_by_id s) i = Some e" "tmc_unresolved_lookup_key e = Some key"
    "tmc_unresolved_match e = Some m"
    using Cons.prems(1) correlation_okD(7) [OF Cons.prems(2)] by (auto simp: keyed_by_def)
  let ?c = "scan_candidate key hs s i c"
  have one: "usc_relaxed_match ?c = or_else (usc_relaxed_match c) (Some i)"
    "usc_relaxed_ambiguous ?c = (usc_relaxed_ambiguous c \<or> usc_relaxed_match c \<noteq> None)"
    "usc_strict_match ?c = (if strict_entry hs e then or_else (usc_strict_match c) (Some i)
       else usc_strict_match c)"
    "usc_strict_ambiguous ?c = (usc_strict_ambiguous c \<or> strict_entry hs e \<and> usc_strict_match c \<noteq> None)"
    by (auto simp: scan_candidate_def e strict_entry_def or_else_def Let_def split: option.splits)
  note ih = Cons.IH [of ?c, OF _ Cons.prems(2) _ refl]
  show ?case
    using ih Cons.prems(1,3,4)
    by (cases "strict_entry hs e"; cases "usc_relaxed_match c"; cases "usc_strict_match c")
      (auto simp: one e deque_front_def or_else_def)
qed (simp add: or_else_def deque_front_def split: option.split)

lemma find_unique_unresolved_ok:
  assumes ok: "correlation_ok s" and find: "find_unique_unresolved url m hs tab s = (r, t)"
    and key: "key = for_request url m tab"
    and cs: "cs = filter (keyed_by key s) (rcr_order s)"
    and st: "st = filter (\<lambda>i. strict_entry hs (the (Mapping.lookup (rcr_by_id s) i))) cs"
  shows "r = (if st \<noteq> [] then the_only st else the_only cs)"
    "correlation_ok t" "entries_of t = entries_of s" "rcr_next_id t = rcr_next_id s"
    "rcr_by_id t = rcr_by_id s" "rcr_order t = rcr_order s"
    "rcr_degraded_reasons t = rcr_degraded_reasons s \<or>
      (\<exists>reason. rcr_degraded_reasons t = rcr_degraded_reasons (emit_degraded reason s))"
    "r \<noteq> None \<Longrightarrow> rcr_degraded_reasons t \<noteq> [] \<and> last (rcr_degraded_reasons t) \<in>
       {CORRELATION_STRICT_FALLBACK_REASON, CORRELATION_RELAXED_FALLBACK_REASON}"
proof -
  let ?init = "\<lparr>usc_strict_match = None, usc_strict_ambiguous = False, usc_relaxed_match = None,
     usc_relaxed_ambiguous = False, usc_metrics = (rcr_fallback_metrics s)
       \<lparr>cfm_unresolved_fallback_attempts :=
          saturating_add (cfm_unresolved_fallback_attempts (rcr_fallback_metrics s)) 1\<rparr>\<rparr>"
  obtain c where c: "c = fold (scan_candidate key hs s) cs ?init" by simp
  have candidates: "unresolved_ids s key = cs" using correlation_okD(5) [OF ok] cs by simp
  have scan: "usc_relaxed_match c = deque_front cs" "usc_strict_match c = deque_front st"
    "usc_relaxed_ambiguous c = (length cs > 1)" "usc_strict_ambiguous c = (length st > 1)"
    using scan_candidates [OF _ ok c st] cs by (auto simp: or_else_def)
  have f: "find_unique_unresolved url m hs tab s =
     (let s = s\<lparr>rcr_fallback_metrics := usc_metrics c\<rparr> in
      if usc_strict_ambiguous c then (None, emit_degraded CORRELATION_AMBIGUOUS_FALLBACK_REASON s)
      else case usc_strict_match c of
        Some i \<Rightarrow> (Some i, emit_degraded CORRELATION_STRICT_FALLBACK_REASON s)
      | None \<Rightarrow> if usc_relaxed_ambiguous c
          then (None, emit_degraded CORRELATION_AMBIGUOUS_FALLBACK_REASON s)
          else if usc_relaxed_match c \<noteq> None
          then (usc_relaxed_match c, emit_degraded CORRELATION_RELAXED_FALLBACK_REASON s) else (None, s))"
    unfolding find_unique_unresolved_def c candidates [symmetric] key unresolved_ids_def
    by (simp add: Let_def)
  have frame: "correlation_ok (s\<lparr>rcr_fallback_metrics := x\<rparr>) = correlation_ok s"
    "entries_of (s\<lparr>rcr_fallback_metrics := x\<rparr>) = entries_of s" for x
    by (simp_all add: correlation_ok_def entries_of_def keyed_by_def [abs_def])
  show "r = (if st \<noteq> [] then the_only st else the_only cs)"
    using find unfolding f scan
    by (cases st; cases "tl st"; cases cs; cases "tl cs")
      (auto simp: Let_def deque_front_def the_only_def split: if_splits)
  obtain u where u: "u = s\<lparr>rcr_fallback_metrics := usc_metrics c\<rparr>" by simp
  have t: "t = u \<or> (\<exists>reason. t = emit_degraded reason u)"
    "r \<noteq> None \<longrightarrow> (\<exists>reason \<in> {CORRELATION_STRICT_FALLBACK_REASON, CORRELATION_RELAXED_FALLBACK_REASON}.
         t = emit_degraded reason u)"
    using find unfolding f Let_def u [symmetric] by (auto split: if_splits option.splits)
  show "correlation_ok t" "entries_of t = entries_of s" "rcr_next_id t = rcr_next_id s"
    "rcr_by_id t = rcr_by_id s" "rcr_order t = rcr_order s"
    "rcr_degraded_reasons t = rcr_degraded_reasons s \<or>
      (\<exists>reason. rcr_degraded_reasons t = rcr_degraded_reasons (emit_degraded reason s))"
    using t(1) ok frame emit_degraded_reasons [of u s] by (auto simp: u)
  show "r \<noteq> None \<Longrightarrow> rcr_degraded_reasons t \<noteq> [] \<and> last (rcr_degraded_reasons t) \<in>
       {CORRELATION_STRICT_FALLBACK_REASON, CORRELATION_RELAXED_FALLBACK_REASON}"
    using t(2) by auto
qed

section \<open>The specification: one list\<close>

text \<open>
  The same operations on a list of numbered entries, oldest first, and the number of the next one.
\<close>

type_synonym correlation_list = "(u64 \<times> timed_correlation) list"

definition unresolved_spec ::
  "unresolved_lookup_key \<Rightarrow> headers option \<Rightarrow> correlation_list \<Rightarrow> (u64 \<times> timed_correlation) option" where
  "unresolved_spec key hs es =
     (let candidates = filter (\<lambda>(i, e). tmc_unresolved_lookup_key e = Some key) es;
          strict = filter (\<lambda>(i, e). strict_entry hs e) candidates
      in if strict \<noteq> [] then the_only strict else the_only candidates)"

definition direct_spec :: "string \<Rightarrow> correlation_list \<Rightarrow> (u64 \<times> timed_correlation) option" where
  "direct_spec request_id es =
     or_else (List.find (\<lambda>(i, e). tmc_network_id e = Some request_id) es)
       (List.find (\<lambda>(i, e). tmc_fetch_request_id e = request_id) es)"

definition found_spec ::
  "string \<Rightarrow> unresolved_lookup_key \<Rightarrow> headers option \<Rightarrow> correlation_list
   \<Rightarrow> (u64 \<times> timed_correlation) option" where
  "found_spec request_id key hs es = or_else (direct_spec request_id es) (unresolved_spec key hs es)"

definition retired :: "timed_correlation \<Rightarrow> timed_correlation" where
  "retired e = e\<lparr>tmc_unresolved_match := None, tmc_unresolved_lookup_key := None\<rparr>"

definition without :: "u64 \<Rightarrow> correlation_list \<Rightarrow> correlation_list" where
  "without i = filter (\<lambda>(j, e). j \<noteq> i)"

datatype correlation_op =
    RecordAt string "string option" string request_correlation nat
  | TakeAt string string string "headers option" "string option" nat
  | PeekAt string string string "headers option" "string option" nat
  | DiscardFetch string
  | DrainReasons
  | MarkDegraded string

datatype correlation_answer = Found "request_correlation option" | Discarded bool | Silent

fun run_correlation_op ::
  "correlation_op \<Rightarrow> request_correlation_registry \<Rightarrow> correlation_answer \<times> request_correlation_registry" where
  "run_correlation_op (RecordAt f n m c now) s = (Silent, record_at f n m c now s)"
| "run_correlation_op (TakeAt r url m hs tab now) s =
     (let (a, s) = take_at r url m hs tab now s in (Found a, s))"
| "run_correlation_op (PeekAt r url m hs tab now) s =
     (let (a, s) = peek_at r url m hs tab now s in (Found a, s))"
| "run_correlation_op (DiscardFetch f) s =
     (let (a, s) = discard_for_fetch_request_id f s in (Discarded a, s))"
| "run_correlation_op DrainReasons s = (Silent, snd (take_degraded_reasons s))"
| "run_correlation_op (MarkDegraded reason) s = (Silent, mark_runtime_degraded reason s)"

fun spec_correlation_op ::
  "correlation_op \<Rightarrow> u64 \<times> correlation_list \<Rightarrow> correlation_answer \<times> u64 \<times> correlation_list" where
  "spec_correlation_op (RecordAt f n m c now) (next_id, es) =
     (Silent, saturating_add next_id 1, take_last CORRELATION_LIMIT
        (filter (\<lambda>(i, e). \<not> replaces f n e) (dropWhile (expired_entry now) es) @
         [(next_id, recorded_entry f n m c now)]))"
| "spec_correlation_op (TakeAt r url m hs tab now) (next_id, es) =
     (let es = dropWhile (expired_entry now) es
      in case found_spec r (for_request url m tab) hs es of
           Some (i, e) \<Rightarrow> (Found (Some (tmc_correlation e)), next_id, without i es)
         | None \<Rightarrow> (Found None, next_id, es))"
| "spec_correlation_op (PeekAt r url m hs tab now) (next_id, es) =
     (let es = dropWhile (expired_entry now) es
      in case direct_spec r es of
           Some (i, e) \<Rightarrow> (Found (Some (tmc_correlation e)), next_id,
             map (\<lambda>(j, x). (j, if j = i then retired x else x)) es)
         | None \<Rightarrow> (Found (map_option (\<lambda>(i, e). tmc_correlation e)
             (unresolved_spec (for_request url m tab) hs es)), next_id, es))"
| "spec_correlation_op (DiscardFetch f) (next_id, es) =
     (case List.find (\<lambda>(i, e). tmc_fetch_request_id e = f) es of
        Some (i, e) \<Rightarrow> (Discarded True, next_id, without i es)
      | None \<Rightarrow> (Discarded False, next_id, es))"
| "spec_correlation_op _ s = (Silent, s)"

fun run_correlation ::
  "correlation_op list \<Rightarrow> request_correlation_registry
   \<Rightarrow> correlation_answer list \<times> request_correlation_registry" where
  "run_correlation [] s = ([], s)"
| "run_correlation (op # ops) s =
     (let (a, s) = run_correlation_op op s; (as, s) = run_correlation ops s in (a # as, s))"

fun spec_correlation ::
  "correlation_op list \<Rightarrow> u64 \<times> correlation_list
   \<Rightarrow> correlation_answer list \<times> u64 \<times> correlation_list" where
  "spec_correlation [] s = ([], s)"
| "spec_correlation (op # ops) s =
     (let (a, s) = spec_correlation_op op s; (as, s) = spec_correlation ops s in (a # as, s))"

section \<open>Refinement\<close>

definition registry_inv :: "request_correlation_registry \<Rightarrow> bool" where
  "registry_inv s \<longleftrightarrow> correlation_ok s \<and> ids_below s \<and> length (rcr_order s) \<le> CORRELATION_LIMIT"

definition list_view :: "request_correlation_registry \<Rightarrow> u64 \<times> correlation_list" where
  "list_view s = (rcr_next_id s, entries_of s)"

lemma find_entry:
  assumes "correlation_ok s"
    and "\<And>i. lookup = Some i \<longleftrightarrow> (\<exists>e. Mapping.lookup (rcr_by_id s) i = Some e \<and> P e)"
  shows "lookup = map_option fst (List.find (\<lambda>(i, e). P e) (entries_of s))"
proof (cases "List.find (\<lambda>(i, e). P e) (entries_of s)")
  case None
  then have "\<nexists>i e. Mapping.lookup (rcr_by_id s) i = Some e \<and> P e"
    by (auto simp: find_None_iff entries_of_set [OF assms(1), symmetric])
  then have "lookup = None" using assms(2) by (metis not_None_eq)
  then show ?thesis using None by simp
next
  case (Some x)
  obtain i e where x: "x = (i, e)" by fastforce
  have "(i, e) \<in> set (entries_of s) \<and> P e"
    using find_Some_set [OF Some] x by simp
  then have "lookup = Some i" using assms(2) by (auto simp: entries_of_set [OF assms(1)])
  then show ?thesis by (simp add: Some x)
qed

lemma direct_entry_spec:
  assumes "correlation_ok s"
  shows "direct_entry_id r s = map_option fst (direct_spec r (entries_of s))"
    "Mapping.lookup (rcr_by_fetch_request_id s) f =
       map_option fst (List.find (\<lambda>(i, e). tmc_fetch_request_id e = f) (entries_of s))"
proof -
  show f: "Mapping.lookup (rcr_by_fetch_request_id s) f =
       map_option fst (List.find (\<lambda>(i, e). tmc_fetch_request_id e = f) (entries_of s))" for f
    by (rule find_entry [OF assms correlation_okD(3) [OF assms]])
  have n: "Mapping.lookup (rcr_by_network_request_id s) r =
       map_option fst (List.find (\<lambda>(i, e). tmc_network_id e = Some r) (entries_of s))"
    by (rule find_entry [OF assms correlation_okD(4) [OF assms]])
  show "direct_entry_id r s = map_option fst (direct_spec r (entries_of s))"
    by (simp add: direct_entry_id_def direct_spec_def f n or_else_def split: option.split)
qed

lemma direct_spec_member: "direct_spec r es = Some (i, e) \<Longrightarrow>
    (i, e) \<in> set es \<and> (tmc_network_id e = Some r \<or> tmc_fetch_request_id e = r)"
  by (auto simp: direct_spec_def or_else_def dest: find_Some_set split: option.splits)

lemma the_only_map: "the_only (map f xs) = map_option f (the_only xs)"
  by (cases xs) (auto simp: the_only_def)

lemma the_only_Some: "the_only xs = Some x \<longleftrightarrow> xs = [x]"
  by (cases xs) (auto simp: the_only_def)

lemma unresolved_spec_ids:
  assumes ok: "correlation_ok s"
    and cs: "cs = filter (keyed_by key s) (rcr_order s)"
    and st: "st = filter (\<lambda>i. strict_entry hs (the (Mapping.lookup (rcr_by_id s) i))) cs"
  shows "map_option fst (unresolved_spec key hs (entries_of s)) =
    (if st \<noteq> [] then the_only st else the_only cs)"
proof -
  let ?cs = "filter (\<lambda>(i, e). tmc_unresolved_lookup_key e = Some key) (entries_of s)"
  let ?f = "\<lambda>i. (i, the (Mapping.lookup (rcr_by_id s) i))"
  have "?cs = map ?f (filter (\<lambda>i. tmc_unresolved_lookup_key (the (Mapping.lookup (rcr_by_id s) i)) = Some key)
      (rcr_order s))"
    by (simp add: entries_of_def filter_map comp_def)
  also have "filter (\<lambda>i. tmc_unresolved_lookup_key (the (Mapping.lookup (rcr_by_id s) i)) = Some key)
      (rcr_order s) = cs"
    unfolding cs using correlation_okD(2) [OF ok]
    by (intro filter_cong) (fastforce simp: keyed_by_def)+
  finally have c: "?cs = map ?f cs" .
  have "filter (\<lambda>(i, e). strict_entry hs e) ?cs = map ?f st"
    unfolding c st by (simp add: filter_map comp_def)
  then show ?thesis
    unfolding unresolved_spec_def Let_def c by (simp add: the_only_map option.map_comp comp_def option.map_ident)
qed

lemma unresolved_spec_member: "unresolved_spec key hs es = Some (i, e) \<Longrightarrow>
    (i, e) \<in> set es \<and> tmc_unresolved_lookup_key e = Some key"
  by (auto simp: unresolved_spec_def Let_def the_only_Some filter_eq_Cons_iff split: if_splits)

lemma entries_unique:
  "correlation_ok s \<Longrightarrow> (i, e) \<in> set (entries_of s) \<Longrightarrow> Mapping.lookup (rcr_by_id s) i = Some e"
  by (simp add: entries_of_set)

lemma pruned:
  assumes "registry_inv s" "t = prune now s"
  shows "registry_inv t" "entries_of t = dropWhile (expired_entry now) (entries_of s)"
    "rcr_next_id t = rcr_next_id s"
proof -
  note p = prune_ok [OF _ _ assms(2)]
  have ok: "correlation_ok s" "length (rcr_order s) \<le> CORRELATION_LIMIT" "ids_below s"
    using assms(1) by (simp_all add: registry_inv_def)
  have "rcr_order t = map fst (dropWhile (expired_entry now) (entries_of s))"
    using p(2) [OF ok(1,2)] by (metis entries_of_fst)
  moreover have "set (dropWhile (expired_entry now) (entries_of s)) \<subseteq> set (entries_of s)"
    "length (dropWhile (expired_entry now) (entries_of s)) \<le> length (entries_of s)"
    by (auto dest: set_dropWhileD intro: length_dropWhile_le)
  moreover have "length (entries_of s) = length (rcr_order s)" "fst ` set (entries_of s) = set (rcr_order s)"
    using entries_of_fst [of s] by (metis length_map, metis set_map)
  ultimately show "registry_inv t"
    using p(1,3) [OF ok(1,2)] ok by (auto simp: registry_inv_def ids_below_def)
  show "entries_of t = dropWhile (expired_entry now) (entries_of s)" "rcr_next_id t = rcr_next_id s"
    using p(2,3) [OF ok(1,2)] by simp_all
qed

lemma registry_inv_mono:
  assumes "registry_inv s" "correlation_ok t" "set (rcr_order t) \<subseteq> set (rcr_order s)"
    "length (rcr_order t) \<le> length (rcr_order s)" "rcr_next_id t = rcr_next_id s"
  shows "registry_inv t"
  using assms by (auto simp: registry_inv_def ids_below_def)

lemma removed:
  assumes "registry_inv s" "(i, e) \<in> set (entries_of s)" "(c, t) = remove_entry i s"
  shows "registry_inv t" "entries_of t = without i (entries_of s)" "rcr_next_id t = rcr_next_id s"
    "c = Some (tmc_correlation e)" "rcr_degraded_reasons t = rcr_degraded_reasons s"
proof -
  have ok: "correlation_ok s" using assms(1) by (simp add: registry_inv_def)
  have ct: "c = fst (remove_entry i s)" "t = snd (remove_entry i s)" using assms(3) by (metis fst_conv, metis snd_conv)
  show "registry_inv t"
    by (rule registry_inv_mono [OF assms(1)]) (simp_all add: ct remove_entry_ok [OF ok])
  show "entries_of t = without i (entries_of s)" "rcr_next_id t = rcr_next_id s"
    "c = Some (tmc_correlation e)" "rcr_degraded_reasons t = rcr_degraded_reasons s"
    using entries_unique [OF ok assms(2)]
    by (simp_all add: ct remove_entry_ok [OF ok] remove_entry_entries [OF ok] without_def)
qed

lemma searched:
  assumes "registry_inv s" "find_unique_unresolved url m hs tab s = (r, t)"
  shows "registry_inv t" "list_view t = list_view s" "rcr_by_id t = rcr_by_id s"
    "r = map_option fst (unresolved_spec (for_request url m tab) hs (entries_of s))"
    "r \<noteq> None \<Longrightarrow> rcr_degraded_reasons t \<noteq> [] \<and> last (rcr_degraded_reasons t) \<in>
       {CORRELATION_STRICT_FALLBACK_REASON, CORRELATION_RELAXED_FALLBACK_REASON}"
    "set (rcr_degraded_reasons s) \<subseteq> set (rcr_degraded_reasons t)"
proof -
  have ok: "correlation_ok s" using assms(1) by (simp add: registry_inv_def)
  note f = find_unique_unresolved_ok [OF ok assms(2) refl refl refl]
  show "registry_inv t"
    using assms(1) f(2,4,6) by (simp add: registry_inv_def ids_below_def)
  show "list_view t = list_view s" "rcr_by_id t = rcr_by_id s"
    by (simp_all add: list_view_def f)
  show "r = map_option fst (unresolved_spec (for_request url m tab) hs (entries_of s))"
    unfolding f(1) by (rule unresolved_spec_ids [OF ok refl refl, symmetric])
  show "r \<noteq> None \<Longrightarrow> rcr_degraded_reasons t \<noteq> [] \<and> last (rcr_degraded_reasons t) \<in>
       {CORRELATION_STRICT_FALLBACK_REASON, CORRELATION_RELAXED_FALLBACK_REASON}"
    by (fact f(8))
  show "set (rcr_degraded_reasons s) \<subseteq> set (rcr_degraded_reasons t)"
    using f(7) by (auto simp: emit_degraded_def split: if_splits)
qed

lemma take_refines:
  assumes inv: "registry_inv s" and take: "take_at r url m hs tab now s = (c, t)"
  shows "registry_inv t"
    "spec_correlation_op (TakeAt r url m hs tab now) (list_view s) = (Found c, list_view t)"
proof -
  obtain u where u: "u = prune now s" by simp
  note p = pruned [OF inv u]
  have ok: "correlation_ok u" using p(1) by (simp add: registry_inv_def)
  let ?key = "for_request url m tab"
  have "registry_inv t \<and>
    spec_correlation_op (TakeAt r url m hs tab now) (list_view s) = (Found c, list_view t)"
  proof (cases "direct_spec r (entries_of u)")
    case (Some x)
    obtain i e where x: "x = (i, e)" by fastforce
    have "(c, t) = remove_entry i u"
      using take by (simp add: take_at_def u [symmetric] direct_entry_spec(1) [OF ok] Some x)
    with removed [OF p(1) _ this, of e] direct_spec_member [OF Some [unfolded x]] Some x
    show ?thesis by (simp add: list_view_def p(2,3) [symmetric] found_spec_def or_else_def)
  next
    case None
    obtain f v where f: "find_unique_unresolved url m hs tab u = (f, v)" by fastforce
    note w = searched [OF p(1) f]
    have t: "(c, t) = (case f of Some i \<Rightarrow> remove_entry i v | None \<Rightarrow> (None, v))"
      using take by (simp add: take_at_def u [symmetric] direct_entry_spec(1) [OF ok] None f)
    show ?thesis
    proof (cases "unresolved_spec ?key hs (entries_of u)")
      case None': None
      then show ?thesis
        using t w(1,2,4) None by (simp add: list_view_def p(2,3) [symmetric] found_spec_def or_else_def)
    next
      case (Some x)
      obtain i e where x: "x = (i, e)" by fastforce
      have v: "entries_of v = entries_of u" "rcr_next_id v = rcr_next_id u"
        using w(2) by (simp_all add: list_view_def)
      have "(c, t) = remove_entry i v" using t w(4) Some x by simp
      with removed [OF w(1) _ this, of e] unresolved_spec_member [OF Some [unfolded x]] Some x None v
      show ?thesis by (simp add: list_view_def p(2,3) [symmetric] found_spec_def or_else_def)
    qed
  qed
  then show "registry_inv t"
    "spec_correlation_op (TakeAt r url m hs tab now) (list_view s) = (Found c, list_view t)"
    by simp_all
qed

lemma retired_entries:
  assumes inv: "registry_inv s" and e: "(i, e) \<in> set (entries_of s)" and t: "t = retire_unresolved i s"
  shows "registry_inv t" "rcr_next_id t = rcr_next_id s" "rcr_degraded_reasons t = rcr_degraded_reasons s"
    "entries_of t = map (\<lambda>(j, x). (j, if j = i then retired x else x)) (entries_of s)"
    "Mapping.lookup (rcr_by_id t) i = Some (retired e)"
proof -
  have ok: "correlation_ok s" using inv by (simp add: registry_inv_def)
  note r = retire_unresolved_ok [OF ok t]
  have id: "Mapping.lookup (rcr_by_id t) j = (if j = i then Some (retired e)
      else Mapping.lookup (rcr_by_id s) j)" for j
    unfolding r(3) by (simp add: entries_unique [OF ok e] retired_def)
  show "registry_inv t" using inv r(1,2,4) by (simp add: registry_inv_def ids_below_def)
  show "rcr_next_id t = rcr_next_id s" "rcr_degraded_reasons t = rcr_degraded_reasons s" by (fact r)+
  show "Mapping.lookup (rcr_by_id t) i = Some (retired e)" by (simp add: id)
  show "entries_of t = map (\<lambda>(j, x). (j, if j = i then retired x else x)) (entries_of s)"
    by (simp add: entries_of_def r(2) id entries_unique [OF ok e])
qed

lemma peek_refines:
  assumes inv: "registry_inv s" and peek: "peek_at r url m hs tab now s = (c, t)"
  shows "registry_inv t"
    "spec_correlation_op (PeekAt r url m hs tab now) (list_view s) = (Found c, list_view t)"
proof -
  obtain u where u: "u = prune now s" by simp
  note p = pruned [OF inv u]
  have ok: "correlation_ok u" using p(1) by (simp add: registry_inv_def)
  let ?key = "for_request url m tab"
  have "registry_inv t \<and>
    spec_correlation_op (PeekAt r url m hs tab now) (list_view s) = (Found c, list_view t)"
  proof (cases "direct_spec r (entries_of u)")
    case (Some x)
    obtain i e where x: "x = (i, e)" by fastforce
    note re = retired_entries [OF p(1) direct_spec_member [OF Some [unfolded x], THEN conjunct1] refl]
    have "c = Some (tmc_correlation e)" "t = retire_unresolved i u"
      using peek re(5)
      by (auto simp: peek_at_def u [symmetric] direct_entry_spec(1) [OF ok] Some x Let_def retired_def)
    with re Some x show ?thesis by (simp add: list_view_def p(2,3) [symmetric])
  next
    case None
    obtain f v where f: "find_unique_unresolved url m hs tab u = (f, v)" by fastforce
    note w = searched [OF p(1) f]
    have t: "t = v" "c = map_option tmc_correlation (Option.bind f (Mapping.lookup (rcr_by_id v)))"
      using peek by (auto simp: peek_at_def u [symmetric] direct_entry_spec(1) [OF ok] None f)
    have "c = map_option (\<lambda>(i, e). tmc_correlation e) (unresolved_spec ?key hs (entries_of u))"
    proof (cases "unresolved_spec ?key hs (entries_of u)")
      case (Some x)
      obtain i e where x: "x = (i, e)" by fastforce
      have "Mapping.lookup (rcr_by_id u) i = Some e"
        using unresolved_spec_member [OF Some [unfolded x]] entries_unique [OF ok] by blast
      then show ?thesis by (simp add: t(2) w(3,4) Some x)
    qed (simp add: t(2) w(4))
    with w(1,2) None t(1) show ?thesis by (simp add: list_view_def p(2,3) [symmetric] Let_def)
  qed
  then show "registry_inv t"
    "spec_correlation_op (PeekAt r url m hs tab now) (list_view s) = (Found c, list_view t)"
    by simp_all
qed

lemma record_refines:
  assumes inv: "registry_inv s" and bound: "unat (rcr_next_id s) < 2 ^ 64 - 1"
    and t: "t = record_at f n m c now s"
  shows "registry_inv t"
    "spec_correlation_op (RecordAt f n m c now) (list_view s) = (Silent, list_view t)"
proof -
  obtain u v where u: "u = prune now s" and v: "v = insert_timed f n m c now u" by simp
  note p = pruned [OF inv u]
  have ok: "correlation_ok u" "ids_below u" using p(1) by (simp_all add: registry_inv_def)
  note i = insert_timed_ok [OF ok v]
  obtain b w where w: "evict_loop False v = (b, w)" by fastforce
  note e = evict_loop_ok [OF i(1) w]
  have t': "t = (if b then emit_degraded CORRELATION_REGISTRY_EVICTED_REASON w else w)"
    by (simp add: t record_at_def u [symmetric] v [symmetric] w)
  then have view: "correlation_ok t" "entries_of t = take_last CORRELATION_LIMIT (entries_of v)"
    "rcr_next_id t = rcr_next_id v"
    using e by auto
  show "spec_correlation_op (RecordAt f n m c now) (list_view s) = (Silent, list_view t)"
    by (simp add: list_view_def view(2,3) i(2,3) p(2,3))
  have next_id: "unat (rcr_next_id t) = Suc (unat (rcr_next_id u))"
    using bound by (simp add: view(3) i(3) p(3) unat_saturating_add)
  have order: "rcr_order t = map fst (take_last CORRELATION_LIMIT (entries_of v))"
    using view(2) by (metis entries_of_fst)
  have "set (rcr_order t) \<subseteq> set (rcr_order v)"
    unfolding order take_last_drop using entries_of_fst [of v]
    by (metis (no_types, lifting) image_mono set_drop_subset set_map)
  moreover have "set (rcr_order v) \<subseteq> insert (rcr_next_id u) (set (rcr_order u))"
  proof -
    have "rcr_order v = map fst (entries_of v)" by simp
    also have "\<dots> = map fst (filter (\<lambda>(i, e). \<not> replaces f n e) (entries_of u)) @ [rcr_next_id u]"
      by (simp add: i(2))
    finally have "set (rcr_order v) \<subseteq> insert (rcr_next_id u) (fst ` set (entries_of u))"
      by auto
    moreover have "fst ` set (entries_of u) = set (rcr_order u)" by (metis entries_of_fst set_map)
    ultimately show ?thesis by simp
  qed
  ultimately have "ids_below t"
    using ok(2) next_id by (fastforce simp: ids_below_def word_less_nat_alt)
  moreover have "length (rcr_order t) \<le> CORRELATION_LIMIT"
    by (simp add: order take_last_drop)
  ultimately show "registry_inv t" using view(1) by (simp add: registry_inv_def)
qed

lemma discard_refines:
  assumes inv: "registry_inv s" and discard: "discard_for_fetch_request_id f s = (b, t)"
  shows "registry_inv t"
    "spec_correlation_op (DiscardFetch f) (list_view s) = (Discarded b, list_view t)"
proof -
  have ok: "correlation_ok s" using inv by (simp add: registry_inv_def)
  have "registry_inv t \<and>
    spec_correlation_op (DiscardFetch f) (list_view s) = (Discarded b, list_view t)"
  proof (cases "List.find (\<lambda>(i, e). tmc_fetch_request_id e = f) (entries_of s)")
    case None
    then show ?thesis
      using discard inv
      by (simp add: discard_for_fetch_request_id_def direct_entry_spec(2) [OF ok] list_view_def)
  next
    case (Some x)
    obtain i e where x: "x = (i, e)" by fastforce
    obtain c v where v: "remove_entry i s = (c, v)" by fastforce
    have m: "(i, e) \<in> set (entries_of s)" using find_Some_set [OF Some] x by simp
    have "t = v" "b = (c \<noteq> None)"
      using discard by (simp_all add: discard_for_fetch_request_id_def direct_entry_spec(2) [OF ok] Some x v)
    with removed [OF inv m v [symmetric]] Some x show ?thesis by (simp add: list_view_def)
  qed
  then show "registry_inv t"
    "spec_correlation_op (DiscardFetch f) (list_view s) = (Discarded b, list_view t)"
    by simp_all
qed

lemma correlation_step:
  assumes inv: "registry_inv s" and bound: "unat (rcr_next_id s) < 2 ^ 64 - 1"
    and op: "run_correlation_op op s = (a, t)"
  shows "registry_inv t" "spec_correlation_op op (list_view s) = (a, list_view t)"
    "unat (rcr_next_id t) \<le> Suc (unat (rcr_next_id s))"
proof -
  show "registry_inv t"
  proof (cases op)
    case (RecordAt f n m c now)
    then show ?thesis using op record_refines(1) [OF inv bound refl] by auto
  next
    case (TakeAt r url m hs tab now)
    obtain c v where "take_at r url m hs tab now s = (c, v)" by fastforce
    with TakeAt op take_refines(1) [OF inv this] show ?thesis by simp
  next
    case (PeekAt r url m hs tab now)
    obtain c v where "peek_at r url m hs tab now s = (c, v)" by fastforce
    with PeekAt op peek_refines(1) [OF inv this] show ?thesis by simp
  next
    case (DiscardFetch f)
    obtain c v where "discard_for_fetch_request_id f s = (c, v)" by fastforce
    with DiscardFetch op discard_refines(1) [OF inv this] show ?thesis by simp
  qed (use op inv in \<open>auto simp: take_degraded_reasons_def mark_runtime_degraded_def registry_inv_def
      ids_below_def correlation_ok_def keyed_by_def [abs_def]\<close>)
  show refines: "spec_correlation_op op (list_view s) = (a, list_view t)"
  proof (cases op)
    case (RecordAt f n m c now)
    then show ?thesis using op record_refines(2) [OF inv bound refl] by simp
  next
    case (TakeAt r url m hs tab now)
    obtain c v where "take_at r url m hs tab now s = (c, v)" by fastforce
    with TakeAt op take_refines(2) [OF inv this] show ?thesis by simp
  next
    case (PeekAt r url m hs tab now)
    obtain c v where "peek_at r url m hs tab now s = (c, v)" by fastforce
    with PeekAt op peek_refines(2) [OF inv this] show ?thesis by simp
  next
    case (DiscardFetch f)
    obtain c v where "discard_for_fetch_request_id f s = (c, v)" by fastforce
    with DiscardFetch op discard_refines(2) [OF inv this] show ?thesis by simp
  qed (use op in \<open>auto simp: take_degraded_reasons_def mark_runtime_degraded_def list_view_def
      entries_of_def\<close>)
  have "fst (snd (spec_correlation_op op x)) \<in> {fst x, saturating_add (fst x) 1}" for x
    by (cases op; cases x) (auto simp: Let_def split: option.splits prod.splits)
  then have "rcr_next_id t \<in> {rcr_next_id s, saturating_add (rcr_next_id s) 1}"
    using refines by (metis fst_conv list_view_def snd_conv)
  then show "unat (rcr_next_id t) \<le> Suc (unat (rcr_next_id s))"
    by (auto simp: unat_saturating_add)
qed

lemma correlation_run:
  assumes "registry_inv s" "unat (rcr_next_id s) + length ops < 2 ^ 64 - 1"
    and "run_correlation ops s = (answers, t)"
  shows "registry_inv t \<and> spec_correlation ops (list_view s) = (answers, list_view t) \<and>
    unat (rcr_next_id t) \<le> unat (rcr_next_id s) + length ops"
  using assms
proof (induction ops arbitrary: s answers)
  case (Cons op ops)
  obtain a u where u: "run_correlation_op op s = (a, u)" by fastforce
  obtain as where as: "run_correlation ops u = (as, t)" "answers = a # as"
    using Cons.prems(3) u by (auto simp: Let_def split: prod.splits)
  have "unat (rcr_next_id s) < 2 ^ 64 - 1" using Cons.prems(2) by simp
  note st = correlation_step [OF Cons.prems(1) this u]
  have "unat (rcr_next_id u) + length ops < 2 ^ 64 - 1" using st(3) Cons.prems(2) by simp
  with Cons.IH [OF st(1) this as(1)] st as(2) show ?case by simp
qed simp

lemma registry_inv_default: "registry_inv request_correlation_registry_default"
  using correlation_ok_default
  by (simp add: registry_inv_def ids_below_def request_correlation_registry_default_def)

lemma list_view_default: "list_view request_correlation_registry_default = (0, [])"
  by (simp add: list_view_def entries_of_def request_correlation_registry_default_def)

section \<open>What happens to an entry\<close>

text \<open>An entry that is gone stays gone, and one that was claimed by its id is never open to the search
  without an id again.\<close>

definition gone :: "u64 \<Rightarrow> u64 \<times> correlation_list \<Rightarrow> bool" where
  "gone i = (\<lambda>(next_id, es). i < next_id \<and> i \<notin> fst ` set es)"

definition claimed :: "u64 \<Rightarrow> u64 \<times> correlation_list \<Rightarrow> bool" where
  "claimed i = (\<lambda>(next_id, es). i < next_id \<and> (\<forall>e. (i, e) \<in> set es \<longrightarrow> tmc_unresolved_lookup_key e = None))"

text \<open>What one operation can leave in the list.\<close>

lemma spec_step_entries:
  assumes "spec_correlation_op op (next_id, es) = (a, next_id', es')" "(i, e') \<in> set es'"
  shows "(\<exists>e. (i, e) \<in> set es \<and> (e' = e \<or> e' = retired e)) \<or> i = next_id"
  using assms
proof (cases op)
  case (RecordAt f n m c now)
  with assms show ?thesis
    by (auto simp: take_last_drop dest!: in_set_dropD set_dropWhileD; blast)
next
  case (TakeAt r url m hs tab now)
  with assms show ?thesis
    by (auto simp: Let_def without_def split: option.splits dest!: set_dropWhileD; blast)
next
  case (PeekAt r url m hs tab now)
  with assms show ?thesis
    by (auto simp: Let_def split: option.splits if_splits dest!: set_dropWhileD; blast)
next
  case (DiscardFetch f)
  with assms show ?thesis by (auto simp: without_def split: option.splits; blast)
qed auto

lemma spec_step_next:
  assumes "spec_correlation_op op (next_id, es) = (a, next_id', es')" "unat next_id < 2 ^ 64 - 1"
  shows "next_id \<le> next_id'" "unat next_id' \<le> Suc (unat next_id)"
proof -
  have "next_id' = next_id \<or> next_id' = saturating_add next_id 1"
    using assms(1) by (cases op) (auto simp: Let_def split: option.splits)
  then show "next_id \<le> next_id'" "unat next_id' \<le> Suc (unat next_id)"
    by (auto simp: saturating_add_mono unat_saturating_add)
qed

lemma gone_claimed_step:
  assumes "spec_correlation_op op v = (a, v')" "unat (fst v) < 2 ^ 64 - 1"
  shows "gone i v \<Longrightarrow> gone i v'" "claimed i v \<Longrightarrow> claimed i v'"
proof -
  obtain n es n' es' where v: "v = (n, es)" "v' = (n', es')" by fastforce
  note e = spec_step_entries [OF assms(1) [unfolded v]]
  have n: "n \<le> n'" using spec_step_next(1) [OF assms(1) [unfolded v]] assms(2) v by simp
  show "gone i v'" if "gone i v"
  proof -
    have i: "i < n" "\<nexists>e. (i, e) \<in> set es" using that by (force simp: v gone_def)+
    then have "\<nexists>e. (i, e) \<in> set es'" using e [of i] by blast
    then have "i \<notin> fst ` set es'" by force
    with i(1) n show ?thesis by (simp add: v gone_def)
  qed
  show "claimed i v'" if "claimed i v"
  proof -
    have i: "i < n" "\<And>e. (i, e) \<in> set es \<Longrightarrow> tmc_unresolved_lookup_key e = None"
      using that by (simp_all add: v claimed_def)
    have "tmc_unresolved_lookup_key e' = None" if "(i, e') \<in> set es'" for e'
      using e [OF that] i by (auto simp: retired_def)
    with i(1) n show ?thesis by (simp add: v claimed_def)
  qed
qed

lemma gone_claimed_run:
  assumes "spec_correlation ops v = (as, v')" "unat (fst v) + length ops < 2 ^ 64 - 1"
  shows "(gone i v \<longrightarrow> gone i v') \<and> (claimed i v \<longrightarrow> claimed i v')"
  using assms
proof (induction ops arbitrary: v as)
  case (Cons op ops)
  obtain a u as' where u: "spec_correlation_op op v = (a, u)" "spec_correlation ops u = (as', v')"
    using Cons.prems(1) by (auto simp: Let_def split: prod.splits)
  have b: "unat (fst v) < 2 ^ 64 - 1" using Cons.prems(2) by simp
  have "unat (fst u) \<le> Suc (unat (fst v))"
    using spec_step_next(2) [of op "fst v" "snd v" a "fst u" "snd u"] u(1) b by simp
  then have "unat (fst u) + length ops < 2 ^ 64 - 1" using Cons.prems(2) by simp
  from Cons.IH [OF u(2) this] gone_claimed_step [OF u(1) b] show ?case by blast
qed simp

section \<open>Age and loss\<close>

fun op_time :: "correlation_op \<Rightarrow> nat option" where
  "op_time (RecordAt f n m c now) = Some now"
| "op_time (TakeAt r url m hs tab now) = Some now"
| "op_time (PeekAt r url m hs tab now) = Some now"
| "op_time _ = None"

fun op_times :: "correlation_op list \<Rightarrow> nat list" where
  "op_times [] = []"
| "op_times (op # ops) =
     (case op_time op of Some now \<Rightarrow> now # op_times ops | None \<Rightarrow> op_times ops)"

definition clocked :: "nat \<Rightarrow> correlation_list \<Rightarrow> bool" where
  "clocked limit es \<longleftrightarrow> sorted (map (\<lambda>(i, e). tmc_recorded_at e) es) \<and>
     (\<forall>(i, e)\<in>set es. tmc_recorded_at e \<le> limit)"

lemma dropWhile_expired:
  "clocked limit es \<Longrightarrow> dropWhile (expired_entry now) es = filter (\<lambda>x. \<not> expired_entry now x) es"
proof (induction es)
  case (Cons x es)
  show ?case
  proof (cases "expired_entry now x")
    case True
    with Cons show ?thesis by (simp add: clocked_def)
  next
    case False
    have "\<not> expired_entry now y" if "y \<in> set es" for y
      using Cons.prems False that by (force simp: clocked_def expired_entry_def split: prod.splits)
    then have "filter (\<lambda>x. \<not> expired_entry now x) es = es" by (simp add: filter_id_conv)
    with False show ?thesis by simp
  qed
qed simp

lemma clocked_subseq: "clocked limit es \<Longrightarrow> clocked limit (filter P es) \<and> clocked limit (drop k es)"
proof (induction es arbitrary: k)
  case (Cons x es)
  then show ?case by (cases k) (auto simp: clocked_def split: prod.splits)
qed (simp add: clocked_def)

lemma clocked_snoc:
  "clocked limit es \<Longrightarrow> limit \<le> tmc_recorded_at e \<Longrightarrow> clocked (tmc_recorded_at e) (es @ [(i, e)])"
  by (fastforce simp: clocked_def sorted_append)

lemma clocked_mono: "clocked limit es \<Longrightarrow> limit \<le> limit' \<Longrightarrow> clocked limit' es"
  by (fastforce simp: clocked_def)

lemma clocked_retired:
  "clocked limit es \<Longrightarrow> clocked limit (map (\<lambda>(j, x). (j, if j = i then retired x else x)) es)"
proof -
  let ?f = "\<lambda>(j, x). (j, if j = i then retired x else x)" and ?g = "\<lambda>(i, e). tmc_recorded_at e"
  have "?g (?f x) = ?g x" for x by (cases x) (simp add: retired_def)
  then have m: "map ?g (map ?f es) = map ?g es" by simp
  have c: "clocked limit fs \<longleftrightarrow> sorted (map ?g fs) \<and> (\<forall>y\<in>set (map ?g fs). y \<le> limit)" for fs
    by (auto simp: clocked_def)
  have "clocked limit (map ?f es) = clocked limit es" unfolding c m ..
  then show "clocked limit es \<Longrightarrow> clocked limit (map ?f es)" by simp
qed

lemma clocked_step:
  assumes es: "clocked limit es" and step: "spec_correlation_op op (n, es) = (a, n', es')"
    and time: "\<And>now. op_time op = Some now \<Longrightarrow> limit \<le> now"
  shows "clocked (case op_time op of Some now \<Rightarrow> now | None \<Rightarrow> limit) es'"
    "op_time op = Some now \<Longrightarrow> (i, e) \<in> set es' \<Longrightarrow> now - tmc_recorded_at e \<le> CORRELATION_TTL"
proof -
  have fresh: "clocked now (dropWhile (expired_entry now) es)"
    "\<And>i e. (i, e) \<in> set (dropWhile (expired_entry now) es) \<Longrightarrow>
       now - tmc_recorded_at e \<le> CORRELATION_TTL"
    if "op_time op = Some now" for now
    using clocked_mono [OF es time [OF that]] dropWhile_expired [OF es]
    by (auto simp: clocked_subseq expired_entry_def)
  show "clocked (case op_time op of Some now \<Rightarrow> now | None \<Rightarrow> limit) es'"
  proof (cases op)
    case (RecordAt f x m c now)
    let ?es = "filter (\<lambda>(i, e). \<not> replaces f x e) (dropWhile (expired_entry now) es)"
    have "clocked now (?es @ [(n, recorded_entry f x m c now)])"
      using clocked_snoc [of now ?es "recorded_entry f x m c now" n] fresh(1) clocked_subseq RecordAt
      by (auto simp: recorded_entry_def)
    with RecordAt step show ?thesis by (auto simp: take_last_drop clocked_subseq simp del: drop_append)
  next
    case (TakeAt r url m hs tab now)
    with step fresh show ?thesis
      by (auto simp: Let_def without_def clocked_subseq split: option.splits)
  next
    case (PeekAt r url m hs tab now)
    with step fresh show ?thesis
      by (auto simp: Let_def clocked_retired split: option.splits)
  next
    case (DiscardFetch f)
    with step es show ?thesis by (auto simp: without_def clocked_subseq split: option.splits)
  qed (use step es in auto)
  show "now - tmc_recorded_at e \<le> CORRELATION_TTL" if now: "op_time op = Some now" "(i, e) \<in> set es'"
  proof (cases op)
    case (RecordAt f x m c now')
    have "(i, e) \<in> set (dropWhile (expired_entry now) es) \<or> e = recorded_entry f x m c now"
      using step now RecordAt by (auto simp: take_last_drop simp del: drop_append dest!: in_set_dropD)
    then show ?thesis using fresh(2) [OF now(1)] by (auto simp: recorded_entry_def)
  next
    case (TakeAt r url m hs tab now')
    with step fresh now show ?thesis
      by (auto simp: Let_def without_def split: option.splits)
  next
    case (PeekAt r url m hs tab now')
    with step fresh now show ?thesis
      by (fastforce simp: Let_def retired_def split: option.splits if_splits)
  qed (use now in auto)
qed

lemma clocked_run:
  assumes "spec_correlation ops (n, es) = (as, n', es')" "clocked limit es"
    and "sorted (limit # op_times ops)"
  shows "\<exists>limit'. clocked limit' es' \<and> limit' \<in> set (limit # op_times ops)"
  using assms
proof (induction ops arbitrary: n es as limit)
  case (Cons op ops)
  obtain a m fs as' where u: "spec_correlation_op op (n, es) = (a, m, fs)"
      "spec_correlation ops (m, fs) = (as', n', es')"
    using Cons.prems(1) by (auto simp: Let_def split: prod.splits)
  let ?limit = "case op_time op of Some now \<Rightarrow> now | None \<Rightarrow> limit"
  have "clocked ?limit fs"
    using Cons.prems(3) by (intro clocked_step(1) [OF Cons.prems(2) u(1)]) simp
  moreover have "sorted (?limit # op_times ops)"
    using Cons.prems(3) by (auto split: option.splits)
  ultimately have "\<exists>limit'. clocked limit' es' \<and> limit' \<in> set (?limit # op_times ops)"
    by (rule Cons.IH [OF u(2)])
  then show ?case by (auto split: option.splits)
qed auto

text \<open>How an entry may leave the list: by the operation's own doing.\<close>

fun removes :: "correlation_op \<Rightarrow> correlation_answer \<Rightarrow> timed_correlation \<Rightarrow> bool" where
  "removes (RecordAt f n m c now) a e = replaces f n e"
| "removes (TakeAt r url m hs tab now) a e = (a = Found (Some (tmc_correlation e)))"
| "removes (DiscardFetch f) a e = (tmc_fetch_request_id e = f)"
| "removes _ a e = False"

lemma prune_announces:
  assumes "registry_inv s" "t = prune now s" "(i, e) \<in> set (entries_of s)" "(i, e) \<notin> set (entries_of t)"
  shows "CORRELATION_REGISTRY_TTL_EXPIRED_REASON \<in> set (rcr_degraded_reasons t)"
proof -
  have "rcr_degraded_reasons t =
      rcr_degraded_reasons (emit_degraded CORRELATION_REGISTRY_TTL_EXPIRED_REASON s)"
    using prune_ok(4) [OF _ _ assms(2)] assms by (auto simp: registry_inv_def)
  then show ?thesis by (metis emit_degraded_last last_in_set)
qed

lemma emit_degraded_keeps: "set (rcr_degraded_reasons s) \<subseteq> set (rcr_degraded_reasons (emit_degraded reason s))"
  by (simp add: emit_degraded_def subset_insertI)

lemma record_announces:
  assumes inv: "registry_inv s" and t: "t = record_at f n m c now s"
    and e: "(i, e) \<in> set (entries_of s)" "(i, e) \<notin> set (entries_of t)" "\<not> replaces f n e"
  shows "CORRELATION_REGISTRY_TTL_EXPIRED_REASON \<in> set (rcr_degraded_reasons t) \<or>
    CORRELATION_REGISTRY_EVICTED_REASON \<in> set (rcr_degraded_reasons t)"
proof -
  obtain u v where u: "u = prune now s" and v: "v = insert_timed f n m c now u" by simp
  note p = pruned [OF inv u]
  have ok: "correlation_ok u" "ids_below u" using p(1) by (simp_all add: registry_inv_def)
  note ins = insert_timed_ok [OF ok v]
  obtain b w where w: "evict_loop False v = (b, w)" by fastforce
  note ev = evict_loop_ok [OF ins(1) w]
  have t': "t = (if b then emit_degraded CORRELATION_REGISTRY_EVICTED_REASON w else w)"
    by (simp add: t record_at_def u [symmetric] v [symmetric] w)
  show ?thesis
  proof (cases "(i, e) \<in> set (entries_of u)")
    case False
    then have "CORRELATION_REGISTRY_TTL_EXPIRED_REASON \<in> set (rcr_degraded_reasons w)"
      using prune_announces [OF inv u e(1)] ev ins(4) by simp
    then show ?thesis using t' emit_degraded_keeps [of w] by auto
  next
    case True
    then have "(i, e) \<in> set (entries_of v)" using e(3) by (simp add: ins(2))
    then have b: b using e(2) t' ev by (auto simp: take_last_drop split: if_splits)
    have "CORRELATION_REGISTRY_EVICTED_REASON \<in>
        set (rcr_degraded_reasons (emit_degraded CORRELATION_REGISTRY_EVICTED_REASON w))"
      by (metis emit_degraded_last last_in_set)
    with b t' show ?thesis by simp
  qed
qed

lemma lookups_announce:
  assumes inv: "registry_inv s" and e: "(i, e) \<in> set (entries_of s)" "i \<notin> set (rcr_order t)"
  shows "take_at r url m hs tab now s = (a, t) \<Longrightarrow> a = Some (tmc_correlation e) \<or>
      CORRELATION_REGISTRY_TTL_EXPIRED_REASON \<in> set (rcr_degraded_reasons t)"
    "peek_at r url m hs tab now s = (a, t) \<Longrightarrow>
      CORRELATION_REGISTRY_TTL_EXPIRED_REASON \<in> set (rcr_degraded_reasons t)"
proof -
  obtain u where u: "u = prune now s" by simp
  note p = pruned [OF inv u]
  have ok: "correlation_ok u" using p(1) by (simp add: registry_inv_def)
  have gone: "(i, x) \<notin> set (entries_of t)" for x
    using e(2) entries_of_fst [of t] by (metis fst_conv image_eqI set_map)
  have expired: "CORRELATION_REGISTRY_TTL_EXPIRED_REASON \<in> set (rcr_degraded_reasons u)"
    if "(i, e) \<notin> set (entries_of u)"
    using prune_announces [OF inv u e(1) that] .
  obtain f v where f: "find_unique_unresolved url m hs tab u = (f, v)" by fastforce
  note w = searched [OF p(1) f]
  have v: "entries_of v = entries_of u" "correlation_ok v" using w(1,2) by (simp_all add: list_view_def registry_inv_def)
  have shape: "(a, t) = (None, v) \<or> (\<exists>x. (a, t) = remove_entry x u) \<or> (\<exists>x. (a, t) = remove_entry x v)"
    if take: "take_at r url m hs tab now s = (a, t)"
  proof (cases "direct_entry_id r u")
    case None
    with take show ?thesis by (cases f) (auto simp: take_at_def u [symmetric] f intro: sym)
  next
    case (Some x)
    with take have "(a, t) = remove_entry x u" by (simp add: take_at_def u [symmetric])
    then show ?thesis by blast
  qed
  show "a = Some (tmc_correlation e) \<or>
      CORRELATION_REGISTRY_TTL_EXPIRED_REASON \<in> set (rcr_degraded_reasons t)"
    if take: "take_at r url m hs tab now s = (a, t)"
  proof (cases "(i, e) \<in> set (entries_of u)")
    case True
    from shape [OF take] consider "t = v" | j x where "j \<in> {u, v}" "(a, t) = remove_entry x j" by auto
    then show ?thesis
    proof cases
      case 1
      with gone True v(1) show ?thesis by simp
    next
      case 2
      then have j: "correlation_ok j" "(i, e) \<in> set (entries_of j)" "t = snd (remove_entry x j)"
          "a = fst (remove_entry x j)"
        using True v ok by (auto, metis snd_conv, metis snd_conv, metis fst_conv, metis fst_conv)
      have "i = x" using gone j by (auto simp: remove_entry_entries)
      with j show ?thesis by (simp add: remove_entry_ok entries_unique)
    qed
  next
    case False
    note r = expired [OF False]
    have "rcr_degraded_reasons t \<in> {rcr_degraded_reasons u, rcr_degraded_reasons v}"
      using shape [OF take] remove_entry_ok(6) [OF ok] remove_entry_ok(6) [OF v(2)]
      by (metis insertCI prod.inject snd_conv)
    then have "set (rcr_degraded_reasons u) \<subseteq> set (rcr_degraded_reasons t)" using w(6) by auto
    with r show ?thesis by blast
  qed
  show "CORRELATION_REGISTRY_TTL_EXPIRED_REASON \<in> set (rcr_degraded_reasons t)"
    if peek: "peek_at r url m hs tab now s = (a, t)"
  proof (cases "direct_entry_id r u")
    case None
    then have "t = v" using peek by (auto simp: peek_at_def u [symmetric] f)
    then show ?thesis using expired w(6) gone v(1) by auto
  next
    case (Some j)
    then have t: "t = retire_unresolved j u" using peek by (auto simp: peek_at_def u [symmetric] Let_def)
    note r = retire_unresolved_ok [OF ok t]
    have "(i, e) \<notin> set (entries_of u)"
      using e(2) entries_of_fst [of u] unfolding r(2) by (metis fst_conv image_eqI set_map)
    then show ?thesis using expired r(5) by simp
  qed
qed

lemma loss_announced:
  assumes inv: "registry_inv s" and bound: "unat (rcr_next_id s) < 2 ^ 64 - 1"
    and op: "run_correlation_op op s = (a, t)"
    and e: "(i, e) \<in> set (entries_of s)" "i \<notin> set (rcr_order t)"
  shows "removes op a e \<or> CORRELATION_REGISTRY_TTL_EXPIRED_REASON \<in> set (rcr_degraded_reasons t) \<or>
    CORRELATION_REGISTRY_EVICTED_REASON \<in> set (rcr_degraded_reasons t)"
proof -
  have ok: "correlation_ok s" using inv by (simp add: registry_inv_def)
  have gone: "(i, x) \<notin> set (entries_of t)" for x
    using e(2) entries_of_fst [of t] by (metis fst_conv image_eqI set_map)
  have here: "i \<in> set (rcr_order s)" using e(1) entries_of_fst [of s] by (metis fst_conv image_eqI set_map)
  show ?thesis
  proof (cases op)
    case (RecordAt f n m c now)
    then have t: "t = record_at f n m c now s" using op by simp
    show ?thesis using record_announces [OF inv t e(1) gone] RecordAt by auto
  next
    case (TakeAt r url m hs tab now)
    obtain c where c: "take_at r url m hs tab now s = (c, t)" "a = Found c"
      using op TakeAt by (auto split: prod.splits)
    show ?thesis using lookups_announce(1) [OF inv e c(1)] TakeAt c(2) by auto
  next
    case (PeekAt r url m hs tab now)
    obtain c where "peek_at r url m hs tab now s = (c, t)"
      using op PeekAt by (auto split: prod.splits)
    then show ?thesis using lookups_announce(2) [OF inv e] by blast
  next
    case (DiscardFetch f)
    have "Mapping.lookup (rcr_by_fetch_request_id s) f \<noteq> None"
    proof
      assume "Mapping.lookup (rcr_by_fetch_request_id s) f = None"
      then have "t = s" using op DiscardFetch by (simp add: discard_for_fetch_request_id_def)
      then show False using e(2) here by simp
    qed
    then obtain j where j: "Mapping.lookup (rcr_by_fetch_request_id s) f = Some j" by blast
    then have t: "t = snd (remove_entry j s)"
      using op DiscardFetch by (auto simp: discard_for_fetch_request_id_def split: prod.splits)
    have "i = j" using gone e(1) by (auto simp: t remove_entry_entries [OF ok])
    then show ?thesis
      using DiscardFetch j entries_unique [OF ok e(1)] by (simp add: correlation_okD(3) [OF ok])
  qed (use op here e in \<open>auto simp: take_degraded_reasons_def mark_runtime_degraded_def\<close>)
qed

text \<open>What a taken entry is, in terms of the list.\<close>

lemma take_found:
  assumes inv: "registry_inv s" and take: "take_at r url m hs tab now s = (Some c, t)"
    and es: "es = dropWhile (expired_entry now) (entries_of s)" and key: "key = for_request url m tab"
  shows "\<exists>i e. (i, e) \<in> set (entries_of s) \<and> tmc_correlation e = c \<and> entries_of t = without i es \<and>
    (direct_spec r es = Some (i, e) \<or>
     direct_spec r es = None \<and> unresolved_spec key hs es = Some (i, e) \<and>
     last (rcr_degraded_reasons t) \<in>
       {CORRELATION_STRICT_FALLBACK_REASON, CORRELATION_RELAXED_FALLBACK_REASON})"
proof -
  have spec: "spec_correlation_op (TakeAt r url m hs tab now) (list_view s) = (Found (Some c), list_view t)"
    by (rule take_refines(2) [OF inv take])
  then obtain i e where found: "found_spec r key hs es = Some (i, e)" "tmc_correlation e = c"
      "entries_of t = without i es"
    by (auto simp: list_view_def Let_def es key split: option.splits)
  then have d: "direct_spec r es = Some (i, e) \<or> direct_spec r es = None \<and> unresolved_spec key hs es = Some (i, e)"
    by (auto simp: found_spec_def or_else_def split: option.splits)
  then have "(i, e) \<in> set es" using direct_spec_member unresolved_spec_member by blast
  then have mem: "(i, e) \<in> set (entries_of s)" unfolding es by (blast dest: set_dropWhileD)
  have "last (rcr_degraded_reasons t) \<in>
      {CORRELATION_STRICT_FALLBACK_REASON, CORRELATION_RELAXED_FALLBACK_REASON}"
    if none: "direct_spec r es = None" and some: "unresolved_spec key hs es = Some (i, e)"
  proof -
    obtain u where u: "u = prune now s" by simp
    note p = pruned [OF inv u]
    have ok: "correlation_ok u" using p(1) by (simp add: registry_inv_def)
    obtain f v where f: "find_unique_unresolved url m hs tab u = (f, v)" by fastforce
    note w = searched [OF p(1) f]
    have eu: "entries_of u = es" by (simp add: p(2) es)
    have fi: "f = Some i" using w(4) some by (simp add: eu key)
    have "(Some c, t) = remove_entry i v"
      using take none by (simp add: take_at_def u [symmetric] direct_entry_spec(1) [OF ok] eu f fi)
    moreover have "correlation_ok v" using w(1) by (simp add: registry_inv_def)
    ultimately have "rcr_degraded_reasons t = rcr_degraded_reasons v"
      by (metis remove_entry_ok(6) snd_conv)
    then show ?thesis using w(5) fi by simp
  qed
  with found d mem show ?thesis by blast
qed

lemma unresolved_spec_unique:
  assumes "unresolved_spec key hs es = Some (i, e)" "(j, x) \<in> set es" "tmc_unresolved_lookup_key x = Some key"
    and "j \<noteq> i"
  shows "strict_entry hs e \<and> \<not> strict_entry hs x"
proof -
  let ?cs = "filter (\<lambda>(i, e). tmc_unresolved_lookup_key e = Some key) es"
  let ?st = "filter (\<lambda>(i, e). strict_entry hs e) ?cs"
  have x: "(j, x) \<in> set ?cs" using assms(2,3) by simp
  show ?thesis
  proof (cases "?st = []")
    case True
    then have "?cs = [(i, e)]" using assms(1) by (auto simp: unresolved_spec_def Let_def the_only_Some)
    then show ?thesis using x assms(4) by simp
  next
    case False
    then have st: "?st = [(i, e)]" using assms(1) by (auto simp: unresolved_spec_def Let_def the_only_Some)
    have "(i, e) \<in> set ?st" by (simp only: st) simp
    moreover have "\<not> strict_entry hs x"
    proof
      assume "strict_entry hs x"
      then have "(j, x) \<in> set ?st" using x by simp
      then show False using assms(4) by (simp only: st) simp
    qed
    ultimately show ?thesis by simp
  qed
qed

lemma direct_spec_retired:
  "direct_spec r (map (\<lambda>(k, x). (k, if k = j then retired x else x)) xs) =
   map_option (\<lambda>(k, x). (k, if k = j then retired x else x)) (direct_spec r xs)"
proof -
  let ?f = "\<lambda>(k, x). (k, if k = j then retired x else x)"
  have "List.find (\<lambda>(i, e). tmc_network_id e = Some r) (map ?f xs) =
      map_option ?f (List.find (\<lambda>(i, e). tmc_network_id e = Some r) xs)"
    "List.find (\<lambda>(i, e). tmc_fetch_request_id e = r) (map ?f xs) =
      map_option ?f (List.find (\<lambda>(i, e). tmc_fetch_request_id e = r) xs)"
    by (induction xs) (auto simp: retired_def)
  then show ?thesis unfolding direct_spec_def or_else_def by (simp split: option.split)
qed

lemma gone_after:
  assumes inv: "registry_inv s" "registry_inv t" and i: "i \<in> set (rcr_order s)" "i \<notin> set (rcr_order t)"
    and same: "rcr_next_id t = rcr_next_id s"
    and run: "run_correlation later t = (bs, u)" "unat (rcr_next_id t) + length later < 2 ^ 64 - 1"
  shows "i \<notin> set (rcr_order u)"
proof -
  have "i \<notin> fst ` set (entries_of t)" using i(2) by (metis entries_of_fst set_map)
  then have "gone i (list_view t)"
    using inv(1) i(1) same by (auto simp: gone_def list_view_def registry_inv_def ids_below_def)
  moreover have "spec_correlation later (list_view t) = (bs, list_view u)"
    using correlation_run [OF inv(2) run(2,1)] by simp
  ultimately have "gone i (list_view u)"
    using gone_claimed_run [of later "list_view t"] run(2) by (simp add: list_view_def)
  then show ?thesis by (simp add: gone_def list_view_def) (metis entries_of_fst set_map)
qed

lemma claimed_after:
  assumes inv: "registry_inv t" and e: "(i, e) \<in> set (entries_of t)" "tmc_unresolved_lookup_key e = None"
    and run: "run_correlation later t = (bs, u)" "unat (rcr_next_id t) + length later < 2 ^ 64 - 1"
  shows "unresolved_spec key hs (entries_of u) \<noteq> Some (i, x)"
proof
  assume found: "unresolved_spec key hs (entries_of u) = Some (i, x)"
  have ok: "correlation_ok t" using inv by (simp add: registry_inv_def)
  have "i \<in> set (rcr_order t)" using e(1) by (metis entries_of_fst fst_conv image_eqI set_map)
  then have "i < rcr_next_id t" using inv by (simp add: registry_inv_def ids_below_def)
  moreover have "tmc_unresolved_lookup_key y = None" if "(i, y) \<in> set (entries_of t)" for y
    using entries_unique [OF ok that] entries_unique [OF ok e(1)] e(2) by simp
  ultimately have "claimed i (list_view t)" by (simp add: claimed_def list_view_def)
  moreover have "spec_correlation later (list_view t) = (bs, list_view u)"
    using correlation_run [OF inv run(2,1)] by simp
  ultimately have "claimed i (list_view u)"
    using gone_claimed_run [of later "list_view t"] run(2) by (simp add: list_view_def)
  then show False
    using unresolved_spec_member [OF found] by (auto simp: claimed_def list_view_def)
qed

section \<open>A concrete registry\<close>

definition example_correlation :: request_correlation where
  "example_correlation = \<lparr>rqc_tab_target_id = Some ''t'', rqc_original_url = ''https://a/x'',
     rqc_rewritten_url = Some ''https://b/x'', rqc_effective_request_headers = None,
     rqc_applied_rule_effects = []\<rparr>"

definition example_correlation_record :: correlation_op where
  "example_correlation_record = RecordAt ''fetch-1'' (Some ''net-1'') ''GET'' example_correlation 5"

definition example_correlation_registry :: request_correlation_registry where
  "example_correlation_registry = record_at ''fetch-1'' (Some ''net-1'') ''GET'' example_correlation 5
     request_correlation_registry_default"

lemma example_correlation_registry_run:
  "run_correlation [example_correlation_record] request_correlation_registry_default = ([Silent], example_correlation_registry)"
  by (simp add: example_correlation_record_def example_correlation_registry_def)

lemma example_correlation_registry_inv: "registry_inv example_correlation_registry" "rcr_next_id example_correlation_registry = 1"
  "list_view example_correlation_registry =
     (1, [(0, recorded_entry ''fetch-1'' (Some ''net-1'') ''GET'' example_correlation 5)])"
proof -
  note r = record_refines [OF registry_inv_default _ example_correlation_registry_def]
  have b: "unat (rcr_next_id request_correlation_registry_default) < 2 ^ 64 - 1"
    by (simp add: request_correlation_registry_default_def)
  show "registry_inv example_correlation_registry" by (rule r(1) [OF b])
  show v: "list_view example_correlation_registry =
     (1, [(0, recorded_entry ''fetch-1'' (Some ''net-1'') ''GET'' example_correlation 5)])"
    using r(2) [OF b] by (simp add: list_view_default saturating_add_def take_last_drop CORRELATION_LIMIT_def)
  then show "rcr_next_id example_correlation_registry = 1" by (simp add: list_view_def)
qed

lemma example_taken:
  "\<exists>t. take_at r ''https://b/x'' ''GET'' None (Some ''t'') 7 example_correlation_registry = (Some example_correlation, t)"
  if "r = ''net-1'' \<or> r = ''other''"
proof -
  obtain c t where t: "take_at r ''https://b/x'' ''GET'' None (Some ''t'') 7 example_correlation_registry = (c, t)"
    by fastforce
  have key: "tmc_unresolved_lookup_key (recorded_entry ''fetch-1'' (Some ''net-1'') ''GET'' example_correlation 5) =
      Some (for_request ''https://b/x'' ''GET'' (Some ''t''))"
    by (simp add: recorded_entry_def recorded_match_def from_match_def for_request_def example_correlation_def)
  have strict: "strict_entry None (recorded_entry ''fetch-1'' (Some ''net-1'') ''GET'' example_correlation 5)"
    by (simp add: strict_entry_def recorded_entry_def recorded_match_def example_correlation_def)
  have "c = Some example_correlation"
    using take_refines(2) [OF example_correlation_registry_inv(1) t] that key strict
    by (auto simp: example_correlation_registry_inv(3) expired_entry_def found_spec_def direct_spec_def
        unresolved_spec_def the_only_def or_else_def Let_def recorded_entry_def CORRELATION_TTL_def)
  with t show ?thesis by blast
qed

section \<open>Properties\<close>

text \<open>
  C22. The registry with its five indices behaves as one list of entries. For every sequence of
  recordings, lookups, removals and discards the answers are those of the list: a lookup finds the
  entry under its network id, else under its interception id, else the only unclaimed one of the same
  tab, URL and method; recording drops expired entries, replaces those under the same ids and keeps
  the newest 2048.
\<close>

theorem correlation_registry_refines_list:
  assumes "run_correlation ops request_correlation_registry_default = (answers, s)"
    and "length ops < 2 ^ 64 - 1"
  shows "spec_correlation ops (0, []) = (answers, list_view s)"
  using correlation_run [OF registry_inv_default _ assms(1)] assms(2) list_view_default
  by (simp add: request_correlation_registry_default_def)

theorem correlation_registry_refines_list_witness:
  "spec_correlation [example_correlation_record] (0, []) = ([Silent], list_view example_correlation_registry)"
  by (rule correlation_registry_refines_list [OF example_correlation_registry_run]) simp

text \<open>
  C23. What a rule did to a request is attributed once and to the right request. The correlation a
  taking lookup returns is a live entry that no later operation returns again. The request has the
  entry's own id, or no live entry has the request's id and the entry is the only unclaimed one with
  its tab, URL and method that its headers allow, in which case the registry announces the fallback.
  Once a request has been seen under its id, the search without an id never hands its entry to
  another request.
\<close>

theorem correlation_attribution_sound:
  assumes "run_correlation ops request_correlation_registry_default = (answers, s)"
    and "run_correlation later t = (later_answers, u)"
    and "length ops + length later < 2 ^ 64 - 1"
  shows "(take_at r url m hs tab now s = (Some c, t) \<longrightarrow>
      (\<exists>i e. (i, e) \<in> set (entries_of s) \<and> tmc_correlation e = c \<and> i \<notin> set (rcr_order u) \<and>
        (tmc_network_id e = Some r \<or> tmc_fetch_request_id e = r \<or>
         tmc_unresolved_lookup_key e = Some (for_request url m tab) \<and>
         (\<forall>(j, x)\<in>set (entries_of t). tmc_network_id x \<noteq> Some r \<and> tmc_fetch_request_id x \<noteq> r \<and>
            (tmc_unresolved_lookup_key x = Some (for_request url m tab) \<longrightarrow>
             strict_entry hs e \<and> \<not> strict_entry hs x)) \<and>
         last (rcr_degraded_reasons t) \<in>
           {CORRELATION_STRICT_FALLBACK_REASON, CORRELATION_RELAXED_FALLBACK_REASON}))) \<and>
    (peek_at r url m hs tab now s = (Some c, t) \<longrightarrow> direct_spec r (entries_of t) = Some (i, e) \<longrightarrow>
      unresolved_spec key hs' (entries_of u) \<noteq> Some (i, x))"
proof -
  have run: "registry_inv s \<and> unat (rcr_next_id s) \<le> length ops"
    using correlation_run [OF registry_inv_default _ assms(1)] assms(3)
    by (simp add: request_correlation_registry_default_def)
  let ?key = "for_request url m tab" and ?es = "dropWhile (expired_entry now) (entries_of s)"
  have next_id: "rcr_next_id t = rcr_next_id s" "unat (rcr_next_id t) + length later < 2 ^ 64 - 1"
    if "spec_correlation_op op (list_view s) = (a, list_view t)" "\<nexists>f n m c now. op = RecordAt f n m c now"
    for op a
  proof -
    show "rcr_next_id t = rcr_next_id s"
      using that by (cases op) (auto simp: list_view_def Let_def split: option.splits)
    then show "unat (rcr_next_id t) + length later < 2 ^ 64 - 1" using run assms(3) by simp
  qed
  have "\<exists>i e. (i, e) \<in> set (entries_of s) \<and> tmc_correlation e = c \<and> i \<notin> set (rcr_order u) \<and>
        (tmc_network_id e = Some r \<or> tmc_fetch_request_id e = r \<or>
         tmc_unresolved_lookup_key e = Some ?key \<and>
         (\<forall>(j, x)\<in>set (entries_of t). tmc_network_id x \<noteq> Some r \<and> tmc_fetch_request_id x \<noteq> r \<and>
            (tmc_unresolved_lookup_key x = Some ?key \<longrightarrow> strict_entry hs e \<and> \<not> strict_entry hs x)) \<and>
         last (rcr_degraded_reasons t) \<in>
           {CORRELATION_STRICT_FALLBACK_REASON, CORRELATION_RELAXED_FALLBACK_REASON})"
    if take: "take_at r url m hs tab now s = (Some c, t)"
  proof -
    have inv: "registry_inv s" using run by simp
    note t = take_refines [OF inv take]
    obtain i e where e: "(i, e) \<in> set (entries_of s)" "tmc_correlation e = c" "entries_of t = without i ?es"
      "direct_spec r ?es = Some (i, e) \<or>
       direct_spec r ?es = None \<and> unresolved_spec ?key hs ?es = Some (i, e) \<and>
       last (rcr_degraded_reasons t) \<in>
         {CORRELATION_STRICT_FALLBACK_REASON, CORRELATION_RELAXED_FALLBACK_REASON}"
      using take_found [OF inv take refl refl] by blast
    have "i \<in> set (rcr_order s)" using e(1) by (metis entries_of_fst fst_conv image_eqI set_map)
    moreover have "i \<notin> set (rcr_order t)"
      unfolding entries_of_fst [of t, symmetric] e(3) by (auto simp: without_def)
    ultimately have gone: "i \<notin> set (rcr_order u)"
      using gone_after [OF inv t(1) _ _ _ assms(2)] next_id [OF t(2)] by simp
    show ?thesis
    proof (cases "direct_spec r ?es")
      case (Some x)
      then show ?thesis using e gone direct_spec_member [of r ?es i e] by auto
    next
      case None
      then have f: "unresolved_spec ?key hs ?es = Some (i, e)" using e(4) by simp
      have "\<forall>(j, x)\<in>set ?es. tmc_network_id x \<noteq> Some r \<and> tmc_fetch_request_id x \<noteq> r"
        using None by (auto simp: direct_spec_def or_else_def find_None_iff split: option.splits)
      then have "\<forall>(j, x)\<in>set (entries_of t). tmc_network_id x \<noteq> Some r \<and> tmc_fetch_request_id x \<noteq> r \<and>
            (tmc_unresolved_lookup_key x = Some ?key \<longrightarrow> strict_entry hs e \<and> \<not> strict_entry hs x)"
        using unresolved_spec_unique [OF f] unfolding e(3) without_def by fastforce
      moreover have "last (rcr_degraded_reasons t) \<in>
          {CORRELATION_STRICT_FALLBACK_REASON, CORRELATION_RELAXED_FALLBACK_REASON}"
        using e(4) None by simp
      ultimately show ?thesis using e(1,2) gone unresolved_spec_member [OF f] by blast
    qed
  qed
  moreover have "unresolved_spec key hs' (entries_of u) \<noteq> Some (i, x)"
    if peek: "peek_at r url m hs tab now s = (Some c, t)" "direct_spec r (entries_of t) = Some (i, e)"
  proof -
    have inv: "registry_inv s" using run by simp
    note t = peek_refines [OF inv peek(1)]
    have ok: "correlation_ok t" using t(1) by (simp add: registry_inv_def)
    have mem: "(i, e) \<in> set (entries_of t)" using direct_spec_member [OF peek(2)] by simp
    have "tmc_unresolved_lookup_key e = None"
    proof (cases "direct_spec r ?es")
      case None
      then have "entries_of t = ?es" using t(2) by (simp add: list_view_def Let_def)
      then show ?thesis using None peek(2) by simp
    next
      case (Some y)
      obtain j z where y: "y = (j, z)" by fastforce
      have es: "entries_of t = map (\<lambda>(k, x). (k, if k = j then retired x else x)) ?es"
        using t(2) Some y by (simp add: list_view_def Let_def)
      have "(i, e) = (j, retired z)" using peek(2) unfolding es direct_spec_retired Some y by simp
      then show ?thesis by (simp add: retired_def)
    qed
    with claimed_after [OF t(1) mem _ assms(2)] next_id [OF t(2)] show ?thesis by simp
  qed
  ultimately show ?thesis by blast
qed

theorem correlation_attribution_sound_witness:
  "\<exists>t i e. take_at ''other'' ''https://b/x'' ''GET'' None (Some ''t'') 7 example_correlation_registry =
       (Some example_correlation, t) \<and>
     (i, e) \<in> set (entries_of example_correlation_registry) \<and> tmc_correlation e = example_correlation \<and>
     i \<notin> set (rcr_order t)"
proof -
  obtain t where t: "take_at ''other'' ''https://b/x'' ''GET'' None (Some ''t'') 7 example_correlation_registry =
      (Some example_correlation, t)"
    using example_taken by blast
  have "run_correlation [] t = ([], t)" by simp
  from correlation_attribution_sound [OF example_correlation_registry_run this,
      THEN conjunct1, THEN mp, OF _ t] t
  show ?thesis by auto
qed

text \<open>
  C24. The registry is bounded in number and age, and loses nothing silently. When the clock does not
  run backwards, after every recording or lookup at most 2048 entries are kept and each is at most
  900 seconds old; an entry that disappears was taken, was discarded or was replaced under its own
  id, or else the registry has announced an expiry or an eviction.
\<close>

theorem correlation_registry_bounded:
  assumes "run_correlation ops request_correlation_registry_default = (answers, s)"
    and "run_correlation_op op s = (a, t)" and "op_time op = Some now"
    and "sorted (op_times ops @ [now])" and "length ops < 2 ^ 64 - 1"
  shows "length (entries_of t) \<le> CORRELATION_LIMIT \<and>
    (\<forall>(i, e)\<in>set (entries_of t). now - tmc_recorded_at e \<le> CORRELATION_TTL) \<and>
    (\<forall>(i, e)\<in>set (entries_of s). i \<notin> set (rcr_order t) \<longrightarrow> removes op a e \<or>
       CORRELATION_REGISTRY_TTL_EXPIRED_REASON \<in> set (rcr_degraded_reasons t) \<or>
       CORRELATION_REGISTRY_EVICTED_REASON \<in> set (rcr_degraded_reasons t))"
proof -
  have run: "registry_inv s" "unat (rcr_next_id s) < 2 ^ 64 - 1"
      "spec_correlation ops (0, []) = (answers, list_view s)"
    using correlation_run [OF registry_inv_default _ assms(1)] assms(5) list_view_default
    by (simp_all add: request_correlation_registry_default_def)
  note st = correlation_step [OF run(1,2) assms(2)]
  have "\<exists>limit'. clocked limit' (entries_of s) \<and> limit' \<in> set (0 # op_times ops)"
    using run(3) assms(4)
    by (intro clocked_run [of ops 0 "[]" answers "rcr_next_id s"])
      (simp_all add: list_view_def clocked_def sorted_append)
  then obtain limit where limit: "clocked limit (entries_of s)" "limit \<le> now"
    using assms(4) by (auto simp: sorted_append)
  have "now - tmc_recorded_at e \<le> CORRELATION_TTL" if "(i, e) \<in> set (entries_of t)" for i e
    by (rule clocked_step(2) [OF limit(1) st(2) [unfolded list_view_def] _ assms(3) that])
      (use limit(2) assms(3) in simp)
  moreover have "length (entries_of t) \<le> CORRELATION_LIMIT"
    using st(1) by (simp add: registry_inv_def entries_of_def)
  ultimately show ?thesis
    using loss_announced [OF run(1,2) assms(2)] by blast
qed

theorem correlation_registry_bounded_witness:
  "length (entries_of example_correlation_registry) \<le> CORRELATION_LIMIT \<and>
   list_all (\<lambda>(i, e). 5 - tmc_recorded_at e \<le> CORRELATION_TTL) (entries_of example_correlation_registry)"
proof -
  have "run_correlation [] request_correlation_registry_default =
      ([], request_correlation_registry_default)"
    "run_correlation_op example_correlation_record request_correlation_registry_default = (Silent, example_correlation_registry)"
    "op_time example_correlation_record = Some 5"
    by (simp_all add: example_correlation_record_def example_correlation_registry_def)
  from correlation_registry_bounded [OF this] show ?thesis by (simp add: list_all_iff)
qed

end
