(* ===== verification/Rub_Requests.thy ===== *)
theory Rub_Requests
  imports Rub_Correlation "HOL-Library.List_Lexorder" "HOL-Library.Char_ord"
begin

text \<open>
  The network observatory of a page in the browser adapter (\<^verbatim>\<open>rub-cdp/src/runtime_observatory.rs\<close>
  and \<^verbatim>\<open>runtime_observatory/pending_requests.rs\<close>): the bounded registry of requests in flight and the
  four listeners that turn CDP events into request records, request summaries and network failures,
  and attach to them what the network rules recorded in the correlation registry.

  The listeners are independent tasks. Each handles one event at a time, in sections that lock one of
  the two registries; between sections, and before the callback that ends the handling, the others can
  run. A listener's position and what it carries are part of the state, and a run is a list of moves.

  The CDP events are inputs with the fields the code reads. The text of a JSON value, the decoding of a
  base64 body into UTF-8 text and the browser's answer to the request for a body are arguments.
\<close>

section \<open>Requests in flight\<close>

definition PENDING_REQUEST_RETENTION_LIMIT :: nat where
  "PENDING_REQUEST_RETENTION_LIMIT = 1024"

record pending_request =
  pnr_request_id :: string
  pnr_lifecycle :: network_request_lifecycle
  pnr_url :: string
  pnr_method :: string
  pnr_tab_target_id :: "string option"
  pnr_frame_id :: "string option"
  pnr_resource_type :: "string option"
  pnr_request_headers :: headers
  pnr_request_body :: "network_body_preview option"
  pnr_response_headers :: headers
  pnr_response_body :: "network_body_preview option"
  pnr_status :: "u16 option"
  pnr_original_url :: "string option"
  pnr_rewritten_url :: "string option"
  pnr_applied_rule_effects :: "network_rule_effect list"
  pnr_error_text :: "string option"
  pnr_mime_type :: "string option"

record terminal_request_identity =
  tri_url :: string
  tri_method :: string
  tri_tab_target_id :: "string option"
  tri_frame_id :: "string option"
  tri_resource_type :: "string option"
  tri_request_headers :: headers

record pending_request_registry =
  prr_pending_requests :: "(string, pending_request) mapping"
  prr_terminal_identities :: "(string, terminal_request_identity) mapping"
  prr_request_order :: "string list"

definition pending_request_registry_default :: pending_request_registry where
  "pending_request_registry_default = \<lparr>prr_pending_requests = Mapping.empty,
     prr_terminal_identities = Mapping.empty, prr_request_order = []\<rparr>"

fun lifecycle_rank :: "network_request_lifecycle \<Rightarrow> nat" where
  "lifecycle_rank LifecyclePending = 0"
| "lifecycle_rank LifecycleResponded = 1"
| "lifecycle_rank LifecycleCompleted = 2"
| "lifecycle_rank LifecycleFailed = 2"

definition unknown_request_method :: string where
  "unknown_request_method = []"

definition merge_pending_request :: "pending_request \<Rightarrow> pending_request \<Rightarrow> pending_request" where
  "merge_pending_request existing incoming =
     existing\<lparr>
       pnr_lifecycle :=
         (if lifecycle_rank (pnr_lifecycle incoming) \<ge> lifecycle_rank (pnr_lifecycle existing)
          then pnr_lifecycle incoming else pnr_lifecycle existing),
       pnr_url := nonempty_or (pnr_url incoming) (pnr_url existing),
       pnr_method := (if pnr_method incoming \<noteq> [] \<and> pnr_method existing = [] then pnr_method incoming
          else pnr_method existing),
       pnr_tab_target_id := or_else (pnr_tab_target_id incoming) (pnr_tab_target_id existing),
       pnr_status := or_else (pnr_status incoming) (pnr_status existing),
       pnr_request_headers := nonempty_or (pnr_request_headers incoming) (pnr_request_headers existing),
       pnr_response_headers := nonempty_or (pnr_response_headers incoming) (pnr_response_headers existing),
       pnr_request_body := or_else (pnr_request_body incoming) (pnr_request_body existing),
       pnr_response_body := or_else (pnr_response_body incoming) (pnr_response_body existing),
       pnr_original_url := or_else (pnr_original_url incoming) (pnr_original_url existing),
       pnr_rewritten_url := or_else (pnr_rewritten_url incoming) (pnr_rewritten_url existing),
       pnr_applied_rule_effects :=
         nonempty_or (pnr_applied_rule_effects incoming) (pnr_applied_rule_effects existing),
       pnr_error_text := or_else (pnr_error_text incoming) (pnr_error_text existing),
       pnr_frame_id := or_else (pnr_frame_id incoming) (pnr_frame_id existing),
       pnr_resource_type := or_else (pnr_resource_type incoming) (pnr_resource_type existing),
       pnr_mime_type := or_else (pnr_mime_type incoming) (pnr_mime_type existing)\<rparr>"

definition terminal_identity_from_pending :: "pending_request \<Rightarrow> terminal_request_identity" where
  "terminal_identity_from_pending current =
     \<lparr>tri_url = pnr_url current, tri_method = pnr_method current,
      tri_tab_target_id = pnr_tab_target_id current, tri_frame_id = pnr_frame_id current,
      tri_resource_type = pnr_resource_type current, tri_request_headers = pnr_request_headers current\<rparr>"

definition remove_from_order :: "string \<Rightarrow> pending_request_registry \<Rightarrow> pending_request_registry" where
  "remove_from_order request_id s = s\<lparr>prr_request_order := remove1 request_id (prr_request_order s)\<rparr>"

definition touch :: "string \<Rightarrow> pending_request_registry \<Rightarrow> pending_request_registry" where
  "touch request_id s =
     (let s = remove_from_order request_id s
      in s\<lparr>prr_request_order := prr_request_order s @ [request_id]\<rparr>)"

fun enforce_loop ::
  "nat \<Rightarrow> string list \<Rightarrow> (string, pending_request) mapping \<Rightarrow> (string, terminal_request_identity) mapping
   \<Rightarrow> bool \<Rightarrow> bool \<times> pending_request_registry" where
  "enforce_loop limit [] pending terminal evicted =
     (evicted, \<lparr>prr_pending_requests = pending, prr_terminal_identities = terminal, prr_request_order = []\<rparr>)"
| "enforce_loop limit (oldest # order) pending terminal evicted =
     (if length (oldest # order) > limit
      then enforce_loop limit order (Mapping.delete oldest pending) (Mapping.delete oldest terminal) True
      else (evicted, \<lparr>prr_pending_requests = pending, prr_terminal_identities = terminal,
             prr_request_order = oldest # order\<rparr>))"

definition enforce_bound :: "pending_request_registry \<Rightarrow> bool \<times> pending_request_registry" where
  "enforce_bound s = enforce_loop PENDING_REQUEST_RETENTION_LIMIT (prr_request_order s)
     (prr_pending_requests s) (prr_terminal_identities s) False"

definition upsert_pending ::
  "string \<Rightarrow> pending_request \<Rightarrow> pending_request_registry
   \<Rightarrow> pending_request \<times> bool \<times> pending_request_registry" where
  "upsert_pending request_id pending s =
     (let current = (case Mapping.lookup (prr_pending_requests s) request_id of
                       Some existing \<Rightarrow> merge_pending_request existing pending
                     | None \<Rightarrow> pending);
          s = s\<lparr>prr_pending_requests := Mapping.update request_id current (prr_pending_requests s)\<rparr>;
          (evicted, s) = enforce_bound (touch request_id s)
      in (current, evicted, s))"

definition upsert_terminal_identity ::
  "string \<Rightarrow> terminal_request_identity \<Rightarrow> pending_request_registry \<Rightarrow> bool \<times> pending_request_registry" where
  "upsert_terminal_identity request_id identity s =
     enforce_bound (touch request_id (s\<lparr>prr_terminal_identities :=
       Mapping.update request_id identity (prr_terminal_identities s)\<rparr>))"

definition record_request ::
  "string \<Rightarrow> pending_request \<Rightarrow> pending_request_registry
   \<Rightarrow> pending_request \<times> bool \<times> pending_request_registry" where
  "record_request request_id pending s =
     (let (current, evicted_pending, s) = upsert_pending request_id pending s;
          (evicted_terminal, s) =
            upsert_terminal_identity request_id (terminal_identity_from_pending current) s
      in (current, evicted_pending \<or> evicted_terminal, s))"

definition remove_request ::
  "string \<Rightarrow> pending_request_registry
   \<Rightarrow> (pending_request option \<times> terminal_request_identity option) \<times> pending_request_registry" where
  "remove_request request_id s =
     (let s = remove_from_order request_id s
      in ((Mapping.lookup (prr_pending_requests s) request_id,
           Mapping.lookup (prr_terminal_identities s) request_id),
          s\<lparr>prr_pending_requests := Mapping.delete request_id (prr_pending_requests s),
            prr_terminal_identities := Mapping.delete request_id (prr_terminal_identities s)\<rparr>))"

definition take_terminal_state ::
  "string \<Rightarrow> pending_request_registry
   \<Rightarrow> (pending_request option \<times> terminal_request_identity option) \<times> pending_request_registry" where
  "take_terminal_state request_id s = remove_request request_id s"

definition peek_terminal_identity ::
  "string \<Rightarrow> pending_request_registry \<Rightarrow> terminal_request_identity option" where
  "peek_terminal_identity request_id s =
     or_else (Mapping.lookup (prr_terminal_identities s) request_id)
       (map_option terminal_identity_from_pending (Mapping.lookup (prr_pending_requests s) request_id))"

section \<open>Bodies and headers\<close>

text \<open>The UTF-8 characters of a string: a byte outside \<open>0x80..0xBF\<close> starts one.\<close>

definition starts_char :: "char \<Rightarrow> bool" where
  "starts_char c \<longleftrightarrow> (let b = of_char c :: nat in b < 0x80 \<or> 0xBF < b)"

definition char_count :: "string \<Rightarrow> nat" where
  "char_count text = length (filter starts_char text)"

fun take_chars :: "nat \<Rightarrow> string \<Rightarrow> string" where
  "take_chars n [] = []"
| "take_chars n (c # cs) =
     (if starts_char c then (if n = 0 then [] else c # take_chars (n - 1) cs)
      else c # take_chars n cs)"

definition BODY_PREVIEW_LIMIT :: nat where
  "BODY_PREVIEW_LIMIT = 4096"

record 'n observatory_env =
  oen_json_text :: "'n json \<Rightarrow> string"
  oen_decode_text :: "string \<Rightarrow> string option"

definition project_body_preview :: "'n observatory_env \<Rightarrow> string \<Rightarrow> bool \<Rightarrow> network_body_preview" where
  "project_body_preview env body base64_encoded =
     (let (preview, encoding) =
            (if base64_encoded
             then case oen_decode_text env body of
                    Some text \<Rightarrow> (text, ''text'')
                  | None \<Rightarrow> (body, ''base64'')
             else (body, ''text''));
          truncated = char_count preview > BODY_PREVIEW_LIMIT
      in \<lparr>nbp_available = True, nbp_preview = Some (take_chars BODY_PREVIEW_LIMIT preview),
          nbp_encoding = Some encoding, nbp_truncated = (if truncated then Some True else None),
          nbp_omitted_reason = None\<rparr>)"

definition unavailable_body_preview :: "string \<Rightarrow> network_body_preview" where
  "unavailable_body_preview reason = \<lparr>nbp_available = False, nbp_preview = None, nbp_encoding = None,
     nbp_truncated = None, nbp_omitted_reason = Some reason\<rparr>"

definition header_text :: "'n observatory_env \<Rightarrow> 'n json \<Rightarrow> string option" where
  "header_text env value =
     (case json_as_str value of
        Some text \<Rightarrow> Some text
      | None \<Rightarrow> if json_is_null value then None else Some (oen_json_text env value))"

definition headers_to_map :: "'n observatory_env \<Rightarrow> 'n json \<Rightarrow> headers" where
  "headers_to_map env hs =
     (case json_as_object hs of
        Some kvs \<Rightarrow> fold (\<lambda>(name, value) projected.
            case header_text env value of
              Some text \<Rightarrow> btree_insert (normalize_header_name name) text projected
            | None \<Rightarrow> projected) kvs []
      | None \<Rightarrow> [])"

definition is_digit :: "char \<Rightarrow> bool" where
  "is_digit c \<longleftrightarrow> (let b = of_char c :: nat in 48 \<le> b \<and> b \<le> 57)"

definition digits_value :: "string \<Rightarrow> nat" where
  "digits_value = foldl (\<lambda>n c. 10 * n + (of_char c - 48)) 0"

text \<open>\<^verbatim>\<open>str::parse::<u64>\<close>: an optional plus sign, at least one digit, no overflow.\<close>

definition parse_u64 :: "string \<Rightarrow> nat option" where
  "parse_u64 text =
     (let digits = (case text of c # cs \<Rightarrow> if c = CHR ''+'' then cs else text | [] \<Rightarrow> [])
      in if digits \<noteq> [] \<and> list_all is_digit digits \<and> digits_value digits < 2 ^ 64
         then Some (digits_value digits) else None)"

definition content_length :: "headers \<Rightarrow> string option" where
  "content_length hs = or_else (map_of hs ''content-length'') (map_of hs ''Content-Length'')"

definition should_capture_response_preview :: "pending_request \<Rightarrow> bool" where
  "should_capture_response_preview pending =
     (let resource_type = to_ascii_lowercase (case pnr_resource_type pending of Some t \<Rightarrow> t | None \<Rightarrow> []);
          mime_type = to_ascii_lowercase (case pnr_mime_type pending of Some t \<Rightarrow> t | None \<Rightarrow> [])
      in if resource_type \<in> {''image'', ''media'', ''font'', ''stylesheet''} then False
         else if list_ex (starts_with mime_type) [''image/'', ''audio/'', ''video/'', ''font/''] \<or>
           mime_type \<in> {''application/octet-stream'', ''application/pdf'', ''application/zip''} then False
         else case Option.bind (content_length (pnr_response_headers pending)) parse_u64 of
             None \<Rightarrow> True
           | Some n \<Rightarrow> n \<le> 64 * 1024)"

definition skipped_body_preview :: "pending_request \<Rightarrow> network_body_preview" where
  "skipped_body_preview pending =
     (let or_unknown = (\<lambda>x. case x of Some t \<Rightarrow> t | None \<Rightarrow> ''unknown'')
      in unavailable_body_preview (''omitted_by_budget:resource_type='' @
           to_ascii_lowercase (or_unknown (pnr_resource_type pending)) @
           '':mime_type='' @ or_unknown (pnr_mime_type pending) @
           '':content_length='' @ or_unknown (content_length (pnr_response_headers pending))))"

definition normalize_status :: "int \<Rightarrow> u16 option" where
  "normalize_status status = (if 0 \<le> status \<and> status \<le> 65535 then Some (word_of_int status) else None)"

definition build_request_record :: "pending_request \<Rightarrow> observed_network_request_record" where
  "build_request_record p =
     \<lparr>onr_request_id = pnr_request_id p, onr_lifecycle = pnr_lifecycle p, onr_url = pnr_url p,
      onr_method = pnr_method p, onr_tab_target_id = pnr_tab_target_id p, onr_status = pnr_status p,
      onr_request_headers = pnr_request_headers p, onr_response_headers = pnr_response_headers p,
      onr_request_body = pnr_request_body p, onr_response_body = pnr_response_body p,
      onr_original_url = pnr_original_url p, onr_rewritten_url = pnr_rewritten_url p,
      onr_applied_rule_effects = pnr_applied_rule_effects p, onr_error_text = pnr_error_text p,
      onr_frame_id = pnr_frame_id p, onr_resource_type = pnr_resource_type p,
      onr_mime_type = pnr_mime_type p\<rparr>"

section \<open>Events\<close>

record 'n cdp_request =
  crq_url :: string
  crq_method :: string
  crq_headers :: "'n json"
  crq_post_data_entries :: "string option list option"
  crq_has_post_data :: "bool option"

record 'n request_will_be_sent =
  rws_request_id :: string
  rws_request :: "'n cdp_request"
  rws_frame_id :: "string option"
  rws_type :: "string option"

record 'n response_received =
  rrv_request_id :: string
  rrv_url :: string
  rrv_frame_id :: "string option"
  rrv_type :: string
  rrv_headers :: "'n json"
  rrv_status :: int
  rrv_mime_type :: string

record loading_failed =
  ldf_request_id :: string
  ldf_error_text :: string

definition request_body_preview ::
  "'n observatory_env \<Rightarrow> 'n cdp_request \<Rightarrow> network_body_preview option" where
  "request_body_preview env request =
     (case crq_post_data_entries request of
        Some entries \<Rightarrow> Some (project_body_preview env (concat (List.map_filter (\<lambda>bytes. bytes) entries)) True)
      | None \<Rightarrow> if crq_has_post_data request = Some True
          then Some (unavailable_body_preview ''not_captured'') else None)"

definition response_body_preview ::
  "'n observatory_env \<Rightarrow> string + string \<times> bool \<Rightarrow> network_body_preview" where
  "response_body_preview env answer =
     (case answer of
        Inr (body, base64_encoded) \<Rightarrow> project_body_preview env body base64_encoded
      | Inl error \<Rightarrow> unavailable_body_preview (''unavailable:'' @ error))"

definition pending_request_from_request ::
  "'n observatory_env \<Rightarrow> string \<Rightarrow> 'n request_will_be_sent \<Rightarrow> request_correlation option \<Rightarrow> pending_request" where
  "pending_request_from_request env tab_target event correlation =
     \<lparr>pnr_request_id = rws_request_id event, pnr_lifecycle = LifecyclePending,
      pnr_url = crq_url (rws_request event), pnr_method = crq_method (rws_request event),
      pnr_tab_target_id = Some tab_target, pnr_frame_id = rws_frame_id event,
      pnr_resource_type = rws_type event,
      pnr_request_headers = headers_to_map env (crq_headers (rws_request event)),
      pnr_request_body = request_body_preview env (rws_request event),
      pnr_response_headers = [], pnr_response_body = None, pnr_status = None,
      pnr_original_url = map_option rqc_original_url correlation,
      pnr_rewritten_url = Option.bind correlation rqc_rewritten_url,
      pnr_applied_rule_effects =
        (case correlation of Some c \<Rightarrow> rqc_applied_rule_effects c | None \<Rightarrow> []),
      pnr_error_text = None, pnr_mime_type = None\<rparr>"

definition pending_request_from_response ::
  "'n observatory_env \<Rightarrow> string \<Rightarrow> 'n response_received \<Rightarrow> request_correlation option \<Rightarrow> pending_request" where
  "pending_request_from_response env tab_target event correlation =
     \<lparr>pnr_request_id = rrv_request_id event, pnr_lifecycle = LifecycleResponded,
      pnr_url = rrv_url event, pnr_method = unknown_request_method,
      pnr_tab_target_id = Some tab_target, pnr_frame_id = rrv_frame_id event,
      pnr_resource_type = Some (rrv_type event),
      pnr_request_headers =
        (case Option.bind correlation rqc_effective_request_headers of Some hs \<Rightarrow> hs | None \<Rightarrow> []),
      pnr_request_body = None,
      pnr_response_headers = headers_to_map env (rrv_headers event),
      pnr_response_body = Some (unavailable_body_preview ''not_loaded''),
      pnr_status = normalize_status (rrv_status event),
      pnr_original_url = Option.bind correlation (\<lambda>c.
        if rqc_original_url c \<noteq> rrv_url event then Some (rqc_original_url c) else None),
      pnr_rewritten_url = Option.bind correlation (\<lambda>c. Option.bind (rqc_rewritten_url c) (\<lambda>url.
        if url \<noteq> rrv_url event then Some url else None)),
      pnr_applied_rule_effects =
        (case correlation of Some c \<Rightarrow> rqc_applied_rule_effects c | None \<Rightarrow> []),
      pnr_error_text = None, pnr_mime_type = Some (rrv_mime_type event)\<rparr>"

definition pending_request_from_terminal ::
  "string \<Rightarrow> network_request_lifecycle \<Rightarrow> terminal_request_identity option \<Rightarrow> request_correlation option
   \<Rightarrow> string \<Rightarrow> pending_request" where
  "pending_request_from_terminal request_id lifecycle terminal_identity correlation tab_target =
     \<lparr>pnr_request_id = request_id, pnr_lifecycle = lifecycle,
      pnr_url =
        (case or_else (Option.bind correlation (\<lambda>c.
                or_else (rqc_rewritten_url c) (Some (rqc_original_url c))))
              (map_option tri_url terminal_identity) of Some url \<Rightarrow> url | None \<Rightarrow> []),
      pnr_method =
        (case Option.bind terminal_identity (\<lambda>t. if tri_method t \<noteq> [] then Some (tri_method t) else None) of
           Some m \<Rightarrow> m | None \<Rightarrow> unknown_request_method),
      pnr_tab_target_id = or_else (Option.bind terminal_identity tri_tab_target_id) (Some tab_target),
      pnr_frame_id = Option.bind terminal_identity tri_frame_id,
      pnr_resource_type = Option.bind terminal_identity tri_resource_type,
      pnr_request_headers =
        (case or_else (Option.bind correlation rqc_effective_request_headers)
              (map_option tri_request_headers terminal_identity) of Some hs \<Rightarrow> hs | None \<Rightarrow> []),
      pnr_request_body = None, pnr_response_headers = [],
      pnr_response_body = Some (unavailable_body_preview ''not_loaded''), pnr_status = None,
      pnr_original_url = map_option rqc_original_url correlation,
      pnr_rewritten_url = Option.bind correlation rqc_rewritten_url,
      pnr_applied_rule_effects =
        (case correlation of Some c \<Rightarrow> rqc_applied_rule_effects c | None \<Rightarrow> []),
      pnr_error_text = None, pnr_mime_type = None\<rparr>"

definition apply_terminal_correlation ::
  "string \<Rightarrow> network_request_lifecycle \<Rightarrow> request_correlation option \<Rightarrow> string \<Rightarrow> pending_request
   \<Rightarrow> pending_request" where
  "apply_terminal_correlation request_id lifecycle correlation tab_target pending =
     (if correlation = None then pending
      else merge_pending_request pending
        (pending_request_from_terminal request_id lifecycle None correlation tab_target))"

definition terminal_lookup_text ::
  "string option \<Rightarrow> string option \<Rightarrow> string" where
  "terminal_lookup_text pending identity =
     (case or_else (Option.bind pending (\<lambda>x. if x \<noteq> [] then Some x else None))
           (Option.bind identity (\<lambda>x. if x \<noteq> [] then Some x else None)) of
        Some x \<Rightarrow> x | None \<Rightarrow> [])"

definition terminal_correlation_lookup_url ::
  "pending_request option \<Rightarrow> terminal_request_identity option \<Rightarrow> string" where
  "terminal_correlation_lookup_url pending identity =
     terminal_lookup_text (map_option pnr_url pending) (map_option tri_url identity)"

definition terminal_correlation_lookup_method ::
  "pending_request option \<Rightarrow> terminal_request_identity option \<Rightarrow> string" where
  "terminal_correlation_lookup_method pending identity =
     terminal_lookup_text (map_option pnr_method pending) (map_option tri_method identity)"

definition terminal_correlation_lookup_headers ::
  "pending_request option \<Rightarrow> terminal_request_identity option \<Rightarrow> headers option" where
  "terminal_correlation_lookup_headers pending identity =
     or_else (Option.bind (map_option pnr_request_headers pending) (\<lambda>x. if x \<noteq> [] then Some x else None))
       (Option.bind (map_option tri_request_headers identity) (\<lambda>x. if x \<noteq> [] then Some x else None))"

definition terminal_failure_method :: "pending_request option \<Rightarrow> pending_request \<Rightarrow> string" where
  "terminal_failure_method pending fallback =
     (case pending of Some p \<Rightarrow> pnr_method p | None \<Rightarrow> pnr_method fallback)"

section \<open>The listeners\<close>

record observatory_callbacks =
  ocb_network_failure :: bool
  ocb_request_summary :: bool
  ocb_request_record :: bool
  ocb_runtime_degraded :: bool

definition needs_network_events :: "observatory_callbacks \<Rightarrow> bool" where
  "needs_network_events cb \<longleftrightarrow> ocb_network_failure cb \<or> ocb_request_summary cb \<or> ocb_request_record cb"

definition needs_response_received :: "observatory_callbacks \<Rightarrow> bool" where
  "needs_response_received cb \<longleftrightarrow> ocb_request_summary cb \<or> ocb_request_record cb"

definition needs_loading_finished_listener :: "observatory_callbacks \<Rightarrow> bool" where
  "needs_loading_finished_listener cb \<longleftrightarrow> ocb_request_record cb"

definition needs_loading_failed_listener :: "observatory_callbacks \<Rightarrow> bool" where
  "needs_loading_failed_listener cb \<longleftrightarrow> ocb_network_failure cb \<or> ocb_request_record cb"

datatype emission =
    EmitRecord observed_network_request_record
  | EmitSummary request_summary_event
  | EmitFailure network_failure_event
  | EmitDegraded string

text \<open>
  Where a listener stands: before an event, between the sections of its handling, or before its last
  callbacks. A section ends with the lock it holds. The reasons the correlation registry hands out are
  announced with the section that drains them; the code announces them just after it, before the
  listener's next section.
\<close>

datatype 'n sent_position =
    SentIdle
  | SentCorrelated "'n request_will_be_sent" "request_correlation option"
  | SentRecorded pending_request

datatype 'n response_position =
    ResponseIdle
  | ResponseIdentified "'n response_received" "terminal_request_identity option"
  | ResponseCorrelated "'n response_received" "request_correlation option"
  | ResponseRecorded string pending_request

datatype finished_position =
    FinishedIdle
  | FinishedTaken string "pending_request option" "terminal_request_identity option"
  | FinishedCorrelated string pending_request

datatype failed_position =
    FailedIdle
  | FailedTaken loading_failed "pending_request option" "terminal_request_identity option"
  | FailedCorrelated loading_failed "pending_request option" "terminal_request_identity option"
      "request_correlation option"

record 'n page_observatory =
  pob_correlation :: request_correlation_registry
  pob_pending :: pending_request_registry
  pob_sent :: "'n sent_position"
  pob_response :: "'n response_position"
  pob_finished :: finished_position
  pob_failed :: failed_position
  pob_emitted :: "emission list"

definition page_observatory_start :: "'n page_observatory" where
  "page_observatory_start = \<lparr>pob_correlation = request_correlation_registry_default,
     pob_pending = pending_request_registry_default, pob_sent = SentIdle, pob_response = ResponseIdle,
     pob_finished = FinishedIdle, pob_failed = FailedIdle, pob_emitted = []\<rparr>"

definition emit_when :: "bool \<Rightarrow> emission list \<Rightarrow> 'n page_observatory \<Rightarrow> 'n page_observatory" where
  "emit_when wanted es s = (if wanted then s\<lparr>pob_emitted := pob_emitted s @ es\<rparr> else s)"

definition notify_request_correlation_degraded ::
  "observatory_callbacks \<Rightarrow> string list \<Rightarrow> 'n page_observatory \<Rightarrow> 'n page_observatory" where
  "notify_request_correlation_degraded cb reasons s =
     emit_when (ocb_runtime_degraded cb) (map EmitDegraded reasons) s"

definition notify_pending_registry_evicted ::
  "observatory_callbacks \<Rightarrow> bool \<Rightarrow> 'n page_observatory \<Rightarrow> 'n page_observatory" where
  "notify_pending_registry_evicted cb evicted s =
     emit_when (evicted \<and> ocb_runtime_degraded cb) [EmitDegraded ''pending_request_registry_evicted''] s"

definition peek_request_correlation_with_degraded ::
  "observatory_callbacks \<Rightarrow> string \<Rightarrow> string \<Rightarrow> string \<Rightarrow> headers option \<Rightarrow> string option \<Rightarrow> nat
   \<Rightarrow> 'n page_observatory \<Rightarrow> request_correlation option \<times> 'n page_observatory" where
  "peek_request_correlation_with_degraded cb request_id url http_method request_headers tab_target now s =
     (let (correlation, c) = peek_at request_id url http_method request_headers tab_target now (pob_correlation s);
          (reasons, c) = take_degraded_reasons c
      in (correlation, notify_request_correlation_degraded cb reasons (s\<lparr>pob_correlation := c\<rparr>)))"

definition take_request_correlation_with_degraded ::
  "observatory_callbacks \<Rightarrow> string \<Rightarrow> string \<Rightarrow> string \<Rightarrow> headers option \<Rightarrow> string option \<Rightarrow> nat
   \<Rightarrow> 'n page_observatory \<Rightarrow> request_correlation option \<times> 'n page_observatory" where
  "take_request_correlation_with_degraded cb request_id url http_method request_headers tab_target now s =
     (let (correlation, c) = take_at request_id url http_method request_headers tab_target now (pob_correlation s);
          (reasons, c) = take_degraded_reasons c
      in (correlation, notify_request_correlation_degraded cb reasons (s\<lparr>pob_correlation := c\<rparr>)))"

definition record_in_registry ::
  "observatory_callbacks \<Rightarrow> string \<Rightarrow> pending_request \<Rightarrow> 'n page_observatory
   \<Rightarrow> pending_request \<times> 'n page_observatory" where
  "record_in_registry cb request_id pending s =
     (let (current, evicted, r) = record_request request_id pending (pob_pending s)
      in (current, notify_pending_registry_evicted cb evicted (s\<lparr>pob_pending := r\<rparr>)))"

definition request_summary_of :: "string \<Rightarrow> pending_request \<Rightarrow> request_summary_event" where
  "request_summary_of request_id current =
     \<lparr>rse_request_id = request_id, rse_url = pnr_url current, rse_method = pnr_method current,
      rse_status = pnr_status current, rse_original_url = pnr_original_url current,
      rse_rewritten_url = pnr_rewritten_url current,
      rse_applied_rule_effects = pnr_applied_rule_effects current\<rparr>"

definition finished_request ::
  "'n observatory_env \<Rightarrow> string + string \<times> bool \<Rightarrow> pending_request \<Rightarrow> pending_request" where
  "finished_request env answer pending =
     pending\<lparr>pnr_response_body := Some (if should_capture_response_preview pending
        then response_body_preview env answer else skipped_body_preview pending)\<rparr>"

definition failed_fallback ::
  "string \<Rightarrow> loading_failed \<Rightarrow> terminal_request_identity option \<Rightarrow> request_correlation option \<Rightarrow> pending_request" where
  "failed_fallback tab_target event identity correlation =
     pending_request_from_terminal (ldf_request_id event) LifecycleFailed identity correlation tab_target"

definition failed_url :: "pending_request option \<Rightarrow> pending_request \<Rightarrow> string" where
  "failed_url pending fallback = (case pending of Some p \<Rightarrow> pnr_url p | None \<Rightarrow> pnr_url fallback)"

definition failed_original_url :: "string \<Rightarrow> request_correlation option \<Rightarrow> string option" where
  "failed_original_url current_url correlation = Option.bind correlation (\<lambda>c.
     if current_url \<noteq> [] \<and> rqc_original_url c \<noteq> current_url then Some (rqc_original_url c) else None)"

definition failed_rewritten_url :: "string \<Rightarrow> request_correlation option \<Rightarrow> string option" where
  "failed_rewritten_url current_url correlation = Option.bind correlation (\<lambda>c.
     Option.bind (rqc_rewritten_url c) (\<lambda>url. if url \<noteq> current_url then Some url else None))"

definition failed_effects :: "request_correlation option \<Rightarrow> network_rule_effect list" where
  "failed_effects correlation = (case correlation of Some c \<Rightarrow> rqc_applied_rule_effects c | None \<Rightarrow> [])"

definition network_failure_of ::
  "string \<Rightarrow> loading_failed \<Rightarrow> pending_request option \<Rightarrow> terminal_request_identity option
   \<Rightarrow> request_correlation option \<Rightarrow> network_failure_event" where
  "network_failure_of tab_target event pending identity correlation =
     (let fallback = failed_fallback tab_target event identity correlation;
          current_url = failed_url pending fallback
      in \<lparr>nfe_request_id = ldf_request_id event, nfe_url = current_url,
          nfe_method = terminal_failure_method pending fallback, nfe_error_text = ldf_error_text event,
          nfe_original_url = failed_original_url current_url correlation,
          nfe_rewritten_url = failed_rewritten_url current_url correlation,
          nfe_applied_rule_effects = failed_effects correlation\<rparr>)"

definition failed_request ::
  "string \<Rightarrow> loading_failed \<Rightarrow> pending_request option \<Rightarrow> terminal_request_identity option
   \<Rightarrow> request_correlation option \<Rightarrow> pending_request" where
  "failed_request tab_target event pending identity correlation =
     (let fallback = failed_fallback tab_target event identity correlation;
          current_url = failed_url pending fallback;
          effective_request_headers = Option.bind correlation rqc_effective_request_headers
      in \<lparr>pnr_request_id = ldf_request_id event, pnr_lifecycle = LifecycleFailed, pnr_url = current_url,
          pnr_method = terminal_failure_method pending fallback,
          pnr_tab_target_id = or_else (Option.bind pending pnr_tab_target_id) (pnr_tab_target_id fallback),
          pnr_frame_id = or_else (Option.bind pending pnr_frame_id) (pnr_frame_id fallback),
          pnr_resource_type = or_else (Option.bind pending pnr_resource_type) (pnr_resource_type fallback),
          pnr_request_headers =
            (case pending of
               Some p \<Rightarrow> (case effective_request_headers of Some hs \<Rightarrow> hs | None \<Rightarrow> pnr_request_headers p)
             | None \<Rightarrow> pnr_request_headers fallback),
          pnr_request_body = or_else (Option.bind pending pnr_request_body) (pnr_request_body fallback),
          pnr_response_headers =
            (case pending of Some p \<Rightarrow> pnr_response_headers p | None \<Rightarrow> pnr_response_headers fallback),
          pnr_response_body = Some (unavailable_body_preview ''request_failed''),
          pnr_status = Option.bind pending pnr_status,
          pnr_original_url = failed_original_url current_url correlation,
          pnr_rewritten_url = failed_rewritten_url current_url correlation,
          pnr_applied_rule_effects = failed_effects correlation,
          pnr_error_text = Some (ldf_error_text event),
          pnr_mime_type = or_else (Option.bind pending pnr_mime_type) (pnr_mime_type fallback)\<rparr>)"

datatype 'n listener_move =
    DeliverSent "'n request_will_be_sent" nat
  | RecordSent
  | EmitSent
  | DeliverResponse "'n response_received"
  | CorrelateResponse nat
  | RecordResponse
  | EmitResponse
  | DeliverFinished string
  | CorrelateFinished nat
  | EmitFinished "string + string \<times> bool"
  | DeliverFailed loading_failed
  | CorrelateFailed nat
  | EmitFailed
  | RuleMove correlation_op

text \<open>\<^verbatim>\<open>requestWillBeSent\<close>: look the correlation up, record the request, report it.\<close>

fun sent_move ::
  "'n observatory_env \<Rightarrow> observatory_callbacks \<Rightarrow> string \<Rightarrow> 'n listener_move \<Rightarrow> 'n page_observatory
   \<Rightarrow> 'n page_observatory option" where
  "sent_move env cb tab_target (DeliverSent event now) s =
     (if needs_network_events cb \<and> pob_sent s = SentIdle
      then let (correlation, s) = peek_request_correlation_with_degraded cb (rws_request_id event)
                 (crq_url (rws_request event)) (crq_method (rws_request event))
                 (Some (headers_to_map env (crq_headers (rws_request event)))) (Some tab_target) now s
           in Some (s\<lparr>pob_sent := SentCorrelated event correlation\<rparr>)
      else None)"
| "sent_move env cb tab_target RecordSent s =
     (case pob_sent s of
        SentCorrelated event correlation \<Rightarrow>
          let (current, s) = record_in_registry cb (rws_request_id event)
                (pending_request_from_request env tab_target event correlation) s
          in Some (s\<lparr>pob_sent := SentRecorded current\<rparr>)
      | _ \<Rightarrow> None)"
| "sent_move env cb tab_target EmitSent s =
     (case pob_sent s of
        SentRecorded current \<Rightarrow>
          Some (emit_when (ocb_request_record cb) [EmitRecord (build_request_record current)]
            (s\<lparr>pob_sent := SentIdle\<rparr>))
      | _ \<Rightarrow> None)"
| "sent_move env cb tab_target _ s = None"

text \<open>\<^verbatim>\<open>responseReceived\<close>: read the identity, look the correlation up, record the response, report it.
  The correlation is only consumed when no record is wanted at the end of the request.\<close>

fun response_move ::
  "'n observatory_env \<Rightarrow> observatory_callbacks \<Rightarrow> string \<Rightarrow> 'n listener_move \<Rightarrow> 'n page_observatory
   \<Rightarrow> 'n page_observatory option" where
  "response_move env cb tab_target (DeliverResponse event) s =
     (if needs_response_received cb \<and> pob_response s = ResponseIdle
      then Some (s\<lparr>pob_response :=
        ResponseIdentified event (peek_terminal_identity (rrv_request_id event) (pob_pending s))\<rparr>)
      else None)"
| "response_move env cb tab_target (CorrelateResponse now) s =
     (case pob_response s of
        ResponseIdentified event identity \<Rightarrow>
          let response_method = (case identity of Some i \<Rightarrow> tri_method i | None \<Rightarrow> unknown_request_method);
              response_headers = map_option tri_request_headers identity;
              (correlation, s) =
                (if ocb_request_record cb
                 then peek_request_correlation_with_degraded cb (rrv_request_id event) (rrv_url event)
                   response_method response_headers (Some tab_target) now s
                 else take_request_correlation_with_degraded cb (rrv_request_id event) (rrv_url event)
                   response_method response_headers (Some tab_target) now s)
          in Some (s\<lparr>pob_response := ResponseCorrelated event correlation\<rparr>)
      | _ \<Rightarrow> None)"
| "response_move env cb tab_target RecordResponse s =
     (case pob_response s of
        ResponseCorrelated event correlation \<Rightarrow>
          let (current, s) = record_in_registry cb (rrv_request_id event)
                (pending_request_from_response env tab_target event correlation) s
          in Some (s\<lparr>pob_response := ResponseRecorded (rrv_request_id event) current\<rparr>)
      | _ \<Rightarrow> None)"
| "response_move env cb tab_target EmitResponse s =
     (case pob_response s of
        ResponseRecorded request_id current \<Rightarrow>
          Some (emit_when (ocb_request_record cb) [EmitRecord (build_request_record current)]
            (emit_when (ocb_request_summary cb) [EmitSummary (request_summary_of request_id current)]
              (s\<lparr>pob_response := ResponseIdle\<rparr>)))
      | _ \<Rightarrow> None)"
| "response_move env cb tab_target _ s = None"

text \<open>\<^verbatim>\<open>loadingFinished\<close>: take the request out of the registry, consume the correlation, report it with
  the browser's answer for the body, which is asked for only where the preview is captured.\<close>

fun finished_move ::
  "'n observatory_env \<Rightarrow> observatory_callbacks \<Rightarrow> string \<Rightarrow> 'n listener_move \<Rightarrow> 'n page_observatory
   \<Rightarrow> 'n page_observatory option" where
  "finished_move env cb tab_target (DeliverFinished request_id) s =
     (if needs_loading_finished_listener cb \<and> pob_finished s = FinishedIdle
      then let ((pending, identity), r) = take_terminal_state request_id (pob_pending s)
           in Some (s\<lparr>pob_pending := r, pob_finished := FinishedTaken request_id pending identity\<rparr>)
      else None)"
| "finished_move env cb tab_target (CorrelateFinished now) s =
     (case pob_finished s of
        FinishedTaken request_id pending identity \<Rightarrow>
          let pending = (case pending of Some p \<Rightarrow> p
                | None \<Rightarrow> pending_request_from_terminal request_id LifecycleCompleted identity None tab_target);
              (correlation, s) = take_request_correlation_with_degraded cb request_id
                (terminal_correlation_lookup_url (Some pending) identity)
                (terminal_correlation_lookup_method (Some pending) identity)
                (terminal_correlation_lookup_headers (Some pending) identity) (Some tab_target) now s;
              pending = apply_terminal_correlation request_id LifecycleCompleted correlation tab_target pending
          in Some (s\<lparr>pob_finished :=
               FinishedCorrelated request_id (pending\<lparr>pnr_lifecycle := LifecycleCompleted\<rparr>)\<rparr>)
      | _ \<Rightarrow> None)"
| "finished_move env cb tab_target (EmitFinished answer) s =
     (case pob_finished s of
        FinishedCorrelated request_id pending \<Rightarrow>
          Some (emit_when (ocb_request_record cb)
            [EmitRecord (build_request_record (finished_request env answer pending))]
            (s\<lparr>pob_finished := FinishedIdle\<rparr>))
      | _ \<Rightarrow> None)"
| "finished_move env cb tab_target _ s = None"

text \<open>\<^verbatim>\<open>loadingFailed\<close>: take the request out of the registry, consume the correlation, report the failure.\<close>

fun failed_move ::
  "'n observatory_env \<Rightarrow> observatory_callbacks \<Rightarrow> string \<Rightarrow> 'n listener_move \<Rightarrow> 'n page_observatory
   \<Rightarrow> 'n page_observatory option" where
  "failed_move env cb tab_target (DeliverFailed event) s =
     (if needs_loading_failed_listener cb \<and> pob_failed s = FailedIdle
      then let ((pending, identity), r) = take_terminal_state (ldf_request_id event) (pob_pending s)
           in Some (s\<lparr>pob_pending := r, pob_failed := FailedTaken event pending identity\<rparr>)
      else None)"
| "failed_move env cb tab_target (CorrelateFailed now) s =
     (case pob_failed s of
        FailedTaken event pending identity \<Rightarrow>
          let (correlation, s) = take_request_correlation_with_degraded cb (ldf_request_id event)
                (terminal_correlation_lookup_url pending identity)
                (terminal_correlation_lookup_method pending identity)
                (terminal_correlation_lookup_headers pending identity) (Some tab_target) now s
          in Some (s\<lparr>pob_failed := FailedCorrelated event pending identity correlation\<rparr>)
      | _ \<Rightarrow> None)"
| "failed_move env cb tab_target EmitFailed s =
     (case pob_failed s of
        FailedCorrelated event pending identity correlation \<Rightarrow>
          Some (emit_when (ocb_request_record cb)
            [EmitRecord (build_request_record (failed_request tab_target event pending identity correlation))]
            (emit_when (ocb_network_failure cb)
              [EmitFailure (network_failure_of tab_target event pending identity correlation)]
              (s\<lparr>pob_failed := FailedIdle\<rparr>)))
      | _ \<Rightarrow> None)"
| "failed_move env cb tab_target _ s = None"

text \<open>A move of the page's observatory; the network rules record and discard in between.\<close>

fun observatory_move ::
  "'n observatory_env \<Rightarrow> observatory_callbacks \<Rightarrow> string \<Rightarrow> 'n listener_move \<Rightarrow> 'n page_observatory
   \<Rightarrow> 'n page_observatory option" where
  "observatory_move env cb tab_target (RuleMove op) s =
     Some (s\<lparr>pob_correlation := snd (run_correlation_op op (pob_correlation s))\<rparr>)"
| "observatory_move env cb tab_target mv s =
     or_else (sent_move env cb tab_target mv s) (or_else (response_move env cb tab_target mv s)
       (or_else (finished_move env cb tab_target mv s) (failed_move env cb tab_target mv s)))"

fun run_observatory ::
  "'n observatory_env \<Rightarrow> observatory_callbacks \<Rightarrow> string \<Rightarrow> 'n listener_move list \<Rightarrow> 'n page_observatory
   \<Rightarrow> 'n page_observatory option" where
  "run_observatory env cb tab_target [] s = Some s"
| "run_observatory env cb tab_target (mv # mvs) s =
     Option.bind (observatory_move env cb tab_target mv s) (run_observatory env cb tab_target mvs)"

section \<open>The registry of requests in flight\<close>

definition pending_ok :: "pending_request_registry \<Rightarrow> bool" where
  "pending_ok s \<longleftrightarrow> distinct (prr_request_order s) \<and>
     length (prr_request_order s) \<le> PENDING_REQUEST_RETENTION_LIMIT \<and>
     (\<forall>i. i \<in> set (prr_request_order s) \<longleftrightarrow> Mapping.lookup (prr_pending_requests s) i \<noteq> None) \<and>
     (\<forall>i. Mapping.lookup (prr_terminal_identities s) i =
        map_option terminal_identity_from_pending (Mapping.lookup (prr_pending_requests s) i))"

lemma enforce_loop_spec:
  assumes "enforce_loop limit order pending terminal evicted = (e, r)" and "k = length order - limit"
  shows "prr_request_order r = drop k order \<and> (e \<longleftrightarrow> evicted \<or> k > 0) \<and>
    (\<forall>i. Mapping.lookup (prr_pending_requests r) i =
       (if i \<in> set (take k order) then None else Mapping.lookup pending i)) \<and>
    (\<forall>i. Mapping.lookup (prr_terminal_identities r) i =
       (if i \<in> set (take k order) then None else Mapping.lookup terminal i))"
  using assms
proof (induction limit order pending terminal evicted arbitrary: k rule: enforce_loop.induct)
  case (2 limit oldest order pending terminal evicted)
  show ?case
  proof (cases "length (oldest # order) > limit")
    case True
    then have "k = Suc (length order - limit)" using 2(3) by simp
    then show ?thesis
      using 2(1) [OF True, of "length order - limit"] 2(2) True by (auto simp: lookup_delete_if)
  next
    case False
    then show ?thesis using 2(2,3) by auto
  qed
qed auto

lemma remove1_snoc: "x \<notin> set xs \<Longrightarrow> remove1 x (xs @ [x]) = xs"
  by (simp add: remove1_append)

lemma pending_ok_default: "pending_ok pending_request_registry_default"
  by (simp add: pending_ok_def pending_request_registry_default_def)

definition merged_request :: "string \<Rightarrow> pending_request \<Rightarrow> pending_request_registry \<Rightarrow> pending_request" where
  "merged_request request_id pending s =
     (case Mapping.lookup (prr_pending_requests s) request_id of
        Some existing \<Rightarrow> merge_pending_request existing pending
      | None \<Rightarrow> pending)"

lemma record_request_spec:
  assumes ok: "pending_ok s" and rec: "record_request request_id pending s = (current, evicted, t)"
    and order: "order = remove1 request_id (prr_request_order s) @ [request_id]"
    and k: "k = length order - PENDING_REQUEST_RETENTION_LIMIT"
  shows "current = merged_request request_id pending s"
    and "evicted \<longleftrightarrow> k > 0"
    and "prr_request_order t = drop k order"
    and "Mapping.lookup (prr_pending_requests t) i =
      (if i = request_id then Some current else if i \<in> set (take k order) then None
       else Mapping.lookup (prr_pending_requests s) i)"
    and "pending_ok t"
proof -
  let ?rest = "remove1 request_id (prr_request_order s)"
  have d: "distinct (prr_request_order s)" "length (prr_request_order s) \<le> PENDING_REQUEST_RETENTION_LIMIT"
    and dom: "\<And>i. i \<in> set (prr_request_order s) \<longleftrightarrow> Mapping.lookup (prr_pending_requests s) i \<noteq> None"
    and ident: "\<And>i. Mapping.lookup (prr_terminal_identities s) i =
        map_option terminal_identity_from_pending (Mapping.lookup (prr_pending_requests s) i)"
    using ok by (auto simp: pending_ok_def)
  have fresh: "request_id \<notin> set ?rest" using d(1) by simp
  have len: "length ?rest \<le> PENDING_REQUEST_RETENTION_LIMIT" using d(2) by (auto simp: length_remove1)
  then have kr: "k \<le> length ?rest"
    by (simp add: k order PENDING_REQUEST_RETENTION_LIMIT_def)
  have cut: "take k order = take k ?rest" "drop k order = drop k ?rest @ [request_id]"
    using kr by (simp_all add: order)
  obtain e1 u where up: "upsert_pending request_id pending s = (merged_request request_id pending s, e1, u)"
    and e: "enforce_loop PENDING_REQUEST_RETENTION_LIMIT order
      (Mapping.update request_id (merged_request request_id pending s) (prr_pending_requests s))
      (prr_terminal_identities s) False = (e1, u)"
    by (cases "enforce_loop PENDING_REQUEST_RETENTION_LIMIT order
      (Mapping.update request_id (merged_request request_id pending s) (prr_pending_requests s))
      (prr_terminal_identities s) False")
      (auto simp: upsert_pending_def merged_request_def enforce_bound_def touch_def remove_from_order_def
        Let_def order)
  note u = enforce_loop_spec [OF e k]
  have uo: "prr_request_order u = drop k ?rest @ [request_id]" using u cut by simp
  have fresh': "request_id \<notin> set (drop k ?rest)" "request_id \<notin> set (take k ?rest)"
    using fresh by (meson in_set_dropD in_set_takeD)+
  have small: "length (drop k ?rest @ [request_id]) - PENDING_REQUEST_RETENTION_LIMIT = 0"
    using kr by (simp add: k order PENDING_REQUEST_RETENTION_LIMIT_def)
  obtain e2 where te: "upsert_terminal_identity request_id
      (terminal_identity_from_pending (merged_request request_id pending s)) u = (e2, t)"
    and cur: "current = merged_request request_id pending s" and ev: "evicted \<longleftrightarrow> e1 \<or> e2"
    using rec up by (auto simp: record_request_def split: prod.splits)
  have "enforce_loop PENDING_REQUEST_RETENTION_LIMIT (drop k ?rest @ [request_id]) (prr_pending_requests u)
      (Mapping.update request_id (terminal_identity_from_pending current) (prr_terminal_identities u)) False = (e2, t)"
    using te uo fresh' cur
    by (simp add: upsert_terminal_identity_def enforce_bound_def touch_def remove_from_order_def Let_def remove1_snoc)
  note v = enforce_loop_spec [OF this small [symmetric]]
  show "current = merged_request request_id pending s" by (rule cur)
  show "evicted \<longleftrightarrow> k > 0" using ev u v by simp
  show to: "prr_request_order t = drop k order" using v cut by simp
  show look: "Mapping.lookup (prr_pending_requests t) i =
      (if i = request_id then Some current else if i \<in> set (take k order) then None
       else Mapping.lookup (prr_pending_requests s) i)" for i
    using u v cut fresh' cur by (simp add: lookup_update')
  have tl: "Mapping.lookup (prr_terminal_identities t) i =
      map_option terminal_identity_from_pending (Mapping.lookup (prr_pending_requests t) i)" for i
  proof -
    have "Mapping.lookup (prr_terminal_identities u) i =
        (if i \<in> set (take k ?rest) then None else Mapping.lookup (prr_terminal_identities s) i)"
      using u cut(1) by simp
    moreover have "Mapping.lookup (prr_terminal_identities t) i =
        (if i = request_id then Some (terminal_identity_from_pending current)
         else Mapping.lookup (prr_terminal_identities u) i)"
      using v by (simp add: lookup_update')
    ultimately show ?thesis using ident [of i] by (simp add: look cut(1))
  qed
  have mem: "i \<in> set (drop k ?rest) \<longleftrightarrow> i \<in> set ?rest \<and> i \<notin> set (take k ?rest)" for i
  proof -
    have "distinct (take k ?rest @ drop k ?rest)" "set ?rest = set (take k ?rest @ drop k ?rest)"
      using d(1) by simp_all
    then show ?thesis unfolding distinct_append set_append by blast
  qed
  show "pending_ok t"
    unfolding pending_ok_def
  proof (intro conjI allI)
    show "distinct (prr_request_order t)" using to cut d(1) fresh' by simp
    show "length (prr_request_order t) \<le> PENDING_REQUEST_RETENTION_LIMIT" using to k by simp
    show "i \<in> set (prr_request_order t) \<longleftrightarrow> Mapping.lookup (prr_pending_requests t) i \<noteq> None" for i
      using to cut mem [of i] dom [of i] d(1) by (auto simp: look)
  qed (rule tl)
qed

lemma take_terminal_state_spec:
  assumes ok: "pending_ok s" and taken: "take_terminal_state request_id s = ((pending, identity), t)"
  shows "pending = Mapping.lookup (prr_pending_requests s) request_id"
    and "identity = map_option terminal_identity_from_pending pending"
    and "prr_request_order t = remove1 request_id (prr_request_order s)"
    and "Mapping.lookup (prr_pending_requests t) i =
      (if i = request_id then None else Mapping.lookup (prr_pending_requests s) i)"
    and "pending_ok t"
  using assms
  by (auto simp: take_terminal_state_def remove_request_def remove_from_order_def pending_ok_def Let_def
      lookup_delete_if length_remove1 split: if_splits)

section \<open>What a move does to the registry\<close>

fun is_record_move :: "'n listener_move \<Rightarrow> bool" where
  "is_record_move RecordSent = True"
| "is_record_move RecordResponse = True"
| "is_record_move _ = False"

text \<open>The request whose entry a move writes or takes.\<close>

fun writes :: "'n listener_move \<Rightarrow> 'n page_observatory \<Rightarrow> string option" where
  "writes RecordSent s = (case pob_sent s of SentCorrelated e _ \<Rightarrow> Some (rws_request_id e) | _ \<Rightarrow> None)"
| "writes RecordResponse s =
     (case pob_response s of ResponseCorrelated e _ \<Rightarrow> Some (rrv_request_id e) | _ \<Rightarrow> None)"
| "writes (DeliverFinished request_id) s = Some request_id"
| "writes (DeliverFailed e) s = Some (ldf_request_id e)"
| "writes _ s = None"

lemmas emit_defs = emit_when_def notify_request_correlation_degraded_def
  notify_pending_registry_evicted_def peek_request_correlation_with_degraded_def
  take_request_correlation_with_degraded_def record_in_registry_def

lemma record_in_registry_spec:
  assumes "record_in_registry cb request_id pending s = (current, t)"
  obtains evicted where "record_request request_id pending (pob_pending s) = (current, evicted, pob_pending t)"
    and "pob_emitted t = pob_emitted s @ (if evicted \<and> ocb_runtime_degraded cb
         then [EmitDegraded ''pending_request_registry_evicted''] else [])"
    and "t = s\<lparr>pob_pending := pob_pending t, pob_emitted := pob_emitted t\<rparr>"
  using assms by (cases "record_request request_id pending (pob_pending s)")
    (auto simp: record_in_registry_def notify_pending_registry_evicted_def emit_when_def split: if_splits)

lemma move_pending:
  assumes "observatory_move env cb tab mv s = Some t"
  shows "(writes mv s = None \<and> pob_pending t = pob_pending s) \<or>
    (\<exists>r p current evicted. writes mv s = Some r \<and> is_record_move mv \<and> pnr_request_id p = r \<and>
       record_request r p (pob_pending s) = (current, evicted, pob_pending t) \<and>
       pob_emitted t = pob_emitted s @ (if evicted \<and> ocb_runtime_degraded cb
         then [EmitDegraded ''pending_request_registry_evicted''] else [])) \<or>
    (\<exists>r x. writes mv s = Some r \<and> \<not> is_record_move mv \<and>
       take_terminal_state r (pob_pending s) = (x, pob_pending t))"
proof (cases mv)
  case RecordSent
  then obtain e c where at: "pob_sent s = SentCorrelated e c"
    using assms by (auto simp: or_else_def split: sent_position.splits)
  let ?p = "pending_request_from_request env tab e c"
  obtain current u where u: "record_in_registry cb (rws_request_id e) ?p s = (current, u)"
    by (cases "record_in_registry cb (rws_request_id e) ?p s")
  then have t: "t = u\<lparr>pob_sent := SentRecorded current\<rparr>"
    using assms at RecordSent by (auto simp: or_else_def)
  have "pnr_request_id ?p = rws_request_id e" by (simp add: pending_request_from_request_def)
  note id = this
  show ?thesis
  proof (rule record_in_registry_spec [OF u], goal_cases)
    case (1 evicted)
    have "writes mv s = Some (rws_request_id e)" "is_record_move mv" "pob_pending t = pob_pending u" "pob_emitted t = pob_emitted u"
      using RecordSent at t by simp_all
    then show ?case using 1(1,2) id by (intro disjI2 disjI1 exI [of _ "rws_request_id e"] exI [of _ ?p] exI [of _ current]
      exI [of _ evicted] conjI) simp_all
  qed
next
  case RecordResponse
  then obtain e c where at: "pob_response s = ResponseCorrelated e c"
    using assms by (auto simp: or_else_def split: response_position.splits)
  let ?p = "pending_request_from_response env tab e c"
  obtain current u where u: "record_in_registry cb (rrv_request_id e) ?p s = (current, u)"
    by (cases "record_in_registry cb (rrv_request_id e) ?p s")
  then have t: "t = u\<lparr>pob_response := ResponseRecorded (rrv_request_id e) current\<rparr>"
    using assms at RecordResponse by (auto simp: or_else_def)
  have "pnr_request_id ?p = rrv_request_id e" by (simp add: pending_request_from_response_def)
  note id = this
  show ?thesis
  proof (rule record_in_registry_spec [OF u], goal_cases)
    case (1 evicted)
    have "writes mv s = Some (rrv_request_id e)" "is_record_move mv" "pob_pending t = pob_pending u" "pob_emitted t = pob_emitted u"
      using RecordResponse at t by simp_all
    then show ?case using 1(1,2) id by (intro disjI2 disjI1 exI [of _ "rrv_request_id e"] exI [of _ ?p] exI [of _ current]
      exI [of _ evicted] conjI) simp_all
  qed
qed (use assms in \<open>auto simp: or_else_def emit_defs Let_def
    split: sent_position.splits response_position.splits finished_position.splits failed_position.splits
      prod.splits if_splits option.splits\<close>)

lemma move_pending_ok:
  assumes "observatory_move env cb tab mv s = Some t" and ok: "pending_ok (pob_pending s)"
  shows "pending_ok (pob_pending t)"
  using move_pending [OF assms(1)]
proof (elim disjE exE conjE, goal_cases)
  case 1
  then show ?case using ok by simp
next
  case (2 r p current evicted)
  from record_request_spec(5) [OF ok 2(4) refl refl] show ?case .
next
  case (3 r x)
  then show ?case using take_terminal_state_spec(5) [OF ok, of r "fst x" "snd x"] by simp
qed

lemma run_pending_ok:
  "run_observatory env cb tab mvs s = Some t \<Longrightarrow> pending_ok (pob_pending s) \<Longrightarrow> pending_ok (pob_pending t)"
proof (induction mvs arbitrary: s)
  case (Cons mv mvs)
  then show ?case by (auto simp: bind_eq_Some_conv dest: move_pending_ok)
qed simp

section \<open>Retention between two events of a request\<close>

definition retained :: "nat \<Rightarrow> string \<Rightarrow> pending_request_registry \<Rightarrow> bool" where
  "retained n r s \<longleftrightarrow> (\<exists>older newer. prr_request_order s = older @ r # newer \<and> length newer \<le> n)"

lemma retainedI: "prr_request_order s = older @ r # newer \<Longrightarrow> length newer \<le> n \<Longrightarrow> retained n r s"
  by (auto simp: retained_def)

lemma retained_mono: "retained n r s \<Longrightarrow> n \<le> m \<Longrightarrow> retained m r s"
  by (meson le_trans retained_def)

lemma remove1_split:
  assumes "distinct (older @ r # newer)" and "i \<noteq> r"
  obtains older' newer' where "remove1 i (older @ r # newer) = older' @ r # newer'"
    and "length newer' \<le> length newer" and "r \<notin> set older'"
proof (cases "i \<in> set older")
  case True
  with assms show ?thesis by (intro that [of "remove1 i older" newer]) (auto simp: remove1_append)
next
  case False
  with assms show ?thesis
    by (intro that [of older "remove1 i newer"]) (auto simp: remove1_append length_remove1)
qed

lemma retained_record:
  assumes ok: "pending_ok s" and "retained n r s" and n: "Suc n < PENDING_REQUEST_RETENTION_LIMIT"
    and rec: "record_request i p s = (current, evicted, t)" and "i \<noteq> r"
  shows "retained (Suc n) r t \<and>
    Mapping.lookup (prr_pending_requests t) r = Mapping.lookup (prr_pending_requests s) r"
proof -
  obtain older newer where split: "prr_request_order s = older @ r # newer" "length newer \<le> n"
    using assms(2) by (auto simp: retained_def)
  obtain older' newer' where cut: "remove1 i (prr_request_order s) = older' @ r # newer'"
      "length newer' \<le> n" "r \<notin> set older'"
    using remove1_split [of older r newer i] split ok \<open>i \<noteq> r\<close> by (metis le_trans pending_ok_def)
  let ?order = "remove1 i (prr_request_order s) @ [i]"
  let ?k = "length ?order - PENDING_REQUEST_RETENTION_LIMIT"
  have k: "?k \<le> length older'" using cut n by simp
  note spec = record_request_spec [OF ok rec refl refl]
  have "prr_request_order t = drop ?k older' @ r # (newer' @ [i])" using spec(3) k cut(1) by simp
  moreover have "r \<notin> set (take ?k ?order)" using k cut(1,3) by (auto dest: in_set_takeD)
  ultimately show ?thesis
    using spec(4) [of r] \<open>i \<noteq> r\<close> cut(2) retainedI [of t "drop ?k older'" r "newer' @ [i]" "Suc n"] by simp
qed

lemma retained_take:
  assumes ok: "pending_ok s" and "retained n r s" and taken: "take_terminal_state i s = (x, t)" and "i \<noteq> r"
  shows "retained n r t \<and>
    Mapping.lookup (prr_pending_requests t) r = Mapping.lookup (prr_pending_requests s) r"
proof -
  obtain older newer where split: "prr_request_order s = older @ r # newer" "length newer \<le> n"
    using assms(2) by (auto simp: retained_def)
  obtain older' newer' where "remove1 i (prr_request_order s) = older' @ r # newer'" "length newer' \<le> n"
    using remove1_split [of older r newer i] split ok \<open>i \<noteq> r\<close> by (metis le_trans pending_ok_def)
  then show ?thesis
    using take_terminal_state_spec(3,4) [OF ok, of i "fst x" "snd x" t] taken \<open>i \<noteq> r\<close>
    by (auto simp: retained_def)
qed

lemma retained_recorded:
  assumes "pending_ok s" and "record_request r p s = (current, evicted, t)"
  shows "retained 0 r t \<and> Mapping.lookup (prr_pending_requests t) r = Some current"
proof -
  note spec = record_request_spec [OF assms refl refl]
  have "length (remove1 r (prr_request_order s)) \<le> PENDING_REQUEST_RETENTION_LIMIT"
    using assms(1) by (auto simp: pending_ok_def length_remove1)
  then show ?thesis using spec(3) spec(4) [of r]
    by (auto simp: retained_def PENDING_REQUEST_RETENTION_LIMIT_def)
qed

fun apart ::
  "'n observatory_env \<Rightarrow> observatory_callbacks \<Rightarrow> string \<Rightarrow> string \<Rightarrow> 'n listener_move list
   \<Rightarrow> 'n page_observatory \<Rightarrow> bool" where
  "apart env cb tab r [] s = True"
| "apart env cb tab r (mv # mvs) s =
     (writes mv s \<noteq> Some r \<and>
      (case observatory_move env cb tab mv s of Some t \<Rightarrow> apart env cb tab r mvs t | None \<Rightarrow> True))"

definition record_moves :: "'n listener_move list \<Rightarrow> nat" where
  "record_moves mvs = length (filter is_record_move mvs)"

lemma run_apart:
  assumes "run_observatory env cb tab mvs s = Some t" and "apart env cb tab r mvs s"
    and "pending_ok (pob_pending s)" and "retained n r (pob_pending s)"
    and "n + record_moves mvs < PENDING_REQUEST_RETENTION_LIMIT"
  shows "Mapping.lookup (prr_pending_requests (pob_pending t)) r =
      Mapping.lookup (prr_pending_requests (pob_pending s)) r"
  using assms
proof (induction mvs arbitrary: s n)
  case (Cons mv mvs)
  then obtain u where u: "observatory_move env cb tab mv s = Some u"
      "run_observatory env cb tab mvs u = Some t" "apart env cb tab r mvs u"
    by (auto simp: bind_eq_Some_conv)
  have ok: "pending_ok (pob_pending u)" by (rule move_pending_ok [OF u(1) Cons.prems(3)])
  have "retained (n + (if is_record_move mv then 1 else 0)) r (pob_pending u) \<and>
    Mapping.lookup (prr_pending_requests (pob_pending u)) r =
      Mapping.lookup (prr_pending_requests (pob_pending s)) r"
    using move_pending [OF u(1)]
  proof (elim disjE exE conjE, goal_cases)
    case 1
    then show ?case using retained_mono [OF Cons.prems(4)] by simp
  next
    case (2 i p current evicted)
    have "Suc n < PENDING_REQUEST_RETENTION_LIMIT" "i \<noteq> r"
      using Cons.prems(2,5) 2 by (auto simp: record_moves_def)
    then show ?case using retained_record [OF Cons.prems(3,4) _ 2(4)] 2(2) by simp
  next
    case (3 i x)
    then show ?case using retained_take [OF Cons.prems(3,4), of i x] Cons.prems(2) by auto
  qed
  then show ?case
    using Cons.IH [OF u(2,3) ok, of "n + (if is_record_move mv then 1 else 0)"] Cons.prems(5)
    by (simp add: record_moves_def split: if_splits)
qed simp

section \<open>Properties\<close>

lemma move_result:
  "observatory_move env cb tab RecordSent s = Some t \<Longrightarrow> pob_sent s = SentCorrelated e c \<Longrightarrow>
     \<exists>current evicted. record_request (rws_request_id e) (pending_request_from_request env tab e c)
       (pob_pending s) = (current, evicted, pob_pending t)"
  "observatory_move env cb tab RecordResponse s = Some t \<Longrightarrow> pob_response s = ResponseCorrelated e' c \<Longrightarrow>
     \<exists>current evicted. record_request (rrv_request_id e') (pending_request_from_response env tab e' c)
       (pob_pending s) = (current, evicted, pob_pending t) \<and>
       pob_response t = ResponseRecorded (rrv_request_id e') current"
  by (auto simp: or_else_def emit_defs Let_def split: prod.splits if_splits)

fun is_finished_move :: "'n listener_move \<Rightarrow> bool" where
  "is_finished_move (DeliverFinished _) = True"
| "is_finished_move (CorrelateFinished _) = True"
| "is_finished_move (EmitFinished _) = True"
| "is_finished_move _ = False"

lemma finished_frame:
  assumes "observatory_move env cb tab mv s = Some t" and "\<not> is_finished_move mv"
  shows "pob_finished t = pob_finished s"
  using assms by (cases mv) (auto simp: or_else_def emit_defs Let_def
    split: sent_position.splits response_position.splits failed_position.splits
      prod.splits if_splits option.splits)

lemma run_finished_frame:
  assumes "run_observatory env cb tab mvs s = Some t" and "\<not> list_ex is_finished_move mvs"
  shows "pob_finished t = pob_finished s"
  using assms by (induction mvs arbitrary: s) (auto simp: bind_eq_Some_conv dest: finished_frame)

lemma same_capture:
  assumes "pnr_resource_type p = pnr_resource_type q" "pnr_mime_type p = pnr_mime_type q"
    "pnr_response_headers p = pnr_response_headers q"
  shows "should_capture_response_preview p = should_capture_response_preview q"
    and "skipped_body_preview p = skipped_body_preview q"
  using assms by (simp_all add: should_capture_response_preview_def skipped_body_preview_def)

text \<open>
  C26. The registry of requests in flight is consistent and bounded under every interleaving of the
  four listeners and the network rules: at most 1024 requests, in one order without repetition, each
  with the identity that its end will need. A move takes no request out of the registry but the one it
  ends, unless the observatory reports the eviction.
\<close>

theorem pending_requests_bounded:
  assumes "run_observatory env cb tab mvs page_observatory_start = Some s"
    and "observatory_move env cb tab mv s = Some t"
  shows "pending_ok (pob_pending s) \<and>
    (r \<in> set (prr_request_order (pob_pending s)) \<and> r \<notin> set (prr_request_order (pob_pending t)) \<longrightarrow>
       writes mv s = Some r \<and> \<not> is_record_move mv \<or>
       (ocb_runtime_degraded cb \<longrightarrow>
        pob_emitted t = pob_emitted s @ [EmitDegraded ''pending_request_registry_evicted'']))"
proof -
  have ok: "pending_ok (pob_pending s)"
    using run_pending_ok [OF assms(1)] by (simp add: page_observatory_start_def pending_ok_default)
  moreover have "writes mv s = Some r \<and> \<not> is_record_move mv \<or> (ocb_runtime_degraded cb \<longrightarrow>
        pob_emitted t = pob_emitted s @ [EmitDegraded ''pending_request_registry_evicted''])"
    if lost: "r \<in> set (prr_request_order (pob_pending s))" "r \<notin> set (prr_request_order (pob_pending t))"
    using move_pending [OF assms(2)]
  proof (elim disjE exE conjE, goal_cases)
    case 1
    then show ?case using lost by simp
  next
    case (2 i p current evicted)
    note spec = record_request_spec [OF ok 2(4) refl refl]
    have "evicted"
    proof (rule ccontr)
      assume "\<not> evicted"
      then have "prr_request_order (pob_pending t) = remove1 i (prr_request_order (pob_pending s)) @ [i]"
        using spec(2,3) by simp
      then show False using lost by (cases "r = i") auto
    qed
    then show ?case using 2(5) by simp
  next
    case (3 i x)
    then show ?case
      using take_terminal_state_spec(3) [OF ok, of i "fst x" "snd x" "pob_pending t"] lost
      by (cases "r = i") auto
  qed
  ultimately show ?thesis by blast
qed

text \<open>
  C25. A request observed in order is reported complete. When a request is recorded, its response is
  recorded and it finishes, with fewer than 1024 recordings of other requests in each interval and any
  interleaving of the listeners, the record that reports its end is a completed one with the method and
  the body of the request, the status, headers and type of the response, the effects of the latest
  correlation that has any, and the body the browser returned, or the reason why it was left out. The
  request is then no longer in flight.
\<close>

theorem observed_request_complete:
  assumes "run_observatory env cb tab mvs0 page_observatory_start = Some s0"
    and "Mapping.lookup (prr_pending_requests (pob_pending s0)) r = None"
    and "pob_sent s0 = SentCorrelated e c1" and "rws_request_id e = r"
    and "observatory_move env cb tab RecordSent s0 = Some s1"
    and "run_observatory env cb tab mvs1 s1 = Some s2" and "apart env cb tab r mvs1 s1"
    and "record_moves mvs1 < PENDING_REQUEST_RETENTION_LIMIT"
    and "pob_response s2 = ResponseCorrelated e' c2" and "rrv_request_id e' = r"
    and "observatory_move env cb tab RecordResponse s2 = Some s3"
    and "run_observatory env cb tab mvs2 s3 = Some s4" and "apart env cb tab r mvs2 s3"
    and "record_moves mvs2 < PENDING_REQUEST_RETENTION_LIMIT"
    and "observatory_move env cb tab (DeliverFinished r) s4 = Some s5"
    and "run_observatory env cb tab mvs3 s5 = Some s6" and "\<not> list_ex is_finished_move mvs3"
    and "observatory_move env cb tab (CorrelateFinished now) s6 = Some s7"
    and "run_observatory env cb tab mvs4 s7 = Some s8" and "\<not> list_ex is_finished_move mvs4"
    and "observatory_move env cb tab (EmitFinished answer) s8 = Some s9"
  shows "r \<notin> set (prr_request_order (pob_pending s5)) \<and>
    (\<exists>c3 x. pob_emitted s9 = pob_emitted s8 @ [EmitRecord x] \<and>
       onr_request_id x = r \<and> onr_lifecycle x = LifecycleCompleted \<and>
       onr_method x = crq_method (rws_request e) \<and> onr_tab_target_id x = Some tab \<and>
       onr_request_body x = request_body_preview env (rws_request e) \<and>
       onr_status x = normalize_status (rrv_status e') \<and>
       onr_response_headers x = headers_to_map env (rrv_headers e') \<and>
       onr_resource_type x = Some (rrv_type e') \<and> onr_mime_type x = Some (rrv_mime_type e') \<and>
       onr_error_text x = None \<and>
       onr_applied_rule_effects x =
         nonempty_or (failed_effects c3) (nonempty_or (failed_effects c2) (failed_effects c1)) \<and>
       onr_response_body x =
         (let p = pending_request_from_response env tab e' c2
          in Some (if should_capture_response_preview p then response_body_preview env answer
                   else skipped_body_preview p)))"
proof -
  let ?sent = "pending_request_from_request env tab e c1"
  let ?answered = "merge_pending_request ?sent (pending_request_from_response env tab e' c2)"
  have ok0: "pending_ok (pob_pending s0)"
    using run_pending_ok [OF assms(1)] by (simp add: page_observatory_start_def pending_ok_default)
  obtain p1 v1 where r1: "record_request r ?sent (pob_pending s0) = (p1, v1, pob_pending s1)"
    using move_result(1) [OF assms(5,3)] assms(4) by auto
  have p1: "p1 = ?sent" using record_request_spec(1) [OF ok0 r1 refl refl] assms(2)
    by (simp add: merged_request_def)
  note ok1 = move_pending_ok [OF assms(5) ok0] and kept1 = retained_recorded [OF ok0 r1]
  have l2: "Mapping.lookup (prr_pending_requests (pob_pending s2)) r = Some ?sent"
    using run_apart [OF assms(6,7) ok1, of 0] kept1 assms(8) p1 by simp
  note ok2 = run_pending_ok [OF assms(6) ok1]
  obtain p2 v2 where r2: "record_request r (pending_request_from_response env tab e' c2) (pob_pending s2) =
      (p2, v2, pob_pending s3)"
    using move_result(2) [OF assms(11,9)] assms(10) by auto
  have p2: "p2 = ?answered" using record_request_spec(1) [OF ok2 r2 refl refl] l2
    by (simp add: merged_request_def)
  note ok3 = move_pending_ok [OF assms(11) ok2] and kept2 = retained_recorded [OF ok2 r2]
  have l4: "Mapping.lookup (prr_pending_requests (pob_pending s4)) r = Some ?answered"
    using run_apart [OF assms(12,13) ok3, of 0] kept2 assms(14) p2 by simp
  note ok4 = run_pending_ok [OF assms(12) ok3]
  obtain identity where taken: "take_terminal_state r (pob_pending s4) = ((Some ?answered, identity), pob_pending s5)"
    and f5: "pob_finished s5 = FinishedTaken r (Some ?answered) identity"
    and wanted: "ocb_request_record cb"
    using assms(15) l4 by (cases "take_terminal_state r (pob_pending s4)")
      (auto simp: or_else_def needs_loading_finished_listener_def take_terminal_state_def remove_request_def
        remove_from_order_def Let_def split: if_splits)
  have gone: "r \<notin> set (prr_request_order (pob_pending s5))"
    using take_terminal_state_spec(3) [OF ok4 taken] ok4 by (simp add: pending_ok_def)
  have f6: "pob_finished s6 = FinishedTaken r (Some ?answered) identity"
    using run_finished_frame [OF assms(16,17)] f5 by simp
  obtain c3 where f7: "pob_finished s7 = FinishedCorrelated r
      ((apply_terminal_correlation r LifecycleCompleted c3 tab ?answered)\<lparr>pnr_lifecycle := LifecycleCompleted\<rparr>)"
    using assms(18) f6 by (auto simp: or_else_def Let_def split: prod.splits)
  let ?ended = "(apply_terminal_correlation r LifecycleCompleted c3 tab ?answered)\<lparr>pnr_lifecycle := LifecycleCompleted\<rparr>"
  have "pob_finished s8 = FinishedCorrelated r ?ended" using run_finished_frame [OF assms(19,20)] f7 by simp
  then have out: "pob_emitted s9 = pob_emitted s8 @ [EmitRecord (build_request_record (finished_request env answer ?ended))]"
    using assms(21) wanted by (auto simp: or_else_def emit_when_def)
  note fields = apply_terminal_correlation_def pending_request_from_terminal_def merge_pending_request_def
    pending_request_from_request_def pending_request_from_response_def nonempty_or_def or_else_def
    failed_effects_def unknown_request_method_def
  have same: "pnr_resource_type ?ended = pnr_resource_type (pending_request_from_response env tab e' c2)"
    "pnr_mime_type ?ended = pnr_mime_type (pending_request_from_response env tab e' c2)"
    "pnr_response_headers ?ended = pnr_response_headers (pending_request_from_response env tab e' c2)"
    by (auto simp: fields split: option.splits)
  show ?thesis
  proof (intro conjI exI [of _ c3] exI [of _ "build_request_record (finished_request env answer ?ended)"])
    show "onr_response_body (build_request_record (finished_request env answer ?ended)) =
         (let p = pending_request_from_response env tab e' c2
          in Some (if should_capture_response_preview p then response_body_preview env answer
                   else skipped_body_preview p))"
      by (simp add: build_request_record_def finished_request_def same_capture [OF same] Let_def)
  qed (use gone out assms(4,10) in \<open>auto simp: build_request_record_def finished_request_def fields
      split: option.splits\<close>)
qed

text \<open>
  C27. A response handled after the end of its request. Nothing orders the listeners, so the response
  can be recorded when the request has already been taken out of the registry. The request is then in
  flight again although no event will end it, the record reported for it has no method and a body that
  is not loaded, and when it is merged into a completed record the record stays completed but its body
  preview is replaced.
\<close>

theorem late_response_hides_body:
  assumes "run_observatory env cb tab mvs page_observatory_start = Some s"
    and "Mapping.lookup (prr_pending_requests (pob_pending s)) r = None"
    and "pob_response s = ResponseCorrelated e c" and "rrv_request_id e = r"
    and "ocb_request_record cb"
    and "observatory_move env cb tab RecordResponse s = Some t"
    and "observatory_move env cb tab EmitResponse t = Some u"
    and "request_record r obs = Some x" and "nrr_lifecycle x = LifecycleCompleted"
  shows "r \<in> set (prr_request_order (pob_pending u)) \<and>
    (\<exists>y z. last (pob_emitted u) = EmitRecord y \<and> onr_request_id y = r \<and>
       onr_lifecycle y = LifecycleResponded \<and> onr_method y = [] \<and>
       request_record r (upsert_observed_request_record y obs) = Some z \<and>
       nrr_lifecycle z = LifecycleCompleted \<and> nrr_method z = nrr_method x \<and>
       nrr_response_body z = Some (unavailable_body_preview ''not_loaded''))"
proof -
  let ?p = "pending_request_from_response env tab e c"
  let ?y = "build_request_record ?p"
  have ok: "pending_ok (pob_pending s)"
    using run_pending_ok [OF assms(1)] by (simp add: page_observatory_start_def pending_ok_default)
  obtain current v where rec: "record_request r ?p (pob_pending s) = (current, v, pob_pending t)"
    and at: "pob_response t = ResponseRecorded r current"
    using move_result(2) [OF assms(6,3)] assms(4) by auto
  have current: "current = ?p" using record_request_spec(1) [OF ok rec refl refl] assms(2)
    by (simp add: merged_request_def)
  have u: "pob_pending u = pob_pending t" "last (pob_emitted u) = EmitRecord ?y"
    using assms(5,7) at current by (auto simp: or_else_def emit_when_def)
  have "r \<in> set (prr_request_order (pob_pending t))"
    using retained_recorded [OF ok rec] by (auto simp: retained_def)
  moreover have y: "onr_request_id ?y = r" "onr_lifecycle ?y = LifecycleResponded" "onr_method ?y = []"
      "onr_response_body ?y = Some (unavailable_body_preview ''not_loaded'')"
    using assms(4) by (simp_all add: build_request_record_def pending_request_from_response_def
        unknown_request_method_def)
  moreover have "\<exists>z. request_record r (upsert_observed_request_record ?y obs) = Some z \<and>
      nrr_lifecycle z = LifecycleCompleted \<and> nrr_method z = nrr_method x \<and>
      nrr_response_body z = Some (unavailable_body_preview ''not_loaded'')"
    using assms(8,9) y
    by (auto simp: request_record_def upsert_observed_request_record_def merge_observed_request_record_def
        observatory_mark_active_def next_request_sequence_def nonempty_or_def or_else_def Let_def
        lookup_update' split: prod.splits if_splits)
  ultimately show ?thesis using u by auto
qed

section \<open>A run of the listeners\<close>

definition example_observatory_env :: "unit observatory_env" where
  "example_observatory_env = \<lparr>oen_json_text = (\<lambda>_. []), oen_decode_text = (\<lambda>_. None)\<rparr>"

definition example_callbacks :: observatory_callbacks where
  "example_callbacks = \<lparr>ocb_network_failure = True, ocb_request_summary = True, ocb_request_record = True,
     ocb_runtime_degraded = True\<rparr>"

definition example_sent :: "unit request_will_be_sent" where
  "example_sent = \<lparr>rws_request_id = ''r'', rws_request = \<lparr>crq_url = ''u'', crq_method = ''GET'',
     crq_headers = JObject [], crq_post_data_entries = None, crq_has_post_data = None\<rparr>,
     rws_frame_id = None, rws_type = None\<rparr>"

definition example_response :: "unit response_received" where
  "example_response = \<lparr>rrv_request_id = ''r'', rrv_url = ''u'', rrv_frame_id = None, rrv_type = ''XHR'',
     rrv_headers = JObject [], rrv_status = 200, rrv_mime_type = ''text/plain''\<rparr>"

abbreviation example_next :: "unit listener_move \<Rightarrow> unit page_observatory \<Rightarrow> unit page_observatory option" where
  "example_next \<equiv> observatory_move example_observatory_env example_callbacks ''t''"

abbreviation example_moves :: "unit listener_move list \<Rightarrow> unit page_observatory \<Rightarrow> unit page_observatory option" where
  "example_moves \<equiv> run_observatory example_observatory_env example_callbacks ''t''"

text \<open>The moves that read the correlation registry, whatever it answers.\<close>

lemma example_correlated:
  "pob_sent s = SentIdle \<Longrightarrow> \<exists>c t. example_next (DeliverSent e now) s = Some t \<and>
     pob_sent t = SentCorrelated e c \<and> pob_pending t = pob_pending s \<and>
     pob_response t = pob_response s \<and> pob_finished t = pob_finished s"
  "pob_response s = ResponseIdentified e' identity \<Longrightarrow>
     \<exists>c t. example_next (CorrelateResponse now) s = Some t \<and>
     pob_response t = ResponseCorrelated e' c \<and> pob_pending t = pob_pending s \<and> pob_finished t = pob_finished s"
  "pob_finished s = FinishedTaken r (Some p) identity \<Longrightarrow>
     \<exists>c t. example_next (CorrelateFinished now) s = Some t \<and>
     pob_finished t = FinishedCorrelated r
       ((apply_terminal_correlation r LifecycleCompleted c ''t'' p)\<lparr>pnr_lifecycle := LifecycleCompleted\<rparr>) \<and>
     pob_pending t = pob_pending s \<and> pob_response t = pob_response s"
  by (auto simp: or_else_def emit_defs Let_def example_callbacks_def needs_network_events_def
      split: prod.splits)

lemma example_recorded:
  assumes "pob_sent s = SentCorrelated e c" and "pending_ok (pob_pending s)"
    and "Mapping.lookup (prr_pending_requests (pob_pending s)) (rws_request_id e) = None"
  shows "\<exists>t. example_next RecordSent s = Some t \<and> pending_ok (pob_pending t) \<and>
     Mapping.lookup (prr_pending_requests (pob_pending t)) (rws_request_id e) =
       Some (pending_request_from_request example_observatory_env ''t'' e c) \<and>
     pob_response t = pob_response s \<and> pob_finished t = pob_finished s"
proof -
  let ?p = "pending_request_from_request example_observatory_env ''t'' e c"
  obtain current u where u: "record_in_registry example_callbacks (rws_request_id e) ?p s = (current, u)"
    by (cases "record_in_registry example_callbacks (rws_request_id e) ?p s")
  then have next_state: "example_next RecordSent s = Some (u\<lparr>pob_sent := SentRecorded current\<rparr>)"
    using assms(1) by (simp add: or_else_def)
  show ?thesis
  proof (rule record_in_registry_spec [OF u], goal_cases)
    case (1 evicted)
    have "current = ?p" using record_request_spec(1) [OF assms(2) 1(1) refl refl] assms(3)
      by (simp add: merged_request_def)
    moreover have "pob_response u = pob_response s" "pob_finished u = pob_finished s"
      by (subst 1(3), simp)+
    ultimately show ?case
      using next_state move_pending_ok [OF next_state assms(2)] retained_recorded [OF assms(2) 1(1)] by simp
  qed
qed

lemma example_started:
  "\<exists>c s. example_next (DeliverSent example_sent 1) page_observatory_start = Some s \<and>
     pob_sent s = SentCorrelated example_sent c \<and> pob_pending s = pending_request_registry_default \<and>
     pob_response s = ResponseIdle \<and> pob_finished s = FinishedIdle"
  using example_correlated(1) [of page_observatory_start example_sent 1]
  by (auto simp: page_observatory_start_def)

text \<open>The request is recorded and its response is about to be.\<close>

lemma example_answered:
  "\<exists>c1 s0 s1 c2 s2. example_next (DeliverSent example_sent 1) page_observatory_start = Some s0 \<and>
     pob_sent s0 = SentCorrelated example_sent c1 \<and> pob_pending s0 = pending_request_registry_default \<and>
     example_next RecordSent s0 = Some s1 \<and>
     example_moves [DeliverResponse example_response, CorrelateResponse 2] s1 = Some s2 \<and>
     pob_response s2 = ResponseCorrelated example_response c2 \<and> pob_finished s2 = FinishedIdle \<and>
     Mapping.lookup (prr_pending_requests (pob_pending s2)) ''r'' =
       Some (pending_request_from_request example_observatory_env ''t'' example_sent c1)"
proof -
  obtain c1 s0 where s0: "example_next (DeliverSent example_sent 1) page_observatory_start = Some s0"
     "pob_sent s0 = SentCorrelated example_sent c1" "pob_pending s0 = pending_request_registry_default"
     "pob_response s0 = ResponseIdle" "pob_finished s0 = FinishedIdle"
    using example_started by blast
  have r: "rws_request_id example_sent = ''r''" by (simp add: example_sent_def)
  obtain s1 where s1: "example_next RecordSent s0 = Some s1"
     "Mapping.lookup (prr_pending_requests (pob_pending s1)) ''r'' =
       Some (pending_request_from_request example_observatory_env ''t'' example_sent c1)"
     "pob_response s1 = ResponseIdle" "pob_finished s1 = FinishedIdle"
    using example_recorded [OF s0(2)] s0(3-5) pending_ok_default r
    by (auto simp: pending_request_registry_default_def)
  let ?d = "s1\<lparr>pob_response := ResponseIdentified example_response
      (peek_terminal_identity (rrv_request_id example_response) (pob_pending s1))\<rparr>"
  have d: "example_next (DeliverResponse example_response) s1 = Some ?d"
    using s1(3) by (simp add: or_else_def needs_response_received_def example_callbacks_def)
  obtain c2 s2 where "example_next (CorrelateResponse 2) ?d = Some s2"
     "pob_response s2 = ResponseCorrelated example_response c2" "pob_pending s2 = pob_pending s1"
     "pob_finished s2 = FinishedIdle"
    using example_correlated(2) [of ?d example_response _ 2] s1(4) by auto
  with s0 s1 d show ?thesis
    by (intro exI [of _ c1] exI [of _ s0] exI [of _ s1] exI [of _ c2] exI [of _ s2])
      (simp del: observatory_move.simps)
qed

theorem pending_requests_bounded_witness:
  "\<exists>s t. example_moves [DeliverSent example_sent 1, RecordSent] page_observatory_start = Some s \<and>
     example_next (DeliverFinished ''r'') s = Some t \<and> pending_ok (pob_pending s)"
proof -
  obtain c1 s0 where s0: "example_next (DeliverSent example_sent 1) page_observatory_start = Some s0"
     "pob_sent s0 = SentCorrelated example_sent c1" "pob_pending s0 = pending_request_registry_default"
     "pob_finished s0 = FinishedIdle"
    using example_started by blast
  obtain s where s: "example_next RecordSent s0 = Some s" "pob_finished s = FinishedIdle"
    using example_recorded [OF s0(2)] s0(3,4) pending_ok_default
    by (auto simp: pending_request_registry_default_def)
  obtain t where t: "example_next (DeliverFinished ''r'') s = Some t"
    using s(2) by (cases "take_terminal_state ''r'' (pob_pending s)")
      (auto simp: or_else_def needs_loading_finished_listener_def example_callbacks_def)
  have run: "example_moves [DeliverSent example_sent 1, RecordSent] page_observatory_start = Some s"
    using s0(1) s(1) by (simp del: observatory_move.simps)
  from pending_requests_bounded [OF run t] run t show ?thesis by blast
qed

lemma example_taken_out:
  assumes "pob_finished s = FinishedIdle"
    and "Mapping.lookup (prr_pending_requests (pob_pending s)) ''r'' = Some p"
  shows "\<exists>t identity. example_next (DeliverFinished ''r'') s = Some t \<and>
     pob_finished t = FinishedTaken ''r'' (Some p) identity \<and> pob_response t = pob_response s \<and>
     Mapping.lookup (prr_pending_requests (pob_pending t)) ''r'' = None"
  using assms by (auto simp: or_else_def needs_loading_finished_listener_def example_callbacks_def
      take_terminal_state_def remove_request_def remove_from_order_def Let_def lookup_delete_if)

lemma example_emitted:
  assumes "pob_finished s = FinishedCorrelated r p"
  shows "\<exists>t. example_next (EmitFinished answer) s = Some t \<and> pob_pending t = pob_pending s \<and>
     pob_response t = pob_response s \<and>
     pob_emitted t = pob_emitted s @ [EmitRecord (build_request_record (finished_request example_observatory_env answer p))]"
  using assms by (auto simp: or_else_def emit_when_def example_callbacks_def)

lemma example_body:
  "response_body_preview env (Inr (''body'', False)) =
     \<lparr>nbp_available = True, nbp_preview = Some ''body'', nbp_encoding = Some ''text'',
      nbp_truncated = None, nbp_omitted_reason = None\<rparr>"
  by (simp add: response_body_preview_def project_body_preview_def BODY_PREVIEW_LIMIT_def char_count_def
      starts_char_def)

theorem observed_request_complete_witness:
  "\<exists>s8 s9 x. example_next (EmitFinished (Inr (''body'', False))) s8 = Some s9 \<and>
     pob_emitted s9 = pob_emitted s8 @ [EmitRecord x] \<and> onr_lifecycle x = LifecycleCompleted \<and>
     onr_method x = ''GET'' \<and> onr_status x = Some 200 \<and>
     onr_response_body x = Some \<lparr>nbp_available = True, nbp_preview = Some ''body'',
       nbp_encoding = Some ''text'', nbp_truncated = None, nbp_omitted_reason = None\<rparr>"
proof -
  obtain c1 s0 s1 c2 s2 where s0: "example_next (DeliverSent example_sent 1) page_observatory_start = Some s0"
     "pob_sent s0 = SentCorrelated example_sent c1" "pob_pending s0 = pending_request_registry_default"
    and s1: "example_next RecordSent s0 = Some s1"
    and s2: "example_moves [DeliverResponse example_response, CorrelateResponse 2] s1 = Some s2"
     "pob_response s2 = ResponseCorrelated example_response c2" "pob_finished s2 = FinishedIdle"
    using example_answered by blast
  have run: "example_moves [DeliverSent example_sent 1] page_observatory_start = Some s0"
    using s0(1) by (simp del: observatory_move.simps)
  have "pending_ok (pob_pending s2)"
    using run_pending_ok [OF s2(1)] move_pending_ok [OF s1] s0(3) pending_ok_default by simp
  note ok2 = this
  obtain s3 where s3: "example_next RecordResponse s2 = Some s3"
    using s2(2) by (cases "record_in_registry example_callbacks (rrv_request_id example_response)
      (pending_request_from_response example_observatory_env ''t'' example_response c2) s2") (auto simp: or_else_def)
  have r: "rws_request_id example_sent = ''r''" "rrv_request_id example_response = ''r''"
    by (simp_all add: example_sent_def example_response_def)
  obtain p v where rec: "record_request ''r'' (pending_request_from_response example_observatory_env ''t'' example_response c2)
      (pob_pending s2) = (p, v, pob_pending s3)"
    using move_result(2) [OF s3 s2(2)] r by auto
  have f3: "pob_finished s3 = FinishedIdle" using finished_frame [OF s3] s2(3) by simp
  obtain s5 identity where s5: "example_next (DeliverFinished ''r'') s3 = Some s5"
      "pob_finished s5 = FinishedTaken ''r'' (Some p) identity"
    using example_taken_out [OF f3] retained_recorded [OF ok2 rec] by blast
  obtain q s7 where s7: "example_next (CorrelateFinished 3) s5 = Some s7" "pob_finished s7 = FinishedCorrelated ''r'' q"
    using example_correlated(3) [OF s5(2)] by blast
  obtain s9 where s9: "example_next (EmitFinished (Inr (''body'', False))) s7 = Some s9"
    using example_emitted [OF s7(2)] by blast
  have apart: "apart example_observatory_env example_callbacks ''t'' ''r'' [DeliverResponse example_response, CorrelateResponse 2] s1"
    "apart example_observatory_env example_callbacks ''t'' ''r'' [] s3"
    by (simp_all del: observatory_move.simps split: option.split)
  have start: "Mapping.lookup (prr_pending_requests (pob_pending s0)) ''r'' = None"
    by (simp add: s0(3) pending_request_registry_default_def)
  have few: "record_moves [DeliverResponse example_response, CorrelateResponse 2] < PENDING_REQUEST_RETENTION_LIMIT"
    "record_moves ([] :: unit listener_move list) < PENDING_REQUEST_RETENTION_LIMIT"
    by (simp_all add: record_moves_def PENDING_REQUEST_RETENTION_LIMIT_def)
  have none: "example_moves [] s3 = Some s3" "example_moves [] s5 = Some s5" "example_moves [] s7 = Some s7"
    "\<not> list_ex is_finished_move ([] :: unit listener_move list)" by simp_all
  have capture: "should_capture_response_preview (pending_request_from_response example_observatory_env ''t'' example_response c2)"
    by (simp add: should_capture_response_preview_def pending_request_from_response_def example_response_def
        headers_to_map_def content_length_def or_else_def starts_with_def to_ascii_lowercase_def)
  from observed_request_complete [OF run start s0(2) r(1) s1 s2(1) apart(1) few(1) s2(2) r(2) s3 none(1)
      apart(2) few(2) s5(1) none(2) none(4) s7(1) none(3) none(4) s9]
  show ?thesis using s9 capture
    by (auto simp: example_body example_sent_def example_response_def normalize_status_def
        simp del: observatory_move.simps)
qed

theorem late_response_hides_body_witness:
  "\<exists>u x y z. example_moves [DeliverSent example_sent 1, RecordSent, DeliverResponse example_response,
       CorrelateResponse 2, DeliverFinished ''r'', CorrelateFinished 3, EmitFinished (Inr (''body'', False)),
       RecordResponse, EmitResponse] page_observatory_start = Some u \<and>
     onr_lifecycle x = LifecycleCompleted \<and>
     onr_response_body x = Some \<lparr>nbp_available = True, nbp_preview = Some ''body'',
       nbp_encoding = Some ''text'', nbp_truncated = None, nbp_omitted_reason = None\<rparr> \<and>
     EmitRecord x \<in> set (pob_emitted u) \<and> last (pob_emitted u) = EmitRecord y \<and>
     request_record ''r'' (upsert_observed_request_record y
       (upsert_observed_request_record x runtime_observatory_default)) = Some z \<and>
     nrr_lifecycle z = LifecycleCompleted \<and>
     nrr_response_body z = Some (unavailable_body_preview ''not_loaded'')"
proof -
  obtain c1 s0 s1 c2 s2 where s0: "example_next (DeliverSent example_sent 1) page_observatory_start = Some s0"
    and s1: "example_next RecordSent s0 = Some s1"
    and s2: "example_moves [DeliverResponse example_response, CorrelateResponse 2] s1 = Some s2"
     "pob_response s2 = ResponseCorrelated example_response c2" "pob_finished s2 = FinishedIdle"
     "Mapping.lookup (prr_pending_requests (pob_pending s2)) ''r'' =
       Some (pending_request_from_request example_observatory_env ''t'' example_sent c1)"
    using example_answered by blast
  obtain s3 identity where s3: "example_next (DeliverFinished ''r'') s2 = Some s3"
      "pob_finished s3 = FinishedTaken ''r'' (Some (pending_request_from_request example_observatory_env ''t'' example_sent c1)) identity"
      "pob_response s3 = ResponseCorrelated example_response c2"
      "Mapping.lookup (prr_pending_requests (pob_pending s3)) ''r'' = None"
    using example_taken_out [OF s2(3,4)] s2(2) by auto
  obtain c s4 where s4: "example_next (CorrelateFinished 3) s3 = Some s4"
      "pob_finished s4 = FinishedCorrelated ''r'' ((apply_terminal_correlation ''r'' LifecycleCompleted c ''t''
         (pending_request_from_request example_observatory_env ''t'' example_sent c1))\<lparr>pnr_lifecycle := LifecycleCompleted\<rparr>)"
      "pob_pending s4 = pob_pending s3" "pob_response s4 = ResponseCorrelated example_response c2"
    using example_correlated(3) [OF s3(2)] s3(3) by metis
  let ?q = "(apply_terminal_correlation ''r'' LifecycleCompleted c ''t''
         (pending_request_from_request example_observatory_env ''t'' example_sent c1))\<lparr>pnr_lifecycle := LifecycleCompleted\<rparr>"
  let ?x = "build_request_record (finished_request example_observatory_env (Inr (''body'', False)) ?q)"
  obtain s5 where s5: "example_next (EmitFinished (Inr (''body'', False))) s4 = Some s5"
      "pob_pending s5 = pob_pending s4" "pob_response s5 = ResponseCorrelated example_response c2"
      "pob_emitted s5 = pob_emitted s4 @ [EmitRecord ?x]"
    using example_emitted [OF s4(2)] s4(4) by metis
  have capture: "should_capture_response_preview ?q"
    by (auto simp: should_capture_response_preview_def apply_terminal_correlation_def merge_pending_request_def
        pending_request_from_terminal_def pending_request_from_request_def example_sent_def nonempty_or_def
        content_length_def or_else_def starts_with_def to_ascii_lowercase_def split: option.splits)
  have x: "onr_request_id ?x = ''r''" "onr_lifecycle ?x = LifecycleCompleted"
     "onr_response_body ?x = Some \<lparr>nbp_available = True, nbp_preview = Some ''body'',
       nbp_encoding = Some ''text'', nbp_truncated = None, nbp_omitted_reason = None\<rparr>"
    using capture by (auto simp: build_request_record_def finished_request_def example_body
        apply_terminal_correlation_def merge_pending_request_def pending_request_from_request_def example_sent_def)
  obtain t where t: "example_next RecordResponse s5 = Some t"
    using s5(3) by (cases "record_in_registry example_callbacks (rrv_request_id example_response)
      (pending_request_from_response example_observatory_env ''t'' example_response c2) s5") (auto simp: or_else_def)
  obtain current v where at: "pob_response t = ResponseRecorded (rrv_request_id example_response) current"
    using move_result(2) [OF t s5(3)] by blast
  obtain u where u: "example_next EmitResponse t = Some u"
    using at by (auto simp: or_else_def)
  have kept: "EmitRecord ?x \<in> set (pob_emitted u)"
  proof -
    have "set (pob_emitted s5) \<subseteq> set (pob_emitted t)" using t s5(3)
      by (auto simp: or_else_def emit_defs Let_def split: prod.splits if_splits)
    moreover have "set (pob_emitted t) \<subseteq> set (pob_emitted u)" using u at
      by (auto simp: or_else_def emit_when_def split: if_splits)
    ultimately show ?thesis using s5(4) by auto
  qed
  have run: "example_moves [DeliverSent example_sent 1, RecordSent, DeliverResponse example_response,
      CorrelateResponse 2, DeliverFinished ''r'', CorrelateFinished 3, EmitFinished (Inr (''body'', False))]
      page_observatory_start = Some s5"
    using s0 s1 s2(1) s3(1) s4(1) s5(1) by (auto simp: bind_eq_Some_conv simp del: observatory_move.simps)
  have whole: "example_moves [DeliverSent example_sent 1, RecordSent, DeliverResponse example_response,
      CorrelateResponse 2, DeliverFinished ''r'', CorrelateFinished 3, EmitFinished (Inr (''body'', False)),
      RecordResponse, EmitResponse] page_observatory_start = Some u"
    using s0 s1 s2(1) s3(1) s4(1) s5(1) t u by (auto simp: bind_eq_Some_conv simp del: observatory_move.simps)
  obtain z where z: "request_record ''r'' (upsert_observed_request_record ?x runtime_observatory_default) = Some z"
      "nrr_lifecycle z = LifecycleCompleted"
    using x(1,2) by (auto simp: request_record_def upsert_observed_request_record_def
        runtime_observatory_default_def observatory_mark_active_def next_request_sequence_def Let_def
        trim_request_records_def OBSERVATORY_REQUEST_RECORD_LIMIT_def authoritative_request_record_def
        lookup_update' split: prod.splits if_splits)
  have "Mapping.lookup (prr_pending_requests (pob_pending s5)) ''r'' = None" using s3(4) s4(3) s5(2) by simp
  from late_response_hides_body [OF run this s5(3) _ _ t u z]
  obtain y z' where late: "last (pob_emitted u) = EmitRecord y" "nrr_lifecycle z' = LifecycleCompleted"
     "request_record ''r'' (upsert_observed_request_record y
       (upsert_observed_request_record ?x runtime_observatory_default)) = Some z'"
     "nrr_response_body z' = Some (unavailable_body_preview ''not_loaded'')"
    by (auto simp: example_response_def example_callbacks_def)
  show ?thesis
    by (rule exI [of _ u], rule exI [of _ ?x], rule exI [of _ y], rule exI [of _ z'])
      (intro conjI whole x(2,3) kept late)
qed

end
