(* ===== verification/Rub_Secrets.thy ===== *)
theory Rub_Secrets
  imports Rub_Error "HOL-Library.List_Lexorder" "HOL-Library.Char_ord"
begin

text \<open>
  Secret references in command specifications (\<^verbatim>\<open>router/secret_resolution.rs\<close>, with the placeholder
  syntax of \<^verbatim>\<open>rub-core/src/secrets_env.rs\<close>): a string leaf \<^verbatim>\<open>$NAME\<close> is replaced by the value of the name in the
  process environment or the secrets file, and what is reported afterwards has the values replaced by
  their references again. The two sources are arguments, as sorted lists of their entries.
\<close>

section \<open>Sources and metadata\<close>

definition is_ascii_alphabetic :: "char \<Rightarrow> bool" where
  "is_ascii_alphabetic c \<longleftrightarrow> (let b = of_char c :: nat in 65 \<le> b \<and> b \<le> 90 \<or> 97 \<le> b \<and> b \<le> 122)"

definition is_ascii_alphanumeric_char :: "char \<Rightarrow> bool" where
  "is_ascii_alphanumeric_char c \<longleftrightarrow> is_ascii_alphabetic c \<or> (let b = of_char c :: nat in 48 \<le> b \<and> b \<le> 57)"

fun parse_secret_placeholder :: "string \<Rightarrow> string option" where
  "parse_secret_placeholder (d # first # rest) =
     (if d = CHR ''$'' \<and> (is_ascii_alphabetic first \<or> first = CHR ''_'') \<and>
         list_all (\<lambda>c. is_ascii_alphanumeric_char c \<or> c = CHR ''_'') rest
      then Some (first # rest) else None)"
| "parse_secret_placeholder _ = None"

datatype secret_source = Environment | SecretsFile

record secret_resolution_entry =
  sre_reference :: string
  sre_value :: string
  sre_source :: secret_source

type_synonym secret_resolution_metadata = "secret_resolution_entry list"

definition metadata_record ::
  "string \<Rightarrow> string \<Rightarrow> secret_source \<Rightarrow> secret_resolution_metadata \<Rightarrow> secret_resolution_metadata" where
  "metadata_record reference value source entries =
     (if list_ex (\<lambda>e. sre_reference e = reference \<and> sre_value e = value) entries then entries
      else sort_key (\<lambda>e. - int (length (sre_value e)))
        (entries @ [\<lparr>sre_reference = reference, sre_value = value, sre_source = source\<rparr>]))"

record secret_sources =
  scs_process_env :: "(string \<times> string) list"
  scs_file_env :: "(string \<times> string) list"

definition sources_resolve :: "secret_sources \<Rightarrow> string \<Rightarrow> (string \<times> secret_source) option" where
  "sources_resolve s key =
     (case map_of (scs_process_env s) key of
        Some value \<Rightarrow> Some (value, Environment)
      | None \<Rightarrow> map_option (\<lambda>value. (value, SecretsFile)) (map_of (scs_file_env s) key))"

definition reference_of :: "string \<Rightarrow> string" where
  "reference_of name = CHR ''$'' # name"

definition reference_for_value :: "secret_sources \<Rightarrow> string \<Rightarrow> (string \<times> secret_source) option" where
  "reference_for_value s value =
     (if value = [] then None
      else case List.find (\<lambda>(_, candidate). candidate = value) (scs_process_env s) of
        Some (key, _) \<Rightarrow> Some (reference_of key, Environment)
      | None \<Rightarrow> map_option (\<lambda>(key, _). (reference_of key, SecretsFile))
          (List.find (\<lambda>(_, candidate). candidate = value) (scs_file_env s)))"

section \<open>Resolution\<close>

definition unresolved_reference :: "string \<Rightarrow> string \<Rightarrow> 'n rub_error" where
  "unresolved_reference command name = rub_domain_with_context InvalidInput
     (''Unresolved secret reference '' @ [CHR 0x27] @ reference_of name @ [CHR 0x27] @ '' in '' @
      [CHR 0x27] @ command @ [CHR 0x27] @ '' spec'')
     (JObject [(''command'', JString command), (''reference'', JString (reference_of name)),
        (''sources'', JArray [JString ''environment'', JString ''RUB_HOME/secrets.env''])])"

fun resolve_placeholders ::
  "string \<Rightarrow> secret_sources \<Rightarrow> 'n json \<Rightarrow> secret_resolution_metadata
   \<Rightarrow> 'n rub_error + 'n json \<times> secret_resolution_metadata"
and resolve_values ::
  "string \<Rightarrow> secret_sources \<Rightarrow> 'n json list \<Rightarrow> secret_resolution_metadata
   \<Rightarrow> 'n rub_error + 'n json list \<times> secret_resolution_metadata"
and resolve_fields ::
  "string \<Rightarrow> secret_sources \<Rightarrow> (string \<times> 'n json) list \<Rightarrow> secret_resolution_metadata
   \<Rightarrow> 'n rub_error + (string \<times> 'n json) list \<times> secret_resolution_metadata" where
  "resolve_placeholders command s (JString text) md =
     (case parse_secret_placeholder text of
        None \<Rightarrow> Inr (JString text, md)
      | Some name \<Rightarrow>
          (case sources_resolve s name of
             None \<Rightarrow> Inl (unresolved_reference command name)
           | Some (resolved, source) \<Rightarrow>
               Inr (JString resolved, metadata_record (reference_of name) resolved source md)))"
| "resolve_placeholders command s (JArray vs) md =
     (case resolve_values command s vs md of Inl e \<Rightarrow> Inl e | Inr (vs, md) \<Rightarrow> Inr (JArray vs, md))"
| "resolve_placeholders command s (JObject kvs) md =
     (case resolve_fields command s kvs md of Inl e \<Rightarrow> Inl e | Inr (kvs, md) \<Rightarrow> Inr (JObject kvs, md))"
| "resolve_placeholders command s v md = Inr (v, md)"
| "resolve_values command s [] md = Inr ([], md)"
| "resolve_values command s (v # vs) md =
     (case resolve_placeholders command s v md of Inl e \<Rightarrow> Inl e
      | Inr (v, md) \<Rightarrow> (case resolve_values command s vs md of Inl e \<Rightarrow> Inl e
          | Inr (vs, md) \<Rightarrow> Inr (v # vs, md)))"
| "resolve_fields command s [] md = Inr ([], md)"
| "resolve_fields command s ((k, v) # kvs) md =
     (case resolve_placeholders command s v md of Inl e \<Rightarrow> Inl e
      | Inr (v, md) \<Rightarrow> (case resolve_fields command s kvs md of Inl e \<Rightarrow> Inl e
          | Inr (kvs, md) \<Rightarrow> Inr ((k, v) # kvs, md)))"

section \<open>Redaction\<close>

text \<open>\<^verbatim>\<open>str::replace\<close> with a pattern that is not empty: leftmost matches that do not overlap.\<close>

function replace_str :: "string \<Rightarrow> string \<Rightarrow> string \<Rightarrow> string" where
  "replace_str from to [] = []"
| "replace_str from to (c # cs) =
     (if from \<noteq> [] \<and> starts_with (c # cs) from
      then to @ replace_str from to (drop (length from) (c # cs))
      else c # replace_str from to cs)"
  by pat_completeness auto
termination by (relation "measure (\<lambda>(from, to, text). length text)") auto

definition redact_entry :: "secret_resolution_entry \<Rightarrow> string \<Rightarrow> string" where
  "redact_entry entry redacted =
     (if sre_value entry = [] then redacted
      else if contains_str redacted (sre_value entry)
      then replace_str (sre_value entry) (sre_reference entry) redacted else redacted)"

definition redact_string :: "secret_resolution_metadata \<Rightarrow> string \<Rightarrow> string" where
  "redact_string md text = (if text = [] then text else fold redact_entry md text)"

fun redact_json_value :: "secret_resolution_metadata \<Rightarrow> 'n json \<Rightarrow> 'n json" where
  "redact_json_value md (JString text) = (if md = [] then JString text else JString (redact_string md text))"
| "redact_json_value md (JArray vs) = (if md = [] then JArray vs else JArray (map (redact_json_value md) vs))"
| "redact_json_value md (JObject kvs) =
     (if md = [] then JObject kvs else JObject (map (\<lambda>(k, v). (k, redact_json_value md v)) kvs))"
| "redact_json_value md v = v"

definition redact_rub_error :: "secret_resolution_metadata \<Rightarrow> 'n rub_error \<Rightarrow> 'n rub_error" where
  "redact_rub_error md error =
     (if md = [] then error
      else case error of
        RubDomain e \<Rightarrow> RubDomain (e\<lparr>ee_message := redact_string md (ee_message e),
          ee_suggestion := redact_string md (ee_suggestion e),
          ee_context := map_option (redact_json_value md) (ee_context e)\<rparr>)
      | RubInternal message \<Rightarrow> RubInternal (redact_string md message)
      | other \<Rightarrow> other)"

fun collect_secret_matches_and_redact_exact_leaves ::
  "secret_sources \<Rightarrow> 'n json \<Rightarrow> secret_resolution_metadata \<Rightarrow> 'n json \<times> secret_resolution_metadata"
and collect_values ::
  "secret_sources \<Rightarrow> 'n json list \<Rightarrow> secret_resolution_metadata \<Rightarrow> 'n json list \<times> secret_resolution_metadata"
and collect_fields ::
  "secret_sources \<Rightarrow> (string \<times> 'n json) list \<Rightarrow> secret_resolution_metadata
   \<Rightarrow> (string \<times> 'n json) list \<times> secret_resolution_metadata" where
  "collect_secret_matches_and_redact_exact_leaves s (JString text) md =
     (case reference_for_value s text of
        Some (reference, source) \<Rightarrow> (JString reference, metadata_record reference text source md)
      | None \<Rightarrow> (JString text, md))"
| "collect_secret_matches_and_redact_exact_leaves s (JArray vs) md =
     (let (vs, md) = collect_values s vs md in (JArray vs, md))"
| "collect_secret_matches_and_redact_exact_leaves s (JObject kvs) md =
     (let (kvs, md) = collect_fields s kvs md in (JObject kvs, md))"
| "collect_secret_matches_and_redact_exact_leaves s v md = (v, md)"
| "collect_values s [] md = ([], md)"
| "collect_values s (v # vs) md =
     (let (v, md) = collect_secret_matches_and_redact_exact_leaves s v md;
          (vs, md) = collect_values s vs md
      in (v # vs, md))"
| "collect_fields s [] md = ([], md)"
| "collect_fields s ((k, v) # kvs) md =
     (let (v, md) = collect_secret_matches_and_redact_exact_leaves s v md;
          (kvs, md) = collect_fields s kvs md
      in ((k, v) # kvs, md))"

section \<open>Provenance\<close>

datatype secret_effective_source = EffectiveEnvironment | RubHomeSecretsEnv | Unresolved

record secret_reference_provenance =
  srp_reference :: string
  srp_effective_source :: secret_effective_source

fun project_secret_effective_source :: "secret_source \<Rightarrow> secret_effective_source" where
  "project_secret_effective_source Environment = EffectiveEnvironment"
| "project_secret_effective_source SecretsFile = RubHomeSecretsEnv"

definition project_secret_resolution_projection ::
  "secret_resolution_metadata \<Rightarrow> (nat \<times> secret_reference_provenance list) option" where
  "project_secret_resolution_projection md =
     (if md = [] then None
      else let items = sort_key srp_reference (map (\<lambda>e. \<lparr>srp_reference = sre_reference e,
             srp_effective_source = project_secret_effective_source (sre_source e)\<rparr>) md)
           in Some (length items, items))"

section \<open>Leaves\<close>

fun string_leaves :: "'n json \<Rightarrow> string list" where
  "string_leaves (JString text) = [text]"
| "string_leaves (JArray vs) = concat (map string_leaves vs)"
| "string_leaves (JObject kvs) = concat (map (\<lambda>(k, v). string_leaves v) kvs)"
| "string_leaves _ = []"

fun map_leaves :: "(string \<Rightarrow> string) \<Rightarrow> 'n json \<Rightarrow> 'n json" where
  "map_leaves f (JString text) = JString (f text)"
| "map_leaves f (JArray vs) = JArray (map (map_leaves f) vs)"
| "map_leaves f (JObject kvs) = JObject (map (\<lambda>(k, v). (k, map_leaves f v)) kvs)"
| "map_leaves f v = v"

lemma string_leaves_map: "string_leaves (map_leaves f v) = map f (string_leaves v)"
  by (induction f v rule: map_leaves.induct)
    (auto simp: map_concat comp_def intro!: arg_cong [where f = concat] map_cong)

lemma map_leaves_id: "map_leaves (\<lambda>t. t) v = v"
  by (induction "\<lambda>t :: string. t" v rule: map_leaves.induct) (auto intro!: map_idI)

lemma redact_string_Nil: "redact_string [] = (\<lambda>t. t)"
  by (auto simp: redact_string_def)

lemma redact_leaves: "redact_json_value md v = map_leaves (redact_string md) v"
proof (cases "md = []")
  case True
  then show ?thesis by (cases v) (simp_all add: redact_string_Nil map_leaves_id del: map_leaves.simps)
next
  case False
  then show ?thesis by (induction md v rule: redact_json_value.induct) auto
qed

definition unresolved_leaf :: "secret_sources \<Rightarrow> string \<Rightarrow> bool" where
  "unresolved_leaf s text \<longleftrightarrow>
     (case parse_secret_placeholder text of Some name \<Rightarrow> sources_resolve s name = None | None \<Rightarrow> False)"

definition resolve_leaf :: "secret_sources \<Rightarrow> string \<Rightarrow> string" where
  "resolve_leaf s text =
     (case Option.bind (parse_secret_placeholder text) (sources_resolve s) of
        Some (value, _) \<Rightarrow> value | None \<Rightarrow> text)"

definition record_leaf :: "secret_sources \<Rightarrow> string \<Rightarrow> secret_resolution_metadata \<Rightarrow> secret_resolution_metadata" where
  "record_leaf s text md =
     (case Option.bind (parse_secret_placeholder text) (sources_resolve s) of
        Some (value, source) \<Rightarrow> metadata_record text value source md | None \<Rightarrow> md)"

lemma placeholder_reference: "parse_secret_placeholder t = Some name \<Longrightarrow> t = reference_of name"
  by (cases t rule: parse_secret_placeholder.cases) (auto simp: reference_of_def split: if_splits)

definition resolution_spec ::
  "string \<Rightarrow> secret_sources \<Rightarrow> string list \<Rightarrow> 'a \<Rightarrow> secret_resolution_metadata
   \<Rightarrow> 'n rub_error + 'a \<times> secret_resolution_metadata" where
  "resolution_spec command s leaves result md =
     (case List.find (unresolved_leaf s) leaves of
        Some text \<Rightarrow> Inl (unresolved_reference command (tl text))
      | None \<Rightarrow> Inr (result, fold (record_leaf s) leaves md))"

lemma resolution_exact:
  fixes v :: "'n json" and vs :: "'n json list" and kvs :: "(string \<times> 'n json) list"
  shows "resolve_placeholders command s v md = resolution_spec command s (string_leaves v) (map_leaves (resolve_leaf s) v) md"
  "resolve_values command s vs md =
     resolution_spec command s (concat (map string_leaves vs)) (map (map_leaves (resolve_leaf s)) vs) md"
  "resolve_fields command s kvs md =
     resolution_spec command s (concat (map (\<lambda>(k, v). string_leaves v) kvs))
       (map (\<lambda>(k, v). (k, map_leaves (resolve_leaf s) v)) kvs) md"
proof (induction command s v md and command s vs md and command s kvs md
    rule: resolve_placeholders_resolve_values_resolve_fields.induct)
  case (1 command s t md)
  then show ?case
    by (auto simp: resolution_spec_def unresolved_leaf_def resolve_leaf_def record_leaf_def reference_of_def
        dest!: placeholder_reference split: option.splits)
qed (auto simp: resolution_spec_def find_append or_else_def split: option.splits)

definition mask_leaf :: "secret_sources \<Rightarrow> string \<Rightarrow> string" where
  "mask_leaf s t = (case reference_for_value s t of Some (reference, _) \<Rightarrow> reference | None \<Rightarrow> t)"

definition note_leaf :: "secret_sources \<Rightarrow> string \<Rightarrow> secret_resolution_metadata \<Rightarrow> secret_resolution_metadata" where
  "note_leaf s t md =
     (case reference_for_value s t of Some (reference, source) \<Rightarrow> metadata_record reference t source md
      | None \<Rightarrow> md)"

lemma collect_exact:
  fixes v :: "'n json" and vs :: "'n json list" and kvs :: "(string \<times> 'n json) list"
  shows "collect_secret_matches_and_redact_exact_leaves s v md =
     (map_leaves (mask_leaf s) v, fold (note_leaf s) (string_leaves v) md)"
  "collect_values s vs md =
     (map (map_leaves (mask_leaf s)) vs, fold (note_leaf s) (concat (map string_leaves vs)) md)"
  "collect_fields s kvs md =
     (map (\<lambda>(k, v). (k, map_leaves (mask_leaf s) v)) kvs,
      fold (note_leaf s) (concat (map (\<lambda>(k, v). string_leaves v) kvs)) md)"
  by (induction s v md and s vs md and s kvs md
      rule: collect_secret_matches_and_redact_exact_leaves_collect_values_collect_fields.induct)
    (auto simp: mask_leaf_def note_leaf_def Let_def split: option.splits prod.splits)

lemma find_candidate: "List.find (\<lambda>(_, candidate). candidate = t) xs = Some p \<Longrightarrow> (fst p, t) \<in> set xs"
  by (induction xs) (auto split: if_splits)

lemma reference_for_value_None:
  "t \<noteq> [] \<Longrightarrow> reference_for_value s t = None \<longleftrightarrow>
     t \<notin> snd ` set (scs_process_env s) \<and> t \<notin> snd ` set (scs_file_env s)"
  by (force simp: reference_for_value_def find_None_iff image_iff dest: find_candidate split: option.splits)

section \<open>Redaction of resolved values\<close>

lemma contains_longer: "contains_str text needle \<Longrightarrow> length needle \<le> length text"
  by (induction "text") (auto dest: arg_cong [where f = length])

lemma contains_same_length: "contains_str text needle \<Longrightarrow> length needle = length text \<Longrightarrow> needle = text"
  by (cases "text") (auto dest: contains_longer)

lemma contains_self: "contains_str text text"
  by (cases "text") auto

lemma replace_self: "text \<noteq> [] \<Longrightarrow> replace_str text to text = to"
  by (cases "text") (auto simp: starts_with_def)

definition longest_first :: "secret_resolution_metadata \<Rightarrow> bool" where
  "longest_first md \<longleftrightarrow> sorted_wrt (\<lambda>a b. length (sre_value b) \<le> length (sre_value a)) md"

lemma metadata_record_longest: "longest_first md \<Longrightarrow> longest_first (metadata_record r v src md)"
proof -
  have "longest_first (sort_key (\<lambda>e. - int (length (sre_value e))) xs)" for xs :: secret_resolution_metadata
    using sorted_sort_key [of "\<lambda>e. - int (length (sre_value e))" xs]
    by (simp add: longest_first_def sorted_wrt_map)
  then show "longest_first md \<Longrightarrow> ?thesis" by (simp add: metadata_record_def)
qed

lemma record_leaves_longest: "longest_first md \<Longrightarrow> longest_first (fold (record_leaf s) leaves md)"
  by (induction leaves arbitrary: md)
    (auto simp: record_leaf_def metadata_record_longest split: option.splits)

lemma fold_untouched:
  "\<forall>e\<in>set md. sre_value e = [] \<or> \<not> contains_str text (sre_value e) \<Longrightarrow> fold redact_entry md text = text"
  by (induction md) (auto simp: redact_entry_def)

lemma redact_exact_value:
  assumes "longest_first md" and "e \<in> set md" and "sre_value e = text" and "text \<noteq> []"
    and apart: "\<forall>a\<in>set md. \<forall>b\<in>set md. sre_value a \<noteq> [] \<longrightarrow> \<not> contains_str (sre_reference b) (sre_value a)"
  shows "\<exists>b\<in>set md. sre_value b = text \<and> redact_string md text = sre_reference b"
proof -
  obtain before b after where md: "md = before @ b # after" "sre_value b = text"
      "\<forall>a\<in>set before. sre_value a \<noteq> text"
    using split_list_first_prop [of md "\<lambda>e. sre_value e = text"] assms(2,3) by metis
  have "length text \<le> length (sre_value a)" if "a \<in> set before" for a
    using assms(1) that md(1,2) by (auto simp: longest_first_def sorted_wrt_append)
  then have "fold redact_entry before text = text"
    using md(3) contains_longer contains_same_length by (intro fold_untouched) (metis le_antisym)
  moreover have "redact_entry b text = sre_reference b"
    using md(2) assms(4) by (simp add: redact_entry_def contains_self replace_self)
  moreover have "fold redact_entry after (sre_reference b) = sre_reference b"
    using apart md(1) by (intro fold_untouched) auto
  ultimately show ?thesis using md(1,2) assms(4) by (auto simp: redact_string_def)
qed

definition from_sources :: "secret_sources \<Rightarrow> secret_resolution_entry \<Rightarrow> bool" where
  "from_sources s e \<longleftrightarrow> (\<exists>name. sre_reference e = reference_of name \<and>
     sources_resolve s name = Some (sre_value e, sre_source e))"

lemma metadata_record_set:
  "set (metadata_record r v src md) \<subseteq> insert \<lparr>sre_reference = r, sre_value = v, sre_source = src\<rparr> (set md)"
  "\<exists>e\<in>set (metadata_record r v src md). sre_reference e = r \<and> sre_value e = v"
  "set md \<subseteq> set (metadata_record r v src md)"
  by (auto simp: metadata_record_def list_ex_iff)

lemma record_leaf_entries:
  assumes "\<forall>e\<in>set md. from_sources s e"
  shows "\<forall>e\<in>set (record_leaf s text md). from_sources s e"
proof (cases "Option.bind (parse_secret_placeholder text) (sources_resolve s)")
  case (Some p)
  then obtain name where "parse_secret_placeholder text = Some name" "sources_resolve s name = Some p"
    by (auto simp: bind_eq_Some_conv)
  then have "from_sources s \<lparr>sre_reference = text, sre_value = fst p, sre_source = snd p\<rparr>"
    by (auto simp: from_sources_def dest: placeholder_reference)
  then show ?thesis
    using assms metadata_record_set(1) [of "text" "fst p" "snd p" md] Some
    by (auto simp: record_leaf_def split: prod.splits)
qed (use assms in \<open>simp add: record_leaf_def\<close>)

lemma record_leaves_entries:
  "\<forall>e\<in>set md. from_sources s e \<Longrightarrow> \<forall>e\<in>set (fold (record_leaf s) leaves md). from_sources s e"
  by (induction leaves arbitrary: md) (auto dest: record_leaf_entries)

lemma record_leaf_mono: "set md \<subseteq> set (record_leaf s text md)"
  using metadata_record_set(3) by (auto simp: record_leaf_def split: option.splits)

lemma record_leaves_mono: "set md \<subseteq> set (fold (record_leaf s) leaves md)"
  using record_leaf_mono by (induction leaves arbitrary: md) (simp, fastforce)

lemma record_leaves_found:
  "text \<in> set leaves \<Longrightarrow> Option.bind (parse_secret_placeholder text) (sources_resolve s) = Some (v, src) \<Longrightarrow>
   \<exists>e\<in>set (fold (record_leaf s) leaves md). sre_value e = v"
proof (induction leaves arbitrary: md)
  case (Cons x leaves)
  show ?case
  proof (cases "x = text")
    case True
    then have "\<exists>e\<in>set (record_leaf s x md). sre_value e = v"
      using Cons.prems(2) metadata_record_set(2) [of "text" v src md] by (auto simp: record_leaf_def)
    then show ?thesis using record_leaves_mono [of "record_leaf s x md" s leaves] by auto
  next
    case False
    then show ?thesis using Cons by auto
  qed
qed simp


text \<open>
  C28. What a specification resolved is hidden again when it is reported. If no secret value occurs in
  a reference, redacting the resolved specification turns every leaf that was a placeholder with a
  value that is not empty into a reference to a secret with that same value, whatever other secrets
  were resolved with it and however their values overlap.
\<close>

theorem resolved_secrets_redacted:
  assumes "resolve_placeholders command s v [] = Inr (w, md)"
    and "\<forall>a\<in>set md. \<forall>b\<in>set md. sre_value a \<noteq> [] \<longrightarrow> \<not> contains_str (sre_reference b) (sre_value a)"
    and "i < length (string_leaves v)"
    and "parse_secret_placeholder (string_leaves v ! i) = Some name"
  shows "length (string_leaves (redact_json_value md w)) = length (string_leaves v) \<and>
    (\<exists>value source. sources_resolve s name = Some (value, source) \<and> string_leaves w ! i = value \<and>
       (value \<noteq> [] \<longrightarrow> (\<exists>name' source'. sources_resolve s name' = Some (value, source') \<and>
          string_leaves (redact_json_value md w) ! i = reference_of name')))"
proof -
  let ?leaves = "string_leaves v"
  have none: "List.find (unresolved_leaf s) ?leaves = None"
    and w: "w = map_leaves (resolve_leaf s) v" and md: "md = fold (record_leaf s) ?leaves []"
    using assms(1) resolution_exact(1) [of command s v "[]"]
    by (auto simp: resolution_spec_def split: option.splits)
  obtain val src where r: "sources_resolve s name = Some (val, src)"
    using none assms(3,4) by (auto simp: find_None_iff unresolved_leaf_def split: option.splits)
      (metis nth_mem option.exhaust surj_pair)
  have leaf: "string_leaves w ! i = val"
    using assms(3,4) r by (simp add: w string_leaves_map resolve_leaf_def)
  have red: "string_leaves (redact_json_value md w) ! i = redact_string md val"
    using assms(3) leaf by (simp add: redact_leaves string_leaves_map w)
  have "\<exists>name' source'. sources_resolve s name' = Some (val, source') \<and>
      redact_string md val = reference_of name'" if filled: "val \<noteq> []"
  proof -
    obtain e where "e \<in> set md" "sre_value e = val"
      using record_leaves_found [of "?leaves ! i" ?leaves s val src "[]"] assms(3,4) r md by auto
    moreover have "longest_first md" unfolding md by (rule record_leaves_longest) (simp add: longest_first_def)
    ultimately obtain b where "b \<in> set md" "sre_value b = val" "redact_string md val = sre_reference b"
      using redact_exact_value [OF _ _ _ filled assms(2)] by blast
    moreover have "from_sources s b" using record_leaves_entries [of "[]" s ?leaves] md \<open>b \<in> set md\<close> by simp
    ultimately show ?thesis by (auto simp: from_sources_def)
  qed
  then show ?thesis using r leaf red by (auto simp: redact_leaves string_leaves_map w)
qed

text \<open>
  Redacting the leaves of a value that equal a secret replaces exactly those leaves. A string leaf
  that is the value of a name in the environment or the secrets file, and is not empty, becomes a
  reference to such a name; every other leaf, and the shape of the value, stays as it is.
\<close>

theorem exact_leaves_redacted:
  assumes "collect_secret_matches_and_redact_exact_leaves s v md = (w, md')"
    and "i < length (string_leaves v)"
  shows "length (string_leaves w) = length (string_leaves v) \<and>
    (if string_leaves v ! i \<noteq> [] \<and>
        string_leaves v ! i \<in> snd ` set (scs_process_env s) \<union> snd ` set (scs_file_env s)
     then \<exists>key. string_leaves w ! i = reference_of key \<and>
       ((key, string_leaves v ! i) \<in> set (scs_process_env s) \<or> (key, string_leaves v ! i) \<in> set (scs_file_env s))
     else string_leaves w ! i = string_leaves v ! i)"
proof -
  have w: "w = map_leaves (mask_leaf s) v" using assms(1) by (simp add: collect_exact(1))
  let ?t = "string_leaves v ! i"
  have leaf: "string_leaves w ! i = mask_leaf s ?t" using assms(2) by (simp add: w string_leaves_map)
  show ?thesis
  proof (cases "reference_for_value s ?t")
    case None
    then have "mask_leaf s ?t = ?t" by (simp add: mask_leaf_def)
    then show ?thesis using leaf None reference_for_value_None [of ?t s]
      by (auto simp: w string_leaves_map)
  next
    case (Some p)
    then have filled: "?t \<noteq> []" by (auto simp: reference_for_value_def split: if_splits)
    from Some filled obtain key where "fst p = reference_of key"
      "(key, ?t) \<in> set (scs_process_env s) \<or> (key, ?t) \<in> set (scs_file_env s)"
      by (auto simp: reference_for_value_def dest!: find_candidate split: option.splits prod.splits)
    moreover have "mask_leaf s ?t = fst p" using Some by (simp add: mask_leaf_def split: prod.splits)
    ultimately show ?thesis using leaf filled reference_for_value_None [of ?t s] Some
      by (auto simp: w string_leaves_map)
  qed
qed

definition example_sources :: secret_sources where
  "example_sources = \<lparr>scs_process_env = [(''USER'', ''ann'')], scs_file_env = [(''PASS'', ''annex'')]\<rparr>"

definition example_spec :: "unit json" where
  "example_spec = JArray [JString ''$USER'', JObject [(''p'', JString ''$PASS'')]]"

lemma example_resolved:
  "resolve_placeholders ''pipe'' example_sources example_spec [] =
     Inr (JArray [JString ''ann'', JObject [(''p'', JString ''annex'')]],
       [\<lparr>sre_reference = ''$PASS'', sre_value = ''annex'', sre_source = SecretsFile\<rparr>,
        \<lparr>sre_reference = ''$USER'', sre_value = ''ann'', sre_source = Environment\<rparr>])"
  by code_simp

theorem resolved_secrets_redacted_witness:
  "\<exists>name' source'. sources_resolve example_sources name' = Some (''annex'', source') \<and>
     string_leaves (redact_json_value
       [\<lparr>sre_reference = ''$PASS'', sre_value = ''annex'', sre_source = SecretsFile\<rparr>,
        \<lparr>sre_reference = ''$USER'', sre_value = ''ann'', sre_source = Environment\<rparr>]
       (JArray [JString ''ann'', JObject [(''p'', JString ''annex'')]] :: unit json)) ! 1 = reference_of name'"
proof -
  have leaf: "1 < length (string_leaves example_spec)"
    "parse_secret_placeholder (string_leaves example_spec ! 1) = Some ''PASS''"
    by code_simp+
  have "sources_resolve example_sources ''PASS'' = Some (''annex'', SecretsFile)" by code_simp
  with resolved_secrets_redacted [OF example_resolved _ leaf] show ?thesis by simp
qed

theorem exact_leaves_redacted_witness:
  "\<exists>key. string_leaves (fst (collect_secret_matches_and_redact_exact_leaves example_sources
       (JArray [JString ''annex''] :: unit json) [])) ! 0 = reference_of key"
proof -
  obtain w md where w: "collect_secret_matches_and_redact_exact_leaves example_sources
      (JArray [JString ''annex''] :: unit json) [] = (w, md)"
    by fastforce
  from exact_leaves_redacted [OF w, of 0] w show ?thesis by (auto simp: example_sources_def)
qed

end
