(* ===== verification/Rub_Dom_Diff.thy ===== *)
theory Rub_Dom_Diff
  imports Rub_Json "HOL-Library.Multiset"
begin

text \<open>
  The comparison of two DOM snapshots (\<^verbatim>\<open>rub-cdp/src/dom/diff.rs\<close>, with the types of
  \<^verbatim>\<open>rub-core/src/model/diff.rs\<close> and \<^verbatim>\<open>interaction.rs\<close>). An element has the fields the comparison reads; the
  attributes are a list of the entries of the hash map in the order of its iteration. The equality and
  the text of a floating-point number are arguments, since \<^verbatim>\<open>NaN\<close> differs from itself.
\<close>

section \<open>Elements\<close>

datatype element_tag =
  TagButton | TagLink | TagInput | TagTextArea | TagSelect | TagCheckbox | TagRadio | TagOption | TagOther

fun tag_text :: "element_tag \<Rightarrow> string" where
  "tag_text TagButton = ''button''"
| "tag_text TagLink = ''link''"
| "tag_text TagInput = ''input''"
| "tag_text TagTextArea = ''textarea''"
| "tag_text TagSelect = ''select''"
| "tag_text TagCheckbox = ''checkbox''"
| "tag_text TagRadio = ''radio''"
| "tag_text TagOption = ''option''"
| "tag_text TagOther = ''other''"

record 'f bounding_box =
  bbx_x :: 'f
  bbx_y :: 'f
  bbx_width :: 'f
  bbx_height :: 'f

record ax_info =
  axi_role :: "string option"
  axi_accessible_name :: "string option"
  axi_accessible_description :: "string option"

record 'f dom_element =
  del_index :: u32
  del_tag :: element_tag
  del_text :: string
  del_attributes :: "(string \<times> string) list"
  del_element_ref :: "string option"
  del_bounding_box :: "'f bounding_box option"
  del_ax_info :: "ax_info option"
  del_listeners :: "string list option"

record 'f float_ops =
  flo_eq :: "'f \<Rightarrow> 'f \<Rightarrow> bool"
  flo_text :: "'f \<Rightarrow> string"

section \<open>Changes of an element\<close>

record field_change =
  fch_field :: string
  fch_from :: string
  fch_to :: string

definition bounding_box_eq :: "'f float_ops \<Rightarrow> 'f bounding_box option \<Rightarrow> 'f bounding_box option \<Rightarrow> bool" where
  "bounding_box_eq fl a b =
     (case (a, b) of
        (Some a, Some b) \<Rightarrow> flo_eq fl (bbx_x a) (bbx_x b) \<and> flo_eq fl (bbx_y a) (bbx_y b) \<and>
          flo_eq fl (bbx_width a) (bbx_width b) \<and> flo_eq fl (bbx_height a) (bbx_height b)
      | (None, None) \<Rightarrow> True
      | _ \<Rightarrow> False)"

definition format_bounding_box :: "'f float_ops \<Rightarrow> 'f bounding_box option \<Rightarrow> string" where
  "format_bounding_box fl rect =
     (case rect of
        Some r \<Rightarrow> flo_text fl (bbx_x r) @ '','' @ flo_text fl (bbx_y r) @ '','' @
          flo_text fl (bbx_width r) @ '','' @ flo_text fl (bbx_height r)
      | None \<Rightarrow> [])"

fun join_str :: "string \<Rightarrow> string list \<Rightarrow> string" where
  "join_str sep [] = []"
| "join_str sep [x] = x"
| "join_str sep (x # y # xs) = x @ sep @ join_str sep (y # xs)"

definition format_listeners :: "string list option \<Rightarrow> string" where
  "format_listeners listeners = (case listeners of Some ls \<Rightarrow> join_str '','' ls | None \<Rightarrow> [])"

definition append_ax_change ::
  "field_change list \<Rightarrow> string \<Rightarrow> string option \<Rightarrow> string option \<Rightarrow> field_change list" where
  "append_ax_change changes field old new =
     (if old = new then changes
      else changes @ [\<lparr>fch_field = field,
        fch_from = (case old of Some t \<Rightarrow> t | None \<Rightarrow> []),
        fch_to = (case new of Some t \<Rightarrow> t | None \<Rightarrow> [])\<rparr>])"

definition attribute_changes ::
  "(string \<times> string) list \<Rightarrow> (string \<times> string) list \<Rightarrow> field_change list" where
  "attribute_changes old new =
     concat (map (\<lambda>(key, old_val).
       case map_of new key of
         Some new_val \<Rightarrow> if new_val \<noteq> old_val
           then [\<lparr>fch_field = ''attributes.'' @ key, fch_from = old_val, fch_to = new_val\<rparr>] else []
       | None \<Rightarrow> [\<lparr>fch_field = ''attributes.'' @ key, fch_from = old_val, fch_to = []\<rparr>]) old) @
     concat (map (\<lambda>(key, new_val).
       if map_of old key = None
       then [\<lparr>fch_field = ''attributes.'' @ key, fch_from = [], fch_to = new_val\<rparr>] else []) new)"

definition compute_field_changes ::
  "'f float_ops \<Rightarrow> 'f dom_element \<Rightarrow> 'f dom_element \<Rightarrow> field_change list" where
  "compute_field_changes fl old new =
     (let changes =
            (if del_text old \<noteq> del_text new
             then [\<lparr>fch_field = ''text'', fch_from = del_text old, fch_to = del_text new\<rparr>] else []) @
            (if del_tag old \<noteq> del_tag new
             then [\<lparr>fch_field = ''tag'', fch_from = tag_text (del_tag old), fch_to = tag_text (del_tag new)\<rparr>]
             else []) @
            (if \<not> bounding_box_eq fl (del_bounding_box old) (del_bounding_box new)
             then [\<lparr>fch_field = ''bounding_box'', fch_from = format_bounding_box fl (del_bounding_box old),
                    fch_to = format_bounding_box fl (del_bounding_box new)\<rparr>] else []) @
            attribute_changes (del_attributes old) (del_attributes new) @
            (if del_listeners old \<noteq> del_listeners new
             then [\<lparr>fch_field = ''listeners'', fch_from = format_listeners (del_listeners old),
                    fch_to = format_listeners (del_listeners new)\<rparr>] else []);
          changes = append_ax_change changes ''ax.role''
            (Option.bind (del_ax_info old) axi_role) (Option.bind (del_ax_info new) axi_role);
          changes = append_ax_change changes ''ax.accessible_name''
            (Option.bind (del_ax_info old) axi_accessible_name) (Option.bind (del_ax_info new) axi_accessible_name)
      in append_ax_change changes ''ax.accessible_description''
            (Option.bind (del_ax_info old) axi_accessible_description)
            (Option.bind (del_ax_info new) axi_accessible_description))"

datatype diff_semantic_kind = Identity | Content | Value | Attributes | Geometry | Accessibility | Listeners

text \<open>The derived order of the kinds, in which the \<^verbatim>\<open>BTreeSet\<close> yields them.\<close>

definition all_kinds :: "diff_semantic_kind list" where
  "all_kinds = [Identity, Content, Value, Attributes, Geometry, Accessibility, Listeners]"

definition semantic_kind :: "string \<Rightarrow> diff_semantic_kind" where
  "semantic_kind field =
     (if field = ''tag'' then Identity
      else if field = ''text'' then Content
      else if field = ''bounding_box'' then Geometry
      else if field = ''listeners'' then Listeners
      else if starts_with field ''ax.'' then Accessibility
      else if starts_with field ''attributes.value'' \<or> starts_with field ''attributes.checked'' \<or>
        starts_with field ''attributes.selected'' then Value
      else if starts_with field ''attributes.aria-'' \<or> starts_with field ''attributes.role'' then Accessibility
      else Attributes)"

definition semantic_kinds_for_changes :: "field_change list \<Rightarrow> diff_semantic_kind list" where
  "semantic_kinds_for_changes changes =
     filter (\<lambda>k. list_ex (\<lambda>c. semantic_kind (fch_field c) = k) changes) all_kinds"

section \<open>The comparison\<close>

record diff_element =
  dfe_index :: u32
  dfe_tag :: element_tag
  dfe_text :: string
  dfe_element_ref :: "string option"

definition diff_element_of :: "'f dom_element \<Rightarrow> diff_element" where
  "diff_element_of el = \<lparr>dfe_index = del_index el, dfe_tag = del_tag el, dfe_text = del_text el,
     dfe_element_ref = del_element_ref el\<rparr>"

record changed_element =
  che_index :: u32
  che_tag :: element_tag
  che_semantic_kinds :: "diff_semantic_kind list"
  che_changes :: "field_change list"

text \<open>The local variables of the loop. The set of matched references, which nothing reads, is left out.\<close>

record diff_state =
  dfs_matched_old_indices :: "u32 list"
  dfs_added :: "diff_element list"
  dfs_changed :: "changed_element list"
  dfs_unchanged_count :: u32

definition push_changed_or_count_unchanged ::
  "'f float_ops \<Rightarrow> 'f dom_element \<Rightarrow> 'f dom_element \<Rightarrow> diff_state \<Rightarrow> diff_state" where
  "push_changed_or_count_unchanged fl old_el new_el s =
     (let changes = compute_field_changes fl old_el new_el
      in if changes = [] then s\<lparr>dfs_unchanged_count := dfs_unchanged_count s + 1\<rparr>
         else s\<lparr>dfs_changed := dfs_changed s @ [\<lparr>che_index = del_index new_el, che_tag = del_tag new_el,
           che_semantic_kinds = semantic_kinds_for_changes changes, che_changes = changes\<rparr>]\<rparr>)"

definition old_by_ref :: "'f dom_element list \<Rightarrow> (string, 'f dom_element) mapping" where
  "old_by_ref old = fold (\<lambda>el m.
     case del_element_ref el of Some r \<Rightarrow> Mapping.update r el m | None \<Rightarrow> m) old Mapping.empty"

definition fallback_match :: "'f dom_element list \<Rightarrow> 'f dom_element \<Rightarrow> diff_state \<Rightarrow> 'f dom_element option" where
  "fallback_match old new_el s = List.find (\<lambda>oe. del_element_ref oe = None \<and> del_element_ref new_el = None \<and>
     del_index oe \<notin> set (dfs_matched_old_indices s) \<and> del_tag oe = del_tag new_el \<and>
     del_text oe = del_text new_el) old"

definition diff_step ::
  "'f float_ops \<Rightarrow> 'f dom_element list \<Rightarrow> 'f dom_element \<Rightarrow> diff_state \<Rightarrow> diff_state" where
  "diff_step fl old new_el s =
     (let matching = (\<lambda>oe. push_changed_or_count_unchanged fl oe new_el
            (s\<lparr>dfs_matched_old_indices := del_index oe # dfs_matched_old_indices s\<rparr>))
      in case Option.bind (del_element_ref new_el) (Mapping.lookup (old_by_ref old)) of
           Some old_el \<Rightarrow> matching old_el
         | None \<Rightarrow>
             (case fallback_match old new_el s of
                Some oe \<Rightarrow> matching oe
              | None \<Rightarrow> s\<lparr>dfs_added := dfs_added s @ [diff_element_of new_el]\<rparr>))"

definition diff_start :: diff_state where
  "diff_start = \<lparr>dfs_matched_old_indices = [], dfs_added = [], dfs_changed = [], dfs_unchanged_count = 0\<rparr>"

record diff_summary =
  dsm_added_count :: u32
  dsm_removed_count :: u32
  dsm_changed_count :: u32
  dsm_content_changes :: u32
  dsm_value_changes :: u32
  dsm_attribute_changes :: u32
  dsm_geometry_changes :: u32
  dsm_accessibility_changes :: u32
  dsm_listener_changes :: u32
  dsm_identity_changes :: u32

fun count_kind :: "diff_semantic_kind \<Rightarrow> diff_summary \<Rightarrow> diff_summary" where
  "count_kind Identity s = s\<lparr>dsm_identity_changes := dsm_identity_changes s + 1\<rparr>"
| "count_kind Content s = s\<lparr>dsm_content_changes := dsm_content_changes s + 1\<rparr>"
| "count_kind Value s = s\<lparr>dsm_value_changes := dsm_value_changes s + 1\<rparr>"
| "count_kind Attributes s = s\<lparr>dsm_attribute_changes := dsm_attribute_changes s + 1\<rparr>"
| "count_kind Geometry s = s\<lparr>dsm_geometry_changes := dsm_geometry_changes s + 1\<rparr>"
| "count_kind Accessibility s = s\<lparr>dsm_accessibility_changes := dsm_accessibility_changes s + 1\<rparr>"
| "count_kind Listeners s = s\<lparr>dsm_listener_changes := dsm_listener_changes s + 1\<rparr>"

definition summarize_diff ::
  "diff_element list \<Rightarrow> diff_element list \<Rightarrow> changed_element list \<Rightarrow> diff_summary" where
  "summarize_diff added removed changed =
     fold (\<lambda>el. fold count_kind (che_semantic_kinds el)) changed
       \<lparr>dsm_added_count = of_nat (length added), dsm_removed_count = of_nat (length removed),
        dsm_changed_count = of_nat (length changed), dsm_content_changes = 0, dsm_value_changes = 0,
        dsm_attribute_changes = 0, dsm_geometry_changes = 0, dsm_accessibility_changes = 0,
        dsm_listener_changes = 0, dsm_identity_changes = 0\<rparr>"

record 'f dom_snapshot =
  dsn_snapshot_id :: string
  dsn_dom_epoch :: u64
  dsn_elements :: "'f dom_element list"

record diff_result =
  dfr_snapshot_id :: string
  dfr_diff_base :: string
  dfr_dom_epoch :: u64
  dfr_has_changes :: bool
  dfr_added :: "diff_element list"
  dfr_removed :: "diff_element list"
  dfr_changed :: "changed_element list"
  dfr_unchanged_count :: u32
  dfr_summary :: diff_summary

definition diff_snapshots :: "'f float_ops \<Rightarrow> 'f dom_snapshot \<Rightarrow> 'f dom_snapshot \<Rightarrow> diff_result" where
  "diff_snapshots fl old new =
     (let s = fold (diff_step fl (dsn_elements old)) (dsn_elements new) diff_start;
          removed = map diff_element_of
            (filter (\<lambda>oe. del_index oe \<notin> set (dfs_matched_old_indices s)) (dsn_elements old))
      in \<lparr>dfr_snapshot_id = dsn_snapshot_id new, dfr_diff_base = dsn_snapshot_id old,
          dfr_dom_epoch = dsn_dom_epoch new,
          dfr_has_changes = (dfs_added s \<noteq> [] \<or> removed \<noteq> [] \<or> dfs_changed s \<noteq> []),
          dfr_added = dfs_added s, dfr_removed = removed, dfr_changed = dfs_changed s,
          dfr_unchanged_count = dfs_unchanged_count s,
          dfr_summary = summarize_diff (dfs_added s) removed (dfs_changed s)\<rparr>)"

section \<open>When an element has not changed\<close>

definition same_fields :: "'f float_ops \<Rightarrow> 'f dom_element \<Rightarrow> 'f dom_element \<Rightarrow> bool" where
  "same_fields fl a b \<longleftrightarrow> del_text a = del_text b \<and> del_tag a = del_tag b \<and>
     bounding_box_eq fl (del_bounding_box a) (del_bounding_box b) \<and>
     map_of (del_attributes a) = map_of (del_attributes b) \<and> del_listeners a = del_listeners b \<and>
     Option.bind (del_ax_info a) axi_role = Option.bind (del_ax_info b) axi_role \<and>
     Option.bind (del_ax_info a) axi_accessible_name = Option.bind (del_ax_info b) axi_accessible_name \<and>
     Option.bind (del_ax_info a) axi_accessible_description = Option.bind (del_ax_info b) axi_accessible_description"

lemma attribute_changes_empty:
  assumes "distinct (map fst old)" and "distinct (map fst new)"
  shows "attribute_changes old new = [] \<longleftrightarrow> map_of old = map_of new"
proof
  assume none: "attribute_changes old new = []"
  show "map_of old = map_of new"
  proof
    fix k
    show "map_of old k = map_of new k"
    proof (cases "map_of old k")
      case None
      then have "(k, v) \<notin> set new" for v using none by (auto simp: attribute_changes_def)
      then show ?thesis using None by (metis map_of_SomeD not_None_eq)
    next
      case (Some v)
      then have "(k, v) \<in> set old" by (rule map_of_SomeD)
      then have "map_of new k = Some v"
        using none by (fastforce simp: attribute_changes_def split: option.splits if_splits)
      then show ?thesis using Some by simp
    qed
  qed
next
  assume eq: "map_of old = map_of new"
  have "map_of new k = Some v" if "(k, v) \<in> set old" for k v
    using that assms(1) eq by (metis map_of_is_SomeI)
  moreover have "map_of old k = Some v" if "(k, v) \<in> set new" for k v
    using that assms(2) eq by (metis map_of_is_SomeI)
  ultimately show "attribute_changes old new = []" by (auto simp: attribute_changes_def split: option.splits)
qed

lemma no_field_changes:
  assumes "distinct (map fst (del_attributes a))" and "distinct (map fst (del_attributes b))"
  shows "compute_field_changes fl a b = [] \<longleftrightarrow> same_fields fl a b"
  using attribute_changes_empty [OF assms]
  by (auto simp: compute_field_changes_def same_fields_def append_ax_change_def Let_def split: if_splits)

section \<open>The pairs the comparison makes\<close>

lemma old_by_ref_fold:
  "Mapping.lookup (fold (\<lambda>el m. case del_element_ref el of Some r \<Rightarrow> Mapping.update r el m | None \<Rightarrow> m) old m) r =
     Some el \<Longrightarrow> el \<in> set old \<and> del_element_ref el = Some r \<or> Mapping.lookup m r = Some el"
  by (induction old arbitrary: m) (fastforce simp: lookup_update' split: option.splits if_splits)+

lemma old_by_ref_Some: "Mapping.lookup (old_by_ref old) r = Some el \<Longrightarrow> el \<in> set old \<and> del_element_ref el = Some r"
  using old_by_ref_fold [of old Mapping.empty r el] by (simp add: old_by_ref_def lookup_empty)

lemma old_by_ref_keeps:
  "Mapping.lookup m r \<noteq> None \<or> (\<exists>el\<in>set old. del_element_ref el = Some r) \<Longrightarrow>
   Mapping.lookup (fold (\<lambda>el m. case del_element_ref el of Some r \<Rightarrow> Mapping.update r el m | None \<Rightarrow> m) old m) r \<noteq> None"
proof (induction old arbitrary: m)
  case (Cons el old)
  show ?case
  proof (cases "del_element_ref el")
    case None
    then show ?thesis using Cons by auto
  next
    case (Some r')
    then show ?thesis using Cons.prems Cons.IH [of "Mapping.update r' el m"] by (auto simp: lookup_update')
  qed
qed simp

lemma old_by_ref_None: "Mapping.lookup (old_by_ref old) r = None \<Longrightarrow> el \<in> set old \<Longrightarrow> del_element_ref el \<noteq> Some r"
  using old_by_ref_keeps [of Mapping.empty r old] by (auto simp: old_by_ref_def)

definition matches :: "'f dom_element \<Rightarrow> 'f dom_element \<Rightarrow> bool" where
  "matches a b \<longleftrightarrow> del_element_ref a = del_element_ref b \<and>
     (del_element_ref a = None \<longrightarrow> del_tag a = del_tag b \<and> del_text a = del_text b)"

abbreviation changed_of :: "'f float_ops \<Rightarrow> 'f dom_element \<times> 'f dom_element \<Rightarrow> changed_element" where
  "changed_of fl p \<equiv> \<lparr>che_index = del_index (snd p), che_tag = del_tag (snd p),
     che_semantic_kinds = semantic_kinds_for_changes (compute_field_changes fl (fst p) (snd p)),
     che_changes = compute_field_changes fl (fst p) (snd p)\<rparr>"

definition diff_pairs ::
  "'f float_ops \<Rightarrow> 'f dom_element list \<Rightarrow> 'f dom_element list \<Rightarrow> diff_state
   \<Rightarrow> ('f dom_element \<times> 'f dom_element) list \<Rightarrow> 'f dom_element list \<Rightarrow> bool" where
  "diff_pairs fl old new s ps fresh \<longleftrightarrow>
     mset new = mset (map snd ps) + mset fresh \<and> set (map fst ps) \<subseteq> set old \<and>
     distinct (map (del_index \<circ> fst) ps) \<and> (\<forall>(a, b)\<in>set ps. matches a b) \<and>
     set (dfs_matched_old_indices s) = set (map (del_index \<circ> fst) ps) \<and>
     dfs_added s = map diff_element_of fresh \<and>
     dfs_changed s = map (changed_of fl) (filter (\<lambda>(a, b). compute_field_changes fl a b \<noteq> []) ps) \<and>
     dfs_unchanged_count s = of_nat (length (filter (\<lambda>(a, b). compute_field_changes fl a b = []) ps)) \<and>
     (\<forall>b\<in>set fresh. \<forall>a\<in>set old. matches a b \<longrightarrow> del_index a \<in> set (dfs_matched_old_indices s))"

lemma diff_pairs_match:
  assumes inv: "diff_pairs fl old new s ps fresh" and "a \<in> set old" and "matches a b"
    and "del_index a \<notin> set (dfs_matched_old_indices s)"
  shows "diff_pairs fl old (new @ [b]) (push_changed_or_count_unchanged fl a b
      (s\<lparr>dfs_matched_old_indices := del_index a # dfs_matched_old_indices s\<rparr>)) (ps @ [(a, b)]) fresh"
  using assms by (auto simp: diff_pairs_def push_changed_or_count_unchanged_def Let_def)

lemma diff_pairs_step:
  assumes inv: "diff_pairs fl old new s ps fresh" and idx: "distinct (map del_index old)"
    and refs: "distinct (List.map_filter del_element_ref (new @ [b]))"
  shows "\<exists>ps' fresh'. diff_pairs fl old (new @ [b]) (diff_step fl old b s) ps' fresh'"
proof (cases "Option.bind (del_element_ref b) (Mapping.lookup (old_by_ref old))")
  case (Some a)
  then obtain r where r: "del_element_ref b = Some r" "Mapping.lookup (old_by_ref old) r = Some a"
    by (auto simp: bind_eq_Some_conv)
  then have a: "a \<in> set old" "del_element_ref a = Some r" using old_by_ref_Some by blast+
  have "del_index a \<notin> set (dfs_matched_old_indices s)"
  proof
    assume "del_index a \<in> set (dfs_matched_old_indices s)"
    then obtain a' b' where p: "(a', b') \<in> set ps" "del_index a' = del_index a"
      using inv by (auto simp: diff_pairs_def)
    then have "a' \<in> set old" "matches a' b'" using inv by (auto simp: diff_pairs_def)
    then have "del_element_ref b' = Some r"
      using p(2) a idx by (metis distinct_map inj_onD matches_def)
    moreover have "b' \<in> set new"
      using inv p(1) by (metis (no_types, lifting) Un_iff diff_pairs_def image_eqI list.set_map set_mset_mset
          set_mset_union snd_conv)
    ultimately show False using refs r(1) by (force simp: map_filter_def image_iff)
  qed
  then show ?thesis
    using diff_pairs_match [OF inv a(1), of b] Some a(2) r(1) by (auto simp: diff_step_def Let_def matches_def)
next
  case None
  show ?thesis
  proof (cases "fallback_match old b s")
    case (Some a)
    then have "a \<in> set old" "matches a b" "del_index a \<notin> set (dfs_matched_old_indices s)"
      by (auto simp: fallback_match_def matches_def find_Some_iff)
    then show ?thesis using diff_pairs_match [OF inv] None Some by (auto simp: diff_step_def Let_def)
  next
    case no_fallback: None
    have "del_index a \<in> set (dfs_matched_old_indices s)" if "a \<in> set old" "matches a b" for a
      using that None no_fallback old_by_ref_None [OF _ that(1)]
      by (cases "del_element_ref b") (auto simp: fallback_match_def matches_def find_None_iff)
    then have "diff_pairs fl old (new @ [b]) (s\<lparr>dfs_added := dfs_added s @ [diff_element_of b]\<rparr>) ps (fresh @ [b])"
      using inv by (auto simp: diff_pairs_def)
    then show ?thesis using None no_fallback by (auto simp: diff_step_def Let_def)
  qed
qed

lemma diff_pairs_exist:
  assumes idx: "distinct (map del_index old)" and "distinct (List.map_filter del_element_ref new)"
  shows "\<exists>ps fresh. diff_pairs fl old new (fold (diff_step fl old) new diff_start) ps fresh"
  using assms(2)
proof (induction new rule: rev_induct)
  case Nil
  have "diff_pairs fl old [] diff_start [] []" by (simp add: diff_pairs_def diff_start_def)
  then show ?case by auto
next
  case (snoc b new)
  have "distinct (List.map_filter del_element_ref new)" using snoc.prems by (simp add: map_filter_def)
  then obtain ps fresh where "diff_pairs fl old new (fold (diff_step fl old) new diff_start) ps fresh"
    using snoc.IH by blast
  from diff_pairs_step [OF this idx snoc.prems] show ?case by simp
qed

section \<open>Properties\<close>

text \<open>
  C30. The diff accounts for every element of both snapshots. If the elements of the old snapshot have
  different indices and those of the new one different references, the diff pairs elements with the same
  reference, or without one and with the same tag and text, each old element with at most one new one.
  A new element is added exactly when it is in no pair, and then every old element it could be paired
  with is in one; an old element is removed exactly when it is in no pair; a pair is counted as unchanged
  when no compared field differs and listed with its changes otherwise.
\<close>

theorem diff_accounts_for_every_element:
  assumes "distinct (map del_index (dsn_elements old))"
    and "distinct (List.map_filter del_element_ref (dsn_elements new))"
  shows "\<exists>ps fresh. mset (dsn_elements new) = mset (map snd ps) + mset fresh \<and>
    set (map fst ps) \<subseteq> set (dsn_elements old) \<and> distinct (map fst ps) \<and>
    list_all (\<lambda>(a, b). matches a b) ps \<and>
    list_all (\<lambda>b. list_all (\<lambda>a. a \<in> fst ` set ps \<or> \<not> matches a b) (dsn_elements old)) fresh \<and>
    dfr_added (diff_snapshots fl old new) = map diff_element_of fresh \<and>
    dfr_removed (diff_snapshots fl old new) =
      map diff_element_of (filter (\<lambda>a. a \<notin> fst ` set ps) (dsn_elements old)) \<and>
    dfr_changed (diff_snapshots fl old new) =
      map (changed_of fl) (filter (\<lambda>(a, b). compute_field_changes fl a b \<noteq> []) ps) \<and>
    dfr_unchanged_count (diff_snapshots fl old new) =
      of_nat (length (filter (\<lambda>(a, b). compute_field_changes fl a b = []) ps))"
proof -
  let ?old = "dsn_elements old"
  let ?s = "fold (diff_step fl ?old) (dsn_elements new) diff_start"
  obtain ps fresh where inv: "diff_pairs fl ?old (dsn_elements new) ?s ps fresh"
    using diff_pairs_exist [OF assms] by blast
  have sub: "set (map fst ps) \<subseteq> set ?old" using inv by (simp add: diff_pairs_def)
  have matched: "del_index a \<in> set (dfs_matched_old_indices ?s) \<longleftrightarrow> a \<in> fst ` set ps" if "a \<in> set ?old" for a
  proof
    assume "del_index a \<in> set (dfs_matched_old_indices ?s)"
    then obtain p where "p \<in> set ps" "del_index (fst p) = del_index a" using inv by (auto simp: diff_pairs_def)
    then have "fst p = a" using sub that assms(1) by (intro inj_onD [of del_index "set ?old"]) (auto simp: distinct_map)
    then show "a \<in> fst ` set ps" using \<open>p \<in> set ps\<close> by blast
  next
    assume "a \<in> fst ` set ps"
    then show "del_index a \<in> set (dfs_matched_old_indices ?s)" using inv by (auto simp: diff_pairs_def)
  qed
  have "distinct (map fst ps)" using inv by (auto simp: diff_pairs_def distinct_map inj_on_def)
  moreover have "filter (\<lambda>a. del_index a \<notin> set (dfs_matched_old_indices ?s)) ?old = filter (\<lambda>a. a \<notin> fst ` set ps) ?old"
    using matched by (intro filter_cong) auto
  moreover have "list_all (\<lambda>b. list_all (\<lambda>a. a \<in> fst ` set ps \<or> \<not> matches a b) ?old) fresh"
    using inv matched by (auto simp: diff_pairs_def list_all_iff)
  ultimately show ?thesis using inv
    by (intro exI [of _ ps] exI [of _ fresh]) (auto simp: diff_pairs_def diff_snapshots_def Let_def list_all_iff)
qed

lemma self_step:
  assumes xs: "xs = done @ e # rest" and idx: "distinct (map del_index xs)"
    and refs: "distinct (List.map_filter del_element_ref xs)"
    and attrs: "distinct (map fst (del_attributes e))"
    and box: "bounding_box_eq fl (del_bounding_box e) (del_bounding_box e)"
    and matched: "set (dfs_matched_old_indices s) = del_index ` set done"
  shows "diff_step fl xs e s = s\<lparr>dfs_matched_old_indices := del_index e # dfs_matched_old_indices s,
    dfs_unchanged_count := dfs_unchanged_count s + 1\<rparr>"
proof -
  have same: "compute_field_changes fl e e = []"
    using no_field_changes [OF attrs attrs] box by (simp add: same_fields_def)
  show ?thesis
  proof (cases "del_element_ref e")
    case (Some r)
    obtain a where a: "Mapping.lookup (old_by_ref xs) r = Some a"
      using old_by_ref_None [of xs r e] Some xs by fastforce
    then have "a \<in> set xs" "del_element_ref a = Some r" using old_by_ref_Some by blast+
    moreover have "e \<in> set xs" using xs by simp
    moreover have "inj_on (the \<circ> del_element_ref) {x \<in> set xs. del_element_ref x \<noteq> None}"
      using refs by (simp add: map_filter_def distinct_map)
    ultimately have "a = e"
      using Some by (intro inj_onD [of "the \<circ> del_element_ref" "{x \<in> set xs. del_element_ref x \<noteq> None}"]) auto
    then show ?thesis using Some a same by (simp add: diff_step_def push_changed_or_count_unchanged_def Let_def)
  next
    case None
    have "del_index e \<notin> del_index ` set done" using idx xs by auto
    moreover have "List.find (\<lambda>oe. del_element_ref oe = None \<and> del_element_ref e = None \<and>
        del_index oe \<notin> set (dfs_matched_old_indices s) \<and> del_tag oe = del_tag e \<and>
        del_text oe = del_text e) done = None"
      using matched by (simp add: find_None_iff)
    ultimately have "fallback_match xs e s = Some e"
      using None matched by (simp add: fallback_match_def xs find_append or_else_def)
    then show ?thesis using None same by (simp add: diff_step_def push_changed_or_count_unchanged_def Let_def)
  qed
qed

lemma self_run:
  assumes idx: "distinct (map del_index xs)" and refs: "distinct (List.map_filter del_element_ref xs)"
    and ok: "list_all (\<lambda>e. distinct (map fst (del_attributes e)) \<and>
      bounding_box_eq fl (del_bounding_box e) (del_bounding_box e)) xs"
    and "xs = done @ rest"
  shows "\<exists>m. set m = del_index ` set done \<and> fold (diff_step fl xs) done diff_start =
    diff_start\<lparr>dfs_matched_old_indices := m, dfs_unchanged_count := of_nat (length done)\<rparr>"
  using assms(4)
proof (induction "done" arbitrary: rest rule: rev_induct)
  case Nil
  show ?case by (intro exI [of _ "[]"]) (simp add: diff_start_def)
next
  case (snoc e before)
  then obtain m where m: "set m = del_index ` set before" "fold (diff_step fl xs) before diff_start =
      diff_start\<lparr>dfs_matched_old_indices := m, dfs_unchanged_count := of_nat (length before)\<rparr>"
    by (metis append.assoc)
  have "xs = before @ e # rest" using snoc.prems by simp
  moreover have "distinct (map fst (del_attributes e))" "bounding_box_eq fl (del_bounding_box e) (del_bounding_box e)"
    using ok snoc.prems by (auto simp: list_all_iff)
  ultimately show ?case
    using self_step [of xs before e rest fl "diff_start\<lparr>dfs_matched_old_indices := m,
        dfs_unchanged_count := of_nat (length before)\<rparr>"] idx refs m
    by (intro exI [of _ "del_index e # m"]) (simp add: add.commute)
qed

text \<open>
  C31. A snapshot compared with itself has no changes and counts every element as unchanged, also when
  several elements have no reference and the same tag and text, provided that its indices, references
  and attribute names are unique and no coordinate is \<^verbatim>\<open>NaN\<close>.
\<close>

theorem diff_with_itself_unchanged:
  assumes "distinct (map del_index (dsn_elements snapshot))"
    and "distinct (List.map_filter del_element_ref (dsn_elements snapshot))"
    and "list_all (\<lambda>e. distinct (map fst (del_attributes e)) \<and>
      bounding_box_eq fl (del_bounding_box e) (del_bounding_box e)) (dsn_elements snapshot)"
  shows "\<not> dfr_has_changes (diff_snapshots fl snapshot snapshot) \<and>
    dfr_unchanged_count (diff_snapshots fl snapshot snapshot) = of_nat (length (dsn_elements snapshot))"
  using self_run [OF assms, of "dsn_elements snapshot" "[]"]
  by (auto simp: diff_snapshots_def Let_def diff_start_def filter_empty_conv)

section \<open>Examples\<close>

definition example_element :: "u32 \<Rightarrow> string option \<Rightarrow> string \<Rightarrow> nat dom_element" where
  "example_element i r t = \<lparr>del_index = i, del_tag = TagButton, del_text = t, del_attributes = [],
     del_element_ref = r, del_bounding_box = None, del_ax_info = None, del_listeners = None\<rparr>"

definition example_snapshot :: "nat dom_element list \<Rightarrow> nat dom_snapshot" where
  "example_snapshot es = \<lparr>dsn_snapshot_id = ''s'', dsn_dom_epoch = 1, dsn_elements = es\<rparr>"

definition example_floats :: "nat float_ops" where
  "example_floats = \<lparr>flo_eq = (=), flo_text = (\<lambda>_. [])\<rparr>"

theorem diff_accounts_for_every_element_witness:
  "\<exists>ps fresh. mset [example_element 0 (Some ''r'') ''b''] = mset (map snd ps) + mset fresh \<and>
     set (map fst ps) \<subseteq> {example_element 0 (Some ''r'') ''a'', example_element 1 None ''c''} \<and>
     dfr_added (diff_snapshots example_floats
       (example_snapshot [example_element 0 (Some ''r'') ''a'', example_element 1 None ''c''])
       (example_snapshot [example_element 0 (Some ''r'') ''b''])) = map diff_element_of fresh"
proof -
  have "distinct (map del_index (dsn_elements (example_snapshot
      [example_element 0 (Some ''r'') ''a'', example_element 1 None ''c''])))"
    "distinct (List.map_filter del_element_ref (dsn_elements (example_snapshot [example_element 0 (Some ''r'') ''b''])))"
    by (simp_all add: example_snapshot_def example_element_def map_filter_def)
  from diff_accounts_for_every_element [OF this, of example_floats] show ?thesis
    by (simp add: example_snapshot_def) blast
qed

theorem diff_with_itself_unchanged_witness:
  "\<not> dfr_has_changes (diff_snapshots example_floats
     (example_snapshot [example_element 0 None ''a'', example_element 1 None ''a''])
     (example_snapshot [example_element 0 None ''a'', example_element 1 None ''a'']))"
proof -
  let ?s = "example_snapshot [example_element 0 None ''a'', example_element 1 None ''a'']"
  have "distinct (map del_index (dsn_elements ?s))" "distinct (List.map_filter del_element_ref (dsn_elements ?s))"
    "list_all (\<lambda>e. distinct (map fst (del_attributes e)) \<and>
      bounding_box_eq example_floats (del_bounding_box e) (del_bounding_box e)) (dsn_elements ?s)"
    by (simp_all add: example_snapshot_def example_element_def map_filter_def bounding_box_eq_def)
  from diff_with_itself_unchanged [OF this] show ?thesis by simp
qed

end
