(* ===== verification/Spec2Isabelle.thy ===== *)
theory Spec2Isabelle
  imports
  Rub_Fence Rub_Cache Rub_Trigger Rub_Orchestration Rub_Network Rub_Post_Commit Rub_Ingress
  Rub_Interference Rub_Requests Rub_Secrets Rub_Dom_Diff
begin

text \<open>
  Verification of \<^verbatim>\<open>rub\<close>, a browser-automation command line with one daemon per session. The command
  line sends requests over a Unix socket; the daemon admits them through the replay fence, runs them one
  at a time (shared reads apart) against the browser over CDP, and keeps the state of the session in
  registries that browser events and background workers update concurrently. The development models the
  transport, the fence and the registries, that is, everything between the socket and the browser port
  that decides what is executed, what is remembered and what a client may conclude from an answer.

  \<^bold>\<open>Theories and sources\<close> (paths under \<^verbatim>\<open>src/crates\<close>).
  \<^item> \<open>Rub_Prelude\<close>: machine integers, container idioms, generic lemmas. \<open>Rub_Interfaces\<close>: the contracts
    that registries share, as locales: \<open>event_log\<close>, \<open>exact_event_log\<close>, \<open>accounted_log\<close>, \<open>generation_fence\<close>,
    \<open>browser_surface\<close>, \<open>bounded_cache\<close>, \<open>replay_authority\<close>. Each is interpreted on the definitions of the
    components that provide it.
  \<^item> \<open>Rub_Json\<close>, \<open>Rub_Error\<close>, \<open>Rub_Command\<close>, \<open>Rub_Workflow_Policy\<close>: JSON values, errors
    (\<^verbatim>\<open>rub-core/src/error.rs\<close>), the command manifest with the epoch and handoff policies
    (\<^verbatim>\<open>rub-core/src/command.rs\<close>, \<^verbatim>\<open>rub-daemon/src/router/policy\<close>), the workflow policy. Wire names and
    commands correspond one to one; a command that may have committed is never retried blindly; no
    browser mutation passes the handoff gate.
  \<^item> \<open>Rub_Codec\<close>, \<open>Rub_Protocol\<close> (\<^verbatim>\<open>rub-ipc/src/codec.rs\<close>, \<^verbatim>\<open>protocol.rs\<close>): framing and message contracts.
    Frames are read back however the stream is cut; exactly the stated requests are admitted; an
    accepted response belongs to its request.
  \<^item> \<open>Rub_Replay\<close>, \<open>Rub_Fence\<close> (\<^verbatim>\<open>rub-daemon/src/session/cache.rs\<close>, \<^verbatim>\<open>router/transaction.rs\<close>): the replay
    state and the concurrent requests over it, a step relation with one step per lock section. A command
    id enters execution at most once, a replayed answer is the one its execution gave, no fence leaks.
  \<^item> \<open>Rub_History\<close>, \<open>Rub_Cache\<close>: command history, workflow capture, locator memo and snapshot cache. What is
    retained is exact and complete within the stated limits.
  \<^item> \<open>Rub_Automation\<close>, \<open>Rub_Trigger\<close>, \<open>Rub_Orchestration\<close>: the automation registries. A late outcome is
    applied exactly when no lifecycle change came in between; counts, baselines and logs are
    consistent in every reachable state; the older of two readings never replaces the newer one.
  \<^item> \<open>Rub_Downloads\<close>, \<open>Rub_Observatory\<close>, \<open>Rub_Network\<close>: downloads, browser events and network requests, and
    the commands that query them. An authoritative window contains all it should; the wait loop,
    the timeline query and the \<^verbatim>\<open>curl\<close> export are characterised exactly, including where they fall
    short of their description.
  \<^item> \<open>Rub_Surfaces\<close>: dialogs, frames, runtime state, storage ledger, handoff and takeover surfaces, network
    rules and the integration projection. The newest dialog event wins in any order of arrival; the
    frame lineage is computed in bounded time on every inventory.
  \<^item> \<open>Rub_Takeover\<close> (\<^verbatim>\<open>router/runtime/takeover.rs\<close>, \<^verbatim>\<open>runtime_refresh\<close>): the handoff and takeover
    commands. Resuming automation fails closed.
  \<^item> \<open>Rub_Interference\<close> (\<^verbatim>\<open>interference*.rs\<close>, \<^verbatim>\<open>router/interference.rs\<close>): the interference surface, its
    classifier, its recovery and its command. The surface is well formed and its primary context cannot
    be hijacked; a recovery succeeds only behind its fence and always ends.
  \<^item> \<open>Rub_Ingress\<close> (\<^verbatim>\<open>session/runtime/browser_events\<close>): the channels and the worker that carry browser events
    into the dialog and download registries, at the granularity of their interleaving. Events are applied
    in the order of their numbers, none is lost without a trace, the worker cannot stall on a dropped
    number, the queues are bounded as far as the code bounds them.
  \<^item> \<open>Rub_Post_Commit\<close> (\<^verbatim>\<open>session/cache.rs\<close>): the queue between committed commands and the history and capture
    views, with its drains. No wake-up is lost, every submission is accounted for, the queue is bounded.
  \<^item> \<open>Rub_Correlation\<close> (\<^verbatim>\<open>rub-cdp/src/request_correlation.rs\<close>): the registry that carries what a network rule
    did to a request to the observer of that request. Its indexes refine one list of entries; an entry is
    attributed once and to the right request; the registry is bounded in number and age.
  \<^item> \<open>Rub_Requests\<close> (\<^verbatim>\<open>rub-cdp/src/runtime_observatory\<close>): the registry of the requests in flight on a page and the
    four listeners that turn network events into request records, at the granularity of their
    interleaving. The registry is consistent and bounded; a request observed in order is reported
    complete; a response handled after the end of its request hides the body already reported.
  \<^item> \<open>Rub_Secrets\<close> (\<^verbatim>\<open>router/secret_resolution.rs\<close>): secret references in specifications. Resolution is exact,
    with its error; what was resolved is hidden behind a reference to the same value when it is reported.
  \<^item> \<open>Rub_Dom_Diff\<close> (\<^verbatim>\<open>rub-cdp/src/dom/diff.rs\<close>): the comparison of two snapshots. It accounts for every element of
    both, and a snapshot does not differ from itself.

  \<^bold>\<open>How code becomes definitions.\<close> A struct is a \<open>record\<close>, an enum a \<open>datatype\<close>, a method a function of the
  state that returns the code's result and the next state, with every early return a branch. \<^verbatim>\<open>u16\<close>, \<^verbatim>\<open>u32\<close>
  and \<^verbatim>\<open>u64\<close> are words, so counters wrap where the release build wraps; \<^verbatim>\<open>usize\<close> is a natural number. Strings
  are byte strings. The clock, fresh ids, the answers of the browser port and the code that \<^verbatim>\<open>serde\<close>
  derives (decoders, serializers, JSON lengths and numbers) are arguments.

  \<^bold>\<open>Bounds.\<close> The limits of the code (64 events, 128 snapshots, 1024 request records and so on) are
  constants of the model. Theorems about sequence numbers assume fewer than \<open>2 ^ 64 - 1\<close> numbered
  events in a session, after which the counters wrap. Loops are structural or come with a termination
  proof; the network wait and the recovery fence run over the list of their polls, and end undecided
  when the list does (sixteen polls always decide a recovery). Fuel occurs once, in the drain loop of
  the event worker taken on its own, and the number of pending events is enough.

  \<^bold>\<open>Not modelled.\<close> The rest of the CDP adapter (\<^verbatim>\<open>rub-cdp\<close>) and the process, socket and file handling of the daemon and
  the command line are input and output; what they deliver is an input of the model. Also left out so far,
  although they are logic: the workers that evaluate triggers and orchestration rules, workflow
  parameters, the file format of the secrets, the post-commit journal, the scheduler's counters, the session registry,
  locator resolution and extraction, the handlers of the router other than those named above, and the timeout
  budgets of the command line.
\<close>

end
